(* ===== verification/Prelude.thy ===== *)
theory Prelude
  imports Main "HOL-Library.AList" "HOL-Library.Sublist"
begin

text \<open>
  The shared prelude of the ZenZip development: the collections of simplification rules the
  component theories add to, the result type that models a JavaScript call that may throw, the
  JavaScript \<open>Map\<close> (an association list in insertion order, keys distinct), and the part of
  the JavaScript string library the sources use (\<open>split\<close>, \<open>join\<close>, \<open>startsWith\<close>,
  \<open>endsWith\<close>, \<open>includes\<close>, \<open>trim\<close>, \<open>toLowerCase\<close>, decimal printing).
  A JavaScript string is a list of code units; the model has the units 0 to 255 (type
  \<^typ>\<open>char\<close>), which covers every literal of the sources.
\<close>

named_theorems res_simps \<open>evaluation of the result monad\<close>
named_theorems jsmap_simps \<open>lookup, insertion and deletion on JavaScript maps\<close>
named_theorems str_simps \<open>the JavaScript string library\<close>

section \<open>Results: a call returns a value or throws\<close>

type_synonym ('e, 'a) res = "'e + 'a"

abbreviation Ok :: "'a \<Rightarrow> ('e, 'a) res" where "Ok \<equiv> Inr"
abbreviation Throw :: "'e \<Rightarrow> ('e, 'a) res" where "Throw \<equiv> Inl"

definition rbind :: "('e, 'a) res \<Rightarrow> ('a \<Rightarrow> ('e, 'b) res) \<Rightarrow> ('e, 'b) res" where
  "rbind m f = (case m of Inl e \<Rightarrow> Inl e | Inr a \<Rightarrow> f a)"

definition guard_throw :: "bool \<Rightarrow> 'e \<Rightarrow> ('e, unit) res" where
  "guard_throw bad e = (if bad then Throw e else Ok ())"

lemma rbind_simps [simp, res_simps]:
  "rbind (Inl e) f = Inl e"
  "rbind (Inr a) f = f a"
  by (simp_all add: rbind_def)

lemma rbind_Inr_iff [res_simps]: "rbind m f = Inr b \<longleftrightarrow> (\<exists>a. m = Inr a \<and> f a = Inr b)"
  by (cases m) auto

lemma rbind_Inl_iff [res_simps]:
  "rbind m f = Inl e \<longleftrightarrow> m = Inl e \<or> (\<exists>a. m = Inr a \<and> f a = Inl e)"
  by (cases m) auto

lemma rbind_assoc: "rbind (rbind m f) g = rbind m (\<lambda>x. rbind (f x) g)"
  by (cases m) auto

lemma guard_throw_simps [simp, res_simps]:
  "guard_throw True e = Inl e"
  "guard_throw False e = Inr ()"
  by (simp_all add: guard_throw_def)

lemma guard_throw_Inr_iff [res_simps]: "guard_throw b e = Inr u \<longleftrightarrow> \<not> b"
  by (simp add: guard_throw_def)

text \<open>A loop over a list that stops at the first throw, collecting the results.\<close>

fun rmap :: "('a \<Rightarrow> ('e, 'b) res) \<Rightarrow> 'a list \<Rightarrow> ('e, 'b list) res" where
  "rmap f [] = Ok []"
| "rmap f (x # xs) = rbind (f x) (\<lambda>y. rbind (rmap f xs) (\<lambda>ys. Ok (y # ys)))"

lemma rmap_length: "rmap f xs = Inr ys \<Longrightarrow> length ys = length xs"
  by (induction xs arbitrary: ys) (auto simp: res_simps)

lemma rmap_Ok_all: "(\<And>x. x \<in> set xs \<Longrightarrow> f x = Inr (g x)) \<Longrightarrow> rmap f xs = Inr (map g xs)"
  by (induction xs) auto

lemma map_filter_cong [fundef_cong]:
  "xs = ys \<Longrightarrow> (\<And>x. x \<in> set ys \<Longrightarrow> f x = g x) \<Longrightarrow> List.map_filter f xs = List.map_filter g ys"
  by (induction xs arbitrary: ys) (auto simp: List.map_filter_simps split: option.split)

lemma map_filter_append: "List.map_filter f (xs @ ys) = List.map_filter f xs @ List.map_filter f ys"
  by (simp add: List.map_filter_def)

section \<open>JavaScript maps\<close>

type_synonym ('k, 'v) jsmap = "('k \<times> 'v) list"

abbreviation map_get :: "('k, 'v) jsmap \<Rightarrow> 'k \<Rightarrow> 'v option" where
  "map_get \<equiv> map_of"

abbreviation map_set :: "'k \<Rightarrow> 'v \<Rightarrow> ('k, 'v) jsmap \<Rightarrow> ('k, 'v) jsmap" where
  "map_set \<equiv> AList.update"

abbreviation map_delete :: "'k \<Rightarrow> ('k, 'v) jsmap \<Rightarrow> ('k, 'v) jsmap" where
  "map_delete \<equiv> AList.delete"

definition map_has :: "('k, 'v) jsmap \<Rightarrow> 'k \<Rightarrow> bool" where
  "map_has m k \<longleftrightarrow> map_get m k \<noteq> None"

definition map_keys :: "('k, 'v) jsmap \<Rightarrow> 'k list" where
  "map_keys m = map fst m"

definition jsmap_ok :: "('k, 'v) jsmap \<Rightarrow> bool" where
  "jsmap_ok m \<longleftrightarrow> distinct (map fst m)"

lemma map_has_iff: "map_has m k \<longleftrightarrow> k \<in> set (map_keys m)"
  by (simp add: map_has_def map_keys_def map_of_eq_None_iff)

lemma map_get_set [jsmap_simps]: "map_get (map_set k v m) = (map_get m)(k \<mapsto> v)"
  by (rule update_conv')

lemma map_get_delete [jsmap_simps]: "map_get (map_delete k m) = (map_get m)(k := None)"
  by (rule delete_conv')

lemma jsmap_ok_empty [simp]: "jsmap_ok []"
  by (simp add: jsmap_ok_def)

lemma jsmap_ok_set [jsmap_simps, intro]: "jsmap_ok m \<Longrightarrow> jsmap_ok (map_set k v m)"
  by (simp add: jsmap_ok_def distinct_update)

lemma jsmap_ok_delete [jsmap_simps, intro]: "jsmap_ok m \<Longrightarrow> jsmap_ok (map_delete k m)"
  by (simp add: jsmap_ok_def distinct_delete)

lemma map_set_new: "\<not> map_has m k \<Longrightarrow> map_set k v m = m @ [(k, v)]"
  by (induction m) (auto simp: map_has_def split: if_splits)

lemma map_has_set [jsmap_simps]: "map_has (map_set k v m) k' \<longleftrightarrow> k = k' \<or> map_has m k'"
  by (simp add: map_has_def map_get_set)

lemma map_keys_set:
  "map_keys (map_set k v m) = (if map_has m k then map_keys m else map_keys m @ [k])"
  by (induction m) (auto simp: map_keys_def map_has_def)

text \<open>The interface the clients of a keyed registry rely on, and the JavaScript map as its model.\<close>

locale registry =
  fixes lookup :: "'m \<Rightarrow> 'k \<Rightarrow> 'v option"
    and insert :: "'k \<Rightarrow> 'v \<Rightarrow> 'm \<Rightarrow> 'm"
    and empty :: 'm
    and invar :: "'m \<Rightarrow> bool"
  assumes lookup_empty: "lookup empty k = None"
    and lookup_insert: "invar m \<Longrightarrow> lookup (insert k v m) k' = (if k' = k then Some v else lookup m k')"
    and invar_empty: "invar empty"
    and invar_insert: "invar m \<Longrightarrow> invar (insert k v m)"
begin

lemma insert_all_invar: "invar m \<Longrightarrow> invar (fold (\<lambda>(k, v). insert k v) kvs m)"
  by (induction kvs arbitrary: m) (auto intro: invar_insert)

lemma lookup_insert_all:
  "invar m \<Longrightarrow> lookup (fold (\<lambda>(k, v). insert k v) kvs m) k =
     (case map_of (rev kvs) k of Some v \<Rightarrow> Some v | None \<Rightarrow> lookup m k)"
proof (induction kvs arbitrary: m)
  case Nil
  then show ?case by simp
next
  case (Cons kv kvs)
  obtain a b where kv: "kv = (a, b)" by (cases kv)
  from Cons.prems have "invar (insert a b m)" by (rule invar_insert)
  from Cons.IH [OF this] Cons.prems kv show ?case
    by (auto simp: lookup_insert map_add_def split: option.splits)
qed

end

interpretation js_registry: registry map_get map_set "[]" jsmap_ok
  by unfold_locales (auto simp: jsmap_simps)

section \<open>JavaScript strings\<close>

definition startsWith :: "'a list \<Rightarrow> 'a list \<Rightarrow> bool" where
  "startsWith s p \<longleftrightarrow> take (length p) s = p"

definition endsWith :: "'a list \<Rightarrow> 'a list \<Rightarrow> bool" where
  "endsWith s p \<longleftrightarrow> length p \<le> length s \<and> drop (length s - length p) s = p"

fun str_includes :: "'a list \<Rightarrow> 'a list \<Rightarrow> bool" where
  "str_includes [] p = (p = [])"
| "str_includes (c # cs) p = (startsWith (c # cs) p \<or> str_includes cs p)"

fun split_on :: "'a \<Rightarrow> 'a list \<Rightarrow> 'a list list" where
  "split_on c [] = [[]]"
| "split_on c (x # xs) =
     (if x = c then [] # split_on c xs
      else (case split_on c xs of [] \<Rightarrow> [[x]] | y # ys \<Rightarrow> (x # y) # ys))"

fun join_with :: "'a list \<Rightarrow> 'a list list \<Rightarrow> 'a list" where
  "join_with sep [] = []"
| "join_with sep [x] = x"
| "join_with sep (x # y # ys) = x @ sep @ join_with sep (y # ys)"

lemma startsWith_iff: "startsWith s p \<longleftrightarrow> (\<exists>t. s = p @ t)"
  by (auto simp: startsWith_def) (metis append_take_drop_id)

lemma startsWith_append [simp, str_simps]: "startsWith (p @ t) p"
  by (simp add: startsWith_def)

lemma startsWith_Nil [simp, str_simps]: "startsWith s []"
  by (simp add: startsWith_def)

lemma startsWith_Cons [simp, str_simps]:
  "startsWith (x # xs) (y # ys) \<longleftrightarrow> x = y \<and> startsWith xs ys"
  by (simp add: startsWith_def)

lemma startsWith_Nil_Cons [simp, str_simps]: "startsWith [] (y # ys) \<longleftrightarrow> False"
  by (simp add: startsWith_def)

lemma startsWith_append_iff:
  "length a = length p \<Longrightarrow> startsWith (a @ t) p \<longleftrightarrow> a = p"
  by (simp add: startsWith_def)

lemma endsWith_iff: "endsWith s p \<longleftrightarrow> (\<exists>t. s = t @ p)"
proof
  assume "endsWith s p"
  then have "s = take (length s - length p) s @ p"
    unfolding endsWith_def by (metis append_take_drop_id)
  then show "\<exists>t. s = t @ p" by blast
next
  assume "\<exists>t. s = t @ p"
  then show "endsWith s p" by (auto simp: endsWith_def)
qed

lemma endsWith_append [simp, str_simps]: "endsWith (t @ p) p"
  by (auto simp: endsWith_iff)

lemma includes_iff: "str_includes s p \<longleftrightarrow> (\<exists>a b. s = a @ p @ b)"
proof (induction s)
  case Nil
  then show ?case by auto
next
  case (Cons c cs)
  show ?case
  proof
    assume "str_includes (c # cs) p"
    then consider "startsWith (c # cs) p" | "str_includes cs p" by auto
    then show "\<exists>a b. c # cs = a @ p @ b"
    proof cases
      case 1
      then obtain t where "c # cs = p @ t" by (auto simp: startsWith_iff)
      then have "c # cs = [] @ p @ t" by simp
      then show ?thesis by blast
    next
      case 2
      with Cons.IH obtain a b where "cs = a @ p @ b" by auto
      then have "c # cs = (c # a) @ p @ b" by simp
      then show ?thesis by blast
    qed
  next
    assume "\<exists>a b. c # cs = a @ p @ b"
    then obtain a b where ab: "c # cs = a @ p @ b" by blast
    show "str_includes (c # cs) p"
    proof (cases a)
      case Nil
      with ab have "startsWith (c # cs) p" by simp
      then show ?thesis by simp
    next
      case (Cons d a')
      with ab have "cs = a' @ p @ b" by simp
      then show ?thesis using Cons.IH by auto
    qed
  qed
qed

lemma split_on_not_Nil [simp]: "split_on c xs \<noteq> []"
  by (induction xs) (auto split: list.splits)

lemma join_with_Cons:
  "ys \<noteq> [] \<Longrightarrow> join_with sep (x # ys) = x @ sep @ join_with sep ys"
  by (cases ys) auto

lemma join_split_on [str_simps]: "join_with [c] (split_on c xs) = xs"
proof (induction xs)
  case Nil
  then show ?case by simp
next
  case (Cons x xs)
  obtain y ys where s: "split_on c xs = y # ys" by (cases "split_on c xs") auto
  show ?case
  proof (cases "x = c")
    case True
    then show ?thesis using Cons.IH by (simp add: join_with_Cons)
  next
    case False
    then show ?thesis using Cons.IH s by (cases ys) auto
  qed
qed

lemma split_on_no_sep: "c \<notin> set xs \<Longrightarrow> split_on c xs = [xs]"
  by (induction xs) auto

lemma split_on_append:
  "c \<notin> set a \<Longrightarrow> split_on c (a @ c # b) = a # split_on c b"
  by (induction a) auto

lemma split_on_parts: "seg \<in> set (split_on c xs) \<Longrightarrow> c \<notin> set seg"
proof (induction xs arbitrary: seg)
  case Nil
  then show ?case by simp
next
  case (Cons x xs)
  obtain y ys where s: "split_on c xs = y # ys" by (cases "split_on c xs") auto
  show ?case
  proof (cases "x = c")
    case True
    with Cons show ?thesis by auto
  next
    case False
    with s Cons.prems have "seg = x # y \<or> seg \<in> set ys" by auto
    with Cons.IH s False show ?thesis by auto
  qed
qed

lemma split_join:
  "xss \<noteq> [] \<Longrightarrow> (\<And>s. s \<in> set xss \<Longrightarrow> c \<notin> set s) \<Longrightarrow> split_on c (join_with [c] xss) = xss"
proof (induction xss)
  case Nil
  then show ?case by simp
next
  case (Cons x xss)
  show ?case
  proof (cases xss)
    case Nil
    with Cons.prems show ?thesis by (simp add: split_on_no_sep)
  next
    case (Cons y ys)
    with Cons.IH Cons.prems have "split_on c (join_with [c] xss) = xss" by auto
    with Cons Cons.prems show ?thesis by (simp add: split_on_append)
  qed
qed

subsection \<open>Characters, case folding, white space\<close>

definition code :: "char \<Rightarrow> nat" where
  "code c = of_char c"

definition toLowerC :: "char \<Rightarrow> char" where
  "toLowerC c =
     (let n = code c
      in if (65 \<le> n \<and> n \<le> 90) \<or> (192 \<le> n \<and> n \<le> 222 \<and> n \<noteq> 215) then char_of (n + 32) else c)"

definition toUpperC :: "char \<Rightarrow> char" where
  "toUpperC c =
     (let n = code c
      in if (97 \<le> n \<and> n \<le> 122) \<or> (224 \<le> n \<and> n \<le> 254 \<and> n \<noteq> 247) then char_of (n - 32) else c)"

definition toLowerCase :: "string \<Rightarrow> string" where
  "toLowerCase s = map toLowerC s"

definition toUpperCase :: "string \<Rightarrow> string" where
  "toUpperCase s = map toUpperC s"

definition is_space :: "char \<Rightarrow> bool" where
  "is_space c \<longleftrightarrow> code c \<in> {9, 10, 11, 12, 13, 32, 160}"

definition is_digit :: "char \<Rightarrow> bool" where
  "is_digit c \<longleftrightarrow> 48 \<le> code c \<and> code c \<le> 57"

definition is_alnum_us :: "char \<Rightarrow> bool" where
  "is_alnum_us c \<longleftrightarrow>
     is_digit c \<or> (65 \<le> code c \<and> code c \<le> 90) \<or> (97 \<le> code c \<and> code c \<le> 122) \<or> code c = 95"

definition trim :: "string \<Rightarrow> string" where
  "trim s = rev (dropWhile is_space (rev (dropWhile is_space s)))"

lemma code_char_of [simp]: "n < 256 \<Longrightarrow> code (char_of n) = n"
  by (simp add: code_def)

lemma char_of_code [simp]: "char_of (code c) = c"
  by (simp add: code_def)

lemma code_less [simp]: "code c < 256"
  by (simp add: code_def)

lemma code_inject [simp]: "code c = code d \<longleftrightarrow> c = d"
  by (simp add: code_def)

lemma toLowerC_idem [simp]: "toLowerC (toLowerC c) = toLowerC c"
  by (auto simp: toLowerC_def Let_def)

lemma toLowerCase_idem [simp, str_simps]: "toLowerCase (toLowerCase s) = toLowerCase s"
  by (simp add: toLowerCase_def)

lemma length_toLowerCase [simp]: "length (toLowerCase s) = length s"
  by (simp add: toLowerCase_def)

lemma toUpperC_idem [simp]: "toUpperC (toUpperC c) = toUpperC c"
  by (auto simp: toUpperC_def Let_def)

lemma toUpperCase_idem [simp, str_simps]: "toUpperCase (toUpperCase s) = toUpperCase s"
  by (simp add: toUpperCase_def)

lemma trim_no_space: "(\<And>c. c \<in> set s \<Longrightarrow> \<not> is_space c) \<Longrightarrow> trim s = s"
proof -
  assume a: "\<And>c. c \<in> set s \<Longrightarrow> \<not> is_space c"
  have "dropWhile is_space s = s" using a by (cases s) auto
  moreover have "dropWhile is_space (rev s) = rev s" using a by (cases "rev s") auto
  ultimately show ?thesis by (simp add: trim_def)
qed

subsection \<open>Decimal numerals\<close>

definition digit :: "nat \<Rightarrow> char" where
  "digit d = char_of (48 + d)"

fun digits10 :: "nat \<Rightarrow> string" where
  "digits10 n = (if n < 10 then [digit n] else digits10 (n div 10) @ [digit (n mod 10)])"

declare digits10.simps [simp del]

definition dec_value :: "string \<Rightarrow> nat" where
  "dec_value s = foldl (\<lambda>acc c. acc * 10 + (code c - 48)) 0 s"

definition int_str :: "int \<Rightarrow> string" where
  "int_str i = (if i < 0 then CHR ''-'' # digits10 (nat (- i)) else digits10 (nat i))"

lemma digit_code: "d < 10 \<Longrightarrow> code (digit d) = 48 + d"
  by (simp add: digit_def)

lemma is_digit_digit: "d < 10 \<Longrightarrow> is_digit (digit d)"
  by (simp add: is_digit_def digit_code)

lemma digits10_digits: "c \<in> set (digits10 n) \<Longrightarrow> is_digit c"
proof (induction n rule: digits10.induct)
  case (1 n)
  then show ?case
    by (subst (asm) digits10.simps) (auto simp: is_digit_digit split: if_splits)
qed

lemma digits10_not_Nil [simp]: "digits10 n \<noteq> []"
  by (subst digits10.simps) simp

lemma dec_value_snoc: "dec_value (s @ [c]) = dec_value s * 10 + (code c - 48)"
  by (simp add: dec_value_def)

lemma dec_value_digits10 [simp]: "dec_value (digits10 n) = n"
proof (induction n rule: digits10.induct)
  case (1 n)
  show ?case
  proof (cases "n < 10")
    case True
    then show ?thesis by (subst digits10.simps) (simp add: dec_value_def digit_code)
  next
    case False
    then have "dec_value (digits10 (n div 10)) = n div 10" by (rule "1.IH")
    with False show ?thesis
      by (subst digits10.simps) (simp add: dec_value_snoc digit_code)
  qed
qed

lemma digits10_inject: "digits10 m = digits10 n \<longleftrightarrow> m = n"
  by (metis dec_value_digits10)

lemma digits10_no_char: "\<not> is_digit c \<Longrightarrow> c \<notin> set (digits10 n)"
  using digits10_digits by blast

lemma digits10_hd_zero: "0 < n \<Longrightarrow> hd (digits10 n) \<noteq> CHR ''0''"
proof (induction n rule: digits10.induct)
  case (1 n)
  show ?case
  proof (cases "n < 10")
    case True
    with "1.prems" have "code (hd (digits10 n)) \<noteq> code (CHR ''0'')"
      by (subst digits10.simps) (simp add: digit_code, simp add: code_def)
    then show ?thesis by auto
  next
    case False
    then have "0 < n div 10" by simp
    with False "1.IH" have "hd (digits10 (n div 10)) \<noteq> CHR ''0''" by simp
    with False show ?thesis by (subst digits10.simps) (simp add: hd_append)
  qed
qed

lemma int_str_inject: "int_str i = int_str j \<longleftrightarrow> i = j"
proof
  assume eq: "int_str i = int_str j"
  have minus: "CHR ''-'' \<notin> set (digits10 n)" for n
    by (rule digits10_no_char) (simp add: is_digit_def code_def)
  have cons: "CHR ''-'' # a \<noteq> digits10 n" for a n
    using minus [of n] by (metis list.set_intros(1))
  show "i = j"
  proof (cases "i < 0")
    case True
    then show ?thesis using eq cons by (auto simp: int_str_def digits10_inject split: if_splits)
  next
    case False
    then show ?thesis using eq cons [symmetric]
      by (auto simp: int_str_def digits10_inject split: if_splits)
  qed
qed simp

end
