(* ===== verification/Jobs.thy ===== *)
theory Jobs
  imports Prelude "HOL-Library.Multiset"
begin

text \<open>
  The job table behind the queues (\<open>crates/zenzip-core/src/sqlite.rs\<close>, statements of \<open>push\<close>, \<open>claim\<close>,
  \<open>ack\<close>, \<open>fail_retry\<close>, \<open>fail_dead\<close>, \<open>renew_leases\<close>, \<open>sweep_expired\<close>, \<open>requeue_dead\<close>,
  \<open>purge_dead\<close>) and how a worker settles a job (\<open>run_group\<close> of \<open>queue.rs\<close>). Each SQL update is a
  function on the list of rows; workers, the sweeper and operators interleave as a step relation. Ids
  are numbers in creation order (the engine's are time-ordered UUIDs); a claim has its three
  forms: by priority and age, with a limit per concurrency key, and fair over the keys.
\<close>

section \<open>The table\<close>

datatype job_status = JPending | JRunning | JDead

record job =
  j_id :: nat
  j_queue :: string
  j_payload :: string
  j_status :: job_status
  j_priority :: int
  j_attempt :: nat
  j_max :: nat
  j_available :: int
  j_lease :: "int option"
  j_fence :: nat
  j_key :: "string option"
  j_debounce :: "string option"
  j_error :: "string option"

record push_job =
  pj_queue :: string
  pj_payload :: string
  pj_priority :: int
  pj_delay :: int
  pj_max :: nat
  pj_key :: "string option"
  pj_debounce :: "string option"
  pj_throttle :: "(string \<times> int) option"

record jobs_db =
  jobs :: "job list"
  next_id :: nat
  cursors :: "(string \<times> string, int) jsmap"

definition update_where :: "(job \<Rightarrow> bool) \<Rightarrow> (job \<Rightarrow> job) \<Rightarrow> jobs_db \<Rightarrow> jobs_db" where
  "update_where P f db = db\<lparr>jobs := map (\<lambda>j. if P j then f j else j) (jobs db)\<rparr>"

definition delete_where :: "(job \<Rightarrow> bool) \<Rightarrow> jobs_db \<Rightarrow> jobs_db" where
  "delete_where P db = db\<lparr>jobs := filter (\<lambda>j. \<not> P j) (jobs db)\<rparr>"

definition count_where :: "(job \<Rightarrow> bool) \<Rightarrow> jobs_db \<Rightarrow> nat" where
  "count_where P db = length (filter P (jobs db))"

section \<open>Statements\<close>

definition debounced :: "push_job \<Rightarrow> job \<Rightarrow> bool" where
  "debounced p j \<longleftrightarrow> pj_debounce p \<noteq> None \<and> j_queue j = pj_queue p \<and> j_status j = JPending \<and> j_debounce j = pj_debounce p"

definition throttle_start :: "int \<Rightarrow> push_job \<Rightarrow> jobs_db \<Rightarrow> int \<times> jobs_db" where
  "throttle_start now p db =
     (case pj_throttle p of
        None \<Rightarrow> (now + max 0 (pj_delay p), db)
      | Some (tk, spacing) \<Rightarrow>
          (let start = max now (case map_get (cursors db) (pj_queue p, tk) of Some c \<Rightarrow> c | None \<Rightarrow> now)
           in (start, db\<lparr>cursors := map_set (pj_queue p, tk) (start + max 0 spacing) (cursors db)\<rparr>)))"

definition insert_job_row :: "int \<Rightarrow> push_job \<Rightarrow> jobs_db \<Rightarrow> nat \<times> jobs_db" where
  "insert_job_row now p db =
     (let db1 = delete_where (debounced p) db;
          (at, db2) = throttle_start now p db1;
          row = \<lparr>j_id = next_id db2, j_queue = pj_queue p, j_payload = pj_payload p, j_status = JPending,
                 j_priority = pj_priority p, j_attempt = 0, j_max = max 1 (pj_max p), j_available = at, j_lease = None,
                 j_fence = 0, j_key = pj_key p, j_debounce = pj_debounce p, j_error = None\<rparr>
      in (next_id db2, db2\<lparr>jobs := jobs db2 @ [row], next_id := next_id db2 + 1\<rparr>))"

fun push_jobs :: "int \<Rightarrow> push_job list \<Rightarrow> jobs_db \<Rightarrow> nat list \<times> jobs_db" where
  "push_jobs now [] db = ([], db)"
| "push_jobs now (p # ps) db =
     (let (i, db1) = insert_job_row now p db; (is, db2) = push_jobs now ps db1 in (i # is, db2))"

record claimed_job =
  c_id :: nat
  c_payload :: string
  c_attempt :: nat
  c_max :: nat
  c_fence :: nat

definition claimable :: "string \<Rightarrow> int \<Rightarrow> job \<Rightarrow> bool" where
  "claimable q now j \<longleftrightarrow> j_queue j = q \<and> j_status j = JPending \<and> j_available j \<le> now"

definition claim_order :: "job list \<Rightarrow> job list" where
  "claim_order js = sort_key (\<lambda>j. - j_priority j) (sort_key j_id js)"

text \<open>
  The window functions: a row's number within its concurrency key (rows without a key form one
  partition) by priority and age, and its rank once the running jobs of the key are counted in.
\<close>

definition precedes :: "job \<Rightarrow> job \<Rightarrow> bool" where
  "precedes j k \<longleftrightarrow> j_priority j > j_priority k \<or> (j_priority j = j_priority k \<and> j_id j < j_id k)"

definition row_number :: "job list \<Rightarrow> job \<Rightarrow> nat" where
  "row_number cl j = 1 + length (filter (\<lambda>k. j_key k = j_key j \<and> precedes k j) cl)"

definition running_with_key :: "string \<Rightarrow> string \<Rightarrow> jobs_db \<Rightarrow> nat" where
  "running_with_key q key db = count_where (\<lambda>r. j_queue r = q \<and> j_status r = JRunning \<and> j_key r = Some key) db"

definition key_cap :: "nat option \<Rightarrow> int" where
  "key_cap key_limit = (case key_limit of None \<Rightarrow> 2 ^ 63 - 1 | Some n \<Rightarrow> int n)"

definition within_cap :: "nat option \<Rightarrow> jobs_db \<Rightarrow> job list \<Rightarrow> job \<Rightarrow> bool" where
  "within_cap key_limit db cl j =
     (case j_key j of
        None \<Rightarrow> True
      | Some key \<Rightarrow> int (running_with_key (j_queue j) key db + row_number cl j) \<le> key_cap key_limit)"

definition picked :: "string \<Rightarrow> nat \<Rightarrow> nat option \<Rightarrow> bool \<Rightarrow> int \<Rightarrow> jobs_db \<Rightarrow> job list" where
  "picked q limit key_limit fair now db =
     (let cl = filter (claimable q now) (jobs db)
      in take limit
           (if fair then sort_key (row_number cl) (claim_order (filter (within_cap key_limit db cl) cl))
            else if key_limit \<noteq> None then sort_key j_id (filter (within_cap key_limit db cl) cl)
            else claim_order cl))"

definition take_lease :: "int \<Rightarrow> job \<Rightarrow> job" where
  "take_lease until j = j\<lparr>j_status := JRunning, j_attempt := j_attempt j + 1, j_lease := Some until, j_fence := j_fence j + 1\<rparr>"

definition claimed_of :: "job \<Rightarrow> claimed_job" where
  "claimed_of j = \<lparr>c_id = j_id j, c_payload = j_payload j, c_attempt = j_attempt j, c_max = j_max j, c_fence = j_fence j\<rparr>"

definition claim_jobs ::
    "string \<Rightarrow> nat \<Rightarrow> int \<Rightarrow> nat option \<Rightarrow> bool \<Rightarrow> int \<Rightarrow> jobs_db \<Rightarrow> claimed_job list \<times> jobs_db" where
  "claim_jobs q limit lease_ms key_limit fair now db =
     (let ps = picked q limit key_limit fair now db
      in (map (\<lambda>j. claimed_of (take_lease (now + lease_ms) j)) (claim_order ps),
          update_where (\<lambda>j. j_id j \<in> j_id ` set ps) (take_lease (now + lease_ms)) db))"

definition held :: "nat \<Rightarrow> nat \<Rightarrow> job \<Rightarrow> bool" where
  "held i fence j \<longleftrightarrow> j_id j = i \<and> j_fence j = fence"

definition ack :: "nat \<Rightarrow> nat \<Rightarrow> jobs_db \<Rightarrow> jobs_db" where
  "ack i fence db = delete_where (held i fence) db"

definition fail_retry :: "nat \<Rightarrow> string \<Rightarrow> int \<Rightarrow> nat \<Rightarrow> jobs_db \<Rightarrow> jobs_db" where
  "fail_retry i err at fence db =
     update_where (held i fence) (\<lambda>j. j\<lparr>j_status := JPending, j_available := at, j_error := Some err, j_lease := None\<rparr>) db"

definition fail_dead :: "nat \<Rightarrow> string \<Rightarrow> nat \<Rightarrow> jobs_db \<Rightarrow> jobs_db" where
  "fail_dead i err fence db = update_where (held i fence) (\<lambda>j. j\<lparr>j_status := JDead, j_error := Some err, j_lease := None\<rparr>) db"

definition renew_lease :: "nat \<Rightarrow> nat \<Rightarrow> int \<Rightarrow> jobs_db \<Rightarrow> jobs_db" where
  "renew_lease i fence until db =
     update_where (\<lambda>j. held i fence j \<and> j_status j = JRunning) (\<lambda>j. j\<lparr>j_lease := Some until\<rparr>) db"

definition expired :: "int \<Rightarrow> job \<Rightarrow> bool" where
  "expired now j \<longleftrightarrow> j_status j = JRunning \<and> (case j_lease j of Some l \<Rightarrow> l < now | None \<Rightarrow> False)"

definition sweep_expired :: "int \<Rightarrow> jobs_db \<Rightarrow> jobs_db" where
  "sweep_expired now db =
     update_where (expired now) (\<lambda>j. j\<lparr>j_status := JPending, j_lease := None, j_available := now\<rparr>)
       (update_where (\<lambda>j. expired now j \<and> j_attempt j \<ge> j_max j)
          (\<lambda>j. j\<lparr>j_status := JDead, j_lease := None,
                j_error := (case j_error j of None \<Rightarrow> Some ''lease expired'' | e \<Rightarrow> e)\<rparr>) db)"

definition requeue_dead :: "int \<Rightarrow> nat list \<Rightarrow> jobs_db \<Rightarrow> nat \<times> jobs_db" where
  "requeue_dead now is db =
     (count_where (\<lambda>j. j_id j \<in> set is \<and> j_status j = JDead) db,
      update_where (\<lambda>j. j_id j \<in> set is \<and> j_status j = JDead)
        (\<lambda>j. j\<lparr>j_status := JPending, j_attempt := 0, j_error := None, j_available := now\<rparr>) db)"

definition purge_dead :: "string \<Rightarrow> jobs_db \<Rightarrow> nat \<times> jobs_db" where
  "purge_dead q db = (count_where (\<lambda>j. j_queue j = q \<and> j_status j = JDead) db,
     delete_where (\<lambda>j. j_queue j = q \<and> j_status j = JDead) db)"

definition pending_count :: "string \<Rightarrow> jobs_db \<Rightarrow> nat" where
  "pending_count q db = count_where (\<lambda>j. j_queue j = q \<and> j_status j = JPending) db"

text \<open>How a worker settles a claimed job; \<open>Some err\<close> is the handler's error, \<open>at\<close> the time of the retry.\<close>

definition settle_job :: "claimed_job \<Rightarrow> string option \<Rightarrow> int \<Rightarrow> jobs_db \<Rightarrow> jobs_db" where
  "settle_job c result at db =
     (case result of
        None \<Rightarrow> ack (c_id c) (c_fence c) db
      | Some err \<Rightarrow>
          if c_attempt c \<ge> c_max c then fail_dead (c_id c) err (c_fence c) db
          else fail_retry (c_id c) err at (c_fence c) db)"

section \<open>Workers, sweeper and operators together\<close>

type_synonym claim_configs = "string \<Rightarrow> (nat option \<times> bool) set"

inductive job_step :: "claim_configs \<Rightarrow> jobs_db \<times> claimed_job list \<Rightarrow> jobs_db \<times> claimed_job list \<Rightarrow> bool" for C where
  push: "job_step C (db, cs) (snd (insert_job_row now p db), cs)"
| claim: "(key_limit, fair) \<in> C q \<Longrightarrow> claim_jobs q limit lease_ms key_limit fair now db = (new, db') \<Longrightarrow> job_step C (db, cs) (db', cs @ new)"
| settle: "c \<in> set cs \<Longrightarrow> job_step C (db, cs) (settle_job c result at db, remove1 c cs)"
| crash: "c \<in> set cs \<Longrightarrow> job_step C (db, cs) (db, remove1 c cs)"
| renew: "job_step C (db, cs) (renew_lease i fence until db, cs)"
| sweep: "job_step C (db, cs) (sweep_expired now db, cs)"
| requeue: "job_step C (db, cs) (snd (requeue_dead now is db), cs)"
| purge: "job_step C (db, cs) (snd (purge_dead q db), cs)"

definition empty_db :: jobs_db where
  "empty_db = \<lparr>jobs = [], next_id = 0, cursors = []\<rparr>"

inductive job_reach :: "claim_configs \<Rightarrow> jobs_db \<times> claimed_job list \<Rightarrow> bool" for C where
  init: "job_reach C (empty_db, [])"
| step: "job_reach C s \<Longrightarrow> job_step C s s' \<Longrightarrow> job_reach C s'"

text \<open>
  A row never exceeds its retry budget; a claim's fence is never ahead of the row's, two claims of one
  job have different fences, and a claim whose fence is current agrees with the row.
\<close>

definition row_ok :: "job \<Rightarrow> bool" where
  "row_ok j \<longleftrightarrow> j_attempt j \<le> j_max j \<and> (j_status j = JPending \<longrightarrow> j_attempt j < j_max j)"

definition claim_ok :: "jobs_db \<Rightarrow> claimed_job \<Rightarrow> bool" where
  "claim_ok db c \<longleftrightarrow> c_attempt c \<le> c_max c \<and> c_id c < next_id db \<and>
     (\<forall>j \<in> set (jobs db). j_id j = c_id c \<longrightarrow> c_fence c \<le> j_fence j \<and> j_max j = c_max c \<and>
        (j_fence j = c_fence c \<longrightarrow> j_attempt j \<le> c_attempt c))"

definition jobs_inv :: "jobs_db \<Rightarrow> claimed_job list \<Rightarrow> bool" where
  "jobs_inv db cs \<longleftrightarrow> distinct (map j_id (jobs db)) \<and> (\<forall>j \<in> set (jobs db). j_id j < next_id db \<and> row_ok j \<and> 1 \<le> j_max j) \<and>
     (\<forall>c \<in> set cs. claim_ok db c) \<and> distinct (map (\<lambda>c. (c_id c, c_fence c)) cs)"

lemma inv_update:
  assumes "jobs_inv db cs"
    and "\<And>j. j \<in> set (jobs db) \<Longrightarrow> P j \<Longrightarrow> j_id (f j) = j_id j \<and> j_max (f j) = j_max j \<and> j_fence (f j) = j_fence j \<and>
      j_attempt (f j) \<le> j_attempt j \<and> row_ok (f j)"
  shows "jobs_inv (update_where P f db) cs"
proof -
  define g where "g = (\<lambda>j. if P j then f j else j)"
  have g: "j_id (g j) = j_id j" "j_max (g j) = j_max j" "j_fence (g j) = j_fence j" "j_attempt (g j) \<le> j_attempt j" "row_ok (g j)"
    if "j \<in> set (jobs db)" for j
    using assms(2) [OF that] assms(1) that by (auto simp: g_def jobs_inv_def)
  have js: "jobs (update_where P f db) = map g (jobs db)" "next_id (update_where P f db) = next_id db"
    by (simp_all add: update_where_def g_def)
  have ids: "map j_id (map g (jobs db)) = map j_id (jobs db)" using g(1) by simp
  have claims: "claim_ok (update_where P f db) c" if "claim_ok db c" for c
    using that g by (fastforce simp: claim_ok_def js)
  show ?thesis
    using assms(1) ids claims g by (auto simp: jobs_inv_def js simp del: map_map)
qed

lemma inv_delete: "jobs_inv db cs \<Longrightarrow> jobs_inv (delete_where P db) cs"
  by (auto simp: jobs_inv_def delete_where_def claim_ok_def distinct_map inj_on_def)

lemma inv_fewer: "jobs_inv db cs \<Longrightarrow> jobs_inv db (remove1 c cs)"
  by (auto simp: jobs_inv_def distinct_map distinct_remove1 inj_on_def dest: notin_set_remove1)

lemma inv_settle:
  assumes inv: "jobs_inv db cs" and c: "c \<in> set cs"
  shows "jobs_inv (settle_job c result at db) cs"
proof -
  have ok: "claim_ok db c" using assms by (simp add: jobs_inv_def)
  show ?thesis
  proof (cases result)
    case None
    then show ?thesis using inv_delete [OF inv] by (simp add: settle_job_def ack_def)
  next
    case (Some err)
    show ?thesis
    proof (cases "c_attempt c \<ge> c_max c")
      case True
      have "jobs_inv (fail_dead (c_id c) err (c_fence c) db) cs" unfolding fail_dead_def
        by (rule inv_update [OF inv]) (use inv in \<open>auto simp: jobs_inv_def row_ok_def\<close>)
      then show ?thesis using Some True by (simp add: settle_job_def)
    next
      case False
      have "jobs_inv (fail_retry (c_id c) err at (c_fence c) db) cs" unfolding fail_retry_def
        by (rule inv_update [OF inv]) (use ok False in \<open>auto simp: claim_ok_def row_ok_def held_def\<close>)
      then show ?thesis using Some False by (simp add: settle_job_def)
    qed
  qed
qed

lemma inv_sweep: "jobs_inv db cs \<Longrightarrow> jobs_inv (sweep_expired now db) cs"
proof -
  assume inv: "jobs_inv db cs"
  let ?P = "\<lambda>j. expired now j \<and> j_attempt j \<ge> j_max j"
  let ?f = "\<lambda>j. j\<lparr>j_status := JDead, j_lease := None, j_error := (case j_error j of None \<Rightarrow> Some ''lease expired'' | e \<Rightarrow> e)\<rparr>"
  have 1: "jobs_inv (update_where ?P ?f db) cs"
    by (rule inv_update [OF inv]) (use inv in \<open>auto simp: jobs_inv_def row_ok_def\<close>)
  show ?thesis unfolding sweep_expired_def
    by (rule inv_update [OF 1]) (auto simp: update_where_def expired_def row_ok_def split: if_splits)
qed

lemma inv_push: "jobs_inv db cs \<Longrightarrow> jobs_inv (snd (insert_job_row now p db)) cs"
proof -
  assume "jobs_inv db cs"
  then have inv: "jobs_inv (delete_where (debounced p) db) cs" by (rule inv_delete)
  obtain at db2 where t: "throttle_start now p (delete_where (debounced p) db) = (at, db2)" by fastforce
  have eq: "jobs db2 = jobs (delete_where (debounced p) db)" "next_id db2 = next_id (delete_where (debounced p) db)"
    using t by (auto simp: throttle_start_def Let_def split: option.splits prod.splits)
  have inv2: "jobs_inv db2 cs" using inv eq by (simp add: jobs_inv_def claim_ok_def)
  show ?thesis
    using inv2 by (auto simp: insert_job_row_def t Let_def jobs_inv_def claim_ok_def row_ok_def)
qed

lemma set_claim_order [simp]: "set (claim_order js) = set js"
  by (simp add: claim_order_def)

lemma distinct_ids_sort_key: "distinct (map j_id (sort_key f js)) = distinct (map j_id js)"
  by (metis mset_eq_imp_distinct_iff mset_map mset_sort)

lemma distinct_ids_claim_order: "distinct (map j_id (claim_order js)) = distinct (map j_id js)"
  by (simp add: claim_order_def distinct_ids_sort_key)

lemma distinct_ids_filter: "distinct (map j_id js) \<Longrightarrow> distinct (map j_id (filter P js))"
  by (simp add: distinct_map inj_on_def)

lemma picked_sub: "set (picked q limit kl fair now db) \<subseteq> {j \<in> set (jobs db). claimable q now j}"
  by (auto simp: picked_def Let_def dest!: in_set_takeD split: if_splits)

lemma picked_distinct: "distinct (map j_id (jobs db)) \<Longrightarrow> distinct (map j_id (picked q limit kl fair now db))"
  unfolding picked_def Let_def
  by (simp add: take_map [symmetric] distinct_ids_sort_key distinct_ids_claim_order distinct_ids_filter)

lemma inv_claim:
  assumes inv: "jobs_inv db cs" and cl: "claim_jobs q limit lease_ms kl fair now db = (new, db')"
  shows "jobs_inv db' (cs @ new)"
proof -
  let ?ps = "picked q limit kl fair now db" and ?f = "take_lease (now + lease_ms)"
  have new: "new = map (\<lambda>j. claimed_of (?f j)) (claim_order ?ps)" and db': "db' = update_where (\<lambda>j. j_id j \<in> j_id ` set ?ps) ?f db"
    using cl by (simp_all add: claim_jobs_def Let_def)
  have d: "distinct (map j_id (jobs db))" using inv by (simp add: jobs_inv_def)
  have inps: "j \<in> set ?ps" if "j \<in> set (jobs db)" "j_id j \<in> j_id ` set ?ps" for j
    using that picked_sub [of q limit kl fair now db] d by (auto simp: distinct_map inj_on_def)
  have rows: "row_ok (?f j)" if "j \<in> set ?ps" for j
    using that picked_sub [of q limit kl fair now db] inv by (auto simp: jobs_inv_def row_ok_def take_lease_def claimable_def)
  have f: "j_id (?f j) = j_id j" "j_max (?f j) = j_max j" "j_fence (?f j) = j_fence j + 1" for j by (simp_all add: take_lease_def)
  have ids: "map j_id (jobs db') = map j_id (jobs db)" by (simp add: db' update_where_def f)
  have mem: "k \<in> set (jobs db') \<Longrightarrow> \<exists>j \<in> set (jobs db). k = (if j \<in> set ?ps then ?f j else j)" for k
    using inps by (auto simp: db' update_where_def)
  have old: "claim_ok db' c" if "c \<in> set cs" for c
  proof -
    have ok: "claim_ok db c" using inv that by (simp add: jobs_inv_def)
    have "c_fence c \<le> j_fence k \<and> j_max k = c_max c \<and> (j_fence k = c_fence c \<longrightarrow> j_attempt k \<le> c_attempt c)"
      if k: "k \<in> set (jobs db')" "j_id k = c_id c" for k
    proof -
      obtain j where "j \<in> set (jobs db)" "k = (if j \<in> set ?ps then ?f j else j)" using mem [OF k(1)] by blast
      then show ?thesis using ok k(2) f [of j] by (force simp: claim_ok_def split: if_splits)
    qed
    then show ?thesis using ok by (auto simp: claim_ok_def db' update_where_def)
  qed
  have newok: "claim_ok db' (claimed_of (?f p))" if p: "p \<in> set ?ps" for p
  proof -
    have pj: "p \<in> set (jobs db)" using p picked_sub by fastforce
    have "k = ?f p" if k: "k \<in> set (jobs db')" "j_id k = j_id p" for k
    proof -
      obtain j where j: "j \<in> set (jobs db)" "k = (if j \<in> set ?ps then ?f j else j)" using mem [OF k(1)] by blast
      then have "j_id j = j_id p" using k(2) f(1) [of j] by (auto split: if_splits)
      then have "j = p" using d j(1) pj by (auto simp: distinct_map inj_on_def)
      then show ?thesis using j(2) p by simp
    qed
    then have only: "k = ?f p" if "k \<in> set (jobs db')" "j_id k = c_id (claimed_of (?f p))" for k
      using that f(1) [of p] by (simp add: claimed_of_def)
    have "next_id db' = next_id db" by (simp add: db' update_where_def)
    moreover have "j_id p < next_id db" using inv pj by (simp add: jobs_inv_def)
    moreover have "j_attempt (?f p) \<le> j_max (?f p)" using rows [OF p] by (simp add: row_ok_def)
    ultimately have "c_attempt (claimed_of (?f p)) \<le> c_max (claimed_of (?f p))" "c_id (claimed_of (?f p)) < next_id db'"
      using f(1) [of p] by (simp_all add: claimed_of_def)
    moreover have "c_fence (claimed_of (?f p)) \<le> j_fence k \<and> j_max k = c_max (claimed_of (?f p)) \<and>
        (j_fence k = c_fence (claimed_of (?f p)) \<longrightarrow> j_attempt k \<le> c_attempt (claimed_of (?f p)))"
      if "k \<in> set (jobs db')" "j_id k = c_id (claimed_of (?f p))" for k
      unfolding only [OF that] by (simp add: claimed_of_def)
    ultimately show ?thesis unfolding claim_ok_def by blast
  qed
  have keys: "distinct (map (\<lambda>c. (c_id c, c_fence c)) (cs @ new))"
  proof -
    have "distinct (map (\<lambda>c. (c_id c, c_fence c)) new)"
      using picked_distinct [OF d, of q limit kl fair now] distinct_ids_claim_order [of ?ps] by (auto simp: new distinct_map inj_on_def claimed_of_def f)
    moreover have "(c_id c, c_fence c) \<noteq> (c_id c', c_fence c')" if "c \<in> set cs" "c' \<in> set new" for c c'
    proof
      assume eq: "(c_id c, c_fence c) = (c_id c', c_fence c')"
      obtain p where p: "p \<in> set ?ps" "c' = claimed_of (?f p)" using \<open>c' \<in> set new\<close> new by auto
      have "p \<in> set (jobs db)" using p(1) picked_sub by fastforce
      moreover have "claim_ok db c" using inv \<open>c \<in> set cs\<close> by (simp add: jobs_inv_def)
      ultimately have "c_fence c \<le> j_fence p" using eq p(2) f by (auto simp: claim_ok_def claimed_of_def)
      then show False using eq p(2) f [of p] by (simp add: claimed_of_def)
    qed
    ultimately show ?thesis using inv by (fastforce simp: jobs_inv_def distinct_append)
  qed
  have "\<forall>k \<in> set (jobs db'). j_id k < next_id db' \<and> row_ok k \<and> 1 \<le> j_max k"
  proof
    fix k assume "k \<in> set (jobs db')"
    then obtain j where "j \<in> set (jobs db)" "k = (if j \<in> set ?ps then ?f j else j)" using mem by blast
    then show "j_id k < next_id db' \<and> row_ok k \<and> 1 \<le> j_max k"
      using inv rows [of j] f [of j] by (auto simp: jobs_inv_def db' update_where_def)
  qed
  then show ?thesis using d ids old newok keys by (auto simp: jobs_inv_def new)
qed

lemma inv_step: "job_step C s s' \<Longrightarrow> jobs_inv (fst s) (snd s) \<Longrightarrow> jobs_inv (fst s') (snd s')"
proof (induction rule: job_step.induct)
  case (renew db cs i fence until)
  then show ?case unfolding renew_lease_def fst_conv snd_conv
    by (intro inv_update) (auto simp: jobs_inv_def row_ok_def)
next
  case (requeue db cs now "is")
  then show ?case unfolding requeue_dead_def fst_conv snd_conv
    by (intro inv_update) (auto simp: jobs_inv_def row_ok_def)
qed (auto intro: inv_push inv_claim inv_settle inv_fewer inv_sweep inv_delete simp: purge_dead_def)

lemma inv_reach: "job_reach C s \<Longrightarrow> jobs_inv (fst s) (snd s)"
proof (induction rule: job_reach.induct)
  case init
  then show ?case by (simp add: jobs_inv_def empty_db_def)
next
  case (step s s')
  then show ?case by (blast intro: inv_step)
qed

section \<open>Properties\<close>

text \<open>
  C4: the retry budget. In every state that pushes, claims, settlements, worker crashes, lease renewals,
  sweeps, requeues and purges can reach, no job has used more attempts than its budget, a job that waits
  to be claimed has an attempt left, and every job handed to a worker is within its budget.
\<close>

theorem retry_budget:
  assumes "job_reach C (db, cs)"
  shows "(\<forall>j \<in> set (jobs db). j_attempt j \<le> j_max j \<and> (j_status j = JPending \<longrightarrow> j_attempt j < j_max j)) \<and>
    (\<forall>c \<in> set cs. c_attempt c \<le> c_max c)"
  using inv_reach [OF assms] by (auto simp: jobs_inv_def row_ok_def claim_ok_def)

definition one_job :: push_job where
  "one_job = \<lparr>pj_queue = ''q'', pj_payload = ''{}'', pj_priority = 0, pj_delay = 0, pj_max = 1, pj_key = None, pj_debounce = None, pj_throttle = None\<rparr>"

definition one_db :: jobs_db where
  "one_db = snd (insert_job_row 0 one_job empty_db)"

definition anyhow :: claim_configs where
  "anyhow q = UNIV"

lemma one_db_reach: "job_reach anyhow (one_db, [])"
  unfolding one_db_def by (rule job_reach.step [OF job_reach.init job_step.push])

definition run_db :: jobs_db where
  "run_db = snd (claim_jobs ''q'' 1 30000 None False 0 one_db)"

definition run_claim :: claimed_job where
  "run_claim = \<lparr>c_id = 0, c_payload = ''{}'', c_attempt = 1, c_max = 1, c_fence = 1\<rparr>"

lemma run_db_reach: "job_reach anyhow (run_db, [run_claim])"
proof -
  have "claim_jobs ''q'' 1 30000 None False 0 one_db = ([run_claim], run_db)" by code_simp
  from job_reach.step [OF one_db_reach job_step.claim [OF _ this]] show ?thesis by (simp add: anyhow_def)
qed

theorem retry_budget_witness: "j_attempt (hd (jobs run_db)) \<le> j_max (hd (jobs run_db)) \<and> c_attempt run_claim \<le> c_max run_claim"
proof -
  have "hd (jobs run_db) \<in> set (jobs run_db)" by code_simp
  then show ?thesis using retry_budget [OF run_db_reach] by simp
qed

lemma settle_stale:
  assumes "\<And>j. j \<in> set (jobs db) \<Longrightarrow> \<not> held (c_id c) (c_fence c) j"
  shows "settle_job c result at db = db"
proof -
  have "map (\<lambda>j. if held (c_id c) (c_fence c) j then f j else j) (jobs db) = jobs db" for f
    using assms by (intro map_idI) auto
  moreover have "filter (\<lambda>j. \<not> held (c_id c) (c_fence c) j) (jobs db) = jobs db"
    using assms by (simp add: filter_id_conv)
  ultimately show ?thesis
    by (simp add: settle_job_def ack_def fail_dead_def fail_retry_def update_where_def delete_where_def split: option.split)
qed

text \<open>
  C5: fencing. When a job has been claimed again after its first worker lost its lease, whatever that
  first worker reports (success, failure, exhausted budget) does not touch the table, in every reachable
  state; and no two claims in flight carry the same fence for a job.
\<close>

theorem stale_worker_fenced:
  assumes "job_reach C (db, cs)" and "c \<in> set cs" and "c' \<in> set cs" and "c_id c = c_id c'" and "c_fence c < c_fence c'"
  shows "settle_job c result at db = db \<and> distinct (map (\<lambda>c. (c_id c, c_fence c)) cs)"
proof -
  have inv: "jobs_inv db cs" using inv_reach [OF assms(1)] by simp
  have "settle_job c result at db = db"
    by (rule settle_stale) (use inv assms in \<open>fastforce simp: jobs_inv_def claim_ok_def held_def\<close>)
  then show ?thesis using inv by (simp add: jobs_inv_def)
qed

definition retry_db :: jobs_db where
  "retry_db = snd (insert_job_row 0 (one_job\<lparr>pj_max := 2\<rparr>) empty_db)"

definition claim_n :: "nat \<Rightarrow> claimed_job" where
  "claim_n n = \<lparr>c_id = 0, c_payload = ''{}'', c_attempt = n, c_max = 2, c_fence = n\<rparr>"

definition retry_db1 :: jobs_db where "retry_db1 = snd (claim_jobs ''q'' 1 100 None False 0 retry_db)"
definition retry_db2 :: jobs_db where "retry_db2 = sweep_expired 200 retry_db1"
definition retry_db3 :: jobs_db where "retry_db3 = snd (claim_jobs ''q'' 1 100 None False 200 retry_db2)"

lemma reclaimed_reach: "job_reach anyhow (retry_db3, [claim_n 1, claim_n 2])"
proof -
  have "job_reach anyhow (retry_db, [])" unfolding retry_db_def by (rule job_reach.step [OF job_reach.init job_step.push])
  moreover have "claim_jobs ''q'' 1 100 None False 0 retry_db = ([claim_n 1], retry_db1)" by code_simp
  ultimately have "job_reach anyhow (retry_db1, [] @ [claim_n 1])"
    by (intro job_reach.step [OF _ job_step.claim [of None False]]) (simp_all add: anyhow_def)
  then have "job_reach anyhow (retry_db2, [claim_n 1])" unfolding retry_db2_def append_Nil by (rule job_reach.step) (rule job_step.sweep)
  moreover have "claim_jobs ''q'' 1 100 None False 200 retry_db2 = ([claim_n 2], retry_db3)" by code_simp
  ultimately have "job_reach anyhow (retry_db3, [claim_n 1] @ [claim_n 2])"
    by (intro job_reach.step [OF _ job_step.claim [of None False]]) (simp_all add: anyhow_def)
  then show ?thesis by simp
qed

theorem stale_worker_fenced_witness: "settle_job (claim_n 1) None 0 retry_db3 = retry_db3"
  using stale_worker_fenced [OF reclaimed_reach, of "claim_n 1" "claim_n 2" None 0] by (simp add: claim_n_def)

definition swept_row :: "int \<Rightarrow> job \<Rightarrow> job" where
  "swept_row now j =
     (if \<not> expired now j then j
      else if j_attempt j \<ge> j_max j
        then j\<lparr>j_status := JDead, j_lease := None, j_error := (case j_error j of None \<Rightarrow> Some ''lease expired'' | e \<Rightarrow> e)\<rparr>
      else j\<lparr>j_status := JPending, j_lease := None, j_available := now\<rparr>)"

lemma jobs_swept: "jobs (sweep_expired now db) = map (swept_row now) (jobs db)"
  by (auto simp: sweep_expired_def update_where_def swept_row_def expired_def)

lemma swept_row_same: "j_id (swept_row now j) = j_id j" "j_payload (swept_row now j) = j_payload j" "j_attempt (swept_row now j) = j_attempt j"
  by (simp_all add: swept_row_def)

lemma swept_row_effect:
  "expired now j \<Longrightarrow> if j_attempt j < j_max j then j_status (swept_row now j) = JPending \<and> j_available (swept_row now j) = now
     else j_status (swept_row now j) = JDead \<and> j_error (swept_row now j) \<noteq> None"
  by (simp add: swept_row_def split: option.split)

text \<open>
  C6: no job is lost with its worker. Every job whose lease has run out is, after the sweep, waiting
  again with its payload and attempts unchanged if it has attempts left, and in the dead letter queue
  with an error otherwise; the sweep adds and drops no job.
\<close>

theorem sweep_recovers:
  "map j_id (jobs (sweep_expired now db)) = map j_id (jobs db) \<and>
   (\<forall>j. j \<in> set (jobs db) \<and> expired now j \<longrightarrow>
      (\<exists>k \<in> set (jobs (sweep_expired now db)). j_id k = j_id j \<and> j_payload k = j_payload j \<and> j_attempt k = j_attempt j \<and>
         (if j_attempt j < j_max j then j_status k = JPending \<and> j_available k = now
          else j_status k = JDead \<and> j_error k \<noteq> None)))"
proof (intro conjI allI impI)
  show "map j_id (jobs (sweep_expired now db)) = map j_id (jobs db)" by (simp add: jobs_swept swept_row_same)
next
  fix j assume j: "j \<in> set (jobs db) \<and> expired now j"
  then have "swept_row now j \<in> set (jobs (sweep_expired now db))" by (simp add: jobs_swept)
  with swept_row_effect [of now j] swept_row_same [of now j] j
  show "\<exists>k \<in> set (jobs (sweep_expired now db)). j_id k = j_id j \<and> j_payload k = j_payload j \<and> j_attempt k = j_attempt j \<and>
         (if j_attempt j < j_max j then j_status k = JPending \<and> j_available k = now
          else j_status k = JDead \<and> j_error k \<noteq> None)" by blast
qed

theorem sweep_recovers_witness:
  "\<exists>k \<in> set (jobs (sweep_expired 200 retry_db1)). j_id k = 0 \<and> j_status k = JPending"
proof -
  define j where "j = hd (jobs retry_db1)"
  have j: "j \<in> set (jobs retry_db1) \<and> expired 200 j" "j_attempt j < j_max j" "j_id j = 0" unfolding j_def by code_simp+
  have "\<exists>k \<in> set (jobs (sweep_expired 200 retry_db1)). j_id k = j_id j \<and> j_payload k = j_payload j \<and> j_attempt k = j_attempt j \<and>
         (if j_attempt j < j_max j then j_status k = JPending \<and> j_available k = 200
          else j_status k = JDead \<and> j_error k \<noteq> None)"
    using sweep_recovers [of 200 retry_db1] j(1) by blast
  with j(2,3) show ?thesis by auto
qed

text \<open>
  Requeueing does not advance the fence: the worker that lost the job can still bury it after an
  operator gave it a fresh budget.
\<close>

lemma requeued_job_buried_by_stale_worker:
  "let swept = sweep_expired 40000 run_db; again = snd (requeue_dead 50000 [0] swept);
       buried = settle_job run_claim (Some ''late'') 0 again
   in map j_status (jobs again) = [JPending] \<and> map j_attempt (jobs again) = [0] \<and> map j_status (jobs buried) = [JDead]"
  by code_simp

end
