(* ===== verification/Claims.thy ===== *)
theory Claims
  imports Jobs
begin

text \<open>
  Claims with a limit per concurrency key and fair claims (\<open>claim\<close> of \<open>sqlite.rs\<close>, the windowed
  statements): how many jobs of a key run at once over every interleaving of workers, sweeper and
  operators, and how a fair claim spreads over the keys.
\<close>

section \<open>Row numbers\<close>

lemma precedes_irrefl [simp]: "\<not> precedes j j"
  by (simp add: precedes_def)

lemma precedes_trans: "precedes i j \<Longrightarrow> precedes j k \<Longrightarrow> precedes i k"
  by (auto simp: precedes_def)

lemma precedes_total: "j_id j \<noteq> j_id k \<Longrightarrow> precedes j k \<or> precedes k j"
  by (auto simp: precedes_def)

lemma row_number_pos: "1 \<le> row_number cl j"
  by (simp add: row_number_def)

lemma row_number_mono:
  assumes "j \<in> set cl" and "j_key j = j_key k" and "precedes j k"
  shows "row_number cl j < row_number cl k"
proof -
  let ?P = "\<lambda>x. j_key x = j_key j \<and> precedes x j" and ?Q = "\<lambda>x. j_key x = j_key k \<and> precedes x k"
  have "filter ?P cl = filter ?P (filter ?Q cl)"
    using assms(2,3) by (auto simp: intro!: filter_cong dest: precedes_trans)
  moreover have "length (filter ?P (filter ?Q cl)) < length (filter ?Q cl)"
    by (rule length_filter_less [of j]) (use assms in auto)
  ultimately show ?thesis by (simp add: row_number_def)
qed

lemma row_number_inj:
  assumes "distinct (map j_id cl)" and "j \<in> set cl" and "k \<in> set cl" and "j_key j = j_key k" and "row_number cl j = row_number cl k"
  shows "j = k"
proof (rule ccontr)
  assume "j \<noteq> k"
  then have "j_id j \<noteq> j_id k" using assms(1-3) by (auto simp: distinct_map dest: inj_onD)
  then show False using precedes_total [of j k] row_number_mono [of j cl k] row_number_mono [of k cl j] assms by auto
qed

text \<open>A set of rows of one key whose numbers stay within a bound has no more rows than that.\<close>

lemma keyed_rows_bounded:
  assumes "distinct (map j_id cl)" and "S \<subseteq> set cl" and "\<forall>j \<in> S. j_key j = key \<and> row_number cl j \<le> r"
  shows "card S \<le> r"
proof -
  have "inj_on (row_number cl) S" using assms by (intro inj_onI) (metis row_number_inj subsetD)
  moreover have "row_number cl ` S \<subseteq> {1..r}" using assms(3) row_number_pos by auto
  ultimately have "card S \<le> card {1..r}" by (metis card_inj_on_le finite_atLeastAtMost)
  then show ?thesis by simp
qed

text \<open>The rows before one of its key.\<close>

definition before_in_key :: "job list \<Rightarrow> job \<Rightarrow> job set" where
  "before_in_key cl j = {k \<in> set cl. j_key k = j_key j \<and> precedes k j}"

lemma card_before_in_key: "distinct cl \<Longrightarrow> card (before_in_key cl j) = row_number cl j - 1"
proof -
  assume d: "distinct cl"
  have "before_in_key cl j = set (filter (\<lambda>k. j_key k = j_key j \<and> precedes k j) cl)" by (auto simp: before_in_key_def)
  then have "card (before_in_key cl j) = length (filter (\<lambda>k. j_key k = j_key j \<and> precedes k j) cl)"
    using d by (metis distinct_card distinct_filter)
  then show ?thesis by (simp add: row_number_def)
qed

lemma distinct_of_ids: "distinct (map j_id js) \<Longrightarrow> distinct js"
  by (simp add: distinct_map)

lemma within_cap_before:
  assumes "within_cap kl db cl j" and "k \<in> before_in_key cl j" and "j_queue k = j_queue j"
  shows "within_cap kl db cl k"
  using assms row_number_mono [of k cl j] by (auto simp: within_cap_def before_in_key_def split: option.splits)

section \<open>What a claim picks\<close>

definition claimables :: "string \<Rightarrow> int \<Rightarrow> jobs_db \<Rightarrow> job list" where
  "claimables q now db = filter (claimable q now) (jobs db)"

definition eligible :: "string \<Rightarrow> nat option \<Rightarrow> int \<Rightarrow> jobs_db \<Rightarrow> job list" where
  "eligible q kl now db = filter (within_cap kl db (claimables q now db)) (claimables q now db)"

lemma claimables_queue: "j \<in> set (claimables q now db) \<Longrightarrow> j_queue j = q"
  by (simp add: claimables_def claimable_def)

lemma claimables_distinct: "distinct (map j_id (jobs db)) \<Longrightarrow> distinct (map j_id (claimables q now db))"
  unfolding claimables_def by (rule distinct_ids_filter)

lemma picked_fair:
  "picked q limit kl True now db =
     take limit (sort_key (row_number (claimables q now db)) (claim_order (eligible q kl now db)))"
  by (simp add: picked_def Let_def eligible_def claimables_def)

lemma picked_keyed: "picked q limit (Some n) False now db = take limit (sort_key j_id (eligible q (Some n) now db))"
  by (simp add: picked_def Let_def eligible_def claimables_def)

lemma picked_eligible: "set (picked q limit (Some n) fair now db) \<subseteq> set (eligible q (Some n) now db)"
  by (cases fair) (auto simp: picked_fair picked_keyed simp del: sort_key_simps dest!: in_set_takeD)

lemma picked_length: "length (picked q limit kl fair now db) \<le> limit"
  by (simp add: picked_def Let_def)

definition with_key :: "string \<Rightarrow> job list \<Rightarrow> nat" where
  "with_key key js = length (filter (\<lambda>j. j_key j = Some key) js)"

lemma picked_within_cap:
  assumes d: "distinct (map j_id (jobs db))"
  shows "with_key key (picked q limit (Some n) fair now db) = 0 \<or>
    running_with_key q key db + with_key key (picked q limit (Some n) fair now db) \<le> n"
proof -
  let ?ps = "picked q limit (Some n) fair now db" and ?cl = "claimables q now db"
  define S where "S = {j \<in> set ?ps. j_key j = Some key}"
  have sub: "set ?ps \<subseteq> set (eligible q (Some n) now db)" by (rule picked_eligible)
  have "distinct ?ps" by (rule distinct_of_ids [OF picked_distinct [OF d]])
  then have count: "with_key key ?ps = card S"
    unfolding with_key_def S_def by (metis distinct_card distinct_filter set_filter)
  have ok: "running_with_key q key db + row_number ?cl j \<le> n" if "j \<in> S" for j
    using that sub claimables_queue [of j q now db] by (auto simp: S_def eligible_def within_cap_def key_cap_def)
  show ?thesis
  proof (cases "S = {}")
    case False
    then obtain j where "j \<in> S" by blast
    then have "running_with_key q key db \<le> n" using ok [of j] by simp
    moreover have "card S \<le> n - running_with_key q key db"
      by (rule keyed_rows_bounded [OF claimables_distinct [OF d], of _ q now "Some key"])
        (use sub ok in \<open>fastforce simp: S_def eligible_def\<close>)+
    ultimately show ?thesis unfolding count by arith
  qed (simp add: count)
qed

section \<open>The limit over all interleavings\<close>

lemma length_filter_map_le:
  "(\<And>j. j \<in> set js \<Longrightarrow> P (f j) \<Longrightarrow> Q j) \<Longrightarrow> length (filter P (map f js)) \<le> length (filter Q js)"
proof (induction js)
  case (Cons a js)
  then have "length (filter P (map f js)) \<le> length (filter Q js)" by simp
  then show ?case using Cons.prems [of a] by auto
qed simp

lemma running_update:
  assumes "\<And>j. P j \<Longrightarrow> j_status (f j) = JRunning \<Longrightarrow> j_status j = JRunning \<and> j_queue (f j) = j_queue j \<and> j_key (f j) = j_key j"
  shows "running_with_key q key (update_where P f db) \<le> running_with_key q key db"
proof -
  have jobs: "jobs (update_where P f db) = map (\<lambda>j. if P j then f j else j) (jobs db)" by (simp add: update_where_def)
  show ?thesis
    unfolding running_with_key_def count_where_def jobs
    by (rule length_filter_map_le) (auto dest: assms split: if_splits)
qed

lemma length_filter_filter_le: "length (filter P (filter Q js)) \<le> length (filter P js)"
  by (induction js) auto

lemma running_delete: "running_with_key q key (delete_where P db) \<le> running_with_key q key db"
  unfolding running_with_key_def count_where_def delete_where_def
  by (simp add: length_filter_filter_le del: filter_filter)

lemma running_push: "running_with_key q key (snd (insert_job_row now p db)) \<le> running_with_key q key db"
proof -
  obtain at db2 where t: "throttle_start now p (delete_where (debounced p) db) = (at, db2)" by fastforce
  then have "jobs db2 = jobs (delete_where (debounced p) db)"
    by (auto simp: throttle_start_def Let_def split: option.splits prod.splits)
  then have "running_with_key q key (snd (insert_job_row now p db)) = running_with_key q key (delete_where (debounced p) db)"
    by (simp add: insert_job_row_def t Let_def running_with_key_def count_where_def)
  then show ?thesis using running_delete by simp
qed

lemma running_settle: "running_with_key q key (settle_job c result at db) \<le> running_with_key q key db"
  by (auto simp: settle_job_def ack_def fail_dead_def fail_retry_def running_delete intro!: running_update split: option.split)

lemma running_sweep: "running_with_key q key (sweep_expired now db) \<le> running_with_key q key db"
  unfolding sweep_expired_def by (rule order.trans [OF running_update running_update]) auto

lemmas running_statements = running_push running_settle running_sweep running_delete

text \<open>A claim adds the rows it picked.\<close>

lemma length_filter_update:
  assumes "\<And>j. j \<in> set js \<Longrightarrow> R j \<Longrightarrow> \<not> P j"
  shows "length (filter P (map (\<lambda>j. if R j then f j else j) js)) = length (filter P js) + length (filter (\<lambda>j. R j \<and> P (f j)) js)"
  using assms by (induction js) auto

lemma picked_ids:
  assumes "distinct (map j_id (jobs db))" and "j \<in> set (jobs db)"
  shows "j_id j \<in> j_id ` set (picked q limit kl fair now db) \<longleftrightarrow> j \<in> set (picked q limit kl fair now db)"
  using assms picked_sub [of q limit kl fair now db] by (auto simp: distinct_map inj_on_def)

lemma running_claim:
  assumes d: "distinct (map j_id (jobs db))" and cl: "claim_jobs q limit lease kl fair now db = (new, db')"
  shows "running_with_key q' key db' =
    running_with_key q' key db + (if q' = q then with_key key (picked q limit kl fair now db) else 0)"
proof -
  let ?ps = "picked q limit kl fair now db" and ?f = "take_lease (now + lease)"
  let ?P = "\<lambda>r. j_queue r = q' \<and> j_status r = JRunning \<and> j_key r = Some key"
  have sub: "set ?ps \<subseteq> {j \<in> set (jobs db). claimable q now j}" by (rule picked_sub)
  have jobs: "jobs db' = map (\<lambda>j. if j_id j \<in> j_id ` set ?ps then ?f j else j) (jobs db)"
    using cl by (auto simp: claim_jobs_def Let_def update_where_def)
  have "length (filter ?P (jobs db')) =
      length (filter ?P (jobs db)) + length (filter (\<lambda>j. j_id j \<in> j_id ` set ?ps \<and> ?P (?f j)) (jobs db))"
    unfolding jobs by (rule length_filter_update) (use picked_ids [OF d, of _ q limit kl fair now] sub in \<open>auto simp: claimable_def\<close>)
  moreover have "length (filter (\<lambda>j. j_id j \<in> j_id ` set ?ps \<and> ?P (?f j)) (jobs db)) =
      (if q' = q then with_key key ?ps else 0)"
  proof -
    have "{j \<in> set (jobs db). j_id j \<in> j_id ` set ?ps \<and> ?P (?f j)} = {j \<in> set ?ps. q' = q \<and> j_key j = Some key}"
      using picked_ids [OF d, of _ q limit kl fair now] sub by (auto simp: take_lease_def claimable_def)
    moreover have "distinct ?ps" by (rule distinct_of_ids [OF picked_distinct [OF d]])
    ultimately show ?thesis
      using distinct_of_ids [OF d] by (simp add: with_key_def flip: distinct_card set_filter)
  qed
  ultimately show ?thesis by (simp add: running_with_key_def count_where_def)
qed

definition limited :: "claim_configs \<Rightarrow> string \<Rightarrow> nat \<Rightarrow> bool" where
  "limited C q n \<longleftrightarrow> (\<forall>(kl, fair) \<in> C q. kl = Some n)"

lemma running_step:
  "job_step C s s' \<Longrightarrow> jobs_inv (fst s) (snd s) \<Longrightarrow> limited C q n \<Longrightarrow> running_with_key q key (fst s) \<le> n \<Longrightarrow>
   running_with_key q key (fst s') \<le> n"
proof (induction rule: job_step.induct)
  case (claim kl fair q1 limit lease now db new db' cs)
  then have d: "distinct (map j_id (jobs db))" by (simp add: jobs_inv_def)
  have "q1 = q \<Longrightarrow> kl = Some n" using claim.hyps(1) claim.prems(2) by (auto simp: limited_def)
  then show ?case
    using running_claim [OF d claim.hyps(2), of q key] picked_within_cap [OF d, of key q limit n fair now] claim.prems(3) by auto
next
  case (renew db cs i fence until)
  have "running_with_key q key (renew_lease i fence until db) \<le> running_with_key q key db"
    unfolding renew_lease_def by (rule running_update) auto
  with renew.prems show ?case by simp
next
  case (requeue db cs now "is")
  have "running_with_key q key (snd (requeue_dead now is db)) \<le> running_with_key q key db"
    unfolding requeue_dead_def snd_conv by (rule running_update) auto
  with requeue.prems show ?case by simp
qed (auto simp: purge_dead_def intro: order.trans [OF running_push] order.trans [OF running_settle] order.trans [OF running_sweep]
    order.trans [OF running_delete])

lemma running_reach: "job_reach C s \<Longrightarrow> limited C q n \<Longrightarrow> running_with_key q key (fst s) \<le> n"
proof (induction rule: job_reach.induct)
  case init
  then show ?case by (simp add: empty_db_def running_with_key_def count_where_def)
next
  case (step s s')
  then show ?case using running_step inv_reach by blast
qed

text \<open>A claim in flight that still holds its job.\<close>

definition in_force :: "jobs_db \<Rightarrow> string \<Rightarrow> string \<Rightarrow> claimed_job \<Rightarrow> bool" where
  "in_force db q key c \<longleftrightarrow>
     list_ex (\<lambda>j. held (c_id c) (c_fence c) j \<and> j_queue j = q \<and> j_status j = JRunning \<and> j_key j = Some key) (jobs db)"

lemma in_force_bounded:
  assumes "jobs_inv db cs"
  shows "length (filter (in_force db q key) cs) \<le> running_with_key q key db"
proof -
  let ?rows = "filter (\<lambda>j. j_queue j = q \<and> j_status j = JRunning \<and> j_key j = Some key) (jobs db)"
  let ?fs = "filter (in_force db q key) cs" and ?pair = "\<lambda>c. (c_id c, c_fence c)"
  have "distinct (map ?pair ?fs)" using assms by (simp add: jobs_inv_def distinct_map inj_on_def)
  then have "length ?fs = card (?pair ` set ?fs)" by (metis distinct_card length_map list.set_map)
  also have "\<dots> \<le> card ((\<lambda>j. (j_id j, j_fence j)) ` set ?rows)"
  proof (rule card_mono)
    show "?pair ` set ?fs \<subseteq> (\<lambda>j. (j_id j, j_fence j)) ` set ?rows"
    proof
      fix p assume "p \<in> ?pair ` set ?fs"
      then obtain c where c: "p = ?pair c" "in_force db q key c" by auto
      then obtain j where j: "j \<in> set (jobs db)" "held (c_id c) (c_fence c) j" "j_queue j = q" "j_status j = JRunning" "j_key j = Some key"
        by (auto simp: in_force_def list_ex_iff)
      with c(1) show "p \<in> (\<lambda>j. (j_id j, j_fence j)) ` set ?rows" by (intro image_eqI [of _ _ j]) (auto simp: held_def)
    qed
  qed simp
  also have "\<dots> \<le> card (set ?rows)" by (rule card_image_le) simp
  also have "\<dots> \<le> length ?rows" by (rule card_length)
  finally show ?thesis by (simp add: running_with_key_def count_where_def)
qed

section \<open>Fair claims\<close>

lemma eligible_sub: "set (eligible q kl now db) \<subseteq> set (claimables q now db)"
  by (simp add: eligible_def)

lemma claim_order_length [simp]: "length (claim_order js) = length js"
  by (simp add: claim_order_def)

lemma sorted_take_drop:
  assumes "x \<in> set (take n (sort_key f js))" and "y \<in> set (drop n (sort_key f js))"
  shows "f x \<le> f y"
proof -
  have "sorted (map f (take n (sort_key f js)) @ map f (drop n (sort_key f js)))"
    by (simp flip: map_append)
  then show ?thesis using assms by (auto simp: sorted_append)
qed

text \<open>
  When an eligible row is left out, each row before it in its key is either picked or left out as
  well; the least one left out bounds its key from below and every key from above.
\<close>

lemma fair_bounds:
  assumes d: "distinct (map j_id (jobs db))"
    and j: "j \<in> set (eligible q kl now db)" "j \<notin> set (picked q limit kl True now db)"
  shows "\<exists>r. (\<forall>key. card {k \<in> set (picked q limit kl True now db). j_key k = key} \<le> Suc r) \<and>
    r \<le> card {k \<in> set (picked q limit kl True now db). j_key k = j_key j}"
proof -
  let ?cl = "claimables q now db" and ?ps = "picked q limit kl True now db"
  let ?L = "sort_key (row_number ?cl) (claim_order (eligible q kl now db))"
  let ?left = "{k \<in> set (drop limit ?L). j_key k = j_key j}"
  have ps: "?ps = take limit ?L" by (rule picked_fair)
  have L: "set ?L = set (eligible q kl now db)" by simp
  have split: "x \<in> set ?ps \<or> x \<in> set (drop limit ?L)" if "x \<in> set (eligible q kl now db)" for x
    using that L unfolding ps by (metis Un_iff append_take_drop_id set_append)
  have dcl: "distinct (map j_id ?cl)" by (rule claimables_distinct [OF d])
  have dropped: "set (drop limit ?L) \<subseteq> set (eligible q kl now db)" using set_drop_subset L by metis
  have "j \<in> ?left" using j split by blast
  then obtain m where m: "m \<in> ?left" "\<forall>k \<in> ?left. row_number ?cl m \<le> row_number ?cl k"
    using ex_has_least_nat [of "\<lambda>k. k \<in> ?left" j "row_number ?cl"] by blast
  have upper: "card {k \<in> set ?ps. j_key k = key} \<le> row_number ?cl m" for key
  proof (rule keyed_rows_bounded [OF dcl])
    show "{k \<in> set ?ps. j_key k = key} \<subseteq> set ?cl"
      using eligible_sub [of q kl now db] set_take_subset [of limit ?L] L unfolding ps by blast
    show "\<forall>k \<in> {k \<in> set ?ps. j_key k = key}. j_key k = key \<and> row_number ?cl k \<le> row_number ?cl m"
      using sorted_take_drop [of _ limit "row_number ?cl" "claim_order (eligible q kl now db)" m] m(1) unfolding ps by blast
  qed
  have mcl: "m \<in> set (eligible q kl now db)" using m(1) dropped by blast
  have "before_in_key ?cl m \<subseteq> {k \<in> set ?ps. j_key k = j_key j}"
  proof
    fix k assume k: "k \<in> before_in_key ?cl m"
    then have kc: "k \<in> set ?cl" "j_key k = j_key m" "precedes k m" by (auto simp: before_in_key_def)
    have "j_queue k = j_queue m" using kc(1) mcl eligible_sub claimables_queue by (metis subsetD)
    then have "within_cap kl db ?cl k" using within_cap_before [OF _ k] mcl by (simp add: eligible_def)
    then have e: "k \<in> set (eligible q kl now db)" using kc(1) by (simp add: eligible_def)
    have "row_number ?cl k < row_number ?cl m" using row_number_mono [OF kc] .
    then have "k \<notin> ?left" using m(2) by (meson leD)
    then show "k \<in> {k \<in> set ?ps. j_key k = j_key j}" using split [OF e] kc(2) m(1) by auto
  qed
  then have "card (before_in_key ?cl m) \<le> card {k \<in> set ?ps. j_key k = j_key j}" by (rule card_mono [rotated]) simp
  then have "row_number ?cl m - 1 \<le> card {k \<in> set ?ps. j_key k = j_key j}"
    by (simp add: card_before_in_key [OF distinct_of_ids [OF dcl]])
  with upper row_number_pos [of ?cl m] show ?thesis by (intro exI [of _ "row_number ?cl m - 1"]) auto
qed

lemma claimed_ids:
  "claim_jobs q limit lease kl fair now db = (new, db') \<Longrightarrow>
    c_id ` set new = j_id ` set (picked q limit kl fair now db) \<and> length new = length (picked q limit kl fair now db)"
  by (auto simp: claim_jobs_def Let_def claimed_of_def take_lease_def image_image)

text \<open>The rows of a key that a claim took.\<close>

definition taken :: "claimed_job list \<Rightarrow> jobs_db \<Rightarrow> string option \<Rightarrow> nat" where
  "taken new db key = card {k \<in> set (jobs db). j_id k \<in> c_id ` set new \<and> j_key k = key}"

lemma taken_picked:
  assumes "distinct (map j_id (jobs db))" and "claim_jobs q limit lease kl fair now db = (new, db')"
  shows "taken new db key = card {k \<in> set (picked q limit kl fair now db). j_key k = key}"
proof -
  have "{k \<in> set (jobs db). j_id k \<in> c_id ` set new \<and> j_key k = key} = {k \<in> set (picked q limit kl fair now db). j_key k = key}"
    using claimed_ids [OF assms(2)] picked_ids [OF assms(1), of _ q limit kl fair now] picked_sub [of q limit kl fair now db] by auto
  then show ?thesis by (simp add: taken_def)
qed

section \<open>Properties\<close>

text \<open>
  C8: the limit per concurrency key. When every worker of a queue claims with the same limit, then in
  every state that pushes, claims (fair or not), settlements, crashes, lease renewals, sweeps, requeues
  and purges can reach, at most so many jobs of one key are marked running, and at most so many claims
  of that key still hold their job.
\<close>

theorem key_limit:
  assumes "job_reach C (db, cs)" and "limited C q n"
  shows "running_with_key q key db \<le> n \<and> length (filter (in_force db q key) cs) \<le> n"
  using running_reach [OF assms, of key] in_force_bounded [of db cs q key] inv_reach [OF assms(1)] by simp

definition by_tenant :: "string \<Rightarrow> push_job" where
  "by_tenant key = one_job\<lparr>pj_key := Some key, pj_max := 3\<rparr>"

definition one_at_a_time :: claim_configs where
  "one_at_a_time q = {(Some 1, False)}"

fun pushed :: "push_job list \<Rightarrow> jobs_db" where
  "pushed [] = empty_db"
| "pushed (p # ps) = snd (insert_job_row 0 p (pushed ps))"

lemma pushed_reach: "job_reach C (pushed ps, [])"
  by (induction ps) (auto intro: job_reach.init job_reach.step [OF _ job_step.push])

definition tenants_db :: jobs_db where
  "tenants_db = pushed [by_tenant ''b'', by_tenant ''a'', by_tenant ''a'', by_tenant ''a'']"

lemma keyed_claim_reach:
  "job_reach one_at_a_time (snd (claim_jobs ''q'' 9 100 (Some 1) False 0 tenants_db), fst (claim_jobs ''q'' 9 100 (Some 1) False 0 tenants_db))"
proof -
  have "job_reach one_at_a_time (tenants_db, [])" unfolding tenants_db_def by (rule pushed_reach)
  from job_reach.step [OF this job_step.claim, of "Some 1" False "''q''" 9 100 0] show ?thesis
    by (simp add: one_at_a_time_def)
qed

theorem key_limit_witness:
  "let (new, db) = claim_jobs ''q'' 9 100 (Some 1) False 0 tenants_db
   in running_with_key ''q'' ''a'' db \<le> 1 \<and> length (filter (in_force db ''q'' ''a'') new) \<le> 1 \<and> length new = 2"
proof -
  have "length (fst (claim_jobs ''q'' 9 100 (Some 1) False 0 tenants_db)) = 2" by code_simp
  then show ?thesis
    using key_limit [OF keyed_claim_reach, of "''q''" 1 "''a''"] by (simp add: case_prod_beta limited_def one_at_a_time_def)
qed

text \<open>
  C9: a fair claim spreads. When a fair claim leaves out a waiting job whose key has room, the batch is
  full, no key got more than one job beyond what the key of that job got, and if its key got none, the
  batch was smaller than the number of keys that had waiting jobs: a batch with room for every key
  starves none of them.
\<close>

theorem fair_claim_spreads:
  assumes "job_reach C (db, cs)" and cl: "claim_jobs q limit lease kl True now db = (new, db')"
    and j: "j \<in> set (jobs db)" "claimable q now j" "within_cap kl db (claimables q now db) j" "j_id j \<notin> c_id ` set new"
  shows "length new = limit \<and> (\<forall>key. taken new db key \<le> taken new db (j_key j) + 1) \<and>
    (taken new db (j_key j) = 0 \<longrightarrow> limit < card (j_key ` set (claimables q now db)))"
proof -
  let ?ps = "picked q limit kl True now db" and ?cl = "claimables q now db"
  have d: "distinct (map j_id (jobs db))" using inv_reach [OF assms(1)] by (simp add: jobs_inv_def)
  have e: "j \<in> set (eligible q kl now db)" using j by (simp add: eligible_def claimables_def)
  have out: "j \<notin> set ?ps" using j(4) claimed_ids [OF cl] by auto
  have taken: "taken new db key = card {k \<in> set ?ps. j_key k = key}" for key by (rule taken_picked [OF d cl])
  have len: "length ?ps = limit"
  proof (rule ccontr)
    assume "length ?ps \<noteq> limit"
    then have "?ps = sort_key (row_number ?cl) (claim_order (eligible q kl now db))" by (auto simp: picked_fair)
    then show False using e out by simp
  qed
  have spread: "taken new db key \<le> taken new db (j_key j) + 1" for key
  proof -
    obtain r where "card {k \<in> set ?ps. j_key k = key} \<le> Suc r" "r \<le> card {k \<in> set ?ps. j_key k = j_key j}"
      using fair_bounds [OF d e out] by blast
    then show ?thesis by (simp add: taken)
  qed
  have "limit < card (j_key ` set ?cl)" if none: "taken new db (j_key j) = 0"
  proof -
    have "inj_on j_key (set ?ps)"
    proof (rule inj_onI)
      fix x y assume xy: "x \<in> set ?ps" "y \<in> set ?ps" "j_key x = j_key y"
      have "taken new db (j_key y) \<le> 1" using spread [of "j_key y"] none by simp
      then have "card {k \<in> set ?ps. j_key k = j_key y} \<le> 1" by (simp only: taken)
      moreover have "{x, y} \<subseteq> {k \<in> set ?ps. j_key k = j_key y}" using xy by auto
      ultimately show "x = y" using card_mono [of "{k \<in> set ?ps. j_key k = j_key y}" "{x, y}"] by (cases "x = y") auto
    qed
    then have "card (j_key ` set ?ps) = limit"
      using len distinct_of_ids [OF picked_distinct [OF d]] by (simp add: card_image distinct_card)
    moreover have sub: "j_key ` set ?ps \<subset> j_key ` set ?cl"
    proof (rule psubsetI)
      show "j_key ` set ?ps \<subseteq> j_key ` set ?cl" using picked_sub [of q limit kl True now db] by (auto simp: claimables_def)
      have "{k \<in> set ?ps. j_key k = j_key j} = {}" using none taken [of "j_key j"] by simp
      then have "j_key j \<notin> j_key ` set ?ps" by force
      moreover have "j_key j \<in> j_key ` set ?cl" using e eligible_sub by blast
      ultimately show "j_key ` set ?ps \<noteq> j_key ` set ?cl" by metis
    qed
    ultimately show ?thesis using psubset_card_mono [OF _ sub] by simp
  qed
  then show ?thesis using len spread claimed_ids [OF cl] by simp
qed

text \<open>A queue in which one tenant has many jobs and another came later.\<close>

definition busy_db :: jobs_db where
  "busy_db = pushed [by_tenant ''b'', by_tenant ''a'', by_tenant ''a'', by_tenant ''a'']"

definition fair_cfg :: claim_configs where
  "fair_cfg q = {(None, True)}"

theorem fair_claim_spreads_witness:
  "(let new = fst (claim_jobs ''q'' 2 100 None True 0 busy_db)
    in taken new busy_db (Some ''b'') \<le> taken new busy_db (Some ''a'') + 1) \<and>
   map c_id (fst (claim_jobs ''q'' 2 100 None True 0 busy_db)) = [0, 3]"
proof -
  define j where "j = jobs busy_db ! 1"
  obtain new db' where cl: "claim_jobs ''q'' 2 100 None True 0 busy_db = (new, db')" by fastforce
  have ids: "map c_id (fst (claim_jobs ''q'' 2 100 None True 0 busy_db)) = [0, 3]" by code_simp
  have "length (jobs busy_db) = 4" by code_simp
  then have j: "j \<in> set (jobs busy_db)" by (simp add: j_def)
  have j': "claimable ''q'' 0 j" "within_cap None busy_db (claimables ''q'' 0 busy_db) j" "j_id j = 1" "j_key j = Some ''a''"
    unfolding j_def by code_simp+
  have "set (map c_id new) = {0, 3}" using ids cl by simp
  then have "j_id j \<notin> c_id ` set new" using j'(3) by auto
  moreover have "job_reach fair_cfg (busy_db, [])" unfolding busy_db_def by (rule pushed_reach)
  ultimately have "taken new busy_db (Some ''b'') \<le> taken new busy_db (Some ''a'') + 1"
    using fair_claim_spreads [OF _ cl j j'(1,2)] j'(4) by simp
  then show ?thesis using ids cl by simp
qed

section \<open>Findings\<close>

text \<open>
  Rows without a fair claim but with a key limit are selected by age alone: an urgent job behind an older
  one is not the one claimed, though priority is documented to come first.
\<close>

lemma keyed_claim_ignores_priority:
  "let db = pushed [(by_tenant ''a'')\<lparr>pj_priority := 9\<rparr>, by_tenant ''b'']
   in map c_id (fst (claim_jobs ''q'' 1 100 None False 0 db)) = [1] \<and>
      map c_id (fst (claim_jobs ''q'' 1 100 (Some 5) False 0 db)) = [0]"
  by code_simp

text \<open>
  The rank of a fair claim counts the waiting rows of the key only, so a worker that claims one job at a
  time (all its permits but one are busy) gets what a plain claim gives: round robin is within a batch.
\<close>

lemma hd_claim_order:
  assumes d: "distinct (map j_id cl)" and k: "k \<in> set cl"
  shows "\<not> precedes k (hd (claim_order cl))"
proof -
  let ?f = "\<lambda>j. - j_priority j" and ?xs = "sort_key j_id cl"
  define h where "h = hd (claim_order cl)"
  have ne: "claim_order cl \<noteq> []" using k set_claim_order [of cl] by fastforce
  obtain rest where xs: "claim_order cl = h # rest" using ne unfolding h_def by (cases "claim_order cl") auto
  have "sorted (map ?f (claim_order cl))" by (simp add: claim_order_def)
  then have pr: "j_priority k \<le> j_priority h" using k set_claim_order [of cl] unfolding xs by auto
  have "j_id h \<le> j_id k" if eq: "j_priority k = j_priority h"
  proof -
    have "filter (\<lambda>y. ?f y = ?f h) (claim_order cl) = filter (\<lambda>y. ?f y = ?f h) ?xs"
      unfolding claim_order_def by (rule sort_key_stable)
    then have same: "filter (\<lambda>y. ?f y = ?f h) ?xs = h # filter (\<lambda>y. ?f y = ?f h) rest" by (simp add: xs)
    have "sorted (map j_id (filter (\<lambda>y. ?f y = ?f h) ?xs))" by (rule sorted_filter) simp
    moreover have "k \<in> set (filter (\<lambda>y. ?f y = ?f h) ?xs)" using k eq by simp
    ultimately show ?thesis unfolding same by auto
  qed
  then show ?thesis using pr unfolding h_def [symmetric] precedes_def by auto
qed

lemma sort_key_hd:
  assumes "xs \<noteq> []" and "\<forall>x \<in> set xs. f (hd xs) \<le> f x"
  shows "take 1 (sort_key f xs) = take 1 xs"
proof -
  obtain x ys where xs: "xs = x # ys" using assms(1) by (cases xs) auto
  then have "sort_key f xs = x # sort_key f ys" using assms(2) by (simp add: insort_is_Cons)
  then show ?thesis by (simp add: xs)
qed

lemma fair_claim_of_one_is_plain:
  assumes d: "distinct (map j_id (jobs db))" and room: "\<forall>j \<in> set (claimables q now db). within_cap None db (claimables q now db) j"
  shows "picked q 1 None True now db = picked q 1 None False now db"
proof (cases "claimables q now db = []")
  case True
  then show ?thesis unfolding picked_fair eligible_def by (simp add: picked_def Let_def claim_order_def flip: claimables_def)
next
  case False
  let ?cl = "claimables q now db"
  have plain: "picked q 1 None False now db = take 1 (claim_order ?cl)" by (simp add: picked_def Let_def claimables_def)
  have el: "eligible q None now db = ?cl" unfolding eligible_def using room by (simp add: filter_id_conv)
  have "filter (\<lambda>k. j_key k = j_key (hd (claim_order ?cl)) \<and> precedes k (hd (claim_order ?cl))) ?cl = []"
    using hd_claim_order [OF claimables_distinct [OF d, of q now]] by (simp add: filter_empty_conv)
  then have "row_number ?cl (hd (claim_order ?cl)) = 1" by (simp add: row_number_def)
  moreover have "claim_order ?cl \<noteq> []" using False set_claim_order [of ?cl] by (metis set_empty)
  ultimately have "take 1 (sort_key (row_number ?cl) (claim_order ?cl)) = take 1 (claim_order ?cl)"
    by (intro sort_key_hd) (simp_all add: row_number_pos [unfolded One_nat_def])
  then show ?thesis unfolding plain picked_fair el .
qed

text \<open>Three rounds of a worker with one free permit: the later tenant waits behind the whole backlog of the other.\<close>

fun settle_all :: "claimed_job list \<Rightarrow> jobs_db \<Rightarrow> jobs_db" where
  "settle_all [] db = db"
| "settle_all (c # cs) db = settle_all cs (settle_job c None 0 db)"

definition serve_one :: "jobs_db \<Rightarrow> nat list \<times> jobs_db" where
  "serve_one db = (case claim_jobs ''q'' 1 100 None True 0 db of (new, db') \<Rightarrow> (map c_id new, settle_all new db'))"

definition backlog :: "nat \<Rightarrow> jobs_db" where
  "backlog n = delete_where (\<lambda>j. j_id j < n) busy_db"

lemma fair_worker_starves_a_tenant:
  "backlog 0 = busy_db"
  "serve_one (backlog 0) = ([0], backlog 1)" "serve_one (backlog 1) = ([1], backlog 2)" "serve_one (backlog 2) = ([2], backlog 3)"
  "map j_key (jobs busy_db) = [Some ''a'', Some ''a'', Some ''a'', Some ''b'']"
  by code_simp+

text \<open>
  The limit is on the rows marked running. A worker that lost its lease goes on with its job: two
  handlers of a key run at once under a limit of one.
\<close>

definition lost_lease_db :: jobs_db where
  "lost_lease_db = sweep_expired 200 (snd (claim_jobs ''q'' 1 100 (Some 1) False 0 tenants_db))"

lemma expired_lease_exceeds_limit:
  "limited one_at_a_time q 1 \<and>
   job_reach one_at_a_time (snd (claim_jobs ''q'' 1 100 (Some 1) False 200 lost_lease_db),
     fst (claim_jobs ''q'' 1 100 (Some 1) False 0 tenants_db) @ fst (claim_jobs ''q'' 1 100 (Some 1) False 200 lost_lease_db)) \<and>
   map c_id (fst (claim_jobs ''q'' 1 100 (Some 1) False 0 tenants_db)) = [0] \<and>
   map c_id (fst (claim_jobs ''q'' 1 100 (Some 1) False 200 lost_lease_db)) = [0]"
proof (intro conjI)
  have one: "(Some 1, False) \<in> one_at_a_time q" for q by (simp add: one_at_a_time_def)
  have "job_reach one_at_a_time (tenants_db, [])" unfolding tenants_db_def by (rule pushed_reach)
  then have "job_reach one_at_a_time (snd (claim_jobs ''q'' 1 100 (Some 1) False 0 tenants_db), [] @ fst (claim_jobs ''q'' 1 100 (Some 1) False 0 tenants_db))"
    by (rule job_reach.step) (rule job_step.claim [OF one], simp)
  then have "job_reach one_at_a_time (lost_lease_db, fst (claim_jobs ''q'' 1 100 (Some 1) False 0 tenants_db))"
    unfolding lost_lease_db_def append_Nil by (rule job_reach.step) (rule job_step.sweep)
  then show "job_reach one_at_a_time (snd (claim_jobs ''q'' 1 100 (Some 1) False 200 lost_lease_db),
     fst (claim_jobs ''q'' 1 100 (Some 1) False 0 tenants_db) @ fst (claim_jobs ''q'' 1 100 (Some 1) False 200 lost_lease_db))"
    by (rule job_reach.step) (rule job_step.claim [OF one], simp)
qed (simp add: limited_def one_at_a_time_def, code_simp+)

end
