(* ===== verification/Doubles.thy ===== *)
theory Doubles
  imports Complex_Main Prelude "HOL-Library.Log_Nat"
begin

text \<open>
  JavaScript numbers. A number is a finite value, one of the infinities, or not-a-number. Finite
  values are rationals; \<open>fl\<close> rounds a rational to the nearest IEEE-754 binary64 value (53
  significant bits, ties to even), so an arithmetic operation of the source on doubles is \<open>fl\<close>
  of the exact operation. The exponent range is unbounded here: the sources' quantities
  (milliseconds, token counts, prices, scores) are far from overflow and underflow.
\<close>

datatype jsnum = Fin rat | NaN | PosInf | NegInf

definition ilog2 :: "rat \<Rightarrow> int" where
  "ilog2 x =
     (let (p, q) = quotient_of x; k = bitlen p - bitlen q
      in if 2 powi k \<le> x then k else k - 1)"

definition rne :: "rat \<Rightarrow> int" where
  "rne x =
     (let f = \<lfloor>x\<rfloor>; d = x - of_int f
      in if d < 1 / 2 then f else if 1 / 2 < d then f + 1 else if even f then f else f + 1)"

definition fl :: "rat \<Rightarrow> rat" where
  "fl x = (if x = 0 then 0 else let e = ilog2 \<bar>x\<bar> - 52 in of_int (rne (x / 2 powi e)) * 2 powi e)"

lemma bitlen_upper: "0 < p \<Longrightarrow> (of_int p :: rat) < 2 powi bitlen p"
proof -
  assume p: "0 < p"
  have nn: "0 \<le> bitlen p" by (rule bitlen_nonneg)
  from p have "p < 2 ^ nat (bitlen p)" using bitlen_bounds [of p] by simp
  then have "(of_int p :: rat) < of_int (2 ^ nat (bitlen p))" by (simp only: of_int_less_iff)
  with nn show ?thesis by (simp add: power_int_def)
qed

lemma bitlen_lower: "0 < p \<Longrightarrow> (2 :: rat) powi (bitlen p - 1) \<le> of_int p"
proof -
  assume p: "0 < p"
  then have one: "1 \<le> bitlen p" using bitlen_le_iff_power [of p 0] bitlen_nonneg [of p]
    by (smt (verit) bitlen_eq_zero_iff)
  from p have "2 ^ nat (bitlen p - 1) \<le> p" using bitlen_bounds [of p] by simp
  then have "(of_int (2 ^ nat (bitlen p - 1)) :: rat) \<le> of_int p" by (simp only: of_int_le_iff)
  with one show ?thesis by (simp add: power_int_def)
qed

lemma ilog2_le:
  assumes x: "0 < x"
  shows "2 powi (ilog2 x) \<le> x"
proof -
  obtain p q where pq: "quotient_of x = (p, q)" by (cases "quotient_of x")
  have q: "0 < q" using pq by (rule quotient_of_denom_pos)
  have xpq: "x = of_int p / of_int q" using pq by (rule quotient_of_div)
  have p: "0 < p" using x q xpq by (simp add: zero_less_divide_iff)
  let ?k = "bitlen p - bitlen q"
  show ?thesis
  proof (cases "2 powi ?k \<le> x")
    case True
    then show ?thesis by (simp add: ilog2_def pq)
  next
    case False
    have "(2::rat) powi (?k - 1) * of_int q \<le> 2 powi (?k - 1) * 2 powi bitlen q"
      using bitlen_upper [OF q] by (intro mult_left_mono) simp_all
    also have "\<dots> = 2 powi (bitlen p - 1)"
      by (simp add: power_int_add [symmetric])
    also have "\<dots> \<le> of_int p" by (rule bitlen_lower [OF p])
    finally have "2 powi (?k - 1) \<le> x" using q by (simp add: xpq pos_le_divide_eq)
    with False show ?thesis by (simp add: ilog2_def pq)
  qed
qed

lemma ilog2_less: "0 < x \<Longrightarrow> x < 2 powi n \<Longrightarrow> ilog2 x < n"
proof -
  assume x: "0 < x" and n: "x < 2 powi n"
  from ilog2_le [OF x] n have "(2::rat) powi ilog2 x < 2 powi n" by linarith
  then show ?thesis using power_int_increasing [of n "ilog2 x" "2 :: rat"] by (meson linorder_not_less not_less_iff_gr_or_eq order_less_le one_le_numeral)
qed

lemma rne_of_int [simp]: "rne (of_int i) = i"
  by (simp add: rne_def)

lemma fl_zero [simp]: "fl 0 = 0"
  by (simp add: fl_def)

text \<open>Integers below \<open>2^53\<close> in magnitude are doubles: rounding leaves them alone.\<close>

lemma fl_of_int: "\<bar>i\<bar> < 2 ^ 53 \<Longrightarrow> fl (of_int i) = of_int i"
proof (cases "i = 0")
  case False
  assume b: "\<bar>i\<bar> < 2 ^ 53"
  let ?x = "of_int i :: rat"
  have pos: "0 < \<bar>?x\<bar>" using False by simp
  have "(of_int \<bar>i\<bar> :: rat) < of_int (2 ^ 53)" using b by (simp only: of_int_less_iff)
  then have "\<bar>?x\<bar> < 2 powi 53" by (simp add: power_int_def)
  then have "ilog2 \<bar>?x\<bar> < 53" by (rule ilog2_less [OF pos])
  then have "- int (nat (52 - ilog2 \<bar>?x\<bar>)) = ilog2 \<bar>?x\<bar> - 52" by simp
  then obtain n where n: "ilog2 \<bar>?x\<bar> - 52 = - int n" by metis
  have "?x / 2 powi (- int n) = of_int (i * 2 ^ n)"
    by (simp add: power_int_minus field_simps)
  then have "rne (?x / 2 powi (- int n)) = i * 2 ^ n" by (simp only: rne_of_int)
  moreover have "fl ?x = of_int (rne (?x / 2 powi (- int n))) * 2 powi (- int n)"
    unfolding fl_def Let_def n using False by simp
  ultimately show ?thesis by (simp add: power_int_minus)
qed simp

lemma fl_of_nat: "n < 2 ^ 53 \<Longrightarrow> fl (of_nat n) = of_nat n"
  using fl_of_int [of "int n"] by simp

lemma rne_nonneg: "0 \<le> x \<Longrightarrow> 0 \<le> rne x"
  by (auto simp: rne_def Let_def)

lemma fl_nonneg: "0 \<le> x \<Longrightarrow> 0 \<le> fl x"
  by (auto simp: fl_def Let_def intro!: mult_nonneg_nonneg rne_nonneg divide_nonneg_nonneg)

end
