(* ===== verification/Duration.thy ===== *)
theory Duration
  imports Doubles
begin

text \<open>
  Durations (\<open>packages/zenzip/src/duration.ts\<close>). Every timeout, delay, lease and retention
  window of the framework passes through \<open>ms\<close>: a number of milliseconds, or a decimal with
  an optional unit suffix. The regular expression of the source is a deterministic scan: digits,
  an optional fraction, white space, an optional unit, end of input.
\<close>

datatype duration = DNum jsnum | DStr string

datatype duration_error = InvalidNumber jsnum | InvalidString string

definition UNIT_MS :: "(string, rat) jsmap" where
  "UNIT_MS =
     [(''ms'', 1), (''s'', 1000), (''m'', 60000), (''h'', 3600000), (''d'', 86400000)]"

text \<open>The match of the regular expression: integer digits, fraction digits, unit.\<close>

definition ms_match :: "string \<Rightarrow> (string \<times> string option \<times> string option) option" where
  "ms_match s =
     (let whole = takeWhile is_digit s;
          rest = dropWhile is_digit s;
          fracDigits = (case rest of
              c # cs \<Rightarrow> if c = CHR ''.'' then takeWhile is_digit cs else []
            | [] \<Rightarrow> []);
          fracn = (if fracDigits = [] then None else Some fracDigits);
          rest1 = (if fracDigits = [] then rest else drop (1 + length fracDigits) rest);
          unit = dropWhile is_space rest1
      in if whole = [] then None
         else if unit = [] then Some (whole, fracn, None)
         else if map_has UNIT_MS unit then Some (whole, fracn, Some unit)
         else None)"

definition decimal :: "string \<Rightarrow> string option \<Rightarrow> rat" where
  "decimal whole fracn =
     of_nat (dec_value whole) +
     (case fracn of None \<Rightarrow> 0 | Some f \<Rightarrow> of_nat (dec_value f) / 10 ^ length f)"

fun ms :: "duration \<Rightarrow> (duration_error, int) res" where
  "ms (DNum n) =
     (case n of
        Fin x \<Rightarrow> if x < 0 then Throw (InvalidNumber n) else Ok \<lfloor>x\<rfloor>
      | _ \<Rightarrow> Throw (InvalidNumber n))"
| "ms (DStr input) =
     (case ms_match (trim input) of
        None \<Rightarrow> Throw (InvalidString input)
      | Some (whole, fracn, unit) \<Rightarrow>
          (let value = fl (decimal whole fracn);
               u = (case unit of None \<Rightarrow> ''ms'' | Some u \<Rightarrow> u)
           in Ok \<lfloor>fl (value * the (map_get UNIT_MS u))\<rfloor>))"

lemma UNIT_MS_cases:
  "map_get UNIT_MS u = Some k \<Longrightarrow>
     u = ''ms'' \<and> k = 1 \<or> u = ''s'' \<and> k = 1000 \<or> u = ''m'' \<and> k = 60000 \<or>
     u = ''h'' \<and> k = 3600000 \<or> u = ''d'' \<and> k = 86400000"
  by (auto simp: UNIT_MS_def split: if_splits)

lemma takeWhile_digits:
  "(\<And>c. c \<in> set d \<Longrightarrow> is_digit c) \<Longrightarrow> (t = [] \<or> \<not> is_digit (hd t)) \<Longrightarrow>
     takeWhile is_digit (d @ t) = d \<and> dropWhile is_digit (d @ t) = t"
  by (induction d) (cases t, auto)

lemma unit_chars:
  assumes "map_get UNIT_MS u = Some k"
  shows "u \<noteq> []" "\<not> is_digit (hd u)" "hd u \<noteq> CHR ''.''" "\<And>c. c \<in> set u \<Longrightarrow> \<not> is_space c"
  using UNIT_MS_cases [OF assms] by (auto simp: is_digit_def is_space_def code_def)

lemma digit_not_space: "is_digit c \<Longrightarrow> \<not> is_space c"
  by (auto simp: is_digit_def is_space_def)

lemma ms_match_whole:
  assumes u: "map_get UNIT_MS u = Some k"
  shows "ms_match (digits10 n @ u) = Some (digits10 n, None, Some u)"
proof -
  have td: "takeWhile is_digit (digits10 n @ u) = digits10 n \<and> dropWhile is_digit (digits10 n @ u) = u"
    by (rule takeWhile_digits) (use digits10_digits unit_chars [OF u] in auto)
  obtain c cs where cs: "u = c # cs" using unit_chars(1) [OF u] by (cases u) auto
  have "c \<noteq> CHR ''.''" "\<not> is_space c" using unit_chars [OF u] cs by auto
  with td cs u show ?thesis by (simp add: ms_match_def map_has_def Let_def)
qed

lemma trim_digits_unit:
  assumes u: "map_get UNIT_MS u = Some k"
  shows "trim (digits10 n @ u) = digits10 n @ u"
  by (rule trim_no_space) (use digits10_digits digit_not_space unit_chars [OF u] in auto)

text \<open>
  A whole number of units below the double-precision bound is converted exactly: no rounding of
  the literal, of the product, or of the floor changes it.
\<close>

lemma ms_exact_aux:
  assumes u: "map_get UNIT_MS u = Some (of_nat k)" and b: "n * k < 2 ^ 53"
  shows "ms (DStr (digits10 n @ u)) = Ok (int (n * k))"
proof -
  have k: "0 < k" using UNIT_MS_cases [OF u] by (auto intro: Nat.gr0I)
  then have "n \<le> n * k" by simp
  with b have nb: "n < 2 ^ 53" by linarith
  have "fl (of_nat n * of_nat k) = of_nat (n * k)" using fl_of_nat [OF b] by simp
  then show ?thesis
    using fl_of_nat [OF nb] u
    by (simp add: trim_digits_unit [OF u] ms_match_whole [OF u] decimal_def Let_def del: of_nat_mult)
qed

lemma decimal_nonneg: "0 \<le> decimal w f"
  by (auto simp: decimal_def split: option.splits)

lemma ms_match_unit: "ms_match s = Some (w, f, Some u) \<Longrightarrow> map_get UNIT_MS u \<noteq> None"
  by (auto simp: ms_match_def Let_def map_has_def split: if_splits)

lemma ms_nonneg_aux: "ms d = Ok v \<Longrightarrow> 0 \<le> v"
proof (cases d)
  case (DNum n)
  assume "ms d = Ok v"
  with DNum show ?thesis by (auto split: jsnum.splits if_splits)
next
  case (DStr s)
  assume ok: "ms d = Ok v"
  then obtain w f u where m: "ms_match (trim s) = Some (w, f, u)"
    using DStr by (auto split: option.splits)
  let ?u = "case u of None \<Rightarrow> ''ms'' | Some u \<Rightarrow> u"
  have "map_get UNIT_MS ?u \<noteq> None"
  proof (cases u)
    case None
    then show ?thesis by (simp add: UNIT_MS_def)
  next
    case (Some x)
    with m show ?thesis by (simp add: ms_match_unit)
  qed
  then obtain k where k: "map_get UNIT_MS ?u = Some k" by auto
  then have "0 \<le> k" using UNIT_MS_cases by fastforce
  then have "0 \<le> fl (fl (decimal w f) * k)"
    by (intro fl_nonneg mult_nonneg_nonneg decimal_nonneg)
  with ok DStr m k show ?thesis by (auto simp: Let_def)
qed

text \<open>
  A duration literal of a whole number \<open>n\<close> of a unit of \<open>k\<close> milliseconds
  (\<open>ms\<close>, \<open>s\<close>, \<open>m\<close>, \<open>h\<close>, \<open>d\<close>) is converted to exactly \<open>n * k\<close> milliseconds as long
  as the product is below \<open>2^53\<close>, in spite of the double-precision arithmetic.
\<close>

theorem ms_exact:
  assumes "map_get UNIT_MS u = Some (of_nat k)" and "n * k < 2 ^ 53"
  shows "ms (DStr (digits10 n @ u)) = Ok (int (n * k))"
  using assms by (rule ms_exact_aux)

theorem ms_exact_witness: "ms (DStr (digits10 90 @ ''m'')) = Ok 5400000"
  using ms_exact [of "''m''" 60000 90] by (simp add: UNIT_MS_def)

text \<open>
  The double-precision product does not keep fractional literals exact: \<open>"1.001s"\<close> is one
  millisecond short, because \<open>1.001 * 1000\<close> rounds to a value below 1001 before the floor.
\<close>

lemma ms_fraction_short: "ms (DStr ''1.001s'') = Ok 1000"
  by code_simp

end
