(* ===== verification/Json.thy ===== *)
theory Json
  imports Prelude
begin

text \<open>
  JavaScript values and their JSON texts. Everything the TypeScript layer journals, queues or hands
  to the native engine goes through \<open>JSON.stringify\<close> and comes back through \<open>JSON.parse\<close>;
  this theory has both as executable functions on strings and proves that they invert each other
  on values without \<open>undefined\<close>. Numbers are integers: the parser rejects a fraction or an
  exponent. Objects keep their keys in insertion order (keys that are array indices, which
  JavaScript would move to the front, are not singled out).
\<close>

datatype jsval =
    JUndef
  | JNull
  | JBool bool
  | JNum int
  | JStr string
  | JArr "jsval list"
  | JObj "(string \<times> jsval) list"

section \<open>JSON.stringify\<close>

definition DQ :: char where "DQ = CHR 0x22"
definition BSL :: char where "BSL = CHR 0x5C"
definition SQ :: string where "SQ = [CHR 0x27]"

definition hexdigit :: "nat \<Rightarrow> char" where
  "hexdigit n = (if n < 10 then char_of (48 + n) else char_of (87 + n))"

definition esc :: "char \<Rightarrow> string" where
  "esc c =
     (if c = DQ then [BSL, DQ]
      else if c = BSL then [BSL, BSL]
      else if code c = 8 then [BSL, CHR ''b'']
      else if code c = 9 then [BSL, CHR ''t'']
      else if code c = 10 then [BSL, CHR ''n'']
      else if code c = 12 then [BSL, CHR ''f'']
      else if code c = 13 then [BSL, CHR ''r'']
      else if code c < 32
        then [BSL, CHR ''u'', CHR ''0'', CHR ''0'', hexdigit (code c div 16), hexdigit (code c mod 16)]
      else [c])"

definition quote_str :: "string \<Rightarrow> string" where
  "quote_str s = DQ # concat (map esc s) @ [DQ]"

text \<open>
  \<open>None\<close> is the value \<open>undefined\<close>: it is dropped from objects and printed as \<open>null\<close> in
  arrays.
\<close>

fun stringify :: "jsval \<Rightarrow> string option" where
  "stringify JUndef = None"
| "stringify JNull = Some ''null''"
| "stringify (JBool b) = Some (if b then ''true'' else ''false'')"
| "stringify (JNum i) = Some (int_str i)"
| "stringify (JStr s) = Some (quote_str s)"
| "stringify (JArr vs) =
     Some (CHR ''['' #
       join_with '','' (map (\<lambda>v. case stringify v of None \<Rightarrow> ''null'' | Some t \<Rightarrow> t) vs) @ '']'')"
| "stringify (JObj kvs) =
     Some (CHR ''{'' #
       join_with '',''
         (List.map_filter (\<lambda>kv. case stringify (snd kv) of
              None \<Rightarrow> None
            | Some t \<Rightarrow> Some (quote_str (fst kv) @ '':'' @ t)) kvs) @ ''}'')"

text \<open>The nullish coalescing of the sources, \<open>JSON.stringify(v ?? null)\<close>, always yields a text.\<close>

definition nullish :: "jsval \<Rightarrow> bool" where
  "nullish v \<longleftrightarrow> v = JUndef \<or> v = JNull"

definition or_null :: "jsval \<Rightarrow> jsval" where
  "or_null v = (if nullish v then JNull else v)"

definition stringify_or_null :: "jsval \<Rightarrow> string" where
  "stringify_or_null v = the (stringify (or_null v))"

section \<open>Coercions of the language\<close>

definition truthy :: "jsval \<Rightarrow> bool" where
  "truthy v = (case v of
       JUndef \<Rightarrow> False | JNull \<Rightarrow> False | JBool b \<Rightarrow> b | JNum i \<Rightarrow> i \<noteq> 0 | JStr s \<Rightarrow> s \<noteq> []
     | JArr _ \<Rightarrow> True | JObj _ \<Rightarrow> True)"

text \<open>\<open>String(v)\<close>; inside an array \<open>null\<close> and \<open>undefined\<close> print as nothing.\<close>

fun js_String :: "jsval \<Rightarrow> string" where
  "js_String JUndef = ''undefined''"
| "js_String JNull = ''null''"
| "js_String (JBool b) = (if b then ''true'' else ''false'')"
| "js_String (JNum i) = int_str i"
| "js_String (JStr s) = s"
| "js_String (JArr vs) = join_with '','' (map (\<lambda>v. if nullish v then [] else js_String v) vs)"
| "js_String (JObj kvs) = ''[object Object]''"

text \<open>Reading a property; \<open>None\<close> is the \<open>TypeError\<close> of reading it off \<open>undefined\<close> or \<open>null\<close>.\<close>

definition get_prop :: "jsval \<Rightarrow> string \<Rightarrow> jsval option" where
  "get_prop v k = (case v of
       JUndef \<Rightarrow> None | JNull \<Rightarrow> None
     | JObj kvs \<Rightarrow> Some (case map_get kvs k of Some x \<Rightarrow> x | None \<Rightarrow> JUndef)
     | _ \<Rightarrow> Some JUndef)"

section \<open>JSON.parse\<close>

definition json_ws :: "char \<Rightarrow> bool" where
  "json_ws c \<longleftrightarrow> code c \<in> {9, 10, 13, 32}"

definition skip_ws :: "string \<Rightarrow> string" where
  "skip_ws s = dropWhile json_ws s"

definition unhex :: "char \<Rightarrow> nat option" where
  "unhex c =
     (let n = code c
      in if 48 \<le> n \<and> n \<le> 57 then Some (n - 48)
         else if 97 \<le> n \<and> n \<le> 102 then Some (n - 87)
         else if 65 \<le> n \<and> n \<le> 70 then Some (n - 55)
         else None)"

definition unhex4 :: "char \<Rightarrow> char \<Rightarrow> char \<Rightarrow> char \<Rightarrow> char option" where
  "unhex4 a b c d =
     (case (unhex a, unhex b, unhex c, unhex d) of
        (Some w, Some x, Some y, Some z) \<Rightarrow>
          (let n = ((w * 16 + x) * 16 + y) * 16 + z in if n < 256 then Some (char_of n) else None)
      | _ \<Rightarrow> None)"

definition simple_esc :: "char \<Rightarrow> char option" where
  "simple_esc e =
     (if e = DQ then Some DQ else if e = BSL then Some BSL
      else if e = CHR ''/'' then Some e
      else if e = CHR ''b'' then Some (char_of (8 :: nat))
      else if e = CHR ''f'' then Some (char_of (12 :: nat))
      else if e = CHR ''n'' then Some (char_of (10 :: nat))
      else if e = CHR ''r'' then Some (char_of (13 :: nat))
      else if e = CHR ''t'' then Some (char_of (9 :: nat)) else None)"

abbreviation push_char :: "'a \<Rightarrow> ('a list \<times> 'b) option \<Rightarrow> ('a list \<times> 'b) option" where
  "push_char x r \<equiv> map_option (\<lambda>(xs, t). (x # xs, t)) r"

fun pstr :: "string \<Rightarrow> (string \<times> string) option" where
  "pstr [] = None"
| "pstr (c # cs) =
     (if c = DQ then Some ([], cs)
      else if c = BSL then
        (case cs of
           [] \<Rightarrow> None
         | e # r \<Rightarrow>
             (if e = CHR ''u'' then
                (case r of
                   h1 # h2 # h3 # h4 # r' \<Rightarrow>
                     (case unhex4 h1 h2 h3 h4 of None \<Rightarrow> None | Some d \<Rightarrow> push_char d (pstr r'))
                 | _ \<Rightarrow> None)
              else (case simple_esc e of None \<Rightarrow> None | Some d \<Rightarrow> push_char d (pstr r))))
      else if code c < 32 then None
      else push_char c (pstr cs))"

definition pnum :: "string \<Rightarrow> (jsval \<times> string) option" where
  "pnum s =
     (let neg = startsWith s ''-'';
          t = (if neg then tl s else s);
          ds = takeWhile is_digit t;
          r = dropWhile is_digit t
      in if ds = [] \<or> (1 < length ds \<and> hd ds = CHR ''0'') \<or>
            (r \<noteq> [] \<and> hd r \<in> {CHR ''.'', CHR ''e'', CHR ''E''})
         then None
         else Some (JNum (if neg then - int (dec_value ds) else int (dec_value ds)), r))"

definition obj_of :: "(string \<times> jsval) list \<Rightarrow> jsval" where
  "obj_of kvs = JObj (fold (\<lambda>(k, v). map_set k v) kvs [])"

text \<open>The fuel bounds the nesting; \<open>JSON_parse\<close> supplies the length of the text, which is enough.\<close>

fun pval :: "nat \<Rightarrow> string \<Rightarrow> (jsval \<times> string) option"
  and pelems :: "nat \<Rightarrow> string \<Rightarrow> (jsval list \<times> string) option"
  and pmembers :: "nat \<Rightarrow> string \<Rightarrow> ((string \<times> jsval) list \<times> string) option" where
  "pval 0 s = None"
| "pval (Suc n) s =
     (case skip_ws s of
        [] \<Rightarrow> None
      | c # cs \<Rightarrow>
          (if c = DQ then map_option (\<lambda>(t, r). (JStr t, r)) (pstr cs)
           else if c = CHR ''['' then
             (case skip_ws cs of
                [] \<Rightarrow> None
              | d # r \<Rightarrow> if d = CHR '']'' then Some (JArr [], r)
                         else map_option (\<lambda>(vs, r'). (JArr vs, r')) (pelems n (d # r)))
           else if c = CHR ''{'' then
             (case skip_ws cs of
                [] \<Rightarrow> None
              | d # r \<Rightarrow> if d = CHR ''}'' then Some (JObj [], r)
                         else map_option (\<lambda>(kvs, r'). (obj_of kvs, r')) (pmembers n (d # r)))
           else if startsWith (c # cs) ''null'' then Some (JNull, drop 4 (c # cs))
           else if startsWith (c # cs) ''true'' then Some (JBool True, drop 4 (c # cs))
           else if startsWith (c # cs) ''false'' then Some (JBool False, drop 5 (c # cs))
           else pnum (c # cs)))"
| "pelems 0 s = None"
| "pelems (Suc n) s =
     (case pval n s of
        None \<Rightarrow> None
      | Some (v, r) \<Rightarrow>
          (case skip_ws r of
             [] \<Rightarrow> None
           | d # r' \<Rightarrow> if d = CHR '','' then push_char v (pelems n r')
                       else if d = CHR '']'' then Some ([v], r') else None))"
| "pmembers 0 s = None"
| "pmembers (Suc n) s =
     (case skip_ws s of
        [] \<Rightarrow> None
      | q # cs \<Rightarrow>
          (if q \<noteq> DQ then None else
           (case pstr cs of
              None \<Rightarrow> None
            | Some (k, r) \<Rightarrow>
                (case skip_ws r of
                   [] \<Rightarrow> None
                 | col # r1 \<Rightarrow>
                     (if col \<noteq> CHR '':'' then None else
                      (case pval n r1 of
                         None \<Rightarrow> None
                       | Some (v, r2) \<Rightarrow>
                           (case skip_ws r2 of
                              [] \<Rightarrow> None
                            | d # r3 \<Rightarrow>
                                if d = CHR '','' then push_char (k, v) (pmembers n r3)
                                else if d = CHR ''}'' then Some ([(k, v)], r3) else None)))))))"

definition JSON_parse :: "string \<Rightarrow> jsval option" where
  "JSON_parse s =
     (case pval (Suc (length s)) s of
        None \<Rightarrow> None
      | Some (v, r) \<Rightarrow> if skip_ws r = [] then Some v else None)"


section \<open>The round trip\<close>

fun json_ok :: "jsval \<Rightarrow> bool" where
  "json_ok JUndef = False"
| "json_ok JNull = True"
| "json_ok (JBool b) = True"
| "json_ok (JNum i) = True"
| "json_ok (JStr s) = True"
| "json_ok (JArr vs) = (\<forall>v \<in> set vs. json_ok v)"
| "json_ok (JObj kvs) = (distinct (map fst kvs) \<and> (\<forall>kv \<in> set kvs. json_ok (snd kv)))"

fun json_text :: "jsval \<Rightarrow> string" where
  "json_text JUndef = []"
| "json_text JNull = ''null''"
| "json_text (JBool b) = (if b then ''true'' else ''false'')"
| "json_text (JNum i) = int_str i"
| "json_text (JStr s) = quote_str s"
| "json_text (JArr vs) = CHR ''['' # join_with '','' (map json_text vs) @ '']''"
| "json_text (JObj kvs) =
     CHR ''{'' # join_with '','' (map (\<lambda>kv. quote_str (fst kv) @ '':'' @ json_text (snd kv)) kvs) @ ''}''"

lemma map_filter_Some: "(\<And>x. x \<in> set xs \<Longrightarrow> f x = Some (g x)) \<Longrightarrow> List.map_filter f xs = map g xs"
  by (induction xs) (auto simp: List.map_filter_simps)

lemma stringify_json_text: "json_ok v \<Longrightarrow> stringify v = Some (json_text v)"
proof (induction v rule: json_text.induct)
  case (6 vs)
  then have "map (\<lambda>v. case stringify v of None \<Rightarrow> ''null'' | Some t \<Rightarrow> t) vs = map json_text vs"
    by simp
  then show ?case by (simp del: map_eq_conv)
next
  case (7 kvs)
  then have "List.map_filter (\<lambda>kv. case stringify (snd kv) of
        None \<Rightarrow> None | Some t \<Rightarrow> Some (quote_str (fst kv) @ '':'' @ t)) kvs
      = map (\<lambda>kv. quote_str (fst kv) @ '':'' @ json_text (snd kv)) kvs"
    by (intro map_filter_Some) simp
  then show ?case by simp
qed auto

definition stops :: "string \<Rightarrow> bool" where
  "stops r \<longleftrightarrow> r = [] \<or> hd r \<in> {CHR '','', CHR '']'', CHR ''}''}"

lemma unhex_hexdigit: "n < 16 \<Longrightarrow> unhex (hexdigit n) = Some n"
  by (auto simp: unhex_def hexdigit_def Let_def)

lemma unhex_zero: "unhex (CHR ''0'') = Some 0"
  by (simp add: unhex_def Let_def code_def)

lemma pstr_esc: "pstr (esc c @ t) = push_char c (pstr t)"
proof -
  have pc: "c = char_of n" if "code c = n" for n using that by (metis char_of_code)
  have dq: "DQ \<noteq> BSL" by (simp add: DQ_def BSL_def)
  have u: "CHR ''u'' \<noteq> DQ" "CHR ''u'' \<noteq> BSL" by (simp_all add: DQ_def BSL_def)
  consider "c = DQ" | "c = BSL" | "code c = 8" | "code c = 9" | "code c = 10" | "code c = 12"
    | "code c = 13"
    | "code c < 32" "c \<noteq> DQ" "c \<noteq> BSL" "code c \<notin> {8, 9, 10, 12, 13}"
    | "c \<noteq> DQ" "c \<noteq> BSL" "\<not> code c < 32" by blast
  then show ?thesis
  proof cases
    case 8
    have "unhex4 (CHR ''0'') (CHR ''0'') (hexdigit (code c div 16)) (hexdigit (code c mod 16)) = Some c"
      using 8 by (simp add: unhex4_def unhex_zero unhex_hexdigit)
    with 8 dq u show ?thesis by (auto simp: esc_def)
  next
    case 9
    then show ?thesis by (auto simp: esc_def)
  qed (use dq in \<open>auto simp: esc_def simple_esc_def DQ_def BSL_def code_def dest: pc [unfolded code_def]\<close>)
qed

lemma pstr_quote: "pstr (concat (map esc s) @ DQ # t) = Some (s, t)"
  by (induction s) (auto simp: pstr_esc)

lemma takeWhile_stop:
  "(\<And>c. c \<in> set d \<Longrightarrow> P c) \<Longrightarrow> (t = [] \<or> \<not> P (hd t)) \<Longrightarrow> takeWhile P (d @ t) = d"
  "(\<And>c. c \<in> set d \<Longrightarrow> P c) \<Longrightarrow> (t = [] \<or> \<not> P (hd t)) \<Longrightarrow> dropWhile P (d @ t) = t"
  by (induction d) (cases t, auto)+

lemma stops_digit: "stops r \<Longrightarrow> r = [] \<or> \<not> is_digit (hd r)"
  by (auto simp: stops_def is_digit_def code_def)

lemma stops_exp: "stops r \<Longrightarrow> r = [] \<or> hd r \<notin> {CHR ''.'', CHR ''e'', CHR ''E''}"
  by (auto simp: stops_def)

lemma digits10_lead: "\<not> (1 < length (digits10 n) \<and> hd (digits10 n) = CHR ''0'')"
proof (cases "n = 0")
  case True
  then show ?thesis by (simp add: digits10.simps)
next
  case False
  then show ?thesis using digits10_hd_zero by simp
qed

lemma digits10_hd: "is_digit (hd (digits10 n))"
  by (rule digits10_digits [of _ n]) simp

lemma pnum_int_str: "stops r \<Longrightarrow> pnum (int_str i @ r) = Some (JNum i, r)"
proof -
  assume r: "stops r"
  have tw: "takeWhile is_digit (digits10 n @ r) = digits10 n"
    "dropWhile is_digit (digits10 n @ r) = r" for n
    by (intro takeWhile_stop; use r digits10_digits stops_digit in blast)+
  have nm: "\<not> startsWith (digits10 n @ r) ''-''" for n
  proof -
    have "hd (digits10 n) \<noteq> CHR ''-''" using digits10_hd [of n] by (auto simp: is_digit_def code_def)
    then show ?thesis by (cases "digits10 n") auto
  qed
  show ?thesis
  proof (cases "i < 0")
    case True
    then show ?thesis
      using tw digits10_lead stops_exp [OF r] by (simp add: pnum_def int_str_def Let_def del: dropWhile_eq_Nil_conv)
  next
    case False
    then show ?thesis
      using tw nm digits10_lead stops_exp [OF r] by (simp add: pnum_def int_str_def Let_def del: dropWhile_eq_Nil_conv)
  qed
qed

lemma int_str_hd: "\<exists>c cs. int_str i = c # cs \<and> (c = CHR ''-'' \<or> is_digit c)"
proof (cases "i < 0")
  case True
  then show ?thesis by (simp add: int_str_def)
next
  case False
  then show ?thesis using digits10_hd [of "nat i"]
    by (cases "digits10 (nat i)") (auto simp: int_str_def)
qed

text \<open>The first character of a text decides the branch of the parser; none is white space.\<close>

definition value_start :: "char \<Rightarrow> bool" where
  "value_start c \<longleftrightarrow> \<not> json_ws c \<and> c \<noteq> CHR '']'' \<and> c \<noteq> CHR ''}''"

lemma value_start_num: "c = CHR ''-'' \<or> is_digit c \<Longrightarrow> value_start c"
  by (auto simp: value_start_def json_ws_def is_digit_def code_def)

lemma json_text_hd: "json_ok v \<Longrightarrow> \<exists>c cs. json_text v = c # cs \<and> value_start c"
proof (cases v)
  case (JNum i)
  then show ?thesis using int_str_hd [of i] value_start_num by auto
qed (auto simp: value_start_def json_ws_def quote_str_def DQ_def code_def)

lemma skip_ws_start [simp]: "\<not> json_ws c \<Longrightarrow> skip_ws (c # cs) = c # cs"
  by (simp add: skip_ws_def)

lemma skip_ws_delims [simp]:
  "skip_ws (CHR '','' # r) = CHR '','' # r" "skip_ws (CHR '']'' # r) = CHR '']'' # r"
  "skip_ws (CHR ''}'' # r) = CHR ''}'' # r" "skip_ws (CHR '':'' # r) = CHR '':'' # r"
  "skip_ws (CHR ''['' # r) = CHR ''['' # r" "skip_ws (CHR ''{'' # r) = CHR ''{'' # r"
  "skip_ws (DQ # r) = DQ # r"
  by (simp_all add: json_ws_def code_def DQ_def)

lemma DQ_neq [simp]:
  "DQ \<noteq> CHR '','' " "DQ \<noteq> CHR '']''" "DQ \<noteq> CHR ''}''" "DQ \<noteq> CHR '':''" "DQ \<noteq> CHR ''[''"
  "DQ \<noteq> CHR ''{''" "CHR ''['' \<noteq> DQ" "CHR ''{'' \<noteq> DQ" "CHR '':'' \<noteq> DQ"
  by (simp_all add: DQ_def)

definition parses :: "jsval \<Rightarrow> bool" where
  "parses v \<longleftrightarrow> (\<forall>n r. length (json_text v) \<le> n \<longrightarrow> stops r \<longrightarrow> pval n (json_text v @ r) = Some (v, r))"

lemma pelems_text:
  "(\<And>v. v \<in> set vs \<Longrightarrow> parses v) \<Longrightarrow> vs \<noteq> [] \<Longrightarrow>
   length (join_with '','' (map json_text vs)) < n \<Longrightarrow>
   pelems n (join_with '','' (map json_text vs) @ CHR '']'' # r) = Some (vs, r)"
proof (induction vs arbitrary: n)
  case Nil
  then show ?case by simp
next
  case (Cons v vs)
  from Cons.prems obtain m where n: "n = Suc m" by (cases n) auto
  have pv: "length (json_text v) \<le> m \<Longrightarrow> stops t \<Longrightarrow> pval m (json_text v @ t) = Some (v, t)" for t
    using Cons.prems(1) [of v] by (simp add: parses_def)
  show ?case
  proof (cases vs)
    case Nil
    then show ?thesis using Cons.prems n pv [of "CHR '']'' # r"] by (simp add: stops_def)
  next
    case (Cons w ws)
    have jw: "join_with '','' (map json_text (v # vs)) =
        json_text v @ CHR '','' # join_with '','' (map json_text vs)"
      using Cons by simp
    have IH: "pelems m (join_with '','' (map json_text vs) @ CHR '']'' # r) = Some (vs, r)"
      using Cons.IH [of m] Cons.prems Cons n jw by auto
    show ?thesis
      using pv [of "CHR '','' # join_with '','' (map json_text vs) @ CHR '']'' # r"]
        Cons.prems(3) n jw IH by (simp add: stops_def)
  qed
qed

abbreviation member_text :: "string \<times> jsval \<Rightarrow> string" where
  "member_text kv \<equiv> quote_str (fst kv) @ '':'' @ json_text (snd kv)"

lemma pmembers_text:
  "(\<And>kv. kv \<in> set kvs \<Longrightarrow> parses (snd kv)) \<Longrightarrow> kvs \<noteq> [] \<Longrightarrow>
   length (join_with '','' (map member_text kvs)) < n \<Longrightarrow>
   pmembers n (join_with '','' (map member_text kvs) @ CHR ''}'' # r) = Some (kvs, r)"
proof (induction kvs arbitrary: n)
  case Nil
  then show ?case by simp
next
  case (Cons kv kvs)
  obtain k v where kv: "kv = (k, v)" by (cases kv)
  from Cons.prems obtain m where n: "n = Suc m" by (cases n) auto
  have pv: "length (json_text v) \<le> m \<Longrightarrow> stops t \<Longrightarrow> pval m (json_text v @ t) = Some (v, t)" for t
    using Cons.prems(1) [of kv] kv by (simp add: parses_def)
  show ?case
  proof (cases kvs)
    case Nil
    then show ?thesis using Cons.prems n kv pv [of "CHR ''}'' # r"]
      by (simp add: stops_def quote_str_def pstr_quote)
  next
    case (Cons w ws)
    have jw: "join_with '','' (map member_text (kv # kvs)) =
        member_text kv @ CHR '','' # join_with '','' (map member_text kvs)"
      using Cons by simp
    have IH: "pmembers m (join_with '','' (map member_text kvs) @ CHR ''}'' # r) = Some (kvs, r)"
      using Cons.IH [of m] Cons.prems Cons n jw by auto
    show ?thesis
      unfolding n jw
      using pv [of "CHR '','' # join_with '','' (map member_text kvs) @ CHR ''}'' # r"]
        Cons.prems(3) n jw IH kv by (simp add: stops_def quote_str_def pstr_quote)
  qed
qed

lemma fold_map_set_distinct:
  "distinct (map fst (acc @ kvs)) \<Longrightarrow> fold (\<lambda>(k, v). map_set k v) kvs acc = acc @ kvs"
proof (induction kvs arbitrary: acc)
  case Nil
  then show ?case by simp
next
  case (Cons kv kvs)
  obtain k v where kv: "kv = (k, v)" by (cases kv)
  have "\<not> map_has acc k" using Cons.prems kv by (auto simp: map_has_iff map_keys_def)
  with Cons.IH [of "acc @ [(k, v)]"] Cons.prems kv show ?case by (simp add: map_set_new)
qed

lemma obj_of_distinct: "distinct (map fst kvs) \<Longrightarrow> obj_of kvs = JObj kvs"
  using fold_map_set_distinct [of "[]" kvs] by (simp add: obj_of_def)

lemma join_with_hd:
  "xs \<noteq> [] \<Longrightarrow> hd xs = c # cs \<Longrightarrow> \<exists>t. join_with sep xs = c # t"
  by (cases xs; cases "tl xs") auto

lemma num_start:
  assumes "c = CHR ''-'' \<or> is_digit c"
  shows "c \<noteq> DQ" "c \<noteq> CHR ''[''" "c \<noteq> CHR ''{''" "c \<noteq> CHR ''n''" "c \<noteq> CHR ''t''" "c \<noteq> CHR ''f''"
    "\<not> json_ws c"
  using assms by (auto simp: is_digit_def code_def DQ_def json_ws_def)

lemma pval_literals:
  assumes "0 < n"
  shows "pval n (''null'' @ r) = Some (JNull, r)" "pval n (''true'' @ r) = Some (JBool True, r)"
    "pval n (''false'' @ r) = Some (JBool False, r)"
  using assms by (cases n; simp add: json_ws_def code_def DQ_def)+

lemma json_ok_parses: "json_ok v \<Longrightarrow> parses v"
proof (induction v rule: json_text.induct)
  case (4 i)
  obtain c cs where c: "int_str i = c # cs" "c = CHR ''-'' \<or> is_digit c"
    using int_str_hd by blast
  note ns = num_start [OF c(2)]
  show ?case unfolding parses_def
  proof (intro allI impI)
    fix n r assume n: "length (json_text (JNum i)) \<le> n" and r: "stops r"
    then obtain m where "n = Suc m" using c by (cases n) auto
    then show "pval n (json_text (JNum i) @ r) = Some (JNum i, r)"
      using c ns pnum_int_str [OF r, of i] by simp
  qed
next
  case (5 s)
  then show ?case unfolding parses_def
  proof (intro allI impI)
    fix n r assume "length (json_text (JStr s)) \<le> n"
    then obtain m where "n = Suc m" by (cases n) (auto simp: quote_str_def)
    then show "pval n (json_text (JStr s) @ r) = Some (JStr s, r)"
      by (simp add: quote_str_def pstr_quote)
  qed
next
  case (6 vs)
  then have pv: "\<And>v. v \<in> set vs \<Longrightarrow> parses v" by simp
  show ?case unfolding parses_def
  proof (intro allI impI)
    fix n r assume n: "length (json_text (JArr vs)) \<le> n" and r: "stops r"
    then obtain m where m: "n = Suc m" by (cases n) auto
    show "pval n (json_text (JArr vs) @ r) = Some (JArr vs, r)"
    proof (cases "vs = []")
      case True
      then show ?thesis using m by simp
    next
      case False
      obtain d t where d: "join_with '','' (map json_text vs) = d # t" "value_start d"
        using json_text_hd [of "hd vs"] join_with_hd [of "map json_text vs"] False 6(2)
        by (fastforce simp: hd_map)
      show ?thesis
        using pelems_text [OF pv False, of m r] m n d by (simp add: value_start_def)
    qed
  qed
next
  case (7 kvs)
  then have pv: "\<And>kv. kv \<in> set kvs \<Longrightarrow> parses (snd kv)" by simp
  have ob: "obj_of kvs = JObj kvs" using 7(2) by (simp add: obj_of_distinct)
  show ?case unfolding parses_def
  proof (intro allI impI)
    fix n r assume n: "length (json_text (JObj kvs)) \<le> n" and r: "stops r"
    then obtain m where m: "n = Suc m" by (cases n) auto
    show "pval n (json_text (JObj kvs) @ r) = Some (JObj kvs, r)"
    proof (cases "kvs = []")
      case True
      then show ?thesis using m by simp
    next
      case False
      obtain t where d: "join_with '','' (map member_text kvs) = DQ # t"
        using join_with_hd [of "map member_text kvs" DQ] False
        by (fastforce simp: hd_map quote_str_def)
      show ?thesis
        using pmembers_text [OF pv False, of m r] m n d ob by simp
    qed
  qed
next
  case 2
  show ?case unfolding parses_def json_text.simps by (auto simp only: pval_literals length_greater_0_conv list.size)
next
  case (3 b)
  show ?case unfolding parses_def json_text.simps
    using pval_literals by (cases b) auto
qed simp

theorem JSON_parse_text: "json_ok v \<Longrightarrow> JSON_parse (json_text v) = Some v"
proof -
  assume "json_ok v"
  then have "parses v" by (rule json_ok_parses)
  then have "pval (Suc (length (json_text v))) (json_text v @ []) = Some (v, [])"
    by (simp add: parses_def stops_def del: pval.simps)
  then show ?thesis by (simp add: JSON_parse_def skip_ws_def del: pval.simps)
qed

lemma JSON_round_trip: "json_ok v \<Longrightarrow> stringify v = Some s \<Longrightarrow> JSON_parse s = Some v"
  by (auto simp: stringify_json_text JSON_parse_text)

lemma json_ok_or_null: "json_ok v \<or> v = JUndef \<Longrightarrow> json_ok (or_null v)"
  by (auto simp: or_null_def nullish_def)

lemma parse_stringify_or_null:
  "json_ok v \<or> v = JUndef \<Longrightarrow> JSON_parse (stringify_or_null v) = Some (or_null v)"
  using json_ok_or_null [of v]
  by (simp add: stringify_or_null_def stringify_json_text JSON_parse_text)

text \<open>What a parse yields is a JSON value: no \<open>undefined\<close>, no duplicate keys.\<close>

lemma set_map_set: "set (map_set k v m) \<subseteq> insert (k, v) (set m)"
  by (induction m) auto

lemma json_ok_obj_of:
  assumes "\<forall>kv \<in> set kvs. json_ok (snd kv)"
  shows "json_ok (obj_of kvs)"
proof -
  have "json_ok (JObj m) \<Longrightarrow> json_ok (JObj (fold (\<lambda>(k, v). map_set k v) kvs m))" for m
    using assms
  proof (induction kvs arbitrary: m)
    case (Cons a kvs)
    obtain k v where a: "a = (k, v)" by (cases a)
    have "json_ok (JObj (map_set k v m))"
      using Cons.prems set_map_set [of k v m] jsmap_ok_set [of m k v] by (auto simp: a jsmap_ok_def map_keys_def)
    then show ?case using Cons.IH [of "map_set k v m"] Cons.prems by (simp add: a)
  qed simp
  from this [of "[]"] show ?thesis by (simp add: obj_of_def)
qed

lemma pnum_json_ok: "pnum s = Some (v, r) \<Longrightarrow> json_ok v"
  by (auto simp: pnum_def Let_def split: if_splits)

lemma parsers_json_ok:
  "(\<forall>s v r. pval n s = Some (v, r) \<longrightarrow> json_ok v) \<and>
   (\<forall>s vs r. pelems n s = Some (vs, r) \<longrightarrow> (\<forall>v \<in> set vs. json_ok v)) \<and>
   (\<forall>s kvs r. pmembers n s = Some (kvs, r) \<longrightarrow> (\<forall>kv \<in> set kvs. json_ok (snd kv)))"
proof (induction n)
  case (Suc n)
  then have v: "pval n s = Some (v, r) \<Longrightarrow> json_ok v"
    and e: "pelems n s = Some (vs, r) \<Longrightarrow> \<forall>v \<in> set vs. json_ok v"
    and m: "pmembers n s = Some (kvs, r) \<Longrightarrow> \<forall>kv \<in> set kvs. json_ok (snd kv)" for s v r vs kvs
    by blast+
  have "json_ok v" if "pval (Suc n) s = Some (v, r)" for s v r
    using that e m
    by (auto simp: json_ok_obj_of pnum_json_ok simp del: startsWith_Cons split: list.splits if_splits)
  moreover have "\<forall>v \<in> set vs. json_ok v" if "pelems (Suc n) s = Some (vs, r)" for s vs r
    using that v e by (auto split: list.splits if_splits option.splits)
  moreover have "\<forall>kv \<in> set kvs. json_ok (snd kv)" if "pmembers (Suc n) s = Some (kvs, r)" for s kvs r
    using that v by (fastforce split: list.splits if_splits option.splits dest!: m)
  ultimately show ?case by blast
qed simp

lemma JSON_parse_json_ok: "JSON_parse s = Some v \<Longrightarrow> json_ok v"
  by (auto simp: JSON_parse_def simp del: pval.simps split: option.splits if_splits
      dest: parsers_json_ok [THEN conjunct1, rule_format])

lemma get_prop_json_ok: "get_prop v k = Some x \<Longrightarrow> json_ok v \<or> v = JUndef \<Longrightarrow> json_ok x \<or> x = JUndef"
  by (auto simp: get_prop_def split: jsval.splits option.splits dest!: map_of_SomeD)

text \<open>
  What a client of the JSON library relies on: values it may send, and that they come back.
\<close>

locale json_codec =
  fixes encode :: "'v \<Rightarrow> string option"
    and decode :: "string \<Rightarrow> 'v option"
    and sendable :: "'v \<Rightarrow> bool"
  assumes decode_encode: "sendable v \<Longrightarrow> \<exists>s. encode v = Some s \<and> decode s = Some v"
begin

lemma encode_inj: "sendable v \<Longrightarrow> sendable w \<Longrightarrow> encode v = encode w \<Longrightarrow> v = w"
  using decode_encode by (metis option.inject)

lemma encode_defined: "sendable v \<Longrightarrow> encode v \<noteq> None"
  using decode_encode by auto

end

interpretation js_json: json_codec stringify JSON_parse json_ok
  by unfold_locales (simp add: stringify_json_text JSON_parse_text)

end
