(* ===== verification/Paths.thy ===== *)
theory Paths
  imports Prelude
begin

text \<open>
  The POSIX part of \<open>node:path\<close> the sources use: \<open>normalize\<close>, \<open>join\<close> and \<open>dirname\<close> on
  slash-separated strings, by the segment stack of Node's \<open>normalizeString\<close>. The blob store of
  \<open>payload.ts\<close> and the static file middleware of \<open>middleware.ts\<close> build file names with them;
  the lemmas here say when a joined path stays below its root.
\<close>

abbreviation SLASH :: char where "SLASH \<equiv> CHR ''/''"

definition norm_step :: "bool \<Rightarrow> string list \<Rightarrow> string \<Rightarrow> string list" where
  "norm_step up st seg =
     (if seg = [] \<or> seg = ''.'' then st
      else if seg = ''..'' then
        (case st of
           [] \<Rightarrow> if up then [''..''] else []
         | s # ss \<Rightarrow> if s \<noteq> ''..'' then ss else if up then ''..'' # st else st)
      else seg # st)"

definition norm_segs :: "bool \<Rightarrow> string list \<Rightarrow> string list" where
  "norm_segs up segs = rev (foldl (norm_step up) [] segs)"

definition normalize :: "string \<Rightarrow> string" where
  "normalize path =
     (if path = [] then ''.''
      else let isAbs = (hd path = SLASH);
               trailing = (last path = SLASH);
               p = join_with [SLASH] (norm_segs (\<not> isAbs) (split_on SLASH path))
           in if p = [] then (if isAbs then ''/'' else if trailing then ''./'' else ''.'')
              else (if isAbs then [SLASH] else []) @ p @ (if trailing then [SLASH] else []))"

definition path_join :: "string \<Rightarrow> string \<Rightarrow> string" where
  "path_join a b =
     (case filter (\<lambda>s. s \<noteq> []) [a, b] of
        [] \<Rightarrow> ''.''
      | parts \<Rightarrow> normalize (join_with [SLASH] parts))"

section \<open>Clean segments\<close>

definition clean :: "string \<Rightarrow> bool" where
  "clean seg \<longleftrightarrow> seg \<noteq> [] \<and> seg \<noteq> ''.'' \<and> seg \<noteq> ''..'' \<and> SLASH \<notin> set seg"

definition path_of :: "bool \<Rightarrow> string list \<Rightarrow> string" where
  "path_of isAbs segs = (if isAbs then [SLASH] else []) @ join_with [SLASH] segs"

lemma foldl_norm_step_clean:
  "(\<And>s. s \<in> set segs \<Longrightarrow> s \<noteq> ''.'' \<and> s \<noteq> ''..'') \<Longrightarrow>
     foldl (norm_step b) st segs = rev (filter (\<lambda>s. s \<noteq> []) segs) @ st"
  by (induction segs arbitrary: st) (auto simp: norm_step_def)

lemma norm_segs_clean:
  "(\<And>s. s \<in> set segs \<Longrightarrow> s \<noteq> ''.'' \<and> s \<noteq> ''..'') \<Longrightarrow>
     norm_segs b segs = filter (\<lambda>s. s \<noteq> []) segs"
  by (simp add: norm_segs_def foldl_norm_step_clean)

lemma norm_step_no_dots:
  "(\<And>s. s \<in> set st \<Longrightarrow> clean s) \<Longrightarrow> SLASH \<notin> set seg \<Longrightarrow> x \<in> set (norm_step False st seg) \<Longrightarrow> clean x"
  by (auto simp: norm_step_def clean_def split: list.splits if_splits)

lemma foldl_norm_step_clean_abs:
  "(\<And>s. s \<in> set st \<Longrightarrow> clean s) \<Longrightarrow> (\<And>s. s \<in> set segs \<Longrightarrow> SLASH \<notin> set s) \<Longrightarrow>
     x \<in> set (foldl (norm_step False) st segs) \<Longrightarrow> clean x"
proof (induction segs arbitrary: st)
  case Nil
  then show ?case by simp
next
  case (Cons s segs)
  have "\<And>y. y \<in> set (norm_step False st s) \<Longrightarrow> clean y"
    using Cons.prems(1,2) norm_step_no_dots by (metis list.set_intros(1))
  then show ?case using Cons.IH [of "norm_step False st s"] Cons.prems by auto
qed

text \<open>An absolute path normalises to segments that are all proper names: no \<open>..\<close> survives.\<close>

lemma norm_segs_abs: "x \<in> set (norm_segs False (split_on SLASH p)) \<Longrightarrow> clean x"
  using foldl_norm_step_clean_abs [of "[]" "split_on SLASH p" x] split_on_parts [of _ SLASH p]
  by (auto simp: norm_segs_def)

lemma join_with_append:
  "a \<noteq> [] \<Longrightarrow> b \<noteq> [] \<Longrightarrow> join_with sep (a @ b) = join_with sep a @ sep @ join_with sep b"
proof (induction a)
  case Nil
  then show ?case by simp
next
  case (Cons x a)
  then show ?case by (cases a) (auto simp: join_with_Cons)
qed

lemma split_path_of:
  "segs \<noteq> [] \<Longrightarrow> (\<And>s. s \<in> set segs \<Longrightarrow> clean s) \<Longrightarrow>
     split_on SLASH (path_of isAbs segs) = (if isAbs then [[]] else []) @ segs"
  using split_join [of segs SLASH] by (auto simp: path_of_def clean_def)

lemma split_on_append_sep:
  "split_on c (a @ c # b) = split_on c a @ split_on c b"
proof (induction a)
  case (Cons x a)
  then show ?case by (cases "split_on c a") auto
qed simp

lemma path_of_hd: "segs \<noteq> [] \<Longrightarrow> (\<And>s. s \<in> set segs \<Longrightarrow> clean s) \<Longrightarrow>
    path_of isAbs segs \<noteq> [] \<and> (hd (path_of isAbs segs) = SLASH \<longleftrightarrow> isAbs)"
proof -
  assume a: "segs \<noteq> []" and c: "\<And>s. s \<in> set segs \<Longrightarrow> clean s"
  obtain s ss where s: "segs = s # ss" using a by (cases segs) auto
  have "s \<noteq> []" "SLASH \<notin> set s" using c [of s] s by (auto simp: clean_def)
  then obtain d ds where "s = d # ds" "d \<noteq> SLASH" by (cases s) auto
  with s show ?thesis by (cases ss) (auto simp: path_of_def)
qed

lemma join_with_Nil_iff:
  "(\<And>s. s \<in> set segs \<Longrightarrow> s \<noteq> []) \<Longrightarrow> join_with sep segs = [] \<longleftrightarrow> segs = []"
  by (cases segs; cases "tl segs") auto

text \<open>
  Joining a clean directory with a relative name whose segments are clean or empty, and which does
  not end in a slash, appends the segments: the result stays below the directory.
\<close>

lemma path_join_below:
  assumes d: "ds \<noteq> []" "\<And>s. s \<in> set ds \<Longrightarrow> clean s"
    and r: "r \<noteq> []" "last r \<noteq> SLASH" "\<And>s. s \<in> set (split_on SLASH r) \<Longrightarrow> s \<noteq> ''.'' \<and> s \<noteq> ''..''"
  shows "path_join (path_of isAbs ds) r = path_of isAbs (ds @ filter (\<lambda>s. s \<noteq> []) (split_on SLASH r))"
proof -
  let ?p = "path_of isAbs ds @ SLASH # r"
  have j: "path_join (path_of isAbs ds) r = normalize ?p"
    using path_of_hd [OF d, of isAbs] r by (simp add: path_join_def)
  have sp: "split_on SLASH ?p = (if isAbs then [[]] else []) @ ds @ split_on SLASH r"
    using split_path_of [OF d, of isAbs] by (simp add: split_on_append_sep)
  let ?segs = "ds @ filter (\<lambda>s. s \<noteq> []) (split_on SLASH r)"
  have dots: "s \<noteq> ''.'' \<and> s \<noteq> ''..''" if "s \<in> set (split_on SLASH ?p)" for s
    using that d(2) r(3) unfolding sp by (auto simp: clean_def split: if_splits)
  have fd: "filter (\<lambda>s. s \<noteq> []) ds = ds"
    using d(2) by (auto simp: filter_id_conv clean_def)
  have ns: "norm_segs b (split_on SLASH ?p) = ?segs" for b
  proof -
    have "norm_segs b (split_on SLASH ?p) = filter (\<lambda>s. s \<noteq> []) (split_on SLASH ?p)"
      by (rule norm_segs_clean) (rule dots)
    then show ?thesis using fd by (simp add: sp)
  qed
  have ne: "join_with [SLASH] ?segs \<noteq> []"
    using d by (subst join_with_Nil_iff) (auto simp: clean_def)
  have hd: "hd ?p = SLASH \<longleftrightarrow> isAbs" using path_of_hd [OF d, of isAbs] by (auto simp: hd_append)
  have last: "last ?p = last r" using r(1) by simp
  show ?thesis
    unfolding j normalize_def Let_def ns using hd last r(2) ne by (simp add: path_of_def)
qed

text \<open>A path below a directory, as the containment checks of the sources test it.\<close>

definition is_below :: "string \<Rightarrow> string \<Rightarrow> bool" where
  "is_below dir p \<longleftrightarrow> p = dir \<or> startsWith p (dir @ [SLASH])"

lemma is_below_path_of: "ds \<noteq> [] \<Longrightarrow> is_below (path_of isAbs ds) (path_of isAbs (ds @ es))"
proof (cases "es = []")
  case False
  assume "ds \<noteq> []"
  then have "path_of isAbs (ds @ es) = (path_of isAbs ds @ [SLASH]) @ join_with [SLASH] es"
    using False by (simp add: path_of_def join_with_append)
  then show ?thesis unfolding is_below_def by (metis startsWith_append)
qed (simp add: is_below_def)

end
