(* ===== verification/Payload.thy ===== *)
theory Payload
  imports Json Paths
begin

text \<open>
  Large payload offloading (\<open>packages/zenzip/src/payload.ts\<close>): the blob store interface, the
  file system blob store, and the codec that replaces a large step result in the journal by a
  reference and brings it back before a replay. The codec's lemmas are proved once against the
  blob store interface; the file system store is shown to provide it.
\<close>

section \<open>The codec\<close>

text \<open>The store's operations are the codec's parameters; \<open>get\<close> is \<open>None\<close> where it rejects.\<close>

type_synonym 's blob_put = "string \<Rightarrow> string \<Rightarrow> 's \<Rightarrow> string \<times> 's"
type_synonym 's blob_get = "string \<Rightarrow> 's \<Rightarrow> string option"

definition BLOB_KEY :: string where "BLOB_KEY = ''$zenzipBlob''"

definition MARKER_PREFIX :: string where
  "MARKER_PREFIX = CHR ''{'' # DQ # BLOB_KEY @ [DQ]"

definition byteLength :: "string \<Rightarrow> nat" where
  "byteLength s = sum_list (map (\<lambda>c. if code c < 128 then 1 else 2) s)"

definition marker :: "string \<Rightarrow> string" where
  "marker ref = the (stringify (JObj [(BLOB_KEY, JStr ref)]))"

definition offload ::
  "'s blob_put \<Rightarrow> nat \<Rightarrow> string \<Rightarrow> string \<Rightarrow> string \<Rightarrow> 's \<Rightarrow> string \<times> 's" where
  "offload put thresholdBytes runId stepId json s =
     (if byteLength json \<le> thresholdBytes then (json, s)
      else let (ref, s') = put (runId @ ''/'' @ stepId) json s in (marker ref, s'))"

definition marker_ref :: "string \<Rightarrow> string option" where
  "marker_ref stored =
     (case JSON_parse stored of
        Some (JObj kvs) \<Rightarrow> (case map_get kvs BLOB_KEY of Some (JStr r) \<Rightarrow> Some r | _ \<Rightarrow> None)
      | _ \<Rightarrow> None)"

definition rehydrate :: "'s blob_get \<Rightarrow> string option \<Rightarrow> 's \<Rightarrow> string option" where
  "rehydrate get stored s =
     (case stored of
        None \<Rightarrow> None
      | Some t \<Rightarrow>
          if \<not> startsWith t MARKER_PREFIX then Some t
          else (case marker_ref t of
                  None \<Rightarrow> Some t
                | Some r \<Rightarrow> (case get r s of Some data \<Rightarrow> Some data | None \<Rightarrow> Some t)))"

lemma marker_text: "marker ref = MARKER_PREFIX @ '':'' @ quote_str ref @ ''}''"
  by (simp add: marker_def List.map_filter_simps MARKER_PREFIX_def quote_str_def BLOB_KEY_def esc_def
      DQ_def BSL_def code_def)

lemma marker_starts: "startsWith (marker ref) MARKER_PREFIX"
  by (simp add: marker_text)

lemma marker_ref_marker: "marker_ref (marker ref) = Some ref"
proof -
  have ok: "json_ok (JObj [(BLOB_KEY, JStr ref)])" by simp
  have "JSON_parse (marker ref) = Some (JObj [(BLOB_KEY, JStr ref)])"
    unfolding marker_def by (rule JSON_round_trip [OF ok]) (simp add: stringify_json_text [OF ok] del: stringify.simps)
  then show ?thesis by (simp add: marker_ref_def)
qed

section \<open>The blob store interface\<close>

text \<open>
  What the codec relies on: a blob can be read back under the reference its write returned, and a
  write under another key, where the store keeps the two apart, does not disturb it.
\<close>

locale blob_store =
  fixes put :: "'s blob_put"
    and get :: "'s blob_get"
    and apart :: "string \<Rightarrow> string \<Rightarrow> bool"
  assumes get_put: "put k d s = (r, s') \<Longrightarrow> get r s' = Some d"
    and get_put_apart:
      "put k d s0 = (r, s1) \<Longrightarrow> get r s = Some d \<Longrightarrow> apart k k' \<Longrightarrow> put k' d' s = (r', s') \<Longrightarrow>
         get r s' = Some d"
begin

lemma rehydrate_offload:
  assumes "offload put n runId stepId json s = (stored, s')"
    and "\<not> startsWith json MARKER_PREFIX \<or> n < byteLength json"
  shows "rehydrate get (Some stored) s' = Some json"
  using assms
  by (auto simp: offload_def rehydrate_def marker_starts marker_ref_marker get_put
      split: if_splits prod.splits dest!: get_put)

lemma rehydrate_after_offload:
  assumes off: "offload put n runId stepId json s0 = (stored, s1)"
    and now: "rehydrate get (Some stored) s = Some json"
    and big: "n < byteLength json"
    and held: "\<And>r s2. put (runId @ ''/'' @ stepId) json s0 = (r, s2) \<Longrightarrow> get r s = Some json"
    and ap: "apart (runId @ ''/'' @ stepId) (runId' @ ''/'' @ stepId')"
    and later: "offload put n' runId' stepId' json' s = (stored', s')"
  shows "rehydrate get (Some stored) s' = Some json"
proof -
  obtain r s2 where p: "put (runId @ ''/'' @ stepId) json s0 = (r, s2)" by fastforce
  with off big have st: "stored = marker r" by (simp add: offload_def)
  have "get r s' = Some json"
  proof (cases "byteLength json' \<le> n'")
    case True
    with later held [OF p] show ?thesis by (simp add: offload_def)
  next
    case False
    then obtain r' where "put (runId' @ ''/'' @ stepId') json' s = (r', s')"
      using later by (auto simp: offload_def split: prod.splits)
    then show ?thesis using get_put_apart [OF p held [OF p] ap] by blast
  qed
  then show ?thesis by (simp add: rehydrate_def st marker_starts marker_ref_marker)
qed

end

section \<open>The file system blob store\<close>

type_synonym files = "(string, string) jsmap"

definition ref_char :: "char \<Rightarrow> char" where
  "ref_char c = (if is_alnum_us c \<or> c = CHR ''/'' \<or> c = CHR ''-'' then c else CHR ''_'')"

definition blob_ref :: "string \<Rightarrow> string" where
  "blob_ref k = map ref_char k @ ''.json''"

definition fs_put :: "string \<Rightarrow> files blob_put" where
  "fs_put dir k data fs = (blob_ref k, map_set (path_join dir (blob_ref k)) data fs)"

definition fs_get :: "string \<Rightarrow> files blob_get" where
  "fs_get dir ref fs = map_get fs (path_join dir ref)"

definition fs_delete :: "string \<Rightarrow> string \<Rightarrow> files \<Rightarrow> files" where
  "fs_delete dir ref fs = map_delete (path_join dir ref) fs"

definition blob_file :: "string \<Rightarrow> string \<Rightarrow> string" where
  "blob_file dir k = path_join dir (blob_ref k)"

interpretation fs_blobs: blob_store "fs_put dir" "fs_get dir"
    "\<lambda>k k'. blob_file dir k \<noteq> blob_file dir k'" for dir
  by unfold_locales (auto simp: fs_put_def fs_get_def blob_file_def jsmap_simps)

lemma ref_char_safe: "ref_char c \<noteq> CHR ''.''"
  by (auto simp: ref_char_def is_alnum_us_def is_digit_def code_def)

lemma split_on_append_nosep:
  "c \<notin> set b \<Longrightarrow> split_on c (a @ b) = butlast (split_on c a) @ [last (split_on c a) @ b]"
proof (induction a)
  case Nil
  then show ?case by (simp add: split_on_no_sep)
next
  case (Cons x a)
  obtain y ys where "split_on c a = y # ys" by (cases "split_on c a") auto
  with Cons show ?case by (cases ys) auto
qed

lemma split_on_subset: "seg \<in> set (split_on c s) \<Longrightarrow> set seg \<subseteq> set s"
proof (induction s arbitrary: seg)
  case (Cons x s)
  obtain y ys where "split_on c s = y # ys" by (cases "split_on c s") auto
  with Cons.prems Cons.IH show ?case by (fastforce split: if_splits)
qed simp

lemma in_snoc: "xs = ys @ [z] \<Longrightarrow> x \<in> set xs \<Longrightarrow> x \<in> set ys \<or> x = z"
  by auto

lemma blob_ref_segs:
  "seg \<in> set (split_on SLASH (blob_ref k)) \<Longrightarrow> seg \<noteq> ''.'' \<and> seg \<noteq> ''..''"
proof -
  assume s: "seg \<in> set (split_on SLASH (blob_ref k))"
  have nodot: "CHR ''.'' \<notin> set (map ref_char k)"
  proof
    assume "CHR ''.'' \<in> set (map ref_char k)"
    then obtain c where "CHR ''.'' = ref_char c" by auto
    then show False using ref_char_safe [of c] by simp
  qed
  let ?sp = "split_on SLASH (map ref_char k)"
  have "seg \<in> set (butlast ?sp) \<or> seg = last ?sp @ ''.json''"
  proof -
    have "split_on SLASH (blob_ref k) = butlast ?sp @ [last ?sp @ ''.json'']"
      unfolding blob_ref_def by (rule split_on_append_nosep) simp
    from in_snoc [OF this s] show ?thesis .
  qed
  then show ?thesis
  proof
    assume "seg \<in> set (butlast ?sp)"
    then have "seg \<in> set ?sp" by (rule in_set_butlastD)
    then have "set seg \<subseteq> set (map ref_char k)" by (rule split_on_subset)
    with nodot have "CHR ''.'' \<notin> set seg" by (rule contra_subsetD [rotated])
    then show ?thesis by auto
  next
    assume e: "seg = last ?sp @ ''.json''"
    have "CHR ''j'' \<in> set seg" using e by simp
    then show ?thesis by auto
  qed
qed

text \<open>
  C28: an offloaded step result comes back unchanged. Whatever the file system holds, a result that
  is above the threshold, or that does not itself look like a blob marker, is rehydrated to the
  very text that was journaled.
\<close>

theorem offload_round_trip:
  assumes "offload (fs_put dir) threshold runId stepId json fs = (stored, fs')"
    and "\<not> startsWith json MARKER_PREFIX \<or> threshold < byteLength json"
  shows "rehydrate (fs_get dir) (Some stored) fs' = Some json"
  using assms by (rule fs_blobs.rehydrate_offload)

theorem offload_round_trip_witness:
  "rehydrate (fs_get ''.zenzip/blobs'') (Some (marker ''r1/llm-0.json''))
     [(''.zenzip/blobs/r1/llm-0.json'', ''[1,2,3]'')] = Some ''[1,2,3]''"
proof -
  have o: "offload (fs_put ''.zenzip/blobs'') 4 ''r1'' ''llm-0'' ''[1,2,3]'' [] =
      (marker ''r1/llm-0.json'', [(''.zenzip/blobs/r1/llm-0.json'', ''[1,2,3]'')])"
    by code_simp
  have "\<not> startsWith ''[1,2,3]'' MARKER_PREFIX \<or> 4 < byteLength ''[1,2,3]''" by code_simp
  from offload_round_trip [OF o this] show ?thesis .
qed

text \<open>
  Every blob file lies below the blob directory, whatever the run and step ids hold: dots are
  replaced before the path is built, so no \<open>..\<close> segment can escape.
\<close>

theorem blob_file_contained:
  assumes "ds \<noteq> []" and "\<forall>s \<in> set ds. clean s"
  shows "is_below (path_of isAbs ds) (blob_file (path_of isAbs ds) k)"
proof -
  have l: "last (blob_ref k) \<noteq> SLASH" by (simp add: blob_ref_def)
  have ne: "blob_ref k \<noteq> []" by (simp add: blob_ref_def)
  have "blob_file (path_of isAbs ds) k =
      path_of isAbs (ds @ filter (\<lambda>s. s \<noteq> []) (split_on SLASH (blob_ref k)))"
    unfolding blob_file_def
    by (rule path_join_below) (use assms l ne blob_ref_segs in auto)
  then show ?thesis using is_below_path_of [OF assms(1)] by simp
qed

theorem blob_file_contained_witness:
  "is_below (path_of True [''data'', ''blobs'']) (blob_file (path_of True [''data'', ''blobs'']) ''../../etc/passwd'')"
  by (rule blob_file_contained) (simp_all add: clean_def)

text \<open>
  Two step ids of one run that differ only in a character outside the permitted set share a blob
  file: the second write replaces the first, and replaying the first step yields the result of
  the second.
\<close>

lemma blob_keys_collide:
  "let (m1, fs1) = offload (fs_put ''blobs'') 0 ''r'' ''fetch.a'' ''1'' [];
       (m2, fs2) = offload (fs_put ''blobs'') 0 ''r'' ''fetch_a'' ''2'' fs1
   in rehydrate (fs_get ''blobs'') (Some m1) fs2 = Some ''2''"
  by code_simp

text \<open>
  A small result that happens to have the marker's shape is taken for a marker on replay: the step
  then yields the content of another blob.
\<close>

lemma marker_shaped_result_hijacked:
  "let json = marker ''r/big.json'';
       (st, fs) = offload (fs_put ''blobs'') 100 ''r'' ''small'' json [(''blobs/r/big.json'', ''42'')]
   in st = json \<and> rehydrate (fs_get ''blobs'') (Some st) fs = Some ''42'' \<and> json \<noteq> ''42''"
  by code_simp

end
