(* ===== verification/Workflow.thy ===== *)
theory Workflow
  imports Duration Payload "HOL-Library.Word"
begin

unbundle bit_operations_syntax

text \<open>
  The durable workflow layer (\<open>packages/zenzip/src/workflow.ts\<close>). A workflow function is
  arbitrary user code that talks to the engine only through the five step calls; it is modelled as
  the tree of its step calls, each with a continuation that receives what the call returned or
  threw. \<open>makeStep\<close> is one function per step call over the state of an attempt (the ids used so
  far, the outside world, the steps recorded), and \<open>executeAttempt\<close> runs the tree against the
  journal and encodes the outcome for the engine. In messages the em dash of the source is
  written as two hyphens.
\<close>

section \<open>Run status\<close>

datatype run_status =
  Running | Sleeping | WaitingEvent | WaitingChild | Completed | Failed | Cancelled

definition STATUS_NAMES :: "run_status list" where
  "STATUS_NAMES = [Running, Sleeping, WaitingEvent, WaitingChild, Completed, Failed, Cancelled]"

fun status_code :: "run_status \<Rightarrow> nat" where
  "status_code Running = 0"
| "status_code Sleeping = 1"
| "status_code WaitingEvent = 2"
| "status_code WaitingChild = 3"
| "status_code Completed = 4"
| "status_code Failed = 5"
| "status_code Cancelled = 6"

definition status_of :: "int \<Rightarrow> run_status" where
  "status_of n = (if 0 \<le> n \<and> n < 7 then STATUS_NAMES ! nat n else Running)"

lemma status_code_inject: "status_code a = status_code b \<Longrightarrow> a = b"
  by (cases a; cases b) auto

instantiation run_status :: linorder
begin

definition less_eq_run_status :: "run_status \<Rightarrow> run_status \<Rightarrow> bool" where
  "less_eq_run_status a b \<longleftrightarrow> status_code a \<le> status_code b"

definition less_run_status :: "run_status \<Rightarrow> run_status \<Rightarrow> bool" where
  "less_run_status a b \<longleftrightarrow> status_code a < status_code b"

instance
  by standard (auto simp: less_eq_run_status_def less_run_status_def dest: status_code_inject)

end

lemma status_of_code [simp]: "status_of (int (status_code s)) = s"
  by (cases s) (simp_all add: status_of_def STATUS_NAMES_def)

definition terminal :: "run_status \<Rightarrow> bool" where
  "terminal s \<longleftrightarrow> Completed \<le> s"

lemma terminal_iff: "terminal s \<longleftrightarrow> s \<in> {Completed, Failed, Cancelled}"
  by (cases s) (simp_all add: terminal_def less_eq_run_status_def)

section \<open>Suspension, failure, journal\<close>

datatype suspend_info =
    SleepInfo (sus_step: string) int
  | EventInfo (sus_step: string) string "int option" "string option"
  | InvokeInfo (sus_step: string) string string

text \<open>What a step call or the workflow function can throw.\<close>

datatype exn =
    SuspendSignal suspend_info
  | StepFailure string exn
  | Error string
  | OtherThrow jsval

record journal_entry =
  je_kind :: string
  je_result :: "string option"

type_synonym journal = "(string, journal_entry) jsmap"

record 'w attempt =
  usedIds :: "string list"
  world :: 'w
  recorded :: "(string \<times> journal_entry) list"

text \<open>What a step body does: its effect on the world, its result, and how long it took.\<close>

type_synonym 'w body = "'w \<Rightarrow> (exn, jsval) res \<times> int \<times> 'w"

text \<open>
  The environment of an attempt: the journal it replays, the run id, the clock, and the optional
  payload codec's \<open>offload\<close> acting on the world.
\<close>

record 'w step_env =
  env_journal :: journal
  env_runId :: string
  env_now :: "'w \<Rightarrow> int"
  env_offload :: "(string \<Rightarrow> string \<Rightarrow> string \<Rightarrow> 'w \<Rightarrow> string \<times> 'w) option"

section \<open>The step calls\<close>

definition dup_message :: "string \<Rightarrow> string" where
  "dup_message sid = ''duplicate step id '' @ [DQ] @ sid @ [DQ] @
     '' -- every step in a run needs a unique, stable id''"

definition kind_message :: "string \<Rightarrow> string \<Rightarrow> string \<Rightarrow> string" where
  "kind_message sid old new = ''step '' @ [DQ] @ sid @ [DQ] @ '' changed kind from '' @ [DQ] @ old @ [DQ] @
     '' to '' @ [DQ] @ new @ [DQ] @
     '' -- in-flight runs must keep stable step ids (docs: workflow versioning)''"

definition claim ::
  "'w step_env \<Rightarrow> string \<Rightarrow> string \<Rightarrow> 'w attempt \<Rightarrow> (exn, journal_entry option) res \<times> 'w attempt" where
  "claim env sid kind s =
     (if sid \<in> set (usedIds s) then (Throw (Error (dup_message sid)), s)
      else let s' = s\<lparr>usedIds := sid # usedIds s\<rparr>;
               entry = map_get (env_journal env) sid
           in (case entry of
                 Some e \<Rightarrow> if je_kind e \<noteq> kind then (Throw (Error (kind_message sid (je_kind e) kind)), s')
                           else (Ok (Some e), s')
               | None \<Rightarrow> (Ok None, s')))"

definition duration_message :: "duration_error \<Rightarrow> string" where
  "duration_message e =
     (case e of
        InvalidNumber _ \<Rightarrow> ''invalid duration''
      | InvalidString t \<Rightarrow> ''invalid duration '' @ [DQ] @ t @ [DQ] @ '' -- expected e.g. 500, '' @
          [DQ] @ ''250ms'' @ [DQ] @ '', '' @ [DQ] @ ''30s'' @ [DQ] @ '', '' @ [DQ] @ ''5m'' @ [DQ] @ '', '' @
          [DQ] @ ''2h'' @ [DQ] @ '', '' @ [DQ] @ ''1d'' @ [DQ])"

definition ms_exn :: "duration \<Rightarrow> (exn, int) res" where
  "ms_exn d = (case ms d of Inl e \<Rightarrow> Throw (Error (duration_message e)) | Inr n \<Rightarrow> Ok n)"

text \<open>The race of a body against its timer: the body wins when it settles before the timer fires.\<close>

definition runWithTimeout :: "'w body \<Rightarrow> int \<Rightarrow> string \<Rightarrow> 'w \<Rightarrow> (exn, jsval) res \<times> 'w" where
  "runWithTimeout fn timeoutMs sid w =
     (case fn w of (r, elapsed, w') \<Rightarrow>
        if elapsed < timeoutMs then (r, w')
        else (Throw (Error (''step '' @ [DQ] @ sid @ [DQ] @ '' timed out after '' @ int_str timeoutMs @ ''ms'')), w'))"

definition run_body :: "string \<Rightarrow> 'w body \<Rightarrow> duration option \<Rightarrow> 'w \<Rightarrow> (exn, jsval) res \<times> 'w" where
  "run_body sid fn timeout w =
     (case timeout of
        None \<Rightarrow> (case fn w of (r, _, w') \<Rightarrow> (r, w'))
      | Some d \<Rightarrow> (case ms_exn d of Inl e \<Rightarrow> (Throw e, w) | Inr n \<Rightarrow> runWithTimeout fn n sid w))"

definition parse_exn :: "string \<Rightarrow> (exn, jsval) res" where
  "parse_exn t = (case JSON_parse t of None \<Rightarrow> Throw (Error ''SyntaxError'') | Some v \<Rightarrow> Ok v)"

definition prop_exn :: "jsval \<Rightarrow> string \<Rightarrow> (exn, jsval) res" where
  "prop_exn v k = (case get_prop v k of None \<Rightarrow> Throw (Error ''TypeError'') | Some x \<Rightarrow> Ok x)"

definition step_run ::
  "'w step_env \<Rightarrow> string \<Rightarrow> 'w body \<Rightarrow> duration option \<Rightarrow> 'w attempt \<Rightarrow> (exn, jsval) res \<times> 'w attempt" where
  "step_run env sid fn timeout s =
     (case claim env sid ''run'' s of
        (Inl e, s1) \<Rightarrow> (Throw e, s1)
      | (Inr (Some entry), s1) \<Rightarrow>
          (case je_result entry of None \<Rightarrow> (Ok JUndef, s1) | Some t \<Rightarrow> (parse_exn t, s1))
      | (Inr None, s1) \<Rightarrow>
          (case run_body sid fn timeout (world s1) of
             (Inl e, w) \<Rightarrow> (Throw (StepFailure sid e), s1\<lparr>world := w\<rparr>)
           | (Inr result, w) \<Rightarrow>
               (let json = stringify_or_null result;
                    (toStore, w') = (case env_offload env of
                        None \<Rightarrow> (json, w)
                      | Some off \<Rightarrow> off (env_runId env) sid json w)
                in (Ok result,
                    s1\<lparr>world := w',
                       recorded := recorded s1 @ [(sid, \<lparr>je_kind = ''run'', je_result = Some toStore\<rparr>)]\<rparr>))))"

definition step_sleep ::
  "'w step_env \<Rightarrow> string \<Rightarrow> duration \<Rightarrow> 'w attempt \<Rightarrow> (exn, jsval) res \<times> 'w attempt" where
  "step_sleep env sid duration s =
     (case claim env sid ''sleep'' s of
        (Inl e, s1) \<Rightarrow> (Throw e, s1)
      | (Inr (Some entry), s1) \<Rightarrow> (Ok JUndef, s1)
      | (Inr None, s1) \<Rightarrow>
          (case ms_exn duration of
             Inl e \<Rightarrow> (Throw e, s1)
           | Inr n \<Rightarrow> (Throw (SuspendSignal (SleepInfo sid (env_now env (world s1) + n))), s1)))"

definition entry_object :: "journal_entry \<Rightarrow> (exn, jsval) res" where
  "entry_object e = parse_exn (case je_result e of None \<Rightarrow> ''{}'' | Some t \<Rightarrow> t)"

definition step_waitForEvent ::
  "'w step_env \<Rightarrow> string \<Rightarrow> string \<Rightarrow> duration option \<Rightarrow> jsval option \<Rightarrow> 'w attempt
     \<Rightarrow> (exn, jsval) res \<times> 'w attempt" where
  "step_waitForEvent env sid event timeout match s =
     (case claim env sid ''waitForEvent'' s of
        (Inl e, s1) \<Rightarrow> (Throw e, s1)
      | (Inr (Some entry), s1) \<Rightarrow>
          (rbind (entry_object entry) (\<lambda>r.
             rbind (prop_exn r ''timedOut'') (\<lambda>t.
               if truthy t then Ok JNull else prop_exn r ''event'')), s1)
      | (Inr None, s1) \<Rightarrow>
          (case (case timeout of None \<Rightarrow> Ok None
                 | Some d \<Rightarrow> rbind (ms_exn d) (\<lambda>n. Ok (Some (env_now env (world s1) + n)))) of
             Inl e \<Rightarrow> (Throw e, s1)
           | Inr timeoutAt \<Rightarrow>
               (Throw (SuspendSignal (EventInfo sid event timeoutAt
                  (case match of None \<Rightarrow> None | Some m \<Rightarrow> stringify m))), s1)))"

definition step_invoke ::
  "'w step_env \<Rightarrow> string \<Rightarrow> string \<Rightarrow> jsval \<Rightarrow> 'w attempt \<Rightarrow> (exn, jsval) res \<times> 'w attempt" where
  "step_invoke env sid workflow input s =
     (case claim env sid ''invoke'' s of
        (Inl e, s1) \<Rightarrow> (Throw e, s1)
      | (Inr (Some entry), s1) \<Rightarrow>
          (rbind (entry_object entry) (\<lambda>r.
             rbind (prop_exn r ''error'') (\<lambda>err.
               if err \<noteq> JUndef then Throw (Error (js_String err)) else prop_exn r ''output'')), s1)
      | (Inr None, s1) \<Rightarrow>
          (Throw (SuspendSignal (InvokeInfo sid workflow (stringify_or_null input))), s1))"

section \<open>Workflow functions and their execution\<close>

text \<open>One call of the \<open>Step\<close> interface, and the workflow function as the tree of its calls.\<close>

datatype 'w call =
    is_Run: Run (call_id: string) "duration option" "'w \<Rightarrow> (exn, jsval) res \<times> int \<times> 'w"
  | Sleep (call_id: string) duration
  | WaitForEvent (call_id: string) string "duration option" "jsval option"
  | Invoke (call_id: string) string jsval

fun step :: "'w step_env \<Rightarrow> 'w call \<Rightarrow> 'w attempt \<Rightarrow> (exn, jsval) res \<times> 'w attempt" where
  "step env (Run sid timeout fn) s = step_run env sid fn timeout s"
| "step env (Sleep sid d) s = step_sleep env sid d s"
| "step env (WaitForEvent sid event timeout match) s = step_waitForEvent env sid event timeout match s"
| "step env (Invoke sid name input) s = step_invoke env sid name input s"

datatype 'w wf =
    Return jsval
  | Raise exn
  | Call "'w call" "(exn, jsval) res \<Rightarrow> 'w wf"

primrec run_wf :: "'w step_env \<Rightarrow> 'w wf \<Rightarrow> 'w attempt \<Rightarrow> (exn, jsval) res \<times> 'w attempt" where
  "run_wf env (Return v) s = (Ok v, s)"
| "run_wf env (Raise e) s = (Throw e, s)"
| "run_wf env (Call c k) s = (case step env c s of (r, s') \<Rightarrow> run_wf env (k r) s')"

text \<open>
  The state in which the process is when the \<open>n\<close>-th step of the attempt has just been recorded;
  \<open>None\<close> when the attempt ends before that.
\<close>

primrec exec_until :: "nat \<Rightarrow> 'w step_env \<Rightarrow> 'w wf \<Rightarrow> 'w attempt \<Rightarrow> 'w attempt option" where
  "exec_until n env (Return v) s = None"
| "exec_until n env (Raise e) s = None"
| "exec_until n env (Call c k) s =
     (case step env c s of (r, s') \<Rightarrow>
        if length (recorded s) < n \<and> length (recorded s') = n then Some s'
        else exec_until n env (k r) s')"

section \<open>What one step call does\<close>

definition fresh :: "string list \<Rightarrow> journal \<Rightarrow> (string \<times> journal_entry) list \<Rightarrow> bool" where
  "fresh used j recs \<longleftrightarrow> distinct (map fst recs) \<and> fst ` set recs \<subseteq> set used \<and>
     (\<forall>sid \<in> fst ` set recs. map_get j sid = None)"

definition claimed :: "string \<Rightarrow> string list \<Rightarrow> string list" where
  "claimed sid used = (if sid \<in> set used then used else sid # used)"

lemmas step_defs = step_run_def step_sleep_def step_waitForEvent_def step_invoke_def claim_def

lemma step_effect:
  assumes "step env c s = (r, s')"
  shows "usedIds s' = claimed (call_id c) (usedIds s) \<and>
    (recorded s' = recorded s \<or>
     (\<exists>e. recorded s' = recorded s @ [(call_id c, e)] \<and> call_id c \<notin> set (usedIds s) \<and>
          map_get (env_journal env) (call_id c) = None))"
  using assms
  by (cases c) (auto simp: step_defs claimed_def Let_def split: if_splits option.splits sum.splits prod.splits)

lemma step_fresh:
  assumes "step env c s = (r, s')" and "fresh (usedIds s) (env_journal env) (recorded s)"
  shows "fresh (usedIds s') (env_journal env) (recorded s')"
  using step_effect [OF assms(1)] assms(2) by (auto simp: fresh_def claimed_def image_subset_iff split: if_splits) force

text \<open>A step call reads the journal at its own id only.\<close>

lemma step_local:
  assumes "step env c s = (r, s1)"
    and "map_get j' (call_id c) = map_get (env_journal env) (call_id c) \<or> call_id c \<in> set (usedIds s)"
    and "usedIds s' = usedIds s" and "world s' = world s" and "recorded s = pre @ recorded s'"
  shows "\<exists>s1'. step (env\<lparr>env_journal := j'\<rparr>) c s' = (r, s1') \<and> usedIds s1' = usedIds s1 \<and>
           world s1' = world s1 \<and> recorded s1 = pre @ recorded s1'"
  using assms
  by (cases c) (auto simp: step_defs Let_def split: if_splits option.splits sum.splits prod.splits)

lemma run_wf_local:
  assumes "run_wf env t s = (r, s1)"
    and "\<And>sid. sid \<notin> set (usedIds s) \<Longrightarrow> map_get j' sid = map_get (env_journal env) sid"
    and "usedIds s' = usedIds s" and "world s' = world s" and "recorded s = pre @ recorded s'"
  shows "\<exists>s1'. run_wf (env\<lparr>env_journal := j'\<rparr>) t s' = (r, s1') \<and> usedIds s1' = usedIds s1 \<and>
           world s1' = world s1 \<and> recorded s1 = pre @ recorded s1'"
  using assms
proof (induction t arbitrary: s s')
  case (Call c k)
  obtain q s2 where st: "step env c s = (q, s2)" by fastforce
  from step_local [OF st _ Call.prems(3-5), of j'] Call.prems(2)
  obtain s2' where st': "step (env\<lparr>env_journal := j'\<rparr>) c s' = (q, s2')" "usedIds s2' = usedIds s2"
    "world s2' = world s2" "recorded s2 = pre @ recorded s2'" by blast
  have ag: "sid \<notin> set (usedIds s2) \<Longrightarrow> map_get j' sid = map_get (env_journal env) sid" for sid
    using Call.prems(2) step_effect [OF st] by (auto simp: claimed_def split: if_splits)
  from Call.IH [of "k q" s2 s2'] Call.prems(1) st st' ag show ?case by auto
qed auto

section \<open>Crash and replay\<close>

text \<open>
  The discipline the documentation asks of a workflow function: step results are JSON values (or
  \<open>undefined\<close> where the function does not tell it from \<open>null\<close>), and the suspension and step failure
  signals are not swallowed.
\<close>

fun is_signal :: "exn \<Rightarrow> bool" where
  "is_signal (SuspendSignal _) = True"
| "is_signal (StepFailure _ _) = True"
| "is_signal _ = False"

definition json_results :: "'w call \<Rightarrow> ((exn, jsval) res \<Rightarrow> 'w wf) \<Rightarrow> bool" where
  "json_results c k =
     (case c of
        Run _ _ fn \<Rightarrow> (\<forall>w v d w'. fn w = (Ok v, d, w') \<longrightarrow> json_ok v \<or> v = JUndef \<and> k (Ok JUndef) = k (Ok JNull))
      | _ \<Rightarrow> True)"

fun res_ok :: "(exn, jsval) res \<Rightarrow> bool" where
  "res_ok (Inl e) = True"
| "res_ok (Inr v) = (json_ok v \<or> v = JUndef)"

primrec disciplined :: "'w wf \<Rightarrow> bool" where
  "disciplined (Return v) = True"
| "disciplined (Raise e) = True"
| "disciplined (Call c k) =
     (json_results c k \<and> (\<forall>e. is_signal e \<longrightarrow> k (Throw e) = Raise e) \<and> (\<forall>r. res_ok r \<longrightarrow> disciplined (k r)))"

lemma run_body_Inr: "run_body sid fn timeout w = (Inr v, w') \<Longrightarrow> \<exists>d. fn w = (Inr v, d, w')"
  by (auto simp: run_body_def runWithTimeout_def split: option.splits sum.splits prod.splits if_splits)

lemma step_records:
  assumes st: "step env c s = (r, s')" and rec: "recorded s' \<noteq> recorded s"
    and off: "env_offload env = None" and json: "json_results c k"
  shows "\<exists>v. r = Ok v \<and> (json_ok v \<or> v = JUndef) \<and> k (Ok (or_null v)) = k r \<and> is_Run c \<and>
    recorded s' = recorded s @ [(call_id c, \<lparr>je_kind = ''run'', je_result = Some (stringify_or_null v)\<rparr>)]"
proof (cases c)
  case (Run sid timeout fn)
  with st rec off obtain v w where b: "run_body sid fn timeout (world s) = (Inr v, w)"
    by (auto simp: step_defs Let_def split: if_splits option.splits sum.splits prod.splits)
  from run_body_Inr [OF b] json Run have "json_ok v \<or> v = JUndef \<and> k (Ok JUndef) = k (Ok JNull)"
    by (auto simp: json_results_def)
  then have "json_ok v \<or> v = JUndef" "k (Ok (or_null v)) = k (Ok v)" by (auto simp: or_null_def nullish_def)
  moreover have "r = Ok v" "recorded s' = recorded s @ [(call_id c, \<lparr>je_kind = ''run'', je_result = Some (stringify_or_null v)\<rparr>)]"
    using st rec off Run b by (auto simp: step_defs Let_def split: if_splits option.splits sum.splits prod.splits)
  ultimately show ?thesis using Run by auto
qed (use st rec in \<open>auto simp: step_defs Let_def split: if_splits option.splits sum.splits prod.splits\<close>)

lemma parse_exn_ok: "res_ok (parse_exn t)"
  by (auto simp: parse_exn_def dest: JSON_parse_json_ok split: option.split)

lemma prop_exn_ok: "json_ok v \<or> v = JUndef \<Longrightarrow> res_ok (prop_exn v k)"
  by (auto simp: prop_exn_def dest: get_prop_json_ok split: option.split)

lemma entry_object_ok: "entry_object e = Inr v \<Longrightarrow> json_ok v"
  by (auto simp: entry_object_def parse_exn_def dest: JSON_parse_json_ok split: option.splits)

lemma rbind_ok: "(\<And>v. m = Inr v \<Longrightarrow> res_ok (f v)) \<Longrightarrow> res_ok (rbind m f)"
  by (cases m) auto

text \<open>What a step call answers is a JSON value or \<open>undefined\<close>, from the journal as from the body.\<close>

lemma step_res_ok:
  assumes "step env c s = (r, s')" and "json_results c k"
  shows "res_ok r"
proof (cases c)
  case (Run sid timeout fn)
  have "json_ok v \<or> v = JUndef" if "run_body sid fn timeout w = (Inr v, w')" for w v w'
    using run_body_Inr [OF that] assms(2) Run by (auto simp: json_results_def)
  then show ?thesis
    using assms(1) Run parse_exn_ok
    by (auto simp: step_defs Let_def split: if_splits option.splits sum.splits prod.splits)
next
  case (Invoke sid name input)
  have "res_ok (rbind (entry_object e) (\<lambda>r. rbind (prop_exn r ''error'') (\<lambda>err.
      if err \<noteq> JUndef then Throw (Error (js_String err)) else prop_exn r ''output'')))" for e
    by (intro rbind_ok) (auto intro: prop_exn_ok dest: entry_object_ok)
  then show ?thesis using assms(1) Invoke
    by (auto simp: step_defs Let_def simp del: rbind_simps split: if_splits option.splits)
next
  case (WaitForEvent sid event timeout match)
  have "res_ok (rbind (entry_object e) (\<lambda>r. rbind (prop_exn r ''timedOut'') (\<lambda>t.
      if truthy t then Ok JNull else prop_exn r ''event'')))" for e
    by (intro rbind_ok) (auto intro: prop_exn_ok dest: entry_object_ok)
  then show ?thesis using assms(1) WaitForEvent
    by (auto simp: step_defs Let_def simp del: rbind_simps split: if_splits option.splits sum.splits)
qed (use assms in \<open>auto simp: step_defs Let_def split: if_splits option.splits sum.splits\<close>)

lemma step_replays:
  assumes "is_Run c" and "call_id c \<notin> set (usedIds s)" and "json_ok v \<or> v = JUndef"
    and "map_get (env_journal env) (call_id c) =
           Some \<lparr>je_kind = ''run'', je_result = Some (stringify_or_null v)\<rparr>"
  shows "step env c s = (Ok (or_null v), s\<lparr>usedIds := call_id c # usedIds s\<rparr>)"
  using parse_stringify_or_null [OF assms(3)] assms by (cases c) (auto simp: step_defs parse_exn_def)

text \<open>A call that records nothing either fails with a signal or reads neither world nor clock.\<close>

lemma step_quiet:
  assumes "step env c s = (r, s')" and "recorded s' = recorded s" and "\<And>e. r = Throw e \<Longrightarrow> \<not> is_signal e"
    and "env_offload env = None"
    and "map_get j' (call_id c) = map_get (env_journal env) (call_id c) \<or> call_id c \<in> set (usedIds s)"
    and "usedIds q = usedIds s"
  shows "step (env\<lparr>env_journal := j'\<rparr>) c q = (r, q\<lparr>usedIds := usedIds s'\<rparr>)"
  using assms
  by (cases c)
    (auto simp: step_defs Let_def rbind_def split: if_splits option.splits sum.splits prod.splits)

lemma exec_until_extends:
  assumes "exec_until n env t s = Some s1" and "fresh (usedIds s) (env_journal env) (recorded s)"
  shows "fresh (usedIds s1) (env_journal env) (recorded s1) \<and> set (usedIds s) \<subseteq> set (usedIds s1) \<and>
    (\<exists>new. recorded s1 = recorded s @ new \<and> fst ` set new \<inter> set (usedIds s) = {}) \<and> length (recorded s1) = n"
  using assms
proof (induction t arbitrary: s)
  case (Call c k)
  obtain r s2 where st: "step env c s = (r, s2)" by fastforce
  note eff = step_effect [OF st] and fr = step_fresh [OF st Call.prems(2)]
  show ?case
  proof (cases "length (recorded s) < n \<and> length (recorded s2) = n")
    case True
    with Call.prems st have "s1 = s2" by simp
    with eff fr True show ?thesis by (auto simp: claimed_def)
  next
    case False
    with Call.prems st have "exec_until n env (k r) s2 = Some s1" by auto
    from Call.IH [OF _ this fr] eff show ?thesis by (auto simp: claimed_def split: if_splits)
  qed
qed auto

definition with_journal :: "(string \<times> journal_entry) list \<Rightarrow> journal \<Rightarrow> journal" where
  "with_journal recs j = fold (\<lambda>(sid, e). map_set sid e) recs j"

lemma map_of_rev_distinct: "distinct (map fst xs) \<Longrightarrow> map_of (rev xs) = map_of xs"
proof (induction xs)
  case (Cons a xs)
  then have "map_of xs (fst a) = None" by (simp add: map_of_eq_None_iff)
  with Cons show ?case by (auto simp: map_add_def fun_eq_iff split: option.splits)
qed simp

lemma with_journal_get:
  "jsmap_ok j \<Longrightarrow> distinct (map fst recs) \<Longrightarrow>
     map_get (with_journal recs j) sid = (case map_of recs sid of Some e \<Rightarrow> Some e | None \<Rightarrow> map_get j sid)"
  unfolding with_journal_def
  by (simp add: js_registry.lookup_insert_all map_of_rev_distinct)

lemma replay_agrees:
  assumes "exec_until n env t s = Some s1" and "disciplined t" and "env_offload env = None"
    and "fresh (usedIds s) (env_journal env) (recorded s)"
    and "\<And>sid. sid \<notin> set (usedIds s) \<Longrightarrow>
           map_get j' sid = (case map_of (recorded s1) sid of Some e \<Rightarrow> Some e | None \<Rightarrow> map_get (env_journal env) sid)"
    and "usedIds q = usedIds s" and "world q = world s1" and "recorded q = []"
    and "run_wf env t s = (r, s2)"
  shows "\<exists>q2. run_wf (env\<lparr>env_journal := j'\<rparr>) t q = (r, q2) \<and> usedIds q2 = usedIds s2 \<and>
           world q2 = world s2 \<and> recorded s2 = recorded s1 @ recorded q2"
  using assms
proof (induction t arbitrary: s q)
  case (Call c k)
  let ?env = "env\<lparr>env_journal := j'\<rparr>"
  obtain x s3 where st: "step env c s = (x, s3)" by fastforce
  note eff = step_effect [OF st] and fr = step_fresh [OF st Call.prems(4)]
  have exec_Call: "(if length (recorded s) < n \<and> length (recorded s3) = n then Some s3
     else exec_until n env (k x) s3) = Some s1"
    using Call.prems(1) st by simp
  have json: "json_results c k" using Call.prems(2) by simp
  have disc: "disciplined (k x)" using Call.prems(2) step_res_ok [OF st json] by simp
  have run: "run_wf env (k x) s3 = (r, s2)" using Call.prems(9) st by simp
  have ext: "fresh (usedIds s1) (env_journal env) (recorded s1)" "\<exists>new. recorded s1 = recorded s @ new"
    using exec_until_extends [OF Call.prems(1,4)] by blast+
  have agree: "map_get j' sid = (case map_of (recorded s1) sid of Some e \<Rightarrow> Some e | None \<Rightarrow> map_get (env_journal env) sid)"
    if "sid \<notin> set (usedIds s3)" for sid
  proof (rule Call.prems(5))
    show "sid \<notin> set (usedIds s)" using that eff by (auto simp: claimed_def split: if_splits)
  qed
  consider (crash) "length (recorded s) < n" "length (recorded s3) = n" "s1 = s3"
    | (more) "exec_until n env (k x) s3 = Some s1"
  proof (cases "length (recorded s) < n \<and> length (recorded s3) = n")
    case True
    with exec_Call have "s1 = s3" by simp
    with True show thesis by (intro crash) simp_all
  next
    case False
    with exec_Call show thesis by (intro more) (simp only: if_False)
  qed
  then have pre: "\<exists>new. recorded s1 = recorded s3 @ new \<and> fst ` set new \<inter> set (usedIds s3) = {}"
  proof cases
    case more
    then show ?thesis using exec_until_extends [OF more fr] by blast
  qed simp
  show ?case
  proof (cases "recorded s3 = recorded s")
    case True
    then have "\<not> (length (recorded s) < n \<and> length (recorded s3) = n)" by simp
    with exec_Call have more: "exec_until n env (k x) s3 = Some s1" by (simp only: if_False)
    have "\<not> is_signal e" if "x = Throw e" for e
      using that Call.prems(2) more by auto
    moreover have "map_of (recorded s1) (call_id c) = None" if new: "call_id c \<notin> set (usedIds s)"
    proof -
      have "call_id c \<notin> fst ` set (recorded s)" using Call.prems(4) new by (simp add: fresh_def) blast
      moreover have "call_id c \<in> set (usedIds s3)" using eff new by (simp add: claimed_def)
      moreover obtain new where "recorded s1 = recorded s @ new" "fst ` set new \<inter> set (usedIds s3) = {}"
        using pre True by auto
      ultimately show ?thesis by (simp add: map_of_eq_None_iff image_Un) blast
    qed
    then have "map_get j' (call_id c) = map_get (env_journal env) (call_id c) \<or> call_id c \<in> set (usedIds s)"
      using Call.prems(5) [of "call_id c"] by (cases "call_id c \<in> set (usedIds s)") simp_all
    ultimately have "step ?env c q = (x, q\<lparr>usedIds := usedIds s3\<rparr>)"
      using step_quiet [OF st True _ Call.prems(3) _ Call.prems(6)] by blast
    moreover have "\<exists>q2. run_wf ?env (k x) (q\<lparr>usedIds := usedIds s3\<rparr>) = (r, q2) \<and> usedIds q2 = usedIds s2 \<and>
           world q2 = world s2 \<and> recorded s2 = recorded s1 @ recorded q2"
      by (rule Call.IH [OF _ more disc Call.prems(3) fr agree]) (simp_all add: Call.prems run)
    ultimately show ?thesis by simp
  next
    case False
    from step_records [OF st False Call.prems(3) json] obtain v where v: "x = Ok v" "json_ok v \<or> v = JUndef"
      "k (Ok (or_null v)) = k x" "is_Run c"
      "recorded s3 = recorded s @ [(call_id c, \<lparr>je_kind = ''run'', je_result = Some (stringify_or_null v)\<rparr>)]" by blast
    have new: "call_id c \<notin> set (usedIds s)" and used: "usedIds s3 = call_id c # usedIds s"
      using eff False by (auto simp: claimed_def)
    have "map_of (recorded s1) (call_id c) = Some \<lparr>je_kind = ''run'', je_result = Some (stringify_or_null v)\<rparr>"
      using pre v(5) ext(1) by (auto simp: fresh_def)
    then have "step ?env c q = (Ok (or_null v), q\<lparr>usedIds := usedIds s3\<rparr>)"
      using step_replays [OF v(4) _ v(2), of q ?env] new Call.prems(5) [OF new] used Call.prems(6) by simp
    moreover have "\<exists>q2. run_wf ?env (k x) (q\<lparr>usedIds := usedIds s3\<rparr>) = (r, q2) \<and> usedIds q2 = usedIds s2 \<and>
           world q2 = world s2 \<and> recorded s2 = recorded s1 @ recorded q2"
    proof (cases "s1 = s3 \<and> length (recorded s) < n \<and> length (recorded s3) = n")
      case True
      then have "map_get j' sid = map_get (env_journal env) sid" if "sid \<notin> set (usedIds s3)" for sid
        using agree [OF that] that fr by (auto simp: fresh_def split: option.splits dest: map_of_SomeD)
      then show ?thesis
        using run_wf_local [OF run, of j' "q\<lparr>usedIds := usedIds s3\<rparr>" "recorded s1"] True Call.prems(7,8) by auto
    next
      case False
      with exec_Call have more: "exec_until n env (k x) s3 = Some s1"
        by (cases "length (recorded s) < n \<and> length (recorded s3) = n") simp_all
      show ?thesis
        by (rule Call.IH [OF _ more disc Call.prems(3) fr agree]) (simp_all add: Call.prems run)
    qed
    ultimately show ?thesis by (simp add: v(3))
  qed
qed auto

definition start :: "'w \<Rightarrow> 'w attempt" where
  "start w = \<lparr>usedIds = [], world = w, recorded = []\<rparr>"

lemma fresh_start [simp]: "fresh (usedIds (start w)) j (recorded (start w))"
  by (simp add: fresh_def start_def)

lemma crash_recovery_aux:
  assumes "disciplined t" and "env_offload env = None" and "jsmap_ok (env_journal env)"
    and crash: "exec_until n env t (start w) = Some s1"
    and run: "run_wf env t (start w) = (r, s2)"
  shows "\<exists>q2. run_wf (env\<lparr>env_journal := with_journal (recorded s1) (env_journal env)\<rparr>) t (start (world s1)) = (r, q2) \<and>
    world q2 = world s2 \<and> recorded s2 = recorded s1 @ recorded q2"
proof -
  have "distinct (map fst (recorded s1))"
    using exec_until_extends [OF crash fresh_start] by (simp add: fresh_def)
  then have "map_get (with_journal (recorded s1) (env_journal env)) sid =
     (case map_of (recorded s1) sid of Some e \<Rightarrow> Some e | None \<Rightarrow> map_get (env_journal env) sid)" for sid
    using assms(3) by (rule with_journal_get [rotated])
  from replay_agrees [OF crash assms(1,2) fresh_start this _ _ _ run, of "start (world s1)"]
  show ?thesis by (auto simp: start_def)
qed

lemma run_wf_fresh:
  assumes "run_wf env t s = (r, s')" and "fresh (usedIds s) (env_journal env) (recorded s)"
  shows "fresh (usedIds s') (env_journal env) (recorded s')"
  using assms
proof (induction t arbitrary: s)
  case (Call c k)
  obtain x s2 where st: "step env c s = (x, s2)" by fastforce
  with Call.prems(1) have "run_wf env (k x) s2 = (r, s')" by simp
  from Call.IH [OF _ this step_fresh [OF st Call.prems(2)]] show ?case by simp
qed auto

end
