(* ===== verification/Attempt.thy ===== *)
theory Attempt
  imports Workflow
begin

text \<open>
  One execution attempt of a run (\<open>executeAttempt\<close> of \<open>packages/zenzip/src/workflow.ts\<close>): decoding
  the journal the engine sends, running the workflow function against it, and encoding the outcome;
  with the engine's decoder (\<open>ExecOutcome\<close> of \<open>crates/zenzip-core/src/workflow.rs\<close>), the content
  hash that pins a run to a definition, and the workflow handle.
\<close>

section \<open>The outcome of an attempt and its encoding for the engine\<close>

text \<open>The outcome as the engine knows it (\<open>ExecOutcome\<close> of \<open>workflow.rs\<close>).\<close>

datatype exec_outcome =
    OCompleted "string option"
  | OSleep string int
  | OEvent string string "int option" "string option"
  | OInvoke string string "string option"
  | OStepFailed string string
  | OFailed string

fun cause_message :: "exn \<Rightarrow> string" where
  "cause_message (Error m) = m"
| "cause_message (OtherThrow v) = (if nullish v then ''unknown error'' else js_String v)"
| "cause_message (SuspendSignal _) = ''[object Object]''"
| "cause_message (StepFailure _ _) = ''[object Object]''"

fun outcome_of :: "(exn, jsval) res \<Rightarrow> exec_outcome" where
  "outcome_of (Inr output) = OCompleted (Some (stringify_or_null output))"
| "outcome_of (Inl (SuspendSignal (SleepInfo sid wakeAt))) = OSleep sid wakeAt"
| "outcome_of (Inl (SuspendSignal (EventInfo sid event timeoutAt match))) = OEvent sid event timeoutAt match"
| "outcome_of (Inl (SuspendSignal (InvokeInfo sid name input))) = OInvoke sid name (Some input)"
| "outcome_of (Inl (StepFailure sid cause)) = OStepFailed sid (cause_message cause)"
| "outcome_of (Inl (Error m)) = OFailed m"
| "outcome_of (Inl (OtherThrow v)) = OFailed (js_String v)"

definition opt_num :: "int option \<Rightarrow> jsval" where
  "opt_num n = (case n of None \<Rightarrow> JNull | Some i \<Rightarrow> JNum i)"

definition opt_undef :: "string option \<Rightarrow> jsval" where
  "opt_undef t = (case t of None \<Rightarrow> JUndef | Some s \<Rightarrow> JStr s)"

text \<open>The object literals of \<open>executeAttempt\<close>, keys in source order.\<close>

fun settled_value :: "(exn, jsval) res \<Rightarrow> jsval" where
  "settled_value (Inr output) =
     JObj [(''type'', JStr ''completed''), (''output'', JStr (stringify_or_null output))]"
| "settled_value (Inl (SuspendSignal (SleepInfo sid wakeAt))) =
     JObj [(''type'', JStr ''sleep''), (''stepId'', JStr sid), (''wakeAt'', JNum wakeAt)]"
| "settled_value (Inl (SuspendSignal (EventInfo sid event timeoutAt match))) =
     JObj [(''type'', JStr ''event''), (''stepId'', JStr sid), (''event'', JStr event),
       (''timeoutAt'', opt_num timeoutAt), (''match'', opt_undef match)]"
| "settled_value (Inl (SuspendSignal (InvokeInfo sid name input))) =
     JObj [(''type'', JStr ''invoke''), (''stepId'', JStr sid), (''workflow'', JStr name), (''input'', JStr input)]"
| "settled_value (Inl (StepFailure sid cause)) =
     JObj [(''type'', JStr ''stepFailed''), (''stepId'', JStr sid), (''error'', JStr (cause_message cause))]"
| "settled_value (Inl (Error m)) = JObj [(''type'', JStr ''failed''), (''error'', JStr m)]"
| "settled_value (Inl (OtherThrow v)) = JObj [(''type'', JStr ''failed''), (''error'', JStr (js_String v))]"

definition settled_text :: "(exn, jsval) res \<Rightarrow> string" where
  "settled_text r = the (stringify (settled_value r))"

text \<open>
  Decoding by the engine: the \<open>type\<close> tag selects the variant, a string or number field must be
  present with that type, an optional field may be absent or null.
\<close>

definition str_field :: "(string \<times> jsval) list \<Rightarrow> string \<Rightarrow> string option" where
  "str_field kvs k = (case map_get kvs k of Some (JStr s) \<Rightarrow> Some s | _ \<Rightarrow> None)"

definition int_field :: "(string \<times> jsval) list \<Rightarrow> string \<Rightarrow> int option" where
  "int_field kvs k = (case map_get kvs k of Some (JNum i) \<Rightarrow> Some i | _ \<Rightarrow> None)"

definition opt_str_field :: "(string \<times> jsval) list \<Rightarrow> string \<Rightarrow> string option option" where
  "opt_str_field kvs k =
     (case map_get kvs k of None \<Rightarrow> Some None | Some JNull \<Rightarrow> Some None | Some (JStr s) \<Rightarrow> Some (Some s) | _ \<Rightarrow> None)"

definition opt_int_field :: "(string \<times> jsval) list \<Rightarrow> string \<Rightarrow> int option option" where
  "opt_int_field kvs k =
     (case map_get kvs k of None \<Rightarrow> Some None | Some JNull \<Rightarrow> Some None | Some (JNum i) \<Rightarrow> Some (Some i) | _ \<Rightarrow> None)"

definition decode_outcome :: "string \<Rightarrow> exec_outcome option" where
  "decode_outcome t =
     (case JSON_parse t of
        Some (JObj kvs) \<Rightarrow>
          (let ty = map_get kvs ''type'' in
           if ty = Some (JStr ''completed'') then map_option OCompleted (opt_str_field kvs ''output'')
           else if ty = Some (JStr ''sleep'') then
             (case (str_field kvs ''stepId'', int_field kvs ''wakeAt'') of
                (Some sid, Some wakeAt) \<Rightarrow> Some (OSleep sid wakeAt) | _ \<Rightarrow> None)
           else if ty = Some (JStr ''event'') then
             (case (str_field kvs ''stepId'', str_field kvs ''event'', opt_int_field kvs ''timeoutAt'', opt_str_field kvs ''match'') of
                (Some sid, Some ev, Some timeoutAt, Some m) \<Rightarrow> Some (OEvent sid ev timeoutAt m) | _ \<Rightarrow> None)
           else if ty = Some (JStr ''invoke'') then
             (case (str_field kvs ''stepId'', str_field kvs ''workflow'', opt_str_field kvs ''input'') of
                (Some sid, Some name, Some input) \<Rightarrow> Some (OInvoke sid name input) | _ \<Rightarrow> None)
           else if ty = Some (JStr ''stepFailed'') then
             (case (str_field kvs ''stepId'', str_field kvs ''error'') of
                (Some sid, Some err) \<Rightarrow> Some (OStepFailed sid err) | _ \<Rightarrow> None)
           else if ty = Some (JStr ''failed'') then map_option OFailed (str_field kvs ''error'')
           else None)
      | _ \<Rightarrow> None)"

text \<open>\<open>undefined\<close> fields are dropped by the printer, so the text parses to the other fields.\<close>

definition defined_fields :: "(string \<times> jsval) list \<Rightarrow> (string \<times> jsval) list" where
  "defined_fields kvs = filter (\<lambda>kv. snd kv \<noteq> JUndef) kvs"

lemma stringify_drops_undef: "stringify (JObj kvs) = stringify (JObj (defined_fields kvs))"
proof -
  have "List.map_filter f kvs = List.map_filter f (defined_fields kvs)"
    if "\<And>k. f (k, JUndef) = None" for f :: "string \<times> jsval \<Rightarrow> string option"
    using that by (induction kvs) (auto simp: List.map_filter_simps defined_fields_def split: option.splits)
  from this [of "\<lambda>kv. case stringify (snd kv) of None \<Rightarrow> None | Some t \<Rightarrow> Some (quote_str (fst kv) @ '':'' @ t)"]
  show ?thesis by simp
qed

lemma parse_object_text:
  assumes "json_ok (JObj (defined_fields kvs))"
  shows "JSON_parse (the (stringify (JObj kvs))) = Some (JObj (defined_fields kvs))"
proof -
  have "stringify (JObj kvs) = Some (json_text (JObj (defined_fields kvs)))"
    by (rule trans [OF stringify_drops_undef stringify_json_text [OF assms]])
  then show ?thesis by (simp only: option.sel JSON_parse_text [OF assms])
qed

lemmas settled_simps = opt_num_def opt_undef_def defined_fields_def str_field_def int_field_def
  opt_str_field_def opt_int_field_def

lemma settled_value_JObj: "\<exists>kvs. settled_value r = JObj kvs \<and> json_ok (JObj (defined_fields kvs))"
  by (cases r rule: settled_value.cases) (auto simp: settled_simps split: option.split)

lemma settled_text_parse:
  "settled_value r = JObj kvs \<Longrightarrow> JSON_parse (settled_text r) = Some (JObj (defined_fields kvs))"
  using settled_value_JObj [of r] by (auto simp only: settled_text_def jsval.inject intro: parse_object_text)

lemma decode_settled: "decode_outcome (settled_text r) = Some (outcome_of r)"
proof -
  obtain kvs where kvs: "settled_value r = JObj kvs" using settled_value_JObj by blast
  from settled_text_parse [OF kvs] kvs show ?thesis
    by (cases r rule: settled_value.cases)
      (auto simp: decode_outcome_def settled_simps split: option.splits)
qed

section \<open>Executing one attempt\<close>

record exec_req =
  req_runId :: string
  req_workflow :: string
  req_input :: string
  req_version :: "string option"
  req_journal :: string

record wf_ctx =
  ctx_input :: jsval
  ctx_runId :: string

definition idempotencyKey :: "wf_ctx \<Rightarrow> string \<Rightarrow> string" where
  "idempotencyKey ctx label = ctx_runId ctx @ '':'' @ label"

record 'w codec =
  cod_offload :: "string \<Rightarrow> string \<Rightarrow> string \<Rightarrow> 'w \<Rightarrow> string \<times> 'w"
  cod_rehydrate :: "string option \<Rightarrow> 'w \<Rightarrow> string option"

text \<open>
  The journal text is an array of \<open>{id, kind, result}\<close> with string \<open>id\<close> and \<open>kind\<close> and a string
  or null \<open>result\<close>; any other shape is reported as an error.
\<close>

definition entry_of :: "jsval \<Rightarrow> (string \<times> journal_entry) option" where
  "entry_of v =
     (case v of
        JObj kvs \<Rightarrow>
          (case (str_field kvs ''id'', str_field kvs ''kind'', map_get kvs ''result'') of
             (Some i, Some k, Some JNull) \<Rightarrow> Some (i, \<lparr>je_kind = k, je_result = None\<rparr>)
           | (Some i, Some k, Some (JStr t)) \<Rightarrow> Some (i, \<lparr>je_kind = k, je_result = Some t\<rparr>)
           | _ \<Rightarrow> None)
      | _ \<Rightarrow> None)"

definition journal_entries :: "string \<Rightarrow> (exn, (string \<times> journal_entry) list) res" where
  "journal_entries t =
     rbind (parse_exn t) (\<lambda>v.
       case v of
         JArr vs \<Rightarrow> rmap (\<lambda>x. case entry_of x of None \<Rightarrow> Throw (Error ''TypeError'') | Some e \<Rightarrow> Ok e) vs
       | _ \<Rightarrow> Throw (Error ''TypeError''))"

definition entry_value :: "string \<times> journal_entry \<Rightarrow> jsval" where
  "entry_value ie = JObj [(''id'', JStr (fst ie)), (''kind'', JStr (je_kind (snd ie))),
     (''result'', case je_result (snd ie) of None \<Rightarrow> JNull | Some t \<Rightarrow> JStr t)]"

definition version_warning :: "exec_req \<Rightarrow> string \<Rightarrow> string \<Rightarrow> string" where
  "version_warning req v expected =
     ''run '' @ req_runId req @ '' of '' @ [DQ] @ req_workflow req @ [DQ] @ '' was started by version '' @ v @
     '', current is '' @ expected @ '' -- keep step ids stable or in-flight runs may misbehave''"

definition version_warnings :: "string option \<Rightarrow> exec_req \<Rightarrow> string list" where
  "version_warnings expectedVersion req =
     (case (expectedVersion, req_version req) of
        (Some x, Some v) \<Rightarrow> if x \<noteq> [] \<and> v \<noteq> [] \<and> x \<noteq> v then [version_warning req v x] else []
      | _ \<Rightarrow> [])"

definition rehydrate_entries ::
  "'w codec option \<Rightarrow> 'w \<Rightarrow> (string \<times> journal_entry) list \<Rightarrow> (string \<times> journal_entry) list" where
  "rehydrate_entries payloads w es =
     (case payloads of
        None \<Rightarrow> es
      | Some c \<Rightarrow> map (\<lambda>(i, e). (i, e\<lparr>je_result := cod_rehydrate c (je_result e) w\<rparr>)) es)"

definition attempt_env ::
  "('w \<Rightarrow> int) \<Rightarrow> 'w codec option \<Rightarrow> exec_req \<Rightarrow> 'w \<Rightarrow> (string \<times> journal_entry) list \<Rightarrow> 'w step_env" where
  "attempt_env now payloads req w es =
     \<lparr>env_journal = with_journal (rehydrate_entries payloads w es) [],
      env_runId = req_runId req, env_now = now, env_offload = map_option cod_offload payloads\<rparr>"

definition attempt_fn :: "(wf_ctx \<Rightarrow> 'w wf) \<Rightarrow> exec_req \<Rightarrow> 'w wf" where
  "attempt_fn fn req =
     (case parse_exn (req_input req) of
        Inl e \<Rightarrow> Raise e
      | Inr input \<Rightarrow> fn \<lparr>ctx_input = input, ctx_runId = req_runId req\<rparr>)"

definition executeAttempt ::
  "('w \<Rightarrow> int) \<Rightarrow> (wf_ctx \<Rightarrow> 'w wf) \<Rightarrow> string option \<Rightarrow> exec_req \<Rightarrow> 'w codec option \<Rightarrow> 'w
     \<Rightarrow> string list \<times> (exn, string) res \<times> 'w attempt" where
  "executeAttempt now fn expectedVersion req payloads w =
     (version_warnings expectedVersion req,
      case journal_entries (req_journal req) of
        Inl e \<Rightarrow> (Throw e, start w)
      | Inr es \<Rightarrow>
          (case run_wf (attempt_env now payloads req w es) (attempt_fn fn req) (start w) of
             (r, s) \<Rightarrow> (Ok (settled_text r), s)))"

lemma journal_entries_text:
  "journal_entries (json_text (JArr (map entry_value es))) = Ok es"
proof -
  have "json_ok (JArr (map entry_value es))"
    by (auto simp: entry_value_def split: option.split)
  then have "parse_exn (json_text (JArr (map entry_value es))) = Ok (JArr (map entry_value es))"
    by (simp only: parse_exn_def JSON_parse_text option.case)
  moreover have "rmap (\<lambda>x. case entry_of x of None \<Rightarrow> Throw (Error ''TypeError'') | Some e \<Rightarrow> Ok e)
      (map entry_value es) = Ok es"
  proof (induction es)
    case (Cons ie es)
    have "entry_of (entry_value ie) = Some ie"
      by (cases ie) (auto simp: entry_of_def entry_value_def str_field_def split: option.split)
    with Cons show ?case by simp
  qed simp
  ultimately show ?thesis by (simp only: journal_entries_def rbind_simps jsval.case)
qed

section \<open>The content hash of a definition\<close>

definition fnv_step :: "32 word \<Rightarrow> char \<Rightarrow> 32 word" where
  "fnv_step h c = (h XOR word_of_nat (code c)) * 0x01000193"

definition fnv1a :: "string \<Rightarrow> 32 word" where
  "fnv1a source = foldl fnv_step 0x811c9dc5 source"

fun hex_digits :: "nat \<Rightarrow> string" where
  "hex_digits n = (if n < 16 then [hexdigit n] else hex_digits (n div 16) @ [hexdigit (n mod 16)])"

declare hex_digits.simps [simp del]

definition padStart :: "nat \<Rightarrow> char \<Rightarrow> string \<Rightarrow> string" where
  "padStart n c s = replicate (n - length s) c @ s"

definition hashDefinition :: "string \<Rightarrow> string" where
  "hashDefinition source = padStart 8 (CHR ''0'') (hex_digits (unat (fnv1a source)))"

definition hex_value :: "string \<Rightarrow> nat" where
  "hex_value s = foldl (\<lambda>acc c. acc * 16 + the (unhex c)) 0 s"

lemma hex_value_digits: "hex_value (hex_digits n) = n"
proof (induction n rule: hex_digits.induct)
  case (1 n)
  then show ?case
    by (subst hex_digits.simps) (auto simp: hex_value_def unhex_hexdigit)
qed

lemma hex_value_pad: "hex_value (padStart n (CHR ''0'') s) = hex_value s"
proof -
  have "foldl (\<lambda>acc c. acc * 16 + the (unhex c)) 0 (replicate m (CHR ''0'')) = 0" for m
    by (induction m) (auto simp: unhex_zero)
  then show ?thesis by (simp add: hex_value_def padStart_def)
qed

lemma hex_digits_length: "n < 16 ^ Suc k \<Longrightarrow> length (hex_digits n) \<le> Suc k"
proof (induction n arbitrary: k rule: hex_digits.induct)
  case (1 n)
  show ?case
  proof (cases "n < 16")
    case True
    then show ?thesis by (subst hex_digits.simps) simp
  next
    case False
    with "1.prems" obtain k' where k: "k = Suc k'" by (cases k) auto
    with "1.prems" have "n div 16 < 16 ^ Suc k'" by (simp add: less_mult_imp_div_less mult.commute)
    from "1.IH" [OF False this] False k show ?thesis by (subst hex_digits.simps) simp
  qed
qed

lemma hex_digits_chars: "c \<in> set (hex_digits n) \<Longrightarrow> unhex c \<noteq> None"
proof (induction n rule: hex_digits.induct)
  case (1 n)
  then show ?case
    by (subst (asm) hex_digits.simps) (auto simp: unhex_hexdigit split: if_splits)
qed

lemma hash_length: "length (hashDefinition src) = 8"
proof -
  have "unat (fnv1a src) < 2 ^ 32" using unsigned_less [of "fnv1a src"] by simp
  then have "length (hex_digits (unat (fnv1a src))) \<le> Suc 7" by (intro hex_digits_length) simp
  then show ?thesis by (simp add: hashDefinition_def padStart_def)
qed

lemma hash_chars: "c \<in> set (hashDefinition src) \<Longrightarrow> unhex c \<noteq> None"
  by (auto simp: hashDefinition_def padStart_def unhex_zero dest: hex_digits_chars)

lemma hash_eq_iff: "hashDefinition a = hashDefinition b \<longleftrightarrow> fnv1a a = fnv1a b"
  by (metis hashDefinition_def hex_value_digits hex_value_pad unsigned_word_eqI)

text \<open>One round is injective in the hash and in the character: the prime is invertible.\<close>

lemma mult_prime_inject: "x * 0x01000193 = y * 0x01000193 \<longleftrightarrow> x = (y :: 32 word)"
proof
  assume "x * 0x01000193 = y * 0x01000193"
  then have "x * 0x01000193 * 0x359c449b = y * 0x01000193 * 0x359c449b" by simp
  moreover have "(0x01000193 * 0x359c449b :: 32 word) = 1" by (simp add: word_uint_eq_iff)
  ultimately show "x = y" by (simp only: mult.assoc mult_1_right)
qed simp

lemma xor_inject: "(x XOR z = y XOR z) \<longleftrightarrow> x = (y :: 32 word)"
  by (metis xor.assoc xor_self_eq xor.right_neutral)

lemma fnv_step_inject: "fnv_step g c = fnv_step h c \<longleftrightarrow> g = h"
  by (simp add: fnv_step_def mult_prime_inject xor_inject)

lemma fnv_fold_inject: "foldl fnv_step g s = foldl fnv_step h s \<longleftrightarrow> g = h"
  by (induction s arbitrary: g h) (auto simp: fnv_step_inject)

lemma char_word_inject: "(word_of_nat (code c) :: 32 word) = word_of_nat (code d) \<longleftrightarrow> c = d"
proof -
  have "code x < 4294967296" for x using code_less [of x] by linarith
  then have "unat (word_of_nat (code x) :: 32 word) = code x" for x by (simp add: unat_of_nat)
  then show ?thesis by (metis code_inject)
qed

lemma fnv_step_char: "fnv_step h c = fnv_step h d \<longleftrightarrow> c = d"
  by (metis fnv_step_def mult_prime_inject char_word_inject xor.commute xor_inject)

section \<open>The workflow handle\<close>

text \<open>
  A workflow function is carried with its source text (\<open>fn.toString()\<close>). The native engine's
  calls are parameters acting on its state \<open>'n\<close>; \<open>_audit\<close> appends to a log.
\<close>

record 'w wf_fn =
  fn_source :: string
  fn_run :: "wf_ctx \<Rightarrow> 'w wf"

record 'w workflow =
  wf_name :: string
  wf_fn :: "'w wf_fn"
  wf_version :: string
  wf_versions :: "(string, 'w wf_fn) jsmap"

definition new_workflow :: "string \<Rightarrow> 'w wf_fn \<Rightarrow> 'w workflow" where
  "new_workflow name fn =
     \<lparr>wf_name = name, wf_fn = fn, wf_version = hashDefinition (fn_source fn), wf_versions = []\<rparr>"

definition version :: "'w wf_fn \<Rightarrow> 'w workflow \<Rightarrow> 'w workflow" where
  "version legacy flow = flow\<lparr>wf_versions := map_set (hashDefinition (fn_source legacy)) legacy (wf_versions flow)\<rparr>"

definition route :: "'w workflow \<Rightarrow> string option \<Rightarrow> 'w wf_fn \<times> string" where
  "route flow pinned =
     (case pinned of
        None \<Rightarrow> (wf_fn flow, wf_version flow)
      | Some v \<Rightarrow>
          if v \<noteq> [] then
            (case map_get (wf_versions flow) v of Some f \<Rightarrow> (f, v) | None \<Rightarrow> (wf_fn flow, wf_version flow))
          else (wf_fn flow, wf_version flow))"

text \<open>The executor that \<open>app.start\<close> registers for a workflow.\<close>

definition execute_routed ::
  "('w \<Rightarrow> int) \<Rightarrow> 'w workflow \<Rightarrow> exec_req \<Rightarrow> 'w codec option \<Rightarrow> 'w \<Rightarrow> string list \<times> (exn, string) res \<times> 'w attempt" where
  "execute_routed now flow req payloads w =
     (let (f, v) = route flow (req_version req) in executeAttempt now (fn_run f) (Some v) req payloads w)"

record trigger_options =
  to_idempotencyKey :: "string option"
  to_delay :: "duration option"
  to_subject :: "string option"

record native_trigger =
  nt_idempotencyKey :: "string option"
  nt_delayMs :: "int option"
  nt_subject :: "string option"

record audit_event =
  au_action :: string
  au_target :: string
  au_detail :: jsval

record 'n engine =
  triggerWorkflow :: "string \<Rightarrow> string \<Rightarrow> native_trigger \<Rightarrow> 'n \<Rightarrow> (exn, string) res \<times> 'n"
  waitForRun :: "string \<Rightarrow> int \<Rightarrow> 'n \<Rightarrow> string option \<times> 'n"
  native_getRun :: "string \<Rightarrow> 'n \<Rightarrow> string option"
  native_cancelRun :: "string \<Rightarrow> 'n \<Rightarrow> int \<times> 'n"

record 'n handle_state =
  hs_native :: 'n
  hs_audit :: "audit_event list"

definition opt_ms :: "duration option \<Rightarrow> (exn, int option) res" where
  "opt_ms d = (case d of None \<Rightarrow> Ok None | Some x \<Rightarrow> rbind (ms_exn x) (\<lambda>n. Ok (Some n)))"

definition audit :: "string \<Rightarrow> string \<Rightarrow> jsval \<Rightarrow> 'n handle_state \<Rightarrow> 'n handle_state" where
  "audit action target detail s =
     s\<lparr>hs_audit := hs_audit s @ [\<lparr>au_action = action, au_target = target, au_detail = detail\<rparr>]\<rparr>"

definition trigger ::
  "'n engine \<Rightarrow> string \<Rightarrow> jsval \<Rightarrow> trigger_options \<Rightarrow> 'n handle_state \<Rightarrow> (exn, string) res \<times> 'n handle_state" where
  "trigger eng name input opts s =
     (case opt_ms (to_delay opts) of
        Inl e \<Rightarrow> (Throw e, s)
      | Inr delayMs \<Rightarrow>
          (case triggerWorkflow eng name (stringify_or_null input)
                  \<lparr>nt_idempotencyKey = to_idempotencyKey opts, nt_delayMs = delayMs, nt_subject = to_subject opts\<rparr>
                  (hs_native s) of
             (Inl e, n) \<Rightarrow> (Throw e, s\<lparr>hs_native := n\<rparr>)
           | (Inr runId, n) \<Rightarrow>
               (Ok runId,
                audit ''workflow.trigger'' name (JObj [(''runId'', JStr runId)]) (s\<lparr>hs_native := n\<rparr>))))"

record run_info =
  ri_runId :: jsval
  ri_workflow :: jsval
  ri_status :: run_status
  ri_output :: jsval
  ri_error :: jsval

definition parseRun :: "string \<Rightarrow> (exn, run_info) res" where
  "parseRun raw =
     rbind (parse_exn raw) (\<lambda>row.
     rbind (prop_exn row ''id'') (\<lambda>rid.
     rbind (prop_exn row ''workflow'') (\<lambda>name.
     rbind (prop_exn row ''status'') (\<lambda>st.
     rbind (prop_exn row ''output'') (\<lambda>out.
     rbind (if out \<noteq> JNull then parse_exn (js_String out) else Ok JUndef) (\<lambda>output.
     rbind (prop_exn row ''error'') (\<lambda>err.
       Ok \<lparr>ri_runId = rid, ri_workflow = name,
          ri_status = (case st of JNum i \<Rightarrow> status_of i | _ \<Rightarrow> Running),
          ri_output = output, ri_error = (if nullish err then JUndef else err)\<rparr>)))))))"

fun status_name :: "run_status \<Rightarrow> string" where
  "status_name Running = ''running''"
| "status_name Sleeping = ''sleeping''"
| "status_name WaitingEvent = ''waitingEvent''"
| "status_name WaitingChild = ''waitingChild''"
| "status_name Completed = ''completed''"
| "status_name Failed = ''failed''"
| "status_name Cancelled = ''cancelled''"

definition triggerAndWait ::
  "'n engine \<Rightarrow> string \<Rightarrow> jsval \<Rightarrow> trigger_options \<Rightarrow> duration option \<Rightarrow> 'n handle_state
     \<Rightarrow> (exn, jsval) res \<times> 'n handle_state" where
  "triggerAndWait eng name input opts timeout s =
     (case trigger eng name input opts s of
        (Inl e, s1) \<Rightarrow> (Throw e, s1)
      | (Inr runId, s1) \<Rightarrow>
          (case opt_ms timeout of
             Inl e \<Rightarrow> (Throw e, s1)
           | Inr t \<Rightarrow>
               (case waitForRun eng runId (case t of None \<Rightarrow> 60000 | Some n \<Rightarrow> n) (hs_native s1) of
                  (raw, n) \<Rightarrow>
                    let s2 = s1\<lparr>hs_native := n\<rparr> in
                    if raw = None \<or> raw = Some [] then (Throw (Error (''run '' @ runId @ '' not found'')), s2)
                    else (rbind (parseRun (the raw)) (\<lambda>run.
                      case ri_status run of
                        Completed \<Rightarrow> Ok (ri_output run)
                      | Failed \<Rightarrow> Throw (Error (if ri_error run = JUndef then ''run '' @ runId @ '' failed''
                                               else js_String (ri_error run)))
                      | Cancelled \<Rightarrow> Throw (Error (''run '' @ runId @ '' was cancelled''))
                      | st \<Rightarrow> Throw (Error (''run '' @ runId @ '' did not finish within the timeout ('' @
                                status_name st @ '')''))), s2))))"

definition getRun :: "'n engine \<Rightarrow> string \<Rightarrow> 'n handle_state \<Rightarrow> (exn, run_info option) res" where
  "getRun eng runId s =
     (case native_getRun eng runId (hs_native s) of
        None \<Rightarrow> Ok None
      | Some raw \<Rightarrow> if raw = [] then Ok None else rbind (parseRun raw) (\<lambda>r. Ok (Some r)))"

definition cancel :: "'n engine \<Rightarrow> string \<Rightarrow> string \<Rightarrow> 'n handle_state \<Rightarrow> int \<times> 'n handle_state" where
  "cancel eng name runId s =
     (case native_cancelRun eng runId (hs_native s) of
        (n, m) \<Rightarrow>
          (n, audit ''workflow.cancel'' name
                (JObj [(''runId'', JStr runId), (''cancelled'', JNum n)]) (s\<lparr>hs_native := m\<rparr>)))"

section \<open>Properties\<close>

lemma parseRun_Ok:
  assumes "JSON_parse raw = Some (JObj kvs)"
    and "map_get kvs ''output'' = Some (JStr (stringify_or_null v))" and "json_ok v"
    and "map_get kvs ''status'' = Some (JNum (int (status_code st)))"
  shows "\<exists>run. parseRun raw = Ok run \<and> ri_output run = v \<and> ri_status run = st"
proof -
  have "JSON_parse (stringify_or_null v) = Some v"
    using parse_stringify_or_null [of v] assms(3) by (cases v) (auto simp: or_null_def nullish_def)
  with assms show ?thesis by (auto simp: parseRun_def parse_exn_def prop_exn_def get_prop_def)
qed

lemma attempt_replays:
  assumes "disciplined (attempt_fn fn req)" and "distinct (map fst es)"
    and "exec_until n (attempt_env now None req w es) (attempt_fn fn req) (start w) = Some s1"
    and "executeAttempt now fn v (req\<lparr>req_journal := json_text (JArr (map entry_value es))\<rparr>) None w = (ws, out, s2)"
  shows "\<exists>q2. executeAttempt now fn v (req\<lparr>req_journal := json_text (JArr (map entry_value (es @ recorded s1)))\<rparr>)
                None (world s1) = (ws, out, q2) \<and>
           world q2 = world s2 \<and> recorded s2 = recorded s1 @ recorded q2"
proof -
  let ?env = "attempt_env now None req w es" and ?t = "attempt_fn fn req"
  have upd: "attempt_env now None (req\<lparr>req_journal := x\<rparr>) w' es' = attempt_env now None req w' es'"
    "attempt_fn fn (req\<lparr>req_journal := x\<rparr>) = ?t" "version_warnings v (req\<lparr>req_journal := x\<rparr>) = version_warnings v req"
    for x w' es'
    by (simp_all add: attempt_env_def attempt_fn_def version_warnings_def version_warning_def
        split: sum.split option.split)
  obtain r where run: "run_wf ?env ?t (start w) = (r, s2)" and out: "out = Ok (settled_text r)"
    and ws: "ws = version_warnings v req"
    using assms(4) by (auto simp: executeAttempt_def upd journal_entries_text simp del: json_text.simps split: prod.splits)
  have off: "env_offload ?env = None" and ok: "jsmap_ok (env_journal ?env)"
    by (simp_all add: attempt_env_def with_journal_def js_registry.insert_all_invar)
  have env: "attempt_env now None req (world s1) (es @ recorded s1) =
      ?env\<lparr>env_journal := with_journal (recorded s1) (env_journal ?env)\<rparr>"
    by (simp add: attempt_env_def with_journal_def rehydrate_entries_def)
  from crash_recovery_aux [OF assms(1) off ok assms(3) run]
  show ?thesis
    by (auto simp: executeAttempt_def upd journal_entries_text env out ws
        simp del: json_text.simps map_append split: prod.splits)
qed

text \<open>
  C2: crash recovery. When the process dies right after any recorded step and the run is redelivered
  with the journal extended by the steps recorded so far, the new attempt produces the outcome and
  the final world the uninterrupted attempt would have produced, and records exactly the remaining
  steps: no recorded step body runs again. The workflow function returns JSON values from its steps
  (or \<open>undefined\<close> where it makes no difference from \<open>null\<close>) and does not swallow the engine's signals.
\<close>

theorem crash_recovery:
  assumes "disciplined (attempt_fn fn req)" and "distinct (map fst es)"
    and "exec_until n (attempt_env now None req w es) (attempt_fn fn req) (start w) = Some s1"
    and "executeAttempt now fn v (req\<lparr>req_journal := json_text (JArr (map entry_value es))\<rparr>) None w = (ws, out, s2)"
  shows "\<exists>q2. executeAttempt now fn v (req\<lparr>req_journal := json_text (JArr (map entry_value (es @ recorded s1)))\<rparr>)
                None (world s1) = (ws, out, q2) \<and>
           world q2 = world s2 \<and> recorded s2 = recorded s1 @ recorded q2"
  using assms by (rule attempt_replays)

definition count_body :: "int \<Rightarrow> (exn, jsval) res \<times> int \<times> int" where
  "count_body w = (Ok (JNum w), 1, w + 1)"

definition uncaught :: "(jsval \<Rightarrow> 'w wf) \<Rightarrow> (exn, jsval) res \<Rightarrow> 'w wf" where
  "uncaught k r = (case r of Inl e \<Rightarrow> Raise e | Inr v \<Rightarrow> k v)"

definition two_steps :: "wf_ctx \<Rightarrow> int wf" where
  "two_steps ctx =
     Call (Run ''a'' None count_body) (uncaught (\<lambda>x. Call (Run ''b'' None count_body) (uncaught Return)))"

definition two_req :: exec_req where
  "two_req = \<lparr>req_runId = ''r'', req_workflow = ''w'', req_input = ''null'', req_version = None, req_journal = ''[]''\<rparr>"

definition two_mid :: "int attempt" where
  "two_mid = \<lparr>usedIds = [''a''], world = 6, recorded = [(''a'', \<lparr>je_kind = ''run'', je_result = Some ''5''\<rparr>)]\<rparr>"

lemma two_steps_disciplined: "disciplined (attempt_fn two_steps two_req)"
proof -
  have "parse_exn (req_input two_req) = Ok JNull" by code_simp
  then show ?thesis
    by (auto simp: attempt_fn_def two_steps_def uncaught_def json_results_def count_body_def split: sum.split)
qed

lemma two_steps_crash:
  "exec_until 1 (attempt_env id None two_req 5 []) (attempt_fn two_steps two_req) (start 5) = Some two_mid"
  by code_simp

theorem crash_recovery_witness:
  "world (snd (snd (executeAttempt id two_steps None
     (two_req\<lparr>req_journal := json_text (JArr (map entry_value (recorded two_mid)))\<rparr>) None (world two_mid)))) = 7"
proof -
  let ?full = "executeAttempt id two_steps None (two_req\<lparr>req_journal := json_text (JArr (map entry_value []))\<rparr>) None 5"
  have "\<exists>q2. executeAttempt id two_steps None (two_req\<lparr>req_journal := json_text (JArr (map entry_value ([] @ recorded two_mid)))\<rparr>)
            None (world two_mid) = (fst ?full, fst (snd ?full), q2) \<and>
          world q2 = world (snd (snd ?full)) \<and> recorded (snd (snd ?full)) = recorded two_mid @ recorded q2"
    by (rule crash_recovery [OF two_steps_disciplined _ two_steps_crash, where v = None]) simp_all
  moreover have "world (snd (snd ?full)) = 7" by code_simp
  ultimately show ?thesis by auto
qed

text \<open>
  at most one record per step. Whatever the workflow function does, the step ids an attempt
  records are distinct and none of them was already in the journal it replays, so a recorded result
  is never overwritten.
\<close>

theorem recorded_once:
  "distinct (map fst (recorded (snd (run_wf env t (start w))))) \<and>
   (\<forall>sid e. (sid, e) \<in> set (recorded (snd (run_wf env t (start w)))) \<longrightarrow> map_get (env_journal env) sid = None)"
  using run_wf_fresh [OF _ fresh_start, of env t w "fst (run_wf env t (start w))" "snd (run_wf env t (start w))"]
  by (force simp: fresh_def)

theorem recorded_once_witness:
  "map fst (recorded (snd (run_wf \<lparr>env_journal = [], env_runId = ''r'', env_now = (\<lambda>w. 0), env_offload = None\<rparr>
      (Call (Run ''a'' None (\<lambda>w. (Ok (JNum w), 1, w + 1))) (\<lambda>_. Return JNull)) (start (5 :: int))))) = [''a''] \<and>
   map_get ([] :: journal) ''a'' = None"
  using recorded_once [of "\<lparr>env_journal = [], env_runId = ''r'', env_now = (\<lambda>w. 0), env_offload = None\<rparr>"
      "Call (Run ''a'' None (\<lambda>w. (Ok (JNum w), 1, w + 1))) (\<lambda>_. Return JNull)" "5 :: int"]
  by (simp add: start_def step_defs run_body_def Let_def)

text \<open>
  The engine understands every outcome. The text an attempt returns to the engine decodes, by
  the engine's rules, to exactly the outcome of the workflow function: its output, the suspension it
  asked for with every field, the failed step with its message, or the failure.
\<close>

theorem outcome_decodes:
  assumes "req_journal req = json_text (JArr (map entry_value es))"
  shows "\<exists>out s r. executeAttempt now fn v req payloads w = (version_warnings v req, Ok out, s) \<and>
           run_wf (attempt_env now payloads req w es) (attempt_fn fn req) (start w) = (r, s) \<and>
           decode_outcome out = Some (outcome_of r)"
  using assms
  by (auto simp: executeAttempt_def journal_entries_text decode_settled simp del: json_text.simps split: prod.splits)

theorem outcome_decodes_witness:
  "\<exists>out s r. executeAttempt id two_steps None (two_req\<lparr>req_journal := json_text (JArr (map entry_value []))\<rparr>) None 5 =
       (version_warnings None (two_req\<lparr>req_journal := json_text (JArr (map entry_value []))\<rparr>), Ok out, s) \<and>
     run_wf (attempt_env id None (two_req\<lparr>req_journal := json_text (JArr (map entry_value []))\<rparr>) 5 [])
       (attempt_fn two_steps (two_req\<lparr>req_journal := json_text (JArr (map entry_value []))\<rparr>)) (start 5) = (r, s) \<and>
     decode_outcome out = Some (outcome_of r)"
  by (rule outcome_decodes) simp

text \<open>
  The content hash. A definition's version is eight hexadecimal digits, and two definitions that
  differ in one character never share a version, so editing a workflow function in one place
  always changes the version its runs are pinned to.
\<close>

theorem hashDefinition_detects_edit:
  "length (hashDefinition src) = 8 \<and> list_all (\<lambda>c. unhex c \<noteq> None) (hashDefinition src) \<and>
   (hashDefinition (p @ c # q) = hashDefinition (p @ d # q) \<longleftrightarrow> c = d)"
  by (simp add: hash_length list_all_iff hash_chars hash_eq_iff fnv1a_def fnv_fold_inject fnv_step_char
      del: not_None_eq)

text \<open>
  version routing. A run pinned to a registered legacy definition executes that definition, a
  run pinned to a version that is not registered, or to none, executes the current one.
\<close>

theorem version_routing:
  "route (version legacy flow) (Some (hashDefinition (fn_source legacy))) = (legacy, hashDefinition (fn_source legacy)) \<and>
   (\<forall>v. map_get (wf_versions flow) v = None \<longrightarrow> route flow (Some v) = (wf_fn flow, wf_version flow)) \<and>
   route flow None = (wf_fn flow, wf_version flow)"
proof -
  have "hashDefinition (fn_source legacy) \<noteq> []" using hash_length [of "fn_source legacy"] by auto
  then show ?thesis by (simp add: route_def version_def jsmap_simps)
qed

theorem version_routing_witness:
  "route (new_workflow ''w'' \<lparr>fn_source = ''new'', fn_run = two_steps\<rparr>) (Some ''0badcafe'') =
     (\<lparr>fn_source = ''new'', fn_run = two_steps\<rparr>, hashDefinition ''new'')"
proof -
  let ?w = "new_workflow ''w'' \<lparr>fn_source = ''new'', fn_run = two_steps\<rparr>"
  have "map_get (wf_versions ?w) ''0badcafe'' = None" by (simp add: new_workflow_def)
  then have "route ?w (Some ''0badcafe'') = (wf_fn ?w, wf_version ?w)"
    using version_routing [of undefined ?w] by blast
  then show ?thesis by (simp add: new_workflow_def)
qed

text \<open>
  Waiting for a run. When the engine reports the triggered run completed with the encoding of a
  JSON value, \<open>triggerAndWait\<close> returns that value, and the trigger has been audited.
\<close>

theorem triggerAndWait_completed:
  assumes "triggerWorkflow eng name (stringify_or_null input)
      \<lparr>nt_idempotencyKey = None, nt_delayMs = None, nt_subject = None\<rparr> (hs_native s) = (Ok runId, n)"
    and "waitForRun eng runId 60000 n = (Some raw, m)" and "JSON_parse raw = Some (JObj kvs)"
    and "map_get kvs ''output'' = Some (JStr (stringify_or_null v))" and "json_ok v"
    and "map_get kvs ''status'' = Some (JNum (int (status_code Completed)))"
  shows "\<exists>s'. triggerAndWait eng name input \<lparr>to_idempotencyKey = None, to_delay = None, to_subject = None\<rparr> None s = (Ok v, s') \<and>
           hs_native s' = m \<and>
           hs_audit s' = hs_audit s @ [\<lparr>au_action = ''workflow.trigger'', au_target = name,
             au_detail = JObj [(''runId'', JStr runId)]\<rparr>]"
proof -
  have "JSON_parse [] = None" by code_simp
  with assms(3) have "raw \<noteq> []" by auto
  moreover obtain run where "parseRun raw = Ok run" "ri_output run = v" "ri_status run = Completed"
    using parseRun_Ok [OF assms(3-6)] by auto
  ultimately show ?thesis
    using assms(1,2) by (simp add: triggerAndWait_def trigger_def opt_ms_def audit_def Let_def)
qed

definition done_engine :: "int engine" where
  "done_engine =
     \<lparr>triggerWorkflow = (\<lambda>name input opts n. (Ok ''r1'', n + 1)),
      waitForRun = (\<lambda>rid t n. (Some (json_text (JObj [(''id'', JStr rid), (''workflow'', JStr ''w''), (''status'', JNum 4),
         (''output'', JStr ''7''), (''error'', JNull)])), n)),
      native_getRun = (\<lambda>rid n. None), native_cancelRun = (\<lambda>rid n. (0, n))\<rparr>"

theorem triggerAndWait_completed_witness:
  "fst (triggerAndWait done_engine ''w'' JUndef \<lparr>to_idempotencyKey = None, to_delay = None, to_subject = None\<rparr> None
     \<lparr>hs_native = 0, hs_audit = []\<rparr>) = Ok (JNum 7)"
proof -
  let ?s = "\<lparr>hs_native = 0, hs_audit = []\<rparr> :: int handle_state"
  let ?kvs = "[(''id'', JStr ''r1''), (''workflow'', JStr ''w''), (''status'', JNum 4), (''output'', JStr ''7''), (''error'', JNull)]"
  have parse: "JSON_parse (json_text (JObj ?kvs)) = Some (JObj ?kvs)" by (rule JSON_parse_text) simp
  have out: "stringify_or_null (JNum 7) = ''7''" by code_simp
  have "\<exists>s'. triggerAndWait done_engine ''w'' JUndef \<lparr>to_idempotencyKey = None, to_delay = None, to_subject = None\<rparr> None ?s
          = (Ok (JNum 7), s') \<and> hs_native s' = 1 \<and>
        hs_audit s' = hs_audit ?s @ [\<lparr>au_action = ''workflow.trigger'', au_target = ''w'',
             au_detail = JObj [(''runId'', JStr ''r1'')]\<rparr>]"
    by (rule triggerAndWait_completed [OF _ _ parse]) (simp_all add: done_engine_def out)
  then show ?thesis by auto
qed

text \<open>
  A step body that returns nothing yields \<open>undefined\<close> to the workflow function when it runs and
  \<open>null\<close> when the step is replayed from the journal.
\<close>

lemma undefined_step_result_replays_as_null:
  "step_run \<lparr>env_journal = [], env_runId = rid, env_now = now, env_offload = None\<rparr> ''a'' (\<lambda>w. (Ok JUndef, 1, w)) None (start w) =
     (Ok JUndef, \<lparr>usedIds = [''a''], world = w,
        recorded = [(''a'', \<lparr>je_kind = ''run'', je_result = Some ''null''\<rparr>)]\<rparr>) \<and>
   fst (step_run \<lparr>env_journal = [(''a'', \<lparr>je_kind = ''run'', je_result = Some ''null''\<rparr>)], env_runId = rid, env_now = now,
        env_offload = None\<rparr> ''a'' fn None (start w)) = Ok JNull"
proof -
  have "JSON_parse ''null'' = Some JNull" by code_simp
  then show ?thesis
    by (simp add: step_run_def claim_def start_def run_body_def stringify_or_null_def or_null_def nullish_def parse_exn_def)
qed

end
