(* ===== verification/Events.thy ===== *)
theory Events
  imports Prelude
begin

text \<open>
  Event patterns (\<open>packages/zenzip/src/events.ts\<close>), their mirror in the Rust engine
  (\<open>event_matches\<close> in \<open>crates/zenzip-core/src/workflow.rs\<close>), and the in-process
  subscriber list of the application (\<open>on\<close>, its unsubscribe closure and \<open>_dispatchLocal\<close>
  in \<open>app.ts\<close>). The matcher is proved equal to a structural specification on dot-segments and
  to the Rust matcher, so a durable trigger and a local subscriber with the same pattern react
  to the same events.
\<close>

section \<open>Patterns\<close>

definition seg_match :: "string \<Rightarrow> string \<Rightarrow> bool" where
  "seg_match seg x \<longleftrightarrow> seg = ''*'' \<or> seg = x"

definition every_seg :: "string list \<Rightarrow> string list \<Rightarrow> bool" where
  "every_seg p n = list_all (\<lambda>(i, seg). seg_match seg (n ! i)) (List.enumerate 0 p)"

definition eventMatches :: "string \<Rightarrow> string \<Rightarrow> bool" where
  "eventMatches pattern name =
     (if pattern = name then True
      else let p = split_on CHR ''.'' pattern; n = split_on CHR ''.'' name
           in if last p = ''**''
              then let prefix = butlast p
                   in length prefix \<le> length n \<and> every_seg prefix n
              else length p = length n \<and> every_seg p n)"

text \<open>The Rust matcher: the same tests with \<open>zip\<close> and \<open>all\<close> instead of indices.\<close>

definition event_matches :: "string \<Rightarrow> string \<Rightarrow> bool" where
  "event_matches pattern name =
     (if pattern = name then True
      else let p = split_on CHR ''.'' pattern; n = split_on CHR ''.'' name
           in if last p = ''**''
              then let prefix = take (length p - 1) p
                   in length prefix \<le> length n \<and> list_all (\<lambda>(a, b). a = ''*'' \<or> a = b) (zip prefix n)
              else length p = length n \<and> list_all (\<lambda>(a, b). a = ''*'' \<or> a = b) (zip p n))"

text \<open>The specification: a pattern against a name, one dot-segment at a time.\<close>

fun glob :: "string list \<Rightarrow> string list \<Rightarrow> bool" where
  "glob [] n = (n = [])"
| "glob (s # ss) n =
     (if ss = [] \<and> s = ''**'' then True
      else case n of [] \<Rightarrow> False | x # xs \<Rightarrow> seg_match s x \<and> glob ss xs)"

lemma every_seg_Nil [simp]: "every_seg [] n"
  by (simp add: every_seg_def)

lemma list_all_nth_iff: "list_all P xs \<longleftrightarrow> (\<forall>i < length xs. P (xs ! i))"
  by (simp add: list_all_length)

lemma every_seg_nth: "every_seg p n \<longleftrightarrow> (\<forall>i < length p. seg_match (p ! i) (n ! i))"
  by (auto simp: every_seg_def list_all_length nth_enumerate_eq)

lemma every_seg_Cons: "every_seg (s # ss) (x # xs) \<longleftrightarrow> seg_match s x \<and> every_seg ss xs"
  by (auto simp: every_seg_nth less_Suc_eq_0_disj)

lemma every_seg_zip:
  "length p \<le> length n \<Longrightarrow>
     every_seg p n \<longleftrightarrow> list_all (\<lambda>(a, b). a = ''*'' \<or> a = b) (zip p n)"
  by (auto simp: every_seg_nth seg_match_def list_all_length)

lemma glob_iff:
  "p \<noteq> [] \<Longrightarrow> glob p n \<longleftrightarrow>
     (if last p = ''**'' then length (butlast p) \<le> length n \<and> every_seg (butlast p) n
      else length p = length n \<and> every_seg p n)"
proof (induction p n rule: glob.induct)
  case (1 n)
  then show ?case by simp
next
  case (2 s ss n)
  show ?case
  proof (cases "ss = []")
    case True
    then show ?thesis by (cases n) (auto simp: every_seg_Cons)
  next
    case False
    then show ?thesis using 2 by (cases n) (auto simp: every_seg_Cons)
  qed
qed

lemma glob_refl: "glob p p"
  by (induction p) (auto simp: seg_match_def)

lemma eventMatches_glob:
  "eventMatches pattern name \<longleftrightarrow> glob (split_on CHR ''.'' pattern) (split_on CHR ''.'' name)"
proof (cases "pattern = name")
  case True
  then show ?thesis by (simp add: eventMatches_def glob_refl)
next
  case False
  then show ?thesis by (simp add: eventMatches_def glob_iff Let_def)
qed

lemma eventMatches_rust: "eventMatches pattern name = event_matches pattern name"
proof -
  have "every_seg (butlast p) n = list_all (\<lambda>(a, b). a = ''*'' \<or> a = b) (zip (take (length p - 1) p) n)"
    if "length (butlast p) \<le> length n" for p n :: "string list"
    using every_seg_zip [OF that] by (simp add: butlast_conv_take)
  then show ?thesis
    by (auto simp: eventMatches_def event_matches_def Let_def every_seg_zip)
qed

section \<open>Local subscribers\<close>

text \<open>
  A subscription is identified by its place in the sequence of registrations (the identity of the
  entry object in the source).
\<close>

record 'h subscription =
  sub_id :: nat
  sub_pattern :: string
  sub_handler :: 'h

record 'h subscribers =
  subs :: "'h subscription list"
  next_sub :: nat

definition on :: "string \<Rightarrow> 'h \<Rightarrow> 'h subscribers \<Rightarrow> nat \<times> 'h subscribers" where
  "on pattern handler s =
     (next_sub s,
      s\<lparr>subs := subs s @ [\<lparr>sub_id = next_sub s, sub_pattern = pattern, sub_handler = handler\<rparr>],
        next_sub := Suc (next_sub s)\<rparr>)"

fun splice_sub :: "nat \<Rightarrow> 'h subscription list \<Rightarrow> 'h subscription list" where
  "splice_sub i [] = []"
| "splice_sub i (e # es) = (if sub_id e = i then es else e # splice_sub i es)"

definition unsubscribe :: "nat \<Rightarrow> 'h subscribers \<Rightarrow> 'h subscribers" where
  "unsubscribe i s = s\<lparr>subs := splice_sub i (subs s)\<rparr>"

text \<open>The handlers that one local dispatch starts, in registration order.\<close>

definition dispatchLocal :: "string \<Rightarrow> 'p \<Rightarrow> 'h subscribers \<Rightarrow> ('h \<times> string \<times> 'p) list" where
  "dispatchLocal event payload s =
     map (\<lambda>e. (sub_handler e, event, payload))
       (filter (\<lambda>e. eventMatches (sub_pattern e) event) (subs s))"

definition subs_ok :: "'h subscribers \<Rightarrow> bool" where
  "subs_ok s \<longleftrightarrow> distinct (map sub_id (subs s)) \<and> (\<forall>e \<in> set (subs s). sub_id e < next_sub s)"

lemma splice_sub_filter:
  "distinct (map sub_id es) \<Longrightarrow> splice_sub i es = filter (\<lambda>e. sub_id e \<noteq> i) es"
proof (induction es)
  case (Cons e es)
  show ?case
  proof (cases "sub_id e = i")
    case True
    with Cons.prems have "\<forall>x \<in> set es. sub_id x \<noteq> i" by (auto simp: image_iff)
    then have "filter (\<lambda>x. sub_id x \<noteq> i) es = es" by (rule filter_True)
    with True show ?thesis by simp
  next
    case False
    with Cons show ?thesis by simp
  qed
qed simp

lemma subs_ok_on: "subs_ok s \<Longrightarrow> subs_ok (snd (on p h s))"
  by (auto simp: subs_ok_def on_def less_Suc_eq)

lemma subs_ok_unsubscribe: "subs_ok s \<Longrightarrow> subs_ok (unsubscribe i s)"
  by (auto simp: subs_ok_def unsubscribe_def splice_sub_filter distinct_map_filter)

lemma dispatchLocal_on:
  "dispatchLocal e v (snd (on p h s)) =
     dispatchLocal e v s @ (if eventMatches p e then [(h, e, v)] else [])"
  by (simp add: dispatchLocal_def on_def)

text \<open>
  A subscription taken and then dropped leaves deliveries as they were, whatever else was
  registered in between.
\<close>

lemma unsubscribe_on:
  assumes ok: "subs_ok s"
  shows "subs (unsubscribe (fst (on p h s)) (snd (on p h s))) = subs s"
proof -
  have "\<And>e. e \<in> set (subs s) \<Longrightarrow> sub_id e \<noteq> next_sub s" using ok by (auto simp: subs_ok_def)
  moreover have "subs_ok (snd (on p h s))" using ok by (rule subs_ok_on)
  ultimately show ?thesis
    by (simp add: unsubscribe_def on_def splice_sub_filter subs_ok_def filter_id_conv)
qed

text \<open>
  The wildcard matcher of the TypeScript layer decides the segment specification \<open>glob\<close>
  (\<open>*\<close> is one dot-segment, a trailing \<open>**\<close> is any remainder), and the Rust engine's matcher
  is the same function: local subscribers and durable triggers agree on every pattern and event.
\<close>

theorem eventMatches_spec:
  "(eventMatches pattern name \<longleftrightarrow>
      glob (split_on CHR ''.'' pattern) (split_on CHR ''.'' name)) \<and>
   event_matches pattern name = eventMatches pattern name"
  using eventMatches_glob eventMatches_rust by simp

text \<open>
  Subscribing and then calling the returned unsubscribe function restores exactly the
  subscriber list there was before, and while the subscription lives its handler runs, last in
  order, on precisely the events its pattern matches.
\<close>

theorem subscription_lifecycle:
  assumes "subs_ok s" and "on p h s = (i, s')"
  shows "subs_ok s' \<and> subs (unsubscribe i s') = subs s \<and>
    dispatchLocal e v s' = dispatchLocal e v s @ (if eventMatches p e then [(h, e, v)] else [])"
  using assms unsubscribe_on [OF assms(1), of p h] subs_ok_on [OF assms(1), of p h]
    dispatchLocal_on [of e v p h s] by simp

theorem subscription_lifecycle_witness:
  "subs (unsubscribe 0 (snd (on ''user.*'' (1::nat) \<lparr>subs = [], next_sub = 0\<rparr>))) = [] \<and>
   dispatchLocal ''user.x'' ''p'' (snd (on ''user.*'' (1::nat) \<lparr>subs = [], next_sub = 0\<rparr>)) =
     [(1, ''user.x'', ''p'')]"
proof -
  let ?s = "\<lparr>subs = [], next_sub = 0\<rparr> :: nat subscribers"
  have ok: "subs_ok ?s" by (simp add: subs_ok_def)
  have o: "on ''user.*'' 1 ?s = (0, snd (on ''user.*'' 1 ?s))" by (simp add: on_def)
  have m: "eventMatches ''user.*'' ''user.x''" by code_simp
  show ?thesis
    using subscription_lifecycle [OF ok o, of "''user.x''" "''p''"] m
    by (simp add: dispatchLocal_def)
qed

end
