(* ===== verification/Run_Store.thy ===== *)
theory Run_Store
  imports Attempt Jobs Events "HOL-Library.Char_ord" "HOL-Library.List_Lexorder"
begin

text \<open>
  The tables of workflow runs, step journals and events (\<open>crates/zenzip-core/src/sqlite.rs\<close>) with the
  statements the workflow engine runs on them. One connection is behind a mutex, so a statement, or a
  transaction, is a function on the store. Ids of new runs come from \<open>uid\<close>, applied to a counter; the
  clock is part of the store; payloads are stored as given (encryption at rest is transparent).
\<close>

section \<open>Rows\<close>

record wf_run =
  wr_id :: string
  wr_workflow :: string
  wr_status :: run_status
  wr_input :: string
  wr_output :: "string option"
  wr_error :: "string option"
  wr_version :: "string option"
  wr_idem :: "string option"
  wr_parent_run :: "string option"
  wr_parent_step :: "string option"
  wr_subject :: "string option"
  wr_wait_event :: "string option"
  wr_wait_step :: "string option"
  wr_wait_match :: "string option"
  wr_wake_at :: "int option"
  wr_updated :: int

record step_row =
  sr_done :: bool
  sr_kind :: string
  sr_result :: "string option"
  sr_error :: "string option"
  sr_attempts :: nat

record wf_store =
  ws_runs :: "wf_run list"
  ws_steps :: "((string \<times> string), step_row) jsmap"
  ws_jobs :: jobs_db
  ws_events :: "(string \<times> string \<times> int) list"
  ws_next :: nat
  ws_now :: int

definition empty_store :: wf_store where
  "empty_store = \<lparr>ws_runs = [], ws_steps = [], ws_jobs = empty_db, ws_events = [], ws_next = 0, ws_now = 0\<rparr>"

record new_run =
  nr_workflow :: string
  nr_input :: string
  nr_version :: "string option"
  nr_idem :: "string option"
  nr_parent_run :: "string option"
  nr_parent_step :: "string option"
  nr_subject :: "string option"

section \<open>Statements on runs\<close>

definition update_runs :: "(wf_run \<Rightarrow> bool) \<Rightarrow> (wf_run \<Rightarrow> wf_run) \<Rightarrow> wf_store \<Rightarrow> wf_store" where
  "update_runs P f s = s\<lparr>ws_runs := map (\<lambda>r. if P r then (f r)\<lparr>wr_updated := ws_now s\<rparr> else r) (ws_runs s)\<rparr>"

lemma update_runs_simps [simp]:
  "ws_runs (update_runs P f s) = map (\<lambda>r. if P r then (f r)\<lparr>wr_updated := ws_now s\<rparr> else r) (ws_runs s)"
  "ws_steps (update_runs P f s) = ws_steps s" "ws_jobs (update_runs P f s) = ws_jobs s" "ws_events (update_runs P f s) = ws_events s"
  "ws_next (update_runs P f s) = ws_next s" "ws_now (update_runs P f s) = ws_now s"
  by (simp_all add: update_runs_def)

definition get_run :: "string \<Rightarrow> wf_store \<Rightarrow> wf_run option" where
  "get_run i s = List.find (\<lambda>r. wr_id r = i) (ws_runs s)"

definition keyed_run :: "string \<Rightarrow> string \<Rightarrow> wf_store \<Rightarrow> wf_run option" where
  "keyed_run w key s = List.find (\<lambda>r. wr_workflow r = w \<and> wr_idem r = Some key) (ws_runs s)"

definition run_of :: "string \<Rightarrow> int \<Rightarrow> new_run \<Rightarrow> wf_run" where
  "run_of i now n =
     \<lparr>wr_id = i, wr_workflow = nr_workflow n, wr_status = Running, wr_input = nr_input n, wr_output = None, wr_error = None,
      wr_version = nr_version n, wr_idem = nr_idem n, wr_parent_run = nr_parent_run n, wr_parent_step = nr_parent_step n,
      wr_subject = nr_subject n, wr_wait_event = None, wr_wait_step = None, wr_wait_match = None, wr_wake_at = None, wr_updated = now\<rparr>"

text \<open>
  With an idempotency key the existing run of the workflow is returned. The insert cannot lose a race here:
  the select and the insert run under the same lock.
\<close>

definition create_run :: "(nat \<Rightarrow> string) \<Rightarrow> new_run \<Rightarrow> wf_store \<Rightarrow> (string \<times> bool) \<times> wf_store" where
  "create_run uid n s =
     (case (case nr_idem n of None \<Rightarrow> None | Some key \<Rightarrow> keyed_run (nr_workflow n) key s) of
        Some r \<Rightarrow> ((wr_id r, False), s)
      | None \<Rightarrow>
          (let i = uid (ws_next s) in
           ((i, True), s\<lparr>ws_runs := ws_runs s @ [run_of i (ws_now s) n], ws_next := ws_next s + 1\<rparr>)))"

definition run_completed :: "string \<Rightarrow> string option \<Rightarrow> wf_store \<Rightarrow> wf_store" where
  "run_completed i output = update_runs (\<lambda>r. wr_id r = i)
     (\<lambda>r. r\<lparr>wr_status := Completed, wr_output := output, wr_wait_event := None, wr_wait_step := None, wr_wake_at := None\<rparr>)"

definition run_failed :: "string \<Rightarrow> string \<Rightarrow> wf_store \<Rightarrow> wf_store" where
  "run_failed i err = update_runs (\<lambda>r. wr_id r = i)
     (\<lambda>r. r\<lparr>wr_status := Failed, wr_error := Some err, wr_wait_event := None, wr_wait_step := None, wr_wake_at := None\<rparr>)"

definition run_sleeping :: "string \<Rightarrow> int \<Rightarrow> wf_store \<Rightarrow> wf_store" where
  "run_sleeping i t = update_runs (\<lambda>r. wr_id r = i) (\<lambda>r. r\<lparr>wr_status := Sleeping, wr_wake_at := Some t\<rparr>)"

definition run_waiting_event :: "string \<Rightarrow> string \<Rightarrow> string \<Rightarrow> int option \<Rightarrow> string option \<Rightarrow> wf_store \<Rightarrow> wf_store" where
  "run_waiting_event i event sid timeout_at match_json = update_runs (\<lambda>r. wr_id r = i)
     (\<lambda>r. r\<lparr>wr_status := WaitingEvent, wr_wait_event := Some event, wr_wait_step := Some sid, wr_wake_at := timeout_at,
           wr_wait_match := match_json\<rparr>)"

definition run_waiting_child :: "string \<Rightarrow> wf_store \<Rightarrow> wf_store" where
  "run_waiting_child i = update_runs (\<lambda>r. wr_id r = i) (\<lambda>r. r\<lparr>wr_status := WaitingChild\<rparr>)"

definition wake_parent :: "string \<Rightarrow> wf_store \<Rightarrow> bool \<times> wf_store" where
  "wake_parent i s =
     (list_ex (\<lambda>r. wr_id r = i \<and> wr_status r = WaitingChild) (ws_runs s),
      update_runs (\<lambda>r. wr_id r = i \<and> wr_status r = WaitingChild) (\<lambda>r. r\<lparr>wr_status := Running\<rparr>) s)"

text \<open>Cancelling a tree: the frontier is a stack; a run already terminal stops the descent below it.\<close>

definition cancel_one :: "string \<Rightarrow> wf_store \<Rightarrow> bool \<times> wf_store" where
  "cancel_one i s =
     (list_ex (\<lambda>r. wr_id r = i \<and> \<not> terminal (wr_status r)) (ws_runs s),
      update_runs (\<lambda>r. wr_id r = i \<and> \<not> terminal (wr_status r))
        (\<lambda>r. r\<lparr>wr_status := Cancelled, wr_wait_event := None, wr_wait_step := None, wr_wake_at := None\<rparr>) s)"

definition children :: "string \<Rightarrow> wf_store \<Rightarrow> string list" where
  "children i s = map wr_id (filter (\<lambda>r. wr_parent_run r = Some i) (ws_runs s))"

definition live_count :: "wf_store \<Rightarrow> nat" where
  "live_count s = length (filter (\<lambda>r. \<not> terminal (wr_status r)) (ws_runs s))"

lemma filter_shrinks: "list_ex P xs \<Longrightarrow> (\<And>x. P x \<Longrightarrow> Q x \<and> \<not> Q (f x)) \<Longrightarrow>
    length (filter Q (map (\<lambda>x. if P x then f x else x) xs)) < length (filter Q xs)"
proof (induction xs)
  case (Cons x xs)
  have le: "length (filter Q (map (\<lambda>x. if P x then f x else x) ys)) \<le> length (filter Q ys)" for ys
    by (induction ys) (use Cons.prems(2) in auto)
  show ?case
  proof (cases "P x")
    case True
    then show ?thesis using Cons.prems(2) [OF True] le [of xs] by simp
  next
    case False
    with Cons.prems have "list_ex P xs" by simp
    from Cons.IH [OF this Cons.prems(2)] False show ?thesis by simp
  qed
qed simp

lemma cancel_one_live: "fst (cancel_one i s) \<Longrightarrow> live_count (snd (cancel_one i s)) < live_count s"
proof -
  assume "fst (cancel_one i s)"
  then have ex: "list_ex (\<lambda>r. wr_id r = i \<and> \<not> terminal (wr_status r)) (ws_runs s)" by (simp add: cancel_one_def)
  show ?thesis
    unfolding cancel_one_def live_count_def snd_conv update_runs_simps
    by (rule filter_shrinks [OF ex]) (simp add: terminal_iff)
qed

function cancel_tree :: "string list \<Rightarrow> wf_store \<Rightarrow> nat \<times> wf_store" where
  "cancel_tree [] s = (0, s)"
| "cancel_tree (i # frontier) s =
     (if fst (cancel_one i s)
      then (case cancel_tree (rev (children i (snd (cancel_one i s))) @ frontier) (snd (cancel_one i s)) of (n, t) \<Rightarrow> (n + 1, t))
      else cancel_tree frontier s)"
  by pat_completeness auto

termination
  by (relation "measures [\<lambda>(f, s). live_count s, \<lambda>(f, s). length f]") (auto simp: cancel_one_live)

definition cancel_run_tree :: "string \<Rightarrow> wf_store \<Rightarrow> nat \<times> wf_store" where
  "cancel_run_tree root_run s = cancel_tree [root_run] s"

section \<open>Statements on steps\<close>

text \<open>A step already recorded is never overwritten.\<close>

definition record_step :: "string \<Rightarrow> string \<Rightarrow> string \<Rightarrow> string option \<Rightarrow> wf_store \<Rightarrow> wf_store" where
  "record_step i sid kind result s =
     (case map_get (ws_steps s) (i, sid) of
        None \<Rightarrow> s\<lparr>ws_steps := map_set (i, sid)
            \<lparr>sr_done = True, sr_kind = kind, sr_result = result, sr_error = None, sr_attempts = 0\<rparr> (ws_steps s)\<rparr>
      | Some r \<Rightarrow>
          if sr_done r then s
          else s\<lparr>ws_steps := map_set (i, sid) (r\<lparr>sr_done := True, sr_kind := kind, sr_result := result\<rparr>) (ws_steps s)\<rparr>)"

definition step_failed_attempt :: "string \<Rightarrow> string \<Rightarrow> string \<Rightarrow> wf_store \<Rightarrow> nat \<times> wf_store" where
  "step_failed_attempt i sid err s =
     (let row = (case map_get (ws_steps s) (i, sid) of
                   None \<Rightarrow> \<lparr>sr_done = False, sr_kind = ''run'', sr_result = None, sr_error = Some err, sr_attempts = 1\<rparr>
                 | Some r \<Rightarrow> r\<lparr>sr_error := Some err, sr_attempts := sr_attempts r + 1\<rparr>)
      in (sr_attempts row, s\<lparr>ws_steps := map_set (i, sid) row (ws_steps s)\<rparr>))"

definition load_journal :: "string \<Rightarrow> wf_store \<Rightarrow> (string \<times> journal_entry) list" where
  "load_journal i s =
     map (\<lambda>((_, sid), r). (sid, \<lparr>je_kind = sr_kind r, je_result = sr_result r\<rparr>))
       (filter (\<lambda>((j, _), r). j = i \<and> sr_done r) (ws_steps s))"

section \<open>Execution jobs\<close>

definition workflow_queue_name :: "string \<Rightarrow> string" where
  "workflow_queue_name name = ''zenzip.workflow.'' @ name"

definition workflow_execution_job :: "string \<Rightarrow> string \<Rightarrow> int \<Rightarrow> push_job" where
  "workflow_execution_job workflow i delay =
     \<lparr>pj_queue = workflow_queue_name workflow,
      pj_payload = ''{'' @ [DQ] @ ''runId'' @ [DQ] @ '':'' @ [DQ] @ i @ [DQ] @ ''}'',
      pj_priority = 0, pj_delay = delay, pj_max = 3, pj_key = None, pj_debounce = None, pj_throttle = None\<rparr>"

definition push_execution :: "string \<Rightarrow> string \<Rightarrow> int \<Rightarrow> wf_store \<Rightarrow> wf_store" where
  "push_execution workflow i delay s =
     s\<lparr>ws_jobs := snd (insert_job_row (ws_now s) (workflow_execution_job workflow i delay) (ws_jobs s))\<rparr>"

section \<open>Events\<close>

text \<open>
  A JSON text as \<open>serde_json\<close> holds it: objects have their keys sorted, so equality of values does not
  depend on the order in which the text has them.
\<close>

fun serde_value :: "jsval \<Rightarrow> jsval" where
  "serde_value (JArr vs) = JArr (map serde_value vs)"
| "serde_value (JObj kvs) = JObj (sort_key fst (map (\<lambda>(k, v). (k, serde_value v)) kvs))"
| "serde_value v = v"

definition from_str :: "string \<Rightarrow> jsval option" where
  "from_str raw = map_option serde_value (JSON_parse raw)"

definition match_subset :: "string option \<Rightarrow> jsval \<Rightarrow> bool" where
  "match_subset match_json payload =
     (case match_json of
        None \<Rightarrow> True
      | Some raw \<Rightarrow>
          (case from_str raw of
             Some (JObj kvs) \<Rightarrow> list_all (\<lambda>(k, v). (case payload of JObj ps \<Rightarrow> map_get ps k | _ \<Rightarrow> None) = Some v) kvs
           | _ \<Rightarrow> True))"

record trigger_target =
  tt_workflow :: string
  tt_version :: "string option"

definition payload_value :: "string \<Rightarrow> jsval" where
  "payload_value payload = (case from_str payload of Some v \<Rightarrow> v | None \<Rightarrow> JNull)"

definition event_step_result :: "string \<Rightarrow> string" where
  "event_step_result payload = ''{'' @ [DQ] @ ''event'' @ [DQ] @ '':'' @ payload @ ''}''"

definition trigger_input :: "int \<Rightarrow> string \<Rightarrow> string \<Rightarrow> string" where
  "trigger_input now name payload =
     json_text (JObj [(''emittedAt'', JNum now), (''event'', JStr name), (''payload'', payload_value payload)])"

definition wake_waiter :: "string \<Rightarrow> wf_run \<Rightarrow> wf_store \<Rightarrow> wf_store" where
  "wake_waiter payload r s =
     push_execution (wr_workflow r) (wr_id r) 0
       (record_step (wr_id r) (case wr_wait_step r of Some sid \<Rightarrow> sid | None \<Rightarrow> []) ''waitForEvent'' (Some (event_step_result payload))
         (update_runs (\<lambda>q. wr_id q = wr_id r)
            (\<lambda>q. q\<lparr>wr_status := Running, wr_wait_event := None, wr_wait_step := None, wr_wait_match := None, wr_wake_at := None\<rparr>) s))"

definition trigger_one :: "(nat \<Rightarrow> string) \<Rightarrow> string \<Rightarrow> trigger_target \<Rightarrow> wf_store \<Rightarrow> wf_store" where
  "trigger_one uid input t s =
     (case create_run uid \<lparr>nr_workflow = tt_workflow t, nr_input = input, nr_version = tt_version t, nr_idem = None,
          nr_parent_run = None, nr_parent_step = None, nr_subject = None\<rparr> s of
        ((i, created), s') \<Rightarrow> if created then push_execution (tt_workflow t) i 0 s' else s')"

definition event_waiters :: "string \<Rightarrow> string \<Rightarrow> wf_store \<Rightarrow> wf_run list" where
  "event_waiters name payload s =
     filter (\<lambda>r. match_subset (wr_wait_match r) (payload_value payload))
       (filter (\<lambda>r. wr_status r = WaitingEvent \<and> wr_wait_event r = Some name) (ws_runs s))"

definition emit_in_tx :: "(nat \<Rightarrow> string) \<Rightarrow> string \<Rightarrow> string \<Rightarrow> trigger_target list \<Rightarrow> wf_store \<Rightarrow> (nat \<times> nat) \<times> wf_store" where
  "emit_in_tx uid name payload targets s =
     (let s1 = s\<lparr>ws_events := ws_events s @ [(name, payload, ws_now s)]\<rparr>;
          ws = event_waiters name payload s1;
          s2 = fold (wake_waiter payload) ws s1;
          s3 = fold (trigger_one uid (trigger_input (ws_now s) name payload)) targets s2
      in ((length ws, length targets), s3))"

definition timed_out :: "int \<Rightarrow> wf_run \<Rightarrow> bool" where
  "timed_out now r \<longleftrightarrow> wr_status r = WaitingEvent \<and> (case wr_wake_at r of Some t \<Rightarrow> t \<le> now | None \<Rightarrow> False)"

definition sweep_event_timeouts :: "int \<Rightarrow> wf_store \<Rightarrow> wf_run list \<times> wf_store" where
  "sweep_event_timeouts now s =
     (filter (timed_out now) (ws_runs s),
      update_runs (timed_out now)
        (\<lambda>r. r\<lparr>wr_status := Running, wr_wait_event := None, wr_wait_match := None, wr_wake_at := None\<rparr>) s)"

section \<open>Retention and erasure\<close>

definition aged :: "int \<Rightarrow> wf_run \<Rightarrow> bool" where
  "aged before r \<longleftrightarrow> terminal (wr_status r) \<and> wr_updated r < before"

definition drop_runs :: "(wf_run \<Rightarrow> bool) \<Rightarrow> wf_store \<Rightarrow> nat \<times> wf_store" where
  "drop_runs P s =
     (length (filter P (ws_runs s)),
      s\<lparr>ws_steps := filter (\<lambda>((i, _), _). \<not> list_ex (\<lambda>r. P r \<and> wr_id r = i) (ws_runs s)) (ws_steps s),
        ws_runs := filter (\<lambda>r. \<not> P r) (ws_runs s)\<rparr>)"

definition gc :: "int option \<Rightarrow> int option \<Rightarrow> wf_store \<Rightarrow> wf_store" where
  "gc run_before event_before s =
     (let s1 = (case run_before of None \<Rightarrow> s | Some b \<Rightarrow> snd (drop_runs (aged b) s))
      in case event_before of None \<Rightarrow> s1 | Some b \<Rightarrow> s1\<lparr>ws_events := filter (\<lambda>(_, _, t). \<not> t < b) (ws_events s1)\<rparr>)"

definition purge_subject :: "string \<Rightarrow> wf_store \<Rightarrow> nat \<times> wf_store" where
  "purge_subject subject = drop_runs (\<lambda>r. wr_subject r = Some subject)"

end
