(* ===== verification/Machine.thy ===== *)
theory Machine
  imports Workflow Run_Store
begin

text \<open>
  Persisted state machines: the handle (\<open>packages/zenzip/src/machine.ts\<close>), the engine's operations
  (\<open>crates/zenzip-core/src/runtime.rs\<close>) and the two statements of the store they rest on
  (\<open>sqlite.rs\<close>). A transition is read, checked against the definition and committed with a
  compare-and-set, together with its event: the waiting runs it wakes, the runs it triggers. Other clients may
  commit between the read and the write. Shown: the history of every instance is a path of its definition from
  the initial state to the current one, each entry with its event in the outbox, whatever the interleaving.
\<close>

section \<open>Definitions and store\<close>

text \<open>
  The transitions of a definition as \<open>app.start\<close> lists them and the binding collects them: a later entry
  for the same state and event replaces an earlier one.
\<close>

record machine_def =
  md_name :: string
  md_initial :: string
  md_transitions :: "((string \<times> string), string) jsmap"

record machine_spec =
  ms_initial :: string
  ms_states :: "(string, (string, string) jsmap) jsmap"

definition transition_list :: "machine_spec \<Rightarrow> (string \<times> string \<times> string) list" where
  "transition_list d = concat (map (\<lambda>(from, on). map (\<lambda>(event, to). (from, event, to)) on) (ms_states d))"

definition collect_transitions :: "(string \<times> string \<times> string) list \<Rightarrow> ((string \<times> string), string) jsmap" where
  "collect_transitions ts = fold (\<lambda>(from, event, to). map_set (from, event) to) ts []"

definition machine_options :: "string \<Rightarrow> machine_spec \<Rightarrow> machine_def" where
  "machine_options name d =
     \<lparr>md_name = name, md_initial = ms_initial d, md_transitions = collect_transitions (transition_list d)\<rparr>"

record machine_row =
  mh_machine :: string
  mh_id :: string
  mh_from :: string
  mh_event :: string
  mh_to :: string
  mh_at :: int

text \<open>The tables: instances, their history, and the rest of the store, where the events are.\<close>

record machine_db =
  mi_states :: "((string \<times> string), string) jsmap"
  mi_history :: "machine_row list"
  mi_store :: wf_store

definition empty_machines :: machine_db where
  "empty_machines = \<lparr>mi_states = [], mi_history = [], mi_store = empty_store\<rparr>"

definition machine_create_blocking :: "string \<Rightarrow> string \<Rightarrow> string \<Rightarrow> machine_db \<Rightarrow> bool \<times> machine_db" where
  "machine_create_blocking machine i initial db =
     (if map_has (mi_states db) (machine, i) then (False, db)
      else (True, db\<lparr>mi_states := map_set (machine, i) initial (mi_states db)\<rparr>))"

definition machine_state_blocking :: "string \<Rightarrow> string \<Rightarrow> machine_db \<Rightarrow> string option" where
  "machine_state_blocking machine i db = map_get (mi_states db) (machine, i)"

definition event_name :: "string \<Rightarrow> string \<Rightarrow> string" where
  "event_name machine to = machine @ ''.'' @ to"

text \<open>The payload of the transition's event; the keys of a \<open>serde_json\<close> object are sorted.\<close>

definition event_payload :: "string \<Rightarrow> string \<Rightarrow> string \<Rightarrow> string \<Rightarrow> string \<Rightarrow> string" where
  "event_payload machine i from event to =
     json_text (JObj [(''event'', JStr event), (''from'', JStr from), (''id'', JStr i), (''machine'', JStr machine), (''to'', JStr to)])"

text \<open>One transaction: the instance moves, the history gets its row, and the event is emitted.\<close>

definition machine_send_blocking ::
  "(nat \<Rightarrow> string) \<Rightarrow> trigger_target list \<Rightarrow> string \<Rightarrow> string \<Rightarrow> string \<Rightarrow> string \<Rightarrow> string \<Rightarrow> machine_db \<Rightarrow> bool \<times> machine_db" where
  "machine_send_blocking uid targets machine i from event to db =
     (if map_get (mi_states db) (machine, i) \<noteq> Some from then (False, db)
      else (True,
        \<lparr>mi_states = map_set (machine, i) to (mi_states db),
         mi_history = mi_history db @
           [\<lparr>mh_machine = machine, mh_id = i, mh_from = from, mh_event = event, mh_to = to, mh_at = ws_now (mi_store db)\<rparr>],
         mi_store = snd (emit_in_tx uid (event_name machine to) (event_payload machine i from event to) targets (mi_store db))\<rparr>))"

text \<open>Newest first; rows of the same millisecond in reverse order of insertion.\<close>

definition machine_history_blocking :: "string \<Rightarrow> string \<Rightarrow> nat \<Rightarrow> machine_db \<Rightarrow> machine_row list" where
  "machine_history_blocking machine i limit db =
     take limit (rev (sort_key mh_at (filter (\<lambda>r. mh_machine r = machine \<and> mh_id r = i) (mi_history db))))"

section \<open>The engine\<close>

record machine_rt =
  rt_machines :: "(string, machine_def) jsmap"
  rt_store :: machine_db

definition register_machine :: "machine_def \<Rightarrow> machine_rt \<Rightarrow> (string, machine_rt) res" where
  "register_machine d rt =
     (if map_has (rt_machines rt) (md_name d) then Throw (''machine '' @ SQ @ md_name d @ SQ @ '' already registered'')
      else if md_initial d = [] then Throw (''machine '' @ SQ @ md_name d @ SQ @ '': initial state required'')
      else Ok (rt\<lparr>rt_machines := map_set (md_name d) d (rt_machines rt)\<rparr>))"

definition unknown_machine :: "string \<Rightarrow> string" where
  "unknown_machine machine = ''unknown machine '' @ SQ @ machine @ SQ"

definition machine_create :: "string \<Rightarrow> string \<Rightarrow> machine_rt \<Rightarrow> (string, bool) res \<times> machine_rt" where
  "machine_create machine i rt =
     (case map_get (rt_machines rt) machine of
        None \<Rightarrow> (Throw (unknown_machine machine), rt)
      | Some d \<Rightarrow>
          (case machine_create_blocking machine i (md_initial d) (rt_store rt) of
             (b, db) \<Rightarrow> (Ok b, rt\<lparr>rt_store := db\<rparr>)))"

definition invalid_transition :: "string \<Rightarrow> string \<Rightarrow> string \<Rightarrow> string \<Rightarrow> string" where
  "invalid_transition machine i event current =
     ''invalid transition: machine '' @ SQ @ machine @ SQ @ '' instance '' @ SQ @ i @ SQ @
     '' cannot handle '' @ SQ @ event @ SQ @ '' in state '' @ SQ @ current @ SQ"

text \<open>
  The optimistic loop. \<open>other n\<close> is what the other clients commit between the read and the write of
  the try with \<open>n\<close> more to come; \<open>subscribed\<close> are the workflows an event triggers, as the engine knows them;
  the message of the last line has a dash for the source's long one.
\<close>

primrec send_tries ::
  "nat \<Rightarrow> (nat \<Rightarrow> machine_db \<Rightarrow> machine_db) \<Rightarrow> (nat \<Rightarrow> string) \<Rightarrow> (string \<Rightarrow> trigger_target list) \<Rightarrow> machine_def \<Rightarrow> string \<Rightarrow> string \<Rightarrow> machine_db
     \<Rightarrow> (string, string \<times> string) res \<times> machine_db" where
  "send_tries 0 other uid subscribed d i event db =
     (Throw (''concurrent transitions on machine '' @ SQ @ md_name d @ SQ @ '' instance '' @ SQ @ i @ SQ @ '' - retry''), db)"
| "send_tries (Suc n) other uid subscribed d i event db =
     (case machine_state_blocking (md_name d) i db of
        None \<Rightarrow> (Throw (''unknown instance '' @ SQ @ i @ SQ @ '' of machine '' @ SQ @ md_name d @ SQ), db)
      | Some current \<Rightarrow>
          (case map_get (md_transitions d) (current, event) of
             None \<Rightarrow> (Throw (invalid_transition (md_name d) i event current), db)
           | Some to \<Rightarrow>
               (case machine_send_blocking uid (subscribed (event_name (md_name d) to)) (md_name d) i current event to (other n db) of
                  (True, db') \<Rightarrow> (Ok (current, to), db')
                | (False, db') \<Rightarrow> send_tries n other uid subscribed d i event db')))"

definition machine_send ::
  "(nat \<Rightarrow> machine_db \<Rightarrow> machine_db) \<Rightarrow> (nat \<Rightarrow> string) \<Rightarrow> (string \<Rightarrow> trigger_target list) \<Rightarrow> string \<Rightarrow> string \<Rightarrow> string \<Rightarrow> machine_rt
     \<Rightarrow> (string, string \<times> string) res \<times> machine_rt" where
  "machine_send other uid subscribed machine i event rt =
     (case map_get (rt_machines rt) machine of
        None \<Rightarrow> (Throw (unknown_machine machine), rt)
      | Some d \<Rightarrow>
          (case send_tries 3 other uid subscribed d i event (rt_store rt) of
             (r, db) \<Rightarrow> (r, rt\<lparr>rt_store := db\<rparr>)))"

text \<open>The binding writes the two names between quotes as they are.\<close>

definition transition_text :: "string \<Rightarrow> string \<Rightarrow> string" where
  "transition_text from to =
     ''{'' @ [DQ] @ ''from'' @ [DQ] @ '':'' @ [DQ] @ from @ [DQ] @ '','' @ [DQ] @ ''to'' @ [DQ] @ '':'' @ [DQ] @ to @ [DQ] @ ''}''"

section \<open>The handle\<close>

text \<open>Reading a property of a value that is known to be an object.\<close>

definition read_field :: "jsval \<Rightarrow> string \<Rightarrow> jsval" where
  "read_field v k = (case get_prop v k of None \<Rightarrow> JUndef | Some x \<Rightarrow> x)"

text \<open>
  The application as the handle sees it: the engine once started, the local subscribers, and the handler
  calls started so far.
\<close>

record 'h machine_app =
  ma_native :: "machine_rt option"
  ma_subs :: "'h subscribers"
  ma_delivered :: "('h \<times> string \<times> jsval) list"

definition not_started :: exn where
  "not_started = Error ''app not started - call await app.start() first''"

definition create_instance :: "string \<Rightarrow> string \<Rightarrow> 'h machine_app \<Rightarrow> (exn, bool) res \<times> 'h machine_app" where
  "create_instance name i a =
     (case ma_native a of
        None \<Rightarrow> (Throw not_started, a)
      | Some rt \<Rightarrow>
          (case machine_create name i rt of
             (Inl e, rt') \<Rightarrow> (Throw (Error e), a\<lparr>ma_native := Some rt'\<rparr>)
           | (Inr b, rt') \<Rightarrow> (Ok b, a\<lparr>ma_native := Some rt'\<rparr>)))"

definition local_payload :: "string \<Rightarrow> string \<Rightarrow> string \<Rightarrow> jsval \<Rightarrow> jsval" where
  "local_payload name i event result =
     JObj [(''machine'', JStr name), (''id'', JStr i), (''from'', read_field result ''from''), (''event'', JStr event),
           (''to'', read_field result ''to'')]"

definition send_event ::
  "(nat \<Rightarrow> machine_db \<Rightarrow> machine_db) \<Rightarrow> (nat \<Rightarrow> string) \<Rightarrow> (string \<Rightarrow> trigger_target list) \<Rightarrow> string \<Rightarrow> string \<Rightarrow> string \<Rightarrow> 'h machine_app
     \<Rightarrow> (exn, jsval) res \<times> 'h machine_app" where
  "send_event other uid subscribed name i event a =
     (case ma_native a of
        None \<Rightarrow> (Throw not_started, a)
      | Some rt \<Rightarrow>
          (case machine_send other uid subscribed name i event rt of
             (Inl e, rt') \<Rightarrow> (Throw (Error e), a\<lparr>ma_native := Some rt'\<rparr>)
           | (Inr (from, to), rt') \<Rightarrow>
               (let a' = a\<lparr>ma_native := Some rt'\<rparr> in
                case parse_exn (transition_text from to) of
                  Inl e \<Rightarrow> (Throw e, a')
                | Inr result \<Rightarrow>
                    (Ok result,
                     a'\<lparr>ma_delivered := ma_delivered a' @
                       dispatchLocal (name @ ''.'' @ js_String (read_field result ''to'')) (local_payload name i event result) (ma_subs a')\<rparr>))))"

definition machine_state :: "string \<Rightarrow> string \<Rightarrow> 'h machine_app \<Rightarrow> (exn, string option) res" where
  "machine_state name i a =
     (case ma_native a of None \<Rightarrow> Throw not_started | Some rt \<Rightarrow> Ok (machine_state_blocking name i (rt_store rt)))"

definition row_value :: "machine_row \<Rightarrow> jsval" where
  "row_value r = JObj [(''fromState'', JStr (mh_from r)), (''event'', JStr (mh_event r)), (''toState'', JStr (mh_to r)), (''at'', JNum (mh_at r))]"

definition machine_history :: "string \<Rightarrow> string \<Rightarrow> nat option \<Rightarrow> 'h machine_app \<Rightarrow> (exn, jsval) res" where
  "machine_history name i limit a =
     (case ma_native a of
        None \<Rightarrow> Throw not_started
      | Some rt \<Rightarrow>
          parse_exn (json_text (JArr (map row_value
            (machine_history_blocking name i (case limit of None \<Rightarrow> 100 | Some n \<Rightarrow> n) (rt_store rt))))))"

section \<open>Interleaved clients\<close>

text \<open>
  What any client may commit at any moment: an instance, or a transition of a registered machine, from
  whatever state the client has read, however long ago. The engine may do anything else with its runs, steps
  and jobs, and time passes; no other event is emitted and none is collected.
\<close>

inductive machine_step :: "(string, machine_def) jsmap \<Rightarrow> machine_db \<Rightarrow> machine_db \<Rightarrow> bool" for machines where
  create: "map_get machines m = Some d \<Longrightarrow> machine_step machines db (snd (machine_create_blocking m i (md_initial d) db))"
| commit: "map_get machines m = Some d \<Longrightarrow> map_get (md_transitions d) (from, event) = Some to \<Longrightarrow>
    machine_step machines db (snd (machine_send_blocking uid targets m i from event to db))"
| work: "ws_events w = ws_events (mi_store db) \<Longrightarrow> machine_step machines db (db\<lparr>mi_store := w\<rparr>)"

abbreviation machine_steps :: "(string, machine_def) jsmap \<Rightarrow> machine_db \<Rightarrow> machine_db \<Rightarrow> bool" where
  "machine_steps machines \<equiv> (machine_step machines)\<^sup>*\<^sup>*"

fun row_path :: "machine_def \<Rightarrow> string \<Rightarrow> machine_row list \<Rightarrow> string \<Rightarrow> bool" where
  "row_path d s [] t = (s = t)"
| "row_path d s (r # rs) t =
     (mh_from r = s \<and> map_get (md_transitions d) (mh_from r, mh_event r) = Some (mh_to r) \<and> row_path d (mh_to r) rs t)"

definition rows_of :: "string \<Rightarrow> string \<Rightarrow> machine_db \<Rightarrow> machine_row list" where
  "rows_of m i db = filter (\<lambda>r. mh_machine r = m \<and> mh_id r = i) (mi_history db)"

definition row_event :: "machine_row \<Rightarrow> string \<times> string \<times> int" where
  "row_event r =
     (event_name (mh_machine r) (mh_to r), event_payload (mh_machine r) (mh_id r) (mh_from r) (mh_event r) (mh_to r), mh_at r)"

definition inst_ok :: "(string, machine_def) jsmap \<Rightarrow> string \<Rightarrow> string option \<Rightarrow> machine_row list \<Rightarrow> bool" where
  "inst_ok machines m st rows \<longleftrightarrow>
     (case st of
        None \<Rightarrow> rows = []
      | Some s \<Rightarrow> (\<exists>d. map_get machines m = Some d \<and> row_path d (md_initial d) rows s))"

definition machine_inv :: "(string, machine_def) jsmap \<Rightarrow> machine_db \<Rightarrow> bool" where
  "machine_inv machines db \<longleftrightarrow>
     ws_events (mi_store db) = map row_event (mi_history db) \<and>
     (\<forall>m i. inst_ok machines m (map_get (mi_states db) (m, i)) (rows_of m i db))"

text \<open>Emitting logs the event once; what it wakes and triggers emits nothing.\<close>

lemma emit_logs: "ws_events (snd (emit_in_tx uid name payload targets s)) = ws_events s @ [(name, payload, ws_now s)]"
proof -
  have wake: "ws_events (fold (wake_waiter payload) ws t) = ws_events t" for ws t
    by (induction ws arbitrary: t) (simp_all add: wake_waiter_def push_execution_def record_step_def split: option.split)
  have "ws_events (trigger_one uid input x t) = ws_events t" for input x t
    by (simp add: trigger_one_def create_run_def push_execution_def Let_def split: option.split prod.split)
  then have "ws_events (fold (trigger_one uid input) ts t) = ws_events t" for input ts t
    by (induction ts arbitrary: t) simp_all
  with wake show ?thesis by (simp add: emit_in_tx_def Let_def)
qed

lemma row_path_snoc:
  "row_path d s rs t \<Longrightarrow> mh_from r = t \<Longrightarrow> map_get (md_transitions d) (mh_from r, mh_event r) = Some (mh_to r) \<Longrightarrow>
   row_path d s (rs @ [r]) (mh_to r)"
  by (induction rs arbitrary: s) auto

lemma machine_inv_empty: "machine_inv machines empty_machines"
  by (simp add: machine_inv_def empty_machines_def empty_store_def rows_of_def inst_ok_def)

lemma machine_inv_step: "machine_step machines db db' \<Longrightarrow> machine_inv machines db \<Longrightarrow> machine_inv machines db'"
proof (induction rule: machine_step.induct)
  case (create m d db i)
  have "inst_ok machines m None (rows_of m i db) \<Longrightarrow> inst_ok machines m (Some (md_initial d)) (rows_of m i db)"
    using create.hyps by (simp add: inst_ok_def)
  with create.prems show ?case
    by (auto simp: machine_inv_def machine_create_blocking_def map_has_def rows_of_def jsmap_simps) (metis+)?
next
  case (commit m d "from" event to db uid targets i)
  let ?r = "\<lparr>mh_machine = m, mh_id = i, mh_from = from, mh_event = event, mh_to = to, mh_at = ws_now (mi_store db)\<rparr>"
  show ?case
  proof (cases "map_get (mi_states db) (m, i) = Some from")
    case False
    then show ?thesis using commit by (simp add: machine_send_blocking_def)
  next
    case True
    with commit.prems have "inst_ok machines m (Some from) (rows_of m i db)" by (metis machine_inv_def)
    with commit.hyps have "inst_ok machines m (Some to) (rows_of m i db @ [?r])"
      using row_path_snoc [of d "md_initial d" "rows_of m i db" "from" ?r] by (simp add: inst_ok_def)
    with True commit.prems show ?thesis
      by (auto simp: machine_inv_def machine_send_blocking_def rows_of_def row_event_def emit_logs jsmap_simps)
  qed
next
  case (work w db)
  then show ?case by (simp add: machine_inv_def rows_of_def)
qed

lemma machine_inv_steps: "machine_steps machines db db' \<Longrightarrow> machine_inv machines db \<Longrightarrow> machine_inv machines db'"
  by (induction rule: rtranclp_induct) (auto intro: machine_inv_step)

text \<open>
  One call of \<open>send\<close> among other clients: whatever it answers, the store moved by permitted commits
  only; when it answers with a transition, that transition was valid, left the state the instance really
  had, and was the last commit.
\<close>

lemma send_tries_steps:
  assumes reg: "map_get machines (md_name d) = Some d" and other: "\<And>n db. machine_steps machines db (other n db)"
  shows "send_tries n other uid subscribed d i event db = (r, db') \<Longrightarrow> machine_steps machines db db' \<and>
    (\<forall>from to. r = Ok (from, to) \<longrightarrow> map_get (md_transitions d) (from, event) = Some to \<and>
       (\<exists>mid. machine_steps machines db mid \<and> map_get (mi_states mid) (md_name d, i) = Some from \<and>
              (True, db') = machine_send_blocking uid (subscribed (event_name (md_name d) to)) (md_name d) i from event to mid))"
proof (induction n arbitrary: db)
  case 0
  then show ?case by auto
next
  case (Suc n)
  show ?case
  proof (cases "map_get (mi_states db) (md_name d, i)")
    case None
    with Suc.prems show ?thesis by (auto simp: machine_state_blocking_def)
  next
    case (Some current)
    show ?thesis
    proof (cases "map_get (md_transitions d) (current, event)")
      case None
      with Some Suc.prems show ?thesis by (auto simp: machine_state_blocking_def)
    next
      case (Some to)
      let ?o = "other n db"
      show ?thesis
      proof (cases "map_get (mi_states ?o) (md_name d, i) = Some current")
        case True
        have "machine_steps machines db (snd (machine_send_blocking uid (subscribed (event_name (md_name d) to)) (md_name d) i current event to ?o))"
          using other [of db n] machine_step.commit [OF reg Some] by (rule rtranclp.rtrancl_into_rtrancl)
        with True Some Suc.prems other [of db n] \<open>map_get (mi_states db) (md_name d, i) = Some current\<close> show ?thesis
          by (auto simp: machine_state_blocking_def machine_send_blocking_def)
      next
        case False
        then have "send_tries n other uid subscribed d i event ?o = (r, db')"
          using Suc.prems Some \<open>map_get (mi_states db) (md_name d, i) = Some current\<close>
          by (auto simp: machine_state_blocking_def machine_send_blocking_def)
        note ih = Suc.IH [OF this]
        have tr: "machine_steps machines ?o x \<Longrightarrow> machine_steps machines db x" for x
          using other [of db n] by (rule rtranclp_trans)
        show ?thesis
          using ih tr by (intro conjI allI impI) (simp, simp, metis)
      qed
    qed
  qed
qed

text \<open>
  C32: the history of a state machine instance is the truth. Whatever the interleaving of clients that create
  instances and send events, and of an engine that emits and collects nothing else, an instance's history rows, in
  order, form a path of its definition from the initial state to the state it is in now, and the outbox holds exactly
  one event per transition, in order and at its time.
\<close>

theorem machine_history_path:
  assumes "machine_steps machines empty_machines db" and "map_get (mi_states db) (m, i) = Some s"
  shows "(\<exists>d. map_get machines m = Some d \<and> row_path d (md_initial d) (rows_of m i db) s) \<and>
    ws_events (mi_store db) = map row_event (mi_history db)"
proof -
  have "machine_inv machines db" by (rule machine_inv_steps [OF assms(1) machine_inv_empty])
  then have "ws_events (mi_store db) = map row_event (mi_history db)" "inst_ok machines m (map_get (mi_states db) (m, i)) (rows_of m i db)"
    by (simp_all add: machine_inv_def)
  with assms(2) show ?thesis by (simp add: inst_ok_def)
qed

definition door :: machine_def where
  "door = machine_options ''door''
     \<lparr>ms_initial = ''shut'', ms_states = [(''shut'', [(''open'', ''ajar'')]), (''ajar'', [(''close'', ''shut'')])]\<rparr>"

lemma door_transitions [simp]: "md_transitions door = [((''shut'', ''open''), ''ajar''), ((''ajar'', ''close''), ''shut'')]" "md_initial door = ''shut''"
    "md_name door = ''door''"
  by (code_simp, simp_all add: door_def machine_options_def)

definition door_db :: machine_db where
  "door_db = snd (machine_send_blocking (\<lambda>_. []) [] ''door'' ''d1'' ''shut'' ''open'' ''ajar'' (snd (machine_create_blocking ''door'' ''d1'' ''shut'' empty_machines)))"

lemma door_db_reach: "machine_steps [(''door'', door)] empty_machines door_db"
proof -
  let ?ms = "[(''door'', door)]"
  have d: "map_get ?ms ''door'' = Some door" by simp
  have "machine_step ?ms empty_machines (snd (machine_create_blocking ''door'' ''d1'' (md_initial door) empty_machines))"
    by (rule machine_step.create [OF d])
  moreover have "map_get (md_transitions door) (''shut'', ''open'') = Some ''ajar''" by simp
  note machine_step.commit [OF d this, of "snd (machine_create_blocking ''door'' ''d1'' (md_initial door) empty_machines)" "\<lambda>_. []" "[]" "''d1''"]
  ultimately show ?thesis unfolding door_db_def by (simp only: door_transitions)
qed

theorem machine_history_path_witness:
  "row_path door ''shut'' (rows_of ''door'' ''d1'' door_db) ''ajar'' \<and> length (ws_events (mi_store door_db)) = 1"
proof -
  have s: "map_get (mi_states door_db) (''door'', ''d1'') = Some ''ajar''" by code_simp
  have "length (mi_history door_db) = 1" by code_simp
  with machine_history_path [OF door_db_reach s] show ?thesis by simp
qed

section \<open>The handle under a single client\<close>

text \<open>Names the binding's quotes do not disturb: every character stands for itself in a JSON string.\<close>

definition plain_state :: "string \<Rightarrow> bool" where
  "plain_state s \<longleftrightarrow> list_all (\<lambda>c. esc c = [c]) s"

lemma quote_plain: "plain_state s \<Longrightarrow> quote_str s = [DQ] @ s @ [DQ]"
  by (induction s) (auto simp: quote_str_def plain_state_def)

lemma transition_text_plain:
  assumes "plain_state from" and "plain_state to"
  shows "parse_exn (transition_text from to) = Ok (JObj [(''from'', JStr from), (''to'', JStr to)])"
proof -
  have k: "quote_str ''from'' = [DQ] @ ''from'' @ [DQ]" "quote_str ''to'' = [DQ] @ ''to'' @ [DQ]"
    by (rule quote_plain, code_simp)+
  have "transition_text from to = json_text (JObj [(''from'', JStr from), (''to'', JStr to)])"
    by (simp add: transition_text_def quote_plain [OF assms(1)] quote_plain [OF assms(2)] k)
  moreover have "json_ok (JObj [(''from'', JStr from), (''to'', JStr to)])" by simp
  ultimately show ?thesis by (simp only: parse_exn_def JSON_parse_text) simp
qed

text \<open>
  C35: sending an event, on every branch. With no other client at work and plain state names, an event the definition
  admits moves the instance to its target and adds one history row at the end; the rest of the store becomes what
  emitting \<open><machine>.<to>\<close> makes of it, with exactly that event logged at the end; the local subscribers of the event
  are started; nothing else of the application changes. An event it does not admit throws and changes nothing; so does
  an unknown instance.
\<close>

theorem send_branches:
  assumes "ma_native a = Some rt" and "map_get (rt_machines rt) name = Some d" and "md_name d = name"
    and "list_all (\<lambda>(s, to). plain_state (fst s) \<and> plain_state to) (md_transitions d)" and "rt_store rt = db"
  shows "case map_get (mi_states db) (name, i) of
       None \<Rightarrow> send_event (\<lambda>_ db. db) uid subscribed name i event a =
         (Throw (Error (''unknown instance '' @ SQ @ i @ SQ @ '' of machine '' @ SQ @ name @ SQ)), a)
     | Some from \<Rightarrow>
         (case map_get (md_transitions d) (from, event) of
            None \<Rightarrow> send_event (\<lambda>_ db. db) uid subscribed name i event a = (Throw (Error (invalid_transition name i event from)), a)
          | Some to \<Rightarrow>
              (\<exists>store.
                 store = snd (emit_in_tx uid (name @ ''.'' @ to) (event_payload name i from event to) (subscribed (name @ ''.'' @ to)) (mi_store db)) \<and>
                 ws_events store = ws_events (mi_store db) @ [(name @ ''.'' @ to, event_payload name i from event to, ws_now (mi_store db))] \<and>
                 send_event (\<lambda>_ db. db) uid subscribed name i event a =
                   (Ok (JObj [(''from'', JStr from), (''to'', JStr to)]),
                    a\<lparr>ma_native := Some (rt\<lparr>rt_store :=
                        \<lparr>mi_states = map_set (name, i) to (mi_states db),
                         mi_history = mi_history db @
                           [\<lparr>mh_machine = name, mh_id = i, mh_from = from, mh_event = event, mh_to = to, mh_at = ws_now (mi_store db)\<rparr>],
                         mi_store = store\<rparr>\<rparr>),
                      ma_delivered := ma_delivered a @
                        dispatchLocal (name @ ''.'' @ to)
                          (JObj [(''machine'', JStr name), (''id'', JStr i), (''from'', JStr from), (''event'', JStr event), (''to'', JStr to)])
                          (ma_subs a)\<rparr>)))"
proof (cases "map_get (mi_states db) (name, i)")
  case None
  then show ?thesis using assms(1-3,5)
    by (simp add: send_event_def machine_send_def numeral_3_eq_3 machine_state_blocking_def)
next
  case (Some "from")
  show ?thesis
  proof (cases "map_get (md_transitions d) (from, event)")
    case None
    with Some show ?thesis using assms(1-3,5)
      by (simp add: send_event_def machine_send_def numeral_3_eq_3 machine_state_blocking_def)
  next
    case (Some to)
    then have p: "plain_state from" "plain_state to" using assms(4) map_of_SomeD [OF Some] by (auto simp: list_all_iff)
    with Some \<open>map_get (mi_states db) (name, i) = Some from\<close> show ?thesis using assms(1-3,5)
      by (simp add: send_event_def machine_send_def numeral_3_eq_3 machine_state_blocking_def machine_send_blocking_def transition_text_plain
          read_field_def get_prop_def local_payload_def event_name_def emit_logs)
  qed
qed

definition door_app :: "nat machine_app" where
  "door_app = \<lparr>ma_native = Some \<lparr>rt_machines = [(''door'', door)], rt_store = door_db\<rparr>,
     ma_subs = \<lparr>subs = [\<lparr>sub_id = 0, sub_pattern = ''door.*'', sub_handler = 7\<rparr>], next_sub = 1\<rparr>, ma_delivered = []\<rparr>"

theorem send_branches_witness:
  "fst (send_event (\<lambda>_ db. db) (\<lambda>_. []) (\<lambda>_. []) ''door'' ''d1'' ''close'' door_app) = Ok (JObj [(''from'', JStr ''ajar''), (''to'', JStr ''shut'')]) \<and>
   fst (send_event (\<lambda>_ db. db) (\<lambda>_. []) (\<lambda>_. []) ''door'' ''d1'' ''open'' door_app) = Throw (Error (invalid_transition ''door'' ''d1'' ''open'' ''ajar''))"
proof -
  have s: "map_get (mi_states door_db) (''door'', ''d1'') = Some ''ajar''" by code_simp
  have n: "ma_native door_app = Some \<lparr>rt_machines = [(''door'', door)], rt_store = door_db\<rparr>" by (simp add: door_app_def)
  have p: "plain_state ''shut''" "plain_state ''ajar''" by code_simp+
  have q: "list_all (\<lambda>(s, to). plain_state (fst s) \<and> plain_state to) (md_transitions door)" using p by simp
  have c: "map_get (rt_machines \<lparr>rt_machines = [(''door'', door)], rt_store = door_db\<rparr>) ''door'' = Some door" by simp
  have e: "md_name door = ''door''" by simp
  have db: "rt_store \<lparr>rt_machines = [(''door'', door)], rt_store = door_db\<rparr> = door_db" by simp
  note b = send_branches [OF n c e q db, where i = "''d1''" and uid = "\<lambda>_. []" and subscribed = "\<lambda>_. []"]
  show ?thesis using b [of "''close''"] b [of "''open''"] by (auto simp: s)
qed

section \<open>Findings\<close>

text \<open>
  The binding does not escape the names it quotes. When the state reached has a double quote in its name the
  transition is committed, history and event included, and \<open>send\<close> throws a syntax error; the local
  subscribers are not called.
\<close>

definition odd_app :: "nat machine_app" where
  "odd_app = \<lparr>ma_native = Some \<lparr>rt_machines = [(''m'', \<lparr>md_name = ''m'', md_initial = ''a'', md_transitions = [((''a'', ''go''), [DQ])]\<rparr>)],
       rt_store = \<lparr>mi_states = [((''m'', ''1''), ''a'')], mi_history = [], mi_store = empty_store\<rparr>\<rparr>,
     ma_subs = \<lparr>subs = [\<lparr>sub_id = 0, sub_pattern = ''m.*'', sub_handler = 7\<rparr>], next_sub = 1\<rparr>, ma_delivered = []\<rparr>"

lemma committed_send_throws:
  "(case send_event (\<lambda>_ db. db) (\<lambda>_. []) (\<lambda>_. []) ''m'' ''1'' ''go'' odd_app of
      (r, a) \<Rightarrow> r = Throw (Error ''SyntaxError'') \<and> machine_state ''m'' ''1'' a = Ok (Some [DQ]) \<and> ma_delivered a = [])"
  by code_simp

end
