(* ===== verification/Programs.thy ===== *)
theory Programs
  imports Prelude
begin

text \<open>
  Programs of store transactions. The engine's operations are asynchronous functions that call the store
  several times; each call is one statement or one transaction of the database. Such an operation is a
  program here, so that it can be run to its end, cut off by a crash after any of its transactions, and
  interleaved with other operations on the same store.
\<close>

section \<open>Programs\<close>

text \<open>\<open>Tx f k\<close>: apply \<open>f\<close> to the store in one transaction, then go on as \<open>k\<close> says of the store it saw.\<close>

datatype ('s, 'a) prog = Ret 'a | Tx "'s \<Rightarrow> 's" "'s \<Rightarrow> ('s, 'a) prog"

primrec prog_bind :: "('s, 'a) prog \<Rightarrow> ('a \<Rightarrow> ('s, 'b) prog) \<Rightarrow> ('s, 'b) prog" where
  "prog_bind (Ret a) k = k a"
| "prog_bind (Tx f c) k = Tx f (\<lambda>s. prog_bind (c s) k)"

primrec prog_run :: "('s, 'a) prog \<Rightarrow> 's \<Rightarrow> 'a \<times> 's" where
  "prog_run (Ret a) s = (a, s)"
| "prog_run (Tx f k) s = prog_run (k s) (f s)"

text \<open>A program cut off after \<open>n\<close> transactions, and what is then left of it.\<close>

fun prog_prefix :: "nat \<Rightarrow> ('s, 'a) prog \<Rightarrow> 's \<Rightarrow> 's" where
  "prog_prefix (Suc n) (Tx f k) s = prog_prefix n (k s) (f s)"
| "prog_prefix _ _ s = s"

fun prog_rest :: "nat \<Rightarrow> ('s, 'a) prog \<Rightarrow> 's \<Rightarrow> ('s, 'a) prog" where
  "prog_rest (Suc n) (Tx f k) s = prog_rest n (k s) (f s)"
| "prog_rest _ p s = p"

definition tx :: "('s \<Rightarrow> 'a \<times> 's) \<Rightarrow> ('s, 'a) prog" where
  "tx f = Tx (\<lambda>s. snd (f s)) (\<lambda>s. Ret (fst (f s)))"

definition stmt :: "('s \<Rightarrow> 's) \<Rightarrow> ('s, unit) prog" where
  "stmt f = Tx f (\<lambda>_. Ret ())"

definition query :: "('s \<Rightarrow> 'a) \<Rightarrow> ('s, 'a) prog" where
  "query q = Tx (\<lambda>s. s) (\<lambda>s. Ret (q s))"

definition discard :: "('s, 'a) prog \<Rightarrow> ('s, unit) prog" where
  "discard p = prog_bind p (\<lambda>_. Ret ())"

lemma prog_run_bind: "prog_run (prog_bind p k) s = prog_run (k (fst (prog_run p s))) (snd (prog_run p s))"
  by (induction p arbitrary: s) auto

lemma prog_run_simps [simp]: "prog_run (tx f) s = f s" "prog_run (stmt g) s = ((), g s)" "prog_run (query q) s = (q s, s)"
  by (simp_all add: tx_def stmt_def query_def)

text \<open>Every transaction of a program has a property, whatever the store holds when it runs.\<close>

primrec all_tx :: "(('s \<Rightarrow> 's) \<Rightarrow> bool) \<Rightarrow> ('s, 'a) prog \<Rightarrow> bool" where
  "all_tx P (Ret a) = True"
| "all_tx P (Tx f k) = (P f \<and> (\<forall>s. all_tx P (k s)))"

lemma all_tx_bind [intro]: "all_tx P p \<Longrightarrow> (\<And>a. all_tx P (k a)) \<Longrightarrow> all_tx P (prog_bind p k)"
  by (induction p) auto

lemma all_tx_simps [simp]:
  "all_tx P (tx f) \<longleftrightarrow> P (\<lambda>s. snd (f s))" "all_tx P (stmt g) \<longleftrightarrow> P g" "all_tx P (query q) \<longleftrightarrow> P (\<lambda>s. s)"
  by (simp_all add: tx_def stmt_def query_def)

lemma all_tx_mono: "all_tx P p \<Longrightarrow> (\<And>f. P f \<Longrightarrow> Q f) \<Longrightarrow> all_tx Q p"
  by (induction p) auto

section \<open>Operations in flight\<close>

text \<open>
  The system is a store and the operations in flight on it. An operation may begin, any of them may run its
  next transaction, the process running it may crash (the operation is gone, its transactions stay), and the
  environment may move the store on its own.
\<close>

inductive prog_step ::
  "(('s, unit) prog \<Rightarrow> bool) \<Rightarrow> (('s \<Rightarrow> 's) \<Rightarrow> bool) \<Rightarrow> 's \<times> ('s, unit) prog list \<Rightarrow> 's \<times> ('s, unit) prog list \<Rightarrow> bool"
  for starts environ where
  begin_op: "starts p \<Longrightarrow> prog_step starts environ (s, ps) (s, p # ps)"
| transact: "prog_step starts environ (s, xs @ Tx f k # ys) (f s, xs @ k s # ys)"
| crash: "prog_step starts environ (s, xs @ p # ys) (s, xs @ ys)"
| outside: "environ g \<Longrightarrow> prog_step starts environ (s, ps) (g s, ps)"

definition prog_steps ::
  "(('s, unit) prog \<Rightarrow> bool) \<Rightarrow> (('s \<Rightarrow> 's) \<Rightarrow> bool) \<Rightarrow> 's \<times> ('s, unit) prog list \<Rightarrow> 's \<times> ('s, unit) prog list \<Rightarrow> bool" where
  "prog_steps starts environ = (prog_step starts environ)\<^sup>*\<^sup>*"

text \<open>What every transaction and every move of the environment keeps is kept by the system.\<close>

lemma prog_steps_from:
  assumes starts: "\<And>p. starts p \<Longrightarrow> all_tx T p" and environ: "\<And>g. environ g \<Longrightarrow> T g"
    and run: "prog_steps starts environ (s, qs) (t, ps)" and qs: "\<forall>p \<in> set qs. all_tx T p" and init: "P s"
    and keep: "\<And>f s. T f \<Longrightarrow> P s \<Longrightarrow> P (f s)"
  shows "P t \<and> (\<forall>p \<in> set ps. all_tx T p)"
proof -
  have "P (fst c) \<and> (\<forall>p \<in> set (snd c). all_tx T p)" if "(prog_step starts environ)\<^sup>*\<^sup>* (s, qs) c" for c
    using that
  proof (induction rule: rtranclp_induct)
    case base
    then show ?case using init qs by simp
  next
    case (step c d)
    from step.hyps(2) show ?case
    proof cases
      case (transact s xs f k ys)
      then have "all_tx T (Tx f k)" using step.IH by simp
      with transact step.IH keep show ?thesis by auto
    qed (use step.IH starts environ keep in auto)
  qed
  from this [of "(t, ps)"] run show ?thesis by (simp add: prog_steps_def)
qed

text \<open>An operation that ran \<open>n\<close> transactions is in flight with the rest of it, or crashed.\<close>

lemma prog_steps_prefix:
  assumes "starts p"
  shows "prog_steps starts environ (s, []) (prog_prefix n p s, [prog_rest n p s])"
proof -
  have "(prog_step starts environ)\<^sup>*\<^sup>* (s, [p]) (prog_prefix n p s, [prog_rest n p s])" for p s
  proof (induction n p s rule: prog_prefix.induct)
    case (1 n f k s)
    have "prog_step starts environ (s, [] @ Tx f k # []) (f s, [] @ k s # [])" by (rule transact)
    with 1 show ?case by (simp add: converse_rtranclp_into_rtranclp)
  qed simp_all
  then show ?thesis
    unfolding prog_steps_def using begin_op [of starts p, OF assms] by (blast intro: converse_rtranclp_into_rtranclp)
qed

lemma prog_steps_crash: "prog_steps starts environ c (s, [p]) \<Longrightarrow> prog_steps starts environ c (s, [])"
  unfolding prog_steps_def using crash [of starts environ s "[]" p "[]"] by (simp add: rtranclp.rtrancl_into_rtrancl)

lemma prog_steps_crashed:
  assumes "starts p"
  shows "prog_steps starts environ (s, []) (prog_prefix n p s, [])"
  by (rule prog_steps_crash, rule prog_steps_prefix, rule assms)

section \<open>Credits\<close>

text \<open>
  A quantity of the store that programs earn and spend: a program with credit \<open>k\<close> never lowers it by more than
  \<open>k\<close> and what it raised it by itself. If every program starts without credit, whatever interleaves and
  crashes, the quantity never falls below what it was.
\<close>

primrec spends :: "('s \<Rightarrow> int) \<Rightarrow> ('a \<Rightarrow> int \<Rightarrow> bool) \<Rightarrow> ('s, 'a) prog \<Rightarrow> int \<Rightarrow> bool" where
  "spends q Q (Ret a) k = (0 \<le> k \<and> Q a k)"
| "spends q Q (Tx f c) k = (0 \<le> k \<and> (\<forall>s. spends q Q (c s) (k + q (f s) - q s)))"

lemma spends_nonneg: "spends q Q p k \<Longrightarrow> 0 \<le> k"
  by (cases p) simp_all

lemma spends_bind [intro]: "spends q (\<lambda>a. spends q Q (g a)) p k \<Longrightarrow> spends q Q (prog_bind p g) k"
  by (induction p arbitrary: k) auto

lemma spends_simps [simp]:
  "spends q Q (tx f) k \<longleftrightarrow> 0 \<le> k \<and> (\<forall>s. 0 \<le> k + q (snd (f s)) - q s \<and> Q (fst (f s)) (k + q (snd (f s)) - q s))"
  "spends q P (stmt g) k \<longleftrightarrow> 0 \<le> k \<and> (\<forall>s. 0 \<le> k + q (g s) - q s \<and> P () (k + q (g s) - q s))"
  "spends q R (query h) k \<longleftrightarrow> 0 \<le> k \<and> (\<forall>s. R (h s) k)"
  by (auto simp: tx_def stmt_def query_def)

lemma spends_mono: "spends q Q p k \<Longrightarrow> (\<And>a k. 0 \<le> k \<Longrightarrow> Q a k \<Longrightarrow> R a k) \<Longrightarrow> spends q R p k"
  by (induction p arbitrary: k) auto

lemma spends_then: "spends q (\<lambda>_ _. True) p k \<Longrightarrow> (\<And>a k. 0 \<le> k \<Longrightarrow> spends q Q (g a) k) \<Longrightarrow> spends q Q (prog_bind p g) k"
  by (rule spends_bind, rule spends_mono) auto

lemma prog_steps_credit:
  assumes starts: "\<And>p. starts p \<Longrightarrow> spends q (\<lambda>_ _. True) p 0" and environ: "\<And>g s. environ g \<Longrightarrow> q (g s) = q s"
    and run: "prog_steps starts environ (s, []) (t, ps)"
  shows "q s \<le> q t"
proof -
  let ?ok = "\<lambda>c. \<exists>ks. list_all2 (spends q (\<lambda>_ _. True)) (snd c) ks \<and> q s + sum_list ks \<le> q (fst c)"
  have "?ok c" if "(prog_step starts environ)\<^sup>*\<^sup>* (s, []) c" for c
    using that
  proof (induction rule: rtranclp_induct)
    case base
    then show ?case by simp
  next
    case (step c d)
    then obtain ks where ks: "list_all2 (spends q (\<lambda>_ _. True)) (snd c) ks" "q s + sum_list ks \<le> q (fst c)" by blast
    from step.hyps(2) show ?case
    proof cases
      case (begin_op p u ps)
      with ks starts [OF begin_op(3)] show ?thesis by (intro exI [of _ "0 # ks"]) simp
    next
      case (transact u xs f k ys)
      with ks(1) obtain as a bs where split: "ks = as @ a # bs" "list_all2 (spends q (\<lambda>_ _. True)) xs as"
        "spends q (\<lambda>_ _. True) (Tx f k) a" "list_all2 (spends q (\<lambda>_ _. True)) ys bs"
        by (auto simp: list_all2_append1 list_all2_Cons1)
      then have "list_all2 (spends q (\<lambda>_ _. True)) (xs @ k u # ys) (as @ (a + q (f u) - q u) # bs)"
        by (auto intro!: list_all2_appendI)
      with transact split(1) ks(2) show ?thesis
        by (intro exI [of _ "as @ (a + q (f u) - q u) # bs"]) simp
    next
      case (crash u xs p ys)
      with ks(1) obtain as a bs where split: "ks = as @ a # bs" "list_all2 (spends q (\<lambda>_ _. True)) xs as"
        "spends q (\<lambda>_ _. True) p a" "list_all2 (spends q (\<lambda>_ _. True)) ys bs"
        by (auto simp: list_all2_append1 list_all2_Cons1)
      then have "list_all2 (spends q (\<lambda>_ _. True)) (xs @ ys) (as @ bs)" "0 \<le> a"
        using spends_nonneg by (auto intro!: list_all2_appendI)
      with crash split(1) ks(2) show ?thesis by (intro exI [of _ "as @ bs"]) simp
    next
      case (outside g u ps)
      with ks environ show ?thesis by (intro exI [of _ ks]) simp
    qed
  qed
  from this [of "(t, ps)"] run obtain ks where ks: "list_all2 (spends q (\<lambda>_ _. True)) ps ks" "q s + sum_list ks \<le> q t"
    by (auto simp: prog_steps_def)
  have "0 \<le> sum_list ks" using ks(1) by (induction rule: list_all2_induct) (use spends_nonneg in fastforce)+
  with ks(2) show ?thesis by linarith
qed

end
