(* ===== verification/Engine.thy ===== *)
theory Engine
  imports Run_Store Machine Programs
begin

text \<open>
  The durable workflow engine (\<open>crates/zenzip-core/src/workflow.rs\<close>): triggering, events, timeouts, executing
  an attempt and applying its outcome, child runs and their parents. An operation of the engine is a
  program of store transactions, so that it can be interrupted between any two of them by a crash or
  interleaved with others. The executor, which runs the user's function in JavaScript, is such a program too.
\<close>

section \<open>Operations\<close>

type_synonym 'a eng = "(wf_store, 'a) prog"

type_synonym op = "(string, unit) res eng"

section \<open>Configuration\<close>

record backoff =
  bo_delay :: int
  bo_max :: int

text \<open>
  Exponential backoff: the delay doubles with each attempt, is capped, and then spread by a jitter drawn
  from \<open>0 .. max 1 (capped / 4)\<close>. The saturating product is not seen through the cap.
\<close>

definition capped_delay :: "backoff \<Rightarrow> nat \<Rightarrow> int" where
  "capped_delay b attempts = max 1 (min (bo_delay b * 2 ^ min (attempts - 1) 20) (bo_max b))"

definition delay_for :: "backoff \<Rightarrow> int \<Rightarrow> nat \<Rightarrow> int" where
  "delay_for b jitter attempts = capped_delay b attempts - capped_delay b attempts div 8 + jitter"

record wf_config =
  wc_name :: string
  wc_version :: "string option"
  wc_stepMax :: nat
  wc_backoff :: backoff
  wc_triggers :: "string list"

definition default_config :: "string \<Rightarrow> wf_config" where
  "default_config name =
     \<lparr>wc_name = name, wc_version = None, wc_stepMax = 3, wc_backoff = \<lparr>bo_delay = 1000, bo_max = 60000\<rparr>, wc_triggers = []\<rparr>"

text \<open>What an engine is given: its configurations, the id generator, the jitter, and the executor.\<close>

record wf_engine =
  en_configs :: "(string, wf_config) jsmap"
  en_uid :: "nat \<Rightarrow> string"
  en_jitter :: int
  en_executor :: "exec_req \<Rightarrow> (string, string) res eng"

definition add_config :: "wf_config \<Rightarrow> wf_engine \<Rightarrow> (string, wf_engine) res" where
  "add_config cfg e =
     (if map_has (en_configs e) (wc_name cfg) then Throw (''workflow '' @ SQ @ wc_name cfg @ SQ @ '' already registered'')
      else Ok (e\<lparr>en_configs := map_set (wc_name cfg) cfg (en_configs e)\<rparr>))"

definition config :: "wf_engine \<Rightarrow> string \<Rightarrow> wf_config option" where
  "config e workflow = map_get (en_configs e) workflow"

definition config_version :: "wf_engine \<Rightarrow> string \<Rightarrow> string option" where
  "config_version e workflow = (case config e workflow of Some c \<Rightarrow> wc_version c | None \<Rightarrow> None)"

definition trigger_targets :: "wf_engine \<Rightarrow> string \<Rightarrow> trigger_target list" where
  "trigger_targets e event =
     map (\<lambda>(_, c). \<lparr>tt_workflow = wc_name c, tt_version = wc_version c\<rparr>)
       (filter (\<lambda>(_, c). list_ex (\<lambda>p. event_matches p event) (wc_triggers c)) (en_configs e))"

section \<open>Triggering, events, timeouts\<close>

definition enqueue :: "string \<Rightarrow> string \<Rightarrow> int \<Rightarrow> op" where
  "enqueue workflow i delay = prog_bind (stmt (push_execution workflow i delay)) (\<lambda>_. Ret (Ok ()))"

definition trigger_blocking ::
  "wf_engine \<Rightarrow> string \<Rightarrow> string \<Rightarrow> string option \<Rightarrow> int \<Rightarrow> string option \<Rightarrow> (string, string) res eng" where
  "trigger_blocking e workflow input idem delay subject =
     prog_bind (tx (create_run (en_uid e)
        \<lparr>nr_workflow = workflow, nr_input = input, nr_version = config_version e workflow, nr_idem = idem, nr_parent_run = None,
         nr_parent_step = None, nr_subject = subject\<rparr>)) (\<lambda>(i, created).
     if created then prog_bind (enqueue workflow i delay) (\<lambda>_. Ret (Ok i)) else Ret (Ok i))"

definition emit_blocking :: "wf_engine \<Rightarrow> string \<Rightarrow> string \<Rightarrow> (string, nat \<times> nat) res eng" where
  "emit_blocking e event payload =
     prog_bind (tx (emit_in_tx (en_uid e) event payload (trigger_targets e event))) (\<lambda>r. Ret (Ok r))"

definition cancel_blocking :: "string \<Rightarrow> (string, nat) res eng" where
  "cancel_blocking i = prog_bind (tx (cancel_run_tree i)) (\<lambda>n. Ret (Ok n))"

definition timed_out_result :: string where
  "timed_out_result = ''{'' @ [DQ] @ ''timedOut'' @ [DQ] @ '':true}''"

definition wait_step :: "wf_run \<Rightarrow> string" where
  "wait_step r = (case wr_wait_step r of Some sid \<Rightarrow> sid | None \<Rightarrow> [])"

primrec sweep_each :: "wf_run list \<Rightarrow> op" where
  "sweep_each [] = Ret (Ok ())"
| "sweep_each (r # rs) =
     prog_bind (stmt (record_step (wr_id r) (wait_step r) ''waitForEvent'' (Some timed_out_result))) (\<lambda>_.
     prog_bind (enqueue (wr_workflow r) (wr_id r) 0) (\<lambda>_. sweep_each rs))"

definition sweep :: "int \<Rightarrow> op" where
  "sweep now = prog_bind (tx (sweep_event_timeouts now)) sweep_each"

section \<open>Parents and children\<close>

definition output_result :: "string \<Rightarrow> string" where
  "output_result output = ''{'' @ [DQ] @ ''output'' @ [DQ] @ '':'' @ output @ ''}''"

definition error_result :: "string \<Rightarrow> string" where
  "error_result err = json_text (JObj [(''error'', JStr err)])"

definition or_null_text :: "string option \<Rightarrow> string" where
  "or_null_text t = (case t of Some x \<Rightarrow> x | None \<Rightarrow> ''null'')"

definition settle_parent :: "wf_run \<Rightarrow> (string, string) res \<Rightarrow> op" where
  "settle_parent child result =
     (case (wr_parent_run child, wr_parent_step child) of
        (Some p, Some sid) \<Rightarrow>
          prog_bind (stmt (record_step p sid ''invoke'' (Some (case result of Inr output \<Rightarrow> output_result output | Inl err \<Rightarrow> error_result err)))) (\<lambda>_.
          prog_bind (tx (wake_parent p)) (\<lambda>woken.
          if woken then
            prog_bind (query (get_run p)) (\<lambda>parent.
            case parent of
              None \<Rightarrow> Ret (Throw ''parent run vanished'')
            | Some r \<Rightarrow> enqueue (wr_workflow r) p 0)
          else Ret (Ok ())))
      | _ \<Rightarrow> Ret (Ok ()))"

definition fail_run :: "wf_run \<Rightarrow> string \<Rightarrow> op" where
  "fail_run run err = prog_bind (stmt (run_failed (wr_id run) err)) (\<lambda>_. settle_parent run (Throw err))"

definition invoke_key :: "string \<Rightarrow> string \<Rightarrow> string" where
  "invoke_key i sid = ''zenzip.invoke:'' @ i @ '':'' @ sid"

definition record_invoke :: "wf_run \<Rightarrow> string \<Rightarrow> string \<Rightarrow> op" where
  "record_invoke run sid result =
     prog_bind (stmt (record_step (wr_id run) sid ''invoke'' (Some result))) (\<lambda>_. enqueue (wr_workflow run) (wr_id run) 0)"

definition apply_invoke :: "wf_engine \<Rightarrow> wf_run \<Rightarrow> string \<Rightarrow> string \<Rightarrow> string option \<Rightarrow> op" where
  "apply_invoke e run sid child_workflow input =
     (if config e child_workflow = None
      then fail_run run (''step '' @ SQ @ sid @ SQ @ '': unknown workflow '' @ SQ @ child_workflow @ SQ)
      else
        prog_bind (tx (create_run (en_uid e)
          \<lparr>nr_workflow = child_workflow, nr_input = or_null_text input, nr_version = config_version e child_workflow,
           nr_idem = Some (invoke_key (wr_id run) sid), nr_parent_run = Some (wr_id run), nr_parent_step = Some sid,
           nr_subject = None\<rparr>)) (\<lambda>(child_id, created).
        if created then
          prog_bind (stmt (run_waiting_child (wr_id run))) (\<lambda>_. enqueue child_workflow child_id 0)
        else
          prog_bind (query (get_run child_id)) (\<lambda>child.
          case child of
            None \<Rightarrow> Ret (Throw ''child run vanished'')
          | Some c \<Rightarrow>
              (if wr_status c = Completed then record_invoke run sid (output_result (or_null_text (wr_output c)))
               else if wr_status c = Failed \<or> wr_status c = Cancelled then
                 record_invoke run sid (error_result (case wr_error c of Some x \<Rightarrow> x | None \<Rightarrow> ''child run failed''))
               else prog_bind (stmt (run_waiting_child (wr_id run))) (\<lambda>_. Ret (Ok ()))))))"

section \<open>Executing an attempt\<close>

fun apply_outcome :: "wf_engine \<Rightarrow> wf_run \<Rightarrow> exec_outcome \<Rightarrow> op" where
  "apply_outcome e run (OCompleted output) =
     prog_bind (stmt (run_completed (wr_id run) output)) (\<lambda>_. settle_parent run (Ok (or_null_text output)))"
| "apply_outcome e run (OFailed err) = fail_run run err"
| "apply_outcome e run (OSleep sid wake_at) =
     prog_bind (stmt (record_step (wr_id run) sid ''sleep'' None)) (\<lambda>_.
     prog_bind (stmt (run_sleeping (wr_id run) wake_at)) (\<lambda>_.
     prog_bind (query ws_now) (\<lambda>now. enqueue (wr_workflow run) (wr_id run) (max 0 (wake_at - now)))))"
| "apply_outcome e run (OEvent sid event timeout_at match_json) =
     prog_bind (stmt (run_waiting_event (wr_id run) event sid timeout_at match_json)) (\<lambda>_. Ret (Ok ()))"
| "apply_outcome e run (OInvoke sid workflow input) = apply_invoke e run sid workflow input"
| "apply_outcome e run (OStepFailed sid err) =
     (let cfg = (case config e (wr_workflow run) of Some c \<Rightarrow> c | None \<Rightarrow> default_config (wr_workflow run)) in
      prog_bind (tx (step_failed_attempt (wr_id run) sid err)) (\<lambda>attempts.
      if attempts < wc_stepMax cfg
      then enqueue (wr_workflow run) (wr_id run) (delay_for (wc_backoff cfg) (en_jitter e) attempts)
      else fail_run run (''step '' @ SQ @ sid @ SQ @ '' failed after '' @ int_str (int attempts) @ '' attempts: '' @ err)))"

text \<open>The run id of an execution payload; \<open>None\<close> is a payload \<open>serde\<close> refuses.\<close>

definition payload_run :: "string \<Rightarrow> string option" where
  "payload_run payload = (case JSON_parse payload of Some (JObj kvs) \<Rightarrow> str_field kvs ''runId'' | _ \<Rightarrow> None)"

definition runnable :: "wf_run \<Rightarrow> bool" where
  "runnable r \<longleftrightarrow> wr_status r = Running \<or> wr_status r = Sleeping"

definition execute :: "wf_engine \<Rightarrow> string \<Rightarrow> string \<Rightarrow> op" where
  "execute e workflow payload =
     (case payload_run payload of
        None \<Rightarrow> Ret (Throw ''bad execution payload'')
      | Some i \<Rightarrow>
          prog_bind (query (get_run i)) (\<lambda>found.
          case found of
            None \<Rightarrow> Ret (Ok ())
          | Some run \<Rightarrow>
              if \<not> runnable run then Ret (Ok ())
              else
                prog_bind (query (load_journal i)) (\<lambda>journal.
                prog_bind (en_executor e
                  \<lparr>req_runId = i, req_workflow = workflow, req_input = wr_input run, req_version = wr_version run,
                   req_journal = json_text (JArr (map entry_value journal))\<rparr>) (\<lambda>r.
                case r of
                  Inl err \<Rightarrow> Ret (Throw err)
                | Inr outcome_json \<Rightarrow>
                    (case decode_outcome outcome_json of
                       None \<Rightarrow> Ret (Throw ''bad executor outcome'')
                     | Some outcome \<Rightarrow>
                         prog_bind (query (get_run i)) (\<lambda>current.
                         case current of
                           None \<Rightarrow> Ret (Ok ())
                         | Some c \<Rightarrow> if wr_status c = Cancelled then Ret (Ok ()) else apply_outcome e run outcome))))))"

section \<open>Retry delays\<close>

text \<open>
  Retry delays. With a jitter from the range the engine draws it from, the delay of an attempt is at
  least one millisecond, within an eighth of the capped delay (the code's comment says a quarter), never
  above nine eighths of the configured maximum plus one, and the capped delay never decreases from one
  attempt to the next.
\<close>

theorem retry_delay_bounds:
  assumes "0 \<le> jitter" and "jitter \<le> max 1 (capped_delay b attempts div 4)" and "0 \<le> bo_delay b"
  shows "1 \<le> delay_for b jitter attempts \<and>
    \<bar>delay_for b jitter attempts - capped_delay b attempts\<bar> \<le> capped_delay b attempts div 8 + 1 \<and>
    delay_for b jitter attempts \<le> max 1 (bo_max b) + max 1 (bo_max b) div 8 + 1 \<and>
    capped_delay b attempts \<le> capped_delay b (attempts + 1)"
proof -
  let ?c = "capped_delay b attempts"
  have c: "1 \<le> ?c" "?c \<le> max 1 (bo_max b)" by (auto simp: capped_delay_def)
  have "(2 :: int) ^ min (attempts - 1) 20 \<le> 2 ^ min (attempts + 1 - 1) 20" by (rule power_increasing) auto
  then have "bo_delay b * 2 ^ min (attempts - 1) 20 \<le> bo_delay b * 2 ^ min (attempts + 1 - 1) 20"
    using assms(3) by (rule mult_left_mono)
  then have "?c \<le> capped_delay b (attempts + 1)" unfolding capped_delay_def by linarith
  moreover have x: "0 \<le> ?c div 8" "8 * (?c div 8) \<le> ?c" "?c div 4 \<le> 2 * (?c div 8) + 1" using c(1) by presburger+
  then have "jitter \<le> 2 * (?c div 8) + 1" using assms(2) by linarith
  then have "\<bar>delay_for b jitter attempts - ?c\<bar> \<le> ?c div 8 + 1" "1 \<le> delay_for b jitter attempts"
    unfolding delay_for_def using assms(1) c(1) x by linarith+
  moreover have "?c div 8 \<le> max 1 (bo_max b) div 8" using c(2) by (rule zdiv_mono1) simp
  ultimately show ?thesis using c(2) by linarith
qed

lemma retry_delay_bounds_witness:
  "delay_for \<lparr>bo_delay = 1000, bo_max = 60000\<rparr> 500 2 = 2250 \<and> delay_for \<lparr>bo_delay = 1000, bo_max = 60000\<rparr> 500 2 \<le> 67501"
  using retry_delay_bounds [of 500 "\<lparr>bo_delay = 1000, bo_max = 60000\<rparr>" 2] by (simp add: delay_for_def capped_delay_def)

section \<open>Programs and their transactions\<close>

lemma enqueue_run [simp]: "prog_run (enqueue w i d) s = (Ok (), push_execution w i d s)"
  by (simp add: enqueue_def prog_run_bind)

text \<open>
  The transactions of the engine, and those an executor may run: recording steps of any run, and the
  engine's own calls (triggering, emitting, cancelling, the retention sweep, erasing a subject).
\<close>

inductive engine_tx :: "(nat \<Rightarrow> string) \<Rightarrow> (wf_store \<Rightarrow> wf_store) \<Rightarrow> bool" for uid where
  reading: "engine_tx uid (\<lambda>s. s)"
| recording: "engine_tx uid (record_step i sid kind result)"
| failing: "engine_tx uid (\<lambda>s. snd (step_failed_attempt i sid err s))"
| creating: "engine_tx uid (\<lambda>s. snd (create_run uid n s))"
| updating: "engine_tx uid (\<lambda>s. update_runs P f s)" if "\<And>r. wr_id (f r) = wr_id r \<and> wr_workflow (f r) = wr_workflow r \<and> wr_idem (f r) = wr_idem r"
| cancelling: "engine_tx uid (\<lambda>s. snd (cancel_run_tree i s))"
| pushing: "engine_tx uid (push_execution workflow i delay)"
| emitting: "engine_tx uid (\<lambda>s. snd (emit_in_tx uid event payload targets s))"
| working: "engine_tx uid (\<lambda>s. s\<lparr>ws_jobs := g (ws_jobs s)\<rparr>)"
| ticking: "engine_tx uid (\<lambda>s. s\<lparr>ws_now := ws_now s + t\<rparr>)" if "t \<ge> 0"
| collecting: "engine_tx uid (gc runs_before events_before)"
| erasing: "engine_tx uid (\<lambda>s. snd (purge_subject subject s))"

lemmas engine_tx_simps [simp] = engine_tx.intros(1-4,6-9,11,12)

lemma status_updates [simp]:
  "engine_tx uid (run_completed i output)" "engine_tx uid (run_failed i err)" "engine_tx uid (run_sleeping i t)"
  "engine_tx uid (run_waiting_event i ev sid tm m)" "engine_tx uid (run_waiting_child i)"
  "engine_tx uid (\<lambda>s. snd (wake_parent i s))" "engine_tx uid (\<lambda>s. snd (sweep_event_timeouts now s))"
  unfolding run_completed_def run_failed_def run_sleeping_def run_waiting_event_def run_waiting_child_def wake_parent_def
    sweep_event_timeouts_def snd_conv
  by (rule updating, simp)+

lemma all_tx_enqueue [simp]: "all_tx (engine_tx uid) (enqueue w i d)"
  by (auto simp: enqueue_def intro!: all_tx_bind)

lemma all_tx_settle [simp]: "all_tx (engine_tx uid) (settle_parent r res)"
  by (auto simp: settle_parent_def split: option.split intro!: all_tx_bind)

lemma all_tx_fail_run [simp]: "all_tx (engine_tx uid) (fail_run r err)"
  by (auto simp: fail_run_def intro!: all_tx_bind)

lemma all_tx_apply [simp]: "all_tx (engine_tx (en_uid e)) (apply_outcome e run outcome)"
  by (cases outcome)
    (auto simp: apply_invoke_def record_invoke_def Let_def split: option.split intro!: all_tx_bind)

text \<open>Every program of the engine consists of its transactions, whatever the workflow function does.\<close>

lemma all_tx_execute:
  assumes "\<And>req. all_tx (engine_tx (en_uid e)) (en_executor e req)"
  shows "all_tx (engine_tx (en_uid e)) (execute e workflow payload)"
  using assms
  by (auto simp: execute_def split: option.split sum.split intro!: all_tx_bind)

lemma all_tx_sweep_each [simp]: "all_tx (engine_tx uid) (sweep_each rs)"
  by (induction rs) (auto intro!: all_tx_bind)

lemma all_tx_calls [simp]:
  "all_tx (engine_tx (en_uid e)) (trigger_blocking e w input idem d subject)" "all_tx (engine_tx (en_uid e)) (emit_blocking e ev payload)"
  "all_tx (engine_tx uid) (cancel_blocking i)" "all_tx (engine_tx uid) (sweep now)"
  by (auto simp: trigger_blocking_def emit_blocking_def cancel_blocking_def sweep_def intro!: all_tx_bind)

section \<open>What every transaction keeps\<close>

text \<open>
  A preorder on stores that the basic statements respect is respected by every transaction of the engine,
  waking all waiters of an event and cancelling a tree of runs included.
\<close>

lemma engine_tx_rel:
  assumes refl: "\<And>s. P s s" and trans: "\<And>s t u. P s t \<Longrightarrow> P t u \<Longrightarrow> P s u"
    and rec: "\<And>i sid kind result s. P s (record_step i sid kind result s)"
    and failing: "\<And>i sid err s. P s (snd (step_failed_attempt i sid err s))"
    and creating: "\<And>n s. P s (snd (create_run uid n s))"
    and upd: "\<And>Q g s. (\<And>r. wr_id (g r) = wr_id r \<and> wr_workflow (g r) = wr_workflow r \<and> wr_idem (g r) = wr_idem r) \<Longrightarrow> P s (update_runs Q g s)"
    and jobs: "\<And>s j. P s (s\<lparr>ws_jobs := j\<rparr>)" and events: "\<And>s ev. P s (s\<lparr>ws_events := ev\<rparr>)" and clock: "\<And>s t. P s (s\<lparr>ws_now := t\<rparr>)"
    and dropping: "\<And>Q s. P s (snd (drop_runs Q s))"
    and "engine_tx uid f"
  shows "P s (f s)"
proof -
  have wake: "P s (wake_waiter payload r s)" for payload r s
    unfolding wake_waiter_def push_execution_def by (rule trans [OF trans [OF upd rec] jobs]) simp
  have wakes: "P s (fold (wake_waiter payload) rs s)" for payload rs s
    by (induction rs arbitrary: s) (auto intro: refl trans wake)
  have trig: "P s (trigger_one uid input t s)" for input t s
    using creating [of s "\<lparr>nr_workflow = tt_workflow t, nr_input = input, nr_version = tt_version t, nr_idem = None,
        nr_parent_run = None, nr_parent_step = None, nr_subject = None\<rparr>"]
    by (auto simp: trigger_one_def push_execution_def split: prod.split intro: trans jobs)
  have trigs: "P s (fold (trigger_one uid input) ts s)" for input ts s
    by (induction ts arbitrary: s) (auto intro: refl trans trig)
  have emit: "P s (snd (emit_in_tx uid ev payload ts s))" for ev payload ts s
    unfolding emit_in_tx_def Let_def snd_conv by (rule trans [OF trans [OF events wakes] trigs])
  have one: "P s (snd (cancel_one i s))" for i s
    unfolding cancel_one_def snd_conv by (rule upd) simp
  have tree: "P s (snd (cancel_tree frontier s))" for frontier s
    by (induction frontier s rule: cancel_tree.induct) (auto split: prod.split intro: refl trans one)
  have collect: "P s (gc a b s)" for a b s
    by (auto simp: gc_def Let_def refl dropping events split: option.split intro: trans [OF dropping events])
  from \<open>engine_tx uid f\<close> show ?thesis
    by cases (auto simp: cancel_run_tree_def push_execution_def purge_subject_def collect dropping refl rec failing creating emit tree jobs clock simp del: cancel_tree.simps
      intro: upd)
qed

text \<open>A recorded step stays recorded, with its kind and result.\<close>

definition journal_le :: "wf_store \<Rightarrow> wf_store \<Rightarrow> bool" where
  "journal_le s t \<longleftrightarrow> (\<forall>key r. map_get (ws_steps s) key = Some r \<and> sr_done r \<longrightarrow>
     (\<exists>q. map_get (ws_steps t) key = Some q \<and> sr_done q \<and> sr_kind q = sr_kind r \<and> sr_result q = sr_result r))"

lemma journal_le_refl [simp]: "journal_le s s"
  by (auto simp: journal_le_def)

lemma journal_le_trans: "journal_le s t \<Longrightarrow> journal_le t u \<Longrightarrow> journal_le s u"
  unfolding journal_le_def by metis

lemma journal_le_same: "ws_steps t = ws_steps s \<Longrightarrow> journal_le s t"
  by (auto simp: journal_le_def)

lemma record_step_le: "journal_le s (record_step i sid kind result s)"
  by (auto simp: journal_le_def record_step_def jsmap_simps split: option.split)

lemma step_failed_le: "journal_le s (snd (step_failed_attempt i sid err s))"
  by (auto simp: journal_le_def step_failed_attempt_def Let_def jsmap_simps split: option.split)

lemma create_run_steps [simp]: "ws_steps (snd (create_run uid n s)) = ws_steps s"
  by (simp add: create_run_def Let_def split: option.split)

text \<open>One run per idempotency key of a workflow; ids come from the generator, each once.\<close>

definition run_keys :: "wf_store \<Rightarrow> (string \<times> string) list" where
  "run_keys s = List.map_filter (\<lambda>r. map_option (\<lambda>key. (wr_workflow r, key)) (wr_idem r)) (ws_runs s)"

definition runs_ok :: "(nat \<Rightarrow> string) \<Rightarrow> wf_store \<Rightarrow> bool" where
  "runs_ok uid s \<longleftrightarrow> distinct (run_keys s) \<and> distinct (map wr_id (ws_runs s)) \<and> (\<forall>r \<in> set (ws_runs s). \<exists>n < ws_next s. wr_id r = uid n)"

lemma run_keys_snoc:
  "run_keys (s\<lparr>ws_runs := ws_runs s @ [r], ws_next := m\<rparr>) =
     run_keys s @ (case wr_idem r of None \<Rightarrow> [] | Some key \<Rightarrow> [(wr_workflow r, key)])"
  by (auto simp: run_keys_def map_filter_append List.map_filter_simps split: option.split)

lemma keyed_run_None: "keyed_run w key s = None \<longleftrightarrow> (w, key) \<notin> set (run_keys s)"
  by (auto simp: keyed_run_def find_None_iff run_keys_def List.map_filter_def image_iff)

lemma runs_ok_create:
  assumes "inj uid" and "runs_ok uid s"
  shows "runs_ok uid (snd (create_run uid n s))"
proof -
  have fresh: "uid (ws_next s) \<notin> set (map wr_id (ws_runs s))"
  proof
    assume "uid (ws_next s) \<in> set (map wr_id (ws_runs s))"
    then obtain n where "n < ws_next s" "uid (ws_next s) = uid n" using assms(2) unfolding runs_ok_def by fastforce
    then show False using injD [OF assms(1)] by blast
  qed
  have new: "distinct (run_keys (s\<lparr>ws_runs := ws_runs s @ [run_of i t n], ws_next := m\<rparr>))"
    if "nr_idem n = None \<or> (\<exists>key. nr_idem n = Some key \<and> keyed_run (nr_workflow n) key s = None)" for i t m
    using that assms(2) by (auto simp: runs_ok_def run_keys_snoc run_of_def keyed_run_None)
  show ?thesis
    using assms(2) fresh new
    by (auto simp: create_run_def Let_def runs_ok_def run_of_def less_Suc_eq split: option.split)
qed

lemma run_keys_update:
  "(\<And>r. wr_workflow (g r) = wr_workflow r \<and> wr_idem (g r) = wr_idem r) \<Longrightarrow> run_keys (update_runs Q g s) = run_keys s"
proof -
  assume g: "\<And>r. wr_workflow (g r) = wr_workflow r \<and> wr_idem (g r) = wr_idem r"
  have "List.map_filter h (map (\<lambda>r. if Q r then (g r)\<lparr>wr_updated := t\<rparr> else r) rs) = List.map_filter h rs"
    if "h = (\<lambda>r. map_option (\<lambda>key. (wr_workflow r, key)) (wr_idem r))" for h t rs
    unfolding that by (induction rs) (auto simp: List.map_filter_simps g split: option.splits)
  then show ?thesis by (simp add: run_keys_def)
qed

lemma runs_ok_update:
  assumes g: "\<And>r. wr_id (g r) = wr_id r \<and> wr_workflow (g r) = wr_workflow r \<and> wr_idem (g r) = wr_idem r"
    and ok: "runs_ok uid s"
  shows "runs_ok uid (update_runs Q g s)"
proof -
  have ids: "map wr_id (map (\<lambda>r. if Q r then (g r)\<lparr>wr_updated := t\<rparr> else r) rs) = map wr_id rs" for t rs
    by (induction rs) (auto simp: g)
  show ?thesis
    using ok run_keys_update [of g Q s] g unfolding runs_ok_def update_runs_simps ids by auto
qed

lemma drop_runs_simps [simp]:
  "ws_runs (snd (drop_runs Q s)) = filter (\<lambda>r. \<not> Q r) (ws_runs s)" "ws_next (snd (drop_runs Q s)) = ws_next s"
  "ws_steps (snd (drop_runs Q s)) = filter (\<lambda>((i, _), _). \<not> list_ex (\<lambda>r. Q r \<and> wr_id r = i) (ws_runs s)) (ws_steps s)"
  "ws_jobs (snd (drop_runs Q s)) = ws_jobs s" "ws_now (snd (drop_runs Q s)) = ws_now s"
  by (simp_all add: drop_runs_def)

lemma runs_ok_drop: "runs_ok uid s \<Longrightarrow> runs_ok uid (snd (drop_runs Q s))"
proof -
  have keys: "distinct (List.map_filter h (filter (\<lambda>r. \<not> Q r) rs))" if "distinct (List.map_filter h rs)" for h :: "wf_run \<Rightarrow> (string \<times> string) option" and rs
  proof -
    have "List.map_filter h (filter (\<lambda>r. \<not> Q r) rs) = map (the \<circ> h) (filter (\<lambda>r. \<not> Q r) (filter (\<lambda>r. h r \<noteq> None) rs))"
      by (simp add: List.map_filter_def conj_commute)
    moreover have "distinct (map (the \<circ> h) (filter (\<lambda>r. h r \<noteq> None) rs))" using that by (simp add: List.map_filter_def)
    ultimately show ?thesis by (simp only: distinct_map_filter)
  qed
  assume "runs_ok uid s"
  then show ?thesis using keys by (auto simp: runs_ok_def run_keys_def distinct_map_filter)
qed

lemma engine_tx_runs_ok:
  assumes "inj uid" and "engine_tx uid f" and "runs_ok uid s"
  shows "runs_ok uid (f s)"
proof -
  have same: "ws_runs t = ws_runs s \<Longrightarrow> ws_next t = ws_next s \<Longrightarrow> runs_ok uid s \<Longrightarrow> runs_ok uid t" for s t
    by (simp add: runs_ok_def run_keys_def)
  have rec: "ws_runs (record_step i sid kind result s) = ws_runs s" "ws_next (record_step i sid kind result s) = ws_next s" for i sid kind result s
    by (simp_all add: record_step_def split: option.split)
  have "runs_ok uid s \<longrightarrow> runs_ok uid (f s)"
    by (rule engine_tx_rel [where P = "\<lambda>s t. runs_ok uid s \<longrightarrow> runs_ok uid t", OF _ _ _ _ _ _ _ _ _ _ assms(2)])
      (use runs_ok_create [OF assms(1)] runs_ok_update same rec runs_ok_drop in \<open>auto simp: step_failed_attempt_def Let_def\<close>)
  with assms(3) show ?thesis by simp
qed

text \<open>
  A run that was deleted, by the retention sweep or with its subject, never exists again; the steps of
  every other run stay in the journal.
\<close>

definition run_gone :: "(nat \<Rightarrow> string) \<Rightarrow> string \<Rightarrow> wf_store \<Rightarrow> bool" where
  "run_gone uid i s \<longleftrightarrow> (\<exists>n < ws_next s. uid n = i) \<and> get_run i s = None"

definition journal_kept :: "(nat \<Rightarrow> string) \<Rightarrow> wf_store \<Rightarrow> wf_store \<Rightarrow> bool" where
  "journal_kept uid s t \<longleftrightarrow> runs_ok uid s \<longrightarrow>
     runs_ok uid t \<and> (\<forall>i. run_gone uid i s \<longrightarrow> run_gone uid i t) \<and>
     (\<forall>i sid r. map_get (ws_steps s) (i, sid) = Some r \<and> sr_done r \<longrightarrow> run_gone uid i t \<or>
        (\<exists>q. map_get (ws_steps t) (i, sid) = Some q \<and> sr_done q \<and> sr_kind q = sr_kind r \<and> sr_result q = sr_result r))"

lemma journal_kept_trans: "journal_kept uid s t \<Longrightarrow> journal_kept uid t u \<Longrightarrow> journal_kept uid s u"
  unfolding journal_kept_def by metis

lemma journal_kept_le:
  assumes "journal_le s t" and "runs_ok uid s \<longrightarrow> runs_ok uid t" and "\<And>i. runs_ok uid s \<Longrightarrow> run_gone uid i s \<Longrightarrow> run_gone uid i t"
  shows "journal_kept uid s t"
  using assms unfolding journal_kept_def journal_le_def by blast

lemma get_run_None: "get_run i s = None \<longleftrightarrow> i \<notin> wr_id ` set (ws_runs s)"
  by (auto simp: get_run_def find_None_iff)

lemma map_get_filter_None: "map_get (filter (\<lambda>(k, _). P k) m) k = (if P k then map_get m k else None)"
  by (induction m) auto

lemma drop_runs_kept: "journal_kept uid s (snd (drop_runs Q s))"
  unfolding journal_kept_def
proof (intro impI conjI allI)
  assume ok: "runs_ok uid s"
  then show "runs_ok uid (snd (drop_runs Q s))" by (rule runs_ok_drop)
  show "run_gone uid i (snd (drop_runs Q s))" if "run_gone uid i s" for i
    using that by (auto simp: run_gone_def get_run_None)
  fix i sid r
  assume r: "map_get (ws_steps s) (i, sid) = Some r \<and> sr_done r"
  show "run_gone uid i (snd (drop_runs Q s)) \<or> (\<exists>q. map_get (ws_steps (snd (drop_runs Q s))) (i, sid) = Some q \<and>
      sr_done q \<and> sr_kind q = sr_kind r \<and> sr_result q = sr_result r)"
  proof (cases "list_ex (\<lambda>r. Q r \<and> wr_id r = i) (ws_runs s)")
    case True
    then obtain q where q: "q \<in> set (ws_runs s)" "Q q" "wr_id q = i" by (auto simp: list_ex_iff)
    have only: "x = q" if "x \<in> set (ws_runs s)" "wr_id x = i" for x
      using ok that q by (auto simp: runs_ok_def distinct_map dest: inj_onD)
    have "\<exists>n < ws_next s. uid n = i" using ok q unfolding runs_ok_def by metis
    moreover have "get_run i (snd (drop_runs Q s)) = None" using only q(2) by (auto simp: get_run_None)
    ultimately show ?thesis by (simp add: run_gone_def)
  next
    case False
    then show ?thesis using r map_get_filter_None [of "\<lambda>(j, _). \<not> list_ex (\<lambda>r. Q r \<and> wr_id r = j) (ws_runs s)" "ws_steps s" "(i, sid)"]
      by (auto simp: case_prod_unfold)
  qed
qed

lemma engine_tx_kept:
  assumes "inj uid" and "engine_tx uid f"
  shows "journal_kept uid s (f s)"
proof (rule engine_tx_rel [where P = "journal_kept uid", OF _ _ _ _ _ _ _ _ _ drop_runs_kept assms(2)])
  have same: "run_gone uid i t" if "run_gone uid i s" "ws_runs t = ws_runs s" "ws_next t = ws_next s" for i s t
    using that by (simp add: run_gone_def get_run_None)
  have ok: "runs_ok uid t" if "runs_ok uid s" "ws_runs t = ws_runs s" "ws_next t = ws_next s" for s t
    using that by (simp add: runs_ok_def run_keys_def)
  have rec: "ws_runs (record_step i sid kind result s) = ws_runs s" "ws_next (record_step i sid kind result s) = ws_next s" for i sid kind result s
    by (simp_all add: record_step_def split: option.split)
  show "journal_kept uid s s" for s by (rule journal_kept_le) simp_all
  show "journal_kept uid s u" if "journal_kept uid s t" "journal_kept uid t u" for s t u by (rule journal_kept_trans [OF that])
  show "journal_kept uid s (record_step i sid kind result s)" for i sid kind result s
    by (rule journal_kept_le [OF record_step_le]) (auto simp: rec intro: same ok)
  show "journal_kept uid s (snd (step_failed_attempt i sid err s))" for i sid err s
    by (rule journal_kept_le [OF step_failed_le]) (auto simp: step_failed_attempt_def Let_def intro: same ok)
  show "journal_kept uid s (s\<lparr>ws_jobs := j\<rparr>)" "journal_kept uid s (s\<lparr>ws_events := ev\<rparr>)" "journal_kept uid s (s\<lparr>ws_now := n\<rparr>)" for s j ev n
    by (rule journal_kept_le [OF journal_le_same]; auto intro: same ok)+
  show "journal_kept uid s (update_runs Q g s)"
    if g: "\<And>r. wr_id (g r) = wr_id r \<and> wr_workflow (g r) = wr_workflow r \<and> wr_idem (g r) = wr_idem r" for Q g s
  proof (rule journal_kept_le [OF journal_le_same])
    show "runs_ok uid s \<longrightarrow> runs_ok uid (update_runs Q g s)" using runs_ok_update [OF g] by simp
    show "run_gone uid i (update_runs Q g s)" if "run_gone uid i s" for i
      using that g by (auto simp: run_gone_def get_run_None)
  qed simp
  show "journal_kept uid s (snd (create_run uid n s))" for n s
  proof (rule journal_kept_le [OF journal_le_same])
    show "runs_ok uid s \<longrightarrow> runs_ok uid (snd (create_run uid n s))" using runs_ok_create [OF assms(1)] by simp
    show "run_gone uid i (snd (create_run uid n s))" if "run_gone uid i s" for i
    proof -
      obtain m where m: "m < ws_next s" "uid m = i" "i \<notin> wr_id ` set (ws_runs s)" using \<open>run_gone uid i s\<close> by (auto simp: run_gone_def get_run_None)
      then have "uid (ws_next s) \<noteq> i" using injD [OF assms(1)] by (metis less_irrefl)
      moreover have "\<exists>n < Suc (ws_next s). uid n = i" using m(1,2) less_SucI by blast
      ultimately show ?thesis using m
        by (auto simp: run_gone_def get_run_None create_run_def Let_def run_of_def split: option.split)
    qed
  qed simp
qed

section \<open>Operations in flight: interleaving and crashes\<close>

text \<open>
  Attempts, triggers, events, cancellations and sweeps begin, interleave and crash; the job table and the
  clock move on their own, the retention sweep deletes settled runs and a subject's runs are erased.
\<close>

inductive started :: "wf_engine \<Rightarrow> unit eng \<Rightarrow> bool" for e where
  exec: "started e (discard (execute e workflow payload))"
| trigger: "started e (discard (trigger_blocking e workflow input idem delay subject))"
| emit: "started e (discard (emit_blocking e event payload))"
| cancel: "started e (discard (cancel_blocking i))"
| sweep: "started e (discard (sweep now))"

inductive eng_environ :: "(wf_store \<Rightarrow> wf_store) \<Rightarrow> bool" where
  job_work: "eng_environ (\<lambda>s. s\<lparr>ws_jobs := g (ws_jobs s)\<rparr>)"
| tick: "t \<ge> 0 \<Longrightarrow> eng_environ (\<lambda>s. s\<lparr>ws_now := ws_now s + t\<rparr>)"
| retention: "eng_environ (gc runs_before events_before)"
| erasure: "eng_environ (\<lambda>s. snd (purge_subject subject s))"

definition eng_steps :: "wf_engine \<Rightarrow> wf_store \<times> unit eng list \<Rightarrow> wf_store \<times> unit eng list \<Rightarrow> bool" where
  "eng_steps e = prog_steps (started e) eng_environ"

definition well_behaved :: "wf_engine \<Rightarrow> bool" where
  "well_behaved e \<longleftrightarrow> inj (en_uid e) \<and> (\<forall>req. all_tx (engine_tx (en_uid e)) (en_executor e req))"

lemma started_ok: "well_behaved e \<Longrightarrow> started e p \<Longrightarrow> all_tx (engine_tx (en_uid e)) p"
  by (erule started.cases) (auto simp: discard_def well_behaved_def intro!: all_tx_bind all_tx_execute)

lemma environ_ok: "eng_environ g \<Longrightarrow> engine_tx uid g"
  by (erule eng_environ.cases) (auto intro: engine_tx.ticking)

lemma eng_steps_invariant:
  assumes "well_behaved e" and "eng_steps e (s, ps) (t, qs)" and "\<forall>p \<in> set ps. all_tx (engine_tx (en_uid e)) p" and "P s"
    and "\<And>f s. engine_tx (en_uid e) f \<Longrightarrow> P s \<Longrightarrow> P (f s)"
  shows "P t" and "\<forall>p \<in> set qs. all_tx (engine_tx (en_uid e)) p"
proof -
  have starts: "all_tx (engine_tx (en_uid e)) p" if "started e p" for p using assms(1) that by (rule started_ok)
  have environ: "engine_tx (en_uid e) g" if "eng_environ g" for g using that by (rule environ_ok)
  have "P t \<and> (\<forall>p \<in> set qs. all_tx (engine_tx (en_uid e)) p)"
    by (rule prog_steps_from [where starts = "started e" and environ = eng_environ and P = P, OF starts environ])
      (use assms(2-5) in \<open>simp_all add: eng_steps_def\<close>)
  then show "P t" and "\<forall>p \<in> set qs. all_tx (engine_tx (en_uid e)) p" by simp_all
qed

lemma eng_steps_crashed: "started e p \<Longrightarrow> eng_steps e (s, []) (prog_prefix n p s, [])"
  unfolding eng_steps_def by (rule prog_steps_crashed)

text \<open>
  An engine with one workflow, whose function runs one step: the executor records it and completes. The ids
  of runs are \<open>r\<close>, \<open>rr\<close> and so on.
\<close>

definition demo_uid :: "nat \<Rightarrow> string" where
  "demo_uid n = replicate (Suc n) (CHR ''r'')"

definition demo_engine :: wf_engine where
  "demo_engine =
     \<lparr>en_configs = [(''w'', default_config ''w'')], en_uid = demo_uid, en_jitter = 0,
      en_executor = \<lambda>req. Tx (record_step (req_runId req) ''s'' ''run'' (Some ''2''))
        (\<lambda>_. Ret (Ok (json_text (JObj [(''type'', JStr ''completed'')]))))\<rparr>"

lemma demo_uid_inj: "inj demo_uid"
  by (rule injI) (metis demo_uid_def length_replicate old.nat.inject)

lemma demo_well_behaved: "well_behaved demo_engine"
  by (simp add: well_behaved_def demo_engine_def demo_uid_inj)

lemma trigger_steps [simp]: "ws_steps (snd (prog_run (trigger_blocking e w input idem d subject) s)) = ws_steps s"
  using create_run_steps [of "en_uid e"]
  by (simp add: trigger_blocking_def prog_run_bind push_execution_def split: prod.split)

lemma empty_runs_ok: "runs_ok uid empty_store"
  by (simp add: runs_ok_def empty_store_def run_keys_def List.map_filter_simps)

lemma reached_runs_ok:
  assumes "well_behaved e" and "eng_steps e (empty_store, []) (s, ps)"
  shows "runs_ok (en_uid e) s" "\<forall>p \<in> set ps. all_tx (engine_tx (en_uid e)) p"
proof -
  have keep: "runs_ok (en_uid e) (f u)" if "engine_tx (en_uid e) f" "runs_ok (en_uid e) u" for f u
    by (rule engine_tx_runs_ok [OF _ that]) (use assms(1) in \<open>simp add: well_behaved_def\<close>)
  show "runs_ok (en_uid e) s"
    by (rule eng_steps_invariant(1) [where P = "runs_ok (en_uid e)", OF assms(1,2)]) (simp_all add: keep empty_runs_ok)
  show "\<forall>p \<in> set ps. all_tx (engine_tx (en_uid e)) p" by (rule eng_steps_invariant(2) [OF assms(1,2), where P = "\<lambda>_. True"]) simp_all
qed

text \<open>
  C11: Effectively once. In every state the engine reaches from an empty store, once a step of a run is
  recorded, it stays recorded with the same kind and result, whatever operations interleave (attempts, triggers,
  events, cancellations, sweeps, retention and the erasure of a subject included), wherever they crash, however
  often the attempt is delivered again and whatever later attempts try to record for it; the only way to lose it
  is that its run is deleted, and then no run has that id again. (Run ids do not repeat; the executor's
  transactions are the engine's.)
\<close>

theorem recorded_for_good:
  assumes "well_behaved e" and "eng_steps e (empty_store, []) (s, ps)" and "eng_steps e (s, ps) (t, qs)"
    and "map_get (ws_steps s) (i, sid) = Some r" and "sr_done r"
  shows "(\<exists>q. map_get (ws_steps t) (i, sid) = Some q \<and> sr_done q \<and> sr_kind q = sr_kind r \<and> sr_result q = sr_result r) \<or>
    (\<forall>u us. eng_steps e (t, qs) (u, us) \<longrightarrow> get_run i u = None)"
proof -
  note reached = reached_runs_ok [OF assms(1,2)]
  have inj: "inj (en_uid e)" using assms(1) by (simp add: well_behaved_def)
  have kept: "journal_kept (en_uid e) x u \<and> (\<forall>p \<in> set us. all_tx (engine_tx (en_uid e)) p)"
    if "eng_steps e (x, xs) (u, us)" "\<forall>p \<in> set xs. all_tx (engine_tx (en_uid e)) p" for x xs u us
  proof -
    have step: "journal_kept (en_uid e) x (f v)" if "engine_tx (en_uid e) f" "journal_kept (en_uid e) x v" for f v
      using journal_kept_trans [OF that(2) engine_tx_kept [OF inj that(1)]] .
    have refl: "journal_kept (en_uid e) x x" by (rule journal_kept_le) simp_all
    show ?thesis
      by (intro conjI; rule eng_steps_invariant [where P = "journal_kept (en_uid e) x", OF assms(1) that]; blast intro: refl step)
  qed
  note st = kept [OF assms(3) reached(2)]
  show ?thesis
  proof (cases "run_gone (en_uid e) i t")
    case True
    have "runs_ok (en_uid e) t" using st reached(1) by (simp add: journal_kept_def)
    have "get_run i u = None" if "eng_steps e (t, qs) (u, us)" for u us
    proof -
      have "journal_kept (en_uid e) t u" using kept [OF that] st by simp
      then have "run_gone (en_uid e) i u" using \<open>runs_ok (en_uid e) t\<close> True by (simp add: journal_kept_def)
      then show ?thesis by (simp add: run_gone_def)
    qed
    then show ?thesis by blast
  qed (use st reached(1) assms(4,5) in \<open>unfold journal_kept_def, blast\<close>)
qed

lemma eng_steps_trans: "eng_steps e a b \<Longrightarrow> eng_steps e b c \<Longrightarrow> eng_steps e a c"
  unfolding eng_steps_def prog_steps_def by (rule rtranclp_trans)

definition demo_payload :: string where
  "demo_payload = pj_payload (workflow_execution_job [] ''r'' 0)"

lemma demo_payload_run: "payload_run demo_payload = Some ''r''"
  by code_simp

definition triggered_store :: wf_store where
  "triggered_store = prog_prefix 9 (discard (trigger_blocking demo_engine ''w'' ''{}'' (Some ''k'') 0 None)) empty_store"

lemma triggered_run: "\<exists>run. get_run ''r'' triggered_store = Some run \<and> runnable run" "ws_steps triggered_store = []"
proof -
  have "map_option runnable (get_run ''r'' triggered_store) = Some True" by code_simp
  then show "\<exists>run. get_run ''r'' triggered_store = Some run \<and> runnable run" by auto
  show "ws_steps triggered_store = []" by code_simp
qed

text \<open>A delivery that dies once its step is recorded.\<close>

lemma demo_delivery:
  assumes "get_run ''r'' s = Some run" and "runnable run"
  shows "prog_prefix 3 (discard (execute demo_engine ''w'' demo_payload)) s = record_step ''r'' ''s'' ''run'' (Some ''2'') s"
  using assms by (simp add: discard_def execute_def demo_payload_run query_def demo_engine_def eval_nat_numeral)

lemma record_step_run [simp]: "get_run j (record_step i sid kind result s) = get_run j s"
  by (simp add: get_run_def record_step_def split: option.split)

lemma recorded_for_good_witness:
  "let s = record_step ''r'' ''s'' ''run'' (Some ''2'') triggered_store; t = record_step ''r'' ''s'' ''run'' (Some ''2'') s
   in \<exists>q. map_get (ws_steps t) (''r'', ''s'') = Some q \<and> sr_done q \<and> sr_kind q = ''run'' \<and> sr_result q = Some ''2''"
proof -
  let ?s = "record_step ''r'' ''s'' ''run'' (Some ''2'') triggered_store"
  let ?t = "record_step ''r'' ''s'' ''run'' (Some ''2'') ?s"
  let ?deliver = "\<lambda>s. prog_prefix 3 (discard (execute demo_engine ''w'' demo_payload)) s"
  obtain run where run: "get_run ''r'' triggered_store = Some run" "runnable run" using triggered_run(1) by blast
  have "eng_steps demo_engine (empty_store, []) (triggered_store, [])"
    unfolding triggered_store_def by (rule eng_steps_crashed [OF started.trigger])
  moreover have step: "eng_steps demo_engine (s, []) (?deliver s, [])" for s by (rule eng_steps_crashed [OF started.exec])
  from step [of triggered_store] have "eng_steps demo_engine (triggered_store, []) (?s, [])" using demo_delivery [OF run] by simp
  ultimately have s: "eng_steps demo_engine (empty_store, []) (?s, [])" by (rule eng_steps_trans)
  have get: "get_run ''r'' ?s = Some run" "get_run ''r'' ?t = Some run" using run(1) by simp_all
  have t: "eng_steps demo_engine (?s, []) (?t, [])" using step [of ?s] demo_delivery [OF get(1) run(2)] by simp
  obtain r where r: "map_get (ws_steps ?s) (''r'', ''s'') = Some r" "sr_done r" "sr_kind r = ''run''" "sr_result r = Some ''2''"
    by (simp add: record_step_def triggered_run(2) jsmap_simps)
  have "eng_steps demo_engine (?t, []) (?t, [])" by (simp add: eng_steps_def prog_steps_def)
  with recorded_for_good [OF demo_well_behaved s t r(1,2)] r get(2) show ?thesis
    unfolding Let_def by (metis option.distinct(1))
qed

text \<open>
  C12: One run per idempotency key. From an empty store, whatever interleaves and crashes, and whatever the
  retention sweep and erasures delete, no two runs of the store have the same id and no two runs of one workflow
  the same idempotency key; in particular an invoke step, whose key is made of the parent run and the step,
  never has two children. (Generated run ids do not repeat; the executor's transactions are the engine's.)
\<close>

theorem one_run_per_key:
  assumes "well_behaved e" and "eng_steps e (empty_store, []) (t, ps)"
  shows "distinct (map wr_id (ws_runs t)) \<and>
    (\<forall>r \<in> set (ws_runs t). \<forall>q \<in> set (ws_runs t). wr_workflow r = wr_workflow q \<and> wr_idem r = wr_idem q \<and> wr_idem r \<noteq> None \<longrightarrow> r = q)"
proof -
  have ok: "runs_ok (en_uid e) t" by (rule reached_runs_ok [OF assms])
  have one: "x = y"
    if "distinct (List.map_filter h rs)" "x \<in> set rs" "y \<in> set rs" "h x = Some z" "h y = Some z" for h :: "wf_run \<Rightarrow> (string \<times> string) option" and rs x y z
    using that
  proof (induction rs)
    case (Cons a rs)
    have "z \<in> set (List.map_filter h rs)" if "w \<in> set rs" "h w = Some z" for w
      using that by (force simp: List.map_filter_def)
    with Cons show ?case by (auto simp: List.map_filter_simps split: option.splits)
  qed simp
  have "distinct (run_keys t)" using ok by (simp add: runs_ok_def)
  then show ?thesis using ok one unfolding run_keys_def runs_ok_def by fastforce
qed

lemma one_run_per_key_witness:
  "let t = prog_prefix 1 (discard (trigger_blocking demo_engine ''w'' ''{}'' (Some ''k'') 0 None)) empty_store
   in map wr_id (ws_runs t) = [''r''] \<and> distinct (map wr_id (ws_runs t)) \<and> hd (ws_runs t) = last (ws_runs t)"
proof -
  let ?t = "prog_prefix 1 (discard (trigger_blocking demo_engine ''w'' ''{}'' (Some ''k'') 0 None)) empty_store"
  have t: "hd (ws_runs ?t) \<in> set (ws_runs ?t)" "last (ws_runs ?t) \<in> set (ws_runs ?t)"
    "wr_idem (hd (ws_runs ?t)) = Some ''k''" "wr_idem (last (ws_runs ?t)) = Some ''k''"
    "wr_workflow (hd (ws_runs ?t)) = wr_workflow (last (ws_runs ?t))" "map wr_id (ws_runs ?t) = [''r'']"
    by (simp_all add: discard_def trigger_blocking_def create_run_def empty_store_def run_of_def tx_def keyed_run_def Let_def
        demo_engine_def demo_uid_def)
  have "eng_steps demo_engine (empty_store, []) (?t, [])" by (rule eng_steps_crashed [OF started.trigger])
  from one_run_per_key [OF demo_well_behaved this] t show ?thesis unfolding Let_def by (metis option.distinct(1))
qed

end
