(* ===== verification/Worker.thy ===== *)
theory Worker
  imports Claims Engine Doubles
begin

text \<open>
  The queue worker (\<open>QueueWorker::run\<close>, \<open>run_group\<close>, \<open>TokenBucket\<close> in \<open>crates/zenzip-core/src/queue.rs\<close>): one
  pass of the claiming loop over the permits, the pause flag and the rate limit, the groups of jobs it
  runs, and how a group is settled. The worker takes its steps among other workers, sweeper and operators
  on the job table of \<open>Jobs\<close>. The bucket computes on doubles; instants are nanoseconds.
\<close>

section \<open>The token bucket\<close>

record bucket =
  bk_capacity :: rat
  bk_tokens :: rat
  bk_refill :: rat
  bk_last :: nat

definition new_bucket :: "nat \<Rightarrow> nat \<Rightarrow> nat \<Rightarrow> bucket" where
  "new_bucket mx per_ms now =
     (let capacity = of_nat (max 1 mx)
      in \<lparr>bk_capacity = capacity, bk_tokens = capacity, bk_refill = fl (capacity / fl (of_nat (max 1 per_ms))), bk_last = now\<rparr>)"

definition as_secs_f64 :: "nat \<Rightarrow> rat" where
  "as_secs_f64 ns = fl (fl (of_nat (ns div 10 ^ 9)) + fl (of_nat (ns mod 10 ^ 9) / 10 ^ 9))"

definition refill :: "nat \<Rightarrow> bucket \<Rightarrow> bucket" where
  "refill now b =
     (let elapsed_ms = fl (as_secs_f64 (now - bk_last b) * 1000)
      in b\<lparr>bk_tokens := min (fl (bk_tokens b + fl (elapsed_ms * bk_refill b))) (bk_capacity b), bk_last := now\<rparr>)"

definition bucket_take :: "nat \<Rightarrow> nat \<Rightarrow> bucket \<Rightarrow> nat \<times> bucket" where
  "bucket_take now want b0 =
     (let b = refill now b0; granted = min want (min (nat \<lfloor>bk_tokens b\<rfloor>) (2 ^ 32 - 1))
      in (granted, b\<lparr>bk_tokens := fl (bk_tokens b - of_nat granted)\<rparr>))"

definition ms_until_token :: "bucket \<Rightarrow> nat" where
  "ms_until_token b = (if bk_tokens b \<ge> 1 then 0 else nat \<lceil>fl (fl (1 - bk_tokens b) / bk_refill b)\<rceil>)"

definition give_back :: "nat \<Rightarrow> bucket \<Rightarrow> bucket" where
  "give_back n b = b\<lparr>bk_tokens := min (fl (bk_tokens b + of_nat n)) (bk_capacity b)\<rparr>"

section \<open>The worker\<close>

record queue_config =
  qc_name :: string
  qc_concurrency :: nat
  qc_max_attempts :: nat
  qc_backoff :: backoff
  qc_lease :: int
  qc_poll :: nat
  qc_batch :: nat
  qc_handler_batch :: nat
  qc_rate :: "(nat \<times> nat) option"
  qc_key_limit :: "nat option"
  qc_fair :: bool

definition new_queue_config :: "string \<Rightarrow> queue_config" where
  "new_queue_config name =
     \<lparr>qc_name = name, qc_concurrency = 10, qc_max_attempts = 3, qc_backoff = \<lparr>bo_delay = 1000, bo_max = 60000\<rparr>, qc_lease = 30000, qc_poll = 250,
      qc_batch = 32, qc_handler_batch = 1, qc_rate = None, qc_key_limit = None, qc_fair = False\<rparr>"

text \<open>The counters a worker writes, as mathematical numbers.\<close>

record worker_metrics =
  wm_completed :: nat
  wm_retried :: nat
  wm_dead :: nat
  wm_handler_sum :: nat
  wm_handler_max :: nat
  wm_handler_count :: nat

definition new_metrics :: worker_metrics where
  "new_metrics =
     \<lparr>wm_completed = 0, wm_retried = 0, wm_dead = 0, wm_handler_sum = 0, wm_handler_max = 0, wm_handler_count = 0\<rparr>"

definition record_handler :: "nat \<Rightarrow> worker_metrics \<Rightarrow> worker_metrics" where
  "record_handler elapsed m =
     m\<lparr>wm_handler_sum := wm_handler_sum m + elapsed, wm_handler_count := wm_handler_count m + 1,
       wm_handler_max := max (wm_handler_max m) elapsed\<rparr>"

definition handler_avg_ms :: "worker_metrics \<Rightarrow> rat" where
  "handler_avg_ms m =
     (if wm_handler_count m > 0 then fl (fl (of_nat (wm_handler_sum m)) / fl (of_nat (wm_handler_count m))) else 0)"

text \<open>The free permits, the groups whose handler runs (each holds a permit), the bucket, the pause flag.\<close>

record worker =
  wk_free :: nat
  wk_groups :: "claimed_job list list"
  wk_bucket :: "bucket option"
  wk_paused :: bool
  wk_cancelled :: bool
  wk_metrics :: worker_metrics

definition permits :: "queue_config \<Rightarrow> nat" where
  "permits cfg = max 1 (qc_concurrency cfg)"

definition group_size :: "queue_config \<Rightarrow> nat" where
  "group_size cfg = max 1 (qc_handler_batch cfg)"

definition start_worker :: "queue_config \<Rightarrow> nat \<Rightarrow> worker" where
  "start_worker cfg now =
     \<lparr>wk_free = permits cfg, wk_groups = [], wk_bucket = map_option (\<lambda>(mx, per). new_bucket mx per now) (qc_rate cfg),
      wk_paused = False, wk_cancelled = False, wk_metrics = new_metrics\<rparr>"

text \<open>What ends a pass of the claiming loop.\<close>

datatype pass_end = Go_On | Stopped | Paused | Saturated | Rate_Wait nat | Claim_Failed | Drained

fun chunks :: "nat \<Rightarrow> 'a list \<Rightarrow> 'a list list" where
  "chunks n [] = []"
| "chunks n (x # xs) = take (max 1 n) (x # xs) # chunks n (drop (max 1 n) (x # xs))"

text \<open>A group takes a permit; with none free the worker would have to wait (\<open>None\<close>).\<close>

fun spawn_groups :: "claimed_job list list \<Rightarrow> worker \<Rightarrow> worker option" where
  "spawn_groups [] w = Some w"
| "spawn_groups (g # gs) w =
     (if wk_free w = 0 then None
      else spawn_groups gs (w\<lparr>wk_free := wk_free w - 1, wk_groups := wk_groups w @ [g]\<rparr>))"

definition wanted :: "queue_config \<Rightarrow> worker \<Rightarrow> nat" where
  "wanted cfg w = min (min (wk_free w * group_size cfg) (2 ^ 32 - 1)) (max (qc_batch cfg) (group_size cfg))"

definition take_tokens :: "nat \<Rightarrow> nat \<Rightarrow> worker \<Rightarrow> nat \<times> worker" where
  "take_tokens now_ns want w =
     (case wk_bucket w of
        None \<Rightarrow> (want, w)
      | Some b \<Rightarrow> (case bucket_take now_ns want b of (granted, b') \<Rightarrow> (granted, w\<lparr>wk_bucket := Some b'\<rparr>)))"

text \<open>
  One pass: \<open>now_ns\<close> is the worker's instant, \<open>now\<close> the store's clock, \<open>answered\<close> whether the store
  answers the claim.
\<close>

definition worker_pass ::
    "queue_config \<Rightarrow> nat \<Rightarrow> int \<Rightarrow> bool \<Rightarrow> worker \<times> jobs_db \<Rightarrow> (pass_end \<times> worker \<times> jobs_db) option" where
  "worker_pass cfg now_ns now answered = (\<lambda>(w, db).
     if wk_cancelled w then Some (Stopped, w, db)
     else if wk_paused w then Some (Paused, w, db)
     else if wk_free w = 0 then Some (Saturated, w, db)
     else
       (let (want, w1) = take_tokens now_ns (wanted cfg w) w
        in if wk_bucket w1 \<noteq> None \<and> want = 0
           then Some (Rate_Wait (max 1 (case wk_bucket w1 of Some b \<Rightarrow> ms_until_token b | None \<Rightarrow> 0)), w1, db)
           else if \<not> answered then Some (Claim_Failed, w1, db)
           else
             (let (new, db') = claim_jobs (qc_name cfg) want (qc_lease cfg) (qc_key_limit cfg) (qc_fair cfg) now db;
                  w2 = w1\<lparr>wk_bucket := map_option (give_back (want - length new)) (wk_bucket w1)\<rparr>
              in if new = [] then Some (Drained, w2, db')
                 else map_option (\<lambda>w3. (Go_On, w3, db')) (spawn_groups (chunks (group_size cfg) new) w2))))"

text \<open>How long the loop sleeps after a pass that ended; saturated, it waits for a permit instead, stopped, it returns.\<close>

definition sleep_ms :: "queue_config \<Rightarrow> pass_end \<Rightarrow> nat option" where
  "sleep_ms cfg e =
     (case e of Go_On \<Rightarrow> Some 0 | Saturated \<Rightarrow> None | Stopped \<Rightarrow> None | Rate_Wait w \<Rightarrow> Some (min w (qc_poll cfg)) | _ \<Rightarrow> Some (qc_poll cfg))"

section \<open>Settling a group\<close>

text \<open>What the store and the clock say when a job is settled: the time, the jitter, whether the write succeeds.\<close>

record store_answer =
  sa_now :: int
  sa_jitter :: int
  sa_stored :: bool

definition settle_member :: "queue_config \<Rightarrow> string option \<Rightarrow> (claimed_job \<Rightarrow> store_answer) \<Rightarrow> claimed_job \<Rightarrow> jobs_db \<Rightarrow> jobs_db" where
  "settle_member cfg result env c db =
     (if sa_stored (env c)
      then settle_job c result (sa_now (env c) + delay_for (qc_backoff cfg) (sa_jitter (env c)) (c_attempt c)) db
      else db)"

definition count_outcomes :: "string option \<Rightarrow> claimed_job list \<Rightarrow> worker_metrics \<Rightarrow> worker_metrics" where
  "count_outcomes result cs m =
     (case result of
        None \<Rightarrow> m\<lparr>wm_completed := wm_completed m + length cs\<rparr>
      | Some err \<Rightarrow>
          m\<lparr>wm_dead := wm_dead m + length (filter (\<lambda>c. c_attempt c \<ge> c_max c) cs),
            wm_retried := wm_retried m + length (filter (\<lambda>c. c_attempt c < c_max c) cs)\<rparr>)"

definition finish_group ::
    "queue_config \<Rightarrow> nat \<Rightarrow> string option \<Rightarrow> (claimed_job \<Rightarrow> store_answer) \<Rightarrow> claimed_job list \<Rightarrow> worker \<times> jobs_db \<Rightarrow> worker \<times> jobs_db" where
  "finish_group cfg elapsed result env g = (\<lambda>(w, db).
     (w\<lparr>wk_free := wk_free w + 1, wk_groups := remove1 g (wk_groups w),
        wk_metrics := count_outcomes result g (record_handler elapsed (wk_metrics w))\<rparr>,
      fold (settle_member cfg result env) g db))"

text \<open>
  The settlements of a group are awaited one by one: what the first of them does, with the others to come.
  A group whose members are settled holds its permit until its task ends (\<open>finish_group\<close> on what is left).
\<close>

definition settle_next ::
    "queue_config \<Rightarrow> string option \<Rightarrow> (claimed_job \<Rightarrow> store_answer) \<Rightarrow> nat \<Rightarrow> worker \<times> jobs_db \<Rightarrow> worker \<times> jobs_db" where
  "settle_next cfg result env k = (\<lambda>(w, db).
     (case wk_groups w ! k of
        [] \<Rightarrow> (w, db)
      | c # g \<Rightarrow>
          (w\<lparr>wk_groups := (wk_groups w)[k := g], wk_metrics := count_outcomes result [c] (wk_metrics w)\<rparr>,
           settle_member cfg result env c db)))"

fun renew_leases :: "claimed_job list \<Rightarrow> int \<Rightarrow> jobs_db \<Rightarrow> jobs_db" where
  "renew_leases [] until db = db"
| "renew_leases (c # cs) until db = renew_leases cs until (renew_lease (c_id c) (c_fence c) until db)"

section \<open>A worker among others\<close>

text \<open>\<open>others\<close> are the claims of other workers; they, the sweeper and operators take the steps of \<open>Jobs\<close>.\<close>

inductive worker_step ::
    "queue_config \<Rightarrow> claim_configs \<Rightarrow> worker \<times> jobs_db \<times> claimed_job list \<Rightarrow> worker \<times> jobs_db \<times> claimed_job list \<Rightarrow> bool"
  for cfg C where
  pass: "worker_pass cfg now_ns now answered (w, db) = Some (e, w', db') \<Longrightarrow> worker_step cfg C (w, db, others) (w', db', others)"
| finish: "g \<in> set (wk_groups w) \<Longrightarrow> finish_group cfg elapsed result env g (w, db) = (w', db') \<Longrightarrow>
    worker_step cfg C (w, db, others) (w', db', others)"
| settle: "k < length (wk_groups w) \<Longrightarrow> settle_next cfg result env k (w, db) = (w', db') \<Longrightarrow>
    worker_step cfg C (w, db, others) (w', db', others)"
| renew: "g \<in> set (wk_groups w) \<Longrightarrow> worker_step cfg C (w, db, others) (w, renew_leases g until db, others)"
| pause: "worker_step cfg C (w, db, others) (w\<lparr>wk_paused := b\<rparr>, db, others)"
| cancel: "worker_step cfg C (w, db, others) (w\<lparr>wk_cancelled := True\<rparr>, db, others)"
| die: "worker_step cfg C (w, db, others) (start_worker cfg now_ns, db, others)"
| other: "job_step C (db, others) (db', others') \<Longrightarrow> worker_step cfg C (w, db, others) (w, db', others')"

inductive worker_reach :: "queue_config \<Rightarrow> claim_configs \<Rightarrow> worker \<times> jobs_db \<times> claimed_job list \<Rightarrow> bool" for cfg C where
  start: "job_reach C (db, others) \<Longrightarrow> worker_reach cfg C (start_worker cfg now_ns, db, others)"
| step: "worker_reach cfg C s \<Longrightarrow> worker_step cfg C s t \<Longrightarrow> worker_reach cfg C t"

section \<open>Rounding\<close>

lemma rne_le: "y \<le> of_int k \<Longrightarrow> rne y \<le> k"
proof -
  assume y: "y \<le> of_int k"
  then have f: "\<lfloor>y\<rfloor> \<le> k" by linarith
  show "rne y \<le> k"
  proof (cases "\<lfloor>y\<rfloor> = k")
    case True
    then have "y = of_int k" using y by linarith
    then show ?thesis by simp
  next
    case False
    then show ?thesis using f by (auto simp: rne_def Let_def)
  qed
qed

lemma fl_le_int:
  assumes "0 \<le> x" and "x \<le> of_int m" and "m < 2 ^ 53"
  shows "fl x \<le> of_int m"
proof (cases "x = 0")
  case False
  then have pos: "0 < x" using assms(1) by simp
  have "x < of_int (2 ^ 53)" using assms(2,3) by (metis le_less_trans of_int_less_iff)
  then have "x < 2 powi 53" by (simp add: power_int_def)
  then have "ilog2 x < 53" by (rule ilog2_less [OF pos])
  then have "- int (nat (52 - ilog2 x)) = ilog2 x - 52" by simp
  then obtain n where n: "ilog2 x - 52 = - int n" by metis
  have "x / 2 powi (- int n) \<le> of_int (m * 2 ^ n)"
    using assms(2) by (simp add: power_int_minus field_simps)
  then have "rne (x / 2 powi (- int n)) \<le> m * 2 ^ n" by (rule rne_le)
  then have "(of_int (rne (x / 2 powi (- int n))) :: rat) \<le> of_int (m * 2 ^ n)" by (simp only: of_int_le_iff)
  moreover have "fl x = of_int (rne (x / 2 powi (- int n))) * 2 powi (- int n)"
    using n pos by (simp add: fl_def Let_def)
  ultimately have "fl x * 2 ^ n \<le> of_int m * 2 ^ n" by (simp add: power_int_minus field_simps)
  then show ?thesis by (rule mult_right_le_imp_le) simp
qed (use assms in simp)

section \<open>The bucket stays within its bounds\<close>

definition bucket_ok :: "nat \<Rightarrow> bucket \<Rightarrow> bool" where
  "bucket_ok mx b \<longleftrightarrow> bk_capacity b = of_nat (max 1 mx) \<and> 0 \<le> bk_tokens b \<and> bk_tokens b \<le> of_nat (max 1 mx) \<and> 0 \<le> bk_refill b"

lemma new_bucket_ok: "bucket_ok mx (new_bucket mx per now)"
  by (auto simp: bucket_ok_def new_bucket_def Let_def intro!: fl_nonneg divide_nonneg_nonneg)

lemma refill_ok: "bucket_ok mx b \<Longrightarrow> bucket_ok mx (refill now b)"
  unfolding bucket_ok_def refill_def as_secs_f64_def Let_def
  by (auto intro!: fl_nonneg add_nonneg_nonneg mult_nonneg_nonneg divide_nonneg_nonneg)

lemma give_back_ok: "bucket_ok mx b \<Longrightarrow> bucket_ok mx (give_back n b)"
  unfolding bucket_ok_def give_back_def by (auto intro!: fl_nonneg add_nonneg_nonneg)

lemma bucket_take_ok:
  assumes ok: "bucket_ok mx b" and take: "bucket_take now want b = (granted, b')" and mx: "mx < 2 ^ 32"
  shows "bucket_ok mx b' \<and> granted \<le> want \<and> granted \<le> max 1 mx"
proof -
  define c where "c = refill now b"
  have c: "bucket_ok mx c" unfolding c_def by (rule refill_ok [OF ok])
  have granted: "granted = min want (min (nat \<lfloor>bk_tokens c\<rfloor>) (2 ^ 32 - 1))" and b': "b' = c\<lparr>bk_tokens := fl (bk_tokens c - of_nat granted)\<rparr>"
    using take by (auto simp: bucket_take_def Let_def c_def)
  have "of_nat granted \<le> bk_tokens c" using granted c unfolding bucket_ok_def by linarith
  then have nn: "0 \<le> bk_tokens c - of_nat granted" by simp
  have "bk_tokens c - of_nat granted \<le> of_int (int (max 1 mx))" using c unfolding bucket_ok_def by (simp add: max_def split: if_splits)
  then have "fl (bk_tokens c - of_nat granted) \<le> of_int (int (max 1 mx))" by (rule fl_le_int [OF nn]) (use mx in auto)
  moreover have "granted \<le> max 1 mx"
    using \<open>of_nat granted \<le> bk_tokens c\<close> c unfolding bucket_ok_def by (metis of_nat_le_iff order_trans)
  ultimately show ?thesis using c b' granted fl_nonneg [OF nn] by (simp add: bucket_ok_def)
qed

section \<open>Chunks and permits\<close>

lemma concat_chunks [simp]: "concat (chunks n xs) = xs"
proof (induction n xs rule: chunks.induct)
  case (2 n x xs)
  then show ?case by (simp only: chunks.simps concat.simps append_take_drop_id)
qed simp

lemma chunks_size: "g \<in> set (chunks n xs) \<Longrightarrow> g \<noteq> [] \<and> length g \<le> max 1 n"
  by (induction n xs rule: chunks.induct) auto

lemma chunks_count: "length xs \<le> k * max 1 n \<Longrightarrow> length (chunks n xs) \<le> k"
proof (induction n xs arbitrary: k rule: chunks.induct)
  case (2 n x xs)
  then obtain k' where k: "k = Suc k'" by (cases k) auto
  have "length (drop (max 1 n) (x # xs)) \<le> k' * max 1 n" using 2(2) unfolding k by simp
  then have "length (chunks n (drop (max 1 n) (x # xs))) \<le> k'" by (rule 2(1))
  then show ?case by (simp add: k)
qed simp

lemma spawn_groups_eq:
  "length gs \<le> wk_free w \<Longrightarrow> spawn_groups gs w = Some (w\<lparr>wk_free := wk_free w - length gs, wk_groups := wk_groups w @ gs\<rparr>)"
  by (induction gs arbitrary: w) auto

definition rate_ok :: "queue_config \<Rightarrow> bucket option \<Rightarrow> bool" where
  "rate_ok cfg bo =
     (case qc_rate cfg of
        None \<Rightarrow> bo = None
      | Some (mx, per) \<Rightarrow> (case bo of None \<Rightarrow> False | Some b \<Rightarrow> bucket_ok mx b))"

definition worker_ok :: "queue_config \<Rightarrow> worker \<Rightarrow> bool" where
  "worker_ok cfg w \<longleftrightarrow>
     wk_free w + length (wk_groups w) = permits cfg \<and>
     (\<forall>g \<in> set (wk_groups w). length g \<le> group_size cfg) \<and>
     rate_ok cfg (wk_bucket w)"

definition rate_fits :: "queue_config \<Rightarrow> bool" where
  "rate_fits cfg \<longleftrightarrow> (case qc_rate cfg of None \<Rightarrow> True | Some (mx, per) \<Rightarrow> mx < 2 ^ 32)"

lemma start_worker_ok: "worker_ok cfg (start_worker cfg now)"
  by (auto simp: worker_ok_def rate_ok_def start_worker_def new_bucket_ok split: option.splits)

lemma take_tokens_ok:
  assumes "worker_ok cfg w" and "rate_fits cfg" and "take_tokens now want w = (n, w1)"
  shows "worker_ok cfg w1 \<and> n \<le> want \<and> wk_free w1 = wk_free w \<and> wk_groups w1 = wk_groups w"
proof (cases "wk_bucket w")
  case None
  then show ?thesis using assms by (simp add: take_tokens_def)
next
  case (Some b)
  obtain mx per where rate: "qc_rate cfg = Some (mx, per)" and b: "bucket_ok mx b"
    using assms(1) Some by (auto simp: worker_ok_def rate_ok_def split: option.splits)
  obtain b' where take: "bucket_take now want b = (n, b')" and w1: "w1 = w\<lparr>wk_bucket := Some b'\<rparr>"
    using assms(3) Some by (auto simp: take_tokens_def split: prod.splits)
  have "mx < 2 ^ 32" using assms(2) rate by (simp add: rate_fits_def)
  from bucket_take_ok [OF b take this] show ?thesis using assms(1) rate by (simp add: worker_ok_def rate_ok_def w1)
qed

text \<open>
  A pass ends without waiting for a permit: the jobs it asked for fit into the free ones. It changes the
  table only by a claim.
\<close>

lemma worker_pass_effect:
  assumes "worker_ok cfg w" and "rate_fits cfg"
  shows "\<exists>e w' db'. worker_pass cfg now_ns now answered (w, db) = Some (e, w', db') \<and> worker_ok cfg w' \<and>
    (db' = db \<and> wk_groups w' = wk_groups w \<and> e \<noteq> Go_On \<or>
     (\<exists>want new. claim_jobs (qc_name cfg) want (qc_lease cfg) (qc_key_limit cfg) (qc_fair cfg) now db = (new, db') \<and>
       \<not> wk_cancelled w \<and> \<not> wk_paused w \<and> wk_groups w' = wk_groups w @ chunks (group_size cfg) new))"
proof (cases "wk_cancelled w \<or> wk_paused w \<or> wk_free w = 0")
  case True
  then show ?thesis using assms by (auto simp: worker_pass_def)
next
  case False
  obtain want w1 where t: "take_tokens now_ns (wanted cfg w) w = (want, w1)" by fastforce
  have w1: "worker_ok cfg w1" "want \<le> wanted cfg w" "wk_free w1 = wk_free w" "wk_groups w1 = wk_groups w"
    using take_tokens_ok [OF assms t] by auto
  show ?thesis
  proof (cases "wk_bucket w1 \<noteq> None \<and> want = 0 \<or> \<not> answered")
    case True
    then show ?thesis using False w1 by (auto simp: worker_pass_def t)
  next
    case go: False
    obtain new db' where cl: "claim_jobs (qc_name cfg) want (qc_lease cfg) (qc_key_limit cfg) (qc_fair cfg) now db = (new, db')" by fastforce
    define w2 where "w2 = w1\<lparr>wk_bucket := map_option (give_back (want - length new)) (wk_bucket w1)\<rparr>"
    have w2: "worker_ok cfg w2" "wk_free w2 = wk_free w" "wk_groups w2 = wk_groups w"
      using w1 by (auto simp: worker_ok_def rate_ok_def w2_def give_back_ok split: option.splits)
    have "length new \<le> want" using claimed_ids [OF cl] picked_length by metis
    also have "\<dots> \<le> wk_free w * max 1 (group_size cfg)" using w1(2) by (simp add: wanted_def group_size_def)
    finally have fit: "length (chunks (group_size cfg) new) \<le> wk_free w2" using chunks_count w2(2) by metis
    have "worker_ok cfg (w2\<lparr>wk_free := wk_free w2 - length (chunks (group_size cfg) new), wk_groups := wk_groups w2 @ chunks (group_size cfg) new\<rparr>)"
      using w2(1) fit chunks_size [of _ "group_size cfg" new] by (auto simp: worker_ok_def group_size_def)
    moreover have "worker_pass cfg now_ns now answered (w, db) =
        (if new = [] then Some (Drained, w2, db')
         else map_option (\<lambda>w3. (Go_On, w3, db')) (spawn_groups (chunks (group_size cfg) new) w2))"
      using False go by (auto simp: worker_pass_def t cl w2_def)
    ultimately show ?thesis using False cl w2 spawn_groups_eq [OF fit]
      by (cases "new = []") (auto, metis chunks.simps(1))
  qed
qed

lemma remove_claim:
  assumes "c \<in> set a" and "mset cs = mset a + M"
  shows "c \<in> set cs \<and> mset (remove1 c cs) = mset (remove1 c a) + M"
proof -
  have "c \<in># mset a" using assms(1) by simp
  then have "M + mset a - {#c#} = M + (mset a - {#c#})" by (rule diff_union_single_conv)
  moreover have "c \<in> set cs" using assms by (metis UnI1 set_mset_mset set_mset_union)
  ultimately show ?thesis using assms(2) by (simp add: add.commute)
qed

lemma settle_jobs_frame:
  "job_step C (db, a) (db', b) \<Longrightarrow> mset cs = mset a + M \<Longrightarrow> \<exists>cs'. job_step C (db, cs) (db', cs') \<and> mset cs' = mset b + M"
proof (induction "(db, a)" "(db', b)" rule: job_step.induct)
  case (push now p)
  then show ?case by (blast intro: job_step.push)
next
  case (claim kl fair q limit lease now new)
  then have "job_step C (db, cs) (db', cs @ new)" by (blast intro: job_step.claim)
  then show ?case using claim by (intro exI [of _ "cs @ new"]) auto
next
  case (settle c result retry)
  then have c: "c \<in> set cs" "mset (remove1 c cs) = mset (remove1 c a) + M" using remove_claim [of c a cs M] by simp_all
  then show ?case using job_step.settle [OF c(1), of C db result retry] settle by auto
next
  case (crash c)
  then have c: "c \<in> set cs" "mset (remove1 c cs) = mset (remove1 c a) + M" using remove_claim [of c a cs M] by simp_all
  then show ?case using job_step.crash [OF c(1), of C db] crash by auto
qed (blast intro: job_step.intros)+

text \<open>A worker's state seen as a state of the job table: all claims in flight, in some order.\<close>

definition seen_as :: "claim_configs \<Rightarrow> worker \<times> jobs_db \<times> claimed_job list \<Rightarrow> claimed_job list \<Rightarrow> bool" where
  "seen_as C = (\<lambda>(w, db, others) cs. job_reach C (db, cs) \<and> mset cs = mset (concat (wk_groups w)) + mset others)"

lemma settle_members_reach:
  "job_reach C (db, cs) \<Longrightarrow> mset cs = mset g + M \<Longrightarrow>
   \<exists>cs'. job_reach C (fold (settle_member cfg result env) g db, cs') \<and> mset cs' = M"
proof (induction g arbitrary: db cs)
  case (Cons c g)
  have c: "c \<in> set cs" "mset (remove1 c cs) = mset g + M" using remove_claim [OF _ Cons.prems(2), of c] by auto
  have "job_step C (db, cs) (settle_member cfg result env c db, remove1 c cs)"
    using job_step.settle [OF c(1)] job_step.crash [OF c(1)] by (simp add: settle_member_def)
  with Cons.prems(1) have "job_reach C (settle_member cfg result env c db, remove1 c cs)" by (rule job_reach.step)
  then show ?case using Cons.IH c(2) by simp
qed auto

lemma renew_leases_reach: "job_reach C (db, cs) \<Longrightarrow> job_reach C (renew_leases g until db, cs)"
  by (induction g arbitrary: db) (auto intro: job_reach.step job_step.renew)

lemma lose_claims_reach: "job_reach C (db, cs) \<Longrightarrow> mset cs = mset g + M \<Longrightarrow> \<exists>cs'. job_reach C (db, cs') \<and> mset cs' = M"
proof (induction g arbitrary: cs)
  case (Cons c g)
  have c: "c \<in> set cs" "mset (remove1 c cs) = mset g + M" using remove_claim [OF _ Cons.prems(2), of c] by auto
  have "job_reach C (db, remove1 c cs)" using Cons.prems(1) job_step.crash [OF c(1)] by (rule job_reach.step)
  then show ?case using c(2) by (rule Cons.IH)
qed auto

lemma remove1_groups: "g \<in> set gs \<Longrightarrow> mset (concat gs) = mset g + mset (concat (remove1 g gs))"
  by (induction gs) auto

lemma worker_step_ok: "worker_step cfg C s t \<Longrightarrow> rate_fits cfg \<Longrightarrow> worker_ok cfg (fst s) \<Longrightarrow> worker_ok cfg (fst t)"
proof (induction rule: worker_step.induct)
  case (pass now_ns now answered w db e w' db' others)
  then show ?case using worker_pass_effect [of cfg w now_ns now answered db] by auto
next
  case (finish g w elapsed result env db w' db' others)
  have "length (wk_groups w) > 0" using finish.hyps(1) by auto
  then have "Suc (length (remove1 g (wk_groups w))) = length (wk_groups w)" using finish.hyps(1) by (simp add: length_remove1)
  then show ?case using finish
    by (auto simp: finish_group_def worker_ok_def simp del: length_remove1 dest: notin_set_remove1)
next
  case (settle k w result env db w' db' others)
  have "length g \<le> group_size cfg" if "wk_groups w ! k = c # g" for c g
    using settle.hyps(1) settle.prems(2) nth_mem [of k "wk_groups w"] that by (auto simp: worker_ok_def)
  then show ?case using settle set_update_subset_insert [of "wk_groups w" k]
    by (fastforce simp: settle_next_def worker_ok_def split: list.splits)
qed (simp_all add: worker_ok_def start_worker_ok [unfolded worker_ok_def])

lemma settled_groups:
  assumes "k < length gs" and "gs ! k = c # g"
  shows "mset (concat gs) = mset [c] + mset (concat (gs[k := g]))"
  using assms
proof (induction gs arbitrary: k)
  case (Cons x gs)
  then show ?case by (cases k) auto
qed simp

lemma worker_step_seen:
  assumes "worker_step cfg C s t" and "worker_ok cfg (fst s)" and "rate_fits cfg" and "(qc_key_limit cfg, qc_fair cfg) \<in> C (qc_name cfg)"
    and "seen_as C s cs"
  shows "\<exists>cs'. seen_as C t cs'"
  using assms
proof (induction rule: worker_step.induct)
  case (pass now_ns now answered w db e w' db' others)
  have reach: "job_reach C (db, cs)" and m: "mset cs = mset (concat (wk_groups w)) + mset others"
    using pass.prems by (auto simp: seen_as_def)
  consider "db' = db" "wk_groups w' = wk_groups w"
    | want new where "claim_jobs (qc_name cfg) want (qc_lease cfg) (qc_key_limit cfg) (qc_fair cfg) now db = (new, db')"
        "wk_groups w' = wk_groups w @ chunks (group_size cfg) new"
    using worker_pass_effect [of cfg w now_ns now answered db] pass by auto
  then show ?case
  proof cases
    case 1
    then show ?thesis using pass.prems by (auto simp: seen_as_def)
  next
    case 2
    have "job_step C (db, cs) (db', cs @ new)" using pass.prems(3) 2(1) by (rule job_step.claim)
    with reach have "job_reach C (db', cs @ new)" by (rule job_reach.step)
    then show ?thesis using m 2(2) by (intro exI [of _ "cs @ new"]) (simp add: seen_as_def)
  qed
next
  case (finish g w elapsed result env db w' db' others)
  then have "mset cs = mset g + (mset (concat (remove1 g (wk_groups w))) + mset others)" and reach: "job_reach C (db, cs)"
    using remove1_groups [of g "wk_groups w"] by (simp_all add: seen_as_def)
  from settle_members_reach [OF reach this(1)] obtain cs' where "job_reach C (fold (settle_member cfg result env) g db, cs')"
      "mset cs' = mset (concat (remove1 g (wk_groups w))) + mset others"
    by blast
  then show ?case using finish.hyps(2) by (intro exI [of _ cs']) (auto simp: seen_as_def finish_group_def)
next
  case (settle k w result env db w' db' others)
  show ?case
  proof (cases "wk_groups w ! k")
    case Nil
    then show ?thesis using settle by (auto simp: settle_next_def)
  next
    case (Cons c g)
    note split = settled_groups [OF settle.hyps(1) Cons]
    have "mset cs = mset [c] + (mset (concat ((wk_groups w)[k := g])) + mset others)" and reach: "job_reach C (db, cs)"
      using settle.prems(4) split by (simp_all add: seen_as_def add.assoc)
    from settle_members_reach [OF reach this(1), of cfg result env] obtain cs' where
      "job_reach C (settle_member cfg result env c db, cs')" "mset cs' = mset (concat ((wk_groups w)[k := g])) + mset others" by auto
    then show ?thesis using settle.hyps(2) Cons by (intro exI [of _ cs']) (auto simp: seen_as_def settle_next_def)
  qed
next
  case (renew g w db others until)
  then show ?case by (auto simp: seen_as_def intro: renew_leases_reach)
next
  case (die w db others now_ns)
  then have "job_reach C (db, cs)" "mset cs = mset (concat (wk_groups w)) + mset others" by (simp_all add: seen_as_def)
  from lose_claims_reach [OF this] show ?case by (simp add: seen_as_def start_worker_def)
next
  case (other db others db' others' w)
  then have reach: "job_reach C (db, cs)" and m: "mset cs = mset others + mset (concat (wk_groups w))" by (simp_all add: seen_as_def add.commute)
  from settle_jobs_frame [OF other.hyps m] reach show ?case by (auto simp: seen_as_def add.commute intro: job_reach.step)
qed (auto simp: seen_as_def)

lemma worker_reach_ok: "worker_reach cfg C s \<Longrightarrow> rate_fits cfg \<Longrightarrow> worker_ok cfg (fst s)"
proof (induction rule: worker_reach.induct)
  case (step s t)
  then show ?case using worker_step_ok by blast
qed (simp add: start_worker_ok)

lemma worker_reach_seen:
  "worker_reach cfg C s \<Longrightarrow> rate_fits cfg \<Longrightarrow> (qc_key_limit cfg, qc_fair cfg) \<in> C (qc_name cfg) \<Longrightarrow> \<exists>cs. seen_as C s cs"
proof (induction rule: worker_reach.induct)
  case (start db others now_ns)
  then show ?case by (intro exI [of _ others]) (simp add: seen_as_def start_worker_def)
next
  case (step s t)
  then show ?case using worker_step_seen worker_reach_ok by metis
qed

lemma sum_groups_bound: "(\<forall>g \<in> set gs. length g \<le> n) \<Longrightarrow> length (concat gs) \<le> length gs * n"
  by (induction gs) auto

section \<open>Properties\<close>

text \<open>
  C10: a worker keeps to its bounds. Whatever it claims, settles and renews, whoever pauses or stops it,
  whatever other workers, the sweeper and operators do in between: free permits and running groups add
  up to the concurrency, no group is larger than the batch of the handler, so the claims held are at most
  concurrency times batch, a pass never has to wait
  for a permit, the bucket (its maximum a 32-bit number) holds between no token and its maximum, and a paused or stopped worker claims
  nothing.
\<close>

theorem worker_bounds:
  assumes "worker_reach cfg C (w, db, others)" and "rate_fits cfg"
  shows "wk_free w + length (wk_groups w) = permits cfg \<and>
    (\<forall>g \<in> set (wk_groups w). length g \<le> group_size cfg) \<and>
    length (concat (wk_groups w)) \<le> permits cfg * group_size cfg \<and>
    rate_ok cfg (wk_bucket w) \<and>
    (\<exists>e w' db'. worker_pass cfg now_ns now answered (w, db) = Some (e, w', db') \<and> (wk_paused w \<or> wk_cancelled w \<longrightarrow> db' = db))"
proof -
  have ok: "worker_ok cfg w" using worker_reach_ok [OF assms] by simp
  then have "length (wk_groups w) \<le> permits cfg" "length (concat (wk_groups w)) \<le> length (wk_groups w) * group_size cfg"
    by (auto simp: worker_ok_def intro: sum_groups_bound)
  then have "length (concat (wk_groups w)) \<le> permits cfg * group_size cfg" by (meson le_trans mult_le_mono1)
  moreover have "\<exists>e w' db'. worker_pass cfg now_ns now answered (w, db) = Some (e, w', db') \<and> (wk_paused w \<or> wk_cancelled w \<longrightarrow> db' = db)"
    using worker_pass_effect [OF ok assms(2), of now_ns now answered db] by blast
  ultimately show ?thesis using ok by (simp add: worker_ok_def)
qed

definition batch_config :: queue_config where
  "batch_config = (new_queue_config ''q'')\<lparr>qc_concurrency := 2, qc_handler_batch := 2, qc_key_limit := Some 5\<rparr>"

definition any_limit :: claim_configs where
  "any_limit q = {(Some 5, False)}"

lemma batch_start: "worker_reach batch_config any_limit (start_worker batch_config 0, busy_db, [])"
  unfolding busy_db_def by (rule worker_reach.start [OF pushed_reach])

definition batch_claim :: "claimed_job list \<times> jobs_db" where
  "batch_claim = claim_jobs ''q'' 4 30000 (Some 5) False 0 busy_db"

definition batch_worker :: worker where
  "batch_worker = (start_worker batch_config 0)\<lparr>wk_free := 0, wk_groups := chunks 2 (fst batch_claim)\<rparr>"

lemma batch_claim_ids: "map c_id (fst batch_claim) = [0, 1, 2, 3]"
  by code_simp

lemma batch_pass:
  "worker_pass batch_config 0 0 True (start_worker batch_config 0, busy_db) = Some (Go_On, batch_worker, snd batch_claim)"
proof -
  have len: "length (fst batch_claim) = 4" using arg_cong [OF batch_claim_ids, of length] by simp
  then obtain a b c d where new: "fst batch_claim = [a, b, c, d]"
    by (auto simp: numeral_eq_Suc length_Suc_conv)
  have four: "(4::nat) = Suc (Suc (Suc (Suc 0)))" by simp
  have "claim_jobs ''q'' 4 30000 (Some 5) False 0 busy_db = ([a, b, c, d], snd batch_claim)"
    using new unfolding batch_claim_def by (metis prod.collapse)
  then have "claim_jobs ''q'' (Suc (Suc (Suc (Suc 0)))) 30000 (Some 5) False 0 busy_db = ([a, b, c, d], snd batch_claim)"
    by (simp only: four)
  then show ?thesis
    by (simp add: worker_pass_def start_worker_def batch_config_def new_queue_config_def permits_def group_size_def wanted_def
        take_tokens_def batch_worker_def new)
qed

lemma batch_reach: "worker_reach batch_config any_limit (batch_worker, snd batch_claim, [])"
  by (rule worker_reach.step [OF batch_start worker_step.pass [OF batch_pass]])

theorem worker_bounds_witness:
  "wk_free batch_worker + length (wk_groups batch_worker) = 2 \<and> length (concat (wk_groups batch_worker)) \<le> 4 \<and>
   list_all (\<lambda>g. length g \<le> 2) (wk_groups batch_worker)"
  using worker_bounds [OF batch_reach, of 0 0 True]
  by (simp add: rate_fits_def permits_def group_size_def batch_config_def new_queue_config_def numeral_2_eq_2 list_all_iff)

text \<open>
  C7: a worker is one of the workers of the job table. Every state a worker reaches among others, with
  its passes, its groups settled job by job while the store fails for any of them, and its process
  dying, is, for some order of the claims in flight, a state of the job table's own steps; so what holds
  there (the retry budget, fencing, the limit per key) holds of the jobs in its groups.
\<close>

theorem worker_refines:
  assumes "worker_reach cfg C (w, db, others)" and "rate_fits cfg" and "(qc_key_limit cfg, qc_fair cfg) \<in> C (qc_name cfg)"
  shows "\<exists>cs. job_reach C (db, cs) \<and> mset cs = mset (concat (wk_groups w)) + mset others \<and>
    (\<forall>c \<in> set (concat (wk_groups w)). c_attempt c \<le> c_max c) \<and>
    (\<forall>q key n. limited C q n \<longrightarrow> length (filter (in_force db q key) (concat (wk_groups w))) \<le> n)"
proof -
  obtain cs where cs: "job_reach C (db, cs)" "mset cs = mset (concat (wk_groups w)) + mset others"
    using worker_reach_seen [OF assms] by (auto simp: seen_as_def)
  have inv: "jobs_inv db cs" using inv_reach [OF cs(1)] by simp
  have "set (concat (wk_groups w)) \<subseteq> set cs" using cs(2) by (metis Un_upper1 set_mset_mset set_mset_union)
  then have "\<forall>c \<in> set (concat (wk_groups w)). c_attempt c \<le> c_max c"
    using inv unfolding jobs_inv_def claim_ok_def by blast
  moreover have "length (filter (in_force db q key) (concat (wk_groups w))) \<le> n" if "limited C q n" for q key n
  proof -
    have "length (filter P (concat (wk_groups w))) \<le> length (filter P cs)" for P
    proof -
      have "mset (filter P cs) = mset (filter P (concat (wk_groups w))) + mset (filter P others)"
        using cs(2) by (simp only: mset_filter filter_union_mset)
      then have "size (mset (filter P cs)) = size (mset (filter P (concat (wk_groups w)))) + size (mset (filter P others))"
        by (simp only: size_union)
      then show ?thesis by (simp only: size_mset)
    qed
    also have "length (filter (in_force db q key) cs) \<le> n"
      using in_force_bounded [OF inv, of q key] running_reach [OF cs(1) that, of key] by simp
    finally show ?thesis .
  qed
  ultimately show ?thesis using cs by blast
qed

theorem worker_refines_witness:
  "\<exists>cs. job_reach any_limit (snd batch_claim, cs) \<and> mset cs = mset (concat (wk_groups batch_worker))"
proof -
  have "rate_fits batch_config" "(qc_key_limit batch_config, qc_fair batch_config) \<in> any_limit (qc_name batch_config)"
    by (simp_all add: rate_fits_def batch_config_def new_queue_config_def any_limit_def)
  from worker_refines [OF batch_reach this] show ?thesis by (metis add_0_right mset.simps(1))
qed

section \<open>Findings\<close>

text \<open>
  The bucket refills while it is emptied: within half a window after its maximum was taken, half of the
  maximum is there again, though at most the maximum is documented for a window.
\<close>

lemma fl_numeral: "(numeral n :: int) < 2 ^ 53 \<Longrightarrow> fl (numeral n) = numeral n"
  using fl_of_int [of "numeral n"] by simp

lemma fl_half: "fl (1 / 2) = 1 / 2"
  by code_simp

lemma fl_one: "fl 1 = 1"
  using fl_of_int [of 1] by simp

lemma window_burst:
  "\<exists>b. bucket_take 0 1000 (new_bucket 1000 1000 0) = (1000, b) \<and> fst (bucket_take 500000000 1000 b) = 500"
  by (simp add: bucket_take_def refill_def new_bucket_def Let_def as_secs_f64_def fl_numeral fl_one fl_half)

text \<open>A claim that fails keeps the tokens it took; an empty one gives them back.\<close>

lemma failed_claim_keeps_tokens:
  "worker_pass cfg now_ns now answered (w, db) = Some (Claim_Failed, w', db') \<Longrightarrow> w' = snd (take_tokens now_ns (wanted cfg w) w)"
  by (auto simp: worker_pass_def Let_def split: if_splits prod.splits)

end
