(* ===== verification/Redelivery.thy ===== *)
theory Redelivery
  imports Engine
begin

text \<open>
  Both sides together: the engine's \<open>execute\<close> (\<open>workflow.rs\<close>) with the executor that \<open>app.start\<close> registers
  for a workflow (\<open>app.ts\<close>: version routing, \<open>executeAttempt\<close>, \<open>recordStep\<close> as a statement on the store).
  The state is the world the step bodies act on together with the engine's store. The process may die after
  any transaction of an attempt (reading the run and its journal, a step's body, the record of that step),
  any number of times, each time with another clock, before the job is delivered once more. A body that
  ended without its record runs again; a recorded one does not.
\<close>

section \<open>The executor of a workflow\<close>

type_synonym 'w system = "'w \<times> wf_store"
type_synonym ('w, 'a) sys = "('w system, 'a) prog"

definition record_entry :: "string \<Rightarrow> string \<times> journal_entry \<Rightarrow> wf_store \<Rightarrow> wf_store" where
  "record_entry i = (\<lambda>(sid, e). record_step i sid (je_kind e) (je_result e))"

text \<open>
  An attempt in the system: the process keeps the ids used so far; each step call acts on the world, and a
  step that is to be recorded is a statement on the run's journal that follows it.
\<close>

definition in_process :: "string list \<Rightarrow> 'w \<Rightarrow> 'w attempt" where
  "in_process used w = \<lparr>usedIds = used, world = w, recorded = []\<rparr>"

primrec attempt_prog :: "string \<Rightarrow> 'w step_env \<Rightarrow> 'w wf \<Rightarrow> string list \<Rightarrow> ('w, (string, string) res) sys" where
  "attempt_prog i env (Return v) used = Ret (Ok (settled_text (Ok v)))"
| "attempt_prog i env (Raise e) used = Ret (Ok (settled_text (Throw e)))"
| "attempt_prog i env (Call c k) used =
     Tx (\<lambda>(w, s). (world (snd (step env c (in_process used w))), s)) (\<lambda>(w, _).
       case step env c (in_process used w) of (r, a) \<Rightarrow>
         (case recorded a of
            [] \<Rightarrow> attempt_prog i env (k r) (usedIds a)
          | x # _ \<Rightarrow> Tx (\<lambda>(w, s). (w, record_entry i x s)) (\<lambda>_. attempt_prog i env (k r) (usedIds a))))"

definition process_env :: "int \<Rightarrow> exec_req \<Rightarrow> (string \<times> journal_entry) list \<Rightarrow> 'w step_env" where
  "process_env now req es =
     \<lparr>env_journal = with_journal es [], env_runId = req_runId req, env_now = (\<lambda>_. now), env_offload = None\<rparr>"

definition routed_fn :: "'w workflow \<Rightarrow> exec_req \<Rightarrow> 'w wf" where
  "routed_fn flow req = attempt_fn (fn_run (fst (route flow (req_version req)))) req"

definition workflow_executor :: "'w workflow \<Rightarrow> int \<Rightarrow> exec_req \<Rightarrow> ('w, (string, string) res) sys" where
  "workflow_executor flow now req =
     (case journal_entries (req_journal req) of
        Inl err \<Rightarrow> Ret (Throw (cause_message err))
      | Inr es \<Rightarrow> attempt_prog (req_runId req) (process_env now req es) (routed_fn flow req) [])"

section \<open>The engine in the system\<close>

text \<open>A program of the engine acts on the store and leaves the world alone.\<close>

primrec on_store :: "(wf_store, 'a) prog \<Rightarrow> ('w, 'a) sys" where
  "on_store (Ret a) = Ret a"
| "on_store (Tx f k) = Tx (\<lambda>(w, s). (w, f s)) (\<lambda>(_, s). on_store (k s))"

definition exec_request :: "string \<Rightarrow> wf_run \<Rightarrow> wf_store \<Rightarrow> exec_req" where
  "exec_request workflow run s =
     \<lparr>req_runId = wr_id run, req_workflow = workflow, req_input = wr_input run, req_version = wr_version run,
      req_journal = json_text (JArr (map entry_value (load_journal (wr_id run) s)))\<rparr>"

text \<open>What \<open>execute\<close> does with the executor's answer.\<close>

definition after_attempt :: "wf_engine \<Rightarrow> wf_run \<Rightarrow> string \<Rightarrow> (string, string) res \<Rightarrow> op" where
  "after_attempt e run i r =
     (case r of
        Inl err \<Rightarrow> Ret (Throw err)
      | Inr outcome_json \<Rightarrow>
          (case decode_outcome outcome_json of
             None \<Rightarrow> Ret (Throw ''bad executor outcome'')
           | Some outcome \<Rightarrow>
               prog_bind (query (get_run i)) (\<lambda>current.
               case current of
                 None \<Rightarrow> Ret (Ok ())
               | Some c \<Rightarrow> if wr_status c = Cancelled then Ret (Ok ()) else apply_outcome e run outcome)))"

text \<open>\<open>execute\<close> with an executor that acts on the world too.\<close>

definition deliver ::
  "wf_engine \<Rightarrow> (exec_req \<Rightarrow> ('w, (string, string) res) sys) \<Rightarrow> string \<Rightarrow> string \<Rightarrow> ('w, (string, unit) res) sys" where
  "deliver e executor workflow payload =
     (case payload_run payload of
        None \<Rightarrow> Ret (Throw ''bad execution payload'')
      | Some i \<Rightarrow>
          prog_bind (on_store (query (get_run i))) (\<lambda>found.
          case found of
            None \<Rightarrow> Ret (Ok ())
          | Some run \<Rightarrow>
              if \<not> runnable run then Ret (Ok ())
              else
                prog_bind (on_store (query (load_journal i))) (\<lambda>journal.
                prog_bind (executor
                  \<lparr>req_runId = i, req_workflow = workflow, req_input = wr_input run, req_version = wr_version run,
                   req_journal = json_text (JArr (map entry_value journal))\<rparr>) (\<lambda>r.
                on_store (after_attempt e run i r)))))"

lemma on_store_bind: "on_store (prog_bind p k) = prog_bind (on_store p) (\<lambda>a. on_store (k a))"
  by (induction p) (auto simp: fun_eq_iff)

lemma on_store_if: "on_store (if b then p else q) = (if b then on_store p else on_store q)"
  by simp

text \<open>With an executor that leaves the world alone it is the engine's \<open>execute\<close>.\<close>

lemma deliver_execute: "deliver e (\<lambda>req. on_store (en_executor e req)) workflow payload = on_store (execute e workflow payload)"
proof -
  have after: "(\<lambda>r. case r of
                Inl err \<Rightarrow> Ret (Throw err)
              | Inr outcome_json \<Rightarrow>
                  (case decode_outcome outcome_json of
                     None \<Rightarrow> Ret (Throw ''bad executor outcome'')
                   | Some outcome \<Rightarrow>
                       prog_bind (query (get_run i)) (\<lambda>current.
                       case current of
                         None \<Rightarrow> Ret (Ok ())
                       | Some c \<Rightarrow> if wr_status c = Cancelled then Ret (Ok ()) else apply_outcome e run outcome))) =
      after_attempt e run i" for run i
    by (simp add: after_attempt_def fun_eq_iff)
  show ?thesis
    unfolding deliver_def execute_def after
    by (auto simp: on_store_bind fun_eq_iff intro!: arg_cong2 [of _ _ _ _ prog_bind] split: option.split)
qed

section \<open>Dying inside an attempt\<close>

primrec prog_length :: "('s, 'a) prog \<Rightarrow> 's \<Rightarrow> nat" where
  "prog_length (Ret a) s = 0"
| "prog_length (Tx f k) s = Suc (prog_length (k s) (f s))"

text \<open>How many transactions \<open>execute\<close> makes before it looks at the outcome: two reads and the attempt.\<close>

definition until_outcome :: "(exec_req \<Rightarrow> ('w, (string, string) res) sys) \<Rightarrow> string \<Rightarrow> string \<Rightarrow> 'w system \<Rightarrow> nat" where
  "until_outcome executor workflow payload x =
     (case payload_run payload of
        None \<Rightarrow> 0
      | Some i \<Rightarrow>
          (case get_run i (snd x) of
             None \<Rightarrow> 1
           | Some run \<Rightarrow> if \<not> runnable run then 1 else 2 + prog_length (executor (exec_request workflow run (snd x))) x))"

definition interrupted ::
  "wf_engine \<Rightarrow> (exec_req \<Rightarrow> ('w, (string, string) res) sys) \<Rightarrow> string \<Rightarrow> string \<Rightarrow> nat \<Rightarrow> 'w system \<Rightarrow> 'w system" where
  "interrupted e executor workflow payload n x =
     prog_prefix (min n (until_outcome executor workflow payload x)) (deliver e executor workflow payload) x"

text \<open>Deliveries whose process died: the clock of each and after how many transactions.\<close>

fun died :: "wf_engine \<Rightarrow> 'w workflow \<Rightarrow> string \<Rightarrow> string \<Rightarrow> (int \<times> nat) list \<Rightarrow> 'w system \<Rightarrow> 'w system" where
  "died e flow workflow payload [] x = x"
| "died e flow workflow payload ((now, n) # ds) x =
     died e flow workflow payload ds (interrupted e (workflow_executor flow now) workflow payload n x)"

text \<open>
  A step call that can be made again: in the world it left it answers the same, is recorded the same and
  changes nothing more. \<open>redoable\<close> asks it of one call only: the one whose effect is in the world when
  the process dies after \<open>n\<close> transactions of the attempt, and whose record is not in the store.
\<close>

definition repeats :: "'w step_env \<Rightarrow> 'w call \<Rightarrow> string list \<Rightarrow> 'w \<Rightarrow> bool" where
  "repeats env c used w \<longleftrightarrow> step env c (in_process used (world (snd (step env c (in_process used w))))) = step env c (in_process used w)"

primrec redoable :: "'w step_env \<Rightarrow> 'w wf \<Rightarrow> string list \<Rightarrow> nat \<Rightarrow> 'w \<Rightarrow> bool" where
  "redoable env (Return v) used n w = True"
| "redoable env (Raise e) used n w = True"
| "redoable env (Call c k) used n w =
     (case n of
        0 \<Rightarrow> True
      | Suc m \<Rightarrow>
          (case step env c (in_process used w) of (r, a) \<Rightarrow>
             if m = 0 then repeats env c used w
             else redoable env (k r) (usedIds a) (if recorded a = [] then m else m - 1) (world a)))"

definition redoable_at :: "'w workflow \<Rightarrow> string \<Rightarrow> wf_run \<Rightarrow> int \<Rightarrow> nat \<Rightarrow> 'w system \<Rightarrow> bool" where
  "redoable_at flow workflow run now n x =
     (let req = exec_request workflow run (snd x);
          env = process_env now req (load_journal (wr_id run) (snd x));
          fn = routed_fn flow req
      in redoable env fn [] (min (n - 2) (prog_length (attempt_prog (wr_id run) env fn []) x)) (fst x))"

fun survivable :: "wf_engine \<Rightarrow> 'w workflow \<Rightarrow> string \<Rightarrow> string \<Rightarrow> wf_run \<Rightarrow> (int \<times> nat) list \<Rightarrow> 'w system \<Rightarrow> bool" where
  "survivable e flow workflow payload run [] x \<longleftrightarrow> True"
| "survivable e flow workflow payload run ((now, n) # ds) x \<longleftrightarrow>
     redoable_at flow workflow run now n x \<and>
     survivable e flow workflow payload run ds (interrupted e (workflow_executor flow now) workflow payload n x)"

section \<open>The journal of a run\<close>

lemma load_journal_distinct: "jsmap_ok (ws_steps s) \<Longrightarrow> distinct (map fst (load_journal i s))"
proof -
  assume "jsmap_ok (ws_steps s)"
  then have "distinct (map fst (filter (\<lambda>((j, _), r). j = i \<and> sr_done r) (ws_steps s)))"
    by (auto simp: jsmap_ok_def distinct_map inj_on_def)
  then show ?thesis by (auto simp: load_journal_def distinct_map inj_on_def comp_def split: prod.splits)
qed

lemma load_journal_get:
  assumes ok: "jsmap_ok (ws_steps s)"
  shows "map_of (load_journal i s) sid =
    (case map_get (ws_steps s) (i, sid) of
       Some r \<Rightarrow> if sr_done r then Some \<lparr>je_kind = sr_kind r, je_result = sr_result r\<rparr> else None | None \<Rightarrow> None)"
proof -
  have mem: "(sid, e) \<in> set (load_journal i s) \<longleftrightarrow>
      (\<exists>r. ((i, sid), r) \<in> set (ws_steps s) \<and> sr_done r \<and> e = \<lparr>je_kind = sr_kind r, je_result = sr_result r\<rparr>)" for e
    by (force simp: load_journal_def image_iff)
  have get: "map_get (ws_steps s) (i, sid) = Some r \<longleftrightarrow> ((i, sid), r) \<in> set (ws_steps s)" for r
    using ok by (simp add: jsmap_ok_def)
  show ?thesis
  proof (cases "map_of (load_journal i s) sid")
    case None
    then have "(sid, e) \<notin> set (load_journal i s)" for e by (force simp: map_of_eq_None_iff)
    with None mem get show ?thesis by (auto split: option.splits)
  next
    case (Some e)
    then have "(sid, e) \<in> set (load_journal i s)" by (rule map_of_SomeD)
    then obtain q where "((i, sid), q) \<in> set (ws_steps s)" "sr_done q" "e = \<lparr>je_kind = sr_kind q, je_result = sr_result q\<rparr>"
      using mem by blast
    moreover from this(1) have "map_get (ws_steps s) (i, sid) = Some q" by (simp only: get)
    ultimately show ?thesis using Some by simp
  qed
qed

lemma record_entry_frame [simp]: "ws_runs (record_entry i x s) = ws_runs s" "ws_now (record_entry i x s) = ws_now s"
  by (auto simp: record_entry_def record_step_def split: prod.split option.split)

lemma record_entry_ok [simp]: "jsmap_ok (ws_steps s) \<Longrightarrow> jsmap_ok (ws_steps (record_entry i x s))"
  by (auto simp: record_entry_def record_step_def split: prod.split option.split)

lemma records_frame [simp]: "ws_runs (fold (record_entry i) rs s) = ws_runs s" "get_run j (fold (record_entry i) rs s) = get_run j s"
  by (induction rs arbitrary: s) (simp_all add: get_run_def)

lemma records_ok: "jsmap_ok (ws_steps s) \<Longrightarrow> jsmap_ok (ws_steps (fold (record_entry i) rs s))"
  by (induction rs arbitrary: s) simp_all

lemma journal_record:
  assumes "jsmap_ok (ws_steps s)" and "map_of (load_journal i s) sid = None"
  shows "map_of (load_journal i (record_entry i (sid, e) s)) = (map_of (load_journal i s))(sid \<mapsto> e)"
proof (rule ext)
  fix x
  show "map_of (load_journal i (record_entry i (sid, e) s)) x = ((map_of (load_journal i s))(sid \<mapsto> e)) x"
    using assms by (auto simp: load_journal_get record_entry_def record_step_def jsmap_simps split: option.splits if_splits)
qed

lemma journal_record_keeps:
  assumes "jsmap_ok (ws_steps s)" and "sid \<noteq> fst x \<or> map_of (load_journal i s) sid \<noteq> None"
  shows "map_of (load_journal i (record_entry i x s)) sid = map_of (load_journal i s) sid"
  using assms by (cases x) (auto simp: load_journal_get record_entry_def record_step_def jsmap_simps split: option.splits if_splits)

section \<open>One attempt, interrupted and made again\<close>

lemma prog_prefix_bind: "n \<le> prog_length p s \<Longrightarrow> prog_prefix n (prog_bind p k) s = prog_prefix n p s"
proof (induction p arbitrary: n s)
  case (Tx f c)
  then show ?case by (cases n) auto
qed (simp add: prog_prefix.simps)

text \<open>The clock does not show in the world or the records: only a suspension carries it, and it ends the attempt.\<close>

lemma step_clock:
  assumes "step env c a = (r, b)" and "step (env\<lparr>env_now := f\<rparr>) c a = (r', b')"
  shows "b' = b \<and> (r' = r \<or> (\<exists>i i'. r = Throw (SuspendSignal i) \<and> r' = Throw (SuspendSignal i')))"
  using assms
  by (cases c) (auto simp: step_defs Let_def rbind_def split: if_splits option.splits sum.splits prod.splits)

text \<open>What is journaled under ids the process has used already does not matter to the rest of the attempt.\<close>

lemma step_journal:
  assumes "map_get j' (call_id c) = map_get (env_journal env) (call_id c) \<or> call_id c \<in> set (usedIds a)"
  shows "step (env\<lparr>env_journal := j'\<rparr>) c a = step env c a"
proof -
  obtain r b where st: "step env c a = (r, b)" by fastforce
  from step_local [OF st assms refl refl, of "[]"] obtain b' where
    "step (env\<lparr>env_journal := j'\<rparr>) c a = (r, b')" "usedIds b' = usedIds b" "world b' = world b" "recorded b' = recorded b" by auto
  then show ?thesis using st by simp
qed

lemma attempt_prog_local:
  "(\<And>sid. sid \<notin> set used \<Longrightarrow> map_get j' sid = map_get (env_journal env) sid) \<Longrightarrow>
   attempt_prog i (env\<lparr>env_journal := j'\<rparr>) t used = attempt_prog i env t used"
proof (induction t arbitrary: used)
  case (Call c k)
  have st: "step (env\<lparr>env_journal := j'\<rparr>) c (in_process used w) = step env c (in_process used w)" for w
    by (rule step_journal) (use Call.prems in \<open>auto simp: in_process_def\<close>)
  have "attempt_prog i (env\<lparr>env_journal := j'\<rparr>) (k r) (usedIds a) = attempt_prog i env (k r) (usedIds a)"
    if "step env c (in_process used w) = (r, a)" for w r a
    by (rule Call.IH) (use Call.prems step_effect [OF that] in \<open>auto simp: in_process_def claimed_def split: if_splits\<close>)
  then show ?case by (auto simp: st fun_eq_iff split: prod.split list.split)
qed simp_all

text \<open>The attempt records under ids it has not used before, never over what is journaled, and leaves the runs alone.\<close>

lemma in_process_simps [simp]: "usedIds (in_process used w) = used" "world (in_process used w) = w" "recorded (in_process used w) = []"
  by (simp_all add: in_process_def)

lemma step_recorded:
  assumes "step env c (in_process used w) = (r, a)"
  shows "recorded a = [] \<or> (\<exists>e. recorded a = [(call_id c, e)] \<and> call_id c \<notin> set used \<and> map_get (env_journal env) (call_id c) = None)"
    and "set used \<subseteq> set (usedIds a)" "call_id c \<in> set (usedIds a)"
  using step_effect [OF assms] by (auto simp: claimed_def)

lemma interrupted_keeps:
  "prog_prefix n (attempt_prog i env t used) (w, s) = (w', s') \<Longrightarrow> jsmap_ok (ws_steps s) \<Longrightarrow>
   jsmap_ok (ws_steps s') \<and> ws_runs s' = ws_runs s \<and>
   (\<forall>sid. sid \<in> set used \<or> map_of (load_journal i s) sid \<noteq> None \<longrightarrow> map_of (load_journal i s') sid = map_of (load_journal i s) sid)"
proof (induction t arbitrary: n used w s)
  case (Call c k)
  show ?case
  proof (cases n)
    case (Suc m)
    obtain r a where st: "step env c (in_process used w) = (r, a)" by fastforce
    note rec = step_recorded [OF st]
    show ?thesis
    proof (cases "recorded a")
      case Nil
      then have "prog_prefix m (attempt_prog i env (k r) (usedIds a)) (world a, s) = (w', s')" using Call.prems(1) st Suc by simp
      from Call.IH [OF rangeI this Call.prems(2)] show ?thesis using rec by auto
    next
      case (Cons x xs)
      then obtain e where x: "x = (call_id c, e)" "xs = []" "call_id c \<notin> set used" using rec(1) by auto
      show ?thesis
      proof (cases m)
        case (Suc l)
        let ?s = "record_entry i x s"
        have "prog_prefix l (attempt_prog i env (k r) (usedIds a)) (world a, ?s) = (w', s')"
          using Call.prems(1) st Cons \<open>n = Suc m\<close> Suc by simp
        from Call.IH [OF rangeI this] have "jsmap_ok (ws_steps s') \<and> ws_runs s' = ws_runs ?s \<and> (\<forall>sid. sid \<in> set (usedIds a) \<or>
            map_of (load_journal i ?s) sid \<noteq> None \<longrightarrow> map_of (load_journal i s') sid = map_of (load_journal i ?s) sid)"
          using Call.prems(2) by simp
        moreover have "map_of (load_journal i ?s) sid = map_of (load_journal i s) sid"
          if "sid \<in> set used \<or> map_of (load_journal i s) sid \<noteq> None" for sid
          by (rule journal_record_keeps [OF Call.prems(2)]) (use that x in auto)
        ultimately show ?thesis using rec(2) by auto
      qed (use Call.prems st Cons Suc in auto)
    qed
  qed (use Call.prems in auto)
qed auto

definition is_signal_result :: "(exn, jsval) res \<Rightarrow> bool" where
  "is_signal_result r \<longleftrightarrow> (\<exists>x. r = Throw x \<and> is_signal x)"

lemma redoable_0 [simp]: "redoable env t used 0 w"
  by (cases t) simp_all

lemma suspension_world: "step env c a = (Throw (SuspendSignal x), b) \<Longrightarrow> world b = world a"
  by (cases c) (auto simp: step_defs Let_def rbind_def parse_exn_def prop_exn_def ms_exn_def entry_object_def
      split: if_splits option.splits sum.splits prod.splits)

lemma repeats_clock:
  assumes "repeats (env\<lparr>env_now := f\<rparr>) c used w" and st: "step env c (in_process used w) = (r, a)"
  shows "step env c (in_process used (world a)) = (r, a)"
proof -
  obtain r0 a0 where st0: "step (env\<lparr>env_now := f\<rparr>) c (in_process used w) = (r0, a0)" by fastforce
  obtain r1 a1 where st1: "step env c (in_process used (world a)) = (r1, a1)" by fastforce
  have a: "a0 = a" using step_clock [OF st st0] by simp
  with assms(1) st0 have again: "step (env\<lparr>env_now := f\<rparr>) c (in_process used (world a)) = (r0, a)" by (simp add: repeats_def)
  show ?thesis
  proof (cases "\<exists>x. r = Throw (SuspendSignal x)")
    case True
    then show ?thesis using suspension_world [of env c "in_process used w"] st by auto
  next
    case False
    then show ?thesis using step_clock [OF st st0] step_clock [OF st1 again] st1 by auto
  qed
qed

text \<open>
  The heart of it: an attempt that is interrupted after \<open>n\<close> transactions and made again, with another
  clock and the journal as it is then, does in all what the attempt would have done at once.
\<close>

lemma attempt_again:
  assumes "disciplined t" and "env_offload env = None" and "jsmap_ok (ws_steps s)"
    and "\<And>sid. sid \<notin> set used \<Longrightarrow> map_get (env_journal env) sid = map_of (load_journal i s) sid"
    and "n \<le> prog_length (attempt_prog i (env\<lparr>env_now := f\<rparr>) t used) (w, s)"
    and "redoable (env\<lparr>env_now := f\<rparr>) t used n w"
    and "prog_prefix n (attempt_prog i (env\<lparr>env_now := f\<rparr>) t used) (w, s) = (w1, s1)"
    and "\<And>sid. sid \<notin> set used \<Longrightarrow> map_get j' sid = map_of (load_journal i s1) sid"
  shows "prog_run (attempt_prog i (env\<lparr>env_journal := j'\<rparr>) t used) (w1, s1) = prog_run (attempt_prog i env t used) (w, s)"
  using assms
proof (induction t arbitrary: n used w s)
  case (Call c k)
  let ?dead = "env\<lparr>env_now := f\<rparr>" and ?now = "env\<lparr>env_journal := j'\<rparr>"
  show ?case
  proof (cases n)
    case 0
    then have "attempt_prog i ?now (Call c k) used = attempt_prog i env (Call c k) used"
      using Call.prems(4,7,8) by (intro attempt_prog_local) auto
    then show ?thesis using Call.prems(7) 0 by simp
  next
    case (Suc m)
    obtain r a where st: "step env c (in_process used w) = (r, a)" by fastforce
    obtain r0 a0 where st0: "step ?dead c (in_process used w) = (r0, a0)" by fastforce
    have clock: "a0 = a" "r0 = r \<or> is_signal_result r0 \<and> is_signal_result r"
      using step_clock [OF st st0] by (auto simp: is_signal_result_def)
    note rec = step_recorded [OF st]
    have keep: "jsmap_ok (ws_steps s1)" "\<And>sid. sid \<in> set used \<or> map_of (load_journal i s) sid \<noteq> None \<Longrightarrow>
        map_of (load_journal i s1) sid = map_of (load_journal i s) sid"
      using interrupted_keeps [OF Call.prems(7,3)] by auto
    have json: "json_results c k" using Call.prems(1) by simp
    have disc: "disciplined (k r)" using Call.prems(1) step_res_ok [OF st json] by simp
    have signal: "attempt_prog i en (k x) us = Ret (Ok (settled_text x))" if "is_signal_result x" for x us en
      using that Call.prems(1) by (auto simp: is_signal_result_def split: sum.splits)
    have used: "usedIds a = call_id c # used" if "recorded a \<noteq> []"
      using step_effect [OF st] that by (auto simp: claimed_def)
    show ?thesis
    proof (cases "recorded a")
      case Nil
      have rest: "prog_prefix m (attempt_prog i ?dead (k r0) (usedIds a)) (world a, s) = (w1, s1)"
        using Call.prems(7) st0 Suc clock(1) Nil by simp
      have same: "map_of (load_journal i s1) sid = map_of (load_journal i s) sid" if "sid \<in> set (usedIds a)" for sid
        using interrupted_keeps [OF rest Call.prems(3)] that by blast
      have j': "map_get j' (call_id c) = map_get (env_journal env) (call_id c) \<or> call_id c \<in> set used"
        using Call.prems(4,8) same [OF rec(3)] by auto
      have now: "step ?now c (in_process used v) = step env c (in_process used v)" for v
        by (rule step_journal) (use j' in simp)
      show ?thesis
      proof (cases "is_signal_result r0")
        case True
        then have sig: "is_signal_result r" using clock(2) by auto
        have "n \<le> 1" using Call.prems(5) Suc st0 clock(1) Nil signal [OF True] by simp
        then have m: "m = 0" using Suc by simp
        then have "repeats ?dead c used w" using Call.prems(6) Suc st0 by simp
        then have "step env c (in_process used (world a)) = (r, a)" using repeats_clock [OF _ st] by blast
        moreover have "w1 = world a" "s1 = s" using rest m by simp_all
        ultimately show ?thesis using st Nil signal [OF sig] by (simp add: now)
      next
        case False
        then have r: "r0 = r" using clock(2) by simp
        have "\<And>x. r = Throw x \<Longrightarrow> \<not> is_signal x" using False r by (auto simp: is_signal_result_def)
        then have "step ?now c (in_process used w1) = (r, (in_process used w1)\<lparr>usedIds := usedIds a\<rparr>)"
          using step_quiet [OF st _ _ Call.prems(2), of j' "in_process used w1"] Nil j' by simp
        then have "prog_run (attempt_prog i ?now (Call c k) used) (w1, s1) = prog_run (attempt_prog i ?now (k r) (usedIds a)) (w1, s1)"
          by simp
        also have "\<dots> = prog_run (attempt_prog i env (k r) (usedIds a)) (world a, s)"
        proof (rule Call.IH [OF rangeI disc Call.prems(2,3)])
          show "map_get (env_journal env) sid = map_of (load_journal i s) sid" if "sid \<notin> set (usedIds a)" for sid
            using Call.prems(4) that rec(2) by auto
          show "m \<le> prog_length (attempt_prog i ?dead (k r) (usedIds a)) (world a, s)"
            using Call.prems(5) Suc st0 clock(1) Nil r by simp
          show "redoable ?dead (k r) (usedIds a) m (world a)"
            using Call.prems(6) Suc st0 clock(1) Nil r by (cases "m = 0") simp_all
          show "prog_prefix m (attempt_prog i ?dead (k r) (usedIds a)) (world a, s) = (w1, s1)" using rest r by simp
          show "map_get j' sid = map_of (load_journal i s1) sid" if "sid \<notin> set (usedIds a)" for sid
            using Call.prems(8) that rec(2) by auto
        qed
        also have "\<dots> = prog_run (attempt_prog i env (Call c k) used) (w, s)" using st Nil by simp
        finally show ?thesis .
      qed
    next
      case (Cons x xs)
      then have ne: "recorded a \<noteq> recorded (in_process used w)" by simp
      from step_records [OF st ne Call.prems(2) json] obtain v where v: "r = Ok v" "json_ok v \<or> v = JUndef"
        "k (Ok (or_null v)) = k r" "is_Run c"
        "recorded a = [(call_id c, \<lparr>je_kind = ''run'', je_result = Some (stringify_or_null v)\<rparr>)]" by auto
      define s' where "s' = record_entry i (call_id c, \<lparr>je_kind = ''run'', je_result = Some (stringify_or_null v)\<rparr>) s"
      have r: "r0 = r" using clock(2) v(1) by (auto simp: is_signal_result_def)
      have new: "call_id c \<notin> set used" "map_get (env_journal env) (call_id c) = None" using rec(1) Cons by auto
      have once: "prog_run (attempt_prog i env (Call c k) used) (w, s) = prog_run (attempt_prog i env (k r) (usedIds a)) (world a, s')"
        using st v(5) by (simp add: s'_def)
      show ?thesis
      proof (cases m)
        case 0
        then have at: "w1 = world a" "s1 = s" using Call.prems(7) Suc st0 clock(1) by simp_all
        have "repeats ?dead c used w" using Call.prems(6) Suc 0 st0 by simp
        then have again: "step env c (in_process used (world a)) = (r, a)" using repeats_clock [OF _ st] by blast
        have j: "map_get j' sid = map_get (env_journal env) sid" if "sid \<notin> set used" for sid
          using Call.prems(4,8) that at by simp
        have "step ?now c (in_process used (world a)) = (r, a)"
          using again step_journal [of j' c env "in_process used (world a)"] j new by simp
        moreover have "attempt_prog i ?now (k r) (usedIds a) = attempt_prog i env (k r) (usedIds a)"
          by (rule attempt_prog_local) (use j rec(2) in auto)
        ultimately show ?thesis unfolding once using at v(5) by (simp add: s'_def)
      next
        case (Suc l)
        have s': "jsmap_ok (ws_steps s')" using Call.prems(3) by (simp add: s'_def)
        have none: "map_of (load_journal i s) (call_id c) = None" using new Call.prems(4) by metis
        note J' = journal_record [OF Call.prems(3) none, of "\<lparr>je_kind = ''run'', je_result = Some (stringify_or_null v)\<rparr>", folded s'_def]
        have rest: "prog_prefix l (attempt_prog i ?dead (k r) (usedIds a)) (world a, s') = (w1, s1)"
          using Call.prems(7) \<open>n = Suc m\<close> Suc st0 clock(1) v(5) r by (simp add: s'_def)
        have "map_of (load_journal i s1) (call_id c) = Some \<lparr>je_kind = ''run'', je_result = Some (stringify_or_null v)\<rparr>"
          using interrupted_keeps [OF rest s'] J' rec(3) by auto
        then have "step ?now c (in_process used w1) = (Ok (or_null v), (in_process used w1)\<lparr>usedIds := usedIds a\<rparr>)"
          using step_replays [OF v(4) _ v(2), of "in_process used w1" ?now] new(1) Call.prems(8) used Cons by simp
        then have "prog_run (attempt_prog i ?now (Call c k) used) (w1, s1) = prog_run (attempt_prog i ?now (k r) (usedIds a)) (w1, s1)"
          by (simp add: v(3))
        also have "\<dots> = prog_run (attempt_prog i env (k r) (usedIds a)) (world a, s')"
        proof (rule Call.IH [OF rangeI disc Call.prems(2) s'])
          show "map_get (env_journal env) sid = map_of (load_journal i s') sid" if "sid \<notin> set (usedIds a)" for sid
            using Call.prems(4) that rec(2,3) J' by auto
          show "l \<le> prog_length (attempt_prog i ?dead (k r) (usedIds a)) (world a, s')"
            using Call.prems(5) \<open>n = Suc m\<close> Suc st0 clock(1) v(5) r by (simp add: s'_def)
          show "redoable ?dead (k r) (usedIds a) l (world a)"
            using Call.prems(6) \<open>n = Suc m\<close> Suc st0 clock(1) v(5) r by simp
          show "prog_prefix l (attempt_prog i ?dead (k r) (usedIds a)) (world a, s') = (w1, s1)" by (rule rest)
          show "map_get j' sid = map_of (load_journal i s1) sid" if "sid \<notin> set (usedIds a)" for sid
            using Call.prems(8) that rec(2) by auto
        qed
        finally show ?thesis unfolding once .
      qed
    qed
  qed
qed auto

section \<open>Delivering again\<close>

lemma get_run_id: "get_run i s = Some run \<Longrightarrow> wr_id run = i"
  by (auto simp: get_run_def find_Some_iff)

lemma process_env_simps [simp]:
  "env_offload (process_env now req es) = None" "env_journal (process_env now req es) = with_journal es []"
  by (simp_all add: process_env_def)

lemma process_env_update:
  "process_env now' (exec_request w run s') es' =
     process_env now (exec_request w run s) es\<lparr>env_now := \<lambda>_. now', env_journal := with_journal es' []\<rparr>"
  by (simp add: process_env_def exec_request_def)

text \<open>The environment of the process is the one \<open>executeAttempt\<close> makes without a payload codec.\<close>

lemma process_env_attempt: "process_env now req es = attempt_env (\<lambda>_. now) None req v es"
  by (simp add: process_env_def attempt_env_def rehydrate_entries_def)

lemma loaded_journal:
  "jsmap_ok (ws_steps s) \<Longrightarrow> map_get (with_journal (load_journal i s) []) sid = map_of (load_journal i s) sid"
  by (simp add: with_journal_get load_journal_distinct split: option.split)

lemma routed_same: "routed_fn flow (exec_request w run s') = routed_fn flow (exec_request w run s)"
  by (simp add: routed_fn_def exec_request_def attempt_fn_def split: sum.split)

definition attempt_on :: "'w workflow \<Rightarrow> string \<Rightarrow> wf_run \<Rightarrow> int \<Rightarrow> wf_store \<Rightarrow> ('w, (string, string) res) sys" where
  "attempt_on flow w run now s =
     attempt_prog (wr_id run) (process_env now (exec_request w run s) (load_journal (wr_id run) s)) (routed_fn flow (exec_request w run s)) []"

lemma executor_attempt: "workflow_executor flow now (exec_request w run s) = attempt_on flow w run now s"
proof -
  have "journal_entries (req_journal (exec_request w run s)) = Ok (load_journal (wr_id run) s)"
    unfolding exec_request_def exec_req.select_convs by (rule journal_entries_text)
  moreover have "req_runId (exec_request w run s) = wr_id run" by (simp add: exec_request_def)
  ultimately show ?thesis by (simp add: workflow_executor_def attempt_on_def)
qed

lemma deliver_unfold:
  assumes "payload_run p = Some i" and "get_run i s = Some run" and "runnable run"
  shows "prog_run (deliver e x w p) (v, s) = prog_run (prog_bind (x (exec_request w run s)) (\<lambda>r. on_store (after_attempt e run i r))) (v, s)"
    and "prog_prefix 0 (deliver e x w p) (v, s) = (v, s)" "prog_prefix (Suc 0) (deliver e x w p) (v, s) = (v, s)"
    and "prog_prefix (Suc (Suc n)) (deliver e x w p) (v, s) =
      prog_prefix n (prog_bind (x (exec_request w run s)) (\<lambda>r. on_store (after_attempt e run i r))) (v, s)"
  using assms get_run_id [OF assms(2)] by (simp_all add: deliver_def query_def exec_request_def)

text \<open>What a delivery that dies leaves: the prefix of its attempt.\<close>

lemma interrupted_attempt:
  assumes "payload_run p = Some i" and "get_run i s = Some run" and "runnable run"
  shows "interrupted e (workflow_executor flow now) w p n (v, s) =
    prog_prefix (min (n - 2) (prog_length (attempt_on flow w run now s) (v, s))) (attempt_on flow w run now s) (v, s)"
proof -
  let ?len = "prog_length (attempt_on flow w run now s) (v, s)"
  have len: "until_outcome (workflow_executor flow now) w p (v, s) = 2 + ?len"
    using assms by (simp add: until_outcome_def executor_attempt)
  consider "n = 0" | "n = Suc 0" | l where "n = Suc (Suc l)" by (metis not0_implies_Suc)
  then show ?thesis
  proof cases
    case (3 l)
    then have "min n (2 + ?len) = Suc (Suc (min l ?len))" by simp
    then show ?thesis
      unfolding interrupted_def len using prog_prefix_bind [of "min l ?len" "attempt_on flow w run now s" "(v, s)"] 3
      by (simp only: deliver_unfold(4) [OF assms] executor_attempt) simp
  qed (use deliver_unfold(2,3) [OF assms] in \<open>simp_all add: interrupted_def len prog_prefix.simps\<close>)
qed

lemma redelivered_once:
  assumes p: "payload_run p = Some i" "get_run i s = Some run" "runnable run"
    and ok: "jsmap_ok (ws_steps s)" and d: "disciplined (routed_fn flow (exec_request w run s))"
    and redo: "redoable_at flow w run dead n (v, s)"
    and dead: "interrupted e (workflow_executor flow dead) w p n (v, s) = (v1, s1)"
  shows "prog_run (deliver e (workflow_executor flow now) w p) (v1, s1) = prog_run (deliver e (workflow_executor flow now) w p) (v, s)"
    and "get_run i s1 = Some run" "jsmap_ok (ws_steps s1)"
proof -
  let ?req = "exec_request w run s" and ?fn = "routed_fn flow (exec_request w run s)"
  let ?env = "process_env now ?req (load_journal i s) :: 'a step_env"
  let ?dead = "?env\<lparr>env_now := \<lambda>_. dead\<rparr>"
  define m where "m = min (n - 2) (prog_length (attempt_prog i ?dead ?fn []) (v, s))"
  have i: "wr_id run = i" by (rule get_run_id [OF p(2)])
  have dead_env: "process_env dead ?req (load_journal i s) = ?dead" by (simp add: process_env_def)
  have prefix: "prog_prefix m (attempt_prog i ?dead ?fn []) (v, s) = (v1, s1)"
    using dead interrupted_attempt [OF p, of e flow dead w n v] by (simp add: attempt_on_def i dead_env m_def)
  note keeps = interrupted_keeps [OF prefix ok]
  then show get: "get_run i s1 = Some run" and ok1: "jsmap_ok (ws_steps s1)" using p(2) by (simp_all add: get_run_def)
  have "prog_run (attempt_prog i (?env\<lparr>env_journal := with_journal (load_journal i s1) []\<rparr>) ?fn []) (v1, s1) = prog_run (attempt_prog i ?env ?fn []) (v, s)"
  proof (rule attempt_again [OF d _ ok])
    show "map_get (env_journal ?env) sid = map_of (load_journal i s) sid" for sid using loaded_journal [OF ok] by simp
    show "m \<le> prog_length (attempt_prog i ?dead ?fn []) (v, s)" by (simp add: m_def)
    show "redoable ?dead ?fn [] m v" using redo by (simp add: redoable_at_def Let_def i dead_env m_def)
    show "prog_prefix m (attempt_prog i ?dead ?fn []) (v, s) = (v1, s1)" by (rule prefix)
    show "map_get (with_journal (load_journal i s1) []) sid = map_of (load_journal i s1) sid" for sid by (rule loaded_journal [OF ok1])
  qed simp
  moreover have "?env\<lparr>env_journal := with_journal (load_journal i s1) []\<rparr> = process_env now (exec_request w run s1) (load_journal i s1)"
    by (simp add: process_env_def exec_request_def)
  ultimately have "prog_run (attempt_on flow w run now s1) (v1, s1) = prog_run (attempt_on flow w run now s) (v, s)"
    by (simp add: attempt_on_def i routed_same [of flow w run s1 s])
  then show "prog_run (deliver e (workflow_executor flow now) w p) (v1, s1) = prog_run (deliver e (workflow_executor flow now) w p) (v, s)"
    by (simp add: deliver_unfold(1) [OF p(1) get p(3)] deliver_unfold(1) [OF p] executor_attempt prog_run_bind)
qed

section \<open>Property\<close>

text \<open>
  C1: crashes are invisible. A run is delivered any number of times, each by a process with its own clock that
  dies after some transaction of the attempt; then once more. That last delivery leaves the world the step
  bodies act on and the store, and returns the result, that one delivery would have had nothing died: no
  recorded step runs again, whatever its body does. Only a body that ended unrecorded must bear running again
  (\<open>survivable\<close>). The function is disciplined: its results are JSON values and it catches no
  suspension or step failure.
\<close>

theorem crashes_invisible:
  assumes "payload_run p = Some i" and "get_run i s = Some run" and "runnable run" and "jsmap_ok (ws_steps s)"
    and "disciplined (routed_fn flow (exec_request w run s))" and "survivable e flow w p run ds (v, s)"
  shows "prog_run (deliver e (workflow_executor flow now) w p) (died e flow w p ds (v, s)) =
    prog_run (deliver e (workflow_executor flow now) w p) (v, s)"
  using assms(2,4-6)
proof (induction ds arbitrary: v s)
  case (Cons x ds)
  obtain dead n where x: "x = (dead, n)" by fastforce
  obtain v1 s1 where dead: "interrupted e (workflow_executor flow dead) w p n (v, s) = (v1, s1)" by fastforce
  have "redoable_at flow w run dead n (v, s)" "survivable e flow w p run ds (v1, s1)" using Cons.prems(4) x dead by simp_all
  note once = redelivered_once [OF assms(1) Cons.prems(1) assms(3) Cons.prems(2,3) this(1) dead]
  have "disciplined (routed_fn flow (exec_request w run s1))" using Cons.prems(3) by (simp add: routed_same [of flow w run s1 s])
  from Cons.IH [OF once(2,3) this \<open>survivable e flow w p run ds (v1, s1)\<close>] show ?case by (simp add: x dead once(1))
qed simp

text \<open>
  A workflow of two steps over a log as the world: \<open>a\<close> appends to the log whenever it runs, \<open>b\<close> only if it
  has not run yet.
\<close>

definition demo_flow :: "string list workflow" where
  "demo_flow = new_workflow ''w'' \<lparr>fn_source = ''two'', fn_run = (\<lambda>ctx.
     Call (Run ''a'' None (\<lambda>u. (Ok (JNum 1), 1, u @ [''a'']))) (uncaught (\<lambda>x.
     Call (Run ''b'' None (\<lambda>u. (Ok (JNum 2), 1, if ''b'' \<in> set u then u else u @ [''b'']))) (uncaught (\<lambda>y. Return (JArr [x, y]))))))\<rparr>"

definition fresh_run_store :: wf_store where
  "fresh_run_store = snd (prog_run (trigger_blocking demo_engine ''w'' ''{}'' None 0 None) empty_store)"

lemma fresh_run: "\<exists>run. get_run ''r'' fresh_run_store = Some run \<and> runnable run \<and> wr_input run = ''{}'' \<and> wr_version run = None \<and> wr_id run = ''r''"
proof -
  have "map_option (\<lambda>run. (runnable run, wr_input run, wr_version run, wr_id run)) (get_run ''r'' fresh_run_store) = Some (True, ''{}'', None, ''r'')"
    by code_simp
  then show ?thesis by auto
qed

lemma demo_routed:
  assumes "wr_input run = ''{}''" and "wr_version run = None"
  shows "routed_fn demo_flow (exec_request ''w'' run s) = fn_run (fst (route demo_flow None)) \<lparr>ctx_input = JObj [], ctx_runId = wr_id run\<rparr>"
proof -
  have "parse_exn ''{}'' = Ok (JObj [])" by code_simp
  then show ?thesis using assms by (simp add: routed_fn_def exec_request_def attempt_fn_def del: json_text.simps)
qed

lemmas demo_flow_simps = demo_flow_def route_def new_workflow_def uncaught_def

lemma demo_flow_disciplined:
  assumes "wr_input run = ''{}''" and "wr_version run = None"
  shows "disciplined (routed_fn demo_flow (exec_request ''w'' run s))"
  unfolding demo_routed [OF assms] by (auto simp: demo_flow_simps json_results_def split: sum.split)

text \<open>
  The first process dies after the record of \<open>a\<close>, the second after the body of \<open>b\<close> and before its record.
\<close>

definition demo_deaths :: "(int \<times> nat) list" where
  "demo_deaths = [(7, 4), (8, 4)]"

lemma demo_texts [simp]: "stringify_or_null (JNum 1) = ''1''" "stringify_or_null (JNum 2) = ''2''" "parse_exn ''1'' = Ok (JNum 1)"
  by code_simp+

definition demo_stored :: wf_store where
  "demo_stored = record_entry ''r'' (''a'', \<lparr>je_kind = ''run'', je_result = Some ''1''\<rparr>) fresh_run_store"

lemma demo_journals: "load_journal ''r'' fresh_run_store = []" "load_journal ''r'' demo_stored = [(''a'', \<lparr>je_kind = ''run'', je_result = Some ''1''\<rparr>)]"
  by (simp_all add: demo_stored_def record_entry_def record_step_def load_journal_def fresh_run_store_def empty_store_def)

lemma demo_fn:
  assumes "wr_input run = ''{}''" and "wr_version run = None"
  shows "routed_fn demo_flow (exec_request ''w'' run s) =
     Call (Run ''a'' None (\<lambda>u. (Ok (JNum 1), 1, u @ [''a'']))) (uncaught (\<lambda>x.
     Call (Run ''b'' None (\<lambda>u. (Ok (JNum 2), 1, if ''b'' \<in> set u then u else u @ [''b'']))) (uncaught (\<lambda>y. Return (JArr [x, y])))))"
  unfolding demo_routed [OF assms] by (simp add: demo_flow_def route_def new_workflow_def)

lemmas demo_attempt = attempt_on_def demo_journals uncaught_def process_env_def in_process_def step_defs run_body_def with_journal_def
  redoable_at_def repeats_def jsmap_simps

lemma demo_survivable:
  assumes run: "get_run ''r'' fresh_run_store = Some run" "runnable run" and data: "wr_input run = ''{}''" "wr_version run = None"
  shows "survivable demo_engine demo_flow ''w'' demo_payload run demo_deaths ([], fresh_run_store)"
    and "died demo_engine demo_flow ''w'' demo_payload demo_deaths ([], fresh_run_store) = ([''a'', ''b''], demo_stored)"
proof -
  have id: "wr_id run = ''r''" by (rule get_run_id [OF run(1)])
  have run': "get_run ''r'' demo_stored = Some run"
    using run(1) by (simp add: demo_stored_def get_run_def)
  note fn = demo_fn [OF data] and at = interrupted_attempt [OF demo_payload_run]
  have first: "interrupted demo_engine (workflow_executor demo_flow 7) ''w'' demo_payload 4 ([], fresh_run_store) = ([''a''], demo_stored)"
    unfolding at [OF run] by (simp add: demo_attempt fn id demo_stored_def eval_nat_numeral)
  have second: "interrupted demo_engine (workflow_executor demo_flow 8) ''w'' demo_payload 4 ([''a''], demo_stored) = ([''a'', ''b''], demo_stored)"
    unfolding at [OF run' run(2)] by (simp add: demo_attempt fn id eval_nat_numeral)
  have "redoable_at demo_flow ''w'' run 7 4 ([], fresh_run_store)" by (simp add: demo_attempt fn id eval_nat_numeral)
  moreover have "redoable_at demo_flow ''w'' run 8 4 ([''a''], demo_stored)" by (simp add: demo_attempt fn id eval_nat_numeral)
  ultimately show "survivable demo_engine demo_flow ''w'' demo_payload run demo_deaths ([], fresh_run_store)"
    using first by (simp add: demo_deaths_def)
  show "died demo_engine demo_flow ''w'' demo_payload demo_deaths ([], fresh_run_store) = ([''a'', ''b''], demo_stored)"
    using first second by (simp add: demo_deaths_def)
qed

lemma crashes_invisible_witness:
  "died demo_engine demo_flow ''w'' demo_payload demo_deaths ([], fresh_run_store) = ([''a'', ''b''], demo_stored) \<and>
   prog_run (deliver demo_engine (workflow_executor demo_flow 9) ''w'' demo_payload) ([''a'', ''b''], demo_stored) =
   prog_run (deliver demo_engine (workflow_executor demo_flow 9) ''w'' demo_payload) ([], fresh_run_store)"
proof -
  obtain run where run: "get_run ''r'' fresh_run_store = Some run" "runnable run" "wr_input run = ''{}''" "wr_version run = None"
    using fresh_run by blast
  have "jsmap_ok (ws_steps fresh_run_store)" by (simp add: fresh_run_store_def empty_store_def)
  from crashes_invisible [OF demo_payload_run run(1,2) this demo_flow_disciplined [OF run(3,4)] demo_survivable(1) [OF run], where now = 9]
  show ?thesis by (simp add: demo_survivable(2) [OF run])
qed

section \<open>The executor is one the engine's theorems are about\<close>

text \<open>On the store, whatever the world is, an attempt reads or records a step of its run.\<close>

definition records_of :: "string \<Rightarrow> ('w system \<Rightarrow> 'w system) \<Rightarrow> bool" where
  "records_of i f \<longleftrightarrow> (\<forall>v s. snd (f (v, s)) = s) \<or>
     (\<exists>sid kind result. \<forall>v s. snd (f (v, s)) = record_step i sid kind result s)"

lemma attempt_prog_records: "all_tx (records_of i) (attempt_prog i env t used)"
proof (induction t arbitrary: used)
  case (Call c k)
  have "records_of i (\<lambda>(w, s). (w, record_entry i x s))" for x :: "string \<times> journal_entry"
    by (cases x) (auto simp: records_of_def record_entry_def)
  moreover have "records_of i (\<lambda>(w, s). (g w, s))" for g :: "'a \<Rightarrow> 'a" by (simp add: records_of_def)
  ultimately show ?case using Call by (auto split: prod.split list.split)
qed auto

lemma workflow_executor_records: "all_tx (records_of (req_runId req)) (workflow_executor flow now req)"
  by (auto simp: workflow_executor_def attempt_prog_records split: sum.split)

lemma records_of_engine_tx: "records_of i f \<Longrightarrow> engine_tx uid (\<lambda>s. snd (f (v, s)))"
  unfolding records_of_def by (auto intro: engine_tx.intros)

end
