(* ===== verification/Parallel.thy ===== *)
theory Parallel
  imports Attempt
begin

text \<open>
  \<open>step.all\<close> (\<open>makeStep\<close> of \<open>packages/zenzip/src/workflow.ts\<close>): \<open>Promise.all\<close> over thunks that run step
  calls. A thunk is called up to its first \<open>await\<close>; after that the scheduler picks, in any order, a
  thread to resume or a step body to finish. A thunk is an arrow that returns the promise of one step
  call, or an async function.
\<close>

section \<open>Threads\<close>

datatype 'w thunk = Plain "'w call" | Async "'w wf"

text \<open>A thread will be resumed, has a step body running, or its promise is settled.\<close>

datatype 'w thread =
    Going "'w wf"
  | Busy string "'w body" "duration option" "(exn, jsval) res \<Rightarrow> 'w wf"
  | Settled "(exn, jsval) res"

text \<open>\<open>step.run\<close> up to the body, and from the body's end.\<close>

definition begin_run ::
  "'w step_env \<Rightarrow> string \<Rightarrow> 'w body \<Rightarrow> duration option \<Rightarrow> ((exn, jsval) res \<Rightarrow> 'w wf) \<Rightarrow> 'w attempt \<Rightarrow> 'w thread \<times> 'w attempt" where
  "begin_run env sid fn timeout k s =
     (case claim env sid ''run'' s of
        (Inl e, s1) \<Rightarrow> (Going (k (Throw e)), s1)
      | (Inr (Some entry), s1) \<Rightarrow> (Going (k (case je_result entry of None \<Rightarrow> Ok JUndef | Some t \<Rightarrow> parse_exn t)), s1)
      | (Inr None, s1) \<Rightarrow> (Busy sid fn timeout k, s1))"

definition finish_run :: "'w step_env \<Rightarrow> string \<Rightarrow> 'w body \<Rightarrow> duration option \<Rightarrow> 'w attempt \<Rightarrow> (exn, jsval) res \<times> 'w attempt" where
  "finish_run env sid fn timeout s =
     (case run_body sid fn timeout (world s) of
        (Inl e, w) \<Rightarrow> (Throw (StepFailure sid e), s\<lparr>world := w\<rparr>)
      | (Inr result, w) \<Rightarrow>
          (let json = stringify_or_null result;
               (toStore, w') = (case env_offload env of None \<Rightarrow> (json, w) | Some off \<Rightarrow> off (env_runId env) sid json w)
           in (Ok result, s\<lparr>world := w', recorded := recorded s @ [(sid, \<lparr>je_kind = ''run'', je_result = Some toStore\<rparr>)]\<rparr>)))"

text \<open>Resuming a thread: its next call, or its end.\<close>

fun resume :: "'w step_env \<Rightarrow> 'w wf \<Rightarrow> 'w attempt \<Rightarrow> 'w thread \<times> 'w attempt" where
  "resume env (Return v) s = (Settled (Ok v), s)"
| "resume env (Raise e) s = (Settled (Throw e), s)"
| "resume env (Call (Run sid timeout fn) k) s = begin_run env sid fn timeout k s"
| "resume env (Call c k) s = (case step env c s of (r, s') \<Rightarrow> (Going (k r), s'))"

definition settle_with :: "(exn, jsval) res \<Rightarrow> 'w wf" where
  "settle_with r = (case r of Inl e \<Rightarrow> Raise e | Inr v \<Rightarrow> Return v)"

text \<open>
  Calling a step outside an async function: \<open>run\<close> is async itself; the others throw on the spot, but
  for the error of a child that has failed, which is a rejected promise.
\<close>

definition invoke_promise :: "journal_entry \<Rightarrow> (exn, (exn, jsval) res) res" where
  "invoke_promise entry =
     rbind (entry_object entry) (\<lambda>r. rbind (prop_exn r ''error'') (\<lambda>err.
       if err \<noteq> JUndef then Ok (Throw (Error (js_String err))) else rbind (prop_exn r ''output'') (\<lambda>v. Ok (Ok v))))"

fun call_plain :: "'w step_env \<Rightarrow> 'w call \<Rightarrow> 'w attempt \<Rightarrow> (exn, 'w thread) res \<times> 'w attempt" where
  "call_plain env (Run sid timeout fn) s = (case begin_run env sid fn timeout settle_with s of (t, s1) \<Rightarrow> (Ok t, s1))"
| "call_plain env (Invoke sid name input) s =
     (case claim env sid ''invoke'' s of
        (Inr (Some entry), s1) \<Rightarrow> (rbind (invoke_promise entry) (\<lambda>r. Ok (Settled r)), s1)
      | _ \<Rightarrow> (case step env (Invoke sid name input) s of (r, s1) \<Rightarrow> (rbind r (\<lambda>v. Ok (Settled (Ok v))), s1)))"
| "call_plain env c s = (case step env c s of (r, s1) \<Rightarrow> (rbind r (\<lambda>v. Ok (Settled (Ok v))), s1))"

fun call_thunk :: "'w step_env \<Rightarrow> 'w thunk \<Rightarrow> 'w attempt \<Rightarrow> (exn, 'w thread) res \<times> 'w attempt" where
  "call_thunk env (Plain c) s = call_plain env c s"
| "call_thunk env (Async t) s = (case resume env t s of (th, s1) \<Rightarrow> (Ok th, s1))"

text \<open>\<open>thunks.map((t) => t())\<close>: a thunk that throws ends it, with the earlier threads left running.\<close>

fun call_all :: "'w step_env \<Rightarrow> 'w thunk list \<Rightarrow> 'w attempt \<Rightarrow> exn option \<times> 'w thread list \<times> 'w attempt" where
  "call_all env [] s = (None, [], s)"
| "call_all env (th # ths) s =
     (case call_thunk env th s of
        (Inl e, s1) \<Rightarrow> (Some e, [], s1)
      | (Inr t, s1) \<Rightarrow> (case call_all env ths s1 of (x, ts, s2) \<Rightarrow> (x, t # ts, s2)))"

section \<open>The block\<close>

record 'w par =
  pa_threads :: "'w thread list"
  pa_rejected :: "exn option"
  pa_attempt :: "'w attempt"

text \<open>The first rejection decides the promise of the block.\<close>

definition note_rejection :: "'w thread \<Rightarrow> exn option \<Rightarrow> exn option" where
  "note_rejection t rej = (case rej of Some e \<Rightarrow> Some e | None \<Rightarrow> (case t of Settled (Inl e) \<Rightarrow> Some e | _ \<Rightarrow> None))"

definition step_all :: "'w step_env \<Rightarrow> 'w thunk list \<Rightarrow> 'w attempt \<Rightarrow> 'w par" where
  "step_all env ths s =
     (case call_all env ths s of (x, ts, s1) \<Rightarrow> \<lparr>pa_threads = ts, pa_rejected = fold note_rejection ts x, pa_attempt = s1\<rparr>)"

inductive par_step :: "'w step_env \<Rightarrow> 'w par \<Rightarrow> 'w par \<Rightarrow> bool" for env where
  resumed: "i < length (pa_threads p) \<Longrightarrow> pa_threads p ! i = Going t \<Longrightarrow> resume env t (pa_attempt p) = (t', s') \<Longrightarrow>
    par_step env p \<lparr>pa_threads = (pa_threads p)[i := t'], pa_rejected = note_rejection t' (pa_rejected p), pa_attempt = s'\<rparr>"
| finished: "i < length (pa_threads p) \<Longrightarrow> pa_threads p ! i = Busy sid fn timeout k \<Longrightarrow>
    finish_run env sid fn timeout (pa_attempt p) = (r, s') \<Longrightarrow>
    par_step env p \<lparr>pa_threads = (pa_threads p)[i := Going (k r)], pa_rejected = pa_rejected p, pa_attempt = s'\<rparr>"

definition is_settled :: "'w thread \<Rightarrow> bool" where
  "is_settled t \<longleftrightarrow> (case t of Settled _ \<Rightarrow> True | _ \<Rightarrow> False)"

fun settled_values :: "'w thread list \<Rightarrow> jsval list" where
  "settled_values [] = []"
| "settled_values (Settled (Inr v) # ts) = v # settled_values ts"
| "settled_values (t # ts) = settled_values ts"

definition all_outcome :: "'w par \<Rightarrow> (exn, jsval) res option" where
  "all_outcome p =
     (case pa_rejected p of
        Some e \<Rightarrow> Some (Throw e)
      | None \<Rightarrow> if list_all is_settled (pa_threads p) then Some (Ok (JArr (settled_values (pa_threads p)))) else None)"

text \<open>The two halves of a step run make the step run of \<open>Workflow\<close>.\<close>

lemma step_run_halves:
  "step_run env sid fn timeout s =
    (case begin_run env sid fn timeout settle_with s of
       (Going t, s1) \<Rightarrow> (case t of Return v \<Rightarrow> Ok v | Raise e \<Rightarrow> Throw e | Call _ _ \<Rightarrow> Ok JUndef, s1)
     | (Busy sid' fn' timeout' k, s1) \<Rightarrow> finish_run env sid' fn' timeout' s1
     | (Settled r, s1) \<Rightarrow> (r, s1))"
  by (auto simp: step_run_def begin_run_def finish_run_def settle_with_def Let_def split: prod.split sum.split option.split)

section \<open>Parallel steps\<close>

text \<open>One step of the block \<open>step.all(rows.map((row) => () => step.run(id, body)))\<close>.\<close>

record 'w member =
  mb_id :: string
  mb_timeout :: "duration option"
  mb_body :: "'w body"

definition member_thunk :: "'w member \<Rightarrow> 'w thunk" where
  "member_thunk m = Plain (Run (mb_id m) (mb_timeout m) (mb_body m))"

definition value_entry :: "jsval \<Rightarrow> journal_entry" where
  "value_entry v = \<lparr>je_kind = ''run'', je_result = Some (stringify_or_null v)\<rparr>"

text \<open>The body succeeds in any world, with a JSON value that may depend on the world and may differ each time.\<close>

definition succeeds :: "'w member \<Rightarrow> bool" where
  "succeeds m \<longleftrightarrow> (\<forall>w. \<exists>v w'. run_body (mb_id m) (mb_body m) (mb_timeout m) w = (Ok v, w') \<and> json_ok v)"

definition journaled :: "'w step_env \<Rightarrow> 'w member \<Rightarrow> bool" where
  "journaled env m \<longleftrightarrow> map_get (env_journal env) (mb_id m) \<noteq> None"

definition journal_fits :: "'w step_env \<Rightarrow> 'w member \<Rightarrow> bool" where
  "journal_fits env m \<longleftrightarrow> (\<forall>e. map_get (env_journal env) (mb_id m) = Some e \<longrightarrow> (\<exists>v. json_ok v \<and> e = value_entry v))"

text \<open>The value a thread has come to, and where a thread of the block can be.\<close>

fun thread_value :: "'w thread \<Rightarrow> jsval option" where
  "thread_value (Going (Return v)) = Some v"
| "thread_value (Settled (Inr v)) = Some v"
| "thread_value _ = None"

lemma thread_value_Some: "thread_value t = Some v \<longleftrightarrow> t = Going (Return v) \<or> t = Settled (Ok v)"
  by (cases t rule: thread_value.cases) auto

definition thread_fits :: "'w step_env \<Rightarrow> 'w member \<Rightarrow> 'w thread \<Rightarrow> bool" where
  "thread_fits env m t \<longleftrightarrow>
     (case thread_value t of
        None \<Rightarrow> t = Busy (mb_id m) (mb_body m) (mb_timeout m) settle_with \<and> \<not> journaled env m
      | Some v \<Rightarrow> json_ok v \<and> (journaled env m \<longrightarrow> map_get (env_journal env) (mb_id m) = Some (value_entry v)))"

lemma parse_value: "json_ok v \<Longrightarrow> parse_exn (stringify_or_null v) = Ok v"
  using parse_stringify_or_null [of v] by (cases v) (auto simp: parse_exn_def or_null_def nullish_def)

lemma begin_member:
  assumes "journal_fits env m" and "mb_id m \<notin> set (usedIds s)"
  shows "\<exists>t. call_thunk env (member_thunk m) s = (Ok t, s\<lparr>usedIds := mb_id m # usedIds s\<rparr>) \<and> thread_fits env m t \<and>
    (\<not> journaled env m \<longrightarrow> thread_value t = None)"
proof (cases "map_get (env_journal env) (mb_id m)")
  case None
  then show ?thesis using assms by (simp add: member_thunk_def begin_run_def claim_def thread_fits_def journaled_def)
next
  case (Some e)
  then obtain v where v: "json_ok v" "e = value_entry v" using assms(1) by (auto simp: journal_fits_def)
  then show ?thesis using assms(2) Some parse_value [OF v(1)]
    by (simp add: member_thunk_def begin_run_def claim_def thread_fits_def journaled_def value_entry_def settle_with_def)
qed

lemma call_members:
  "list_all (journal_fits env) mbs \<Longrightarrow> distinct (map mb_id mbs) \<Longrightarrow> mb_id ` set mbs \<inter> set (usedIds s) = {} \<Longrightarrow>
   \<exists>ts s'. call_all env (map member_thunk mbs) s = (None, ts, s') \<and> recorded s' = recorded s \<and>
     list_all2 (\<lambda>m t. thread_fits env m t \<and> (\<not> journaled env m \<longrightarrow> thread_value t = None)) mbs ts"
proof (induction mbs arbitrary: s)
  case (Cons m mbs)
  let ?s = "s\<lparr>usedIds := mb_id m # usedIds s\<rparr>"
  have "journal_fits env m" "mb_id m \<notin> set (usedIds s)" using Cons.prems by auto
  from begin_member [OF this] obtain t where "call_thunk env (member_thunk m) s = (Ok t, ?s)" "thread_fits env m t"
    "\<not> journaled env m \<longrightarrow> thread_value t = None" by blast
  moreover have "\<exists>ts s'. call_all env (map member_thunk mbs) ?s = (None, ts, s') \<and> recorded s' = recorded ?s \<and>
      list_all2 (\<lambda>m t. thread_fits env m t \<and> (\<not> journaled env m \<longrightarrow> thread_value t = None)) mbs ts"
    by (rule Cons.IH) (use Cons.prems in auto)
  ultimately show ?case by auto
qed simp

text \<open>What has been recorded: the values of the threads whose step was not in the journal.\<close>

definition is_busy :: "'w thread \<Rightarrow> bool" where
  "is_busy t \<longleftrightarrow> (case t of Busy _ _ _ _ \<Rightarrow> True | _ \<Rightarrow> False)"

definition done_entries :: "'w step_env \<Rightarrow> 'w member list \<Rightarrow> 'w thread list \<Rightarrow> (string \<times> journal_entry) set" where
  "done_entries env mbs ts =
     {(mb_id (mbs ! i), value_entry v) | i v. i < length mbs \<and> \<not> journaled env (mbs ! i) \<and> thread_value (ts ! i) = Some v}"

definition par_inv :: "'w step_env \<Rightarrow> 'w member list \<Rightarrow> 'w attempt \<Rightarrow> 'w par \<Rightarrow> bool" where
  "par_inv env mbs s p \<longleftrightarrow>
     pa_rejected p = None \<and> list_all2 (thread_fits env) mbs (pa_threads p) \<and>
     (\<exists>new. recorded (pa_attempt p) = recorded s @ new \<and> distinct (map fst new) \<and> set new = done_entries env mbs (pa_threads p))"

lemma fold_note_rejection: "list_all2 (thread_fits env) mbs ts \<Longrightarrow> fold note_rejection ts None = None"
proof (induction rule: list_all2_induct)
  case (Cons m mbs t ts)
  then have "note_rejection t None = None" by (cases t rule: thread_value.cases) (auto simp: thread_fits_def note_rejection_def)
  then show ?case using Cons by simp
qed simp

lemma par_inv_start:
  assumes "list_all (journal_fits env) mbs" and "distinct (map mb_id mbs)" and "mb_id ` set mbs \<inter> set (usedIds s) = {}"
  shows "par_inv env mbs s (step_all env (map member_thunk mbs) s)"
proof -
  obtain ts s' where call: "call_all env (map member_thunk mbs) s = (None, ts, s')" "recorded s' = recorded s"
    and ts: "list_all2 (\<lambda>m t. thread_fits env m t \<and> (\<not> journaled env m \<longrightarrow> thread_value t = None)) mbs ts"
    using call_members [OF assms] by blast
  then have fits: "list_all2 (thread_fits env) mbs ts" by (auto simp: list_all2_conv_all_nth)
  have "done_entries env mbs ts = {}" using ts by (auto simp: done_entries_def list_all2_conv_all_nth)
  then show ?thesis using fits fold_note_rejection [OF fits] by (simp add: par_inv_def step_all_def call)
qed

lemma done_entries_same:
  assumes "thread_value t = thread_value (ts ! i)"
  shows "done_entries env mbs (ts[i := t]) = done_entries env mbs ts"
proof -
  have "thread_value (ts[i := t] ! j) = thread_value (ts ! j)" for j
    by (metis assms list_update_beyond not_less nth_list_update_eq nth_list_update_neq)
  then show ?thesis by (simp add: done_entries_def)
qed

lemma done_entries_finished:
  assumes "i < length mbs" and "length ts = length mbs" and "\<not> journaled env (mbs ! i)" and "thread_value (ts ! i) = None"
    and "thread_value t = Some v"
  shows "done_entries env mbs (ts[i := t]) = insert (mb_id (mbs ! i), value_entry v) (done_entries env mbs ts)"
proof -
  have "thread_value (ts[i := t] ! j) = (if j = i then Some v else thread_value (ts ! j))" if "j < length mbs" for j
    using assms that by (simp add: nth_list_update)
  then have "done_entries env mbs (ts[i := t]) = {(mb_id (mbs ! j), value_entry u) | j u. j < length mbs \<and> \<not> journaled env (mbs ! j) \<and>
      (if j = i then Some v else thread_value (ts ! j)) = Some u}"
    unfolding done_entries_def by (intro Collect_cong ex_cong1) auto
  also have "\<dots> = insert (mb_id (mbs ! i), value_entry v) (done_entries env mbs ts)"
    unfolding done_entries_def using assms(1,3,4) by (intro set_eqI iffI) (force split: if_splits)+
  finally show ?thesis .
qed

lemma par_inv_step:
  assumes "par_step env p q" and inv: "par_inv env mbs s p" and mbs: "list_all succeeds mbs" "distinct (map mb_id mbs)" and off: "env_offload env = None"
  shows "par_inv env mbs s q"
  using assms(1)
proof cases
  case (resumed i t t' s')
  have fit: "thread_fits env (mbs ! i) (pa_threads p ! i)" and len: "length (pa_threads p) = length mbs"
    using inv resumed(2) by (auto simp: par_inv_def list_all2_conv_all_nth)
  then obtain v where v: "thread_value (Going t) = Some v" using resumed(3) by (auto simp: thread_fits_def split: option.splits)
  then have t: "t = Return v" by (auto simp: thread_value_Some)
  then have t': "t' = Settled (Ok v)" "s' = pa_attempt p" using resumed(4) by auto
  have same: "thread_value t' = thread_value (pa_threads p ! i)" using resumed(3) t t' by simp
  then have "thread_fits env (mbs ! i) t'" using fit resumed(3) t t' by (simp add: thread_fits_def)
  then show ?thesis using inv resumed(1,2) t' len done_entries_same [OF same]
    by (auto simp: par_inv_def note_rejection_def list_all2_conv_all_nth nth_list_update)
next
  case (finished i sid fn timeout k r s')
  let ?m = "mbs ! i"
  have fit: "thread_fits env ?m (pa_threads p ! i)" and len: "length (pa_threads p) = length mbs"
    using inv finished(2) by (auto simp: par_inv_def list_all2_conv_all_nth)
  then have b: "sid = mb_id ?m" "fn = mb_body ?m" "timeout = mb_timeout ?m" "k = settle_with" "\<not> journaled env ?m"
    using finished(3) by (auto simp: thread_fits_def)
  have i: "i < length mbs" using finished(2) len by simp
  then have "succeeds ?m" using mbs(1) by (simp add: list_all_length)
  then obtain v w' where v: "run_body sid fn timeout (world (pa_attempt p)) = (Ok v, w')" "json_ok v"
    unfolding succeeds_def b by blast
  then have r: "r = Ok v" "recorded s' = recorded (pa_attempt p) @ [(mb_id ?m, value_entry v)]"
    using finished(4) off b by (auto simp: finish_run_def Let_def value_entry_def)
  obtain new where new: "recorded (pa_attempt p) = recorded s @ new" "distinct (map fst new)" "set new = done_entries env mbs (pa_threads p)"
    using inv by (auto simp: par_inv_def)
  have busy: "thread_value (pa_threads p ! i) = None" using finished(3) by simp
  have "mb_id ?m \<notin> fst ` set new"
  proof
    assume "mb_id ?m \<in> fst ` set new"
    then obtain j where "j < length mbs" "mb_id (mbs ! j) = mb_id ?m" "thread_value (pa_threads p ! j) \<noteq> None"
      unfolding new(3) done_entries_def by force
    then show False using mbs(2) i busy by (metis (no_types, lifting) distinct_conv_nth length_map nth_map)
  qed
  moreover have "done_entries env mbs ((pa_threads p)[i := Going (Return v)]) = insert (mb_id ?m, value_entry v) (set new)"
    unfolding new(3) by (rule done_entries_finished) (use i len b busy in simp_all)
  moreover have "thread_fits env ?m (Going (Return v))" using v(2) b(5) by (simp add: thread_fits_def)
  ultimately show ?thesis using inv finished(1,2) r b new len
    by (auto simp: par_inv_def settle_with_def list_all2_conv_all_nth nth_list_update)
qed

lemma par_inv_run:
  "(par_step env)\<^sup>*\<^sup>* p q \<Longrightarrow> par_inv env mbs s p \<Longrightarrow> list_all succeeds mbs \<Longrightarrow> distinct (map mb_id mbs) \<Longrightarrow> env_offload env = None \<Longrightarrow>
   par_inv env mbs s q"
  by (induction rule: rtranclp_induct) (auto intro: par_inv_step)

lemma settled_values_fit:
  "list_all2 (thread_fits env) mbs ts \<Longrightarrow> list_all is_settled ts \<Longrightarrow> map Some (settled_values ts) = map thread_value ts"
proof (induction rule: list_all2_induct)
  case (Cons m mbs t ts)
  then show ?case by (cases t rule: thread_value.cases) (auto simp: thread_fits_def is_settled_def)
qed simp

lemma par_progress:
  assumes "par_inv env mbs s p" and "\<not> list_all is_settled (pa_threads p)"
  shows "\<exists>q. par_step env p q"
proof -
  obtain i where i: "i < length (pa_threads p)" "\<not> is_settled (pa_threads p ! i)" using assms(2) by (auto simp: list_all_length)
  then consider t where "pa_threads p ! i = Going t" | sid fn timeout k where "pa_threads p ! i = Busy sid fn timeout k"
    by (cases "pa_threads p ! i") (auto simp: is_settled_def)
  then show ?thesis
  proof cases
    case (1 t)
    obtain t' s' where "resume env t (pa_attempt p) = (t', s')" by fastforce
    from par_step.resumed [OF i(1) 1 this] show ?thesis by blast
  next
    case (2 sid fn timeout k)
    obtain r s' where "finish_run env sid fn timeout (pa_attempt p) = (r, s')" by fastforce
    from par_step.finished [OF i(1) 2 this] show ?thesis by blast
  qed
qed

text \<open>What one attempt at the block does: no schedule fails or gets stuck, and what is recorded is right.\<close>

lemma step_all_attempt:
  assumes mbs: "list_all succeeds mbs" "list_all (journal_fits env) mbs" "distinct (map mb_id mbs)"
    and off: "env_offload env = None" and run: "(par_step env)\<^sup>*\<^sup>* (step_all env (map member_thunk mbs) (start w)) p"
  shows "par_inv env mbs (start w) p"
    and "distinct (map fst (recorded (pa_attempt p)))" "set (recorded (pa_attempt p)) = done_entries env mbs (pa_threads p)"
    and "(\<exists>vs. all_outcome p = Some (Ok (JArr vs)) \<and> map Some vs = map thread_value (pa_threads p)) \<or> (\<exists>q. par_step env p q)"
proof -
  have "par_inv env mbs (start w) (step_all env (map member_thunk mbs) (start w))"
    by (rule par_inv_start [OF mbs(2,3)]) (simp add: start_def)
  then show inv: "par_inv env mbs (start w) p" by (rule par_inv_run [OF run _ mbs(1,3) off])
  then show "distinct (map fst (recorded (pa_attempt p)))" "set (recorded (pa_attempt p)) = done_entries env mbs (pa_threads p)"
    by (auto simp: par_inv_def start_def)
  show "(\<exists>vs. all_outcome p = Some (Ok (JArr vs)) \<and> map Some vs = map thread_value (pa_threads p)) \<or> (\<exists>q. par_step env p q)"
  proof (cases "list_all is_settled (pa_threads p)")
    case True
    then show ?thesis using inv settled_values_fit by (auto simp: all_outcome_def par_inv_def)
  next
    case False
    then show ?thesis using par_progress [OF inv] by blast
  qed
qed

text \<open>Every schedule of the block is finite: a thread moves at most twice.\<close>

definition thread_left :: "'w thread \<Rightarrow> nat" where
  "thread_left t = (case t of Busy _ _ _ _ \<Rightarrow> 2 | Going _ \<Rightarrow> 1 | Settled _ \<Rightarrow> 0)"

definition par_left :: "'w par \<Rightarrow> nat" where
  "par_left p = sum_list (map thread_left (pa_threads p))"

lemma par_left_decreases:
  assumes "par_step env p q" and "par_inv env mbs s p"
  shows "par_left q < par_left p"
proof -
  have upd: "sum_list (map thread_left (ts[i := t])) < sum_list (map thread_left ts)"
    if "i < length ts" "thread_left t < thread_left (ts ! i)" for ts :: "'a thread list" and i t
    using that by (induction ts arbitrary: i) (auto simp: nth_Cons split: nat.split)
  from assms(1) show ?thesis
  proof cases
    case (resumed i t t' s')
    have "thread_fits env (mbs ! i) (pa_threads p ! i)"
      using assms(2) resumed(2) by (auto simp: par_inv_def list_all2_conv_all_nth)
    then obtain v where "thread_value (Going t) = Some v" using resumed(3) by (auto simp: thread_fits_def split: option.splits)
    then have "t' = Settled (Ok v)" using resumed(4) by (auto simp: thread_value_Some)
    then show ?thesis using upd [OF resumed(2), of t'] resumed(1,3) by (simp add: par_left_def thread_left_def)
  next
    case (finished i sid fn timeout k r s')
    then show ?thesis using upd [OF finished(2), of "Going (k r)"] by (simp add: par_left_def thread_left_def)
  qed
qed

section \<open>Property\<close>

text \<open>
  C22: parallel steps are memoized one by one. A block of parallel steps with different ids, none recorded
  before, whose bodies succeed with JSON values (any value, depending on the world they run in), dies at any
  point of any schedule and is run again, in any world, with what was recorded. On every schedule the second
  attempt runs only bodies of steps that were not recorded, can go on unless it has ended, and ends with a list
  that holds for each thunk, in order, the value recorded for its step in the attempt that recorded it; every
  step of the block is then recorded once. No payload codec.
\<close>

theorem step_all_memoizes:
  assumes "list_all succeeds mbs" and "distinct (map mb_id mbs)" and "\<forall>m \<in> set mbs. map_get (env_journal env) (mb_id m) = None"
    and "env_offload env = None" and "jsmap_ok (env_journal env)"
    and "(par_step env)\<^sup>*\<^sup>* (step_all env (map member_thunk mbs) (start w)) p"
    and again: "env' = env\<lparr>env_journal := with_journal (recorded (pa_attempt p)) (env_journal env)\<rparr>"
    and "(par_step env')\<^sup>*\<^sup>* (step_all env' (map member_thunk mbs) (start w')) q"
  shows "((\<exists>vs. all_outcome q = Some (Ok (JArr vs)) \<and> length vs = length mbs \<and>
        (\<forall>i < length mbs. (mb_id (mbs ! i), value_entry (vs ! i)) \<in> set (recorded (pa_attempt p) @ recorded (pa_attempt q))) \<and>
        fst ` set (recorded (pa_attempt p) @ recorded (pa_attempt q)) = mb_id ` set mbs) \<or>
      (\<exists>r. par_step env' q r)) \<and>
    distinct (map fst (recorded (pa_attempt p) @ recorded (pa_attempt q))) \<and>
    (\<forall>i < length mbs. is_busy (pa_threads q ! i) \<longrightarrow> mb_id (mbs ! i) \<notin> fst ` set (recorded (pa_attempt p)))"
proof -
  let ?p = "recorded (pa_attempt p)" and ?q = "recorded (pa_attempt q)"
  have "list_all (journal_fits env) mbs" using assms(3) by (simp add: list_all_iff journal_fits_def)
  note p = step_all_attempt [OF assms(1) this assms(2,4,6)]
  have get: "map_get (env_journal env') (mb_id m) = map_of ?p (mb_id m)" if "m \<in> set mbs" for m
    using with_journal_get [OF assms(5) p(2)] assms(3) that by (simp add: again split: option.split)
  have vals: "\<exists>v. json_ok v \<and> e = value_entry v" if mem: "(sid, e) \<in> set ?p" for sid e
  proof -
    obtain i v where "i < length mbs" "e = value_entry v" "thread_value (pa_threads p ! i) = Some v"
      using mem unfolding p(3) done_entries_def by fastforce
    moreover have "thread_fits env (mbs ! i) (pa_threads p ! i)" using p(1) \<open>i < length mbs\<close> by (auto simp: par_inv_def list_all2_conv_all_nth)
    ultimately show ?thesis by (auto simp: thread_fits_def)
  qed
  have fits: "list_all (journal_fits env') mbs"
    unfolding list_all_iff journal_fits_def by (auto simp: get dest!: map_of_SomeD intro: vals)
  have off: "env_offload env' = None" using assms(4) by (simp add: again)
  note q = step_all_attempt [OF assms(1) fits assms(2) off assms(8)]
  have jd: "journaled env' m \<longleftrightarrow> mb_id m \<in> fst ` set ?p" if "m \<in> set mbs" for m
    using get [OF that] by (simp add: journaled_def) (metis map_of_eq_None_iff option.distinct(1) option.exhaust)
  have thread: "thread_fits env' (mbs ! i) (pa_threads q ! i)" if "i < length mbs" for i
    using q(1) that by (auto simp: par_inv_def list_all2_conv_all_nth)
  have len: "length (pa_threads q) = length mbs" using q(1) by (auto simp: par_inv_def list_all2_lengthD)
  have entry: "(mb_id (mbs ! i), value_entry v) \<in> set (?p @ ?q)" if i: "i < length mbs" and v: "thread_value (pa_threads q ! i) = Some v" for i v
  proof (cases "journaled env' (mbs ! i)")
    case True
    then have "map_of ?p (mb_id (mbs ! i)) = Some (value_entry v)"
      using thread [OF i] v get [of "mbs ! i"] i by (simp add: thread_fits_def)
    then show ?thesis by (auto dest: map_of_SomeD)
  next
    case False
    then show ?thesis using i v unfolding set_append q(3) done_entries_def by blast
  qed
  have ids: "fst ` set (?p @ ?q) \<subseteq> mb_id ` set mbs" unfolding set_append p(3) q(3) by (force simp: done_entries_def)
  have "fst ` set ?p \<inter> fst ` set ?q = {}" using jd unfolding q(3) by (force simp: done_entries_def)
  then have "distinct (map fst (?p @ ?q))" using p(2) q(2) by simp
  moreover have "\<forall>i < length mbs. is_busy (pa_threads q ! i) \<longrightarrow> mb_id (mbs ! i) \<notin> fst ` set ?p"
  proof (intro allI impI)
    fix i assume i: "i < length mbs" "is_busy (pa_threads q ! i)"
    then have "thread_value (pa_threads q ! i) = None" by (cases "pa_threads q ! i") (auto simp: is_busy_def)
    then show "mb_id (mbs ! i) \<notin> fst ` set ?p" using thread [OF i(1)] jd [of "mbs ! i"] i(1) by (simp add: thread_fits_def)
  qed
  moreover have "length vs = length mbs \<and> (\<forall>i < length mbs. (mb_id (mbs ! i), value_entry (vs ! i)) \<in> set (?p @ ?q)) \<and>
      fst ` set (?p @ ?q) = mb_id ` set mbs" if vs: "map Some vs = map thread_value (pa_threads q)" for vs
  proof -
    have l: "length vs = length mbs" using arg_cong [OF vs, of length] len by simp
    have v: "thread_value (pa_threads q ! i) = Some (vs ! i)" if "i < length mbs" for i
      using arg_cong [OF vs, of "\<lambda>xs. xs ! i"] that l len by simp
    have all: "\<forall>i < length mbs. (mb_id (mbs ! i), value_entry (vs ! i)) \<in> set (?p @ ?q)" using entry v by blast
    then have "mb_id ` set mbs \<subseteq> fst ` set (?p @ ?q)" by (force simp: in_set_conv_nth)
    then show ?thesis using l all ids by blast
  qed
  ultimately show ?thesis using q(4) by blast
qed

text \<open>Two bodies that count how often they ran, and answer with the count.\<close>

definition upserts :: "int member list" where
  "upserts =
     [\<lparr>mb_id = ''a'', mb_timeout = None, mb_body = (\<lambda>w. (Ok (JNum w), 5, w + 1))\<rparr>,
      \<lparr>mb_id = ''b'', mb_timeout = None, mb_body = (\<lambda>w. (Ok (JNum w), 5, w + 1))\<rparr>]"

definition bare_env :: "int step_env" where
  "bare_env = \<lparr>env_journal = [], env_runId = ''r'', env_now = (\<lambda>w. 0), env_offload = None\<rparr>"

lemma bare_env_offload [simp]: "env_offload bare_env = None"
  by (simp add: bare_env_def)

text \<open>The second body has finished, in world 0, when the process dies; the first had begun.\<close>

definition counting :: "string \<Rightarrow> int thread" where
  "counting sid = Busy sid (\<lambda>w. (Ok (JNum w), 5, w + 1)) None settle_with"

definition second_done :: "int par" where
  "second_done =
     \<lparr>pa_threads = [counting ''a'', Going (Return (JNum 0))], pa_rejected = None,
      pa_attempt = \<lparr>usedIds = [''b'', ''a''], world = 1, recorded = [(''b'', \<lparr>je_kind = ''run'', je_result = Some ''0''\<rparr>)]\<rparr>\<rparr>"

lemma upserts_begin:
  "step_all bare_env (map member_thunk upserts) (start 0) =
     \<lparr>pa_threads = [counting ''a'', counting ''b''], pa_rejected = None, pa_attempt = \<lparr>usedIds = [''b'', ''a''], world = 0, recorded = []\<rparr>\<rparr>"
  by (simp add: step_all_def upserts_def member_thunk_def begin_run_def claim_def bare_env_def start_def note_rejection_def counting_def)

lemma upserts_step: "par_step bare_env (step_all bare_env (map member_thunk upserts) (start 0)) second_done"
proof -
  let ?p = "step_all bare_env (map member_thunk upserts) (start 0)"
  have zero: "stringify_or_null (JNum 0) = ''0''" by code_simp
  have "par_step bare_env ?p \<lparr>pa_threads = (pa_threads ?p)[1 := Going (settle_with (Ok (JNum 0)))], pa_rejected = pa_rejected ?p,
      pa_attempt = pa_attempt second_done\<rparr>"
    by (rule par_step.finished [of 1 ?p "''b''" "\<lambda>w. (Ok (JNum w), 5, w + 1)" None settle_with])
      (simp_all add: upserts_begin finish_run_def run_body_def second_done_def zero Let_def counting_def)
  then show ?thesis by (simp add: upserts_begin second_done_def settle_with_def)
qed

theorem step_all_memoizes_witness:
  "let env' = bare_env\<lparr>env_journal := with_journal (recorded (pa_attempt second_done)) []\<rparr>;
       q = step_all env' (map member_thunk upserts) (start 7)
   in pa_threads q = [counting ''a'', Going (Return (JNum 0))] \<and> (\<exists>r. par_step env' q r)"
proof -
  let ?env = "bare_env\<lparr>env_journal := with_journal (recorded (pa_attempt second_done)) (env_journal bare_env)\<rparr>"
  let ?q = "step_all ?env (map member_thunk upserts) (start 7)"
  have zero: "parse_exn ''0'' = Ok (JNum 0)" by code_simp
  have st: "list_all succeeds upserts" by (simp add: upserts_def succeeds_def run_body_def)
  have ids: "distinct (map mb_id upserts)" "\<forall>m \<in> set upserts. map_get (env_journal bare_env) (mb_id m) = None"
      "env_offload bare_env = None" "jsmap_ok (env_journal bare_env)"
    by (simp_all add: upserts_def bare_env_def)
  have first: "(par_step bare_env)\<^sup>*\<^sup>* (step_all bare_env (map member_thunk upserts) (start 0)) second_done"
    using upserts_step by (rule r_into_rtranclp)
  have threads: "pa_threads ?q = [counting ''a'', Going (Return (JNum 0))]" "pa_rejected ?q = None"
    by (simp_all add: step_all_def upserts_def member_thunk_def begin_run_def claim_def bare_env_def start_def note_rejection_def
        with_journal_def second_done_def settle_with_def zero counting_def)
  have "(\<exists>vs. all_outcome ?q = Some (Ok (JArr vs))) \<or> (\<exists>r. par_step ?env ?q r)"
    using step_all_memoizes [OF st ids first refl rtranclp.rtrancl_refl, of 7] by blast
  then show ?thesis using threads by (simp add: Let_def all_outcome_def is_settled_def bare_env_def counting_def)
qed

section \<open>Findings\<close>

text \<open>
  The first failure ends the attempt while the other bodies still run. Their results are recorded too late
  for the retry if it begins before they end: a step that succeeds is run again, though only the failure
  is documented to be.
\<close>

definition failing_block :: "int thunk list" where
  "failing_block =
     [Plain (Run ''bad'' None (\<lambda>w. (Throw (Error ''down''), 5, w))), Plain (Run ''slow'' None (\<lambda>w. (Ok (JNum 2), 900, w + 1)))]"

lemma sibling_still_running_is_run_again:
  "\<exists>p. (par_step bare_env)\<^sup>*\<^sup>* (step_all bare_env failing_block (start 0)) p \<and>
     all_outcome p = Some (Throw (StepFailure ''bad'' (Error ''down''))) \<and>
     is_busy (pa_threads p ! 1) \<and> recorded (pa_attempt p) = [] \<and>
     is_busy (pa_threads (step_all (bare_env\<lparr>env_journal := with_journal (recorded (pa_attempt p)) []\<rparr>) failing_block (start 0)) ! 1)"
proof -
  let ?p = "step_all bare_env failing_block (start 0)"
  let ?slow = "Busy ''slow'' (\<lambda>w. (Ok (JNum 2), 900, w + 1)) None settle_with"
  let ?a = "\<lparr>usedIds = [''slow'', ''bad''], world = 0, recorded = []\<rparr> :: int attempt"
  let ?e = "StepFailure ''bad'' (Error ''down'')"
  have p: "?p = \<lparr>pa_threads = [Busy ''bad'' (\<lambda>w. (Throw (Error ''down''), 5, w)) None settle_with, ?slow], pa_rejected = None, pa_attempt = ?a\<rparr>"
    by (simp add: step_all_def failing_block_def begin_run_def claim_def bare_env_def start_def note_rejection_def)
  let ?q = "\<lparr>pa_threads = [Going (Raise ?e), ?slow], pa_rejected = None, pa_attempt = ?a\<rparr>"
  let ?r = "\<lparr>pa_threads = [Settled (Throw ?e), ?slow], pa_rejected = Some ?e, pa_attempt = ?a\<rparr>"
  have "par_step bare_env ?p ?q"
    using par_step.finished [of 0 ?p "''bad''" "\<lambda>w. (Throw (Error ''down''), 5, w)" None settle_with bare_env "Throw ?e" ?a]
    by (simp add: p finish_run_def run_body_def settle_with_def)
  moreover have "par_step bare_env ?q ?r"
    using par_step.resumed [of 0 ?q "Raise ?e" bare_env "Settled (Throw ?e)" ?a] by (simp add: note_rejection_def)
  ultimately have "(par_step bare_env)\<^sup>*\<^sup>* ?p ?r" by (meson r_into_rtranclp rtranclp_trans)
  moreover have "bare_env\<lparr>env_journal := with_journal [] []\<rparr> = bare_env" by (simp add: with_journal_def bare_env_def)
  ultimately show ?thesis by (intro exI [of _ ?r]) (simp add: all_outcome_def p is_busy_def)
qed

text \<open>
  A thunk that is not async and suspends (\<open>() => step.sleep(...)\<close>) throws out of the call of the
  thunks: the thunks behind it are never called, the bodies before it run on unobserved.
\<close>

lemma plain_sleep_drops_later_thunks:
  "let p = step_all bare_env [Plain (Run ''a'' None (\<lambda>w. (Ok JNull, 5, w))), Plain (Sleep ''z'' (DStr ''5ms'')), Plain (Run ''c'' None (\<lambda>w. (Ok JNull, 5, w)))] (start 0)
   in length (pa_threads p) = 1 \<and> is_busy (pa_threads p ! 0) \<and> pa_rejected p = Some (SuspendSignal (SleepInfo ''z'' 5))"
proof -
  have "ms_exn (DStr ''5ms'') = Ok 5" by code_simp
  then show ?thesis
    by (simp add: step_all_def begin_run_def claim_def bare_env_def start_def note_rejection_def step_sleep_def is_busy_def)
qed

end
