(* ===== verification/Scaffold.thy ===== *)
theory Scaffold
  imports Json Paths
begin

text \<open>
  The project generator (\<open>packages/create-zenzip-app/bin/index.mjs\<close>): its arguments, the refusals, and the
  files it writes. The file system is a map from absolute paths to contents; a directory is there when
  a file is below it. The templates that ship with the package are an argument.
\<close>

section \<open>Arguments\<close>

definition TEMPLATES :: "string list" where
  "TEMPLATES = [''basic'', ''agent'', ''with-fastify'']"

definition arg_name :: "string list \<Rightarrow> string option" where
  "arg_name args = List.find (\<lambda>a. \<not> startsWith a ''-'') args"

text \<open>\<open>None\<close> is \<open>undefined\<close>: the flag is the last argument.\<close>

fun after_flag :: "string list \<Rightarrow> string option" where
  "after_flag [] = None"
| "after_flag (a # as) = (if a = ''--template'' then (case as of [] \<Rightarrow> None | t # _ \<Rightarrow> Some t) else after_flag as)"

definition arg_template :: "string list \<Rightarrow> string option" where
  "arg_template args =
     (if ''--template'' \<in> set args then after_flag args
      else (case List.find (\<lambda>a. startsWith a ''--template='') args of
              None \<Rightarrow> Some ''basic''
            | Some a \<Rightarrow> Some (split_on (CHR ''='') a ! 1)))"

definition name_char :: "char \<Rightarrow> bool" where
  "name_char c \<longleftrightarrow> (let n = code c in (97 \<le> n \<and> n \<le> 122) \<or> (65 \<le> n \<and> n \<le> 90) \<or> (48 \<le> n \<and> n \<le> 57)) \<or>
     c \<in> {CHR ''-'', CHR ''_'', CHR ''.''}"

definition valid_name :: "string \<Rightarrow> bool" where
  "valid_name n \<longleftrightarrow> n \<noteq> [] \<and> list_all name_char n"

section \<open>Files\<close>

type_synonym files = "(string, string) jsmap"

fun json_pretty :: "nat \<Rightarrow> jsval \<Rightarrow> string" where
  "json_pretty ind (JArr vs) =
     (if vs = [] then ''[]''
      else ''['' @ [CHR 0x0A] @
        join_with ('','' @ [CHR 0x0A]) (map (\<lambda>v. replicate (ind + 2) (CHR '' '') @ json_pretty (ind + 2) v) vs) @
        [CHR 0x0A] @ replicate ind (CHR '' '') @ '']'')"
| "json_pretty ind (JObj kvs) =
     (if kvs = [] then ''{}''
      else ''{'' @ [CHR 0x0A] @
        join_with ('','' @ [CHR 0x0A]) (map (\<lambda>kv. replicate (ind + 2) (CHR '' '') @ quote_str (fst kv) @ '': '' @ json_pretty (ind + 2) (snd kv)) kvs) @
        [CHR 0x0A] @ replicate ind (CHR '' '') @ ''}'')"
| "json_pretty ind v = json_text v"

definition below :: "string \<Rightarrow> files \<Rightarrow> (string \<times> string) list" where
  "below dir fs = filter (\<lambda>(p, _). startsWith p (dir @ [SLASH])) fs"

definition copy_template :: "string \<Rightarrow> (string \<times> string) list \<Rightarrow> files \<Rightarrow> files" where
  "copy_template target template fs = fold (\<lambda>(rel, c). map_set (path_join target rel) c) template fs"

text \<open>How a run ends: the exit code of the usage text, a message and exit code 1, an exception, or success.\<close>

datatype scaffold_end = Usage int | Refused string | Crashed | Created string string

definition stamp_package :: "string \<Rightarrow> string \<Rightarrow> files \<Rightarrow> files option" where
  "stamp_package target name fs =
     (case map_get fs (path_join target ''package.json'') of
        None \<Rightarrow> None
      | Some t \<Rightarrow>
          (case JSON_parse t of
             Some (JObj kvs) \<Rightarrow>
               Some (map_set (path_join target ''package.json'')
                 (json_pretty 0 (JObj (map_set ''name'' (JStr (toLowerCase name)) kvs)) @ [CHR 0x0A]) fs)
           | _ \<Rightarrow> None))"

definition ship_gitignore :: "string \<Rightarrow> files \<Rightarrow> files" where
  "ship_gitignore target fs =
     (case map_get fs (path_join target ''_gitignore'') of
        None \<Rightarrow> fs
      | Some c \<Rightarrow> map_set (path_join target ''.gitignore'') c fs)"

definition scaffold :: "(string \<Rightarrow> (string \<times> string) list) \<Rightarrow> string \<Rightarrow> string list \<Rightarrow> files \<Rightarrow> scaffold_end \<times> files" where
  "scaffold templates cwd args fs =
     (case arg_name args of
        None \<Rightarrow> (Usage 1, fs)
      | Some name \<Rightarrow>
          if name = [] then (Usage 1, fs)
          else if ''--help'' \<in> set args \<or> ''-h'' \<in> set args then (Usage 0, fs)
          else
            (case arg_template args of
               None \<Rightarrow> (Refused (''unknown template '' @ [DQ] @ ''undefined'' @ [DQ]), fs)
             | Some template \<Rightarrow>
                 if template \<notin> set TEMPLATES then (Refused (''unknown template '' @ [DQ] @ template @ [DQ]), fs)
                 else if \<not> valid_name name then (Refused (''invalid project name '' @ [DQ] @ name @ [DQ]), fs)
                 else
                   (let target = path_join cwd name in
                    if map_has fs target then (Crashed, fs)
                    else if below target fs \<noteq> [] then (Refused (''directory '' @ [DQ] @ name @ [DQ] @ '' exists and is not empty''), fs)
                    else
                      (let copied = copy_template target (templates template) fs in
                       case stamp_package target name copied of
                         None \<Rightarrow> (Crashed, copied)
                       | Some stamped \<Rightarrow> (Created name template, ship_gitignore target stamped)))))"

section \<open>What a run may write\<close>

definition clean_rel :: "string \<Rightarrow> bool" where
  "clean_rel r \<longleftrightarrow> r \<noteq> [] \<and> list_all clean (split_on SLASH r)"

lemma name_char_slash: "\<not> name_char SLASH"
  by (simp add: name_char_def code_def)

lemma valid_name_clean: "valid_name n \<Longrightarrow> n \<noteq> ''.'' \<Longrightarrow> n \<noteq> ''..'' \<Longrightarrow> clean n"
  using name_char_slash by (auto simp: valid_name_def clean_def list_all_iff)

lemma clean_rel_one: "clean r \<Longrightarrow> clean_rel r"
  by (simp add: clean_rel_def clean_def split_on_no_sep)

text \<open>Joining with a clean relative path, of one or several segments.\<close>

lemma join_clean:
  assumes "ds \<noteq> []" and "\<And>s. s \<in> set ds \<Longrightarrow> clean s" and "clean_rel r"
  shows "path_join (path_of True ds) r = path_of True (ds @ split_on SLASH r) \<and> startsWith (path_join (path_of True ds) r) (path_of True ds @ [SLASH])"
proof -
  let ?s = "split_on SLASH r"
  have c: "clean s" if "s \<in> set ?s" for s using assms(3) that by (simp add: clean_rel_def list_all_iff)
  have "last r \<noteq> SLASH"
  proof
    assume l: "last r = SLASH"
    have "r \<noteq> []" using assms(3) by (simp add: clean_rel_def)
    then have "split_on SLASH r = split_on SLASH (butlast r) @ split_on SLASH []"
      using split_on_append_sep [of SLASH "butlast r" "[]"] l by (metis append_butlast_last_id)
    then have "[] \<in> set ?s" by simp
    then show False using c [of "[]"] by (simp add: clean_def)
  qed
  then have "path_join (path_of True ds) r = path_of True (ds @ filter (\<lambda>s. s \<noteq> []) ?s)"
    by (intro path_join_below) (use assms c in \<open>auto simp: clean_rel_def clean_def\<close>)
  moreover have "filter (\<lambda>s. s \<noteq> []) ?s = ?s" using c by (auto simp: filter_id_conv clean_def)
  moreover have "path_of True (ds @ ?s) = (path_of True ds @ [SLASH]) @ join_with [SLASH] ?s"
    using assms(1) by (simp add: path_of_def join_with_append)
  ultimately show ?thesis by (metis startsWith_append)
qed

text \<open>Two file systems that differ below a directory only, and not in the files of the first.\<close>

definition adds_below :: "string \<Rightarrow> files \<Rightarrow> files \<Rightarrow> bool" where
  "adds_below dir fs fs' \<longleftrightarrow> (\<forall>p. map_get fs' p \<noteq> map_get fs p \<longrightarrow> startsWith p (dir @ [SLASH]))"

lemma adds_below_refl [simp]: "adds_below dir fs fs"
  by (simp add: adds_below_def)

lemma adds_below_set: "adds_below dir fs fs' \<Longrightarrow> startsWith p (dir @ [SLASH]) \<Longrightarrow> adds_below dir fs (map_set p c fs')"
  by (auto simp: adds_below_def jsmap_simps)

lemma adds_below_copy:
  assumes "\<And>rel c. (rel, c) \<in> set template \<Longrightarrow> startsWith (path_join dir rel) (dir @ [SLASH])"
  shows "adds_below dir fs fs' \<Longrightarrow> adds_below dir fs (copy_template dir template fs')"
  using assms unfolding copy_template_def
  by (induction template arbitrary: fs') (auto intro: adds_below_set)

text \<open>A new project never changes a file that was there, and writes only below its own directory.\<close>

lemma scaffold_adds:
  assumes cwd: "cwd = path_of True ds" "ds \<noteq> []" "\<And>s. s \<in> set ds \<Longrightarrow> clean s"
    and templates: "\<And>t rel c. (rel, c) \<in> set (templates t) \<Longrightarrow> clean_rel rel"
    and name: "arg_name args = Some name" "name \<noteq> ''.''" "name \<noteq> ''..''"
    and run: "scaffold templates cwd args fs = (res, fs')"
  shows "adds_below (path_join cwd name) fs fs' \<and> (\<forall>p. map_get fs p \<noteq> None \<longrightarrow> map_get fs' p = map_get fs p)"
proof (cases "fs' = fs")
  case True
  then show ?thesis by simp
next
  case False
  let ?t = "path_join cwd name"
  have go: "valid_name name" "below ?t fs = []"
    using run False name(1) by (auto simp: scaffold_def Let_def split: if_splits option.splits)
  obtain template where res: "fs' = copy_template ?t (templates template) fs \<or>
      (\<exists>stamped. stamp_package ?t name (copy_template ?t (templates template) fs) = Some stamped \<and> fs' = ship_gitignore ?t stamped)"
    using run False name(1) by (auto simp: scaffold_def Let_def split: if_splits option.splits)
  have cn: "clean name" using go(1) name by (intro valid_name_clean)
  then have "split_on SLASH name = [name]" by (simp add: clean_def split_on_no_sep)
  then have t: "?t = path_of True (ds @ [name])" using join_clean [OF cwd(2,3) clean_rel_one [OF cn]] cwd(1) by simp
  have under: "startsWith (path_join ?t rel) (?t @ [SLASH])" if "clean_rel rel" for rel
    using join_clean [of "ds @ [name]" rel] that cwd cn unfolding t by auto
  have own: "clean_rel ''package.json''" "clean_rel ''_gitignore''" "clean_rel ''.gitignore''"
    by (simp_all add: clean_rel_def clean_def)
  let ?c = "copy_template ?t (templates template) fs"
  have copied: "adds_below ?t fs ?c" by (rule adds_below_copy) (auto intro: under templates)
  have "adds_below ?t fs fs'"
    using res
  proof
    assume "\<exists>stamped. stamp_package ?t name ?c = Some stamped \<and> fs' = ship_gitignore ?t stamped"
    then obtain stamped where s: "stamp_package ?t name ?c = Some stamped" "fs' = ship_gitignore ?t stamped" by blast
    have "adds_below ?t fs stamped"
      using s(1) adds_below_set [OF copied under [OF own(1)]] by (auto simp: stamp_package_def split: option.splits jsval.splits)
    then show ?thesis using s(2) adds_below_set [OF _ under [OF own(3)]] by (auto simp: ship_gitignore_def split: option.splits)
  qed (use copied in simp)
  moreover have "\<not> startsWith p (?t @ [SLASH])" if "map_get fs p \<noteq> None" for p
    using go(2) that by (auto simp: below_def filter_empty_conv dest!: map_of_SomeD)
  ultimately show ?thesis unfolding adds_below_def by metis
qed

text \<open>A refusal writes nothing.\<close>

lemma scaffold_refuses:
  "scaffold templates cwd args fs = (res, fs') \<Longrightarrow> (\<exists>n. res = Usage n) \<or> (\<exists>m. res = Refused m) \<Longrightarrow> fs' = fs"
  by (auto simp: scaffold_def Let_def split: if_splits option.splits)

section \<open>Findings\<close>

text \<open>
  The name is the first argument that is no flag, also when it is the value of one: with the template
  first, the project gets the name of the template, in a directory of that name.
\<close>

lemma template_taken_for_name:
  "arg_name [''--template'', ''agent'', ''my-app''] = Some ''agent'' \<and> arg_template [''--template'', ''agent'', ''my-app''] = Some ''agent''"
  by code_simp

lemma missing_template_value:
  "fst (scaffold templates cwd [''my-app'', ''--template''] fs) = Refused (''unknown template '' @ [DQ] @ ''undefined'' @ [DQ])"
  by (simp add: scaffold_def arg_name_def arg_template_def startsWith_def)

end
