(* ===== verification/Llm.thy ===== *)
theory Llm
  imports Json Doubles
begin

text \<open>
  The provider-neutral surface of the language models (\<open>packages/zenzip/src/llm/types.ts\<close>) and the price
  table (\<open>llm/pricing.ts\<close>). Responses and messages are journalled as JSON: each type has its JavaScript
  object (\<open>enc_\<close>) and the reading of one (\<open>dec_\<close>), inverse to each other. Prices are IEEE doubles,
  rationals rounded by \<open>fl\<close> after every operation.
\<close>

section \<open>Types\<close>

datatype llm_content =
    TextPart string
  | ToolUse (use_id: string) (use_name: string) (use_input: jsval)
  | ToolResult string string bool

datatype llm_role = User | Assistant

record llm_message =
  m_role :: llm_role
  m_content :: "llm_content list"

record llm_tool_def =
  td_name :: string
  td_description :: string
  td_parameters :: jsval

record llm_request =
  lr_model :: string
  lr_system :: "string option"
  lr_messages :: "llm_message list"
  lr_tools :: "llm_tool_def list option"
  lr_maxTokens :: "int option"
  lr_temperature :: "jsval option"

record llm_usage =
  inputTokens :: int
  outputTokens :: int

record llm_response =
  r_content :: "llm_content list"
  r_stopReason :: string
  r_usage :: llm_usage

fun is_tool_use :: "llm_content \<Rightarrow> bool" where
  "is_tool_use (ToolUse _ _ _) = True"
| "is_tool_use _ = False"

fun text_of :: "llm_content \<Rightarrow> string" where
  "text_of (TextPart t) = t"
| "text_of _ = []"

definition textContent :: "llm_response \<Rightarrow> string" where
  "textContent r = concat (map text_of (r_content r))"

definition toolUses :: "llm_response \<Rightarrow> llm_content list" where
  "toolUses r = filter is_tool_use (r_content r)"

section \<open>Their JavaScript objects\<close>

text \<open>A property that is \<open>undefined\<close> is left out: reading it gives \<open>undefined\<close> either way.\<close>

fun enc_content :: "llm_content \<Rightarrow> jsval" where
  "enc_content (TextPart t) = JObj [(''type'', JStr ''text''), (''text'', JStr t)]"
| "enc_content (ToolUse i n v) =
     JObj ([(''type'', JStr ''toolUse''), (''id'', JStr i), (''name'', JStr n)] @ (if v = JUndef then [] else [(''input'', v)]))"
| "enc_content (ToolResult i c err) =
     JObj ([(''type'', JStr ''toolResult''), (''toolUseId'', JStr i), (''content'', JStr c)] @
           (if err then [(''isError'', JBool True)] else []))"

definition enc_role :: "llm_role \<Rightarrow> jsval" where
  "enc_role r = JStr (case r of User \<Rightarrow> ''user'' | Assistant \<Rightarrow> ''assistant'')"

definition enc_message :: "llm_message \<Rightarrow> jsval" where
  "enc_message m = JObj [(''role'', enc_role (m_role m)), (''content'', JArr (map enc_content (m_content m)))]"

definition enc_messages :: "llm_message list \<Rightarrow> jsval" where
  "enc_messages ms' = JArr (map enc_message ms')"

definition enc_usage :: "llm_usage \<Rightarrow> jsval" where
  "enc_usage u = JObj [(''inputTokens'', JNum (inputTokens u)), (''outputTokens'', JNum (outputTokens u))]"

definition enc_response :: "llm_response \<Rightarrow> jsval" where
  "enc_response r = JObj [(''content'', JArr (map enc_content (r_content r))), (''stopReason'', JStr (r_stopReason r)),
     (''usage'', enc_usage (r_usage r))]"

fun as_str :: "jsval option \<Rightarrow> string option" where
  "as_str (Some (JStr s)) = Some s"
| "as_str _ = None"

fun as_int :: "jsval option \<Rightarrow> int option" where
  "as_int (Some (JNum i)) = Some i"
| "as_int _ = None"

fun as_arr :: "jsval option \<Rightarrow> jsval list option" where
  "as_arr (Some (JArr vs)) = Some vs"
| "as_arr _ = None"

primrec all_some :: "'a option list \<Rightarrow> 'a list option" where
  "all_some [] = Some []"
| "all_some (x # xs) = (case x of None \<Rightarrow> None | Some a \<Rightarrow> map_option (Cons a) (all_some xs))"

definition dec_content :: "jsval \<Rightarrow> llm_content option" where
  "dec_content v =
     (case as_str (get_prop v ''type'') of
        None \<Rightarrow> None
      | Some ty \<Rightarrow>
          if ty = ''text'' then map_option TextPart (as_str (get_prop v ''text''))
          else if ty = ''toolUse'' then
            (case (as_str (get_prop v ''id''), as_str (get_prop v ''name''), get_prop v ''input'') of
               (Some i, Some n, Some x) \<Rightarrow> Some (ToolUse i n x) | _ \<Rightarrow> None)
          else if ty = ''toolResult'' then
            (case (as_str (get_prop v ''toolUseId''), as_str (get_prop v ''content''), get_prop v ''isError'') of
               (Some i, Some c, Some e) \<Rightarrow> Some (ToolResult i c (truthy e)) | _ \<Rightarrow> None)
          else None)"

definition dec_role :: "jsval option \<Rightarrow> llm_role option" where
  "dec_role v = (case as_str v of
       Some s \<Rightarrow> if s = ''user'' then Some User else if s = ''assistant'' then Some Assistant else None
     | None \<Rightarrow> None)"

definition dec_contents :: "jsval option \<Rightarrow> llm_content list option" where
  "dec_contents v = (case as_arr v of None \<Rightarrow> None | Some vs \<Rightarrow> all_some (map dec_content vs))"

definition dec_message :: "jsval \<Rightarrow> llm_message option" where
  "dec_message v =
     (case (dec_role (get_prop v ''role''), dec_contents (get_prop v ''content'')) of
        (Some r, Some cs) \<Rightarrow> Some \<lparr>m_role = r, m_content = cs\<rparr> | _ \<Rightarrow> None)"

definition dec_messages :: "jsval \<Rightarrow> llm_message list option" where
  "dec_messages v = (case v of JArr vs \<Rightarrow> all_some (map dec_message vs) | _ \<Rightarrow> None)"

definition dec_usage :: "jsval option \<Rightarrow> llm_usage option" where
  "dec_usage v =
     (case v of None \<Rightarrow> None
      | Some u \<Rightarrow> (case (as_int (get_prop u ''inputTokens''), as_int (get_prop u ''outputTokens'')) of
          (Some i, Some j) \<Rightarrow> Some \<lparr>inputTokens = i, outputTokens = j\<rparr> | _ \<Rightarrow> None))"

definition dec_response :: "jsval \<Rightarrow> llm_response option" where
  "dec_response v =
     (case (dec_contents (get_prop v ''content''), as_str (get_prop v ''stopReason''), dec_usage (get_prop v ''usage'')) of
        (Some cs, Some s, Some u) \<Rightarrow> Some \<lparr>r_content = cs, r_stopReason = s, r_usage = u\<rparr> | _ \<Rightarrow> None)"

lemma all_some_map: "(\<And>x. x \<in> set xs \<Longrightarrow> d (e x) = Some x) \<Longrightarrow> all_some (map d (map e xs)) = Some xs"
  by (induction xs) auto

lemma dec_enc_content [simp]: "dec_content (enc_content c) = Some c"
  by (cases c) (auto simp: dec_content_def get_prop_def truthy_def)

lemma dec_enc_contents [simp]: "dec_contents (Some (JArr (map enc_content cs))) = Some cs"
  using all_some_map [of cs dec_content enc_content] by (simp add: dec_contents_def)

lemma dec_enc_message [simp]: "dec_message (enc_message m) = Some m"
  by (cases "m_role m") (auto simp: dec_message_def enc_message_def get_prop_def dec_role_def enc_role_def)

lemma dec_enc_messages [simp]: "dec_messages (enc_messages l) = Some l"
  using all_some_map [of l dec_message enc_message] by (simp add: dec_messages_def enc_messages_def)

lemma dec_enc_response [simp]: "dec_response (enc_response r) = Some r"
  by (simp add: dec_response_def enc_response_def get_prop_def dec_usage_def enc_usage_def)

text \<open>A response whose tool inputs are JSON values survives the journal.\<close>

definition content_ok :: "llm_content \<Rightarrow> bool" where
  "content_ok c = (case c of ToolUse _ _ v \<Rightarrow> json_ok v \<or> v = JUndef | _ \<Rightarrow> True)"

definition message_ok :: "llm_message \<Rightarrow> bool" where
  "message_ok m \<longleftrightarrow> list_all content_ok (m_content m)"

definition response_ok :: "llm_response \<Rightarrow> bool" where
  "response_ok r \<longleftrightarrow> list_all content_ok (r_content r)"

lemma json_ok_content: "json_ok (enc_content c) = content_ok c"
  by (cases c) (auto simp: content_ok_def)

lemma json_ok_messages: "json_ok (enc_messages l) = list_all message_ok l"
  by (auto simp: enc_messages_def enc_message_def enc_role_def json_ok_content message_ok_def list_all_iff)

lemma json_ok_response: "json_ok (enc_response r) = response_ok r"
  by (auto simp: enc_response_def enc_usage_def json_ok_content response_ok_def list_all_iff)

lemma all_some_set: "all_some xs = Some ys \<Longrightarrow> y \<in> set ys \<Longrightarrow> Some y \<in> set xs"
  by (induction xs arbitrary: ys) (auto split: option.splits)

text \<open>And what is read from a JSON value is such a message.\<close>

lemma content_ok_dec: "dec_content v = Some c \<Longrightarrow> json_ok v \<Longrightarrow> content_ok c"
  by (auto simp: dec_content_def content_ok_def split: option.splits if_splits dest: get_prop_json_ok)

lemma contents_ok_dec:
  assumes "dec_contents (get_prop v k) = Some cs" and "json_ok v"
  shows "list_all content_ok cs"
proof -
  obtain vs where "get_prop v k = Some (JArr vs)" and vs: "all_some (map dec_content vs) = Some cs"
    using assms(1) by (auto simp: dec_contents_def split: option.splits elim!: as_arr.elims)
  with assms(2) have "\<forall>x \<in> set vs. json_ok x" using get_prop_json_ok [of v k "JArr vs"] by simp
  then show ?thesis using all_some_set [OF vs] content_ok_dec by (fastforce simp: list_all_iff)
qed

lemma messages_ok_dec:
  assumes "dec_messages v = Some l" and "json_ok v"
  shows "list_all message_ok l"
proof -
  obtain vs where v: "v = JArr vs" and vs: "all_some (map dec_message vs) = Some l"
    using assms(1) by (auto simp: dec_messages_def split: jsval.splits)
  have "message_ok m" if "dec_message x = Some m" "json_ok x" for x m
    using that contents_ok_dec by (auto simp: dec_message_def message_ok_def split: option.splits)
  then show ?thesis using all_some_set [OF vs] assms(2) by (fastforce simp: list_all_iff v)
qed

lemma response_ok_dec: "dec_response v = Some r \<Longrightarrow> json_ok v \<Longrightarrow> response_ok r"
  using contents_ok_dec by (auto simp: dec_response_def response_ok_def split: option.splits)

section \<open>Prices\<close>

record model_price =
  price_input :: rat
  price_output :: rat

definition usd :: "rat \<Rightarrow> rat \<Rightarrow> model_price" where
  "usd i o' = \<lparr>price_input = fl i, price_output = fl o'\<rparr>"

definition PRICING :: "(string, model_price) jsmap" where
  "PRICING =
     [(''claude-opus'', usd 15 75), (''claude-sonnet'', usd 3 15), (''claude-haiku'', usd (8 / 10) 4),
      (''claude-3-opus'', usd 15 75), (''claude-3-5-sonnet'', usd 3 15), (''claude-3-5-haiku'', usd (8 / 10) 4),
      (''claude-3-haiku'', usd (25 / 100) (125 / 100)),
      (''gpt-4o-mini'', usd (15 / 100) (6 / 10)), (''gpt-4o'', usd (25 / 10) 10), (''gpt-4.1-mini'', usd (4 / 10) (16 / 10)),
      (''gpt-4.1'', usd 2 8), (''o3-mini'', usd (11 / 10) (44 / 10)), (''o1-mini'', usd (11 / 10) (44 / 10)),
      (''gemini-1.5-flash'', usd (75 / 1000) (3 / 10)), (''gemini-1.5-pro'', usd (125 / 100) 5),
      (''gemini-2.0-flash'', usd (1 / 10) (4 / 10))]"

definition registerPricing :: "string \<Rightarrow> 'p \<Rightarrow> (string, 'p) jsmap \<Rightarrow> (string, 'p) jsmap" where
  "registerPricing modelPrefix price table = map_set modelPrefix price table"

text \<open>The loop over the table, with \<open>best\<close> and \<open>bestLen\<close>.\<close>

fun best_price :: "string \<Rightarrow> (string, 'p) jsmap \<Rightarrow> 'p option \<times> int \<Rightarrow> 'p option \<times> int" where
  "best_price model [] b = b"
| "best_price model ((pre, price) # rest) b =
     best_price model rest (if startsWith model pre \<and> int (length pre) > snd b then (Some price, int (length pre)) else b)"

definition priceFor :: "(string, 'p) jsmap \<Rightarrow> string \<Rightarrow> 'p option" where
  "priceFor table model = fst (best_price model table (None, -1))"

definition costOf :: "(string, model_price) jsmap \<Rightarrow> string \<Rightarrow> llm_usage \<Rightarrow> rat option" where
  "costOf table model usage =
     (case priceFor table model of
        None \<Rightarrow> None
      | Some price \<Rightarrow>
          Some (fl (fl (fl (of_int (inputTokens usage) / 1000000) * price_input price) +
                    fl (fl (of_int (outputTokens usage) / 1000000) * price_output price))))"

lemma best_price_longest:
  "(\<exists>p l. best_price model table b = (Some p, l) \<and>
      ((Some p, l) = b \<or> (\<exists>pre. (pre, p) \<in> set table \<and> startsWith model pre \<and> l = int (length pre)))) \<or>
   best_price model table b = b"
  by (induction table arbitrary: b rule: list.induct) (auto, metis+)

lemma best_price_max:
  "snd b \<le> snd (best_price model table b) \<and>
   (\<forall>(pre, p) \<in> set table. startsWith model pre \<longrightarrow> int (length pre) \<le> snd (best_price model table b))"
proof (induction table arbitrary: b)
  case (Cons a table)
  obtain pre p where a: "a = (pre, p)" by (cases a)
  show ?case
    using Cons [of "if startsWith model pre \<and> int (length pre) > snd b then (Some p, int (length pre)) else b"]
    by (auto simp: a split: if_splits)
qed simp

text \<open>
  The price of a model is the one of its longest registered prefix, whatever the order of the table:
  a lookup that finds a price finds one whose prefix the model has and no longer prefix of the model is
  registered, and a lookup fails exactly when the model has no registered prefix.
\<close>

theorem priceFor_longest:
  "(\<forall>p. priceFor table model = Some p \<longrightarrow>
      (\<exists>pre. (pre, p) \<in> set table \<and> startsWith model pre \<and>
        (\<forall>(pre', p') \<in> set table. startsWith model pre' \<longrightarrow> length pre' \<le> length pre))) \<and>
   (priceFor table model = None \<longleftrightarrow> (\<forall>(pre, p) \<in> set table. \<not> startsWith model pre))"
proof -
  note long = best_price_longest [of model table "(None, -1)"] and top = best_price_max [of "(None, -1)" model table]
  show ?thesis
  proof (cases "best_price model table (None, -1)")
    case (Pair o' l)
    show ?thesis
    proof (cases o')
      case None
      with long Pair have "l = -1" by auto
      then have "\<not> startsWith model pre" if "(pre, p) \<in> set table" for pre p using top Pair that by fastforce
      with None Pair show ?thesis by (auto simp: priceFor_def)
    next
      case (Some p)
      with long Pair obtain pre where "(pre, p) \<in> set table" "startsWith model pre" "l = int (length pre)" by auto
      moreover have "length pre' \<le> length pre" if "(pre', p') \<in> set table" "startsWith model pre'" for pre' p'
        using top Pair that calculation(3) by fastforce
      ultimately show ?thesis using Some Pair by (auto simp: priceFor_def)
    qed
  qed
qed

theorem priceFor_longest_witness:
  "priceFor PRICING ''gpt-4o-mini-2024'' = Some (usd (15 / 100) (6 / 10)) \<and> priceFor PRICING ''llama'' = None"
proof
  show "priceFor PRICING ''llama'' = None"
    using priceFor_longest [of PRICING "''llama''"] by (simp add: PRICING_def)
qed (simp add: priceFor_def PRICING_def)

end
