(* ===== verification/Agent.thy ===== *)
theory Agent
  imports Attempt Llm
begin

text \<open>
  The durable agent loop (\<open>packages/zenzip/src/agent.ts\<close>, \<open>runAgentLoop\<close>). An agent is a workflow whose
  steps are chosen by the model: the loop is a workflow function over the step calls of \<open>Workflow\<close>, so
  that everything proved about attempts, journals and replay applies to it. The provider, the tools and
  the memory act on the world and are fields of the options; session storage is the native engine's.
\<close>

section \<open>Tools and options\<close>

text \<open>
  \<open>t_handoff\<close> is the workflow name of the agent a handoff tool stands for; a schema answers with the
  issues or the validated value.
\<close>

record 'w agent_tool =
  t_name :: string
  t_description :: string
  t_parameters :: jsval
  t_schema :: "(jsval \<Rightarrow> string list + jsval) option"
  t_requiresApproval :: bool
  t_execute :: "jsval \<Rightarrow> string \<Rightarrow> string \<Rightarrow> 'w body"
  t_handoff :: "string option"

definition tool :: "string \<Rightarrow> string \<Rightarrow> jsval option \<Rightarrow> (jsval \<Rightarrow> string list + jsval) option \<Rightarrow> bool
    \<Rightarrow> (jsval \<Rightarrow> string \<Rightarrow> string \<Rightarrow> 'w body) \<Rightarrow> 'w agent_tool" where
  "tool name description parameters schema requiresApproval execute =
     \<lparr>t_name = name, t_description = description,
      t_parameters = (case parameters of Some p \<Rightarrow> p | None \<Rightarrow> JObj [(''type'', JStr ''object'')]),
      t_schema = schema, t_requiresApproval = requiresApproval, t_execute = execute, t_handoff = None\<rparr>"

definition tool_word :: "char \<Rightarrow> char" where
  "tool_word c = (if is_alnum_us c then c else CHR ''_'')"

definition handoffTool :: "string \<Rightarrow> string option \<Rightarrow> string option \<Rightarrow> 'w agent_tool" where
  "handoffTool target name description =
     \<lparr>t_name = (case name of Some n \<Rightarrow> n | None \<Rightarrow> ''ask_'' @ map tool_word target),
      t_description = (case description of Some d \<Rightarrow> d
         | None \<Rightarrow> ''Hand the task to the '' @ [DQ] @ target @ [DQ] @ '' agent and return its answer.''),
      t_parameters = JObj [(''type'', JStr ''object''),
        (''properties'', JObj [(''message'', JObj [(''type'', JStr ''string''), (''description'', JStr ''The task or question.'')])]),
        (''required'', JArr [JStr ''message''])],
      t_schema = None, t_requiresApproval = False,
      t_execute = (\<lambda>_ _ _ w. (Throw (Error ''handoff tools are executed by the agent loop''), 0, w)),
      t_handoff = Some (''agent:'' @ target)\<rparr>"

type_synonym 'w model_call = "llm_request \<Rightarrow> 'w \<Rightarrow> (exn, llm_response) res \<times> int \<times> 'w"

record 'w agent_memory =
  mem_recall :: "string \<Rightarrow> string option \<Rightarrow> 'w \<Rightarrow> (exn, string list) res \<times> int \<times> 'w"
  mem_compress :: "llm_message list \<Rightarrow> 'w \<Rightarrow> (exn, llm_message list) res \<times> int \<times> 'w"
  mem_remember :: "string \<Rightarrow> string option \<Rightarrow> 'w \<Rightarrow> (exn, unit) res \<times> int \<times> 'w"

text \<open>
  \<open>ao_stream\<close> is the provider's streaming variant with the run's token handler attached, when both are
  there; \<open>ao_breaker\<close> is \<open>run\<close> of the agent's circuit breaker; \<open>ao_cost\<close> the cost of a usage as a
  JavaScript number.
\<close>

record 'w agent_options =
  ao_complete :: "'w model_call"
  ao_stream :: "'w model_call option"
  ao_breaker :: "('w \<Rightarrow> (exn, llm_response) res \<times> int \<times> 'w) \<Rightarrow> 'w \<Rightarrow> (exn, llm_response) res \<times> int \<times> 'w"
  ao_model :: string
  ao_instructions :: "string option"
  ao_tools :: "'w agent_tool list"
  ao_maxIterations :: "int option"
  ao_maxTokens :: "int option"
  ao_temperature :: "jsval option"
  ao_maxTotalTokens :: "int option"
  ao_historyWindow :: "int option"
  ao_approvalTimeout :: "duration option"
  ao_output :: "(jsval \<Rightarrow> string list + jsval) option"
  ao_memory :: "'w agent_memory option"
  ao_sessionGet :: "string \<Rightarrow> string \<Rightarrow> 'w \<Rightarrow> string option"
  ao_sessionPut :: "string \<Rightarrow> string \<Rightarrow> string \<Rightarrow> 'w \<Rightarrow> 'w"
  ao_cost :: "llm_usage \<Rightarrow> jsval option"

record agent_input =
  ai_message :: string
  ai_sessionId :: "string option"

definition APPROVAL_EVENT :: string where "APPROVAL_EVENT = ''zenzip.agent.approval''"

section \<open>Pieces of the loop\<close>

text \<open>\<open>xs.slice(-n)\<close>: the last \<open>n\<close> elements, and the whole list for \<open>n = 0\<close>.\<close>

definition slice_neg :: "int \<Rightarrow> 'a list \<Rightarrow> 'a list" where
  "slice_neg n xs = (if n > 0 then drop (length xs - nat n) xs else drop (nat (- n)) xs)"

definition window :: "'w agent_options \<Rightarrow> int" where
  "window o' = (case ao_historyWindow o' of Some n \<Rightarrow> n | None \<Rightarrow> 20)"

definition toolDefs :: "'w agent_options \<Rightarrow> llm_tool_def list" where
  "toolDefs o' = map (\<lambda>t. \<lparr>td_name = t_name t, td_description = t_description t, td_parameters = t_parameters t\<rparr>) (ao_tools o')"

definition toolByName :: "'w agent_options \<Rightarrow> (string, 'w agent_tool) jsmap" where
  "toolByName o' = fold (\<lambda>t. map_set (t_name t) t) (ao_tools o') []"

definition user_text :: "string \<Rightarrow> llm_message" where
  "user_text t = \<lparr>m_role = User, m_content = [TextPart t]\<rparr>"

definition assistant_text :: "string \<Rightarrow> llm_message" where
  "assistant_text t = \<lparr>m_role = Assistant, m_content = [TextPart t]\<rparr>"

definition NL :: string where "NL = [char_of (10 :: nat)]"

text \<open>A step whose result is encoded by \<open>enc\<close>; the value a later replay reads back is decoded by \<open>dec\<close>.\<close>

definition typed_body :: "('a \<Rightarrow> jsval) \<Rightarrow> ('w \<Rightarrow> (exn, 'a) res \<times> int \<times> 'w) \<Rightarrow> 'w body" where
  "typed_body enc f w = (case f w of (r, d, w') \<Rightarrow> (rbind r (\<lambda>a. Ok (enc a)), d, w'))"

definition typed :: "(jsval \<Rightarrow> 'a option) \<Rightarrow> ('a \<Rightarrow> 'w wf) \<Rightarrow> jsval \<Rightarrow> 'w wf" where
  "typed dec k v = (case dec v of None \<Rightarrow> Raise (Error ''TypeError'') | Some a \<Rightarrow> k a)"

definition run_step :: "string \<Rightarrow> 'w body \<Rightarrow> (jsval \<Rightarrow> 'w wf) \<Rightarrow> 'w wf" where
  "run_step sid body k = Call (Run sid None body) (uncaught k)"

definition enc_strs :: "string list \<Rightarrow> jsval" where
  "enc_strs ss = JArr (map JStr ss)"

definition dec_strs :: "jsval \<Rightarrow> string list option" where
  "dec_strs v = (case v of JArr vs \<Rightarrow> all_some (map (\<lambda>x. as_str (Some x)) vs) | _ \<Rightarrow> None)"

text \<open>An empty session id counts as none.\<close>

definition session_key :: "agent_input \<Rightarrow> string option" where
  "session_key input = (case ai_sessionId input of Some s \<Rightarrow> if s = [] then None else Some s | None \<Rightarrow> None)"

definition session_body :: "string \<Rightarrow> 'w agent_options \<Rightarrow> agent_input \<Rightarrow> 'w body" where
  "session_body agent o' input w =
     (case session_key input of
        None \<Rightarrow> (Ok (JArr []), 0, w)
      | Some sid \<Rightarrow>
          (case ao_sessionGet o' agent sid w of
             None \<Rightarrow> (Ok (JArr []), 0, w)
           | Some raw \<Rightarrow>
               (if raw = [] then Ok (JArr [])
                else rbind (parse_exn raw) (\<lambda>v. case v of
                    JArr l \<Rightarrow> Ok (JArr (slice_neg (window o') l)) | _ \<Rightarrow> Throw (Error ''TypeError'')), 0, w)))"

definition llm_body :: "'w agent_options \<Rightarrow> llm_message list \<Rightarrow> 'w body" where
  "llm_body o' messages =
     (let request = \<lparr>lr_model = ao_model o', lr_system = ao_instructions o', lr_messages = messages,
                     lr_tools = (if toolDefs o' = [] then None else Some (toolDefs o')),
                     lr_maxTokens = ao_maxTokens o', lr_temperature = ao_temperature o'\<rparr>;
          call = (case ao_stream o' of Some s \<Rightarrow> s request | None \<Rightarrow> ao_complete o' request)
      in typed_body enc_response (ao_breaker o' call))"

definition fix_body :: "'w agent_options \<Rightarrow> llm_message list \<Rightarrow> 'w body" where
  "fix_body o' messages =
     typed_body enc_response (ao_complete o'
       \<lparr>lr_model = ao_model o', lr_system = ao_instructions o', lr_messages = messages, lr_tools = None,
        lr_maxTokens = ao_maxTokens o', lr_temperature = ao_temperature o'\<rparr>)"

definition tool_body :: "string \<Rightarrow> string \<Rightarrow> 'w agent_tool \<Rightarrow> llm_content \<Rightarrow> 'w body" where
  "tool_body agent runId td call w =
     (let parsed = (if nullish (use_input call) then JObj [] else use_input call) in
      case (case t_schema td of
              None \<Rightarrow> Ok parsed
            | Some f \<Rightarrow> (case f parsed of
                Inl issues \<Rightarrow> Throw (Error (''invalid input for tool '' @ [DQ] @ use_name call @ [DQ] @ '': '' @ join_with ''; '' issues))
              | Inr v \<Rightarrow> Ok v)) of
        Inl e \<Rightarrow> (Throw e, 0, w)
      | Inr v \<Rightarrow>
          (case t_execute td v runId agent w of
             (r, d, w') \<Rightarrow> (rbind r (\<lambda>out. Ok (if out = JUndef then JNull else out)), d, w')))"

text \<open>The text of a tool result; the step's result is never \<open>undefined\<close>.\<close>

definition result_text :: "jsval \<Rightarrow> string" where
  "result_text v = (case v of JStr s \<Rightarrow> s | _ \<Rightarrow> stringify_or_null v)"

definition step_id :: "string \<Rightarrow> int \<Rightarrow> llm_content \<Rightarrow> string" where
  "step_id kind i call = kind @ ''-'' @ int_str i @ ''-'' @ use_id call"

section \<open>One tool call\<close>

text \<open>
  The body of the loop over the calls of a response; \<open>k\<close> is the rest of the loop and takes the result
  part for the model.
\<close>

definition denial :: "llm_content \<Rightarrow> jsval \<Rightarrow> llm_content" where
  "denial call decision =
     ToolResult (use_id call)
       (if truthy decision
        then ''denied by operator'' @
          (case get_prop decision ''reason'' of Some r \<Rightarrow> if truthy r then '': '' @ js_String r else [] | None \<Rightarrow> [])
        else ''approval timed out'') True"

definition approved :: "jsval \<Rightarrow> bool" where
  "approved decision = (case get_prop decision ''approved'' of Some a \<Rightarrow> truthy a | None \<Rightarrow> False)"

definition handoff_message :: "llm_content \<Rightarrow> jsval" where
  "handoff_message call =
     JObj [(''message'', case get_prop (use_input call) ''message'' of
        Some v \<Rightarrow> if nullish v then JStr [] else v | None \<Rightarrow> JStr [])]"

definition child_text :: "jsval \<Rightarrow> string option" where
  "child_text v = as_str (get_prop v ''text'')"

definition perform_call :: "string \<Rightarrow> string \<Rightarrow> int \<Rightarrow> 'w agent_tool \<Rightarrow> llm_content \<Rightarrow> (llm_content \<Rightarrow> 'w wf) \<Rightarrow> 'w wf" where
  "perform_call agent runId i td call k =
     (case t_handoff td of
        Some child \<Rightarrow>
          Call (Invoke (step_id ''handoff'' i call) child (handoff_message call))
            (uncaught (typed child_text (\<lambda>t. k (ToolResult (use_id call) t False))))
      | None \<Rightarrow>
          run_step (step_id ''tool'' i call) (tool_body agent runId td call)
            (\<lambda>v. k (ToolResult (use_id call) (result_text v) False)))"

definition tool_call :: "string \<Rightarrow> string \<Rightarrow> 'w agent_options \<Rightarrow> int \<Rightarrow> llm_content \<Rightarrow> (llm_content \<Rightarrow> 'w wf) \<Rightarrow> 'w wf" where
  "tool_call agent runId o' i call k =
     (case map_get (toolByName o') (use_name call) of
        None \<Rightarrow> k (ToolResult (use_id call) (''unknown tool '' @ [DQ] @ use_name call @ [DQ]) True)
      | Some td \<Rightarrow>
          if t_requiresApproval td then
            Call (WaitForEvent (step_id ''approval'' i call) APPROVAL_EVENT
                    (Some (case ao_approvalTimeout o' of Some d \<Rightarrow> d | None \<Rightarrow> DStr ''1h''))
                    (Some (JObj [(''runId'', JStr runId), (''toolUseId'', JStr (use_id call))])))
              (uncaught (\<lambda>decision. if approved decision then perform_call agent runId i td call k else k (denial call decision)))
          else perform_call agent runId i td call k)"

primrec tool_calls :: "string \<Rightarrow> string \<Rightarrow> 'w agent_options \<Rightarrow> int \<Rightarrow> llm_content list \<Rightarrow> llm_content list
    \<Rightarrow> (llm_content list \<Rightarrow> 'w wf) \<Rightarrow> 'w wf" where
  "tool_calls agent runId o' i [] results k = k results"
| "tool_calls agent runId o' i (call # rest) results k =
     tool_call agent runId o' i call (\<lambda>part. tool_calls agent runId o' i rest (results @ [part]) k)"

section \<open>The loop\<close>

definition add_usage :: "llm_usage \<Rightarrow> llm_usage \<Rightarrow> llm_usage" where
  "add_usage u v = \<lparr>inputTokens = inputTokens u + inputTokens v, outputTokens = outputTokens u + outputTokens v\<rparr>"

definition total :: "llm_usage \<Rightarrow> int" where
  "total u = inputTokens u + outputTokens u"

record loop_state =
  ls_messages :: "llm_message list"
  ls_usage :: llm_usage
  ls_iterations :: int
  ls_toolCalls :: int
  ls_finalText :: string

definition over_budget :: "'w agent_options \<Rightarrow> llm_usage \<Rightarrow> bool" where
  "over_budget o' u = (case ao_maxTotalTokens o' of Some b \<Rightarrow> total u > b | None \<Rightarrow> False)"

definition budget_message :: "string \<Rightarrow> 'w agent_options \<Rightarrow> string" where
  "budget_message agent o' =
     ''agent '' @ [DQ] @ agent @ [DQ] @ '' exceeded the token budget ('' @
       (case ao_maxTotalTokens o' of Some b \<Rightarrow> int_str b | None \<Rightarrow> []) @ '')''"

definition iterations_message :: "string \<Rightarrow> int \<Rightarrow> string" where
  "iterations_message agent n =
     ''agent '' @ [DQ] @ agent @ [DQ] @ '' exceeded '' @ int_str n @ '' iterations without a final answer''"

text \<open>
  \<open>iterate n\<close> runs the passes \<open>i = mx - n, ..., mx - 1\<close> of the loop; the last pass that still asks for
  tools is an error.
\<close>

definition turn ::
  "string \<Rightarrow> string \<Rightarrow> 'w agent_options \<Rightarrow> int \<Rightarrow> loop_state \<Rightarrow> (loop_state \<Rightarrow> 'w wf) \<Rightarrow> (loop_state \<Rightarrow> 'w wf) \<Rightarrow> 'w wf" where
  "turn agent runId o' i ls again fin =
     run_step (''llm-'' @ int_str i) (llm_body o' (ls_messages ls)) (typed dec_response (\<lambda>response.
       let usage = add_usage (ls_usage ls) (r_usage response); calls = toolUses response in
       if over_budget o' usage then Raise (Error (budget_message agent o'))
       else if calls = [] then
         fin (ls\<lparr>ls_usage := usage, ls_iterations := i + 1, ls_finalText := textContent response\<rparr>)
       else
         tool_calls agent runId o' i calls [] (\<lambda>results.
           again (ls\<lparr>ls_messages := ls_messages ls @ [\<lparr>m_role = Assistant, m_content = r_content response\<rparr>,
                                                     \<lparr>m_role = User, m_content = results\<rparr>],
                     ls_usage := usage, ls_iterations := i + 1,
                     ls_toolCalls := ls_toolCalls ls + int (length calls)\<rparr>))))"

primrec iterate ::
  "string \<Rightarrow> string \<Rightarrow> 'w agent_options \<Rightarrow> int \<Rightarrow> nat \<Rightarrow> loop_state \<Rightarrow> (loop_state \<Rightarrow> 'w wf) \<Rightarrow> 'w wf" where
  "iterate agent runId o' mx 0 ls fin = fin ls"
| "iterate agent runId o' mx (Suc n) ls fin =
     turn agent runId o' (mx - int (Suc n)) ls
       (\<lambda>ls'. if n = 0 then Raise (Error (iterations_message agent mx)) else iterate agent runId o' mx n ls' fin) fin"

section \<open>Structured output\<close>

definition starts_ci :: "string \<Rightarrow> string \<Rightarrow> bool" where
  "starts_ci s p \<longleftrightarrow> startsWith (toLowerCase s) p"

definition strip_open :: "string \<Rightarrow> string" where
  "strip_open s =
     (if startsWith s ''```''
      then dropWhile is_space (if starts_ci (drop 3 s) ''json'' then drop 7 s else drop 3 s) else s)"

definition strip_close :: "string \<Rightarrow> string" where
  "strip_close s =
     (if endsWith s ''```'' then rev (dropWhile is_space (drop 3 (rev s))) else s)"

definition validateText :: "(jsval \<Rightarrow> string list + jsval) \<Rightarrow> string \<Rightarrow> (string, jsval) res" where
  "validateText schema text =
     (case parse_exn (strip_close (strip_open text)) of
        Inl _ \<Rightarrow> Throw (''not valid JSON: SyntaxError'')
      | Inr v \<Rightarrow> (case schema v of Inl issues \<Rightarrow> Throw (join_with ''; '' issues) | Inr x \<Rightarrow> Ok x))"

definition correction :: "string \<Rightarrow> string" where
  "correction problem =
     ''Your answer must be ONLY valid JSON matching the required schema. Problem: '' @ problem @
     ''. Respond again with only the JSON.''"

definition structured :: "string \<Rightarrow> 'w agent_options \<Rightarrow> loop_state \<Rightarrow> (loop_state \<Rightarrow> jsval option \<Rightarrow> 'w wf) \<Rightarrow> 'w wf" where
  "structured agent o' ls k =
     (case ao_output o' of
        None \<Rightarrow> k ls None
      | Some schema \<Rightarrow>
          (case validateText schema (ls_finalText ls) of
             Inr v \<Rightarrow> k ls (Some v)
           | Inl problem \<Rightarrow>
               (let messages = ls_messages ls @ [assistant_text (ls_finalText ls), user_text (correction problem)] in
                run_step ''llm-output-fix'' (fix_body o' messages) (typed dec_response (\<lambda>fixed.
                  (case validateText schema (textContent fixed) of
                     Inr v \<Rightarrow> k (ls\<lparr>ls_messages := messages, ls_usage := add_usage (ls_usage ls) (r_usage fixed),
                                   ls_finalText := textContent fixed\<rparr>) (Some v)
                   | Inl problem' \<Rightarrow>
                       Raise (Error (''agent '' @ [DQ] @ agent @ [DQ] @ '' output failed validation: '' @ problem'))))))))"

section \<open>The workflow function\<close>

definition agent_result :: "'w agent_options \<Rightarrow> loop_state \<Rightarrow> jsval option \<Rightarrow> jsval" where
  "agent_result o' ls out =
     JObj ([(''text'', JStr (ls_finalText ls))] @
           (case out of Some v \<Rightarrow> [(''output'', v)] | None \<Rightarrow> []) @
           [(''usage'', JObj [(''inputTokens'', JNum (inputTokens (ls_usage ls))), (''outputTokens'', JNum (outputTokens (ls_usage ls))),
                             (''totalTokens'', JNum (total (ls_usage ls)))])] @
           (case ao_cost o' (ls_usage ls) of Some c \<Rightarrow> [(''costUsd'', c)] | None \<Rightarrow> []) @
           [(''iterations'', JNum (ls_iterations ls)), (''toolCalls'', JNum (ls_toolCalls ls))])"

definition save_body :: "string \<Rightarrow> 'w agent_options \<Rightarrow> string \<Rightarrow> loop_state \<Rightarrow> 'w body" where
  "save_body agent o' sid ls w =
     (Ok JNull, 0, ao_sessionPut o' agent sid
        (stringify_or_null (enc_messages (slice_neg (window o') (ls_messages ls @ [assistant_text (ls_finalText ls)])))) w)"

definition remember_body :: "'w agent_memory \<Rightarrow> agent_input \<Rightarrow> loop_state \<Rightarrow> 'w body" where
  "remember_body mem input ls =
     typed_body (\<lambda>_. JUndef) (mem_remember mem (''Q: '' @ ai_message input @ NL @ ''A: '' @ ls_finalText ls) (ai_sessionId input))"

definition finish :: "string \<Rightarrow> 'w agent_options \<Rightarrow> agent_input \<Rightarrow> loop_state \<Rightarrow> jsval option \<Rightarrow> 'w wf" where
  "finish agent o' input ls out =
     (let save = (\<lambda>_. case session_key input of
            Some sid \<Rightarrow> run_step ''save-session'' (save_body agent o' sid ls) (\<lambda>_. Return (agent_result o' ls out))
          | None \<Rightarrow> Return (agent_result o' ls out)) in
      case ao_memory o' of
        Some mem \<Rightarrow> run_step ''memory-remember'' (remember_body mem input ls) save
      | None \<Rightarrow> save JUndef)"

definition maxIterations :: "'w agent_options \<Rightarrow> int" where
  "maxIterations o' = (case ao_maxIterations o' of Some n \<Rightarrow> n | None \<Rightarrow> 10)"

definition initial_state :: "llm_message list \<Rightarrow> loop_state" where
  "initial_state messages =
     \<lparr>ls_messages = messages, ls_usage = \<lparr>inputTokens = 0, outputTokens = 0\<rparr>, ls_iterations = 0, ls_toolCalls = 0, ls_finalText = []\<rparr>"

definition agent_loop :: "string \<Rightarrow> string \<Rightarrow> 'w agent_options \<Rightarrow> agent_input \<Rightarrow> llm_message list \<Rightarrow> 'w wf" where
  "agent_loop agent runId o' input messages =
     iterate agent runId o' (maxIterations o') (nat (maxIterations o')) (initial_state messages)
       (\<lambda>ls. structured agent o' ls (finish agent o' input))"

definition opening_messages :: "llm_message list \<Rightarrow> string list \<Rightarrow> string \<Rightarrow> llm_message list" where
  "opening_messages history recalled message =
     history @ (if recalled = [] then [] else [user_text (''[memory] Relevant context:'' @ NL @ join_with NL recalled)]) @
     [user_text message]"

definition runAgentLoop :: "string \<Rightarrow> 'w agent_options \<Rightarrow> agent_input \<Rightarrow> string \<Rightarrow> 'w wf" where
  "runAgentLoop agent o' input runId =
     run_step ''session'' (session_body agent o' input) (typed dec_messages (\<lambda>history.
       (case ao_memory o' of
          None \<Rightarrow> agent_loop agent runId o' input (opening_messages history [] (ai_message input))
        | Some mem \<Rightarrow>
            run_step ''memory-recall'' (typed_body enc_strs (mem_recall mem (ai_message input) (ai_sessionId input)))
              (typed dec_strs (\<lambda>recalled.
            run_step ''memory-compress'' (typed_body enc_messages (mem_compress mem (opening_messages history recalled (ai_message input))))
              (typed dec_messages (agent_loop agent runId o' input)))))))"

section \<open>The handle\<close>

definition dec_input :: "jsval \<Rightarrow> agent_input option" where
  "dec_input v =
     (case (as_str (get_prop v ''message''), get_prop v ''sessionId'') of
        (Some m, Some (JStr s)) \<Rightarrow> Some \<lparr>ai_message = m, ai_sessionId = Some s\<rparr>
      | (Some m, Some JUndef) \<Rightarrow> Some \<lparr>ai_message = m, ai_sessionId = None\<rparr>
      | _ \<Rightarrow> None)"

text \<open>The workflow function an agent registers, under the name \<open>agent_workflow\<close>.\<close>

definition agent_workflow :: "string \<Rightarrow> string" where
  "agent_workflow name = ''agent:'' @ name"

definition agent_fn :: "string \<Rightarrow> 'w agent_options \<Rightarrow> wf_ctx \<Rightarrow> 'w wf" where
  "agent_fn name o' ctx = typed dec_input (\<lambda>input. runAgentLoop name o' input (ctx_runId ctx)) (ctx_input ctx)"

definition input_value :: "string \<Rightarrow> string option \<Rightarrow> string option \<Rightarrow> jsval" where
  "input_value message sessionId streamKey =
     JObj ([(''message'', JStr message)] @ (case sessionId of Some s \<Rightarrow> [(''sessionId'', JStr s)] | None \<Rightarrow> []) @
           (case streamKey of Some k \<Rightarrow> [(''__streamKey'', JStr k)] | None \<Rightarrow> []))"

text \<open>\<open>streamKey\<close> is the key of the run's token handler, when the caller passed one.\<close>

definition agent_run ::
  "'n engine \<Rightarrow> string \<Rightarrow> string \<Rightarrow> string option \<Rightarrow> duration option \<Rightarrow> string option \<Rightarrow> 'n handle_state
     \<Rightarrow> (exn, jsval) res \<times> 'n handle_state" where
  "agent_run eng name message sessionId timeout streamKey s =
     triggerAndWait eng (agent_workflow name) (input_value message sessionId streamKey)
       \<lparr>to_idempotencyKey = None, to_delay = None, to_subject = None\<rparr>
       (Some (case timeout of Some d \<Rightarrow> d | None \<Rightarrow> DStr ''5m'')) s"

definition agent_trigger ::
  "'n engine \<Rightarrow> string \<Rightarrow> string \<Rightarrow> string option \<Rightarrow> string option \<Rightarrow> 'n handle_state
     \<Rightarrow> (exn, string) res \<times> 'n handle_state" where
  "agent_trigger eng name message sessionId key s =
     trigger eng (agent_workflow name) (input_value message sessionId None)
       \<lparr>to_idempotencyKey = key, to_delay = None, to_subject = None\<rparr> s"

text \<open>
  The decision events; \<open>emit\<close> is the application's. The engine journals a matching event as
  \<open>{"event": payload}\<close> and a timeout as \<open>{"timedOut": true}\<close>.
\<close>

definition approve_payload :: "string \<Rightarrow> string \<Rightarrow> jsval" where
  "approve_payload runId toolUseId = JObj [(''runId'', JStr runId), (''toolUseId'', JStr toolUseId), (''approved'', JBool True)]"

definition deny_payload :: "string \<Rightarrow> string \<Rightarrow> string option \<Rightarrow> jsval" where
  "deny_payload runId toolUseId reason =
     JObj ([(''runId'', JStr runId), (''toolUseId'', JStr toolUseId), (''approved'', JBool False)] @
           (case reason of Some r \<Rightarrow> [(''reason'', JStr r)] | None \<Rightarrow> []))"

definition approve :: "(string \<Rightarrow> jsval \<Rightarrow> 'n \<Rightarrow> 'n) \<Rightarrow> string \<Rightarrow> string \<Rightarrow> string \<Rightarrow> 'n handle_state \<Rightarrow> 'n handle_state" where
  "approve emit name runId toolUseId s =
     audit ''agent.approve'' name (JObj [(''runId'', JStr runId), (''toolUseId'', JStr toolUseId)])
       (s\<lparr>hs_native := emit APPROVAL_EVENT (approve_payload runId toolUseId) (hs_native s)\<rparr>)"

definition deny :: "(string \<Rightarrow> jsval \<Rightarrow> 'n \<Rightarrow> 'n) \<Rightarrow> string \<Rightarrow> string \<Rightarrow> string \<Rightarrow> string option \<Rightarrow> 'n handle_state \<Rightarrow> 'n handle_state" where
  "deny emit name runId toolUseId reason s =
     audit ''agent.deny'' name
       (JObj ([(''runId'', JStr runId), (''toolUseId'', JStr toolUseId)] @ (case reason of Some r \<Rightarrow> [(''reason'', JStr r)] | None \<Rightarrow> [])))
       (s\<lparr>hs_native := emit APPROVAL_EVENT (deny_payload runId toolUseId reason) (hs_native s)\<rparr>)"

definition session :: "'w agent_options \<Rightarrow> string \<Rightarrow> string \<Rightarrow> 'w \<Rightarrow> (exn, llm_message list) res" where
  "session o' name sessionId w =
     (case ao_sessionGet o' name sessionId w of
        None \<Rightarrow> Ok []
      | Some raw \<Rightarrow>
          if raw = [] then Ok []
          else rbind (parse_exn raw) (\<lambda>v. case dec_messages v of Some l \<Rightarrow> Ok l | None \<Rightarrow> Throw (Error ''TypeError'')))"

section \<open>The agent is a disciplined workflow\<close>

definition returns :: "('a \<Rightarrow> bool) \<Rightarrow> ('w \<Rightarrow> (exn, 'a) res \<times> int \<times> 'w) \<Rightarrow> bool" where
  "returns P f \<longleftrightarrow> (\<forall>w a d w'. f w = (Ok a, d, w') \<longrightarrow> P a)"

abbreviation sendable :: "jsval \<Rightarrow> bool" where
  "sendable v \<equiv> json_ok v \<or> v = JUndef"

text \<open>
  What the loop relies on of the code it is given: model responses and compressed histories are data, tool
  results are JSON values or \<open>undefined\<close>, and the circuit breaker passes results through.
\<close>

definition agent_ok :: "'w agent_options \<Rightarrow> bool" where
  "agent_ok o' \<longleftrightarrow>
     (\<forall>q. returns response_ok (ao_complete o' q)) \<and>
     (\<forall>s q. ao_stream o' = Some s \<longrightarrow> returns response_ok (s q)) \<and>
     (\<forall>f. returns response_ok f \<longrightarrow> returns response_ok (ao_breaker o' f)) \<and>
     (\<forall>t v r a. t \<in> set (ao_tools o') \<longrightarrow> returns sendable (t_execute t v r a)) \<and>
     (\<forall>m l. ao_memory o' = Some m \<longrightarrow> list_all message_ok l \<longrightarrow> returns (list_all message_ok) (mem_compress m l))"

lemma disciplined_run_step:
  assumes "returns json_ok body" and "\<And>v. json_ok v \<Longrightarrow> disciplined (k v)" and "k JUndef = k JNull \<or> disciplined (k JUndef)"
  shows "disciplined (run_step sid body k)"
proof -
  have "disciplined (uncaught k r)" if "res_ok r" for r
    using that assms(2) [of JNull] assms(2,3) by (cases r) (auto simp: uncaught_def)
  then show ?thesis using assms(1) by (auto simp: run_step_def json_results_def returns_def uncaught_def)
qed

lemma returns_typed_body: "returns P f \<Longrightarrow> (\<And>a. P a \<Longrightarrow> Q (enc a)) \<Longrightarrow> returns Q (typed_body enc f)"
  by (fastforce simp: returns_def typed_body_def res_simps split: prod.splits)

lemma disciplined_typed: "(\<And>a. dec v = Some a \<Longrightarrow> disciplined (k a)) \<Longrightarrow> disciplined (typed dec k v)"
  by (auto simp: typed_def split: option.split)

lemma dec_undef [simp]: "dec_response JUndef = None" "dec_messages JUndef = None" "dec_strs JUndef = None" "child_text JUndef = None"
  by (simp_all add: dec_response_def dec_messages_def dec_strs_def child_text_def get_prop_def dec_contents_def)

lemma toolByName_set: "map_get (toolByName o') n = Some t \<Longrightarrow> t \<in> set (ao_tools o')"
proof -
  have "map_get (fold (\<lambda>t. map_set (t_name t) t) ts m) n = Some t \<Longrightarrow> t \<in> set ts \<or> map_get m n = Some t" for ts m
  proof (induction ts arbitrary: m)
    case (Cons a ts)
    then show ?case using Cons.IH [of "map_set (t_name a) a m"] by (auto simp: map_get_set split: if_splits)
  qed simp
  from this [of "ao_tools o'" "[]"] show "map_get (toolByName o') n = Some t \<Longrightarrow> ?thesis" by (simp add: toolByName_def)
qed

lemma disciplined_call:
  assumes "\<not> is_Run c" and "\<And>v. sendable v \<Longrightarrow> disciplined (k v)"
  shows "disciplined (Call c (uncaught k))"
proof -
  have "disciplined (uncaught k r)" if "res_ok r" for r using that assms(2) by (cases r) (auto simp: uncaught_def)
  then show ?thesis using assms(1) by (cases c) (auto simp: json_results_def uncaught_def)
qed

lemma disciplined_perform:
  assumes "agent_ok o'" and "td \<in> set (ao_tools o')" and "\<And>part. disciplined (k part)"
  shows "disciplined (perform_call agent runId i td call k)"
proof -
  have ex: "sendable x" if "t_execute td v r a w = (Ok x, d, w')" for v r a w x d w'
    using assms(1,2) that unfolding agent_ok_def returns_def by blast
  have "returns json_ok (tool_body agent runId td call)"
    by (auto dest!: ex simp: returns_def tool_body_def Let_def res_simps split: option.splits sum.splits prod.splits)
  then show ?thesis using assms(3)
    by (auto simp: perform_call_def simp del: disciplined.simps intro!: disciplined_run_step disciplined_call disciplined_typed split: option.split)
qed

lemma disciplined_tool_call:
  assumes "agent_ok o'" and "\<And>part. disciplined (k part)"
  shows "disciplined (tool_call agent runId o' i call k)"
  using disciplined_perform [OF assms(1) toolByName_set assms(2)] assms(2)
  by (auto simp: tool_call_def simp del: disciplined.simps intro!: disciplined_call split: option.split)

lemma disciplined_tool_calls:
  assumes "agent_ok o'" and "\<And>results. disciplined (k results)"
  shows "disciplined (tool_calls agent runId o' i calls results k)"
  by (induction calls arbitrary: results) (simp_all add: assms disciplined_tool_call)

lemma returns_llm_body: "agent_ok o' \<Longrightarrow> returns json_ok (llm_body o' messages)"
  by (auto simp: llm_body_def Let_def agent_ok_def json_ok_response intro!: returns_typed_body [of response_ok] split: option.split)

lemma returns_fix_body: "agent_ok o' \<Longrightarrow> returns json_ok (fix_body o' messages)"
  by (auto simp: fix_body_def agent_ok_def json_ok_response intro!: returns_typed_body [of response_ok])

lemma disciplined_turn:
  assumes "agent_ok o'" and "\<And>ls. disciplined (again ls)" and "\<And>ls. disciplined (fin ls)"
  shows "disciplined (turn agent runId o' i ls again fin)"
  unfolding turn_def
  by (intro disciplined_run_step returns_llm_body assms disciplined_typed)
    (auto simp: Let_def assms intro!: disciplined_tool_calls disciplined_typed)

lemma disciplined_iterate:
  assumes "agent_ok o'" and "\<And>ls. disciplined (fin ls)"
  shows "disciplined (iterate agent runId o' mx n ls fin)"
  by (induction n arbitrary: ls) (simp_all add: assms disciplined_turn)

lemma disciplined_structured:
  assumes "agent_ok o'" and "\<And>ls out. disciplined (k ls out)"
  shows "disciplined (structured agent o' ls k)"
  by (auto simp: structured_def Let_def assms returns_fix_body intro!: disciplined_run_step disciplined_typed split: option.split sum.split)

lemma disciplined_finish: "disciplined (finish agent o' input ls out)"
proof -
  have save: "returns json_ok (save_body agent o' sid ls)" for sid by (simp add: returns_def save_body_def)
  have mem: "disciplined (run_step sid (remember_body mem input ls) (\<lambda>_. t))" if "disciplined t" for sid mem and t :: "'a wf"
    using that
    by (auto simp: run_step_def json_results_def uncaught_def remember_body_def typed_body_def res_simps split: prod.splits sum.splits)
  have "disciplined (run_step ''save-session'' (save_body agent o' sid ls) (\<lambda>_. Return v))" for sid v
    by (rule disciplined_run_step [OF save]) simp_all
  then show ?thesis
    by (auto simp: finish_def Let_def intro!: mem split: option.split)
qed

lemma disciplined_agent_loop: "agent_ok o' \<Longrightarrow> disciplined (agent_loop agent runId o' input messages)"
  by (simp add: agent_loop_def disciplined_iterate disciplined_structured disciplined_finish)

lemma slice_neg_set: "set (slice_neg n xs) \<subseteq> set xs"
  by (auto simp: slice_neg_def dest: in_set_dropD)

lemma slice_neg_json_ok: "json_ok (JArr l) \<Longrightarrow> json_ok (JArr (slice_neg n l))"
  using slice_neg_set [of n l] by auto

lemma history_json_ok:
  "rbind (parse_exn raw) (\<lambda>v. case v of JArr l \<Rightarrow> Ok (JArr (slice_neg n l)) | _ \<Rightarrow> Throw e) = Ok x \<Longrightarrow> json_ok x"
  using slice_neg_json_ok
  by (auto simp: parse_exn_def simp del: json_ok.simps split: option.splits jsval.splits dest!: JSON_parse_json_ok)

lemma returns_session_body: "returns json_ok (session_body agent o' input)"
  using history_json_ok
  by (auto simp: returns_def session_body_def simp del: rbind_simps split: option.splits if_splits)

lemma opening_messages_ok: "list_all message_ok history \<Longrightarrow> list_all message_ok (opening_messages history recalled message)"
  by (simp add: opening_messages_def user_text_def message_ok_def content_ok_def)

lemma json_ok_strs: "json_ok (enc_strs ss)"
  by (simp add: enc_strs_def)

lemma disciplined_runAgentLoop:
  assumes ok: "agent_ok o'"
  shows "disciplined (runAgentLoop agent o' input runId)"
proof -
  have compress: "returns json_ok (typed_body enc_messages (mem_compress mem l))"
    if "ao_memory o' = Some mem" "list_all message_ok l" for mem l
    using ok that by (intro returns_typed_body [of "list_all message_ok"]) (auto simp: agent_ok_def json_ok_messages)
  have recall: "returns json_ok (typed_body enc_strs f)" for f :: "'a \<Rightarrow> (exn, string list) res \<times> int \<times> 'a"
    by (rule returns_typed_body [of "\<lambda>_. True"]) (simp_all add: returns_def json_ok_strs)
  show ?thesis
    unfolding runAgentLoop_def
    by (intro disciplined_run_step returns_session_body disciplined_typed disjI2)
      (auto intro!: disciplined_agent_loop [OF ok] disciplined_run_step recall compress disciplined_typed opening_messages_ok
        dest: messages_ok_dec split: option.split)
qed

lemma disciplined_agent: "agent_ok o' \<Longrightarrow> disciplined (attempt_fn (agent_fn name o') req)"
  by (auto simp: attempt_fn_def agent_fn_def disciplined_runAgentLoop intro!: disciplined_typed split: sum.split)

section \<open>Which steps the loop takes\<close>

primrec calls_in :: "string set \<Rightarrow> 'w wf \<Rightarrow> bool" where
  "calls_in S (Return v) = True"
| "calls_in S (Raise e) = True"
| "calls_in S (Call c k) = (call_id c \<in> S \<and> (\<forall>r. calls_in S (k r)))"

lemma run_wf_calls_in:
  assumes "run_wf env t s = (r, s')" and "calls_in S t" and "distinct (usedIds s)"
  shows "set (usedIds s') \<subseteq> set (usedIds s) \<union> S \<and> distinct (usedIds s')"
  using assms
proof (induction t arbitrary: s)
  case (Call c k)
  obtain x s2 where st: "step env c s = (x, s2)" by fastforce
  have used: "usedIds s2 = claimed (call_id c) (usedIds s)" using step_effect [OF st] by blast
  then have "distinct (usedIds s2)" using Call.prems(3) by (simp add: claimed_def)
  moreover have "run_wf env (k x) s2 = (r, s')" "calls_in S (k x)" using Call.prems st by simp_all
  ultimately have "set (usedIds s') \<subseteq> set (usedIds s2) \<union> S \<and> distinct (usedIds s')" by (intro Call.IH) simp_all
  then show ?case using Call.prems(2) used by (auto simp: claimed_def split: if_splits)
qed auto

lemma calls_in_run_step: "calls_in S (run_step sid body k) \<longleftrightarrow> sid \<in> S \<and> (\<forall>v. calls_in S (k v))"
proof -
  have "(\<forall>r. calls_in S (uncaught k r)) \<longleftrightarrow> (\<forall>v. calls_in S (k v))"
  proof
    assume all: "\<forall>r. calls_in S (uncaught k r)"
    show "\<forall>v. calls_in S (k v)" using all [rule_format, of "Ok v" for v] by (simp add: uncaught_def)
  qed (auto simp: uncaught_def split: sum.split)
  then show ?thesis by (simp add: run_step_def)
qed

lemma calls_in_uncaught: "(\<And>v. calls_in S (k v)) \<Longrightarrow> calls_in S (uncaught k r)"
  by (auto simp: uncaught_def split: sum.split)

lemma calls_in_typed: "(\<And>a. calls_in S (k a)) \<Longrightarrow> calls_in S (typed dec k v)"
  by (auto simp: typed_def split: option.split)

definition model_ids :: "int \<Rightarrow> string set" where
  "model_ids mx = insert ''llm-output-fix'' ((\<lambda>i. ''llm-'' @ int_str i) ` {0..<mx})"

definition agent_ids :: "int \<Rightarrow> string set" where
  "agent_ids mx = {sid. startsWith sid ''llm-'' \<longrightarrow> sid \<in> model_ids mx}"

lemma agent_ids_step: "kind \<in> {''approval'', ''handoff'', ''tool''} \<Longrightarrow> step_id kind i call \<in> agent_ids mx"
  by (auto simp: agent_ids_def step_id_def)

lemma calls_in_tool_calls:
  assumes "\<And>results. calls_in (agent_ids mx) (k results)"
  shows "calls_in (agent_ids mx) (tool_calls agent runId o' i calls results k)"
proof (induction calls arbitrary: results)
  case (Cons call calls)
  have perform: "calls_in (agent_ids mx) (perform_call agent runId i td call k')"
    if "\<And>part. calls_in (agent_ids mx) (k' part)" for td and k' :: "llm_content \<Rightarrow> 'a wf"
    using that by (auto simp: perform_call_def calls_in_run_step agent_ids_step intro!: calls_in_uncaught calls_in_typed split: option.split)
  show ?case
    using Cons by (auto simp: tool_call_def agent_ids_step intro!: calls_in_uncaught perform split: option.split)
qed (simp add: assms)

lemma calls_in_iterate:
  assumes "\<And>ls. calls_in (agent_ids mx) (fin ls)" and "int n \<le> mx"
  shows "calls_in (agent_ids mx) (iterate agent runId o' mx n ls fin)"
  using assms(2)
proof (induction n arbitrary: ls)
  case (Suc n)
  have "''llm-'' @ int_str (mx - int (Suc n)) \<in> agent_ids mx"
    using Suc.prems unfolding agent_ids_def model_ids_def by (intro CollectI impI insertI2 imageI) simp
  moreover have "calls_in (agent_ids mx) (iterate agent runId o' mx n ls' fin)" for ls' using Suc by simp
  ultimately show ?case
    using assms(1) by (auto simp: turn_def calls_in_run_step Let_def intro!: calls_in_typed calls_in_tool_calls)
qed (simp add: assms)

lemma calls_in_rest: "calls_in (agent_ids mx) (structured agent o' ls (finish agent o' input))"
proof -
  have fin: "calls_in (agent_ids mx) (finish agent o' input ls' out)" for ls' out
    by (auto simp: finish_def Let_def calls_in_run_step agent_ids_def split: option.split)
  have "''llm-output-fix'' \<in> agent_ids mx" by (simp add: agent_ids_def model_ids_def)
  then show ?thesis
    by (auto simp: structured_def Let_def calls_in_run_step fin intro!: calls_in_typed split: option.split sum.split)
qed

lemma calls_in_runAgentLoop: "calls_in (agent_ids (max 0 (maxIterations o'))) (runAgentLoop agent o' input runId)"
proof -
  have loop: "calls_in (agent_ids (max 0 (maxIterations o'))) (agent_loop agent runId o' input messages)" for messages
  proof (cases "0 \<le> maxIterations o'")
    case True
    then show ?thesis by (simp add: agent_loop_def max_def calls_in_iterate calls_in_rest)
  qed (simp add: agent_loop_def calls_in_rest)
  have "{''session'', ''memory-recall'', ''memory-compress''} \<subseteq> agent_ids mx" for mx by (simp add: agent_ids_def)
  then show ?thesis
    by (auto simp: runAgentLoop_def calls_in_run_step loop intro!: calls_in_typed split: option.split)
qed

section \<open>What the loop returns\<close>

primrec ends :: "(jsval \<Rightarrow> bool) \<Rightarrow> 'w wf \<Rightarrow> bool" where
  "ends P (Return v) = P v"
| "ends P (Raise e) = True"
| "ends P (Call c k) = (\<forall>r. ends P (k r))"

lemma run_wf_ends: "run_wf env t s = (Inr v, s') \<Longrightarrow> ends P t \<Longrightarrow> P v"
  by (induction t arbitrary: s) (fastforce split: prod.splits)+

lemma ends_uncaught: "(\<And>v. ends P (k v)) \<Longrightarrow> ends P (uncaught k r)"
  by (auto simp: uncaught_def split: sum.split)

lemma ends_run_step: "(\<And>v. ends P (k v)) \<Longrightarrow> ends P (run_step sid body k)"
  by (simp add: run_step_def ends_uncaught)

lemma ends_typed: "(\<And>a. ends P (k a)) \<Longrightarrow> ends P (typed dec k v)"
  by (auto simp: typed_def split: option.split)

lemma ends_tool_calls:
  assumes "\<And>results. ends P (k results)"
  shows "ends P (tool_calls agent runId o' i calls results k)"
proof (induction calls arbitrary: results)
  case (Cons call calls)
  have perform: "ends P (perform_call agent runId i td call k')"
    if "\<And>part. ends P (k' part)" for td and k' :: "llm_content \<Rightarrow> 'a wf"
    using that by (auto simp: perform_call_def intro!: ends_run_step ends_uncaught ends_typed split: option.split)
  show ?case
    using Cons by (auto simp: tool_call_def intro!: ends_uncaught perform split: option.split)
qed (simp add: assms)

lemma ends_iterate:
  assumes "\<And>ls. \<not> over_budget o' (ls_usage ls) \<Longrightarrow> 1 \<le> ls_iterations ls \<Longrightarrow> ls_iterations ls \<le> mx \<Longrightarrow> ends P (fin ls)"
    and "0 < n" and "int n \<le> mx"
  shows "ends P (iterate agent runId o' mx n ls fin)"
  using assms(2,3)
proof (induction n arbitrary: ls)
  case (Suc n)
  have "ends P (turn agent runId o' (mx - int (Suc n)) ls again fin)" if "\<And>ls'. ends P (again ls')" for again
    unfolding turn_def Let_def using Suc.prems
    by (auto intro!: ends_run_step ends_typed ends_tool_calls assms(1) that)
  moreover have "ends P (if n = 0 then Raise (Error (iterations_message agent mx)) else iterate agent runId o' mx n ls' fin)" for ls'
    using Suc.IH [of ls'] Suc.prems by simp
  ultimately show ?case by simp
qed simp

lemma ends_finish: "P (agent_result o' ls out) \<Longrightarrow> ends P (finish agent o' input ls out)"
  by (auto simp: finish_def Let_def intro!: ends_run_step split: option.split)

section \<open>Properties\<close>

text \<open>A model that asks for one tool call and then answers, with the number of its calls as the world.\<close>

definition demo_reply :: "llm_content list \<Rightarrow> llm_response" where
  "demo_reply cs = \<lparr>r_content = cs, r_stopReason = ''endTurn'', r_usage = \<lparr>inputTokens = 7, outputTokens = 3\<rparr>\<rparr>"

definition demo_complete :: "int model_call" where
  "demo_complete q w =
     (Ok (if length (lr_messages q) = 1 then demo_reply [ToolUse ''t1'' ''echo'' (JStr ''x'')] else demo_reply [TextPart ''done'']), 5, w + 1)"

definition demo_tool :: "bool \<Rightarrow> int agent_tool" where
  "demo_tool gated = tool ''echo'' ''echoes'' None None gated (\<lambda>_ _ _ w. (Ok (JStr ''ok''), 1, w + 100))"

definition demo_options :: "bool \<Rightarrow> int agent_options" where
  "demo_options gated =
     \<lparr>ao_complete = demo_complete, ao_stream = None, ao_breaker = (\<lambda>f. f), ao_model = ''m'', ao_instructions = None,
      ao_tools = [demo_tool gated], ao_maxIterations = Some 3, ao_maxTokens = None, ao_temperature = None,
      ao_maxTotalTokens = Some 20, ao_historyWindow = None, ao_approvalTimeout = None, ao_output = None,
      ao_memory = None, ao_sessionGet = (\<lambda>_ _ _. None), ao_sessionPut = (\<lambda>_ _ _ w. w), ao_cost = (\<lambda>_. None)\<rparr>"

lemma demo_ok: "agent_ok (demo_options gated)"
  by (auto simp: agent_ok_def demo_options_def returns_def demo_complete_def demo_reply_def response_ok_def content_ok_def
      demo_tool_def tool_def)

text \<open>
  C3: agents survive crashes without calling the model again. When the process dies right after any
  recorded step of an agent run (a model reply, a tool result, the session) and the run is redelivered
  with the journal so far, the new attempt ends with the outcome and the world the uninterrupted run would
  have ended with, and records exactly the remaining steps. It holds for every agent whose model replies
  are data and whose tools return JSON values or \<open>undefined\<close>, with tools, approvals, handoffs, memory,
  sessions and structured output.
\<close>

theorem agent_crash_recovery:
  assumes "agent_ok o'" and "distinct (map fst es)"
    and "exec_until n (attempt_env now None req w es) (attempt_fn (agent_fn name o') req) (start w) = Some s1"
    and "executeAttempt now (agent_fn name o') v (req\<lparr>req_journal := json_text (JArr (map entry_value es))\<rparr>) None w = (ws, out, s2)"
  shows "\<exists>q2. executeAttempt now (agent_fn name o') v
                (req\<lparr>req_journal := json_text (JArr (map entry_value (es @ recorded s1)))\<rparr>) None (world s1) = (ws, out, q2) \<and>
           world q2 = world s2 \<and> recorded s2 = recorded s1 @ recorded q2"
  by (rule attempt_replays [OF disciplined_agent [OF assms(1)] assms(2-4)])

definition demo_req :: exec_req where
  "demo_req = \<lparr>req_runId = ''r'', req_workflow = ''agent:a'',
     req_input = json_text (input_value ''hi'' None None), req_version = None, req_journal = ''[]''\<rparr>"

definition demo_mid :: "int attempt" where
  "demo_mid =
     \<lparr>usedIds = [''llm-0'', ''session''], world = 1,
      recorded = [(''session'', \<lparr>je_kind = ''run'', je_result = Some ''[]''\<rparr>),
                  (''llm-0'', \<lparr>je_kind = ''run'', je_result = Some (json_text (enc_response (demo_reply [ToolUse ''t1'' ''echo'' (JStr ''x'')])))\<rparr>)]\<rparr>"

lemma demo_crash:
  "exec_until 2 (attempt_env id None demo_req 0 []) (attempt_fn (agent_fn ''a'' (demo_options False)) demo_req) (start 0) = Some demo_mid"
  by code_simp

theorem agent_crash_recovery_witness:
  "world (snd (snd (executeAttempt id (agent_fn ''a'' (demo_options False)) None
     (demo_req\<lparr>req_journal := json_text (JArr (map entry_value (recorded demo_mid)))\<rparr>) None (world demo_mid)))) = 102"
proof -
  let ?full = "executeAttempt id (agent_fn ''a'' (demo_options False)) None
      (demo_req\<lparr>req_journal := json_text (JArr (map entry_value []))\<rparr>) None 0"
  have "\<exists>q2. executeAttempt id (agent_fn ''a'' (demo_options False)) None
            (demo_req\<lparr>req_journal := json_text (JArr (map entry_value ([] @ recorded demo_mid)))\<rparr>) None (world demo_mid) =
              (fst ?full, fst (snd ?full), q2) \<and>
          world q2 = world (snd (snd ?full)) \<and> recorded (snd (snd ?full)) = recorded demo_mid @ recorded q2"
    by (rule agent_crash_recovery [OF demo_ok _ demo_crash, where v = None]) simp_all
  moreover have "world (snd (snd ?full)) = 102" by code_simp
  ultimately show ?thesis by auto
qed

lemma model_calls_le:
  "length (filter (\<lambda>sid. startsWith sid ''llm-'') (usedIds (snd (run_wf env (runAgentLoop agent o' input runId) (start w)))))
     \<le> nat (maxIterations o') + 1"
proof -
  let ?mx = "max 0 (maxIterations o')" and ?used = "usedIds (snd (run_wf env (runAgentLoop agent o' input runId) (start w)))"
  have "set ?used \<subseteq> agent_ids ?mx" and dist: "distinct ?used"
    using run_wf_calls_in [OF prod.collapse [symmetric] calls_in_runAgentLoop, where s = "start w"]
    by (auto simp: start_def)
  then have "set (filter (\<lambda>sid. startsWith sid ''llm-'') ?used) \<subseteq> model_ids ?mx" by (auto simp: agent_ids_def)
  moreover have "finite (model_ids ?mx)" by (simp add: model_ids_def)
  moreover have "card (model_ids ?mx) \<le> nat ?mx + 1"
    using card_image_le [of "{0..<?mx}" "\<lambda>i. ''llm-'' @ int_str i"] by (simp add: model_ids_def card_insert_if)
  ultimately have "card (set (filter (\<lambda>sid. startsWith sid ''llm-'') ?used)) \<le> nat ?mx + 1" by (meson card_mono order_trans)
  then show ?thesis using distinct_card [OF distinct_filter [OF dist]] by (simp add: max_def split: if_splits)
qed

text \<open>
  a run that returns stayed within its limits. With a token budget and at least one iteration allowed,
  a successful result (no structured output) reports a token total within the budget and between 1 and
  \<open>maxIterations\<close> iterations.
\<close>

theorem agent_within_budget:
  assumes "run_wf env (runAgentLoop agent o' input runId) s = (Inr v, s')"
    and "ao_maxTotalTokens o' = Some b" and "ao_output o' = None" and "0 < maxIterations o'"
  shows "\<exists>ls. v = agent_result o' ls None \<and> total (ls_usage ls) \<le> b \<and>
    1 \<le> ls_iterations ls \<and> ls_iterations ls \<le> maxIterations o'"
proof (rule run_wf_ends [OF assms(1)])
  let ?P = "\<lambda>v. \<exists>ls. v = agent_result o' ls None \<and> total (ls_usage ls) \<le> b \<and> 1 \<le> ls_iterations ls \<and> ls_iterations ls \<le> maxIterations o'"
  have fin: "ends ?P (finish agent o' input ls None)"
    if "\<not> over_budget o' (ls_usage ls)" "1 \<le> ls_iterations ls" "ls_iterations ls \<le> maxIterations o'" for ls
    using that assms(2) by (intro ends_finish exI [of _ ls]) (simp add: over_budget_def)
  have "ends ?P (agent_loop agent runId o' input messages)" for messages
    unfolding agent_loop_def using assms(3,4) fin by (intro ends_iterate) (auto simp: structured_def)
  then show "ends ?P (runAgentLoop agent o' input runId)"
    by (auto simp: runAgentLoop_def intro!: ends_run_step ends_typed split: option.split)
qed

definition demo_env :: "int step_env" where
  "demo_env = \<lparr>env_journal = [], env_runId = ''r'', env_now = id, env_offload = None\<rparr>"

definition demo_run :: "(exn, jsval) res \<times> int attempt" where
  "demo_run = run_wf demo_env (runAgentLoop ''a'' (demo_options False) \<lparr>ai_message = ''hi'', ai_sessionId = None\<rparr> ''r'') (start 0)"

definition demo_value :: jsval where
  "demo_value = agent_result (demo_options False)
     \<lparr>ls_messages = [], ls_usage = \<lparr>inputTokens = 14, outputTokens = 6\<rparr>, ls_iterations = 2, ls_toolCalls = 1, ls_finalText = ''done''\<rparr> None"

theorem agent_within_budget_witness:
  "\<exists>ls. demo_value = agent_result (demo_options False) ls None \<and> total (ls_usage ls) \<le> 20 \<and>
    1 \<le> ls_iterations ls \<and> ls_iterations ls \<le> maxIterations (demo_options False)"
proof (rule agent_within_budget [where s = "start 0" and s' = "snd demo_run" and env = demo_env and agent = "''a''"
      and input = "\<lparr>ai_message = ''hi'', ai_sessionId = None\<rparr>" and runId = "''r''"])
  show "run_wf demo_env (runAgentLoop ''a'' (demo_options False) \<lparr>ai_message = ''hi'', ai_sessionId = None\<rparr> ''r'') (start 0) =
      (Inr demo_value, snd demo_run)"
    by code_simp
qed (simp_all add: demo_options_def maxIterations_def)

text \<open>The journal text the engine writes for a decision.\<close>

definition event_entry :: "jsval \<Rightarrow> journal_entry" where
  "event_entry payload = \<lparr>je_kind = ''waitForEvent'', je_result = Some (json_text (JObj [(''event'', payload)]))\<rparr>"

definition timeout_entry :: journal_entry where
  "timeout_entry = \<lparr>je_kind = ''waitForEvent'', je_result = Some (json_text (JObj [(''timedOut'', JBool True)]))\<rparr>"

lemma wait_replays_event:
  "sid \<notin> set (usedIds s) \<Longrightarrow> json_ok payload \<Longrightarrow> map_get (env_journal env) sid = Some (event_entry payload) \<Longrightarrow>
   step env (WaitForEvent sid ev timeout match) s = (Ok payload, s\<lparr>usedIds := sid # usedIds s\<rparr>)"
  by (simp add: step_defs event_entry_def entry_object_def parse_exn_def JSON_parse_text prop_exn_def get_prop_def truthy_def
      del: json_text.simps)

lemma wait_replays_timeout:
  "sid \<notin> set (usedIds s) \<Longrightarrow> map_get (env_journal env) sid = Some timeout_entry \<Longrightarrow>
   step env (WaitForEvent sid ev timeout match) s = (Ok JNull, s\<lparr>usedIds := sid # usedIds s\<rparr>)"
  by (simp add: step_defs timeout_entry_def entry_object_def parse_exn_def JSON_parse_text prop_exn_def get_prop_def truthy_def
      del: json_text.simps)

lemma wait_suspends:
  "sid \<notin> set (usedIds s) \<Longrightarrow> map_get (env_journal env) sid = None \<Longrightarrow> ms_exn d = Ok n \<Longrightarrow> stringify m = Some t \<Longrightarrow>
   step env (WaitForEvent sid ev (Some d) (Some m)) s =
     (Throw (SuspendSignal (EventInfo sid ev (Some (env_now env (world s) + n)) (Some t))), s\<lparr>usedIds := sid # usedIds s\<rparr>)"
  by (simp add: step_defs)

lemma decisions:
  "approved (approve_payload runId i)" "\<not> approved (deny_payload runId i reason)" "\<not> approved JNull"
  "json_ok (approve_payload runId i)" "json_ok (deny_payload runId i reason)"
  "denial call (deny_payload runId i reason) =
     ToolResult (use_id call) (''denied by operator'' @ (case reason of Some r \<Rightarrow> if r = [] then [] else '': '' @ r | None \<Rightarrow> [])) True"
  "denial call JNull = ToolResult (use_id call) ''approval timed out'' True"
  by (auto simp: approved_def approve_payload_def deny_payload_def denial_def get_prop_def truthy_def split: option.split)

definition gate_wait :: "'w agent_options \<Rightarrow> duration" where
  "gate_wait o' = (case ao_approvalTimeout o' of Some d \<Rightarrow> d | None \<Rightarrow> DStr ''1h'')"

text \<open>A journal entry that grants the call: an event that came, whose payload's \<open>approved\<close> is truthy.\<close>

definition grants :: "journal_entry \<Rightarrow> bool" where
  "grants e \<longleftrightarrow> je_kind e = ''waitForEvent'' \<and>
     (\<exists>t v payload a. je_result e = Some t \<and> JSON_parse t = Some v \<and> get_prop v ''event'' = Some payload \<and>
        get_prop payload ''approved'' = Some a \<and> truthy a)"

lemma wait_answers:
  assumes "sid \<notin> set (usedIds s)" and "map_get (env_journal env) sid = Some e" and "\<not> grants e"
  shows "\<exists>r. step env (WaitForEvent sid ev timeout match) s = (r, s\<lparr>usedIds := sid # usedIds s\<rparr>) \<and> (\<forall>d. r = Ok d \<longrightarrow> \<not> approved d)"
proof -
  let ?s1 = "s\<lparr>usedIds := sid # usedIds s\<rparr>"
  define answer where "answer = rbind (entry_object e) (\<lambda>r. rbind (prop_exn r ''timedOut'') (\<lambda>t. if truthy t then Ok JNull else prop_exn r ''event''))"
  show ?thesis
  proof (cases "je_kind e = ''waitForEvent''")
    case True
    then have "step env (WaitForEvent sid ev timeout match) s = (answer, ?s1)" using assms(1,2) by (simp add: step_defs answer_def)
    moreover have "\<not> approved d" if d: "answer = Ok d" for d
    proof (cases "d = JNull")
      case False
      then obtain v where v: "entry_object e = Ok v" "prop_exn v ''event'' = Ok d"
        using d by (auto simp: answer_def rbind_def split: sum.splits if_splits)
      show ?thesis
      proof (cases "je_result e")
        case None
        have "parse_exn ''{}'' = Ok (JObj [])" by code_simp
        then have "v = JObj []" using v(1) None by (simp add: entry_object_def)
        then have "d = JUndef" using v(2) by (simp add: prop_exn_def get_prop_def)
        then show ?thesis by (simp add: approved_def get_prop_def)
      next
        case (Some t)
        then have "JSON_parse t = Some v" "get_prop v ''event'' = Some d"
          using v by (auto simp: entry_object_def parse_exn_def prop_exn_def split: option.splits)
        then show ?thesis using assms(3) True Some by (auto simp: grants_def approved_def split: option.splits)
      qed
    qed (simp add: approved_def get_prop_def)
    ultimately show ?thesis by blast
  qed (use assms(1,2) in \<open>simp add: step_defs\<close>)
qed

text \<open>
  C23: the approval gate fails closed. A call of a tool that requires approval starts neither tool nor child
  agent before a decision is journalled: without one the run suspends on the approval event of this run and tool
  use, with the configured timeout, the world untouched. Whatever event is then journalled, the call is
  performed if and only if the payload's \<open>approved\<close> is truthy; after any other payload
  (\<open>deny\<close>'s with its reason) or a timeout, the loop goes on with an error result and the world
  untouched; any other entry at the gate ends the attempt or denies.
\<close>

theorem approval_gate:
  assumes "map_get (toolByName o') (use_name call) = Some td" and "t_requiresApproval td"
    and "sid = step_id ''approval'' i call" and "sid \<notin> set (usedIds s)" and "ms_exn (gate_wait o') = Ok n"
  defines "s1 \<equiv> s\<lparr>usedIds := sid # usedIds s\<rparr>"
  shows "(map_get (env_journal env) sid = None \<longrightarrow>
      run_wf env (tool_call agent runId o' i call k) s =
        (Throw (SuspendSignal (EventInfo sid APPROVAL_EVENT (Some (env_now env (world s) + n))
           (Some (json_text (JObj [(''runId'', JStr runId), (''toolUseId'', JStr (use_id call))]))))), s1)) \<and>
    (\<forall>payload. json_ok payload \<and> map_get (env_journal env) sid = Some (event_entry payload) \<longrightarrow>
      run_wf env (tool_call agent runId o' i call k) s =
        (if \<exists>a. get_prop payload ''approved'' = Some a \<and> truthy a
         then run_wf env (perform_call agent runId i td call k) s1 else run_wf env (k (denial call payload)) s1)) \<and>
    (map_get (env_journal env) sid = Some (event_entry (approve_payload runId (use_id call))) \<longrightarrow>
      run_wf env (tool_call agent runId o' i call k) s = run_wf env (perform_call agent runId i td call k) s1) \<and>
    (\<forall>reason. map_get (env_journal env) sid = Some (event_entry (deny_payload runId (use_id call) reason)) \<longrightarrow>
      run_wf env (tool_call agent runId o' i call k) s =
        run_wf env (k (ToolResult (use_id call)
          (''denied by operator'' @ (case reason of Some r \<Rightarrow> if r = [] then [] else '': '' @ r | None \<Rightarrow> [])) True)) s1) \<and>
    (map_get (env_journal env) sid = Some timeout_entry \<longrightarrow>
      run_wf env (tool_call agent runId o' i call k) s =
        run_wf env (k (ToolResult (use_id call) ''approval timed out'' True)) s1) \<and>
    (\<forall>e. map_get (env_journal env) sid = Some e \<and> \<not> grants e \<longrightarrow>
      (\<exists>x. run_wf env (tool_call agent runId o' i call k) s = (Throw x, s1)) \<or>
      (\<exists>d. run_wf env (tool_call agent runId o' i call k) s = run_wf env (k (denial call d)) s1))"
proof -
  let ?w = "WaitForEvent sid APPROVAL_EVENT (Some (gate_wait o'))
      (Some (JObj [(''runId'', JStr runId), (''toolUseId'', JStr (use_id call))]))"
  have call: "tool_call agent runId o' i call k =
      Call ?w (uncaught (\<lambda>decision. if approved decision then perform_call agent runId i td call k else k (denial call decision)))"
    using assms(1-3) by (simp add: tool_call_def gate_wait_def)
  have yes: "approved payload \<longleftrightarrow> (\<exists>a. get_prop payload ''approved'' = Some a \<and> truthy a)" for payload
    by (auto simp: approved_def split: option.splits)
  have event: "run_wf env (tool_call agent runId o' i call k) s =
      (if approved payload then run_wf env (perform_call agent runId i td call k) s1 else run_wf env (k (denial call payload)) s1)"
    if "json_ok payload" "map_get (env_journal env) sid = Some (event_entry payload)" for payload
    using wait_replays_event [OF assms(4) that] by (simp add: call s1_def uncaught_def del: step.simps)
  note wait = wait_replays_timeout [OF assms(4)] wait_suspends [OF assms(4) _ assms(5) stringify_json_text]
  have closed: "(\<exists>x. run_wf env (tool_call agent runId o' i call k) s = (Throw x, s1)) \<or>
      (\<exists>d. run_wf env (tool_call agent runId o' i call k) s = run_wf env (k (denial call d)) s1)"
    if closed: "map_get (env_journal env) sid = Some e" "\<not> grants e" for e
  proof -
    obtain r where r: "step env ?w s = (r, s1)" "\<forall>d. r = Ok d \<longrightarrow> \<not> approved d"
      using wait_answers [OF assms(4) closed] unfolding s1_def by blast
    then show ?thesis by (cases r) (auto simp: call uncaught_def simp del: step.simps)
  qed
  show ?thesis
  proof (intro conjI impI allI)
    show "run_wf env (tool_call agent runId o' i call k) s =
        (Throw (SuspendSignal (EventInfo sid APPROVAL_EVENT (Some (env_now env (world s) + n))
           (Some (json_text (JObj [(''runId'', JStr runId), (''toolUseId'', JStr (use_id call))]))))), s1)"
      if "map_get (env_journal env) sid = None"
      using that by (simp add: call s1_def uncaught_def wait del: json_text.simps step.simps)
    show "run_wf env (tool_call agent runId o' i call k) s = run_wf env (k (ToolResult (use_id call) ''approval timed out'' True)) s1"
      if "map_get (env_journal env) sid = Some timeout_entry"
      using that by (simp add: call s1_def uncaught_def decisions wait del: json_text.simps step.simps)
    show "run_wf env (tool_call agent runId o' i call k) s = run_wf env (perform_call agent runId i td call k) s1"
      if "map_get (env_journal env) sid = Some (event_entry (approve_payload runId (use_id call)))"
      using event [OF decisions(4) that] by (simp add: decisions(1))
    show "run_wf env (tool_call agent runId o' i call k) s =
        run_wf env (k (ToolResult (use_id call)
          (''denied by operator'' @ (case reason of Some r \<Rightarrow> if r = [] then [] else '': '' @ r | None \<Rightarrow> [])) True)) s1"
      if "map_get (env_journal env) sid = Some (event_entry (deny_payload runId (use_id call) reason))" for reason
      using event [OF decisions(5) that] by (simp add: decisions(2,6))
  qed (use event closed yes in \<open>blast | simp\<close>)+
qed

theorem approval_gate_witness:
  "run_wf demo_env (tool_call ''a'' ''r'' (demo_options True) 0 (ToolUse ''t1'' ''echo'' JNull) (\<lambda>_. Return JNull)) (start 0) =
     (Throw (SuspendSignal (EventInfo ''approval-0-t1'' APPROVAL_EVENT (Some 3600000)
        (Some (json_text (JObj [(''runId'', JStr ''r''), (''toolUseId'', JStr ''t1'')]))))), start 0\<lparr>usedIds := [''approval-0-t1'']\<rparr>)"
proof -
  let ?call = "ToolUse ''t1'' ''echo'' JNull"
  have id: "''approval-0-t1'' = step_id ''approval'' 0 ?call" by code_simp
  have wait: "ms_exn (gate_wait (demo_options True)) = Ok 3600000" by code_simp
  have tools: "map_get (toolByName (demo_options True)) (use_name ?call) = Some (demo_tool True)" "t_requiresApproval (demo_tool True)"
    by (simp_all add: toolByName_def demo_options_def demo_tool_def tool_def)
  show ?thesis
    using approval_gate [OF tools id _ wait, of "start 0" demo_env "''a''" "''r''" "\<lambda>_. Return JNull"]
    by (simp add: start_def demo_env_def del: json_text.simps)
qed

section \<open>Findings\<close>

text \<open>
  The corrective round of structured output is charged to the usage but not checked against
  \<open>maxTotalTokens\<close>: a run ends normally over its budget.
\<close>

definition fix_options :: "int agent_options" where
  "fix_options = (demo_options False)\<lparr>ao_tools := [], ao_maxTotalTokens := Some 10, ao_output := Some Inr,
     ao_complete := (\<lambda>q w. (Ok (demo_reply [TextPart (if length (lr_messages q) = 1 then ''oh'' else ''1'')]), 5, w + 1))\<rparr>"

lemma correction_ignores_budget:
  "fst (run_wf demo_env (runAgentLoop ''a'' fix_options \<lparr>ai_message = ''hi'', ai_sessionId = None\<rparr> ''r'') (start 0)) =
     Inr (agent_result fix_options
       \<lparr>ls_messages = [], ls_usage = \<lparr>inputTokens = 14, outputTokens = 6\<rparr>, ls_iterations = 1, ls_toolCalls = 0, ls_finalText = ''1''\<rparr> (Some (JNum 1)))"
  by code_simp

text \<open>A history window of 0 keeps the whole history: \<open>slice(-0)\<close> is \<open>slice(0)\<close>.\<close>

lemma zero_window_keeps_all: "slice_neg 0 xs = xs"
  by (simp add: slice_neg_def)

text \<open>
  Two tool uses of one reply with the same id claim the same step id: the second one fails the run.
\<close>

lemma repeated_tool_use_id_fails:
  "fst (run_wf demo_env (tool_calls ''a'' ''r'' (demo_options False) 0
      [ToolUse ''t1'' ''echo'' JNull, ToolUse ''t1'' ''echo'' (JNum 1)] [] (\<lambda>_. Return JNull)) (start 0)) =
     Inl (Error (dup_message ''tool-0-t1''))"
  by code_simp

end
