(* ===== verification/Memory.thy ===== *)
theory Memory
  imports Agent
begin

text \<open>
  Agent memory (\<open>packages/zenzip/src/memory.ts\<close>): the in-process vector store, semantic recall and working
  memory compression. Embeddings come from a provider and are an argument (\<open>Embeddings\<close> has the providers). The
  similarity of two vectors is an argument of the store's search: what is proved holds for every one, also for
  \<open>cosine_of\<close>, whose square root is an argument in turn.
\<close>

section \<open>The vector store\<close>

record memory_record =
  mr_id :: nat
  mr_text :: string
  mr_embedding :: "rat list option"
  mr_sessionId :: "string option"

type_synonym vector_store = "memory_record list"

fun cosine_parts :: "rat list \<Rightarrow> rat list \<Rightarrow> rat \<times> rat \<times> rat \<Rightarrow> rat \<times> rat \<times> rat" where
  "cosine_parts (a # as) (b # bs) (dot, na, nb) =
     cosine_parts as bs (fl (dot + fl (a * b)), fl (na + fl (a * a)), fl (nb + fl (b * b)))"
| "cosine_parts as bs acc = acc"

definition cosine_of :: "(rat \<Rightarrow> rat) \<Rightarrow> rat list \<Rightarrow> rat list \<Rightarrow> rat" where
  "cosine_of square_root a b =
     (case cosine_parts a b (0, 0, 0) of (dot, na, nb) \<Rightarrow>
        if na \<noteq> 0 \<and> nb \<noteq> 0 then fl (dot / fl (square_root na * square_root nb)) else 0)"

definition store_add :: "memory_record list \<Rightarrow> vector_store \<Rightarrow> vector_store" where
  "store_add records st = st @ records"

text \<open>\<open>filter?.sessionId\<close> counts as absent when it is the empty string.\<close>

definition pool_of :: "string option \<Rightarrow> vector_store \<Rightarrow> memory_record list" where
  "pool_of sess st =
     (case sess of
        None \<Rightarrow> st
      | Some s \<Rightarrow> if s = [] then st else filter (\<lambda>r. mr_sessionId r = Some s) st)"

definition store_search ::
  "(rat list \<Rightarrow> rat list \<Rightarrow> rat) \<Rightarrow> rat list \<Rightarrow> nat \<Rightarrow> string option \<Rightarrow> vector_store \<Rightarrow> memory_record list" where
  "store_search cosine embedding k sess st =
     take k (sort_key (\<lambda>r. - cosine embedding (the (mr_embedding r)))
       (filter (\<lambda>r. mr_embedding r \<noteq> None) (pool_of sess st)))"

section \<open>Remembering and recalling\<close>

text \<open>
  The embedding provider answers a list of texts with a list of vectors, or fails; the first vector is taken
  (\<open>undefined\<close> when there is none, which the similarity then trips over).
\<close>

type_synonym 'w embedder = "string list \<Rightarrow> 'w \<Rightarrow> (exn, rat list list) res \<times> int \<times> 'w"

record 'w memory_options =
  mo_embed :: "'w embedder"
  mo_cosine :: "rat list \<Rightarrow> rat list \<Rightarrow> rat"
  mo_topK :: "nat option"
  mo_provider :: "('w model_call \<times> string) option"
  mo_store_get :: "'w \<Rightarrow> vector_store"
  mo_store_put :: "vector_store \<Rightarrow> 'w \<Rightarrow> 'w"
  mo_uuid :: "'w \<Rightarrow> nat"

definition topK :: "'w memory_options \<Rightarrow> nat" where
  "topK m = (case mo_topK m of Some k \<Rightarrow> k | None \<Rightarrow> 4)"

definition first_vector :: "rat list list \<Rightarrow> rat list option" where
  "first_vector vs = (case vs of [] \<Rightarrow> None | v # _ \<Rightarrow> Some v)"

definition remember :: "'w memory_options \<Rightarrow> string \<Rightarrow> string option \<Rightarrow> 'w \<Rightarrow> (exn, unit) res \<times> int \<times> 'w" where
  "remember m text sess w =
     (case mo_embed m [text] w of
        (Inl e, d, w') \<Rightarrow> (Throw e, d, w')
      | (Inr vs, d, w') \<Rightarrow>
          (Ok (), d, mo_store_put m
             (store_add [\<lparr>mr_id = mo_uuid m w', mr_text = text, mr_embedding = first_vector vs, mr_sessionId = sess\<rparr>]
                (mo_store_get m w')) w'))"

definition recall :: "'w memory_options \<Rightarrow> string \<Rightarrow> string option \<Rightarrow> 'w \<Rightarrow> (exn, string list) res \<times> int \<times> 'w" where
  "recall m query sess w =
     (case mo_embed m [query] w of
        (Inl e, d, w') \<Rightarrow> (Throw e, d, w')
      | (Inr vs, d, w') \<Rightarrow>
          (case first_vector vs of
             Some v \<Rightarrow> (Ok (map mr_text (store_search (mo_cosine m) v (topK m) sess (mo_store_get m w'))), d, w')
           | None \<Rightarrow>
               (if \<exists>r \<in> set (pool_of sess (mo_store_get m w')). mr_embedding r \<noteq> None then Throw (Error ''TypeError'') else Ok [], d, w')))"

section \<open>Compression\<close>

definition transcript_line :: "llm_message \<Rightarrow> string" where
  "transcript_line msg =
     (case m_role msg of User \<Rightarrow> ''user'' | Assistant \<Rightarrow> ''assistant'') @ '': '' @ join_with '' '' (map text_of (m_content msg))"

definition keepRecent :: nat where "keepRecent = 6"

definition summary_request :: "string \<Rightarrow> llm_message list \<Rightarrow> llm_request" where
  "summary_request model older =
     \<lparr>lr_model = model, lr_system = None,
      lr_messages = [user_text (''Summarize this conversation so far, preserving facts, decisions, and open threads:'' @ NL @ NL @
         join_with NL (map transcript_line older))],
      lr_tools = None, lr_maxTokens = Some 512, lr_temperature = None\<rparr>"

definition compress :: "'w memory_options \<Rightarrow> llm_message list \<Rightarrow> 'w \<Rightarrow> (exn, llm_message list) res \<times> int \<times> 'w" where
  "compress m messages w =
     (case mo_provider m of
        None \<Rightarrow> (Ok messages, 0, w)
      | Some (call, model) \<Rightarrow>
          if model = [] \<or> length messages \<le> keepRecent then (Ok messages, 0, w)
          else (let older = take (length messages - keepRecent) messages;
                    recent = drop (length messages - keepRecent) messages
                in case call (summary_request model older) w of
                     (Inl e, d, w') \<Rightarrow> (Throw e, d, w')
                   | (Inr r, d, w') \<Rightarrow>
                       (Ok (user_text (''[memory] Earlier context: '' @ concat (map text_of (r_content r))) # recent), d, w')))"

text \<open>The memory as the agent loop uses it.\<close>

definition agent_memory_of :: "'w memory_options \<Rightarrow> 'w agent_memory" where
  "agent_memory_of m = \<lparr>mem_recall = recall m, mem_compress = compress m, mem_remember = remember m\<rparr>"

section \<open>Offline embeddings\<close>

text \<open>
  \<open>split(/\W+/)\<close> on the lower-cased text: the maximal runs of word characters; the hash is the one of
  \<open>hashDefinition\<close>.
\<close>

fun words :: "string \<Rightarrow> string \<Rightarrow> string list" where
  "words acc [] = (if acc = [] then [] else [rev acc])"
| "words acc (c # cs) =
     (if is_alnum_us c then words (c # acc) cs else (if acc = [] then words [] cs else rev acc # words [] cs))"

definition bucket :: "nat \<Rightarrow> string \<Rightarrow> nat" where
  "bucket dims token = unat (fnv1a token) mod dims"

definition mock_vector :: "nat \<Rightarrow> string \<Rightarrow> nat list" where
  "mock_vector dims t =
     fold (\<lambda>token v. v[bucket dims token := v ! bucket dims token + 1]) (words [] (toLowerCase t)) (replicate dims 0)"

section \<open>Lemmas\<close>

lemma search_in_pool: "r \<in> set (store_search cosine e k sess st) \<Longrightarrow> r \<in> set (pool_of sess st) \<and> mr_embedding r \<noteq> None"
  by (auto simp: store_search_def dest!: in_set_takeD)

lemma take_sort_best:
  assumes "x \<in> set (take k (sort_key f xs))" and "y \<in> set xs" and "y \<notin> set (take k (sort_key f xs))"
  shows "f x \<le> f y"
proof -
  have "y \<in> set (drop k (sort_key f xs))"
    using assms(2,3) set_append [of "take k (sort_key f xs)" "drop k (sort_key f xs)"] by (simp only: append_take_drop_id) auto
  moreover have "sorted (map f (take k (sort_key f xs)) @ map f (drop k (sort_key f xs)))"
    by (simp flip: map_append)
  ultimately show ?thesis using assms(1) by (auto simp: sorted_append)
qed

lemma compress_bound:
  "compress m messages w = (Inr l, d, w') \<Longrightarrow> length messages \<le> keepRecent \<or> mo_provider m = None \<or> snd (the (mo_provider m)) = [] \<or>
     length l = keepRecent + 1 \<and> drop 1 l = drop (length messages - keepRecent) messages"
  by (auto simp: compress_def Let_def keepRecent_def split: option.splits prod.splits if_splits sum.splits)

lemma compress_returns_ok: "list_all message_ok l \<Longrightarrow> returns (list_all message_ok) (compress m l)"
  by (auto simp: returns_def compress_def Let_def list_all_iff user_text_def message_ok_def content_ok_def
      split: option.splits prod.splits if_splits sum.splits dest: in_set_dropD)

text \<open>
  recall gives the best matches of the right session. A search returns at most \<open>k\<close> records, all of them
  embedded and, when a session is given, all of that session; and every record of the pool that is left
  out scores at most as high as every one returned.
\<close>

theorem search_top_k:
  assumes "res = store_search cosine e k sess st"
  shows "length res \<le> k \<and> set res \<subseteq> set st \<and>
    (\<forall>s. sess = Some s \<longrightarrow> s \<noteq> [] \<longrightarrow> (\<forall>r \<in> set res. mr_sessionId r = Some s)) \<and>
    (\<forall>x \<in> set res. \<forall>y \<in> set (pool_of sess st). mr_embedding y \<noteq> None \<longrightarrow> y \<notin> set res \<longrightarrow>
       cosine e (the (mr_embedding y)) \<le> cosine e (the (mr_embedding x)))"
proof (intro conjI allI ballI impI)
  show "length res \<le> k" by (simp add: assms store_search_def)
  show "set res \<subseteq> set st"
    using search_in_pool by (fastforce simp: assms pool_of_def split: option.splits if_splits)
  show "mr_sessionId r = Some s" if "sess = Some s" "s \<noteq> []" "r \<in> set res" for s r
    using that search_in_pool [of r cosine e k sess st] by (auto simp: assms pool_of_def)
  show "cosine e (the (mr_embedding y)) \<le> cosine e (the (mr_embedding x))"
    if "x \<in> set res" "y \<in> set (pool_of sess st)" "mr_embedding y \<noteq> None" "y \<notin> set res" for x y
    using take_sort_best [of x k "\<lambda>r. - cosine e (the (mr_embedding r))"
        "filter (\<lambda>r. mr_embedding r \<noteq> None) (pool_of sess st)" y] that
    by (simp add: assms store_search_def)
qed

definition fact :: "nat \<Rightarrow> string \<Rightarrow> rat \<Rightarrow> memory_record" where
  "fact i s x = \<lparr>mr_id = i, mr_text = ''f'', mr_embedding = Some [x], mr_sessionId = Some s\<rparr>"

theorem search_top_k_witness:
  "length [fact 1 ''a'' 5] \<le> 1 \<and> set [fact 1 ''a'' 5] \<subseteq> set [fact 0 ''a'' 3, fact 1 ''a'' 5, fact 2 ''b'' 9]"
proof -
  have "[fact 1 ''a'' 5] = store_search (\<lambda>a b. hd b) [1] 1 (Some ''a'') [fact 0 ''a'' 3, fact 1 ''a'' 5, fact 2 ''b'' 9]"
    by (simp add: store_search_def pool_of_def fact_def)
  from search_top_k [OF this] show ?thesis by (elim conjE) (intro conjI)
qed

section \<open>Findings\<close>

text \<open>A run without a session recalls the memories of every session.\<close>

lemma no_session_recalls_all: "pool_of None st = st" "pool_of (Some []) st = st"
  by (simp_all add: pool_of_def)

end
