(* ===== verification/Routing.thy ===== *)
theory Routing
  imports Json Paths
begin

text \<open>
  Routing: the route trie of \<open>packages/zenzip/src/http.ts\<close> (\<open>HttpRouter\<close>), the mountable \<open>Router\<close>
  of \<open>router.ts\<close> and the mount path test of \<open>express.ts\<close>. The trie is refined to a specification on
  the list of registered routes. \<open>decodeURIComponent\<close> is an argument of \<open>match\<close>: \<open>None\<close> is its
  \<open>URIError\<close>.
\<close>

section \<open>The route trie\<close>

datatype 'h route_node =
  RouteNode (node_children: "(string \<times> 'h route_node) list")
    (node_param: "(string \<times> 'h route_node) option")
    (node_handler: "'h option")

definition empty_node :: "'h route_node" where
  "empty_node = RouteNode [] None None"

record 'h http_router =
  trees :: "(string, 'h route_node) jsmap"
  router_size :: nat

definition new_router :: "'h http_router" where
  "new_router = \<lparr>trees = [], router_size = 0\<rparr>"

datatype route_error = BadPath string | URIError string

definition is_param :: "string \<Rightarrow> bool" where
  "is_param seg \<longleftrightarrow> startsWith seg '':''"

text \<open>\<open>path.split("/")\<close> without the empty segments.\<close>

definition path_segs :: "string \<Rightarrow> string list" where
  "path_segs path = filter (\<lambda>s. s \<noteq> []) (split_on (CHR ''/'') path)"

fun add_segs :: "'h \<Rightarrow> string list \<Rightarrow> 'h route_node \<Rightarrow> 'h route_node" where
  "add_segs h [] (RouteNode cs p hnd) = RouteNode cs p (case hnd of None \<Rightarrow> Some h | Some g \<Rightarrow> Some g)"
| "add_segs h (seg # segs) (RouteNode cs p hnd) =
     (if is_param seg then
        (case p of
           None \<Rightarrow> RouteNode cs (Some (drop 1 seg, add_segs h segs empty_node)) hnd
         | Some (name, n) \<Rightarrow> RouteNode cs (Some (name, add_segs h segs n)) hnd)
      else
        (case map_get cs seg of
           None \<Rightarrow> RouteNode (map_set seg (add_segs h segs empty_node) cs) p hnd
         | Some n \<Rightarrow> RouteNode (map_set seg (add_segs h segs n) cs) p hnd))"

text \<open>Whether the node at the end of the segments has no handler yet.\<close>

fun free_at :: "string list \<Rightarrow> 'h route_node \<Rightarrow> bool" where
  "free_at [] (RouteNode cs p hnd) = (hnd = None)"
| "free_at (seg # segs) (RouteNode cs p hnd) =
     (if is_param seg then (case p of None \<Rightarrow> True | Some (_, n) \<Rightarrow> free_at segs n)
      else (case map_get cs seg of None \<Rightarrow> True | Some n \<Rightarrow> free_at segs n))"

definition router_add :: "string \<Rightarrow> string \<Rightarrow> 'h \<Rightarrow> 'h http_router \<Rightarrow> (route_error, 'h http_router) res" where
  "router_add meth path handler r =
     (if \<not> startsWith path ''/'' then Throw (BadPath path)
      else let m = toUpperCase meth;
               node = (case map_get (trees r) m of None \<Rightarrow> empty_node | Some n \<Rightarrow> n);
               segs = path_segs path
           in Ok \<lparr>trees = map_set m (add_segs handler segs node) (trees r),
                  router_size = (if free_at segs node then router_size r + 1 else router_size r)\<rparr>)"

text \<open>The walk of \<open>match\<close> over the characters of the path.\<close>

type_synonym 'h matched = "('h \<times> (string, string) jsmap) option"

lemma length_after_segment: "length (dropWhile P cs) - Suc 0 < Suc (length cs)"
  using length_dropWhile_le [of P cs] by linarith

function match_walk ::
  "(string \<Rightarrow> string option) \<Rightarrow> 'h route_node \<Rightarrow> (string, string) jsmap \<Rightarrow> string \<Rightarrow> (route_error, 'h matched) res" where
  "match_walk dec node params [] = Ok (map_option (\<lambda>h. (h, params)) (node_handler node))"
| "match_walk dec node params (c # cs) =
     (if c = CHR ''/'' then match_walk dec node params cs
      else let seg = takeWhile (\<lambda>x. x \<noteq> CHR ''/'') (c # cs);
               rest = drop 1 (dropWhile (\<lambda>x. x \<noteq> CHR ''/'') (c # cs))
           in case map_get (node_children node) seg of
                Some child \<Rightarrow> match_walk dec child params rest
              | None \<Rightarrow>
                  (case node_param node of
                     Some (name, child) \<Rightarrow>
                       (case dec seg of
                          None \<Rightarrow> Throw (URIError seg)
                        | Some v \<Rightarrow> match_walk dec child (map_set name v params) rest)
                   | None \<Rightarrow> Ok None))"
  by pat_completeness auto

termination
  by (relation "measure (\<lambda>(dec, node, params, path). length path)")
    (auto simp: length_after_segment)

definition router_match ::
  "(string \<Rightarrow> string option) \<Rightarrow> 'h http_router \<Rightarrow> string \<Rightarrow> string \<Rightarrow> (route_error, 'h matched) res" where
  "router_match dec r meth path =
     (case map_get (trees r) meth of
        None \<Rightarrow> Ok None
      | Some root \<Rightarrow> match_walk dec root [] path)"

section \<open>The walk over segments\<close>

fun walk_segs ::
  "(string \<Rightarrow> string option) \<Rightarrow> 'h route_node \<Rightarrow> (string, string) jsmap \<Rightarrow> string list \<Rightarrow> (route_error, 'h matched) res" where
  "walk_segs dec node params [] = Ok (map_option (\<lambda>h. (h, params)) (node_handler node))"
| "walk_segs dec node params (seg # segs) =
     (case map_get (node_children node) seg of
        Some child \<Rightarrow> walk_segs dec child params segs
      | None \<Rightarrow>
          (case node_param node of
             Some (name, child) \<Rightarrow>
               (case dec seg of
                  None \<Rightarrow> Throw (URIError seg)
                | Some v \<Rightarrow> walk_segs dec child (map_set name v params) segs)
           | None \<Rightarrow> Ok None))"

lemma path_segs_Nil [simp]: "path_segs [] = []"
  by (simp add: path_segs_def)

lemma path_segs_slash [simp]: "path_segs (CHR ''/'' # cs) = path_segs cs"
  by (simp add: path_segs_def)

lemma split_on_takeWhile:
  "split_on c xs =
     (if c \<in> set xs then takeWhile (\<lambda>x. x \<noteq> c) xs # split_on c (drop 1 (dropWhile (\<lambda>x. x \<noteq> c) xs)) else [xs])"
  by (induction xs) auto

lemma path_segs_seg:
  assumes "c \<noteq> CHR ''/''"
  shows "path_segs (c # cs) = takeWhile (\<lambda>x. x \<noteq> CHR ''/'') (c # cs) #
    path_segs (drop 1 (dropWhile (\<lambda>x. x \<noteq> CHR ''/'') (c # cs)))"
proof (cases "CHR ''/'' \<in> set cs")
  case True
  then show ?thesis
    using assms split_on_takeWhile [of "CHR ''/''" "c # cs"] by (simp add: path_segs_def del: split_on.simps)
next
  case False
  then have "dropWhile (\<lambda>x. x \<noteq> CHR ''/'') (c # cs) = []" "takeWhile (\<lambda>x. x \<noteq> CHR ''/'') (c # cs) = c # cs"
    using assms by auto
  then show ?thesis
    using False assms split_on_no_sep [of "CHR ''/''" "c # cs"]
    by (simp only: path_segs_def drop_Nil split_on.simps(1)) simp
qed

lemma match_walk_segs: "match_walk dec node params path = walk_segs dec node params (path_segs path)"
proof (induction dec node params path rule: match_walk.induct)
  case (2 dec node params c cs)
  show ?case
  proof (cases "c = CHR ''/''")
    case True
    with "2.IH"(1) show ?thesis by simp
  next
    case False
    with "2.IH"(2,3) [OF False refl refl] show ?thesis
      by (simp add: path_segs_seg Let_def split: option.split prod.split)
  qed
qed simp

section \<open>Specification: routing on the list of registered routes\<close>

type_synonym 'h routes = "(string list \<times> 'h) list"

definition static_tails :: "string \<Rightarrow> 'h routes \<Rightarrow> 'h routes" where
  "static_tails seg R = List.map_filter (\<lambda>(p, h). case p of
      x # ps \<Rightarrow> if \<not> is_param x \<and> x = seg then Some (ps, h) else None | [] \<Rightarrow> None) R"

definition param_tails :: "'h routes \<Rightarrow> 'h routes" where
  "param_tails R = List.map_filter (\<lambda>(p, h). case p of
      x # ps \<Rightarrow> if is_param x then Some (ps, h) else None | [] \<Rightarrow> None) R"

definition param_names :: "'h routes \<Rightarrow> string list" where
  "param_names R = List.map_filter (\<lambda>(p, h). case p of
      x # ps \<Rightarrow> if is_param x then Some (drop 1 x) else None | [] \<Rightarrow> None) R"

definition here :: "'h routes \<Rightarrow> 'h list" where
  "here R = List.map_filter (\<lambda>(p, h). if p = [] then Some h else None) R"

text \<open>
  At each segment the static routes take precedence as a group; where there are none, the parameter
  routes match, under the name of the first of them. At the end the first registration wins.
\<close>

fun route_spec ::
  "(string \<Rightarrow> string option) \<Rightarrow> 'h routes \<Rightarrow> (string, string) jsmap \<Rightarrow> string list \<Rightarrow> (route_error, 'h matched) res" where
  "route_spec dec R params [] = Ok (case here R of [] \<Rightarrow> None | h # _ \<Rightarrow> Some (h, params))"
| "route_spec dec R params (seg # segs) =
     (if static_tails seg R \<noteq> [] then route_spec dec (static_tails seg R) params segs
      else if param_tails R \<noteq> [] then
        (case dec seg of
           None \<Rightarrow> Throw (URIError seg)
         | Some v \<Rightarrow> route_spec dec (param_tails R) (map_set (List.hd (param_names R)) v params) segs)
      else Ok None)"

definition trie_of :: "'h routes \<Rightarrow> 'h route_node" where
  "trie_of R = foldl (\<lambda>n (p, h). add_segs h p n) empty_node R"

lemma trie_of_Nil [simp]: "trie_of [] = empty_node"
  by (simp add: trie_of_def)

lemma trie_of_snoc [simp]: "trie_of (R @ [(p, h)]) = add_segs h p (trie_of R)"
  by (simp add: trie_of_def)

lemma tails_simps [simp]:
  "static_tails seg [] = []" "param_tails [] = []" "param_names [] = []" "here [] = []"
  by (simp_all add: static_tails_def param_tails_def param_names_def here_def List.map_filter_simps)

lemma tails_snoc:
  "static_tails seg (R @ [(p, h)]) = static_tails seg R @
     (case p of x # ps \<Rightarrow> if \<not> is_param x \<and> x = seg then [(ps, h)] else [] | [] \<Rightarrow> [])"
  "param_tails (R @ [(p, h)]) = param_tails R @ (case p of x # ps \<Rightarrow> if is_param x then [(ps, h)] else [] | [] \<Rightarrow> [])"
  "param_names (R @ [(p, h)]) = param_names R @ (case p of x # ps \<Rightarrow> if is_param x then [drop 1 x] else [] | [] \<Rightarrow> [])"
  "here (R @ [(p, h)]) = here R @ (if p = [] then [h] else [])"
  by (auto simp: static_tails_def param_tails_def param_names_def here_def map_filter_append
      List.map_filter_simps split: list.split)

lemma param_names_tails: "param_names R = [] \<longleftrightarrow> param_tails R = []"
  by (induction R rule: rev_induct) (auto simp: tails_snoc split: list.split)

text \<open>Each part of the trie's root is determined by the matching part of the route list.\<close>

lemma trie_of_root:
  "node_handler (trie_of R) = (case here R of [] \<Rightarrow> None | h # _ \<Rightarrow> Some h) \<and>
   map_get (node_children (trie_of R)) seg =
     (if static_tails seg R = [] then None else Some (trie_of (static_tails seg R))) \<and>
   node_param (trie_of R) =
     (if param_tails R = [] then None else Some (List.hd (param_names R), trie_of (param_tails R)))"
proof (induction R arbitrary: seg rule: rev_induct)
  case Nil
  then show ?case by (simp add: empty_node_def)
next
  case (snoc r R)
  obtain p h where r: "r = (p, h)" by fastforce
  obtain cs pc hn where n: "trie_of R = RouteNode cs pc hn" by (cases "trie_of R")
  note IH = snoc [unfolded n, simplified]
  show ?case
  proof (cases p)
    case Nil
    then show ?thesis using IH [of seg] n r by (auto simp: tails_snoc split: list.splits)
  next
    case (Cons x ps)
    have ne: "param_tails R \<noteq> [] \<Longrightarrow> List.hd (param_names R @ ys) = List.hd (param_names R)" for ys
      using param_names_tails [of R] by (simp add: hd_append)
    have no: "param_tails R = [] \<Longrightarrow> param_names R = []" using param_names_tails [of R] by simp
    show ?thesis
      using IH [of seg] IH [of x] n r Cons ne no
      by (auto simp: tails_snoc jsmap_simps trie_of_def split: option.splits if_splits)
  qed
qed

lemma walk_spec: "walk_segs dec (trie_of R) params segs = route_spec dec R params segs"
proof (induction segs arbitrary: R params)
  case Nil
  then show ?case using trie_of_root [of R] by (simp split: list.split)
next
  case (Cons seg segs)
  then show ?case using trie_of_root [of R seg] by (auto split: option.split)
qed

section \<open>Registration\<close>

text \<open>A sequence of \<open>add\<close> calls; a call that throws registers nothing.\<close>

definition register :: "(string \<times> string \<times> 'h) list \<Rightarrow> 'h http_router" where
  "register rs = foldl (\<lambda>r (m, p, h). case router_add m p h r of Inr r' \<Rightarrow> r' | Inl _ \<Rightarrow> r) new_router rs"

definition routes_for :: "string \<Rightarrow> (string \<times> string \<times> 'h) list \<Rightarrow> 'h routes" where
  "routes_for meth rs = List.map_filter (\<lambda>(m, p, h).
     if startsWith p ''/'' \<and> toUpperCase m = meth then Some (path_segs p, h) else None) rs"

lemma register_snoc: "register (rs @ [(m, p, h)]) = (case router_add m p h (register rs) of Inr r' \<Rightarrow> r' | Inl _ \<Rightarrow> register rs)"
  unfolding register_def by simp

lemma routes_for_snoc:
  "routes_for meth (rs @ [(m, p, h)]) = routes_for meth rs @
     (if startsWith p ''/'' \<and> toUpperCase m = meth then [(path_segs p, h)] else [])"
  by (simp add: routes_for_def map_filter_append List.map_filter_simps)

lemma register_tree:
  "map_get (trees (register rs)) meth =
     (if routes_for meth rs = [] then None else Some (trie_of (routes_for meth rs)))"
proof (induction rs arbitrary: meth rule: rev_induct)
  case Nil
  then show ?case by (simp add: register_def new_router_def routes_for_def List.map_filter_simps)
next
  case (snoc x rs)
  obtain m p h where x: "x = (m, p, h)" by (cases x) auto
  have node: "(case map_get (trees (register rs)) u of None \<Rightarrow> empty_node | Some n \<Rightarrow> n) = trie_of (routes_for u rs)" for u
    using snoc [of u] by simp
  show ?case
    using snoc [of meth] node [of "toUpperCase m"]
    by (auto simp: x register_snoc routes_for_snoc router_add_def Let_def jsmap_simps simp del: trie_of_Nil)
qed

lemma route_spec_Nil: "route_spec dec [] params segs = Ok None"
  by (cases segs) auto

lemma router_match_spec:
  "router_match dec (register rs) meth path = route_spec dec (routes_for meth rs) [] (path_segs path)"
  by (simp add: router_match_def register_tree match_walk_segs walk_spec route_spec_Nil)

fun pat_match :: "(string \<Rightarrow> string option) \<Rightarrow> string list \<Rightarrow> string list \<Rightarrow> bool" where
  "pat_match dec [] [] = True"
| "pat_match dec (x # ps) (s # ss) = ((if is_param x then dec s \<noteq> None else x = s) \<and> pat_match dec ps ss)"
| "pat_match dec _ _ = False"

lemma in_static_tails: "(ps, h) \<in> set (static_tails seg R) \<Longrightarrow> \<not> is_param seg \<and> (seg # ps, h) \<in> set R"
  by (induction R rule: rev_induct) (auto simp: tails_snoc split: list.splits if_splits)

lemma in_param_tails: "(ps, h) \<in> set (param_tails R) \<Longrightarrow> \<exists>x. is_param x \<and> (x # ps, h) \<in> set R"
  by (induction R rule: rev_induct) (auto simp: tails_snoc split: list.splits if_splits, blast+)

lemma in_here: "h \<in> set (here R) \<Longrightarrow> ([], h) \<in> set R"
  by (induction R rule: rev_induct) (auto simp: tails_snoc split: if_splits)

lemma route_spec_sound:
  "route_spec dec R params segs = Ok (Some (h, out)) \<Longrightarrow> \<exists>p. (p, h) \<in> set R \<and> pat_match dec p segs"
proof (induction segs arbitrary: R params)
  case Nil
  then have "h \<in> set (here R)" by (auto split: list.splits)
  then show ?case using in_here by force
next
  case (Cons seg segs)
  show ?case
  proof (cases "static_tails seg R = []")
    case False
    with Cons.prems have "route_spec dec (static_tails seg R) params segs = Ok (Some (h, out))" by simp
    from Cons.IH [OF this] obtain p where p: "(p, h) \<in> set (static_tails seg R)" "pat_match dec p segs" by blast
    then have "pat_match dec (seg # p) (seg # segs)" using in_static_tails [OF p(1)] by simp
    then show ?thesis using in_static_tails [OF p(1)] by blast
  next
    case True
    with Cons.prems obtain v where v: "dec seg = Some v"
      "route_spec dec (param_tails R) (map_set (List.hd (param_names R)) v params) segs = Ok (Some (h, out))"
      by (auto split: if_splits option.splits)
    from Cons.IH [OF v(2)] obtain p where p: "(p, h) \<in> set (param_tails R)" "pat_match dec p segs" by blast
    from in_param_tails [OF p(1)] obtain x where "is_param x" "(x # p, h) \<in> set R" by blast
    moreover from this p v have "pat_match dec (x # p) (seg # segs)" by simp
    ultimately show ?thesis by blast
  qed
qed

definition exact :: "string list \<Rightarrow> 'h routes \<Rightarrow> 'h list" where
  "exact segs R = List.map_filter (\<lambda>(p, h). if p = segs then Some h else None) R"

lemma exact_Cons: "\<not> is_param seg \<Longrightarrow> exact (seg # segs) R = exact segs (static_tails seg R)"
  by (induction R rule: rev_induct)
    (auto simp: exact_def map_filter_append List.map_filter_simps tails_snoc split: list.split)

lemma route_spec_static:
  "list_all (\<lambda>s. \<not> is_param s) segs \<Longrightarrow> exact segs R = h # hs \<Longrightarrow> route_spec dec R params segs = Ok (Some (h, params))"
proof (induction segs arbitrary: R)
  case Nil
  then have "here R = h # hs" by (simp add: exact_def here_def)
  then show ?case by simp
next
  case (Cons seg segs)
  then have ex: "exact segs (static_tails seg R) = h # hs" by (simp add: exact_Cons)
  then have "static_tails seg R \<noteq> []" by (auto simp: exact_def List.map_filter_simps)
  with Cons.IH [OF _ ex] Cons.prems show ?case by simp
qed

section \<open>Mountable routers\<close>

definition joinPath :: "string \<Rightarrow> string \<Rightarrow> string" where
  "joinPath pre path =
     (let a = (if endsWith pre ''/'' then butlast pre else pre);
          b = (if startsWith path ''/'' then path else CHR ''/'' # path);
          joined = a @ b
      in if startsWith joined ''/'' then joined else CHR ''/'' # joined)"

record ('m) layer =
  layer_path :: "string option"
  layer_handle :: 'm
  layer_isError :: bool

text \<open>Middleware functions carry their arity; four or more parameters make error middleware.\<close>

record 'm mw_fn =
  mw_arity :: nat
  mw_fun :: 'm

definition middlewareLayer :: "'m mw_fn \<Rightarrow> string option \<Rightarrow> 'm layer" where
  "middlewareLayer f path = \<lparr>layer_path = path, layer_handle = mw_fun f, layer_isError = (mw_arity f \<ge> 4)\<rparr>"

datatype ('h, 'm) router =
  Router (r_routes: "(string \<times> string \<times> 'h) list") (r_middleware: "'m layer list")
    (r_mounts: "(string \<times> ('h, 'm) router) list")

definition empty_router :: "('h, 'm) router" where
  "empty_router = Router [] [] []"

definition route_to :: "string \<Rightarrow> string \<Rightarrow> 'h \<Rightarrow> ('h, 'm) router \<Rightarrow> ('h, 'm) router" where
  "route_to meth path h r = Router (r_routes r @ [(meth, path, h)]) (r_middleware r) (r_mounts r)"

definition use_router :: "string \<Rightarrow> ('h, 'm) router \<Rightarrow> ('h, 'm) router \<Rightarrow> ('h, 'm) router" where
  "use_router pre sub r = Router (r_routes r) (r_middleware r) (r_mounts r @ [(pre, sub)])"

definition use_middleware :: "string option \<Rightarrow> 'm mw_fn list \<Rightarrow> ('h, 'm) router \<Rightarrow> (string, ('h, 'm) router) res" where
  "use_middleware path fns r =
     (if fns = [] then Throw ''router.use() expects at least one middleware function''
      else Ok (Router (r_routes r) (r_middleware r @ map (\<lambda>f. middlewareLayer f path) fns) (r_mounts r)))"

definition mount_layer :: "string \<Rightarrow> 'm layer \<Rightarrow> 'm layer" where
  "mount_layer pre m = m\<lparr>layer_path :=
     (case layer_path m of
        Some p \<Rightarrow> if p \<noteq> [] then Some (joinPath pre p) else if pre = ''/'' then None else Some pre
      | None \<Rightarrow> if pre = ''/'' then None else Some pre)\<rparr>"

fun collect :: "string \<Rightarrow> ('h, 'm) router \<Rightarrow> (string \<times> string \<times> 'h) list \<times> 'm layer list" where
  "collect pre (Router routes mws mounts) =
     (let nested = map (\<lambda>(sub, r). collect (joinPath pre sub) r) mounts
      in (map (\<lambda>(m, p, h). (m, joinPath pre p, h)) routes @ concat (map fst nested),
          map (mount_layer pre) mws @ concat (map snd nested)))"

text \<open>\<open>pathMatches\<close> of \<open>express.ts\<close>: whether a mount path covers a request path.\<close>

definition pathMatches :: "string \<Rightarrow> string \<Rightarrow> bool" where
  "pathMatches mount path \<longleftrightarrow>
     (if mount = ''/'' \<or> mount = [] then True
      else let m = (if endsWith mount ''/'' then butlast mount else mount)
           in path = m \<or> startsWith path (m @ ''/''))"

lemma path_segs_append: "path_segs (a @ CHR ''/'' # b) = path_segs a @ path_segs b"
  by (simp add: path_segs_def split_on_append_sep)

lemma path_segs_snoc: "path_segs (a @ [CHR ''/'']) = path_segs a"
  using path_segs_append [of a "[]"] by simp

lemma path_segs_slash_join: "startsWith b ''/'' \<Longrightarrow> path_segs (a @ b) = path_segs a @ path_segs b"
  by (auto simp: startsWith_iff path_segs_append)

lemma endsWith_slash: "endsWith p ''/'' \<Longrightarrow> p = butlast p @ [CHR ''/'']"
  by (auto simp: endsWith_iff)

lemma path_segs_strip: "path_segs (if endsWith p ''/'' then butlast p else p) = path_segs p"
  using endsWith_slash [of p] path_segs_snoc [of "butlast p"] by auto

lemma path_segs_joinPath: "path_segs (joinPath pre path) = path_segs pre @ path_segs path"
proof -
  let ?a = "if endsWith pre ''/'' then butlast pre else pre"
  let ?b = "if startsWith path ''/'' then path else CHR ''/'' # path"
  have "path_segs (?a @ ?b) = path_segs ?a @ path_segs ?b"
    by (rule path_segs_slash_join) simp
  moreover have "path_segs ?b = path_segs path" by simp
  ultimately show ?thesis
    using path_segs_strip [of pre] by (auto simp: joinPath_def Let_def split: if_splits)
qed

lemma joinPath_absolute: "startsWith (joinPath pre path) ''/''"
  by (simp add: joinPath_def Let_def)

text \<open>The routes a router contributes, by segments: those of each mount below its mount path.\<close>

fun router_segs :: "string list \<Rightarrow> ('h, 'm) router \<Rightarrow> (string \<times> string list \<times> 'h) list" where
  "router_segs base (Router routes mws mounts) =
     map (\<lambda>(m, p, h). (m, base @ path_segs p, h)) routes @
     concat (map (\<lambda>(sub, r). router_segs (base @ path_segs sub) r) mounts)"

lemma collect_segs:
  "map (\<lambda>(m, p, h). (m, path_segs p, h)) (fst (collect pre r)) = router_segs (path_segs pre) r"
proof (induction pre r rule: collect.induct)
  case (1 pre routes mws mounts)
  have "map (\<lambda>(m, p, h). (m, path_segs p, h)) (concat (map fst (map (\<lambda>(sub, r). collect (joinPath pre sub) r) mounts))) =
     concat (map (\<lambda>(sub, r). router_segs (path_segs pre @ path_segs sub) r) mounts)"
    using 1 by (induction mounts) (auto simp: path_segs_joinPath)
  then show ?case by (auto simp: Let_def path_segs_joinPath)
qed

section \<open>The interface of a route table\<close>

text \<open>
  What the HTTP layer relies on: a match is a registered route of the request's method whose pattern
  fits the path, and a path registered literally is answered by its first registration.
\<close>

locale route_table =
  fixes build :: "(string \<times> string \<times> 'h) list \<Rightarrow> 't"
    and find :: "'t \<Rightarrow> string \<Rightarrow> string \<Rightarrow> (route_error, 'h matched) res"
    and fits :: "string list \<Rightarrow> string list \<Rightarrow> bool"
  assumes find_sound: "find (build rs) meth path = Ok (Some (h, ps)) \<Longrightarrow>
      \<exists>p. (p, h) \<in> set (routes_for meth rs) \<and> fits p (path_segs path)"
    and find_literal: "list_all (\<lambda>s. \<not> is_param s) (path_segs path) \<Longrightarrow>
      exact (path_segs path) (routes_for meth rs) = h # hs \<Longrightarrow> find (build rs) meth path = Ok (Some (h, []))"
begin

lemma earlier_registration_wins:
  assumes "list_all (\<lambda>s. \<not> is_param s) (path_segs path)" and "startsWith path ''/''"
    and "exact (path_segs path) (routes_for (toUpperCase m) before) = []"
  shows "find (build (before @ (m, path, h) # after)) (toUpperCase m) path = Ok (Some (h, []))"
proof (rule find_literal [OF assms(1)])
  show "exact (path_segs path) (routes_for (toUpperCase m) (before @ (m, path, h) # after)) =
      h # exact (path_segs path) (routes_for (toUpperCase m) after)"
    using assms(2,3) by (simp add: routes_for_def exact_def map_filter_append List.map_filter_simps)
qed

lemma unregistered_method:
  assumes "routes_for meth rs = []" and "find (build rs) meth path = Ok r"
  shows "r = None"
proof (cases r)
  case (Some hp)
  with find_sound [of rs meth path "fst hp" "snd hp"] assms show ?thesis by simp
qed

end

interpretation trie: route_table register "router_match dec" "pat_match dec"
proof unfold_locales
  fix rs :: "(string \<times> string \<times> 'a) list" and meth path h ps
  assume "router_match dec (register rs) meth path = Ok (Some (h, ps))"
  then show "\<exists>p. (p, h) \<in> set (routes_for meth rs) \<and> pat_match dec p (path_segs path)"
    by (auto simp: router_match_spec dest: route_spec_sound)
next
  fix rs :: "(string \<times> string \<times> 'a) list" and meth path h hs
  assume "list_all (\<lambda>s. \<not> is_param s) (path_segs path)" "exact (path_segs path) (routes_for meth rs) = h # hs"
  then show "router_match dec (register rs) meth path = Ok (Some (h, []))"
    by (simp add: router_match_spec route_spec_static)
qed

section \<open>Properties\<close>

text \<open>
  C26: the trie router implements its specification: for every sequence of registrations and every
  request, the walk down the trie gives what the list of registered routes prescribes (at each
  segment the literal routes as a group before the parameter routes, the first registration at the
  end), including the parameters it binds and the malformed escapes it rejects.
\<close>

theorem router_refines:
  "router_match dec (register rs) meth path = route_spec dec (routes_for meth rs) [] (path_segs path)"
  by (rule router_match_spec)

text \<open>
  routing is sound. A handler the router returns was registered for the request's method with a
  pattern that fits the request path segment by segment.
\<close>

theorem router_sound:
  assumes "router_match dec (register rs) meth path = Ok (Some (h, params))"
  shows "\<exists>m p. (m, p, h) \<in> set rs \<and> toUpperCase m = meth \<and> pat_match dec (path_segs p) (path_segs path)"
  using trie.find_sound [OF assms] by (auto simp: routes_for_def List.map_filter_def split: if_splits) blast

theorem router_sound_witness:
  "\<exists>m p. (m, p, 7 :: nat) \<in> set [(''get'', ''/u/:id'', 7), (''post'', ''/u'', 8)] \<and> toUpperCase m = ''GET'' \<and>
     pat_match Some (path_segs p) (path_segs ''/u/42'')"
proof (rule router_sound)
  show "router_match Some (register [(''get'', ''/u/:id'', 7 :: nat), (''post'', ''/u'', 8)]) ''GET'' ''/u/42'' =
      Ok (Some (7, [(''id'', ''42'')]))" by code_simp
qed

text \<open>
  A literal route wins. Once a path without parameters is registered for a method, whatever is
  registered after it (the built-in health probes in particular) and whatever parameter routes came
  before it, a request for that path reaches this handler unless the same path was registered earlier.
\<close>

theorem literal_route_wins:
  assumes "list_all (\<lambda>s. \<not> is_param s) (path_segs path)" and "startsWith path ''/''"
    and "exact (path_segs path) (routes_for (toUpperCase m) before) = []"
  shows "router_match dec (register (before @ (m, path, h) # after)) (toUpperCase m) path = Ok (Some (h, []))"
  by (rule trie.earlier_registration_wins [OF assms])

theorem literal_route_wins_witness:
  "router_match Some (register ([(''GET'', ''/:any'', 1 :: nat)] @ (''get'', ''/healthz'', 2) # [(''GET'', ''/healthz'', 3)]))
     (toUpperCase ''get'') ''/healthz'' = Ok (Some (2, []))"
proof (rule literal_route_wins)
  show "list_all (\<lambda>s. \<not> is_param s) (path_segs ''/healthz'')" by code_simp
  show "startsWith ''/healthz'' ''/''" by simp
  show "exact (path_segs ''/healthz'') (routes_for (toUpperCase ''get'') [(''GET'', ''/:any'', 1 :: nat)]) = []" by code_simp
qed

lemma collect_absolute: "(m, p, h) \<in> set (fst (collect pre r)) \<Longrightarrow> startsWith p ''/''"
  by (induction pre r rule: collect.induct) (auto simp: Let_def joinPath_absolute)

text \<open>
  Mounting composes paths. The routes a router contributes at a prefix are, in order, its own
  routes below the prefix and those of the routers mounted in it below the prefix and the mount path,
  at every depth, and each is an absolute path the trie accepts.
\<close>

theorem mount_composes:
  "map (\<lambda>(m, p, h). (m, path_segs p, h)) (fst (collect pre r)) = router_segs (path_segs pre) r \<and>
   list_all (\<lambda>(m, p, h). startsWith p ''/'') (fst (collect pre r))"
  by (auto simp: collect_segs list_all_iff collect_absolute)

text \<open>
  No backtracking: once a literal child exists the parameter branch is not tried, so a request that a
  registered pattern fits is not found.
\<close>

lemma param_route_shadowed:
  "router_match Some (register [(''GET'', ''/users/me/settings'', 1 :: nat), (''GET'', ''/users/:id/profile'', 2)])
     ''GET'' ''/users/me/profile'' = Ok None \<and>
   pat_match Some (path_segs ''/users/:id/profile'') (path_segs ''/users/me/profile'')"
  by code_simp

text \<open>A parameter is bound under the name of the first route registered at its position.\<close>

lemma param_name_of_other_route:
  "router_match Some (register [(''GET'', ''/users/:id'', 1 :: nat), (''GET'', ''/users/:uid/posts'', 2)])
     ''GET'' ''/users/7/posts'' = Ok (Some (2, [(''id'', ''7'')]))"
  by code_simp

text \<open>A literal route registered later beats a parameter route registered first.\<close>

lemma literal_beats_earlier_param:
  "router_match Some (register [(''GET'', ''/u/:id'', 1 :: nat), (''GET'', ''/u/me'', 2)]) ''GET'' ''/u/me'' = Ok (Some (2, []))"
  by code_simp

text \<open>
  The router ignores empty segments, the mount path test of middleware does not: a doubled slash
  reaches a route without the middleware mounted above it.
\<close>

lemma doubled_slash_escapes_mount:
  "pathMatches ''/api/admin'' ''/api/admin/x'' \<and> \<not> pathMatches ''/api/admin'' ''/api//admin/x'' \<and>
   router_match Some (register [(''GET'', ''/api/admin/x'', 1 :: nat)]) ''GET'' ''/api//admin/x'' = Ok (Some (1, []))"
  by code_simp

end
