(* ===== verification/Middleware_Chain.thy ===== *)
theory Middleware_Chain
  imports Routing
begin

text \<open>
  The middleware chain of \<open>packages/zenzip/src/express.ts\<close> (\<open>runMiddleware\<close>). A handler is user code
  that acts on the exchange (request and response), calls \<open>next()\<close> or \<open>next(err)\<close>, and returns or
  throws; it is the list of these actions, computed from the exchange it is called on, with the error
  it throws at the end, if any. \<open>next\<close> and \<open>handleError\<close> call handlers, which call them again: they
  take fuel, and \<open>chain_fuel\<close> is proved to be enough.
\<close>

section \<open>Handlers and the state of the chain\<close>

datatype ('x, 'e) act = Eff "'x \<Rightarrow> 'x" | Next | NextErr 'e

type_synonym ('x, 'e) handler = "'e option \<Rightarrow> 'x \<Rightarrow> ('x, 'e) act list \<times> 'e option"

datatype 'e mw_event = RanLayer nat | RanError nat 'e | Dispatched | Final 'e

record ('x, 'e) chain =
  ch_i :: nat
  ch_ei :: nat
  ch_dispatched :: bool
  ch_erroring :: bool
  ch_x :: 'x
  ch_trace :: "'e mw_event list"
  ch_stuck :: bool

text \<open>
  What the chain is given: the layers, the request path, the dispatcher (what the route handler does to
  the exchange, \<open>NextErr\<close> being its \<open>onError\<close>), and the final error writer.
\<close>

record ('x, 'e) chain_env =
  env_layers :: "('x, 'e) handler layer list"
  env_path :: string
  env_dispatch :: "'x \<Rightarrow> ('x, 'e) act list \<times> 'e option"
  env_final :: "'e \<Rightarrow> 'x \<Rightarrow> 'x"

definition applies :: "string \<Rightarrow> 'm layer \<Rightarrow> bool" where
  "applies path l = (case layer_path l of None \<Rightarrow> True | Some p \<Rightarrow> p = [] \<or> pathMatches p path)"

text \<open>The scan of both loops: the first index from \<open>i\<close> on whose layer is of the given kind and applies.\<close>

function find_layer :: "('x, 'e) chain_env \<Rightarrow> bool \<Rightarrow> nat \<Rightarrow> nat option" where
  "find_layer env isErr i =
     (if i < length (env_layers env) then
        (let l = env_layers env ! i in
         if layer_isError l = isErr \<and> applies (env_path env) l then Some i else find_layer env isErr (i + 1))
      else None)"
  by pat_completeness auto
termination by (relation "measure (\<lambda>(env, isErr, i). length (env_layers env) - i)") auto

declare find_layer.simps [simp del]

abbreviation note_event :: "'e mw_event \<Rightarrow> ('x, 'e) chain \<Rightarrow> ('x, 'e) chain" where
  "note_event ev s \<equiv> s\<lparr>ch_trace := ch_trace s @ [ev]\<rparr>"

section \<open>The chain\<close>

function call_next :: "('x, 'e) chain_env \<Rightarrow> nat \<Rightarrow> ('x, 'e) chain \<Rightarrow> ('x, 'e) chain"
  and handle_error :: "('x, 'e) chain_env \<Rightarrow> nat \<Rightarrow> 'e \<Rightarrow> ('x, 'e) chain \<Rightarrow> ('x, 'e) chain"
  and run_acts :: "('x, 'e) chain_env \<Rightarrow> nat \<Rightarrow> ('x, 'e) act list \<Rightarrow> 'e option \<Rightarrow> ('x, 'e) chain \<Rightarrow> ('x, 'e) chain" where
  "call_next env 0 s = s\<lparr>ch_stuck := True\<rparr>"
| "call_next env (Suc f) s =
     (if ch_erroring s then s
      else case find_layer env False (ch_i s) of
        Some j \<Rightarrow>
          (let (acts, thrown) = layer_handle (env_layers env ! j) None (ch_x s)
           in run_acts env f acts thrown (note_event (RanLayer j) (s\<lparr>ch_i := j + 1\<rparr>)))
      | None \<Rightarrow>
          (let s1 = s\<lparr>ch_i := length (env_layers env)\<rparr> in
           if ch_dispatched s1 then s1
           else let (acts, thrown) = env_dispatch env (ch_x s1)
                in run_acts env f acts thrown (note_event Dispatched (s1\<lparr>ch_dispatched := True\<rparr>))))"
| "handle_error env 0 e s = s\<lparr>ch_stuck := True\<rparr>"
| "handle_error env (Suc f) e s =
     (let s1 = s\<lparr>ch_erroring := True\<rparr> in
      case find_layer env True (ch_ei s1) of
        Some j \<Rightarrow>
          (let (acts, thrown) = layer_handle (env_layers env ! j) (Some e) (ch_x s1)
           in run_acts env f acts thrown (note_event (RanError j e) (s1\<lparr>ch_ei := j + 1\<rparr>)))
      | None \<Rightarrow>
          note_event (Final e) (s1\<lparr>ch_ei := length (env_layers env), ch_x := env_final env e (ch_x s1)\<rparr>))"
| "run_acts env f [] thrown s = (case thrown of None \<Rightarrow> s | Some e \<Rightarrow> handle_error env f e s)"
| "run_acts env f (Eff g # acts) thrown s = run_acts env f acts thrown (s\<lparr>ch_x := g (ch_x s)\<rparr>)"
| "run_acts env f (Next # acts) thrown s = run_acts env f acts thrown (call_next env f s)"
| "run_acts env f (NextErr e # acts) thrown s = run_acts env f acts thrown (handle_error env f e s)"
  by pat_completeness auto

termination
  by (relation "measures
      [\<lambda>a. case a of Inl (_, f, _) \<Rightarrow> f | Inr (Inl (_, f, _, _)) \<Rightarrow> f | Inr (Inr (_, f, _, _, _)) \<Rightarrow> f,
       \<lambda>a. case a of Inr (Inr (_, _, acts, _, _)) \<Rightarrow> Suc (length acts) | _ \<Rightarrow> 0]") auto

definition chain_start :: "'x \<Rightarrow> ('x, 'e) chain" where
  "chain_start x = \<lparr>ch_i = 0, ch_ei = 0, ch_dispatched = False, ch_erroring = False, ch_x = x, ch_trace = [], ch_stuck = False\<rparr>"

definition chain_fuel :: "('x, 'e) chain_env \<Rightarrow> nat" where
  "chain_fuel env = 2 * length (env_layers env) + 3"

definition runMiddleware :: "('x, 'e) chain_env \<Rightarrow> 'x \<Rightarrow> ('x, 'e) chain" where
  "runMiddleware env x = call_next env (chain_fuel env) (chain_start x)"

section \<open>The fuel is enough\<close>

lemma find_layer_Some:
  "find_layer env isErr i = Some j \<Longrightarrow>
     i \<le> j \<and> j < length (env_layers env) \<and> layer_isError (env_layers env ! j) = isErr \<and>
     applies (env_path env) (env_layers env ! j)"
proof (induction env isErr i rule: find_layer.induct)
  case (1 env isErr i)
  show ?case
  proof (cases "i < length (env_layers env) \<and> \<not> (layer_isError (env_layers env ! i) = isErr \<and>
      applies (env_path env) (env_layers env ! i))")
    case True
    with "1.prems" have "find_layer env isErr (i + 1) = Some j"
      by (subst (asm) find_layer.simps) (auto simp: Let_def)
    with "1.IH" True show ?thesis by auto
  next
    case False
    with "1.prems" show ?thesis by (subst (asm) find_layer.simps) (auto simp: Let_def split: if_splits)
  qed
qed

definition todo :: "('x, 'e) chain_env \<Rightarrow> ('x, 'e) chain \<Rightarrow> nat" where
  "todo env s = (length (env_layers env) - ch_i s) + (length (env_layers env) - ch_ei s) + (if ch_dispatched s then 0 else 1)"

definition later :: "('x, 'e) chain_env \<Rightarrow> ('x, 'e) chain \<Rightarrow> ('x, 'e) chain \<Rightarrow> bool" where
  "later env s s' \<longleftrightarrow> \<not> ch_stuck s' \<and> ch_i s \<le> ch_i s' \<and> ch_ei s \<le> ch_ei s' \<and>
     (ch_dispatched s \<longrightarrow> ch_dispatched s') \<and> (ch_erroring s \<longrightarrow> ch_erroring s')"

lemma later_todo: "later env s s' \<Longrightarrow> todo env s' \<le> todo env s"
  by (auto simp: later_def todo_def intro: add_mono diff_le_mono2)

lemma later_trans: "later env a b \<Longrightarrow> later env b c \<Longrightarrow> later env a c"
  by (auto simp: later_def)

lemma later_refl: "\<not> ch_stuck s \<Longrightarrow> later env s s"
  by (simp add: later_def)

lemma later_from:
  "later env b c \<Longrightarrow> ch_i a \<le> ch_i b \<Longrightarrow> ch_ei a \<le> ch_ei b \<Longrightarrow> (ch_dispatched a \<Longrightarrow> ch_dispatched b) \<Longrightarrow>
     (ch_erroring a \<Longrightarrow> ch_erroring b) \<Longrightarrow> later env a c"
  by (auto simp: later_def)

definition fit :: "('x, 'e) chain_env \<Rightarrow> nat \<Rightarrow> ('x, 'e) chain \<Rightarrow> bool" where
  "fit env f s \<longleftrightarrow> todo env s < f \<and> \<not> ch_stuck s \<and> ch_i s \<le> length (env_layers env) \<and> ch_ei s \<le> length (env_layers env)"

text \<open>What a call from a fit state leaves: a later state that is fit for the same fuel.\<close>

definition goes :: "('x, 'e) chain_env \<Rightarrow> nat \<Rightarrow> ('x, 'e) chain \<Rightarrow> ('x, 'e) chain \<Rightarrow> bool" where
  "goes env f s s' \<longleftrightarrow> later env s s' \<and> fit env f s'"

lemma goes_trans: "goes env f a b \<Longrightarrow> goes env f b c \<Longrightarrow> goes env f a c"
  by (auto simp: goes_def intro: later_trans)

lemma goes_from:
  assumes "goes env f b c" and "fit env (Suc f) a" and "ch_i a \<le> ch_i b" and "ch_ei a \<le> ch_ei b"
    and "ch_dispatched a \<Longrightarrow> ch_dispatched b" and "ch_erroring a \<Longrightarrow> ch_erroring b"
  shows "goes env (Suc f) a c"
  using assms later_from [of env b c a] by (auto simp: goes_def fit_def)

lemma run_acts_goes:
  assumes N: "\<And>s. fit env f s \<Longrightarrow> goes env f s (call_next env f s)"
    and H: "\<And>e s. fit env f s \<Longrightarrow> goes env f s (handle_error env f e s)"
  shows "fit env f s \<Longrightarrow> goes env f s (run_acts env f acts thrown s)"
proof (induction acts arbitrary: s)
  case Nil
  then show ?case using H by (cases thrown) (auto simp: goes_def fit_def later_def)
next
  case (Cons a acts)
  show ?case
  proof (cases a)
    case (Eff g)
    let ?t = "s\<lparr>ch_x := g (ch_x s)\<rparr>"
    have "goes env f s ?t" using Cons.prems by (auto simp: goes_def fit_def later_def todo_def)
    then show ?thesis using Cons.IH [of ?t] Eff by (auto simp: goes_def intro: later_trans)
  next
    case Next
    then show ?thesis using N [OF Cons.prems] Cons.IH [of "call_next env f s"]
      by (auto intro: goes_trans simp: goes_def intro: later_trans)
  next
    case (NextErr e)
    then show ?thesis using H [OF Cons.prems, of e] Cons.IH [of "handle_error env f e s"]
      by (auto intro: goes_trans simp: goes_def intro: later_trans)
  qed
qed

lemma chain_goes:
  "(\<forall>s. fit env f s \<longrightarrow> goes env f s (call_next env f s)) \<and> (\<forall>e s. fit env f s \<longrightarrow> goes env f s (handle_error env f e s))"
proof (induction f)
  case 0
  then show ?case by (simp add: fit_def)
next
  case (Suc f)
  have R: "fit env f s \<Longrightarrow> goes env f s (run_acts env f acts thrown s)" for s acts thrown
    by (rule run_acts_goes) (use Suc in auto)
  have "goes env (Suc f) s (call_next env (Suc f) s)" if s: "fit env (Suc f) s" for s
  proof -
    consider "ch_erroring s" | j where "\<not> ch_erroring s" "find_layer env False (ch_i s) = Some j"
      | "\<not> ch_erroring s" "find_layer env False (ch_i s) = None" "ch_dispatched s"
      | "\<not> ch_erroring s" "find_layer env False (ch_i s) = None" "\<not> ch_dispatched s" by (cases "find_layer env False (ch_i s)") auto
    then show ?thesis
    proof cases
      case (2 j)
      obtain acts thrown where h: "layer_handle (env_layers env ! j) None (ch_x s) = (acts, thrown)" by fastforce
      let ?t = "note_event (RanLayer j) (s\<lparr>ch_i := j + 1\<rparr>)"
      note j = find_layer_Some [OF 2(2)]
      have "fit env f ?t" using s j by (auto simp: fit_def todo_def split: if_splits)
      from goes_from [OF R [OF this] s] j h 2 show ?thesis by simp
    next
      case 4
      obtain acts thrown where d: "env_dispatch env (ch_x s) = (acts, thrown)" by fastforce
      let ?t = "note_event Dispatched (s\<lparr>ch_i := length (env_layers env), ch_dispatched := True\<rparr>)"
      have "fit env f ?t" using s 4 by (auto simp: fit_def todo_def)
      from goes_from [OF R [OF this] s] s d 4 show ?thesis by (simp add: fit_def)
    qed (use s in \<open>auto simp: goes_def fit_def later_def todo_def\<close>)
  qed
  moreover have "goes env (Suc f) s (handle_error env (Suc f) e s)" if s: "fit env (Suc f) s" for s e
  proof (cases "find_layer env True (ch_ei s)")
    case None
    then show ?thesis using s by (auto simp: goes_def fit_def later_def todo_def Let_def)
  next
    case (Some j)
    obtain acts thrown where h: "layer_handle (env_layers env ! j) (Some e) (ch_x s) = (acts, thrown)" by fastforce
    let ?t = "note_event (RanError j e) (s\<lparr>ch_erroring := True, ch_ei := j + 1\<rparr>)"
    note j = find_layer_Some [OF Some]
    have "fit env f ?t" using s j by (auto simp: fit_def todo_def split: if_splits)
    from goes_from [OF R [OF this] s] j h Some show ?thesis by (simp add: Let_def)
  qed
  ultimately show ?case by blast
qed

lemma runMiddleware_not_stuck: "\<not> ch_stuck (runMiddleware env x)"
proof -
  have "fit env (chain_fuel env) (chain_start x)" by (simp add: fit_def todo_def chain_fuel_def chain_start_def)
  then show ?thesis using chain_goes [of env "chain_fuel env"] by (auto simp: runMiddleware_def goes_def fit_def)
qed

section \<open>Invariants of the chain\<close>

text \<open>
  A property that every elementary move of the chain keeps holds after any call: the locale proves
  this once for \<open>next\<close>, \<open>handleError\<close> and handler bodies.
\<close>

locale chain_invariant =
  fixes env :: "('x, 'e) chain_env" and P :: "('x, 'e) chain \<Rightarrow> bool"
  assumes keep_x: "P s \<Longrightarrow> P (s\<lparr>ch_x := x\<rparr>)"
    and keep_stuck: "P s \<Longrightarrow> P (s\<lparr>ch_stuck := True\<rparr>)"
    and keep_layer: "P s \<Longrightarrow> \<not> ch_erroring s \<Longrightarrow> find_layer env False (ch_i s) = Some j \<Longrightarrow>
      P (note_event (RanLayer j) (s\<lparr>ch_i := j + 1\<rparr>))"
    and keep_end: "P s \<Longrightarrow> \<not> ch_erroring s \<Longrightarrow> find_layer env False (ch_i s) = None \<Longrightarrow> P (s\<lparr>ch_i := length (env_layers env)\<rparr>)"
    and keep_dispatch: "P s \<Longrightarrow> \<not> ch_erroring s \<Longrightarrow> \<not> ch_dispatched s \<Longrightarrow> P (note_event Dispatched (s\<lparr>ch_dispatched := True\<rparr>))"
    and keep_error: "P s \<Longrightarrow> P (s\<lparr>ch_erroring := True\<rparr>)"
    and keep_error_layer: "P s \<Longrightarrow> ch_erroring s \<Longrightarrow> find_layer env True (ch_ei s) = Some j \<Longrightarrow>
      P (note_event (RanError j e) (s\<lparr>ch_ei := j + 1\<rparr>))"
    and keep_final: "P s \<Longrightarrow> ch_erroring s \<Longrightarrow> P (note_event (Final e) (s\<lparr>ch_ei := length (env_layers env), ch_x := x\<rparr>))"
begin

lemma run_acts_keeps:
  assumes "\<And>s. P s \<Longrightarrow> P (call_next env f s)" and "\<And>e s. P s \<Longrightarrow> P (handle_error env f e s)"
  shows "P s \<Longrightarrow> P (run_acts env f acts thrown s)"
proof (induction acts arbitrary: s)
  case Nil
  then show ?case using assms(2) by (cases thrown) auto
next
  case (Cons a acts)
  then show ?case using assms keep_x by (cases a) auto
qed

lemma chain_keeps: "(\<forall>s. P s \<longrightarrow> P (call_next env f s)) \<and> (\<forall>e s. P s \<longrightarrow> P (handle_error env f e s))"
proof (induction f)
  case 0
  then show ?case by (auto intro: keep_stuck)
next
  case (Suc f)
  have R: "P s \<Longrightarrow> P (run_acts env f acts thrown s)" for s acts thrown
    by (rule run_acts_keeps) (use Suc in auto)
  have "P (call_next env (Suc f) s)" if s: "P s" for s
  proof (cases "ch_erroring s")
    case False
    show ?thesis
    proof (cases "find_layer env False (ch_i s)")
      case None
      have "P (s\<lparr>ch_i := length (env_layers env)\<rparr>)" by (rule keep_end [OF s False None])
      then show ?thesis
        using None False R [OF keep_dispatch [of "s\<lparr>ch_i := length (env_layers env)\<rparr>"]]
        by (auto simp: Let_def split: prod.split)
    next
      case (Some j)
      then show ?thesis using R [OF keep_layer [OF s False Some]] False by (auto split: prod.split)
    qed
  qed (use s in simp)
  moreover have "P (handle_error env (Suc f) e s)" if s: "P s" for e s
  proof (cases "find_layer env True (ch_ei s)")
    case None
    then show ?thesis using keep_final [OF keep_error [OF s]] by (simp add: Let_def)
  next
    case (Some j)
    then show ?thesis using R [OF keep_error_layer [OF keep_error [OF s]]] by (auto simp: Let_def split: prod.split)
  qed
  ultimately show ?case by blast
qed

lemma runMiddleware_keeps: "P (chain_start x) \<Longrightarrow> P (runMiddleware env x)"
  using chain_keeps [of "chain_fuel env"] by (simp add: runMiddleware_def)

end

text \<open>The layers that ran, by kind, and how often the route was dispatched.\<close>

definition layers_run :: "'e mw_event list \<Rightarrow> nat list" where
  "layers_run tr = List.map_filter (\<lambda>ev. case ev of RanLayer j \<Rightarrow> Some j | _ \<Rightarrow> None) tr"

definition errors_run :: "'e mw_event list \<Rightarrow> nat list" where
  "errors_run tr = List.map_filter (\<lambda>ev. case ev of RanError j _ \<Rightarrow> Some j | _ \<Rightarrow> None) tr"

definition dispatches :: "'e mw_event list \<Rightarrow> nat" where
  "dispatches tr = length (filter (\<lambda>ev. case ev of Dispatched \<Rightarrow> True | _ \<Rightarrow> False) tr)"

definition runs_ok :: "('x, 'e) chain_env \<Rightarrow> bool \<Rightarrow> nat list \<Rightarrow> nat \<Rightarrow> bool" where
  "runs_ok env isErr js i \<longleftrightarrow> sorted_wrt (<) js \<and>
     (\<forall>j \<in> set js. j < i \<and> j < length (env_layers env) \<and> layer_isError (env_layers env ! j) = isErr \<and>
        applies (env_path env) (env_layers env ! j))"

definition trace_ok :: "('x, 'e) chain_env \<Rightarrow> ('x, 'e) chain \<Rightarrow> bool" where
  "trace_ok env s \<longleftrightarrow> runs_ok env False (layers_run (ch_trace s)) (ch_i s) \<and>
     runs_ok env True (errors_run (ch_trace s)) (ch_ei s) \<and>
     dispatches (ch_trace s) = (if ch_dispatched s then 1 else 0)"

lemma events_snoc:
  "layers_run (tr @ [ev]) = layers_run tr @ (case ev of RanLayer j \<Rightarrow> [j] | _ \<Rightarrow> [])"
  "errors_run (tr @ [ev]) = errors_run tr @ (case ev of RanError j _ \<Rightarrow> [j] | _ \<Rightarrow> [])"
  "dispatches (tr @ [ev]) = dispatches tr + (case ev of Dispatched \<Rightarrow> 1 | _ \<Rightarrow> 0)"
  by (auto simp: layers_run_def errors_run_def dispatches_def map_filter_append List.map_filter_simps split: mw_event.split)

lemma runs_ok_mono: "runs_ok env b js i \<Longrightarrow> i \<le> k \<Longrightarrow> runs_ok env b js k"
  by (auto simp: runs_ok_def)

lemma runs_ok_bound: "runs_ok env b js i \<Longrightarrow> runs_ok env b js (length (env_layers env))"
  by (auto simp: runs_ok_def)

lemma runs_ok_snoc: "runs_ok env b js i \<Longrightarrow> find_layer env b i = Some j \<Longrightarrow> runs_ok env b (js @ [j]) (Suc j)"
  using find_layer_Some [of env b i j] by (auto simp: runs_ok_def sorted_wrt_append)

interpretation trace: chain_invariant env "trace_ok env"
  by unfold_locales
    (auto simp: trace_ok_def events_snoc intro: runs_ok_snoc runs_ok_bound)

text \<open>Once an error propagates the route is not dispatched any more.\<close>

interpretation erroring: chain_invariant env "\<lambda>s. ch_erroring s \<and> \<not> ch_dispatched s"
  by unfold_locales auto

section \<open>A layer that blocks\<close>

definition next_count :: "('x, 'e) act list \<Rightarrow> nat" where
  "next_count acts = length (filter (\<lambda>a. case a of Next \<Rightarrow> True | _ \<Rightarrow> False) acts)"

definition effs_keep :: "('x \<Rightarrow> bool) \<Rightarrow> ('x, 'e) act list \<Rightarrow> bool" where
  "effs_keep Q acts \<longleftrightarrow> list_all (\<lambda>a. case a of Eff f \<Rightarrow> (\<forall>x. Q x \<longrightarrow> Q (f x)) | _ \<Rightarrow> True) acts"

text \<open>
  A layer at \<open>g\<close> that, on exchanges with \<open>Q\<close>, never calls \<open>next()\<close>; the layers before it call it at
  most once and keep \<open>Q\<close>.
\<close>

definition guarded :: "('x, 'e) chain_env \<Rightarrow> nat \<Rightarrow> ('x \<Rightarrow> bool) \<Rightarrow> bool" where
  "guarded env g Q \<longleftrightarrow>
     g < length (env_layers env) \<and> \<not> layer_isError (env_layers env ! g) \<and> applies (env_path env) (env_layers env ! g) \<and>
     (\<forall>x. Q x \<longrightarrow> next_count (fst (layer_handle (env_layers env ! g) None x)) = 0) \<and>
     (\<forall>j < g. \<not> layer_isError (env_layers env ! j) \<longrightarrow> (\<forall>x. Q x \<longrightarrow>
        next_count (fst (layer_handle (env_layers env ! j) None x)) \<le> 1 \<and>
        effs_keep Q (fst (layer_handle (env_layers env ! j) None x))))"

lemma handle_error_undispatched: "\<not> ch_dispatched s \<Longrightarrow> \<not> ch_dispatched (handle_error env f e s)"
proof (cases f)
  case (Suc n)
  assume s: "\<not> ch_dispatched s"
  have "handle_error env f e s = handle_error env f e (s\<lparr>ch_erroring := True\<rparr>)" using Suc by (simp add: Let_def)
  then show ?thesis using s erroring.chain_keeps [of env f] by simp
qed simp

interpretation errors: chain_invariant env ch_erroring
  by unfold_locales auto

lemma handle_error_erroring: "0 < f \<Longrightarrow> ch_erroring (handle_error env f e s)"
proof -
  assume "0 < f"
  then have "handle_error env f e s = handle_error env f e (s\<lparr>ch_erroring := True\<rparr>)" by (cases f) (simp_all add: Let_def)
  then show ?thesis using errors.chain_keeps [of env f] by simp
qed

lemma no_next_undispatched:
  "next_count acts = 0 \<Longrightarrow> \<not> ch_dispatched s \<Longrightarrow> \<not> ch_dispatched (run_acts env f acts thrown s)"
proof (induction acts arbitrary: s)
  case Nil
  then show ?case by (cases thrown) (auto simp: handle_error_undispatched)
next
  case (Cons a acts)
  then show ?case by (cases a) (auto simp: next_count_def handle_error_undispatched)
qed

lemma find_layer_le:
  "i \<le> g \<Longrightarrow> g < length (env_layers env) \<Longrightarrow> layer_isError (env_layers env ! g) = isErr \<Longrightarrow>
     applies (env_path env) (env_layers env ! g) \<Longrightarrow> \<exists>j \<le> g. find_layer env isErr i = Some j"
proof (induction env isErr i rule: find_layer.induct)
  case (1 env isErr i)
  show ?case
  proof (cases "layer_isError (env_layers env ! i) = isErr \<and> applies (env_path env) (env_layers env ! i)")
    case True
    with "1.prems" show ?thesis by (subst find_layer.simps) (auto simp: Let_def)
  next
    case False
    with "1.prems" have "i \<noteq> g" by auto
    with "1.prems" have i: "i + 1 \<le> g" "i < length (env_layers env)" by auto
    with "1.IH" [OF i(2) refl False i(1)] "1.prems" have "\<exists>j \<le> g. find_layer env isErr (i + 1) = Some j" by auto
    moreover have "find_layer env isErr i = find_layer env isErr (i + 1)"
      using i(2) False by (subst find_layer.simps) (auto simp: Let_def)
    ultimately show ?thesis by simp
  qed
qed

text \<open>Before the blocking layer: not dispatched, and either an error propagates or \<open>Q\<close> still holds.\<close>

definition before :: "nat \<Rightarrow> ('x \<Rightarrow> bool) \<Rightarrow> ('x, 'e) chain \<Rightarrow> bool" where
  "before g Q s \<longleftrightarrow> \<not> ch_dispatched s \<and> (ch_erroring s \<or> ch_i s \<le> g \<and> Q (ch_x s))"

lemma once_next_undispatched:
  assumes N: "\<And>s. before g Q s \<Longrightarrow> \<not> ch_dispatched (call_next env f s)"
  shows "next_count acts \<le> 1 \<Longrightarrow> effs_keep Q acts \<Longrightarrow> before g Q s \<Longrightarrow> \<not> ch_dispatched (run_acts env f acts thrown s)"
proof (induction acts arbitrary: s)
  case Nil
  then show ?case by (cases thrown) (auto simp: handle_error_undispatched before_def)
next
  case (Cons a acts)
  show ?case
  proof (cases a)
    case (Eff h)
    then have "before g Q (s\<lparr>ch_x := h (ch_x s)\<rparr>)" using Cons.prems by (auto simp: before_def effs_keep_def)
    then show ?thesis using Cons Eff by (auto simp: next_count_def effs_keep_def)
  next
    case Next
    then have "next_count acts = 0" using Cons.prems(1) by (simp add: next_count_def)
    then show ?thesis using Next no_next_undispatched [OF _ N [OF Cons.prems(3)]] by simp
  next
    case (NextErr e)
    have "before g Q (handle_error env f e s)"
      using Cons.prems(3) handle_error_undispatched [of s env f e] handle_error_erroring [of f env e s]
      by (cases f) (auto simp: before_def)
    then show ?thesis using Cons NextErr by (auto simp: next_count_def effs_keep_def)
  qed
qed

lemma guarded_before:
  assumes "guarded env g Q" and "j < g" and "\<not> layer_isError (env_layers env ! j)" and "Q x"
    and "layer_handle (env_layers env ! j) None x = (acts, thrown)"
  shows "next_count acts \<le> 1 \<and> effs_keep Q acts"
proof -
  have "next_count (fst (layer_handle (env_layers env ! j) None x)) \<le> 1 \<and>
      effs_keep Q (fst (layer_handle (env_layers env ! j) None x))"
    using assms(1-4) unfolding guarded_def by blast
  with assms(5) show ?thesis by simp
qed

lemma guarded_undispatched: "guarded env g Q \<Longrightarrow> before g Q s \<Longrightarrow> \<not> ch_dispatched (call_next env f s)"
proof (induction f arbitrary: s)
  case 0
  then show ?case by (simp add: before_def)
next
  case (Suc f)
  show ?case
  proof (cases "ch_erroring s")
    case True
    then show ?thesis using Suc.prems by (simp add: before_def)
  next
    case False
    with Suc.prems have s: "ch_i s \<le> g" "Q (ch_x s)" "\<not> ch_dispatched s" by (auto simp: before_def)
    with Suc.prems(1) obtain j where j: "j \<le> g" "find_layer env False (ch_i s) = Some j"
      using find_layer_le [of "ch_i s" g env False] by (auto simp: guarded_def)
    obtain acts thrown where h: "layer_handle (env_layers env ! j) None (ch_x s) = (acts, thrown)" by fastforce
    let ?t = "note_event (RanLayer j) (s\<lparr>ch_i := j + 1\<rparr>)"
    have "\<not> ch_dispatched (run_acts env f acts thrown ?t)"
    proof (cases "j = g")
      case True
      with Suc.prems(1) s(2) h have "next_count acts = 0" by (auto simp: guarded_def)
      then show ?thesis by (rule no_next_undispatched) (simp add: s)
    next
      case no: False
      with j have "j < g" by simp
      then have acts: "next_count acts \<le> 1" "effs_keep Q acts"
        using guarded_before [OF Suc.prems(1) _ _ s(2) h] find_layer_Some [OF j(2)] by auto
      show ?thesis
        by (rule once_next_undispatched [OF Suc.IH [OF Suc.prems(1)] acts]) (use s j no in \<open>auto simp: before_def\<close>)
    qed
    with False j h show ?thesis by simp
  qed
qed

section \<open>Properties\<close>

text \<open>
  C27: the middleware chain is orderly. For every stack of middleware and every handler behaviour
  (calling \<open>next\<close> several times, throwing, failing inside error handlers) the chain comes to an end
  within its fuel, runs normal middleware in registration order, each at most once and only where its
  mount path covers the request, runs error middleware likewise in its own pass, and dispatches the
  route at most once.
\<close>

theorem chain_orderly:
  "\<not> ch_stuck (runMiddleware env x) \<and>
   sorted_wrt (<) (layers_run (ch_trace (runMiddleware env x))) \<and>
   sorted_wrt (<) (errors_run (ch_trace (runMiddleware env x))) \<and>
   dispatches (ch_trace (runMiddleware env x)) \<le> 1 \<and>
   list_all (\<lambda>j. \<not> layer_isError (env_layers env ! j) \<and> applies (env_path env) (env_layers env ! j))
     (layers_run (ch_trace (runMiddleware env x))) \<and>
   list_all (\<lambda>j. layer_isError (env_layers env ! j) \<and> applies (env_path env) (env_layers env ! j))
     (errors_run (ch_trace (runMiddleware env x)))"
proof -
  have "trace_ok env (chain_start x)"
    by (simp add: trace_ok_def chain_start_def runs_ok_def layers_run_def errors_run_def dispatches_def List.map_filter_simps)
  from trace.runMiddleware_keeps [OF this] runMiddleware_not_stuck [of env x] show ?thesis
    by (auto simp: trace_ok_def runs_ok_def list_all_iff)
qed

text \<open>
  C20: a blocking middleware protects the route. When a middleware that covers the request does not
  call \<open>next()\<close> on it (an authentication, CSRF, rate limit or validation check that rejects), and
  the middleware before it calls \<open>next()\<close> at most once and keeps what the check looks at, the
  route handler is never reached, whatever the error handlers and later middleware do.
\<close>

theorem guard_protects_route:
  assumes "guarded env g Q" and "Q x"
  shows "\<not> ch_dispatched (runMiddleware env x)"
  unfolding runMiddleware_def
  by (rule guarded_undispatched [OF assms(1)]) (simp add: before_def chain_start_def assms(2))

definition deny :: "(nat, string) handler" where
  "deny err x = ([Eff (\<lambda>_. 401)], None)"

definition pass :: "(nat, string) handler" where
  "pass err x = ([Next], None)"

definition demo_env :: "(nat, string) chain_env" where
  "demo_env = \<lparr>env_layers = [\<lparr>layer_path = None, layer_handle = pass, layer_isError = False\<rparr>,
       \<lparr>layer_path = Some ''/api'', layer_handle = deny, layer_isError = False\<rparr>],
     env_path = ''/api/x'', env_dispatch = (\<lambda>x. ([Eff (\<lambda>_. 200)], None)), env_final = (\<lambda>e x. 500)\<rparr>"

theorem guard_protects_route_witness: "\<not> ch_dispatched (runMiddleware demo_env 0)"
proof (rule guard_protects_route [where g = 1 and Q = "\<lambda>_. True"])
  have "pathMatches ''/api'' ''/api/x''" by code_simp
  then show "guarded demo_env 1 (\<lambda>_. True)"
    by (simp add: guarded_def demo_env_def applies_def deny_def pass_def next_count_def effs_keep_def)
qed simp

text \<open>Calling \<open>next()\<close> twice skips a blocking middleware.\<close>

lemma double_next_skips_guard:
  "ch_dispatched (runMiddleware (demo_env\<lparr>env_layers := [\<lparr>layer_path = None, layer_handle = (\<lambda>_ _. ([Next, Next], None)), layer_isError = False\<rparr>,
     \<lparr>layer_path = None, layer_handle = deny, layer_isError = False\<rparr>]\<rparr>) 0)"
  by code_simp

end
