(* ===== verification/Http.thy ===== *)
theory Http
  imports Middleware_Chain
begin

text \<open>
  The HTTP adapter: request and response with their Express helpers and the final error writer
  (\<open>packages/zenzip/src/express.ts\<close>), route dispatch and the node handler (\<open>http.ts\<close>). The
  exchange holds what a request touches: the request, the response, the clock, the rate limiter's
  buckets, the log, and whether the handler's promise was rejected with nobody listening.
\<close>

section \<open>Errors, requests, responses\<close>

record js_error =
  err_name :: string
  err_message :: string
  err_status :: "int option"
  err_statusCode :: "int option"
  err_code :: "string option"

datatype thrown = ErrorObj js_error | ThrownValue jsval

definition plain_error :: "string \<Rightarrow> string \<Rightarrow> thrown" where
  "plain_error name msg = ErrorObj \<lparr>err_name = name, err_message = msg, err_status = None, err_statusCode = None, err_code = None\<rparr>"

definition HttpError :: "int \<Rightarrow> string \<Rightarrow> string option \<Rightarrow> thrown" where
  "HttpError status msg sc =
     ErrorObj \<lparr>err_name = ''HttpError'', err_message = msg, err_status = Some status, err_statusCode = None, err_code = sc\<rparr>"

record request =
  rq_method :: string
  rq_path :: string
  rq_query :: jsval
  rq_params :: "(string, string) jsmap"
  rq_body :: jsval
  rq_headers :: "(string, string) jsmap"
  rq_remote :: "string option"
  rq_props :: "(string, jsval) jsmap"

record response =
  rs_status :: int
  rs_headers :: "(string, string) jsmap"
  rs_sent :: bool
  rs_body :: string

record bucket =
  bk_count :: int
  bk_resetAt :: int

record exchange =
  ex_req :: request
  ex_res :: response
  ex_now :: int
  ex_buckets :: "(string, bucket) jsmap"
  ex_log :: "string list"
  ex_unhandled :: bool

text \<open>\<open>req.get\<close>; header names are stored in lower case.\<close>

definition req_get :: "request \<Rightarrow> string \<Rightarrow> string option" where
  "req_get r name = map_get (rq_headers r) (toLowerCase name)"

text \<open>\<open>parseQuery\<close>: repeated keys become arrays, in order of first appearance.\<close>

definition query_value :: "string list \<Rightarrow> jsval" where
  "query_value vs = (if length vs > 1 then JArr (map JStr vs) else JStr (hd vs))"

definition parseQuery :: "(string \<times> string) list \<Rightarrow> jsval" where
  "parseQuery pairs =
     JObj (map (\<lambda>k. (k, query_value (map snd (filter (\<lambda>kv. fst kv = k) pairs)))) (rev (remdups (rev (map fst pairs)))))"

text \<open>
  What the platform hands over: the method, the header values in order of arrival, the peer; with the
  path and the pairs of the query string of the parsed URL.
\<close>

record incoming =
  im_method :: string
  im_headers :: "(string, string list) jsmap"
  im_remote :: "string option"

definition augmentRequest :: "incoming \<Rightarrow> string \<Rightarrow> (string \<times> string) list \<Rightarrow> request" where
  "augmentRequest im pathname pairs =
     \<lparr>rq_method = im_method im, rq_path = pathname, rq_query = (if pairs = [] then JObj [] else parseQuery pairs), rq_params = [],
      rq_body = JUndef, rq_headers = List.map_filter (\<lambda>(k, vs). case vs of [] \<Rightarrow> None | v # _ \<Rightarrow> Some (k, v)) (im_headers im),
      rq_remote = im_remote im, rq_props = []\<rparr>"

section \<open>The response of the platform\<close>

definition headers_sent_error :: thrown where
  "headers_sent_error =
     ErrorObj \<lparr>err_name = ''Error'', err_message = ''Cannot set headers after they are sent to the client'',
       err_status = None, err_statusCode = None, err_code = Some ''ERR_HTTP_HEADERS_SENT''\<rparr>"

definition setHeader :: "string \<Rightarrow> string \<Rightarrow> response \<Rightarrow> (thrown, response) res" where
  "setHeader name v r =
     (if rs_sent r then Throw headers_sent_error else Ok (r\<lparr>rs_headers := map_set (toLowerCase name) v (rs_headers r)\<rparr>))"

definition writeHead :: "int \<Rightarrow> (string \<times> string) list \<Rightarrow> response \<Rightarrow> response" where
  "writeHead sc hs r =
     r\<lparr>rs_status := sc, rs_headers := fold (\<lambda>(k, v). map_set k v) hs (rs_headers r), rs_sent := True\<rparr>"

text \<open>\<open>res.end\<close>: the first call sends; a later one changes nothing that was sent.\<close>

definition res_end :: "string \<Rightarrow> response \<Rightarrow> response" where
  "res_end data r = (if rs_sent r then r else r\<lparr>rs_sent := True, rs_body := data\<rparr>)"

definition head_end :: "int \<Rightarrow> string \<Rightarrow> string \<Rightarrow> response \<Rightarrow> response" where
  "head_end sc ct data r = (writeHead sc [(''content-type'', ct)] r)\<lparr>rs_body := data\<rparr>"

section \<open>Express helpers\<close>

definition res_status :: "int \<Rightarrow> response \<Rightarrow> response" where
  "res_status sc r = r\<lparr>rs_status := sc\<rparr>"

text \<open>\<open>res.set\<close>: one field, with no value nothing; or the fields of an object, in its order.\<close>

definition res_set :: "string \<Rightarrow> string option \<Rightarrow> response \<Rightarrow> (thrown, response) res" where
  "res_set field v r = (case v of None \<Rightarrow> Ok r | Some x \<Rightarrow> setHeader field x r)"

fun res_set_all :: "(string \<times> string) list \<Rightarrow> response \<Rightarrow> (thrown, response) res" where
  "res_set_all [] r = Ok r"
| "res_set_all ((k, v) # kvs) r = rbind (setHeader k v r) (res_set_all kvs)"

lemma res_set_all_before_sent:
  "\<not> rs_sent r \<Longrightarrow> res_set_all kvs r = Ok (r\<lparr>rs_headers := fold (\<lambda>(k, v). map_set (toLowerCase k) v) kvs (rs_headers r)\<rparr>)"
  by (induction kvs arbitrary: r) (auto simp: setHeader_def)

lemma res_set_all_after_sent: "rs_sent r \<Longrightarrow> kvs \<noteq> [] \<Longrightarrow> res_set_all kvs r = Throw headers_sent_error"
  by (cases kvs) (auto simp: setHeader_def)

definition default_type :: "string \<Rightarrow> response \<Rightarrow> response" where
  "default_type ct r =
     (if \<not> rs_sent r \<and> (case map_get (rs_headers r) ''content-type'' of None \<Rightarrow> True | Some t \<Rightarrow> t = [])
      then r\<lparr>rs_headers := map_set ''content-type'' ct (rs_headers r)\<rparr> else r)"

definition text_of :: "jsval \<Rightarrow> string" where
  "text_of v = (case stringify v of None \<Rightarrow> [] | Some t \<Rightarrow> t)"

definition res_json :: "jsval \<Rightarrow> response \<Rightarrow> response" where
  "res_json data r = res_end (text_of data) (default_type ''application/json; charset=utf-8'' r)"

definition is_object :: "jsval \<Rightarrow> bool" where
  "is_object v = (case v of JArr _ \<Rightarrow> True | JObj _ \<Rightarrow> True | _ \<Rightarrow> False)"

definition res_send :: "jsval \<Rightarrow> response \<Rightarrow> response" where
  "res_send data r =
     (if nullish data then res_end [] r
      else if is_object data then res_json data r
      else res_end (js_String data) (default_type ''text/html; charset=utf-8'' r))"

text \<open>\<open>STATUS_CODES\<close> of node:http is an argument.\<close>

definition sendStatus :: "(int \<Rightarrow> string option) \<Rightarrow> int \<Rightarrow> response \<Rightarrow> response" where
  "sendStatus codes sc r =
     res_end (case codes sc of Some t \<Rightarrow> t | None \<Rightarrow> int_str sc) (default_type ''text/plain; charset=utf-8'' (res_status sc r))"

definition redirect :: "int option \<Rightarrow> string \<Rightarrow> response \<Rightarrow> (thrown, response) res" where
  "redirect status location r =
     rbind (setHeader ''location'' location (res_status (case status of None \<Rightarrow> 302 | Some n \<Rightarrow> n) r)) (\<lambda>r. Ok (res_end [] r))"

section \<open>The final error writer\<close>

definition STATUS_BY_NAME :: "(string, int) jsmap" where
  "STATUS_BY_NAME = [(''QueueFullError'', 503), (''CircuitOpenError'', 503), (''BulkheadFullError'', 503), (''ValidationError'', 400)]"

definition read_prop :: "jsval \<Rightarrow> string \<Rightarrow> jsval" where
  "read_prop v k = (case get_prop v k of None \<Rightarrow> JUndef | Some x \<Rightarrow> x)"

definition status_by_name :: "string \<Rightarrow> int" where
  "status_by_name name = (case map_get STATUS_BY_NAME name of None \<Rightarrow> 500 | Some n \<Rightarrow> n)"

fun error_status :: "thrown \<Rightarrow> int" where
  "error_status (ErrorObj e) =
     (case err_status e of Some n \<Rightarrow> n
      | None \<Rightarrow> (case err_statusCode e of Some n \<Rightarrow> n | None \<Rightarrow> status_by_name (err_name e)))"
| "error_status (ThrownValue v) =
     (case read_prop v ''status'' of JNum n \<Rightarrow> n
      | _ \<Rightarrow> (case read_prop v ''statusCode'' of JNum n \<Rightarrow> n
              | _ \<Rightarrow> (case read_prop v ''name'' of JStr n \<Rightarrow> status_by_name n | _ \<Rightarrow> 500)))"

fun error_text :: "thrown \<Rightarrow> string" where
  "error_text (ErrorObj e) = err_message e"
| "error_text (ThrownValue v) = js_String v"

fun error_code :: "thrown \<Rightarrow> jsval" where
  "error_code (ErrorObj e) = JStr (case err_code e of Some c \<Rightarrow> c | None \<Rightarrow> err_name e)"
| "error_code (ThrownValue v) = (if nullish (read_prop v ''code'') then JUndef else read_prop v ''code'')"

definition finalError :: "thrown \<Rightarrow> response \<Rightarrow> response" where
  "finalError err r =
     (if rs_sent r then r
      else res_end (text_of (JObj [(''error'', JStr (error_text err)), (''code'', error_code err), (''status'', JNum (error_status err))]))
             (r\<lparr>rs_status := error_status err, rs_headers := map_set ''content-type'' ''application/json'' (rs_headers r)\<rparr>))"

section \<open>Route dispatch\<close>

text \<open>
  A context handler works on the context: it sets the status, answers, or touches the raw response,
  then returns a value or throws. An Express handler is a chain handler that also returns a value.
\<close>

datatype ctx_act = CtxStatus int | CtxJson jsval | CtxText string | CtxRes "response \<Rightarrow> response"

datatype route_handler =
    CtxHandler "request \<Rightarrow> ctx_act list \<times> (thrown, jsval) res"
  | ExpressHandler "exchange \<Rightarrow> (exchange, thrown) act list \<times> (thrown, jsval) res"

record ctx_state =
  cs_status :: int
  cs_responded :: bool
  cs_res :: response

definition respond :: "int \<Rightarrow> string \<Rightarrow> string \<Rightarrow> ctx_state \<Rightarrow> ctx_state" where
  "respond sc ct data s =
     (if cs_responded s \<or> rs_sent (cs_res s) then s
      else s\<lparr>cs_responded := True, cs_res := head_end sc ct data (cs_res s)\<rparr>)"

fun ctx_do :: "ctx_act \<Rightarrow> ctx_state \<Rightarrow> ctx_state" where
  "ctx_do (CtxStatus sc) s = s\<lparr>cs_status := sc\<rparr>"
| "ctx_do (CtxJson v) s = respond (cs_status s) ''application/json'' (text_of v) s"
| "ctx_do (CtxText t) s = respond (cs_status s) ''text/plain; charset=utf-8'' t s"
| "ctx_do (CtxRes f) s = s\<lparr>cs_res := f (cs_res s)\<rparr>"

definition ctx_start :: "response \<Rightarrow> ctx_state" where
  "ctx_start r = \<lparr>cs_status = (if rs_status r \<noteq> 0 then rs_status r else 200), cs_responded = False, cs_res = r\<rparr>"

definition ctx_finish :: "jsval \<Rightarrow> ctx_state \<Rightarrow> ctx_state" where
  "ctx_finish result s =
     (if \<not> cs_responded s \<and> \<not> rs_sent (cs_res s) then
        (if result = JUndef then respond (if cs_status s = 200 then 204 else cs_status s) ''application/json'' [] s
         else respond (cs_status s) ''application/json'' (text_of result) s)
      else s)"

definition not_found :: "response \<Rightarrow> response" where
  "not_found r = (if rs_sent r then r
     else head_end 404 ''application/json'' (text_of (JObj [(''error'', JStr ''not found'')])) r)"

definition on_res :: "(response \<Rightarrow> response) \<Rightarrow> exchange \<Rightarrow> exchange" where
  "on_res f x = x\<lparr>ex_res := f (ex_res x)\<rparr>"

text \<open>The \<open>next\<close> given to an Express route handler answers 404; \<open>next(err)\<close> is \<open>onError\<close>.\<close>

fun route_act :: "(exchange, thrown) act \<Rightarrow> (exchange, thrown) act" where
  "route_act (Eff f) = Eff f"
| "route_act Next = Eff (on_res not_found)"
| "route_act (NextErr e) = NextErr e"

definition nexted :: "('x, 'e) act list \<Rightarrow> bool" where
  "nexted acts \<longleftrightarrow> list_ex (\<lambda>a. case a of Eff _ \<Rightarrow> False | _ \<Rightarrow> True) acts"

definition express_finish :: "jsval \<Rightarrow> response \<Rightarrow> response" where
  "express_finish result r =
     (if rs_sent r then r
      else if result = JUndef then res_end [] (r\<lparr>rs_status := (if rs_status r = 200 then 204 else rs_status r)\<rparr>)
      else res_json result r)"

definition run_route :: "route_handler \<Rightarrow> exchange \<Rightarrow> (exchange, thrown) act list \<times> thrown option" where
  "run_route h x =
     (case h of
        ExpressHandler f \<Rightarrow>
          (case f x of
             (acts, Inl e) \<Rightarrow> (map route_act acts, Some e)
           | (acts, Inr result) \<Rightarrow>
               (map route_act acts @ (if nexted acts then [] else [Eff (on_res (express_finish result))]), None))
      | CtxHandler f \<Rightarrow>
          (case f (ex_req x) of
             (acts, Inl e) \<Rightarrow> ([Eff (on_res (\<lambda>r. cs_res (fold ctx_do acts (ctx_start r))))], Some e)
           | (acts, Inr result) \<Rightarrow>
               ([Eff (on_res (\<lambda>r. cs_res (ctx_finish result (fold ctx_do acts (ctx_start r)))))], None)))"

definition dispatchRoute ::
  "(string \<Rightarrow> string option) \<Rightarrow> route_handler http_router \<Rightarrow> exchange \<Rightarrow> (exchange, thrown) act list \<times> thrown option" where
  "dispatchRoute dec router x =
     (case router_match dec router (rq_method (ex_req x)) (rq_path (ex_req x)) of
        Inl e \<Rightarrow> ([Eff (\<lambda>y. y\<lparr>ex_unhandled := True\<rparr>)], None)
      | Inr None \<Rightarrow> ([Eff (on_res not_found)], None)
      | Inr (Some (h, params)) \<Rightarrow>
          (case run_route h (x\<lparr>ex_req := (ex_req x)\<lparr>rq_params := params\<rparr>\<rparr>) of
             (acts, thrown) \<Rightarrow> (Eff (\<lambda>y. y\<lparr>ex_req := (ex_req y)\<lparr>rq_params := params\<rparr>\<rparr>) # acts, thrown)))"

section \<open>The node handler\<close>

definition mayHaveBody :: "request \<Rightarrow> bool" where
  "mayHaveBody r \<longleftrightarrow> rq_method r \<notin> {''GET'', ''HEAD'', ''OPTIONS''} \<and> map_get (rq_headers r) ''content-length'' \<noteq> Some ''0''"

text \<open>\<open>readJsonBody\<close> on the bytes received: nothing, JSON, or else the text itself.\<close>

definition readJsonBody :: "string \<Rightarrow> jsval" where
  "readJsonBody raw = (if raw = [] then JUndef else case JSON_parse raw of Some v \<Rightarrow> v | None \<Rightarrow> JStr raw)"

definition chain_of ::
  "(string \<Rightarrow> string option) \<Rightarrow> route_handler http_router \<Rightarrow> (exchange, thrown) handler layer list \<Rightarrow> string
     \<Rightarrow> (exchange, thrown) chain_env" where
  "chain_of dec router layers path =
     \<lparr>env_layers = layers, env_path = path, env_dispatch = dispatchRoute dec router,
      env_final = (\<lambda>e. on_res (finalError e))\<rparr>"

definition nodeHandler ::
  "(string \<Rightarrow> string option) \<Rightarrow> route_handler http_router \<Rightarrow> (exchange, thrown) handler layer list \<Rightarrow> string \<Rightarrow> exchange \<Rightarrow> exchange" where
  "nodeHandler dec router layers raw x =
     (let r = ex_req x;
          x1 = x\<lparr>ex_req := r\<lparr>rq_body := (if mayHaveBody r then readJsonBody raw else JUndef)\<rparr>\<rparr>
      in ch_x (runMiddleware (chain_of dec router layers (rq_path r)) x1))"

section \<open>Properties\<close>

lemma sent_kept [simp]:
  "rs_sent r \<Longrightarrow> res_end d r = r" "rs_sent r \<Longrightarrow> default_type ct r = r" "rs_sent r \<Longrightarrow> res_json v r = r"
  "rs_sent r \<Longrightarrow> finalError e r = r" "rs_sent r \<Longrightarrow> not_found r = r" "rs_sent r \<Longrightarrow> express_finish v r = r"
  "rs_sent r \<Longrightarrow> res_send v r = r"
  by (simp_all add: res_end_def default_type_def res_json_def finalError_def not_found_def express_finish_def res_send_def)

lemma res_end_sent [simp]: "rs_sent (res_end d r)"
  by (simp add: res_end_def)

lemma ctx_finish_sent: "rs_sent (cs_res (ctx_finish v s)) \<or> cs_responded s"
  by (auto simp: ctx_finish_def respond_def head_end_def writeHead_def)

text \<open>A context handler that only uses the context answers exactly when it has responded.\<close>

definition ctx_inv :: "ctx_state \<Rightarrow> bool" where
  "ctx_inv s \<longleftrightarrow> (cs_responded s \<longrightarrow> rs_sent (cs_res s))"

definition ctx_only :: "ctx_act list \<Rightarrow> bool" where
  "ctx_only acts \<longleftrightarrow> list_all (\<lambda>a. case a of CtxRes _ \<Rightarrow> False | _ \<Rightarrow> True) acts"

lemma ctx_do_inv: "ctx_inv s \<Longrightarrow> (\<And>f. a \<noteq> CtxRes f) \<Longrightarrow> ctx_inv (ctx_do a s)"
  by (cases a) (auto simp: ctx_inv_def respond_def head_end_def writeHead_def)

lemma ctx_do_answered: "rs_sent (cs_res s) \<Longrightarrow> (\<And>f. a \<noteq> CtxRes f) \<Longrightarrow> cs_res (ctx_do a s) = cs_res s"
  by (cases a) (auto simp: respond_def)

lemma fold_ctx_inv: "ctx_only acts \<Longrightarrow> ctx_inv s \<Longrightarrow> ctx_inv (fold ctx_do acts s)"
proof (induction acts arbitrary: s)
  case (Cons a acts)
  then have "ctx_inv (ctx_do a s)" by (intro ctx_do_inv) (auto simp: ctx_only_def)
  with Cons show ?case by (simp add: ctx_only_def)
qed simp

lemma fold_ctx_answered: "ctx_only acts \<Longrightarrow> rs_sent (cs_res s) \<Longrightarrow> cs_res (fold ctx_do acts s) = cs_res s"
proof (induction acts arbitrary: s)
  case (Cons a acts)
  then have "cs_res (ctx_do a s) = cs_res s" by (intro ctx_do_answered) (auto simp: ctx_only_def)
  with Cons show ?case by (simp add: ctx_only_def)
qed simp

text \<open>Without middleware the handler is route dispatch, its errors going to the final error writer.\<close>

lemma no_middleware_chain:
  "runMiddleware (chain_of dec router [] path) x =
     (case dispatchRoute dec router x of
        (acts, thrown) \<Rightarrow> run_acts (chain_of dec router [] path) 2 acts thrown
          (chain_start x\<lparr>ch_dispatched := True, ch_trace := [Dispatched]\<rparr>))"
proof -
  have f: "find_layer (chain_of dec router [] path) b i = None" for b i
    by (subst find_layer.simps) (simp add: chain_of_def)
  show ?thesis
    by (simp add: runMiddleware_def chain_fuel_def f f [unfolded chain_of_def] chain_start_def numeral_3_eq_3 numeral_2_eq_2 Let_def chain_of_def
        split: prod.split)
qed

lemma final_without_layers:
  "ch_x (handle_error (chain_of dec router [] path) (Suc f) e s) = on_res (finalError e) (ch_x s)"
proof -
  have "find_layer (chain_of dec router [] path) True i = None" for i
    by (subst find_layer.simps) (simp add: chain_of_def)
  then show ?thesis by (simp add: Let_def chain_of_def)
qed

lemma ctx_route_answer:
  assumes m: "router_match dec router (rq_method (ex_req x)) (rq_path (ex_req x)) = Ok (Some (CtxHandler f, params))"
    and only: "\<And>q. ctx_only (fst (f q))" and unsent: "\<not> rs_sent (ex_res x)"
  shows "rs_sent (ex_res (ch_x (runMiddleware (chain_of dec router [] path) x)))"
proof -
  obtain acts out where f: "f ((ex_req x)\<lparr>rq_params := params\<rparr>) = (acts, out)" by fastforce
  have co: "ctx_only acts" using only [of "(ex_req x)\<lparr>rq_params := params\<rparr>"] f by simp
  have inv: "ctx_inv (fold ctx_do acts (ctx_start r))" if "\<not> rs_sent r" for r
    by (rule fold_ctx_inv [OF co]) (simp add: ctx_inv_def ctx_start_def)
  show ?thesis
  proof (cases out)
    case (Inl e)
    let ?r = "cs_res (fold ctx_do acts (ctx_start (ex_res x)))"
    have "rs_sent (finalError e ?r)" by (cases "rs_sent ?r") (simp_all add: finalError_def)
    then show ?thesis using m f Inl
      by (simp add: no_middleware_chain dispatchRoute_def run_route_def chain_start_def numeral_2_eq_2 final_without_layers on_res_def
          del: handle_error.simps)
  next
    case (Inr v)
    let ?s = "fold ctx_do acts (ctx_start (ex_res x))"
    have "rs_sent (cs_res (ctx_finish v ?s))"
      using ctx_finish_sent [of v ?s] inv [OF unsent] by (auto simp: ctx_inv_def ctx_finish_def)
    then show ?thesis using m f Inr
      by (simp add: no_middleware_chain dispatchRoute_def run_route_def chain_start_def on_res_def)
  qed
qed

text \<open>
  Every request to a context route is answered. When a route's handler uses only its context, then
  whatever it does (answers several times, sets the status, returns a value or nothing, throws) the
  response is sent when the handler is done; what was sent first is not changed afterwards.
\<close>

theorem ctx_route_answers:
  assumes "router_match dec router (rq_method (ex_req x)) (rq_path (ex_req x)) = Ok (Some (CtxHandler f, params))"
    and "\<And>q. ctx_only (fst (f q))" and "\<not> rs_sent (ex_res x)"
  shows "rs_sent (ex_res (ch_x (runMiddleware (chain_of dec router [] path) x))) \<and>
    (\<forall>acts s. ctx_only acts \<and> rs_sent (cs_res s) \<longrightarrow> cs_res (fold ctx_do acts s) = cs_res s)"
  using ctx_route_answer [OF assms] fold_ctx_answered by blast

definition demo_request :: "string \<Rightarrow> string \<Rightarrow> exchange" where
  "demo_request method path =
     \<lparr>ex_req = \<lparr>rq_method = method, rq_path = path, rq_query = JObj [], rq_params = [], rq_body = JUndef, rq_headers = [],
        rq_remote = None, rq_props = []\<rparr>,
      ex_res = \<lparr>rs_status = 200, rs_headers = [], rs_sent = False, rs_body = []\<rparr>,
      ex_now = 0, ex_buckets = [], ex_log = [], ex_unhandled = False\<rparr>"

definition demo_router :: "route_handler http_router" where
  "demo_router = register [(''GET'', ''/u/:id'', CtxHandler (\<lambda>q. ([], Ok (JNum 1))))]"

theorem ctx_route_answers_witness:
  "rs_sent (ex_res (ch_x (runMiddleware (chain_of Some demo_router [] ''/u/7'') (demo_request ''GET'' ''/u/7''))))"
proof -
  have m: "router_match Some demo_router (rq_method (ex_req (demo_request ''GET'' ''/u/7''))) (rq_path (ex_req (demo_request ''GET'' ''/u/7''))) =
      Ok (Some (CtxHandler (\<lambda>q. ([], Ok (JNum 1))), [(''id'', ''7'')]))"
    by (simp add: demo_router_def demo_request_def router_match_spec routes_for_def List.map_filter_simps toUpperCase_def
        toUpperC_def code_def path_segs_def is_param_def static_tails_def param_tails_def param_names_def here_def Let_def)
  have "\<not> rs_sent (ex_res (demo_request ''GET'' ''/u/7''))" by (simp add: demo_request_def)
  from ctx_route_answers [OF m _ this, of "''/u/7''"] show ?thesis by (simp add: ctx_only_def)
qed

text \<open>
  The error envelope. An error nobody handled is answered, if nothing was sent before, with the
  status the error carries (else the status of its framework type, else 500) and a JSON body that
  decodes to its message, code and status; a response already sent is left alone.
\<close>

theorem error_envelope:
  assumes "\<not> rs_sent r"
  shows "rs_sent (finalError (ErrorObj e) r) \<and> rs_status (finalError (ErrorObj e) r) = error_status (ErrorObj e) \<and>
    JSON_parse (rs_body (finalError (ErrorObj e) r)) =
      Some (JObj [(''error'', JStr (err_message e)), (''code'', JStr (case err_code e of Some c \<Rightarrow> c | None \<Rightarrow> err_name e)),
        (''status'', JNum (error_status (ErrorObj e)))]) \<and>
    finalError err (finalError (ErrorObj e) r) = finalError (ErrorObj e) r"
proof -
  let ?v = "JObj [(''error'', JStr (err_message e)), (''code'', JStr (case err_code e of Some c \<Rightarrow> c | None \<Rightarrow> err_name e)),
        (''status'', JNum (error_status (ErrorObj e)))]"
  have ok: "json_ok ?v" by simp
  have "text_of ?v = json_text ?v" unfolding text_of_def stringify_json_text [OF ok] by simp
  then have "JSON_parse (text_of ?v) = Some ?v" by (simp only: JSON_parse_text [OF ok])
  then show ?thesis using assms
    by (simp add: finalError_def res_end_def del: error_status.simps stringify.simps)
qed

theorem error_envelope_witness:
  "rs_status (finalError (ErrorObj \<lparr>err_name = ''CircuitOpenError'', err_message = ''open'', err_status = None, err_statusCode = None,
      err_code = Some ''CIRCUIT_OPEN''\<rparr>) \<lparr>rs_status = 200, rs_headers = [], rs_sent = False, rs_body = []\<rparr>) = 503"
  using error_envelope [of "\<lparr>rs_status = 200, rs_headers = [], rs_sent = False, rs_body = []\<rparr>"
      "\<lparr>err_name = ''CircuitOpenError'', err_message = ''open'', err_status = None, err_statusCode = None, err_code = Some ''CIRCUIT_OPEN''\<rparr>"]
  by (simp add: status_by_name_def STATUS_BY_NAME_def)

text \<open>
  A path parameter that is not a valid escape sequence makes \<open>match\<close> throw outside the handler's
  \<open>try\<close>: the request gets no response and the rejection is unhandled.
\<close>

lemma malformed_escape_unhandled:
  "ex_unhandled (ch_x (runMiddleware (chain_of (\<lambda>s. if s = ''%zz'' then None else Some s) demo_router [] ''/u/%zz'') (demo_request ''GET'' ''/u/%zz''))) \<and>
   \<not> rs_sent (ex_res (ch_x (runMiddleware (chain_of (\<lambda>s. if s = ''%zz'' then None else Some s) demo_router [] ''/u/%zz'') (demo_request ''GET'' ''/u/%zz''))))"
  by code_simp

end
