(* ===== verification/Providers.thy ===== *)
theory Providers
  imports Agent Http
begin

text \<open>
  The model providers (\<open>packages/zenzip/src/llm/anthropic.ts\<close>, \<open>openai.ts\<close>, \<open>google.ts\<close>, \<open>bedrock.ts\<close>): each
  translates a request into the provider's JSON, posts it, and translates the answer back. The network is an
  argument. A key field holds the option or the environment variable the source falls back on. Ids, names and token counts of an answer have the
  types the wire format gives them: where the source reads a text, a value that is none is printed, and where
  it reads a count, a value that is none counts as 0.
\<close>

section \<open>The network\<close>

text \<open>An answer's body as one text and as the texts its reader delivers; reading it as one may fail.\<close>

record http_post =
  hp_url :: string
  hp_headers :: "(string, string) jsmap"
  hp_body :: string

record http_answer =
  ha_ok :: bool
  ha_status :: int
  ha_text :: "(exn, string) res"
  ha_reads :: "string list option"

type_synonym 'w post_fn = "http_post \<Rightarrow> 'w \<Rightarrow> (exn, http_answer) res \<times> int \<times> 'w"

definition strip_slash :: "string \<Rightarrow> string" where
  "strip_slash s = (if s \<noteq> [] \<and> last s = CHR ''/'' then butlast s else s)"

definition wire_str :: "jsval \<Rightarrow> string" where
  "wire_str v = (case v of JStr t \<Rightarrow> t | _ \<Rightarrow> js_String v)"

definition wire_int :: "jsval \<Rightarrow> int" where
  "wire_int v = (case v of JNum i \<Rightarrow> i | _ \<Rightarrow> 0)"

definition wire_list :: "jsval \<Rightarrow> (exn, jsval list) res" where
  "wire_list v = (case v of JArr vs \<Rightarrow> Ok vs | _ \<Rightarrow> Throw (Error ''TypeError''))"

definition failure_text :: "string \<Rightarrow> http_answer \<Rightarrow> exn" where
  "failure_text who a =
     Error (who @ '': '' @ int_str (ha_status a) @ '' '' @ take 300 (case ha_text a of Inr t \<Rightarrow> t | Inl _ \<Rightarrow> []))"

text \<open>Post, refuse an answer that is not ok, read the JSON.\<close>

definition post_json ::
  "'w post_fn \<Rightarrow> string \<Rightarrow> http_post \<Rightarrow> (jsval \<Rightarrow> (exn, llm_response) res) \<Rightarrow> 'w \<Rightarrow> (exn, llm_response) res \<times> int \<times> 'w" where
  "post_json post who q read w =
     (case post q w of
        (Inl e, n, w') \<Rightarrow> (Throw e, n, w')
      | (Inr a, n, w') \<Rightarrow>
          (if \<not> ha_ok a then Throw (failure_text who a) else rbind (ha_text a) (\<lambda>t. rbind (parse_exn t) read), n, w'))"

definition role_name :: "llm_role \<Rightarrow> string" where
  "role_name r = (case r of User \<Rightarrow> ''user'' | Assistant \<Rightarrow> ''assistant'')"

definition opt_field :: "string \<Rightarrow> jsval option \<Rightarrow> (string \<times> jsval) list" where
  "opt_field k v = (case v of None \<Rightarrow> [] | Some x \<Rightarrow> [(k, x)])"

definition some_text :: "string option \<Rightarrow> string option" where
  "some_text s = (case s of Some t \<Rightarrow> if t = [] then None else Some t | None \<Rightarrow> None)"

definition some_tools :: "llm_request \<Rightarrow> llm_tool_def list" where
  "some_tools q = (case lr_tools q of Some ts \<Rightarrow> ts | None \<Rightarrow> [])"

section \<open>Anthropic\<close>

fun anthropic_block :: "llm_content \<Rightarrow> jsval" where
  "anthropic_block (TextPart t) = JObj [(''type'', JStr ''text''), (''text'', JStr t)]"
| "anthropic_block (ToolUse i n v) = JObj [(''type'', JStr ''tool_use''), (''id'', JStr i), (''name'', JStr n), (''input'', v)]"
| "anthropic_block (ToolResult i c e) =
     JObj ([(''type'', JStr ''tool_result''), (''tool_use_id'', JStr i), (''content'', JStr c)] @
           (if e then [(''is_error'', JBool True)] else []))"

definition toAnthropicMessages :: "llm_message list \<Rightarrow> jsval" where
  "toAnthropicMessages msgs =
     JArr (map (\<lambda>m. JObj [(''role'', JStr (role_name (m_role m))), (''content'', JArr (map anthropic_block (m_content m)))]) msgs)"

definition is_text :: "jsval \<Rightarrow> bool" where
  "is_text v = (case v of JStr _ \<Rightarrow> True | _ \<Rightarrow> False)"

definition block_content :: "jsval \<Rightarrow> jsval \<Rightarrow> llm_content list" where
  "block_content ty b =
     (if ty = JStr ''text'' \<and> is_text (read_prop b ''text'') then [TextPart (wire_str (read_prop b ''text''))]
      else if ty = JStr ''tool_use''
      then [ToolUse (wire_str (read_prop b ''id'')) (wire_str (read_prop b ''name'')) (read_prop b ''input'')]
      else [])"

fun fromAnthropicContent :: "jsval list \<Rightarrow> (exn, llm_content list) res" where
  "fromAnthropicContent [] = Ok []"
| "fromAnthropicContent (b # bs) =
     rbind (prop_exn b ''type'') (\<lambda>ty. rbind (fromAnthropicContent bs) (\<lambda>rest. Ok (block_content ty b @ rest)))"

definition mapStopReason :: "jsval \<Rightarrow> string" where
  "mapStopReason v =
     (if v = JStr ''end_turn'' then ''endTurn'' else if v = JStr ''tool_use'' then ''toolUse''
      else if v = JStr ''max_tokens'' then ''maxTokens'' else ''other'')"

definition ephemeral :: "string \<times> jsval" where
  "ephemeral = (''cache_control'', JObj [(''type'', JStr ''ephemeral'')])"

definition tool_fields :: "string \<Rightarrow> llm_tool_def \<Rightarrow> (string \<times> jsval) list" where
  "tool_fields schema t = [(''name'', JStr (td_name t)), (''description'', JStr (td_description t)), (schema, td_parameters t)]"

definition anthropic_tools :: "llm_tool_def list \<Rightarrow> jsval" where
  "anthropic_tools ts =
     JArr (map (\<lambda>(i, t). JObj (tool_fields ''input_schema'' t @ (if i = length ts - 1 then [ephemeral] else []))) (enumerate 0 ts))"

definition buildBody :: "llm_request \<Rightarrow> (string \<times> jsval) list" where
  "buildBody q =
     [(''model'', JStr (lr_model q)), (''max_tokens'', JNum (case lr_maxTokens q of Some n \<Rightarrow> n | None \<Rightarrow> 4096)),
      (''messages'', toAnthropicMessages (lr_messages q))] @
     opt_field ''temperature'' (lr_temperature q) @
     opt_field ''system'' (map_option (\<lambda>t. JArr [JObj [(''type'', JStr ''text''), (''text'', JStr t), ephemeral]]) (some_text (lr_system q))) @
     (if some_tools q = [] then [] else [(''tools'', anthropic_tools (some_tools q))])"

record anthropic_options =
  an_apiKey :: "string option"
  an_baseUrl :: "string option"
  an_version :: "string option"

definition anthropic_headers :: "anthropic_options \<Rightarrow> (exn, (string, string) jsmap) res" where
  "anthropic_headers o' =
     (case some_text (an_apiKey o') of
        None \<Rightarrow> Throw (Error ''anthropic provider: no API key (pass apiKey or set ANTHROPIC_API_KEY)'')
      | Some k \<Rightarrow> Ok [(''content-type'', ''application/json''), (''x-api-key'', k),
          (''anthropic-version'', case an_version o' of Some v \<Rightarrow> v | None \<Rightarrow> ''2023-06-01'')])"

definition anthropic_post :: "anthropic_options \<Rightarrow> (string \<times> jsval) list \<Rightarrow> (exn, http_post) res" where
  "anthropic_post o' body =
     rbind (anthropic_headers o') (\<lambda>hs.
       Ok \<lparr>hp_url = strip_slash (case an_baseUrl o' of Some u \<Rightarrow> u | None \<Rightarrow> ''https://api.anthropic.com'') @ ''/v1/messages'',
          hp_headers = hs, hp_body = the (stringify (JObj body))\<rparr>)"

definition anthropic_response :: "jsval \<Rightarrow> (exn, llm_response) res" where
  "anthropic_response data =
     rbind (prop_exn data ''content'') (\<lambda>c.
     rbind (wire_list c) (\<lambda>blocks.
     rbind (fromAnthropicContent blocks) (\<lambda>content.
     rbind (prop_exn data ''usage'') (\<lambda>u.
     rbind (prop_exn u ''input_tokens'') (\<lambda>i.
       Ok \<lparr>r_content = content, r_stopReason = mapStopReason (read_prop data ''stop_reason''),
          r_usage = \<lparr>inputTokens = wire_int i, outputTokens = wire_int (read_prop u ''output_tokens'')\<rparr>\<rparr>)))))"

definition anthropic_complete :: "'w post_fn \<Rightarrow> anthropic_options \<Rightarrow> 'w model_call" where
  "anthropic_complete post o' q w =
     (case anthropic_post o' (buildBody q) of
        Inl e \<Rightarrow> (Throw e, 0, w)
      | Inr p \<Rightarrow> post_json post ''anthropic'' p anthropic_response w)"

section \<open>Anthropic: the stream\<close>

text \<open>\<open>buffer.split("\n\n")\<close>: leftmost, not overlapping.\<close>

fun split_frames :: "string \<Rightarrow> string list" where
  "split_frames [] = [[]]"
| "split_frames [c] = [[c]]"
| "split_frames (c # d # s) =
     (if c = CHR 0x0A \<and> d = CHR 0x0A then [] # split_frames s
      else (case split_frames (d # s) of [] \<Rightarrow> [[c]] | f # fs \<Rightarrow> (c # f) # fs))"

text \<open>
  What accumulates: the content blocks by index with the JSON fragments of each, a missing index being a
  hole; stop reason and counts; the tokens handed on.
\<close>

record stream_state =
  ss_blocks :: "((string, jsval) jsmap \<times> string) option list"
  ss_stop :: jsval
  ss_input :: jsval
  ss_output :: jsval
  ss_tokens :: "jsval list"

definition stream_start :: stream_state where
  "stream_start = \<lparr>ss_blocks = [], ss_stop = JNull, ss_input = JNum 0, ss_output = JNum 0, ss_tokens = []\<rparr>"

definition set_hole :: "nat \<Rightarrow> 'a \<Rightarrow> 'a option list \<Rightarrow> 'a option list" where
  "set_hole i v xs = (xs @ replicate (Suc i - length xs) None)[i := Some v]"

definition get_hole :: "nat \<Rightarrow> 'a option list \<Rightarrow> 'a option" where
  "get_hole i xs = (if i < length xs then xs ! i else None)"

text \<open>An event's index is a natural number; an event with none is passed over.\<close>

definition event_index :: "jsval \<Rightarrow> nat option" where
  "event_index ev = (case read_prop ev ''index'' of JNum i \<Rightarrow> if 0 \<le> i then Some (nat i) else None | _ \<Rightarrow> None)"

definition obj_fields :: "jsval \<Rightarrow> (string, jsval) jsmap" where
  "obj_fields v = (case v of JObj kvs \<Rightarrow> kvs | _ \<Rightarrow> [])"

definition or_default :: "jsval \<Rightarrow> jsval \<Rightarrow> jsval" where
  "or_default v d = (if nullish v then d else v)"

text \<open>Each step may throw; what it had done stays done.\<close>

definition block_delta :: "nat \<Rightarrow> jsval \<Rightarrow> stream_state \<Rightarrow> (exn, unit) res \<times> stream_state" where
  "block_delta i delta s =
     (let ty = read_prop delta ''type'' in
      if ty = JStr ''text_delta'' then
        (case get_hole i (ss_blocks s) of
           None \<Rightarrow> (Throw (Error ''TypeError''), s)
         | Some (b, pj) \<Rightarrow>
             (let t = read_prop delta ''text'';
                  old = or_default (read_prop (JObj b) ''text'') (JStr [])
              in (Ok (), s\<lparr>ss_blocks := set_hole i (map_set ''text'' (JStr (js_String old @ js_String t)) b, pj) (ss_blocks s),
                           ss_tokens := ss_tokens s @ [t]\<rparr>)))
      else if ty = JStr ''input_json_delta'' then
        (case get_hole i (ss_blocks s) of
           None \<Rightarrow> (Ok (), s)
         | Some (b, pj) \<Rightarrow> (Ok (), s\<lparr>ss_blocks := set_hole i (b, pj @ js_String (read_prop delta ''partial_json'')) (ss_blocks s)\<rparr>))
      else (Ok (), s))"

definition block_stop :: "nat \<Rightarrow> stream_state \<Rightarrow> stream_state" where
  "block_stop i s =
     (case get_hole i (ss_blocks s) of
        None \<Rightarrow> s
      | Some (b, pj) \<Rightarrow>
          if read_prop (JObj b) ''type'' = JStr ''tool_use'' \<and> pj \<noteq> []
          then s\<lparr>ss_blocks := set_hole i (map_set ''input'' (case JSON_parse pj of Some v \<Rightarrow> v | None \<Rightarrow> JObj []) b, pj) (ss_blocks s)\<rparr>
          else s)"

definition stream_event :: "jsval \<Rightarrow> stream_state \<Rightarrow> (exn, unit) res \<times> stream_state" where
  "stream_event ev s =
     (case prop_exn ev ''type'' of
        Inl e \<Rightarrow> (Throw e, s)
      | Inr ty \<Rightarrow>
          if ty = JStr ''message_start'' then
            (Ok (), s\<lparr>ss_input := or_default (read_prop (read_prop (read_prop ev ''message'') ''usage'') ''input_tokens'') (JNum 0)\<rparr>)
          else if ty = JStr ''content_block_start'' then
            (case event_index ev of
               None \<Rightarrow> (Ok (), s)
             | Some i \<Rightarrow> (Ok (), s\<lparr>ss_blocks := set_hole i (obj_fields (read_prop ev ''content_block''), []) (ss_blocks s)\<rparr>))
          else if ty = JStr ''content_block_delta'' then
            (case event_index ev of None \<Rightarrow> (Ok (), s) | Some i \<Rightarrow> block_delta i (read_prop ev ''delta'') s)
          else if ty = JStr ''content_block_stop'' then
            (case event_index ev of None \<Rightarrow> (Ok (), s) | Some i \<Rightarrow> (Ok (), block_stop i s))
          else if ty = JStr ''message_delta'' then
            (Ok (), s\<lparr>ss_stop := or_default (read_prop (read_prop ev ''delta'') ''stop_reason'') (ss_stop s),
                      ss_output := or_default (read_prop (read_prop ev ''usage'') ''output_tokens'') (ss_output s)\<rparr>)
          else (Ok (), s))"

definition frame_event :: "string \<Rightarrow> stream_state \<Rightarrow> (exn, unit) res \<times> stream_state" where
  "frame_event frame s =
     (case find (\<lambda>l. startsWith l ''data:'') (split_on (CHR 0x0A) frame) of
        None \<Rightarrow> (Ok (), s)
      | Some l \<Rightarrow> (case JSON_parse (drop 5 l) of None \<Rightarrow> (Ok (), s) | Some ev \<Rightarrow> stream_event ev s))"

fun frame_events :: "string list \<Rightarrow> stream_state \<Rightarrow> (exn, unit) res \<times> stream_state" where
  "frame_events [] s = (Ok (), s)"
| "frame_events (f # fs) s =
     (case frame_event f s of (Inl e, s') \<Rightarrow> (Throw e, s') | (Inr _, s') \<Rightarrow> frame_events fs s')"

fun read_stream :: "string list \<Rightarrow> string \<Rightarrow> stream_state \<Rightarrow> (exn, unit) res \<times> stream_state" where
  "read_stream [] buffer s = (Ok (), s)"
| "read_stream (t # ts) buffer s =
     (let frames = split_frames (buffer @ t) in
      case frame_events (butlast frames) s of
        (Inl e, s') \<Rightarrow> (Throw e, s')
      | (Inr _, s') \<Rightarrow> read_stream ts (last frames) s')"

definition stream_response :: "stream_state \<Rightarrow> (exn, llm_response) res" where
  "stream_response s =
     rbind (fromAnthropicContent (map (\<lambda>(b, pj). JObj b) (List.map_filter id (ss_blocks s)))) (\<lambda>content.
       Ok \<lparr>r_content = content, r_stopReason = mapStopReason (ss_stop s),
          r_usage = \<lparr>inputTokens = wire_int (ss_input s), outputTokens = wire_int (ss_output s)\<rparr>\<rparr>)"

text \<open>The second result is the tokens handed to the caller.\<close>

definition anthropic_stream ::
  "'w post_fn \<Rightarrow> anthropic_options \<Rightarrow> llm_request \<Rightarrow> 'w \<Rightarrow> ((exn, llm_response) res \<times> jsval list) \<times> int \<times> 'w" where
  "anthropic_stream post o' q w =
     (case anthropic_post o' (buildBody q @ [(''stream'', JBool True)]) of
        Inl e \<Rightarrow> ((Throw e, []), 0, w)
      | Inr p \<Rightarrow>
          (case post p w of
             (Inl e, n, w') \<Rightarrow> ((Throw e, []), n, w')
           | (Inr a, n, w') \<Rightarrow>
               (case ha_reads a of
                  None \<Rightarrow> ((Throw (failure_text ''anthropic stream'' a), []), n, w')
                | Some ts \<Rightarrow>
                    if \<not> ha_ok a then ((Throw (failure_text ''anthropic stream'' a), []), n, w')
                    else (case read_stream ts [] stream_start of
                            (Inl e, s) \<Rightarrow> ((Throw e, ss_tokens s), n, w')
                          | (Inr _, s) \<Rightarrow> ((stream_response s, ss_tokens s), n, w')))))"

end
