(* ===== verification/Embeddings.thy ===== *)
theory Embeddings
  imports Memory Providers "HOL-Library.Multiset"
begin

text \<open>
  The embedding providers (\<open>packages/zenzip/src/memory.ts\<close>): the adapter for OpenAI-compatible services and the
  offline one, with agent memory over them. The network is an argument, and so is the reading of an answer's
  numbers, fractions being outside the JSON of this development.
\<close>

section \<open>An OpenAI-compatible service\<close>

record embedding_options =
  eo_apiKey :: "string option"
  eo_baseUrl :: "string option"
  eo_model :: "string option"

definition embeddings_body :: "embedding_options \<Rightarrow> string list \<Rightarrow> jsval" where
  "embeddings_body o' texts =
     JObj [(''model'', JStr (case eo_model o' of Some m \<Rightarrow> m | None \<Rightarrow> ''text-embedding-3-small'')), (''input'', JArr (map JStr texts))]"

definition embeddings_post :: "embedding_options \<Rightarrow> string list \<Rightarrow> http_post" where
  "embeddings_post o' texts =
     \<lparr>hp_url = strip_slash (case eo_baseUrl o' of Some u \<Rightarrow> u | None \<Rightarrow> ''https://api.openai.com/v1'') @ ''/embeddings'',
      hp_headers = [(''content-type'', ''application/json'')] @
        (case some_text (eo_apiKey o') of Some k \<Rightarrow> [(''authorization'', ''Bearer '' @ k)] | None \<Rightarrow> []),
      hp_body = the (stringify (embeddings_body o' texts))\<rparr>"

text \<open>\<open>vectors\<close> reads the body of an answer: \<open>data.map((d) => d.embedding)\<close> after \<open>JSON.parse\<close>.\<close>

definition openaiEmbeddings :: "'w post_fn \<Rightarrow> (string \<Rightarrow> (exn, rat list list) res) \<Rightarrow> embedding_options \<Rightarrow> 'w embedder" where
  "openaiEmbeddings post vectors o' texts w =
     (case post (embeddings_post o' texts) w of
        (Inl e, d, w') \<Rightarrow> (Throw e, d, w')
      | (Inr a, d, w') \<Rightarrow>
          (if \<not> ha_ok a
           then rbind (ha_text a) (\<lambda>t. Throw (Error (''openai embeddings: '' @ int_str (ha_status a) @ '' '' @ take 200 t)))
           else rbind (ha_text a) vectors, d, w'))"

section \<open>The offline provider\<close>

definition mockEmbeddings :: "nat \<Rightarrow> 'w embedder" where
  "mockEmbeddings dims texts w = (Ok (map (\<lambda>t. map of_nat (mock_vector dims t)) texts), 0, w)"

section \<open>Lemmas\<close>

text \<open>The body that is posted reads back as the model and the texts.\<close>

lemma embeddings_body_reads_back: "JSON_parse (hp_body (embeddings_post o' texts)) = Some (embeddings_body o' texts)"
proof -
  have "json_ok (embeddings_body o' texts)" by (simp add: embeddings_body_def)
  then show ?thesis using JSON_round_trip [of "embeddings_body o' texts"] by (simp add: embeddings_post_def stringify_json_text JSON_parse_text)
qed

text \<open>A service that refuses stores nothing and recalls nothing: the error reaches the step that asked.\<close>

lemma refused_embedding:
  assumes "mo_embed m = openaiEmbeddings post vectors o'"
    and "post (embeddings_post o' [text]) w = (Inr a, d, w')" and "\<not> ha_ok a" and "ha_text a = Ok t"
  shows "remember m text sess w = (Throw (Error (''openai embeddings: '' @ int_str (ha_status a) @ '' '' @ take 200 t)), d, w') \<and>
    recall m text sess w = (Throw (Error (''openai embeddings: '' @ int_str (ha_status a) @ '' '' @ take 200 t)), d, w')"
  using assms by (simp add: remember_def recall_def openaiEmbeddings_def)

text \<open>The offline vector of a text has one entry per dimension, counts every word once, and does not depend on their order.\<close>

definition count_words :: "nat \<Rightarrow> string list \<Rightarrow> nat list \<Rightarrow> nat list" where
  "count_words dims ws v = fold (\<lambda>token v. v[bucket dims token := v ! bucket dims token + 1]) ws v"

lemma count_words_length [simp]: "length (count_words dims ws v) = length v"
  unfolding count_words_def by (induction ws arbitrary: v) simp_all

lemma bucket_less: "0 < dims \<Longrightarrow> bucket dims t < dims"
  by (simp add: bucket_def)

lemma count_words_nth:
  "length v = dims \<Longrightarrow> i < dims \<Longrightarrow> count_words dims ws v ! i = v ! i + length (filter (\<lambda>t. bucket dims t = i) ws)"
proof (induction ws arbitrary: v)
  case (Cons t ws)
  have "count_words dims (t # ws) v = count_words dims ws (v[bucket dims t := v ! bucket dims t + 1])"
    by (simp add: count_words_def)
  then show ?case using Cons by (simp add: nth_list_update)
qed (simp add: count_words_def)

lemma mock_vector_nth:
  "i < dims \<Longrightarrow> mock_vector dims t ! i = length (filter (\<lambda>x. bucket dims x = i) (words [] (toLowerCase t)))"
  using count_words_nth [of "replicate dims 0" dims i] by (simp add: mock_vector_def count_words_def)

lemma mock_vector_length: "length (mock_vector dims t) = dims"
  using count_words_length [of dims _ "replicate dims 0"] by (simp add: mock_vector_def count_words_def)

lemma mock_vector_same_words:
  assumes "mset (words [] (toLowerCase s)) = mset (words [] (toLowerCase t))"
  shows "mock_vector dims s = mock_vector dims t"
proof (rule nth_equalityI)
  fix i assume "i < length (mock_vector dims s)"
  moreover have "length (filter P (words [] (toLowerCase s))) = length (filter P (words [] (toLowerCase t)))" for P
    using assms by (metis mset_filter size_mset)
  ultimately show "mock_vector dims s ! i = mock_vector dims t ! i" by (simp add: mock_vector_nth mock_vector_length)
qed (simp add: mock_vector_length)

end
