(* ===== verification/Queue.thy ===== *)
theory Queue
  imports Workflow Jobs
begin

text \<open>
  The queue handle (\<open>packages/zenzip/src/queue.ts\<close>) over the job table: attaching a consumer, pushing
  with validation and backpressure, dispatching delivered jobs, dead letters. Payloads and keys are
  values of \<open>Json\<close>; the schema and the key functions are arguments. The clock of a push and the ids
  are the table's.
\<close>

section \<open>The handle\<close>

datatype concurrency = ConcLimit int | ConcKey int "jsval \<Rightarrow> jsval"

record queue_options =
  qo_concurrency :: "concurrency option"
  qo_retries :: "int option"
  qo_backoffDelay :: "duration option"
  qo_backoffMaxDelay :: "duration option"
  qo_lease :: "duration option"
  qo_poll :: "duration option"
  qo_batch :: "int option"
  qo_rateLimit :: "(int \<times> duration) option"
  qo_debounce :: "(duration \<times> (jsval \<Rightarrow> jsval)) option"
  qo_throttle :: "(int \<times> duration \<times> (jsval \<Rightarrow> jsval)) option"
  qo_maxPending :: "int option"
  qo_fair :: "bool option"
  qo_schema :: "(jsval \<Rightarrow> string list + jsval) option"

record 'h queue =
  q_name :: string
  q_options :: queue_options
  q_handler :: "'h option"
  q_batchHandler :: "'h option"
  q_batchSize :: int

definition new_queue :: "string \<Rightarrow> queue_options \<Rightarrow> 'h queue" where
  "new_queue name opts = \<lparr>q_name = name, q_options = opts, q_handler = None, q_batchHandler = None, q_batchSize = 1\<rparr>"

definition quoted :: "string \<Rightarrow> string" where
  "quoted s = [DQ] @ s @ [DQ]"

definition assertNoProcessor :: "bool \<Rightarrow> 'h queue \<Rightarrow> (exn, unit) res" where
  "assertNoProcessor started q =
     (if started then Throw (Error (''attach a processor to '' @ quoted (q_name q) @ '' before app.start()''))
      else if q_handler q \<noteq> None \<or> q_batchHandler q \<noteq> None
        then Throw (Error (''queue '' @ quoted (q_name q) @ '' already has a processor''))
      else Ok ())"

definition process :: "bool \<Rightarrow> 'h \<Rightarrow> 'h queue \<Rightarrow> (exn, 'h queue) res" where
  "process started h q = rbind (assertNoProcessor started q) (\<lambda>_. Ok (q\<lparr>q_handler := Some h\<rparr>))"

definition processBatch :: "bool \<Rightarrow> 'h \<Rightarrow> int \<Rightarrow> 'h queue \<Rightarrow> (exn, 'h queue) res" where
  "processBatch started h n q =
     rbind (assertNoProcessor started q) (\<lambda>_.
       if n < 1 then Throw (Error (''processBatch size must be a positive integer, got '' @ int_str n))
       else Ok (q\<lparr>q_batchHandler := Some h, q_batchSize := n\<rparr>))"

section \<open>Dispatch\<close>

text \<open>A consumer takes a group of jobs (one in per-job mode) and may fail.\<close>

type_synonym ('j, 'w) consumer = "'j list \<Rightarrow> 'w \<Rightarrow> (exn, unit) res \<times> 'w"

fun each_job :: "('j, 'w) consumer \<Rightarrow> 'j list \<Rightarrow> 'w \<Rightarrow> (exn, unit) res \<times> 'w" where
  "each_job h [] w = (Ok (), w)"
| "each_job h (j # js) w = (case h [j] w of (Inl e, w') \<Rightarrow> (Throw e, w') | (Inr _, w') \<Rightarrow> each_job h js w')"

definition dispatch :: "('j, 'w) consumer queue \<Rightarrow> 'j list \<Rightarrow> 'w \<Rightarrow> (exn, unit) res \<times> 'w" where
  "dispatch q js w =
     (case q_batchHandler q of
        Some h \<Rightarrow> h js w
      | None \<Rightarrow>
          (case q_handler q of
             Some h \<Rightarrow> each_job h js w
           | None \<Rightarrow> (Throw (Error (''queue '' @ quoted (q_name q) @ '' has no processor'')), w)))"

section \<open>Pushing\<close>

record push_options =
  po_delay :: "duration option"
  po_priority :: "int option"
  po_retries :: "int option"

definition DEFAULT_RETRIES :: int where "DEFAULT_RETRIES = 2"

definition keyFn :: "queue_options \<Rightarrow> (jsval \<Rightarrow> jsval) option" where
  "keyFn o' = (case qo_concurrency o' of Some (ConcKey _ f) \<Rightarrow> Some f | _ \<Rightarrow> None)"

definition keyFor :: "queue_options \<Rightarrow> jsval \<Rightarrow> string option" where
  "keyFor o' data = map_option (\<lambda>f. js_String (f data)) (keyFn o')"

text \<open>\<open>Math.round\<close> of a quotient of integers.\<close>

definition round_div :: "int \<Rightarrow> int \<Rightarrow> int" where
  "round_div a b = (2 * a + b) div (2 * b)"

record native_push =
  np_delayMs :: "int option"
  np_priority :: "int option"
  np_maxAttempts :: int
  np_concurrencyKey :: "string option"
  np_debounceKey :: "string option"
  np_throttleKey :: "string option"
  np_throttleSpacingMs :: "int option"

definition pushOptions :: "queue_options \<Rightarrow> push_options \<Rightarrow> jsval \<Rightarrow> (exn, native_push) res" where
  "pushOptions o' options data =
     (let retries = (case po_retries options of Some r \<Rightarrow> r
                     | None \<Rightarrow> (case qo_retries o' of Some r \<Rightarrow> r | None \<Rightarrow> DEFAULT_RETRIES));
          known = (data \<noteq> JUndef) in
      rbind (case qo_debounce o' of
               Some (window, _) \<Rightarrow> rbind (ms_exn window) (\<lambda>n. Ok (Some n))
             | None \<Rightarrow> (case po_delay options of Some d \<Rightarrow> rbind (ms_exn d) (\<lambda>n. Ok (Some n)) | None \<Rightarrow> Ok None)) (\<lambda>delayMs.
      rbind (case qo_throttle o' of
               Some (mx, per, _) \<Rightarrow>
                 if known then rbind (ms_exn per) (\<lambda>n. Ok (Some (max 1 (round_div n (max 1 mx))))) else Ok None
             | None \<Rightarrow> Ok None) (\<lambda>spacing.
        Ok \<lparr>np_delayMs = delayMs, np_priority = po_priority options, np_maxAttempts = retries + 1,
           np_concurrencyKey = (if known then keyFor o' data else None),
           np_debounceKey = (case qo_debounce o' of Some (_, key) \<Rightarrow> if known then Some (js_String (key data)) else None | None \<Rightarrow> None),
           np_throttleKey = (case qo_throttle o' of Some (_, _, key) \<Rightarrow> if known then Some (js_String (key data)) else None | None \<Rightarrow> None),
           np_throttleSpacingMs = spacing\<rparr>)))"

definition validate_payload :: "'h queue \<Rightarrow> jsval \<Rightarrow> (exn, string option) res" where
  "validate_payload q data =
     (case qo_schema (q_options q) of
        None \<Rightarrow> Ok (stringify data)
      | Some f \<Rightarrow>
          (case f data of
             Inl issues \<Rightarrow> Throw (Error (''invalid payload for queue '' @ quoted (q_name q) @ '': '' @ join_with ''; '' issues))
           | Inr v \<Rightarrow> Ok (stringify v)))"

text \<open>
  \<open>JSON.stringify(undefined)\<close> is no string; the binding refuses it where it expects one, with an error
  \<open>nc\<close> of its own.
\<close>

definition native_string :: "exn \<Rightarrow> string option \<Rightarrow> (exn, string) res" where
  "native_string nc p = (case p of Some t \<Rightarrow> Ok t | None \<Rightarrow> Throw nc)"

text \<open>The message's sign for at-least is spelt in ASCII.\<close>

definition full_message :: "'h queue \<Rightarrow> int \<Rightarrow> int \<Rightarrow> string" where
  "full_message q pending mx =
     ''queue '' @ quoted (q_name q) @ '' is full: '' @ int_str pending @ '' pending >= maxPending '' @ int_str mx"

definition admit :: "'h queue \<Rightarrow> nat \<Rightarrow> nat \<Rightarrow> (exn, unit) res" where
  "admit q pending incoming =
     (case qo_maxPending (q_options q) of
        None \<Rightarrow> Ok ()
      | Some mx \<Rightarrow> if int pending + int incoming > mx then Throw (Error (full_message q (int pending) mx)) else Ok ())"

text \<open>The binding's translation of the options (\<open>push_bulk\<close> of \<open>runtime_bindings.rs\<close>).\<close>

definition native_job :: "string \<Rightarrow> string \<Rightarrow> native_push \<Rightarrow> push_job" where
  "native_job name payload np =
     \<lparr>pj_queue = name, pj_payload = payload, pj_priority = (case np_priority np of Some p \<Rightarrow> p | None \<Rightarrow> 0),
      pj_delay = (case np_delayMs np of Some d \<Rightarrow> d | None \<Rightarrow> 0), pj_max = nat (np_maxAttempts np),
      pj_key = np_concurrencyKey np, pj_debounce = np_debounceKey np,
      pj_throttle = (case (np_throttleKey np, np_throttleSpacingMs np) of (Some k, Some s) \<Rightarrow> Some (k, s) | _ \<Rightarrow> None)\<rparr>"

text \<open>
  What a push does before it writes: the payload, the admission check against the count read at that
  moment, the options.
\<close>

definition push_request :: "exn \<Rightarrow> 'h queue \<Rightarrow> jsval \<Rightarrow> push_options \<Rightarrow> jobs_db \<Rightarrow> (exn, push_job) res" where
  "push_request nc q data options db =
     rbind (validate_payload q data) (\<lambda>payload.
     rbind (admit q (pending_count (q_name q) db) 1) (\<lambda>_.
     rbind (pushOptions (q_options q) options data) (\<lambda>np.
     rbind (native_string nc payload) (\<lambda>t. Ok (native_job (q_name q) t np)))))"

definition push :: "exn \<Rightarrow> int \<Rightarrow> 'h queue \<Rightarrow> jsval \<Rightarrow> push_options \<Rightarrow> jobs_db \<Rightarrow> (exn, nat) res \<times> jobs_db" where
  "push nc now q data options db =
     (case push_request nc q data options db of
        Inl e \<Rightarrow> (Throw e, db)
      | Inr p \<Rightarrow> (case insert_job_row now p db of (i, db') \<Rightarrow> (Ok i, db')))"

fun push_each :: "exn \<Rightarrow> int \<Rightarrow> 'h queue \<Rightarrow> jsval list \<Rightarrow> push_options \<Rightarrow> jobs_db \<Rightarrow> (exn, nat list) res \<times> jobs_db" where
  "push_each nc now q [] options db = (Ok [], db)"
| "push_each nc now q (d # ds) options db =
     (case push nc now q d options db of
        (Inl e, db1) \<Rightarrow> (Throw e, db1)
      | (Inr i, db1) \<Rightarrow>
          (case push_each nc now q ds options db1 of
             (Inl e, db2) \<Rightarrow> (Throw e, db2)
           | (Inr is, db2) \<Rightarrow> (Ok (i # is), db2)))"

definition bulk_request :: "exn \<Rightarrow> 'h queue \<Rightarrow> jsval list \<Rightarrow> push_options \<Rightarrow> jobs_db \<Rightarrow> (exn, push_job list) res" where
  "bulk_request nc q items options db =
     rbind (rmap (validate_payload q) items) (\<lambda>payloads.
     rbind (admit q (pending_count (q_name q) db) (length payloads)) (\<lambda>_.
     rbind (pushOptions (q_options q) options JUndef) (\<lambda>np.
     rbind (rmap (native_string nc) payloads) (\<lambda>ts. Ok (map (\<lambda>t. native_job (q_name q) t np) ts)))))"

definition pushBulk :: "exn \<Rightarrow> int \<Rightarrow> 'h queue \<Rightarrow> jsval list \<Rightarrow> push_options \<Rightarrow> jobs_db \<Rightarrow> (exn, nat list) res \<times> jobs_db" where
  "pushBulk nc now q items options db =
     (if keyFn (q_options q) \<noteq> None \<or> qo_debounce (q_options q) \<noteq> None \<or> qo_throttle (q_options q) \<noteq> None
      then push_each nc now q items options db
      else case bulk_request nc q items options db of
        Inl e \<Rightarrow> (Throw e, db)
      | Inr ps \<Rightarrow> (case push_jobs now ps db of (is, db') \<Rightarrow> (Ok is, db')))"

section \<open>Counts and dead letters\<close>

definition pendingCount :: "'h queue \<Rightarrow> jobs_db \<Rightarrow> nat" where
  "pendingCount q db = pending_count (q_name q) db"

definition activeCount :: "'h queue \<Rightarrow> jobs_db \<Rightarrow> nat" where
  "activeCount q db = count_where (\<lambda>j. j_queue j = q_name q \<and> j_status j \<in> {JPending, JRunning}) db"

type_synonym audit_log = "(string \<times> string \<times> jsval) list"

text \<open>
  \<open>order\<close> is the store's order of the dead rows (latest update first). A dead job as the caller sees it
  is its row with the payload parsed.
\<close>

definition dead_rows :: "(job list \<Rightarrow> job list) \<Rightarrow> string \<Rightarrow> nat \<Rightarrow> jobs_db \<Rightarrow> job list" where
  "dead_rows order name limit db = take limit (order (filter (\<lambda>j. j_queue j = name \<and> j_status j = JDead) (jobs db)))"

definition deadJobs :: "(job list \<Rightarrow> job list) \<Rightarrow> 'h queue \<Rightarrow> nat \<Rightarrow> jobs_db \<Rightarrow> (exn, (job \<times> jsval) list) res" where
  "deadJobs order q limit db =
     rmap (\<lambda>j. rbind (parse_exn (j_payload j)) (\<lambda>d. Ok (j, d))) (dead_rows order (q_name q) limit db)"

definition requeueDead ::
  "(job list \<Rightarrow> job list) \<Rightarrow> int \<Rightarrow> 'h queue \<Rightarrow> nat list option \<Rightarrow> jobs_db \<times> audit_log \<Rightarrow> (exn, nat) res \<times> jobs_db \<times> audit_log" where
  "requeueDead order now q ids s =
     (case (case ids of Some is \<Rightarrow> Ok is
            | None \<Rightarrow> rbind (deadJobs order q 100 (fst s)) (\<lambda>ds. Ok (map (j_id \<circ> fst) ds))) of
        Inl e \<Rightarrow> (Throw e, s)
      | Inr target \<Rightarrow>
          if target = [] then (Ok 0, s)
          else case requeue_dead now target (fst s) of
            (n, db') \<Rightarrow> (Ok n, db', snd s @ [(''queue.requeueDead'', q_name q, JObj [(''count'', JNum (int n))])]))"

definition purgeDead :: "'h queue \<Rightarrow> jobs_db \<times> audit_log \<Rightarrow> nat \<times> jobs_db \<times> audit_log" where
  "purgeDead q s =
     (case purge_dead (q_name q) (fst s) of
        (n, db') \<Rightarrow> (n, db', snd s @ [(''queue.purgeDead'', q_name q, JObj [(''count'', JNum (int n))])]))"

section \<open>Pausing\<close>

text \<open>The node's set of paused queues, with the audit log.\<close>

definition pause :: "'h queue \<Rightarrow> string set \<times> audit_log \<Rightarrow> string set \<times> audit_log" where
  "pause q s = (insert (q_name q) (fst s), snd s @ [(''queue.pause'', q_name q, JUndef)])"

definition resume :: "'h queue \<Rightarrow> string set \<times> audit_log \<Rightarrow> string set \<times> audit_log" where
  "resume q s = (fst s - {q_name q}, snd s @ [(''queue.resume'', q_name q, JUndef)])"

definition isPaused :: "'h queue \<Rightarrow> string set \<times> audit_log \<Rightarrow> bool" where
  "isPaused q s \<longleftrightarrow> q_name q \<in> fst s"

text \<open>A delivered job as the consumer sees it (\<open>parseJob\<close> of \<open>app.ts\<close>).\<close>

record delivered =
  d_id :: nat
  d_queue :: string
  d_data :: jsval
  d_attempt :: nat
  d_max :: nat

definition parseJob :: "string \<Rightarrow> claimed_job \<Rightarrow> (exn, delivered) res" where
  "parseJob queue c =
     rbind (parse_exn (c_payload c)) (\<lambda>v.
       Ok \<lparr>d_id = c_id c, d_queue = queue, d_data = v, d_attempt = c_attempt c, d_max = c_max c\<rparr>)"

section \<open>Lemmas\<close>

text \<open>
  What the handle relies on: writing a row raises the pending count of its queue by at most one and no
  other queue's.
\<close>

locale job_store =
  fixes put :: "'p \<Rightarrow> 's \<Rightarrow> nat \<times> 's" and pending :: "string \<Rightarrow> 's \<Rightarrow> nat" and queue_of :: "'p \<Rightarrow> string"
  assumes put_pending: "pending q (snd (put p s)) \<le> pending q s + (if queue_of p = q then 1 else 0)"
begin

fun puts :: "'p list \<Rightarrow> 's \<Rightarrow> 's" where
  "puts [] s = s"
| "puts (p # ps) s = puts ps (snd (put p s))"

lemma puts_pending: "pending q (puts ps s) \<le> pending q s + length (filter (\<lambda>p. queue_of p = q) ps)"
proof (induction ps arbitrary: s)
  case (Cons p ps)
  show ?case using Cons [of "snd (put p s)"] put_pending [of q p s] by auto
qed simp

lemma admitted_bound:
  "int (pending q s) + int n \<le> mx \<Longrightarrow> length ps \<le> n \<Longrightarrow> int (pending q (puts ps s)) \<le> mx"
  using puts_pending [of q ps s] length_filter_le [of "\<lambda>p. queue_of p = q" ps] by linarith

end

lemma throttle_start_jobs: "jobs (snd (throttle_start now p db)) = jobs db" "next_id (snd (throttle_start now p db)) = next_id db"
  by (auto simp: throttle_start_def Let_def split: option.splits)

definition new_row :: "int \<Rightarrow> push_job \<Rightarrow> jobs_db \<Rightarrow> job" where
  "new_row now p db =
     \<lparr>j_id = next_id db, j_queue = pj_queue p, j_payload = pj_payload p, j_status = JPending, j_priority = pj_priority p,
      j_attempt = 0, j_max = max 1 (pj_max p), j_available = fst (throttle_start now p (delete_where (debounced p) db)),
      j_lease = None, j_fence = 0, j_key = pj_key p, j_debounce = pj_debounce p, j_error = None\<rparr>"

lemma insert_job_row_eq:
  "fst (insert_job_row now p db) = next_id db"
  "jobs (snd (insert_job_row now p db)) = filter (\<lambda>j. \<not> debounced p j) (jobs db) @ [new_row now p db]"
  using throttle_start_jobs [of now p "delete_where (debounced p) db"]
  by (auto simp: insert_job_row_def new_row_def Let_def delete_where_def split: prod.splits)

lemma count_filter: "length (filter P (filter Q xs)) \<le> length (filter P xs)"
  by (induction xs) auto

interpretation table: job_store "insert_job_row now" pending_count pj_queue for now
proof
  fix q p s
  show "pending_count q (snd (insert_job_row now p s)) \<le> pending_count q s + (if pj_queue p = q then 1 else 0)"
    using count_filter [of "\<lambda>j. j_queue j = q \<and> j_status j = JPending" "\<lambda>j. \<not> debounced p j" "jobs s"]
    by (simp add: pending_count_def count_where_def insert_job_row_eq new_row_def)
qed

section \<open>Properties\<close>

text \<open>Pushes one after another, each at its own time.\<close>

datatype push_op = PushOne int jsval push_options | PushMany int "jsval list" push_options

definition apply_op :: "exn \<Rightarrow> 'h queue \<Rightarrow> push_op \<Rightarrow> jobs_db \<Rightarrow> jobs_db" where
  "apply_op nc q op db =
     (case op of
        PushOne now d opts \<Rightarrow> snd (push nc now q d opts db)
      | PushMany now ds opts \<Rightarrow> snd (pushBulk nc now q ds opts db))"

lemma native_job_queue [simp]: "pj_queue (native_job name t np) = name" "pj_payload (native_job name t np) = t"
  by (simp_all add: native_job_def)

lemma push_request_admits:
  "push_request nc q d opts db = Inr p \<Longrightarrow> qo_maxPending (q_options q) = Some mx \<Longrightarrow>
   int (pending_count (q_name q) db) + 1 \<le> mx \<and> pj_queue p = q_name q"
  by (auto simp: push_request_def admit_def res_simps split: if_splits)

lemma bulk_request_admits:
  "bulk_request nc q ds opts db = Inr ps \<Longrightarrow> qo_maxPending (q_options q) = Some mx \<Longrightarrow>
   int (pending_count (q_name q) db) + int (length ps) \<le> mx"
  by (auto simp: bulk_request_def admit_def res_simps split: if_splits dest!: rmap_length)

lemma push_jobs_puts: "snd (push_jobs now ps db) = table.puts now ps db"
  by (induction ps arbitrary: db) (auto simp: Let_def case_prod_beta)

lemma push_bound:
  assumes "qo_maxPending (q_options q) = Some mx" and "int (pending_count (q_name q) db) \<le> mx"
  shows "int (pending_count (q_name q) (snd (push nc now q d opts db))) \<le> mx"
proof (cases "push_request nc q d opts db")
  case (Inr p)
  then show ?thesis
    using push_request_admits [OF Inr assms(1)] table.admitted_bound [of "q_name q" db 1 mx "[p]" now]
    by (simp add: push_def case_prod_beta)
qed (simp add: push_def assms)

lemma push_each_bound:
  "qo_maxPending (q_options q) = Some mx \<Longrightarrow> int (pending_count (q_name q) db) \<le> mx \<Longrightarrow>
   int (pending_count (q_name q) (snd (push_each nc now q ds opts db))) \<le> mx"
proof (induction ds arbitrary: db)
  case (Cons d ds)
  obtain r db1 where p: "push nc now q d opts db = (r, db1)" by fastforce
  have "int (pending_count (q_name q) db1) \<le> mx" using push_bound [OF Cons.prems, of nc now d opts] p by simp
  from Cons.IH [OF Cons.prems(1) this] show ?case
    using \<open>int (pending_count (q_name q) db1) \<le> mx\<close> by (auto simp: p split: sum.splits prod.splits)
qed simp

lemma pushBulk_bound:
  assumes "qo_maxPending (q_options q) = Some mx" and "int (pending_count (q_name q) db) \<le> mx"
  shows "int (pending_count (q_name q) (snd (pushBulk nc now q ds opts db))) \<le> mx"
proof (cases "bulk_request nc q ds opts db")
  case (Inr ps)
  have "int (pending_count (q_name q) (snd (push_jobs now ps db))) \<le> mx"
    unfolding push_jobs_puts by (rule table.admitted_bound [OF bulk_request_admits [OF Inr assms(1)] order_refl])
  then show ?thesis using push_each_bound [OF assms] Inr by (auto simp: pushBulk_def split: prod.splits)
qed (use push_each_bound [OF assms] in \<open>simp add: pushBulk_def assms\<close>)

text \<open>
  C24: backpressure. Whatever single and bulk pushes are made on a queue with \<open>maxPending\<close>, one after
  another and with any payloads, options, keys and schema, the number of its waiting jobs never passes
  the bound; the debounced, throttled and keyed paths included.
\<close>

theorem backpressure:
  assumes "qo_maxPending (q_options q) = Some mx" and "int (pending_count (q_name q) db) \<le> mx"
  shows "int (pending_count (q_name q) (fold (apply_op nc q) ops db)) \<le> mx"
  using assms(2)
proof (induction ops arbitrary: db)
  case (Cons op ops)
  have "int (pending_count (q_name q) (apply_op nc q op db)) \<le> mx"
    using push_bound [OF assms(1) Cons.prems] pushBulk_bound [OF assms(1) Cons.prems]
    by (simp add: apply_op_def split: push_op.splits)
  then show ?case using Cons.IH by simp
qed simp

definition plain_options :: queue_options where
  "plain_options = \<lparr>qo_concurrency = None, qo_retries = None, qo_backoffDelay = None, qo_backoffMaxDelay = None,
     qo_lease = None, qo_poll = None, qo_batch = None, qo_rateLimit = None, qo_debounce = None, qo_throttle = None,
     qo_maxPending = None, qo_fair = None, qo_schema = None\<rparr>"

definition no_push_options :: push_options where
  "no_push_options = \<lparr>po_delay = None, po_priority = None, po_retries = None\<rparr>"

definition bounded_queue :: "int \<Rightarrow> unit queue" where
  "bounded_queue mx = new_queue ''mail'' (plain_options\<lparr>qo_maxPending := Some mx\<rparr>)"

theorem backpressure_witness:
  "int (pending_count (q_name (bounded_queue 1))
     (fold (apply_op (Error ''x'') (bounded_queue 1))
        [PushOne 0 (JNum 1) no_push_options, PushMany 5 [JNum 2, JNum 3] no_push_options] empty_db)) \<le> 1"
  by (rule backpressure) (simp_all add: bounded_queue_def new_queue_def plain_options_def pending_count_def count_where_def empty_db_def)

lemma push_Inr:
  "push nc now q d opts db = (Inr i, db') \<Longrightarrow>
   \<exists>p. push_request nc q d opts db = Inr p \<and> i = next_id db \<and> db' = snd (insert_job_row now p db)"
  by (auto simp: push_def case_prod_beta insert_job_row_eq(1) split: sum.splits)

definition effective_retries :: "queue_options \<Rightarrow> push_options \<Rightarrow> int" where
  "effective_retries o' opts =
     (case po_retries opts of Some r \<Rightarrow> r | None \<Rightarrow> (case qo_retries o' of Some r \<Rightarrow> r | None \<Rightarrow> DEFAULT_RETRIES))"

lemma push_request_job:
  assumes "push_request nc q d opts db = Inr p" and "qo_schema (q_options q) = None" and "json_ok d"
  shows "pj_queue p = q_name q" "pj_payload p = json_text d" "pj_max p = nat (effective_retries (q_options q) opts + 1)"
  using assms
  by (auto simp: push_request_def validate_payload_def stringify_json_text native_string_def res_simps pushOptions_def Let_def
      native_job_def effective_retries_def)

lemma push_adds_job:
  assumes "push nc now q d opts db = (Inr i, db')" and "qo_schema (q_options q) = None" and "json_ok d"
  shows "\<exists>j \<in> set (jobs db'). j_status j = JPending \<and> j_queue j = q_name q \<and>
      parseJob (q_name q) (claimed_of (take_lease until j)) =
        Inr \<lparr>d_id = i, d_queue = q_name q, d_data = d, d_attempt = 1,
              d_max = max 1 (nat (effective_retries (q_options q) opts + 1))\<rparr>"
    and "\<And>j. j \<in> set (jobs db) \<Longrightarrow> j_queue j \<noteq> q_name q \<or> j_status j \<noteq> JPending \<Longrightarrow> j \<in> set (jobs db')"
proof -
  obtain p where p: "push_request nc q d opts db = Inr p" and i: "i = next_id db"
    and db': "db' = snd (insert_job_row now p db)"
    using push_Inr [OF assms(1)] by blast
  note job = push_request_job [OF p assms(2,3)]
  have "new_row now p db \<in> set (jobs db')" by (simp add: db' insert_job_row_eq)
  moreover have "parseJob (q_name q) (claimed_of (take_lease until (new_row now p db))) =
      Inr \<lparr>d_id = i, d_queue = q_name q, d_data = d, d_attempt = 1,
              d_max = max 1 (nat (effective_retries (q_options q) opts + 1))\<rparr>"
    using job JSON_parse_text [OF assms(3)]
    by (simp add: parseJob_def claimed_of_def take_lease_def new_row_def parse_exn_def i)
  ultimately show "\<exists>j \<in> set (jobs db'). j_status j = JPending \<and> j_queue j = q_name q \<and>
      parseJob (q_name q) (claimed_of (take_lease until j)) =
        Inr \<lparr>d_id = i, d_queue = q_name q, d_data = d, d_attempt = 1,
              d_max = max 1 (nat (effective_retries (q_options q) opts + 1))\<rparr>"
    using job by (intro bexI [of _ "new_row now p db"]) (simp_all add: new_row_def)
  fix j assume "j \<in> set (jobs db)" and "j_queue j \<noteq> q_name q \<or> j_status j \<noteq> JPending"
  then show "j \<in> set (jobs db')" using job by (auto simp: db' insert_job_row_eq debounced_def)
qed

text \<open>
  A pushed payload is delivered. Without a schema, a successful push of a JSON value adds one waiting
  job with the returned id; a worker that claims it sees exactly that value, on attempt 1 of
  \<open>retries + 1\<close> (at least 1); and no row of another queue and no row that is not waiting is touched.
\<close>

theorem push_delivers:
  assumes "push nc now q d opts db = (Inr i, db')" and "qo_schema (q_options q) = None" and "json_ok d"
  shows "(\<exists>j \<in> set (jobs db'). j_status j = JPending \<and> j_queue j = q_name q \<and>
      parseJob (q_name q) (claimed_of (take_lease until j)) =
        Inr \<lparr>d_id = i, d_queue = q_name q, d_data = d, d_attempt = 1,
              d_max = max 1 (nat (effective_retries (q_options q) opts + 1))\<rparr>) \<and>
    (\<forall>j \<in> set (jobs db). j_queue j \<noteq> q_name q \<or> j_status j \<noteq> JPending \<longrightarrow> j \<in> set (jobs db'))"
  using push_adds_job [OF assms] by blast

theorem push_delivers_witness:
  "\<exists>j \<in> set (jobs (snd (push (Error ''x'') 0 (bounded_queue 1) (JStr ''hi'') no_push_options empty_db))).
     j_status j = JPending \<and> j_queue j = q_name (bounded_queue 1) \<and>
     parseJob (q_name (bounded_queue 1)) (claimed_of (take_lease 9 j)) =
       Inr \<lparr>d_id = 0, d_queue = q_name (bounded_queue 1), d_data = JStr ''hi'', d_attempt = 1,
             d_max = max 1 (nat (effective_retries (q_options (bounded_queue 1)) no_push_options + 1))\<rparr>"
  by (rule push_delivers [of "Error ''x''" 0 "bounded_queue 1" _ _ empty_db, THEN conjunct1])
    (code_simp, simp_all add: bounded_queue_def new_queue_def plain_options_def)

section \<open>The documented overshoot\<close>

text \<open>
  The admission check and the write are separate calls, which is why the option is documented as best
  effort: two pushes that both read the count before either writes both pass.
\<close>

lemma concurrent_pushes_exceed_bound:
  "\<exists>p1 p2. push_request nc (bounded_queue 1) (JNum 1) no_push_options empty_db = Inr p1 \<and>
     push_request nc (bounded_queue 1) (JNum 2) no_push_options empty_db = Inr p2 \<and>
     pending_count ''mail'' (snd (push_jobs 0 [p1, p2] empty_db)) = 2"
  by (intro exI conjI; (simp add: push_request_def bounded_queue_def new_queue_def plain_options_def no_push_options_def
      validate_payload_def native_string_def admit_def pushOptions_def Let_def keyFor_def keyFn_def
      pending_count_def count_where_def empty_db_def; fail)?)
    (simp add: native_job_def insert_job_row_def delete_where_def debounced_def throttle_start_def pending_count_def
      count_where_def empty_db_def)

section \<open>Findings\<close>

text \<open>
  \<open>requeueDead()\<close> without ids takes its targets from \<open>deadJobs()\<close>, whose default limit is 100: further
  dead jobs stay dead.
\<close>

definition dead_row :: "nat \<Rightarrow> job" where
  "dead_row i = \<lparr>j_id = i, j_queue = ''mail'', j_payload = ''1'', j_status = JDead, j_priority = 0, j_attempt = 3, j_max = 3,
     j_available = 0, j_lease = None, j_fence = 1, j_key = None, j_debounce = None, j_error = None\<rparr>"

lemma requeueDead_leaves_the_rest:
  "count_where (\<lambda>j. j_status j = JDead)
     (fst (snd (requeueDead id 0 (bounded_queue 1) None (empty_db\<lparr>jobs := map dead_row [0..<103]\<rparr>, [])))) = 3"
  by code_simp

text \<open>Ids are not checked against the queue: a handle requeues the dead jobs of another queue.\<close>

lemma requeueDead_crosses_queues:
  "fst (requeueDead id 0 (new_queue ''other'' plain_options :: unit queue) (Some [5]) (empty_db\<lparr>jobs := [dead_row 5]\<rparr>, [])) = Inr 1"
  by code_simp

end
