(* ===== verification/Dashboard.thy ===== *)
theory Dashboard
  imports Http Queue
begin

text \<open>
  The dashboard server (\<open>packages/zenzip/src/dashboard.ts\<close>): its two tokens and their roles, the JSON
  routes over the engine, the live stream, and requeueing the dead jobs of a queue. The engine's queries
  are arguments that answer with JSON texts or throw; the job table is that of \<open>Jobs\<close>. The page itself
  (HTML with its browser script) is a text given as an argument here; \<open>Page\<close> has the script.
\<close>

section \<open>Options, tokens, roles\<close>

record dash_options =
  do_token :: "string option"
  do_viewerToken :: "string option"

datatype role = Operator | Viewer

definition tokenMatches :: "string \<Rightarrow> string option \<Rightarrow> bool" where
  "tokenMatches expected provided =
     (case provided of
        None \<Rightarrow> False
      | Some p \<Rightarrow> p \<noteq> [] \<and> length expected = length p \<and> expected = p)"

text \<open>A configured token counts when it is not empty (\<open>Boolean(token)\<close>).\<close>

definition secret :: "string option \<Rightarrow> bool" where
  "secret t = (case t of None \<Rightarrow> False | Some s \<Rightarrow> s \<noteq> [])"

definition authEnabled :: "dash_options \<Rightarrow> bool" where
  "authEnabled opts = (secret (do_token opts) \<or> secret (do_viewerToken opts))"

text \<open>\<open>ctx.query.get\<close>: the first value of the key.\<close>

definition query_get :: "request \<Rightarrow> string \<Rightarrow> string option" where
  "query_get q k =
     (case get_prop (rq_query q) k of
        Some (JStr v) \<Rightarrow> Some v
      | Some (JArr (JStr v # _)) \<Rightarrow> Some v
      | _ \<Rightarrow> None)"

definition bearer :: "request \<Rightarrow> string option" where
  "bearer q =
     (case map_get (rq_headers q) ''authorization'' of
        Some h \<Rightarrow> if startsWith h ''Bearer '' then Some (drop 7 h) else None
      | None \<Rightarrow> None)"

definition provided :: "request \<Rightarrow> string option" where
  "provided q = (case bearer q of Some b \<Rightarrow> Some b | None \<Rightarrow> query_get q ''token'')"

definition accepts :: "string option \<Rightarrow> string option \<Rightarrow> bool" where
  "accepts configured p = (case configured of Some t \<Rightarrow> t \<noteq> [] \<and> tokenMatches t p | None \<Rightarrow> False)"

definition roleOf :: "dash_options \<Rightarrow> request \<Rightarrow> role option" where
  "roleOf opts q =
     (if \<not> authEnabled opts then Some Operator
      else if accepts (do_token opts) (provided q) then Some Operator
      else if accepts (do_viewerToken opts) (provided q) then Some Viewer
      else None)"

text \<open>What \<open>authorized\<close> does to the context when it refuses; \<open>None\<close> when it lets the request pass.\<close>

datatype need = Read | Write

definition refusal :: "dash_options \<Rightarrow> need \<Rightarrow> request \<Rightarrow> ctx_act list option" where
  "refusal opts need q =
     (case roleOf opts q of
        None \<Rightarrow> Some [CtxStatus 401, CtxJson (JObj [(''error'', JStr ''unauthorized'')])]
      | Some r \<Rightarrow>
          if need = Write \<and> r \<noteq> Operator
          then Some [CtxStatus 403, CtxJson (JObj [(''error'', JStr ''forbidden: operator role required'')])]
          else None)"

section \<open>The engine's queries\<close>

text \<open>
  \<open>dn_up\<close> is the getter \<open>app._native\<close>, which throws once the application has stopped; \<open>dn_Number\<close> is
  JavaScript's \<open>Number\<close> on the text of a query parameter; \<open>dn_bad_json\<close> is the error \<open>JSON.parse\<close> throws;
  \<open>dn_order\<close> is the store's order of dead rows (latest update first).
\<close>

record 'n dash_native =
  dn_up :: "'n \<Rightarrow> (thrown, unit) res"
  dn_queues :: "jobs_db \<times> 'n \<Rightarrow> (thrown, string) res"
  dn_schedules :: "jobs_db \<times> 'n \<Rightarrow> (thrown, string) res"
  dn_runs :: "string option \<Rightarrow> jsval \<Rightarrow> nat \<Rightarrow> jobs_db \<times> 'n \<Rightarrow> (thrown, string) res"
  dn_events :: "nat \<Rightarrow> jobs_db \<times> 'n \<Rightarrow> (thrown, string) res"
  dn_metrics :: "jobs_db \<times> 'n \<Rightarrow> (thrown, string) res"
  dn_getRun :: "string \<Rightarrow> jobs_db \<times> 'n \<Rightarrow> (thrown, string option) res"
  dn_runSteps :: "string \<Rightarrow> jobs_db \<times> 'n \<Rightarrow> (thrown, string) res"
  dn_order :: "job list \<Rightarrow> job list"
  dn_Number :: "string \<Rightarrow> jsval"
  dn_bad_json :: "string \<Rightarrow> thrown"

definition dash_parse :: "'n dash_native \<Rightarrow> string \<Rightarrow> (thrown, jsval) res" where
  "dash_parse eng raw = (case JSON_parse raw of Some v \<Rightarrow> Ok v | None \<Rightarrow> Throw (dn_bad_json eng raw))"

section \<open>The routes\<close>

text \<open>
  A handler reads the request and the engine; it acts on its context, returns or throws, and leaves the job
  table behind. A refused request returns undefined after the refusal was answered.
\<close>

type_synonym 'n dash_handler = "request \<Rightarrow> jobs_db \<times> 'n \<Rightarrow> (ctx_act list \<times> (thrown, jsval) res) \<times> jobs_db"

definition gated :: "dash_options \<Rightarrow> need \<Rightarrow> 'n dash_handler \<Rightarrow> 'n dash_handler" where
  "gated opts need f = (\<lambda>q s.
     case refusal opts need q of
       Some acts \<Rightarrow> ((acts, Ok JUndef), fst s)
     | None \<Rightarrow> f q s)"

definition overview :: "'n dash_native \<Rightarrow> jobs_db \<times> 'n \<Rightarrow> (thrown, jsval) res" where
  "overview eng s =
     rbind (dn_queues eng s) (\<lambda>queues. rbind (dn_schedules eng s) (\<lambda>schedules.
     rbind (dn_runs eng None JUndef 25 s) (\<lambda>runs. rbind (dn_events eng 25 s) (\<lambda>events.
     rbind (dash_parse eng queues) (\<lambda>q. rbind (dash_parse eng schedules) (\<lambda>sc.
     rbind (dash_parse eng runs) (\<lambda>r. rbind (dash_parse eng events) (\<lambda>ev.
     rbind (dn_metrics eng s) (\<lambda>metrics. rbind (dash_parse eng metrics) (\<lambda>m.
       Ok (JObj [(''queues'', q), (''schedules'', sc), (''runs'', r), (''events'', ev), (''metrics'', m)])))))))))))"

definition page_handler :: "string \<Rightarrow> 'n dash_handler" where
  "page_handler html q s = (([CtxRes (head_end 200 ''text/html; charset=utf-8'' html)], Ok JUndef), fst s)"

definition overview_handler :: "'n dash_native \<Rightarrow> 'n dash_handler" where
  "overview_handler eng q s = (([], overview eng s), fst s)"

definition metrics_handler :: "'n dash_native \<Rightarrow> 'n dash_handler" where
  "metrics_handler eng q s = (([], rbind (dn_metrics eng s) (dash_parse eng)), fst s)"

text \<open>One frame of the live stream; an overview that fails writes nothing.\<close>

definition sse_frame :: "(thrown, jsval) res \<Rightarrow> string" where
  "sse_frame r = (case r of Inl _ \<Rightarrow> [] | Inr v \<Rightarrow> ''data: '' @ text_of v @ [CHR 0x0A, CHR 0x0A])"

definition stream_handler :: "'n dash_native \<Rightarrow> 'n dash_handler" where
  "stream_handler eng q s =
     (([CtxRes (\<lambda>r. (writeHead 200 [(''content-type'', ''text/event-stream''), (''cache-control'', ''no-cache''),
          (''connection'', ''keep-alive'')] r)\<lparr>rs_body := sse_frame (overview eng s)\<rparr>)], Ok JUndef), fst s)"

definition runs_handler :: "'n dash_native \<Rightarrow> 'n dash_handler" where
  "runs_handler eng q s =
     (([], rbind (dn_runs eng (query_get q ''workflow'')
              (case query_get q ''status'' of Some t \<Rightarrow> dn_Number eng t | None \<Rightarrow> JUndef) 100 s) (dash_parse eng)), fst s)"

definition route_param :: "request \<Rightarrow> string \<Rightarrow> string" where
  "route_param q k = (case map_get (rq_params q) k of Some v \<Rightarrow> v | None \<Rightarrow> [])"

definition run_handler :: "'n dash_native \<Rightarrow> 'n dash_handler" where
  "run_handler eng q s =
     (case dn_getRun eng (route_param q ''id'') s of
        Inl e \<Rightarrow> (([], Throw e), fst s)
      | Inr raw \<Rightarrow>
          (if \<not> secret raw then (([CtxStatus 404, CtxJson (JObj [(''error'', JStr ''run not found'')])], Ok JUndef), fst s)
           else (([], rbind (dn_runSteps eng (route_param q ''id'') s) (\<lambda>st. rbind (dash_parse eng st) (\<lambda>steps.
                   rbind (dash_parse eng (the raw)) (\<lambda>run. Ok (JObj [(''run'', run), (''steps'', steps)]))))), fst s)))"

definition requeue_handler :: "'n dash_native \<Rightarrow> int \<Rightarrow> 'n dash_handler" where
  "requeue_handler eng now q s =
     (case dn_up eng (snd s) of
        Inl e \<Rightarrow> (([], Throw e), fst s)
      | Inr _ \<Rightarrow>
          (let dead = dead_rows (dn_order eng) (route_param q ''name'') 1000 (fst s) in
           if dead = [] then (([], Ok (JObj [(''requeued'', JNum 0)])), fst s)
           else case requeue_dead now (map j_id dead) (fst s) of
             (n, db') \<Rightarrow> (([], Ok (JObj [(''requeued'', JNum (int n))])), db')))"

definition dash_routes :: "'n dash_native \<Rightarrow> dash_options \<Rightarrow> string \<Rightarrow> int \<Rightarrow> (string \<times> string \<times> 'n dash_handler) list" where
  "dash_routes eng opts html now =
     [(''GET'', ''/'', gated opts Read (page_handler html)),
      (''GET'', ''/api/overview'', gated opts Read (overview_handler eng)),
      (''GET'', ''/api/stream'', gated opts Read (stream_handler eng)),
      (''GET'', ''/api/metrics'', gated opts Read (metrics_handler eng)),
      (''GET'', ''/api/runs'', gated opts Read (runs_handler eng)),
      (''GET'', ''/api/runs/:id'', gated opts Read (run_handler eng)),
      (''POST'', ''/api/queues/:name/requeue-dead'', gated opts Write (requeue_handler eng now))]"

section \<open>Serving one request\<close>

text \<open>
  The handlers closed over the engine are what \<open>serveRouter\<close> serves: a node handler without middleware.
  \<open>dash_next\<close> is the job table when the request is done.
\<close>

definition closed_routes :: "jobs_db \<times> 'n \<Rightarrow> (string \<times> string \<times> 'n dash_handler) list \<Rightarrow> (string \<times> string \<times> route_handler) list" where
  "closed_routes s rs = map (\<lambda>(m, p, h). (m, p, CtxHandler (\<lambda>q. fst (h q s)))) rs"

definition dash_serve ::
  "(string \<Rightarrow> string option) \<Rightarrow> (string \<times> string \<times> 'n dash_handler) list \<Rightarrow> jobs_db \<times> 'n \<Rightarrow> string \<Rightarrow> exchange \<Rightarrow> exchange" where
  "dash_serve dec rs s raw x = nodeHandler dec (register (closed_routes s rs)) [] raw x"

definition with_body :: "string \<Rightarrow> request \<Rightarrow> request" where
  "with_body raw q = q\<lparr>rq_body := (if mayHaveBody q then readJsonBody raw else JUndef)\<rparr>"

definition dash_next ::
  "(string \<Rightarrow> string option) \<Rightarrow> (string \<times> string \<times> 'n dash_handler) list \<Rightarrow> jobs_db \<times> 'n \<Rightarrow> string \<Rightarrow> request \<Rightarrow> jobs_db" where
  "dash_next dec rs s raw q =
     (case router_match dec (register rs) (rq_method q) (rq_path q) of
        Inr (Some (h, params)) \<Rightarrow> snd (h ((with_body raw q)\<lparr>rq_params := params\<rparr>) s)
      | _ \<Rightarrow> fst s)"

section \<open>Routing does not depend on what is routed to\<close>

definition hnd :: "('g \<Rightarrow> 'h) \<Rightarrow> 'g routes \<Rightarrow> 'h routes" where
  "hnd F R = map (\<lambda>(p, h). (p, F h)) R"

lemma hnd_tails:
  "static_tails seg (hnd F R) = hnd F (static_tails seg R)" "param_tails (hnd F R) = hnd F (param_tails R)"
  "param_names (hnd F R) = param_names R" "here (hnd F R) = map F (here R)"
  by (induction R)
    (auto simp: hnd_def static_tails_def param_tails_def param_names_def here_def List.map_filter_simps
      split: list.splits option.splits if_splits)

lemma hnd_Nil_iff [simp]: "hnd F R = [] \<longleftrightarrow> R = []"
  by (simp add: hnd_def)

lemma route_spec_hnd:
  "route_spec dec (hnd F R) params segs = rbind (route_spec dec R params segs) (\<lambda>m. Ok (map_option (\<lambda>(h, ps). (F h, ps)) m))"
proof (induction segs arbitrary: R params)
  case Nil
  then show ?case by (auto simp: hnd_tails split: list.split)
next
  case (Cons seg segs)
  then show ?case by (auto simp: hnd_tails split: option.split)
qed

lemma routes_for_map: "routes_for meth (map (\<lambda>(m, p, h). (m, p, F h)) rs) = hnd F (routes_for meth rs)"
  by (induction rs) (auto simp: routes_for_def hnd_def List.map_filter_simps)

lemma router_match_map:
  "router_match dec (register (map (\<lambda>(m, p, h). (m, p, F h)) rs)) meth path =
     rbind (router_match dec (register rs) meth path) (\<lambda>m. Ok (map_option (\<lambda>(h, ps). (F h, ps)) m))"
  by (simp add: router_match_spec routes_for_map route_spec_hnd)

section \<open>What the client gets\<close>

text \<open>The response of a matched route: what its handler did, then its value, or the error envelope.\<close>

definition ctx_outcome :: "ctx_act list \<times> (thrown, jsval) res \<Rightarrow> response \<Rightarrow> response" where
  "ctx_outcome out r =
     (let s = fold ctx_do (fst out) (ctx_start r) in
      case snd out of Inl e \<Rightarrow> finalError e (cs_res s) | Inr v \<Rightarrow> cs_res (ctx_finish v s))"

lemma dash_serve_matched:
  assumes "router_match dec (register rs) (rq_method (ex_req x)) (rq_path (ex_req x)) = Ok (Some (h, params))"
  shows "ex_res (dash_serve dec rs s raw x) =
    ctx_outcome (fst (h ((with_body raw (ex_req x))\<lparr>rq_params := params\<rparr>) s)) (ex_res x)"
proof -
  let ?q = "(with_body raw (ex_req x))\<lparr>rq_params := params\<rparr>"
  have m: "router_match dec (register (closed_routes s rs)) (rq_method (ex_req x)) (rq_path (ex_req x)) =
      Ok (Some (CtxHandler (\<lambda>q. fst (h q s)), params))"
    unfolding closed_routes_def using assms by (simp add: router_match_map)
  obtain acts out where h: "fst (h ?q s) = (acts, out)" by fastforce
  show ?thesis
    using m h by (cases out)
      (simp_all add: dash_serve_def nodeHandler_def Let_def no_middleware_chain dispatchRoute_def run_route_def with_body_def
        chain_start_def on_res_def numeral_2_eq_2 final_without_layers ctx_outcome_def del: handle_error.simps)
qed

lemma refused_outcome:
  "\<not> rs_sent r \<Longrightarrow> ctx_outcome ([CtxStatus sc, CtxJson v], Ok JUndef) r = head_end sc ''application/json'' (text_of v) r"
  by (simp add: ctx_outcome_def ctx_start_def respond_def ctx_finish_def Let_def)

section \<open>Who may do what\<close>

lemma provided_cong:
  assumes "rq_headers q = rq_headers q'" and "rq_query q = rq_query q'"
  shows "provided q = provided q'"
  unfolding provided_def bearer_def query_get_def assms ..

lemma roleOf_ignores [simp]: "roleOf opts (q\<lparr>rq_params := ps\<rparr>) = roleOf opts q" "roleOf opts (with_body raw q) = roleOf opts q"
proof -
  have "provided (q\<lparr>rq_params := ps\<rparr>) = provided q" "provided (with_body raw q) = provided q"
    by (rule provided_cong; simp add: with_body_def)+
  then show "roleOf opts (q\<lparr>rq_params := ps\<rparr>) = roleOf opts q" "roleOf opts (with_body raw q) = roleOf opts q"
    by (simp_all only: roleOf_def)
qed

lemma refusal_ignores [simp]: "refusal opts need (q\<lparr>rq_params := ps\<rparr>) = refusal opts need q" "refusal opts need (with_body raw q) = refusal opts need q"
  by (simp_all add: refusal_def)

lemma accepts_iff: "accepts configured p \<longleftrightarrow> (\<exists>t. t \<noteq> [] \<and> configured = Some t \<and> p = Some t)"
  by (auto simp: accepts_def tokenMatches_def split: option.splits)

lemma roleOf_operator:
  "authEnabled opts \<Longrightarrow> roleOf opts q = Some Operator \<longleftrightarrow> (\<exists>t. t \<noteq> [] \<and> do_token opts = Some t \<and> provided q = Some t)"
  by (auto simp: roleOf_def accepts_iff)

lemma roleOf_none:
  "authEnabled opts \<Longrightarrow> roleOf opts q = None \<longleftrightarrow>
     (\<forall>t. t \<noteq> [] \<and> provided q = Some t \<longrightarrow> do_token opts \<noteq> Some t \<and> do_viewerToken opts \<noteq> Some t)"
  by (auto simp: roleOf_def accepts_iff)

lemmas plain_handlers = page_handler_def overview_handler_def metrics_handler_def stream_handler_def runs_handler_def run_handler_def

text \<open>Every route is gated; only the requeue route changes the table, and it needs the operator.\<close>

lemma dash_route_gated:
  assumes "(m, p, h) \<in> set (dash_routes eng opts html now)"
  obtains f where "h = gated opts (if m = ''POST'' then Write else Read) f"
    and "m \<noteq> ''POST'' \<Longrightarrow> snd (f q s) = fst s"
    and "toUpperCase m = m"
  using assms by (auto simp: dash_routes_def plain_handlers toUpperCase_def toUpperC_def code_def split: sum.splits)

lemma matched_gated:
  assumes "router_match dec (register (dash_routes eng opts html now)) meth path = Ok (Some (h, params))"
  obtains f where "h = gated opts (if meth = ''POST'' then Write else Read) f" and "meth \<noteq> ''POST'' \<Longrightarrow> snd (f q s) = fst s"
proof -
  from trie.find_sound [OF assms] obtain m p where mp: "(m, p, h) \<in> set (dash_routes eng opts html now)" "toUpperCase m = meth"
    by (auto simp: routes_for_def List.map_filter_def split: if_splits)
  from dash_route_gated [OF mp(1), of q s] mp(2) show ?thesis using that by metis
qed

text \<open>
  C16: The dashboard's roles. On a dashboard with a configured token, a request to one of its routes that
  carries neither token is answered 401 with nothing but the refusal and changes no job; a request without
  the operator token, the viewer's included, changes no job whatever it asks for, and a POST is refused
  with 401 or 403 before its handler runs.
\<close>

theorem dashboard_roles:
  assumes "authEnabled opts" and "\<not> rs_sent (ex_res x)"
    and "router_match dec (register (dash_routes eng opts html now)) (rq_method (ex_req x)) (rq_path (ex_req x)) = Ok (Some m)"
  shows "((\<forall>t. t \<noteq> [] \<and> provided (ex_req x) = Some t \<longrightarrow> do_token opts \<noteq> Some t \<and> do_viewerToken opts \<noteq> Some t) \<longrightarrow>
      ex_res (dash_serve dec (dash_routes eng opts html now) s raw x) =
        head_end 401 ''application/json'' (text_of (JObj [(''error'', JStr ''unauthorized'')])) (ex_res x)) \<and>
    ((\<forall>t. t \<noteq> [] \<and> provided (ex_req x) = Some t \<longrightarrow> do_token opts \<noteq> Some t) \<longrightarrow>
      dash_next dec (dash_routes eng opts html now) s raw (ex_req x) = fst s \<and>
      (rq_method (ex_req x) = ''POST'' \<longrightarrow>
        rs_status (ex_res (dash_serve dec (dash_routes eng opts html now) s raw x)) \<in> {401, 403}))"
proof -
  obtain h ps where m: "m = (h, ps)" by fastforce
  let ?q = "(with_body raw (ex_req x))\<lparr>rq_params := ps\<rparr>"
  obtain f where h: "h = gated opts (if rq_method (ex_req x) = ''POST'' then Write else Read) f"
    and pure: "rq_method (ex_req x) \<noteq> ''POST'' \<Longrightarrow> snd (f ?q s) = fst s"
    using matched_gated [OF assms(3) [unfolded m], of ?q s] by blast
  have next': "dash_next dec (dash_routes eng opts html now) s raw (ex_req x) = snd (h ?q s)"
    using assms(3) by (simp add: dash_next_def m)
  note serve = dash_serve_matched [OF assms(3) [unfolded m], of s raw]
  have refused: "refusal opts Read (ex_req x) = Some [CtxStatus 401, CtxJson (JObj [(''error'', JStr ''unauthorized'')])]"
    "refusal opts Write (ex_req x) = Some [CtxStatus 401, CtxJson (JObj [(''error'', JStr ''unauthorized'')])]"
    if "roleOf opts (ex_req x) = None" using that by (simp_all add: refusal_def)
  have unknown: "ex_res (dash_serve dec (dash_routes eng opts html now) s raw x) =
      head_end 401 ''application/json'' (text_of (JObj [(''error'', JStr ''unauthorized'')])) (ex_res x)"
    if "roleOf opts (ex_req x) = None"
    unfolding serve h using refused [OF that] assms(2) by (simp add: gated_def refused_outcome)
  have no_write: "snd (h ?q s) = fst s" if "roleOf opts (ex_req x) \<noteq> Some Operator"
    using pure that by (auto simp: h gated_def refusal_def split: option.split)
  have denied: "rs_status (ex_res (dash_serve dec (dash_routes eng opts html now) s raw x)) \<in> {401, 403}"
    if "roleOf opts (ex_req x) \<noteq> Some Operator" "rq_method (ex_req x) = ''POST''"
    unfolding serve h using that assms(2)
    by (cases "roleOf opts (ex_req x)") (auto simp: gated_def refusal_def refused_outcome head_end_def writeHead_def)
  have anon: "roleOf opts (ex_req x) = None"
    if "\<forall>t. t \<noteq> [] \<and> provided (ex_req x) = Some t \<longrightarrow> do_token opts \<noteq> Some t \<and> do_viewerToken opts \<noteq> Some t"
    using that roleOf_none [OF assms(1)] by blast
  have no_op: "roleOf opts (ex_req x) \<noteq> Some Operator"
    if "\<forall>t. t \<noteq> [] \<and> provided (ex_req x) = Some t \<longrightarrow> do_token opts \<noteq> Some t"
    using that roleOf_operator [OF assms(1)] by blast
  show ?thesis
    unfolding next' by (intro conjI impI) (erule unknown [OF anon], erule no_write [OF no_op], erule denied [OF no_op])
qed

definition demo_native :: "unit dash_native" where
  "demo_native =
     \<lparr>dn_up = (\<lambda>_. Ok ()), dn_queues = (\<lambda>_. Ok ''[]''), dn_schedules = (\<lambda>_. Ok ''[]''), dn_runs = (\<lambda>_ _ _ _. Ok ''[]''),
      dn_events = (\<lambda>_ _. Ok ''[]''), dn_metrics = (\<lambda>_. Ok ''{}''), dn_getRun = (\<lambda>_ _. Ok None), dn_runSteps = (\<lambda>_ _. Ok ''[]''),
      dn_order = (\<lambda>l. l), dn_Number = (\<lambda>_. JUndef), dn_bad_json = (\<lambda>raw. plain_error ''SyntaxError'' raw)\<rparr>"

definition two_tokens :: dash_options where
  "two_tokens = \<lparr>do_token = Some ''op'', do_viewerToken = Some ''view''\<rparr>"

definition requeue_request :: "string \<Rightarrow> exchange" where
  "requeue_request token =
     (demo_request ''POST'' ''/api/queues/mail/requeue-dead'')\<lparr>ex_req :=
        (ex_req (demo_request ''POST'' ''/api/queues/mail/requeue-dead''))\<lparr>rq_headers := [(''authorization'', ''Bearer '' @ token)]\<rparr>\<rparr>"

definition one_dead :: jobs_db where
  "one_dead = empty_db\<lparr>jobs := [dead_row 4]\<rparr>"

text \<open>The requeue route matches every path of its form, whatever the queue is called.\<close>

lemma post_routes:
  "routes_for ''POST'' (dash_routes eng opts html now) =
     [([''api'', ''queues'', '':name'', ''requeue-dead''], gated opts Write (requeue_handler eng now))]"
proof -
  have up: "toUpperCase ''GET'' = ''GET''" "toUpperCase ''POST'' = ''POST''" by code_simp+
  have segs: "path_segs ''/api/queues/:name/requeue-dead'' = [''api'', ''queues'', '':name'', ''requeue-dead'']" by code_simp
  show ?thesis unfolding routes_for_def dash_routes_def by (simp add: List.map_filter_simps up segs startsWith_Cons del: path_segs_slash)
qed

lemma requeue_route:
  assumes "path_segs path = [''api'', ''queues'', seg, ''requeue-dead'']" and "dec seg = Some name"
  shows "router_match dec (register (dash_routes eng opts html now)) ''POST'' path =
    Ok (Some (gated opts Write (requeue_handler eng now), [(''name'', name)]))"
  using assms
  by (simp add: router_match_spec post_routes is_param_def static_tails_def param_tails_def param_names_def here_def
      List.map_filter_simps startsWith_Cons)

theorem dashboard_roles_witness:
  "rs_status (ex_res (dash_serve Some (dash_routes demo_native two_tokens ''<html>'' 9) (one_dead, ()) [] (requeue_request ''view''))) \<in> {401, 403} \<and>
   dash_next Some (dash_routes demo_native two_tokens ''<html>'' 9) (one_dead, ()) [] (ex_req (requeue_request ''view'')) = one_dead"
proof -
  let ?x = "requeue_request ''view''"
  have a: "authEnabled two_tokens" by (simp add: two_tokens_def authEnabled_def secret_def)
  have u: "\<not> rs_sent (ex_res ?x)" by (simp add: requeue_request_def demo_request_def)
  have m: "router_match Some (register (dash_routes demo_native two_tokens ''<html>'' 9)) (rq_method (ex_req ?x)) (rq_path (ex_req ?x)) =
      Ok (Some (gated two_tokens Write (requeue_handler demo_native 9), [(''name'', ''mail'')]))"
    using requeue_route [of "''/api/queues/mail/requeue-dead''" "''mail''" Some "''mail''" demo_native two_tokens "''<html>''" 9]
    by (simp add: requeue_request_def demo_request_def path_segs_def)
  have p: "provided (ex_req ?x) = Some ''view''" by (simp add: requeue_request_def provided_def bearer_def startsWith_iff)
  show ?thesis
    using dashboard_roles [OF a u m, of "(one_dead, ())" "[]"] p by (simp add: two_tokens_def requeue_request_def demo_request_def)
qed

section \<open>Requeueing the dead jobs of a queue\<close>

definition revived :: "int \<Rightarrow> job \<Rightarrow> job" where
  "revived now j = j\<lparr>j_status := JPending, j_attempt := 0, j_error := None, j_available := now\<rparr>"

definition is_dead :: "string \<Rightarrow> job \<Rightarrow> bool" where
  "is_dead q j \<longleftrightarrow> j_queue j = q \<and> j_status j = JDead"

lemma dead_rows_all:
  assumes "\<And>l. mset (order l) = mset l" and "length (filter (is_dead q) (jobs db)) \<le> 1000"
  shows "set (dead_rows order q 1000 db) = set (filter (is_dead q) (jobs db))"
proof -
  have "length (order (filter (is_dead q) (jobs db))) = length (filter (is_dead q) (jobs db))"
    using assms(1) by (metis size_mset)
  then have "dead_rows order q 1000 db = order (filter (is_dead q) (jobs db))"
    using assms(2) by (simp add: dead_rows_def is_dead_def [abs_def])
  then show ?thesis using assms(1) by (metis set_mset_mset)
qed

lemma requeue_ids:
  assumes "distinct (map j_id (jobs db))" and "set ds = set (filter (is_dead q) (jobs db))" and "j \<in> set (jobs db)"
  shows "j_id j \<in> set (map j_id ds) \<and> j_status j = JDead \<longleftrightarrow> is_dead q j"
proof -
  have inj: "inj_on j_id (set (jobs db))" using assms(1) by (simp add: distinct_map)
  have "set ds \<subseteq> set (jobs db)" unfolding assms(2) by simp
  then have "j_id j \<in> j_id ` set ds \<longleftrightarrow> j \<in> set ds" by (rule inj_on_image_mem_iff [OF inj assms(3)])
  then show ?thesis using assms(3) unfolding set_map assms(2) by (simp add: is_dead_def)
qed

lemma requeue_all:
  assumes "distinct (map j_id (jobs db))" and "set ds = set (filter (is_dead q) (jobs db))"
  shows "requeue_dead now (map j_id ds) db =
    (length (filter (is_dead q) (jobs db)), db\<lparr>jobs := map (\<lambda>j. if is_dead q j then revived now j else j) (jobs db)\<rparr>)"
  using requeue_ids [OF assms]
  by (simp add: requeue_dead_def count_where_def update_where_def revived_def cong: filter_cong map_cong)

text \<open>
  What the operator's button does. A POST to the requeue route of a queue, with the operator token,
  makes every dead job of that queue (up to a thousand) pending again with a fresh attempt budget and no
  error, leaves every other job of the table as it was, and answers 200 with the number of jobs revived.
\<close>

theorem operator_requeues:
  assumes "do_token opts = Some t" and "t \<noteq> []" and "provided (ex_req x) = Some t"
    and "rq_method (ex_req x) = ''POST''" and "path_segs (rq_path (ex_req x)) = [''api'', ''queues'', seg, ''requeue-dead'']" and "dec seg = Some q"
    and "\<not> rs_sent (ex_res x)" and "rs_status (ex_res x) = 200" and "dn_up eng n = Ok ()"
    and "\<And>l. mset (dn_order eng l) = mset l" and "distinct (map j_id (jobs db))" and "length (filter (is_dead q) (jobs db)) \<le> 1000"
  shows "dash_next dec (dash_routes eng opts html now) (db, n) raw (ex_req x) =
      db\<lparr>jobs := map (\<lambda>j. if is_dead q j then revived now j else j) (jobs db)\<rparr> \<and>
    rs_status (ex_res (dash_serve dec (dash_routes eng opts html now) (db, n) raw x)) = 200 \<and>
    JSON_parse (rs_body (ex_res (dash_serve dec (dash_routes eng opts html now) (db, n) raw x))) =
      Some (JObj [(''requeued'', JNum (int (length (filter (is_dead q) (jobs db)))))])"
proof -
  let ?q = "(with_body raw (ex_req x))\<lparr>rq_params := [(''name'', q)]\<rparr>"
  let ?k = "length (filter (is_dead q) (jobs db))"
  let ?db = "db\<lparr>jobs := map (\<lambda>j. if is_dead q j then revived now j else j) (jobs db)\<rparr>"
  have m: "router_match dec (register (dash_routes eng opts html now)) (rq_method (ex_req x)) (rq_path (ex_req x)) =
      Ok (Some (gated opts Write (requeue_handler eng now), [(''name'', q)]))"
    unfolding assms(4) by (rule requeue_route; fact)
  have "authEnabled opts" using assms(1,2) by (simp add: authEnabled_def secret_def)
  then have pass: "refusal opts Write ?q = None"
    using roleOf_operator [of opts "ex_req x"] assms(1-3) by (simp add: refusal_def)
  have ds: "set (dead_rows (dn_order eng) q 1000 db) = set (filter (is_dead q) (jobs db))"
    by (rule dead_rows_all [OF assms(10,12)])
  have "requeue_handler eng now ?q (db, n) = (([], Ok (JObj [(''requeued'', JNum (int ?k))])), ?db)"
  proof (cases "dead_rows (dn_order eng) q 1000 db = []")
    case True
    then have none: "filter (is_dead q) (jobs db) = []" using ds by (metis list.set(1) set_empty)
    then have "map (\<lambda>j. if is_dead q j then revived now j else j) (jobs db) = jobs db"
      by (simp add: filter_empty_conv map_idI)
    then show ?thesis using True none assms(9) by (simp add: requeue_handler_def route_param_def Let_def)
  next
    case False
    then show ?thesis using requeue_all [OF assms(11) ds] assms(9) by (simp add: requeue_handler_def route_param_def Let_def)
  qed
  then have h: "gated opts Write (requeue_handler eng now) ?q (db, n) = (([], Ok (JObj [(''requeued'', JNum (int ?k))])), ?db)"
    unfolding gated_def pass by simp
  have ok: "json_ok (JObj [(''requeued'', JNum (int ?k))])" by simp
  have enc: "text_of (JObj [(''requeued'', JNum (int ?k))]) = json_text (JObj [(''requeued'', JNum (int ?k))])"
    unfolding text_of_def stringify_json_text [OF ok] by simp
  have out: "ex_res (dash_serve dec (dash_routes eng opts html now) (db, n) raw x) =
      head_end 200 ''application/json'' (text_of (JObj [(''requeued'', JNum (int ?k))])) (ex_res x)"
    unfolding dash_serve_matched [OF m] h using assms(7,8) by (simp add: ctx_outcome_def ctx_start_def ctx_finish_def respond_def)
  have "dash_next dec (dash_routes eng opts html now) (db, n) raw (ex_req x) = ?db"
    using m h by (simp add: dash_next_def)
  then show ?thesis
    unfolding out head_end_def writeHead_def enc using JSON_parse_text [OF ok] by simp
qed

theorem operator_requeues_witness:
  "jobs (dash_next Some (dash_routes demo_native two_tokens ''<html>'' 9) (one_dead, ()) [] (ex_req (requeue_request ''op''))) = [revived 9 (dead_row 4)] \<and>
   JSON_parse (rs_body (ex_res (dash_serve Some (dash_routes demo_native two_tokens ''<html>'' 9) (one_dead, ()) [] (requeue_request ''op'')))) =
     Some (JObj [(''requeued'', JNum 1)])"
proof -
  let ?x = "requeue_request ''op''"
  have p: "provided (ex_req ?x) = Some ''op''" by (simp add: requeue_request_def provided_def bearer_def startsWith_iff)
  have r: "rq_method (ex_req ?x) = ''POST''" "path_segs (rq_path (ex_req ?x)) = [''api'', ''queues'', ''mail'', ''requeue-dead'']"
    "\<not> rs_sent (ex_res ?x)" "rs_status (ex_res ?x) = 200"
    by (simp_all add: requeue_request_def demo_request_def path_segs_def)
  have t: "do_token two_tokens = Some ''op''" by (simp add: two_tokens_def)
  have d: "is_dead ''mail'' (dead_row 4)" by (simp add: is_dead_def dead_row_def)
  show ?thesis
    using operator_requeues [OF t _ p r(1,2) _ r(3,4), where dec = Some and eng = demo_native and n = "()" and db = one_dead and q = "''mail''" and now = 9 and html = "''<html>''" and raw = "[]"]
    by (simp add: demo_native_def one_dead_def empty_db_def d)
qed

section \<open>The live stream\<close>

text \<open>
  After its headers the handler awaits the first frame, and only then starts the timer and listens for the
  connection to close. A tick that finds the stream open awaits an overview and writes it when it arrives,
  the stream having been closed meanwhile or not. \<open>st_inflight\<close> counts the ticks that wait for theirs.
\<close>

record sse =
  st_open :: bool
  st_listening :: bool
  st_timer :: bool
  st_closed :: bool
  st_inflight :: nat
  st_frames :: "string list"

definition sse_start :: sse where
  "sse_start = \<lparr>st_open = True, st_listening = False, st_timer = False, st_closed = False, st_inflight = 0, st_frames = []\<rparr>"

datatype sse_event = First "(thrown, jsval) res" | Tick | Arrived "(thrown, jsval) res" | Disconnect

definition push_frame :: "(thrown, jsval) res \<Rightarrow> sse \<Rightarrow> sse" where
  "push_frame r s = (case r of Inl _ \<Rightarrow> s | Inr _ \<Rightarrow> s\<lparr>st_frames := st_frames s @ [sse_frame r]\<rparr>)"

fun sse_step :: "sse_event \<Rightarrow> sse \<Rightarrow> sse" where
  "sse_step (First r) s =
     (if st_listening s then s else (push_frame r s)\<lparr>st_timer := True, st_listening := True\<rparr>)"
| "sse_step Tick s =
     (if \<not> st_timer s \<or> st_closed s then s else s\<lparr>st_inflight := st_inflight s + 1\<rparr>)"
| "sse_step (Arrived r) s =
     (if st_inflight s = 0 then s else (push_frame r s)\<lparr>st_inflight := st_inflight s - 1\<rparr>)"
| "sse_step Disconnect s =
     (if \<not> st_open s then s
      else if st_listening s then s\<lparr>st_open := False, st_closed := True, st_timer := False\<rparr>
      else s\<lparr>st_open := False\<rparr>)"

definition sse_run :: "sse_event list \<Rightarrow> sse \<Rightarrow> sse" where
  "sse_run evs s = fold sse_step evs s"

lemma push_frame_simps [simp]:
  "st_open (push_frame r s) = st_open s" "st_listening (push_frame r s) = st_listening s" "st_timer (push_frame r s) = st_timer s"
  "st_closed (push_frame r s) = st_closed s" "st_inflight (push_frame r s) = st_inflight s"
  "length (st_frames (push_frame r s)) \<le> Suc (length (st_frames s))"
  by (simp_all add: push_frame_def split: sum.split)

text \<open>A stream that was closed is quiet: no timer, and only ticks already waiting can still write.\<close>

definition quiet :: "nat \<Rightarrow> sse \<Rightarrow> bool" where
  "quiet k s \<longleftrightarrow> st_listening s \<and> st_closed s \<and> \<not> st_timer s \<and> length (st_frames s) + st_inflight s \<le> k"

lemma quiet_step: "quiet k s \<Longrightarrow> quiet k (sse_step ev s)"
proof (cases ev)
  case (Arrived r)
  assume "quiet k s"
  moreover have "length (st_frames (push_frame r s)) \<le> Suc (length (st_frames s))" by simp
  ultimately show ?thesis unfolding Arrived quiet_def by (simp del: push_frame_simps(6)) linarith
qed (auto simp: quiet_def)

lemma quiet_run: "quiet k s \<Longrightarrow> quiet k (sse_run evs s)"
  by (induction evs arbitrary: s) (auto simp: sse_run_def quiet_step)

text \<open>
  A stream whose client leaves after the first frame stops. Whatever happens afterwards, no timer runs,
  and at most the ticks that were waiting for their overview at that moment write another frame.
\<close>

theorem stream_stops:
  assumes "st_open s" and "st_listening s"
  shows "\<not> st_timer (sse_run (Disconnect # evs) s) \<and>
    length (st_frames (sse_run (Disconnect # evs) s)) \<le> length (st_frames s) + st_inflight s"
proof -
  have "quiet (length (st_frames s) + st_inflight s) (sse_step Disconnect s)" using assms by (simp add: quiet_def)
  from quiet_run [OF this, of evs] show ?thesis by (simp add: quiet_def sse_run_def)
qed

theorem stream_stops_witness:
  "\<not> st_timer (sse_run [First (Ok JNull), Tick, Disconnect, Tick, Arrived (Ok JNull), Tick] sse_start) \<and>
   length (st_frames (sse_run [First (Ok JNull), Tick, Disconnect, Tick, Arrived (Ok JNull), Tick] sse_start)) \<le> 2"
  using stream_stops [of "sse_run [First (Ok JNull), Tick] sse_start" "[Tick, Arrived (Ok JNull), Tick]"]
  by (simp add: sse_run_def sse_start_def push_frame_def)

text \<open>
  The listener is registered after the first frame was awaited. A client that leaves during that wait is never
  noticed: the timer started afterwards runs on and polls the engine.
\<close>

lemma early_leave_keeps_polling:
  "let s = sse_run [Disconnect, First (Ok JNull), Tick, Arrived (Ok JNull), Tick] sse_start
   in \<not> st_open s \<and> st_timer s \<and> \<not> st_closed s \<and> st_inflight s = 1"
  by (simp add: sse_run_def sse_start_def push_frame_def)

text \<open>A token configured as the empty text is no token: such a dashboard is open to everyone as operator.\<close>

lemma empty_token_opens: "roleOf \<lparr>do_token = Some [], do_viewerToken = None\<rparr> q = Some Operator"
  by (simp add: roleOf_def authEnabled_def secret_def)

end
