(* ===== verification/Chat_Providers.thy ===== *)
theory Chat_Providers
  imports Providers
begin

text \<open>
  The other model providers: OpenAI-compatible chat completions (\<open>packages/zenzip/src/llm/openai.ts\<close>), Gemini
  (\<open>google.ts\<close>) and Claude on Bedrock with its request signature (\<open>bedrock.ts\<close>); hash functions are
  arguments. Shown: an assistant turn sent back in the history reads as what it was, a tool result is labelled
  with the function whose call it answers, and the signature covers the headers that are sent.
\<close>

section \<open>OpenAI-compatible\<close>

definition joined_text :: "llm_content list \<Rightarrow> string" where
  "joined_text cs = concat (map Llm.text_of cs)"

fun tool_call_json :: "llm_content \<Rightarrow> jsval" where
  "tool_call_json (ToolUse i n v) =
     JObj [(''id'', JStr i), (''type'', JStr ''function''),
       (''function'', JObj [(''name'', JStr n), (''arguments'', JStr (the (stringify (if nullish v then JObj [] else v))))])]"
| "tool_call_json _ = JUndef"

fun tool_message :: "llm_content \<Rightarrow> jsval list" where
  "tool_message (ToolResult i c e) = [JObj [(''role'', JStr ''tool''), (''tool_call_id'', JStr i), (''content'', JStr c)]]"
| "tool_message _ = []"

definition openai_message :: "llm_message \<Rightarrow> jsval list" where
  "openai_message m =
     (let text = joined_text (m_content m) in
      case m_role m of
        Assistant \<Rightarrow>
          (let calls = map tool_call_json (filter is_tool_use (m_content m)) in
           [JObj ([(''role'', JStr ''assistant''), (''content'', if text = [] then JNull else JStr text)] @
                  (if calls = [] then [] else [(''tool_calls'', JArr calls)]))])
      | User \<Rightarrow>
          concat (map tool_message (m_content m)) @
          (if text = [] then [] else [JObj [(''role'', JStr ''user''), (''content'', JStr text)]]))"

definition toOpenAiMessages :: "string option \<Rightarrow> llm_message list \<Rightarrow> jsval" where
  "toOpenAiMessages system msgs =
     JArr ((case some_text system of None \<Rightarrow> [] | Some t \<Rightarrow> [JObj [(''role'', JStr ''system''), (''content'', JStr t)]]) @
           concat (map openai_message msgs))"

definition openai_tool :: "llm_tool_def \<Rightarrow> jsval" where
  "openai_tool t = JObj [(''type'', JStr ''function''), (''function'', JObj (tool_fields ''parameters'' t))]"

definition openai_body :: "llm_request \<Rightarrow> (string \<times> jsval) list" where
  "openai_body q =
     [(''model'', JStr (lr_model q)), (''messages'', toOpenAiMessages (lr_system q) (lr_messages q))] @
     opt_field ''max_tokens'' (map_option JNum (lr_maxTokens q)) @ opt_field ''temperature'' (lr_temperature q) @
     (if some_tools q = [] then [] else [(''tools'', JArr (map openai_tool (some_tools q)))])"

text \<open>Malformed arguments count as none; a call without a function throws when its name is read.\<close>

definition call_input :: "jsval \<Rightarrow> jsval" where
  "call_input call =
     (let a = read_prop (read_prop call ''function'') ''arguments''
      in case JSON_parse (if truthy a then wire_str a else ''{}'') of Some v \<Rightarrow> v | None \<Rightarrow> JObj [])"

fun openai_calls :: "jsval list \<Rightarrow> (exn, llm_content list) res" where
  "openai_calls [] = Ok []"
| "openai_calls (call # cs) =
     rbind (prop_exn call ''function'') (\<lambda>f.
     rbind (prop_exn f ''name'') (\<lambda>name.
     rbind (openai_calls cs) (\<lambda>rest.
       Ok (ToolUse (wire_str (read_prop call ''id'')) (wire_str name) (call_input call) # rest))))"

definition finish_reason :: "jsval \<Rightarrow> string" where
  "finish_reason v =
     (if v = JStr ''tool_calls'' then ''toolUse'' else if v = JStr ''length'' then ''maxTokens''
      else if v = JStr ''stop'' then ''endTurn'' else ''other'')"

definition openai_content :: "jsval \<Rightarrow> (exn, llm_content list) res" where
  "openai_content message =
     rbind (prop_exn message ''content'') (\<lambda>c.
     rbind (let t = read_prop message ''tool_calls'' in if nullish t then Ok [] else wire_list t) (\<lambda>calls.
     rbind (openai_calls calls) (\<lambda>uses.
       Ok ((if truthy c then [TextPart (wire_str c)] else []) @ uses))))"

definition openai_response :: "jsval \<Rightarrow> (exn, llm_response) res" where
  "openai_response data =
     rbind (prop_exn data ''choices'') (\<lambda>cs.
     rbind (wire_list cs) (\<lambda>choices.
     rbind (case choices of [] \<Rightarrow> Throw (Error ''TypeError'') | c # _ \<Rightarrow> Ok c) (\<lambda>choice.
     rbind (prop_exn choice ''message'') (\<lambda>message.
     rbind (openai_content message) (\<lambda>content.
       Ok \<lparr>r_content = content, r_stopReason = finish_reason (read_prop choice ''finish_reason''),
          r_usage = (let u = read_prop data ''usage'' in
            \<lparr>inputTokens = wire_int (read_prop u ''prompt_tokens''), outputTokens = wire_int (read_prop u ''completion_tokens'')\<rparr>)\<rparr>)))))"

record openai_options =
  oo_apiKey :: "string option"
  oo_baseUrl :: "string option"

definition openai_complete :: "'w post_fn \<Rightarrow> openai_options \<Rightarrow> 'w model_call" where
  "openai_complete post o' q w =
     post_json post ''openai-compatible''
       \<lparr>hp_url = strip_slash (case oo_baseUrl o' of Some u \<Rightarrow> u | None \<Rightarrow> ''https://api.openai.com/v1'') @ ''/chat/completions'',
        hp_headers = [(''content-type'', ''application/json'')] @
          (case some_text (oo_apiKey o') of Some k \<Rightarrow> [(''authorization'', ''Bearer '' @ k)] | None \<Rightarrow> []),
        hp_body = the (stringify (JObj (openai_body q)))\<rparr> openai_response w"

section \<open>Gemini\<close>

text \<open>The function name of every tool use of the history, by its id.\<close>

fun note_use :: "llm_content \<Rightarrow> (string, string) jsmap \<Rightarrow> (string, string) jsmap" where
  "note_use (ToolUse i n v) m = map_set i n m"
| "note_use _ m = m"

definition nameById :: "llm_message list \<Rightarrow> (string, string) jsmap" where
  "nameById msgs = fold note_use (concat (map m_content (filter (\<lambda>m. m_role m = Assistant) msgs))) []"

fun gemini_part :: "(string, string) jsmap \<Rightarrow> llm_content \<Rightarrow> jsval list" where
  "gemini_part names (TextPart t) = (if t = [] then [] else [JObj [(''text'', JStr t)]])"
| "gemini_part names (ToolUse i n v) =
     [JObj [(''functionCall'', JObj [(''name'', JStr n), (''args'', if nullish v then JObj [] else v)])]]"
| "gemini_part names (ToolResult i c e) =
     [JObj [(''functionResponse'', JObj [(''name'', JStr (case map_get names i of Some n \<Rightarrow> n | None \<Rightarrow> i)),
        (''response'', JObj [(''result'', JStr c)])])]]"

definition gemini_content :: "(string, string) jsmap \<Rightarrow> llm_message \<Rightarrow> jsval list" where
  "gemini_content names m =
     (let parts = concat (map (gemini_part names) (m_content m)) in
      if parts = [] then []
      else [JObj [(''role'', JStr (if m_role m = Assistant then ''model'' else ''user'')), (''parts'', JArr parts)]])"

definition toGeminiContents :: "llm_message list \<Rightarrow> jsval" where
  "toGeminiContents msgs = JArr (concat (map (gemini_content (nameById msgs)) msgs))"

definition gen_config :: "llm_request \<Rightarrow> (string \<times> jsval) list" where
  "gen_config q = opt_field ''maxOutputTokens'' (map_option JNum (lr_maxTokens q)) @ opt_field ''temperature'' (lr_temperature q)"

definition gemini_body :: "llm_request \<Rightarrow> (string \<times> jsval) list" where
  "gemini_body q =
     [(''contents'', toGeminiContents (lr_messages q))] @
     opt_field ''systemInstruction'' (map_option (\<lambda>t. JObj [(''parts'', JArr [JObj [(''text'', JStr t)]])]) (some_text (lr_system q))) @
     (if some_tools q = [] then []
      else [(''tools'', JArr [JObj [(''functionDeclarations'', JArr (map (\<lambda>t. JObj (tool_fields ''parameters'' t)) (some_tools q)))]])]) @
     (if gen_config q = [] then [] else [(''generationConfig'', JObj (gen_config q))])"

fun gemini_parts :: "nat \<Rightarrow> jsval list \<Rightarrow> (exn, llm_content list) res" where
  "gemini_parts k [] = Ok []"
| "gemini_parts k (p # ps) =
     rbind (prop_exn p ''text'') (\<lambda>t.
       if truthy t then rbind (gemini_parts k ps) (\<lambda>rest. Ok (TextPart (wire_str t) # rest))
       else
         (let f = read_prop p ''functionCall'' in
          if truthy f then
            (let name = wire_str (read_prop f ''name''); a = read_prop f ''args'' in
             rbind (gemini_parts (Suc k) ps) (\<lambda>rest.
               Ok (ToolUse (name @ ''-'' @ int_str (int k)) name (if nullish a then JObj [] else a) # rest)))
          else gemini_parts k ps))"

definition gemini_stop :: "llm_content list \<Rightarrow> jsval \<Rightarrow> string" where
  "gemini_stop content reason =
     (if list_ex is_tool_use content then ''toolUse'' else if reason = JStr ''MAX_TOKENS'' then ''maxTokens''
      else if reason = JStr ''STOP'' then ''endTurn'' else ''other'')"

definition first_candidate :: "jsval \<Rightarrow> jsval" where
  "first_candidate v = (case v of JArr (c # _) \<Rightarrow> c | _ \<Rightarrow> JUndef)"

definition gemini_response :: "jsval \<Rightarrow> (exn, llm_response) res" where
  "gemini_response data =
     rbind (prop_exn data ''candidates'') (\<lambda>cs.
       let candidate = first_candidate cs;
           parts = read_prop (read_prop candidate ''content'') ''parts''
       in rbind (if nullish parts then Ok [] else wire_list parts) (\<lambda>ps.
          rbind (gemini_parts 0 ps) (\<lambda>content.
            Ok \<lparr>r_content = content, r_stopReason = gemini_stop content (read_prop candidate ''finishReason''),
               r_usage = (let u = read_prop data ''usageMetadata'' in
                 \<lparr>inputTokens = wire_int (read_prop u ''promptTokenCount''), outputTokens = wire_int (read_prop u ''candidatesTokenCount'')\<rparr>)\<rparr>)))"

text \<open>\<open>encodeURIComponent\<close> on the code units of the model: one or two bytes of UTF-8.\<close>

definition upper_hex :: "nat \<Rightarrow> char" where
  "upper_hex n = (if n < 10 then char_of (48 + n) else char_of (55 + n))"

definition pct :: "nat \<Rightarrow> string" where
  "pct b = [CHR ''%'', upper_hex (b div 16), upper_hex (b mod 16)]"

definition uri_char :: "char \<Rightarrow> string" where
  "uri_char c =
     (if is_alnum_us c \<or> c \<in> set ''-.!~*()'' \<or> code c = 39 then [c]
      else if code c < 128 then pct (code c)
      else pct (192 + code c div 64) @ pct (128 + code c mod 64))"

definition encodeURIComponent :: "string \<Rightarrow> string" where
  "encodeURIComponent s = concat (map uri_char s)"

definition gemini_complete :: "'w post_fn \<Rightarrow> openai_options \<Rightarrow> 'w model_call" where
  "gemini_complete post o' q w =
     post_json post ''google-gemini''
       \<lparr>hp_url = strip_slash (case oo_baseUrl o' of Some u \<Rightarrow> u | None \<Rightarrow> ''https://generativelanguage.googleapis.com/v1beta'') @
          ''/models/'' @ encodeURIComponent (lr_model q) @ '':generateContent'',
        hp_headers = [(''content-type'', ''application/json'')] @
          (case some_text (oo_apiKey o') of Some k \<Rightarrow> [(''x-goog-api-key'', k)] | None \<Rightarrow> []),
        hp_body = the (stringify (JObj (gemini_body q)))\<rparr> gemini_response w"

section \<open>Bedrock\<close>

text \<open>
  The date is the ISO text of the clock; \<open>replace(/[:-]|\.\d{3}/g, "")\<close>. Keys and digests are byte strings.
\<close>

fun amz_date :: "string \<Rightarrow> string" where
  "amz_date (c # d # e # f # s) =
     (if c = CHR '':'' \<or> c = CHR ''-'' then amz_date (d # e # f # s)
      else if c = CHR ''.'' \<and> is_digit d \<and> is_digit e \<and> is_digit f then amz_date s
      else c # amz_date (d # e # f # s))"
| "amz_date s = filter (\<lambda>c. c \<noteq> CHR '':'' \<and> c \<noteq> CHR ''-'') s"

record hashes =
  sha256hex :: "string \<Rightarrow> string"
  hmac :: "string \<Rightarrow> string \<Rightarrow> string"
  hmac_hex :: "string \<Rightarrow> string \<Rightarrow> string"

record sig_args =
  sg_region :: string
  sg_service :: string
  sg_method :: string
  sg_host :: string
  sg_path :: string
  sg_body :: string
  sg_accessKeyId :: string
  sg_secretAccessKey :: string
  sg_sessionToken :: "string option"
  sg_date :: string

text \<open>The headers the signature covers, with their values, in canonical order.\<close>

definition covered :: "hashes \<Rightarrow> sig_args \<Rightarrow> (string \<times> string) list" where
  "covered hs g =
     [(''content-type'', ''application/json''), (''host'', sg_host g), (''x-amz-content-sha256'', sha256hex hs (sg_body g)),
      (''x-amz-date'', amz_date (sg_date g))] @
     (case some_text (sg_sessionToken g) of Some t \<Rightarrow> [(''x-amz-security-token'', t)] | None \<Rightarrow> [])"

definition canonicalHeaders :: "hashes \<Rightarrow> sig_args \<Rightarrow> string" where
  "canonicalHeaders hs g = concat (map (\<lambda>(k, v). k @ '':'' @ v @ NL) (covered hs g))"

definition signedHeaders :: "hashes \<Rightarrow> sig_args \<Rightarrow> string" where
  "signedHeaders hs g = join_with '';'' (map fst (covered hs g))"

definition canonicalRequest :: "hashes \<Rightarrow> sig_args \<Rightarrow> string" where
  "canonicalRequest hs g =
     join_with NL [sg_method g, sg_path g, [], canonicalHeaders hs g, signedHeaders hs g, sha256hex hs (sg_body g)]"

definition sig_scope :: "sig_args \<Rightarrow> string" where
  "sig_scope g = take 8 (amz_date (sg_date g)) @ ''/'' @ sg_region g @ ''/'' @ sg_service g @ ''/aws4_request''"

definition stringToSign :: "hashes \<Rightarrow> sig_args \<Rightarrow> string" where
  "stringToSign hs g = join_with NL [''AWS4-HMAC-SHA256'', amz_date (sg_date g), sig_scope g, sha256hex hs (canonicalRequest hs g)]"

definition kSigning :: "hashes \<Rightarrow> sig_args \<Rightarrow> string" where
  "kSigning hs g =
     hmac hs (hmac hs (hmac hs (hmac hs (''AWS4'' @ sg_secretAccessKey g) (take 8 (amz_date (sg_date g)))) (sg_region g)) (sg_service g)) ''aws4_request''"

definition sigv4Headers :: "hashes \<Rightarrow> sig_args \<Rightarrow> (string, string) jsmap" where
  "sigv4Headers hs g =
     [(''authorization'', ''AWS4-HMAC-SHA256 Credential='' @ sg_accessKeyId g @ ''/'' @ sig_scope g @ '', '' @
         ''SignedHeaders='' @ signedHeaders hs g @ '', Signature='' @ hmac_hex hs (kSigning hs g) (stringToSign hs g)),
      (''content-type'', ''application/json''), (''x-amz-date'', amz_date (sg_date g)),
      (''x-amz-content-sha256'', sha256hex hs (sg_body g))] @
     (case some_text (sg_sessionToken g) of Some t \<Rightarrow> [(''x-amz-security-token'', t)] | None \<Rightarrow> [])"

record 'w bedrock_options =
  bo_region :: "string option"
  bo_accessKeyId :: "string option"
  bo_secretAccessKey :: "string option"
  bo_sessionToken :: "string option"
  bo_anthropicVersion :: "string option"
  bo_now :: "'w \<Rightarrow> string"

definition bedrock_body :: "'w bedrock_options \<Rightarrow> llm_request \<Rightarrow> (string \<times> jsval) list" where
  "bedrock_body o' q =
     [(''anthropic_version'', JStr (case bo_anthropicVersion o' of Some v \<Rightarrow> v | None \<Rightarrow> ''bedrock-2023-05-31'')),
      (''max_tokens'', JNum (case lr_maxTokens q of Some n \<Rightarrow> n | None \<Rightarrow> 4096)), (''messages'', toAnthropicMessages (lr_messages q))] @
     opt_field ''system'' (map_option JStr (some_text (lr_system q))) @ opt_field ''temperature'' (lr_temperature q) @
     (if some_tools q = [] then [] else [(''tools'', JArr (map (\<lambda>t. JObj (tool_fields ''input_schema'' t)) (some_tools q)))])"

definition bedrock_response :: "jsval \<Rightarrow> (exn, llm_response) res" where
  "bedrock_response data =
     rbind (prop_exn data ''content'') (\<lambda>c.
     rbind (if nullish c then Ok [] else wire_list c) (\<lambda>blocks.
     rbind (fromAnthropicContent blocks) (\<lambda>content.
       Ok \<lparr>r_content = content, r_stopReason = mapStopReason (read_prop data ''stop_reason''),
          r_usage = (let u = read_prop data ''usage'' in
            \<lparr>inputTokens = wire_int (read_prop u ''input_tokens''), outputTokens = wire_int (read_prop u ''output_tokens'')\<rparr>)\<rparr>)))"

definition bedrock_complete :: "'w post_fn \<Rightarrow> hashes \<Rightarrow> 'w bedrock_options \<Rightarrow> 'w model_call" where
  "bedrock_complete post hs o' q w =
     (case (some_text (bo_accessKeyId o'), some_text (bo_secretAccessKey o')) of
        (Some k, Some secret) \<Rightarrow>
          (let region = (case bo_region o' of Some r \<Rightarrow> r | None \<Rightarrow> ''us-east-1'');
               host = ''bedrock-runtime.'' @ region @ ''.amazonaws.com'';
               path = ''/model/'' @ encodeURIComponent (lr_model q) @ ''/invoke'';
               body = the (stringify (JObj (bedrock_body o' q)));
               headers = sigv4Headers hs \<lparr>sg_region = region, sg_service = ''bedrock'', sg_method = ''POST'', sg_host = host, sg_path = path,
                 sg_body = body, sg_accessKeyId = k, sg_secretAccessKey = secret, sg_sessionToken = bo_sessionToken o', sg_date = bo_now o' w\<rparr>
           in post_json post ''bedrock'' \<lparr>hp_url = ''https://'' @ host @ path, hp_headers = headers, hp_body = body\<rparr> bedrock_response w)
      | _ \<Rightarrow> (Throw (Error ''bedrock provider: missing AWS credentials (set accessKeyId/secretAccessKey or AWS_* env)''), 0, w))"

section \<open>History and answers\<close>

text \<open>An assistant's content holds texts and tool uses; the inputs were read from JSON.\<close>

fun answer_ok :: "llm_content \<Rightarrow> bool" where
  "answer_ok (TextPart t) = True"
| "answer_ok (ToolUse i n v) = (json_ok v \<and> v \<noteq> JNull)"
| "answer_ok (ToolResult i c e) = False"

definition as_answered :: "llm_content list \<Rightarrow> llm_content list" where
  "as_answered cs = (if joined_text cs = [] then [] else [TextPart (joined_text cs)]) @ filter is_tool_use cs"

lemma call_back:
  assumes "answer_ok c" and "is_tool_use c"
  shows "\<exists>f n. prop_exn (tool_call_json c) ''function'' = Ok f \<and> prop_exn f ''name'' = Ok n \<and>
    ToolUse (wire_str (read_prop (tool_call_json c) ''id'')) (wire_str n) (call_input (tool_call_json c)) = c"
proof (cases c)
  case (ToolUse i n v)
  with assms have v: "json_ok v" "\<not> nullish v" by (auto simp: nullish_def)
  then have "stringify v = Some (json_text v)" "JSON_parse (json_text v) = Some v" "json_text v \<noteq> []"
    using json_text_hd [of v] by (auto simp: stringify_json_text JSON_parse_text)
  with v show ?thesis
    by (simp add: ToolUse call_input_def prop_exn_def get_prop_def read_prop_def wire_str_def truthy_def)
qed (use assms in auto)

lemma calls_back: "list_all answer_ok cs \<Longrightarrow> openai_calls (map tool_call_json (filter is_tool_use cs)) = Ok (filter is_tool_use cs)"
proof (induction cs)
  case (Cons c cs)
  then show ?case using call_back [of c] by auto
qed simp

text \<open>
  The OpenAI adapter's two directions agree. An assistant turn sent back as part of the history, read the way
  an answer is read, gives its text as one part followed by its tool uses with their ids, names and inputs.
\<close>

theorem openai_turn_round_trip:
  assumes "list_all answer_ok cs"
  shows "\<exists>message. openai_message \<lparr>m_role = Assistant, m_content = cs\<rparr> = [message] \<and> openai_content message = Ok (as_answered cs)"
proof (cases "map tool_call_json (filter is_tool_use cs) = []")
  case True
  then have "filter is_tool_use cs = []" by simp
  then show ?thesis
    by (simp add: openai_message_def openai_content_def as_answered_def prop_exn_def get_prop_def read_prop_def nullish_def truthy_def
        wire_str_def Let_def)
next
  case False
  then show ?thesis using calls_back [OF assms]
    by (simp add: openai_message_def openai_content_def as_answered_def prop_exn_def get_prop_def read_prop_def nullish_def truthy_def
        wire_str_def wire_list_def Let_def del: filter_empty_conv)
qed

theorem openai_turn_round_trip_witness:
  "\<exists>message. openai_message \<lparr>m_role = Assistant, m_content = [TextPart ''a'', ToolUse ''t'' ''f'' (JObj []), TextPart ''b'']\<rparr> = [message] \<and>
     openai_content message = Ok [TextPart ''ab'', ToolUse ''t'' ''f'' (JObj [])]"
proof -
  have "list_all answer_ok [TextPart ''a'', ToolUse ''t'' ''f'' (JObj []), TextPart ''b'']" by simp
  from openai_turn_round_trip [OF this] show ?thesis by (simp add: as_answered_def joined_text_def)
qed

text \<open>What the signature covers is what is sent, apart from the host, which the platform adds.\<close>

lemma covered_is_sent: "(k, v) \<in> set (covered hs g) \<Longrightarrow> k = ''host'' \<or> (k, v) \<in> set (sigv4Headers hs g)"
  by (auto simp: covered_def sigv4Headers_def)

section \<open>Findings\<close>

text \<open>That a tool failed is not told to an OpenAI-compatible model or to Gemini.\<close>

lemma failure_not_told:
  "tool_message (ToolResult i c True) = tool_message (ToolResult i c False)"
  "gemini_part names (ToolResult i c True) = gemini_part names (ToolResult i c False)"
  by simp_all

text \<open>
  Gemini's ids restart with every answer: the first call of a function in one turn and in the next have the
  same id, by which approvals are addressed.
\<close>

lemma gemini_ids_repeat:
  "gemini_parts 0 [JObj [(''functionCall'', JObj [(''name'', JStr ''pay''), (''args'', JObj [(''n'', JNum 1)])])]] =
     Ok [ToolUse ''pay-0'' ''pay'' (JObj [(''n'', JNum 1)])] \<and>
   gemini_parts 0 [JObj [(''functionCall'', JObj [(''name'', JStr ''pay''), (''args'', JObj [(''n'', JNum 2)])])]] =
     Ok [ToolUse ''pay-0'' ''pay'' (JObj [(''n'', JNum 2)])]"
  by code_simp

end
