(* ===== verification/Page.thy ===== *)
theory Page
  imports Dashboard Chat_Providers
begin

text \<open>
  The script of the dashboard's page (the text \<open>DASHBOARD_HTML\<close> of \<open>packages/zenzip/src/dashboard.ts\<close>): what
  it writes into the elements of the page for an overview and for a run, and how it keeps itself up to
  date. The rows of an answer have the types the engine sends; the clock is an argument, and so are the local
  forms of times. The styles and the empty sections around the elements are not part of it.
\<close>

section \<open>Helpers of the script\<close>

definition SQ :: char where "SQ = CHR 0x27"

definition RUN_STATUS :: "string list" where
  "RUN_STATUS = [''running'', ''sleeping'', ''waitingEvent'', ''waitingChild'', ''completed'', ''failed'', ''cancelled'']"

definition status_name :: "int \<Rightarrow> string" where
  "status_name st = (if 0 \<le> st \<and> st < 7 then RUN_STATUS ! nat st else int_str st)"

definition withToken :: "string option \<Rightarrow> string \<Rightarrow> string" where
  "withToken token url =
     (case token of
        None \<Rightarrow> url
      | Some t \<Rightarrow>
          if t = [] then url
          else url @ (if str_includes url ''?'' then ''&'' else ''?'') @ ''token='' @ encodeURIComponent t)"

definition esc_char :: "char \<Rightarrow> string" where
  "esc_char c =
     (if c = CHR ''&'' then ''&amp;'' else if c = CHR ''<'' then ''&lt;'' else if c = CHR ''>'' then ''&gt;''
      else if c = DQ then ''&quot;'' else [c])"

definition esc :: "string \<Rightarrow> string" where
  "esc s = concat (map esc_char s)"

text \<open>\<open>Math.round(d / n)\<close> for a whole \<open>d\<close>.\<close>

definition rounded :: "int \<Rightarrow> int \<Rightarrow> string" where
  "rounded d n = int_str ((2 * d + n) div (2 * n))"

record page_clock =
  pc_now :: int
  pc_time :: "int \<Rightarrow> string"
  pc_date :: "int \<Rightarrow> string"

definition ago :: "page_clock \<Rightarrow> int \<Rightarrow> string" where
  "ago k t =
     (let d = pc_now k - t in
      if d < 2000 then ''now'' else if d < 60000 then rounded d 1000 @ ''s ago''
      else if d < 3600000 then rounded d 60000 @ ''m ago'' else pc_time k t)"

definition until :: "page_clock \<Rightarrow> int \<Rightarrow> string" where
  "until k t =
     (let d = t - pc_now k in
      if d \<le> 0 then ''due'' else if d < 60000 then ''in '' @ rounded d 1000 @ ''s''
      else if d < 3600000 then ''in '' @ rounded d 60000 @ ''m'' else pc_date k t)"

text \<open>\<open>x.toFixed(1)\<close>: the nearest tenth of the double's exact value, the larger of two.\<close>

definition toFixed1 :: "rat \<Rightarrow> string" where
  "toFixed1 x = (let n = \<lfloor>10 * x + 1 / 2\<rfloor> in int_str (n div 10) @ ''.'' @ int_str (n mod 10))"

definition chip :: "string \<Rightarrow> string" where
  \<open>chip name = ''<span class="chip s-'' @ esc name @ ''">'' @ esc name @ ''</span>''\<close>

section \<open>An overview\<close>

record page_queue =
  pq_queue :: string
  pq_pending :: int
  pq_running :: int
  pq_dead :: int

record page_schedule =
  ps_name :: string
  ps_spec :: string
  ps_overlap :: string
  ps_catchup :: string
  ps_next :: int

record page_run =
  pr_id :: string
  pr_workflow :: string
  pr_status :: int
  pr_output :: "string option"
  pr_error :: "string option"
  pr_created :: int
  pr_updated :: int

record page_event =
  pe_name :: string
  pe_payload :: string
  pe_emitted :: int

record page_metrics =
  pm_jobsCompleted :: "int option"
  pm_jobsRetried :: "int option"
  pm_runsCompleted :: "int option"
  pm_stepRetries :: "int option"
  pm_stepsRecorded :: "int option"
  pm_eventsEmitted :: "int option"
  pm_scheduleFires :: "int option"
  pm_handlerAvg :: "rat option"

record page_overview =
  po_queues :: "page_queue list"
  po_schedules :: "page_schedule list"
  po_runs :: "page_run list"
  po_events :: "page_event list"
  po_metrics :: page_metrics

definition card :: "string \<times> string \<Rightarrow> string" where
  \<open>card lv = ''<div class="card"><div class="v">'' @ snd lv @ ''</div><div class="l">'' @ fst lv @ ''</div></div>''\<close>

definition total :: "(page_queue \<Rightarrow> int) \<Rightarrow> page_overview \<Rightarrow> string" where
  "total f data = int_str (foldl (\<lambda>a q. a + f q) 0 (po_queues data))"

definition cards :: "page_overview \<Rightarrow> string" where
  "cards data =
     concat (map card
       [(''Active runs'', int_str (int (length (filter (\<lambda>x. pr_status x < 4) (po_runs data))))),
        (''Pending jobs'', total pq_pending data), (''Running jobs'', total pq_running data),
        (''Dead letters'', total pq_dead data), (''Schedules'', int_str (int (length (po_schedules data))))])"

definition or_zero :: "int option \<Rightarrow> string" where
  "or_zero v = int_str (case v of None \<Rightarrow> 0 | Some n \<Rightarrow> n)"

definition metric_cards :: "page_metrics \<Rightarrow> string" where
  "metric_cards m =
     concat (map card
       [(''Jobs completed'', or_zero (pm_jobsCompleted m)), (''Job retries'', or_zero (pm_jobsRetried m)),
        (''Runs completed'', or_zero (pm_runsCompleted m)), (''Step retries'', or_zero (pm_stepRetries m)),
        (''Steps recorded'', or_zero (pm_stepsRecorded m)), (''Events emitted'', or_zero (pm_eventsEmitted m)),
        (''Schedule fires'', or_zero (pm_scheduleFires m)),
        (''Handler avg'', toFixed1 (case pm_handlerAvg m of None \<Rightarrow> 0 | Some x \<Rightarrow> x) @ ''ms'')])"

text \<open>Rows, or the row that says there are none.\<close>

definition table_rows :: "('a \<Rightarrow> string) \<Rightarrow> string \<Rightarrow> 'a list \<Rightarrow> string" where
  "table_rows row none xs = (let rows = concat (map row xs) in if rows = [] then none else rows)"

definition last_chars :: "nat \<Rightarrow> string \<Rightarrow> string" where
  "last_chars n s = drop (length s - n) s"

definition run_row :: "page_clock \<Rightarrow> page_run \<Rightarrow> string" where
  \<open>run_row k r =
     ''<tr class="click" onclick="showRun('' @ [SQ] @ pr_id r @ [SQ] @ '')"><td>'' @ esc (pr_workflow r) @ ''</td><td>'' @
     chip (status_name (pr_status r)) @ ''</td><td class="mono">'' @ last_chars 12 (pr_id r) @
     ''</td><td class='muted'>'' @ ago k (pr_updated r) @ ''</td></tr>''\<close>

definition event_row :: "page_clock \<Rightarrow> page_event \<Rightarrow> string" where
  \<open>event_row k ev =
     ''<tr><td class='mono'>'' @ esc (pe_name ev) @ ''</td><td class='mono muted'>'' @ esc (take 48 (pe_payload ev)) @
     ''</td><td class='muted'>'' @ ago k (pe_emitted ev) @ ''</td></tr>''\<close>

definition queue_row :: "page_queue \<Rightarrow> string" where
  \<open>queue_row q =
     ''<tr><td class='mono'>'' @ esc (pq_queue q) @ ''</td><td>'' @ int_str (pq_pending q) @ ''</td><td>'' @ int_str (pq_running q) @
     ''</td><td>'' @ (if pq_dead q > 0 then ''<span class="chip s-dead">'' @ int_str (pq_dead q) @ ''</span>'' else ''0'') @
     ''</td><td>'' @
     (if pq_dead q > 0
      then ''<button onclick="requeue('' @ [SQ] @ esc (pq_queue q) @ [SQ] @ '')">requeue dead</button>'' else []) @
     ''</td></tr>''\<close>

definition schedule_row :: "page_clock \<Rightarrow> page_schedule \<Rightarrow> string" where
  \<open>schedule_row k s =
     ''<tr><td class='mono'>'' @ esc (ps_name s) @ ''</td><td class='mono muted'>'' @ esc (ps_spec s) @ ''</td><td>'' @
     esc (ps_overlap s) @ ''</td><td>'' @ esc (ps_catchup s) @ ''</td><td class='muted'>'' @ until k (ps_next s) @ ''</td></tr>''\<close>

text \<open>What \<open>render\<close> writes: the contents of the elements by id.\<close>

definition render :: "page_clock \<Rightarrow> page_overview \<Rightarrow> (string \<times> string) list" where
  \<open>render k data =
     [(''cards'', cards data), (''metricCards'', metric_cards (po_metrics data)),
      (''runs'', table_rows (run_row k) ''<tr><td colspan="4" class="muted">no runs yet</td></tr>'' (po_runs data)),
      (''events'', table_rows (event_row k) ''<tr><td colspan="3" class="muted">no events yet</td></tr>'' (po_events data)),
      (''queues'', table_rows queue_row ''<tr><td colspan="5" class="muted">no queues yet</td></tr>'' (po_queues data)),
      (''schedules'', table_rows (schedule_row k) ''<tr><td colspan="5" class="muted">no schedules</td></tr>'' (po_schedules data))]\<close>

section \<open>A run with its steps\<close>

record page_step =
  pt_id :: string
  pt_kind :: string
  pt_status :: int
  pt_error :: "string option"
  pt_attempts :: int
  pt_updated :: int

definition given_text :: "string option \<Rightarrow> (string \<Rightarrow> string) \<Rightarrow> string" where
  "given_text v f = (case v of None \<Rightarrow> [] | Some t \<Rightarrow> if t = [] then [] else f t)"

definition took :: "int \<Rightarrow> string" where
  "took delta = (if delta < 1000 then int_str delta @ ''ms'' else toFixed1 (fl (of_int delta / 1000)) @ ''s'')"

definition step_node :: "int \<Rightarrow> page_step \<Rightarrow> string" where
  \<open>step_node prev s =
     ''<div class='gnode'' @ (if pt_status s \<noteq> 1 then given_text (pt_error s) (\<lambda>_. '' failed'') else []) @ [SQ] @
     ''><div class='box'>'' @
     ''<span class='mono' style='color:var(--ink)'>'' @ esc (pt_id s) @ ''</span>'' @
     ''<span class='muted'>'' @ esc (pt_kind s) @ ''</span>'' @
     (if pt_status s = 1 then chip ''completed''
      else chip ''running'' @ '' <span class='muted'>attempts '' @ int_str (pt_attempts s) @ ''</span>'') @
     ''<span class='muted'>+'' @ took (max 0 (pt_updated s - prev)) @ ''</span>'' @
     given_text (pt_error s) (\<lambda>e. ''<span class='muted' style='color:#f87171'>'' @ esc e @ ''</span>'') @
     ''</div></div>''\<close>

fun step_nodes :: "int \<Rightarrow> page_step list \<Rightarrow> string" where
  "step_nodes prev [] = []"
| "step_nodes prev (s # ss) = step_node prev s @ step_nodes (pt_updated s) ss"

definition run_detail :: "page_run \<Rightarrow> page_step list \<Rightarrow> string" where
  \<open>run_detail r steps =
     ''<h2>Run <span class='mono'>'' @ esc (pr_id r) @ ''</span> '' @ [CHR 0xB7] @ '' '' @ esc (pr_workflow r) @ '' '' @ [CHR 0xB7] @ '' '' @
     chip (status_name (pr_status r)) @ ''</h2>'' @
     given_text (pr_error r) (\<lambda>e. ''<p class='muted' style='color:#f87171'>'' @ esc e @ ''</p>'') @
     given_text (pr_output r) (\<lambda>t. ''<p class='mono muted'>output: '' @ esc t @ ''</p>'') @
     ''<div class='graph'>'' @
     (let nodes = step_nodes (pr_created r) steps in
      if nodes = [] then ''<p class='muted'>no steps recorded yet</p>'' else nodes) @ ''</div>'' @
     ''<div style='margin-top:12px'><button onclick="this.closest('' @ [SQ] @ ''#detail'' @ [SQ] @ '').style.display='' @ [SQ] @ ''none'' @
     [SQ] @ ''">close</button></div>''\<close>

section \<open>Keeping up to date\<close>

text \<open>
  The page opens the live stream, and polls once the stream has failed. What reaches it: that the stream
  cannot be opened, a message, an error of the stream, a tick of the poll timer, the answer of a request
  (\<open>None\<close> when it fails or is not ok), clicks on a requeue button, on a run, on the button that closes it.
\<close>

datatype live_status = Blank | Live_Now | Polling

record page =
  pg_stream :: bool
  pg_timer :: bool
  pg_status :: live_status
  pg_shown :: "page_overview option"
  pg_detail :: "string option"
  pg_requests :: "string list"

datatype page_input =
    No_Stream
  | Message page_overview
  | Stream_Error
  | Tick
  | Answer "page_overview option"
  | Requeue string
  | Requeued
  | Show string
  | Run_Answer "(page_run \<times> page_step list) option"
  | Close

definition fetch_from :: "string option \<Rightarrow> string \<Rightarrow> page \<Rightarrow> page" where
  "fetch_from token url p = p\<lparr>pg_requests := pg_requests p @ [withToken token url]\<rparr>"

definition poll :: "string option \<Rightarrow> page \<Rightarrow> page" where
  "poll token p = fetch_from token ''/api/overview'' p"

definition startPolling :: "string option \<Rightarrow> page \<Rightarrow> page" where
  "startPolling token p = (if pg_timer p then p else (poll token (p\<lparr>pg_status := Polling\<rparr>))\<lparr>pg_timer := True\<rparr>)"

definition open_page :: "string option \<Rightarrow> page" where
  "open_page token =
     \<lparr>pg_stream = True, pg_timer = False, pg_status = Blank, pg_shown = None, pg_detail = None, pg_requests = [withToken token ''/api/stream'']\<rparr>"

fun page_does :: "string option \<Rightarrow> page_input \<Rightarrow> page \<Rightarrow> page" where
  "page_does token No_Stream p = startPolling token (p\<lparr>pg_stream := False\<rparr>)"
| "page_does token (Message data) p = (if pg_stream p then p\<lparr>pg_status := Live_Now, pg_shown := Some data\<rparr> else p)"
| "page_does token Stream_Error p = (if pg_stream p then startPolling token (p\<lparr>pg_stream := False\<rparr>) else p)"
| "page_does token Tick p = (if pg_timer p then poll token p else p)"
| "page_does token (Answer r) p = (case r of None \<Rightarrow> p | Some data \<Rightarrow> p\<lparr>pg_shown := Some data\<rparr>)"
| "page_does token (Requeue queue) p = fetch_from token (''/api/queues/'' @ encodeURIComponent queue @ ''/requeue-dead'') p"
| "page_does token Requeued p = poll token p"
| "page_does token (Show i) p = fetch_from token (''/api/runs/'' @ i) p"
| "page_does token (Run_Answer r) p = (case r of None \<Rightarrow> p | Some (run, steps) \<Rightarrow> p\<lparr>pg_detail := Some (run_detail run steps)\<rparr>)"
| "page_does token Close p = p\<lparr>pg_detail := None\<rparr>"

text \<open>Once the stream has ended the page polls, for good: every later state has the timer running.\<close>

lemma page_keeps_up: "pg_stream (fold (page_does token) evs (open_page token)) \<noteq> pg_timer (fold (page_does token) evs (open_page token))"
proof -
  have step: "pg_stream (page_does token e p) \<noteq> pg_timer (page_does token e p)" if "pg_stream p \<noteq> pg_timer p" for e p
    using that by (cases e) (auto simp: startPolling_def poll_def fetch_from_def split: option.split)
  have "pg_stream (fold (page_does token) evs p) \<noteq> pg_timer (fold (page_does token) evs p)" if "pg_stream p \<noteq> pg_timer p" for p
    using that
  proof (induction evs arbitrary: p)
    case (Cons e evs)
    then show ?case using step [of p e] by simp
  qed simp
  then show ?thesis by (simp add: open_page_def)
qed

section \<open>What the data can do to the page\<close>

text \<open>The tags of a markup without the values of their attributes, as a browser reads them from text on.\<close>

datatype lex = In_Text | In_Tag | In_Value char

fun lex_step :: "lex \<Rightarrow> char \<Rightarrow> lex" where
  "lex_step In_Text c = (if c = CHR ''<'' then In_Tag else In_Text)"
| "lex_step In_Tag c = (if c = CHR ''>'' then In_Text else if c = DQ \<or> c = SQ then In_Value c else In_Tag)"
| "lex_step (In_Value q) c = (if c = q then In_Tag else In_Value q)"

definition kept :: "lex \<Rightarrow> lex \<Rightarrow> bool" where
  "kept st st' \<longleftrightarrow> st = In_Tag \<or> st' = In_Tag"

fun tags :: "lex \<Rightarrow> string \<Rightarrow> string" where
  "tags st [] = []"
| "tags st (c # cs) = (if kept st (lex_step st c) then c # tags (lex_step st c) cs else tags (lex_step st c) cs)"

definition lex_end :: "lex \<Rightarrow> string \<Rightarrow> lex" where
  "lex_end st s = foldl lex_step st s"

text \<open>The tags a text opens, if it leaves the browser in text again.\<close>

definition elements :: "string \<Rightarrow> string option" where
  "elements s = (if lex_end In_Text s = In_Text then Some (tags In_Text s) else None)"

lemma tags_append: "tags st (a @ b) = tags st a @ tags (lex_end st a) b"
  by (induction a arbitrary: st) (simp_all add: lex_end_def)

lemma lex_end_append: "lex_end st (a @ b) = lex_end (lex_end st a) b"
  by (simp add: lex_end_def)

lemma tags_skip: "(\<And>c. c \<in> set s \<Longrightarrow> lex_step st c = st) \<Longrightarrow> st \<noteq> In_Tag \<Longrightarrow> tags st s = [] \<and> lex_end st s = st"
  by (induction s) (auto simp: kept_def lex_end_def)

lemma elements_append: "elements a = Some x \<Longrightarrow> elements (a @ b) = map_option (\<lambda>y. x @ y) (elements b)"
  by (auto simp: elements_def tags_append lex_end_append split: if_splits)

lemma set_esc: "set (esc s) \<inter> {CHR ''<'', CHR ''>'', DQ} = {}"
  by (induction s) (auto simp: esc_def esc_char_def DQ_def)

lemma skip_esc [simp]:
  "tags In_Text (esc s) = []" "lex_end In_Text (esc s) = In_Text"
  "tags (In_Value DQ) (esc s) = []" "lex_end (In_Value DQ) (esc s) = In_Value DQ"
  using set_esc [of s] by (auto intro!: tags_skip [THEN conjunct1] tags_skip [THEN conjunct2])

definition plain_text :: "string \<Rightarrow> bool" where
  "plain_text s \<longleftrightarrow> CHR ''<'' \<notin> set s \<and> DQ \<notin> set s"

lemma skip_plain [simp]:
  "plain_text s \<Longrightarrow> tags In_Text s = []" "plain_text s \<Longrightarrow> lex_end In_Text s = In_Text"
  "plain_text s \<Longrightarrow> tags (In_Value DQ) s = []" "plain_text s \<Longrightarrow> lex_end (In_Value DQ) s = In_Value DQ"
  by (auto simp: plain_text_def intro!: tags_skip [THEN conjunct1] tags_skip [THEN conjunct2])

lemma plain_last: "plain_text s \<Longrightarrow> plain_text (last_chars n s)"
  by (auto simp: plain_text_def last_chars_def dest: in_set_dropD)

lemma plain_append [simp]: "plain_text (a @ b) \<longleftrightarrow> plain_text a \<and> plain_text b"
  by (auto simp: plain_text_def)

lemma plain_int [simp]: "plain_text (int_str i)"
  by (auto simp: plain_text_def int_str_def DQ_def digits10_no_char is_digit_def code_def)

definition plain_clock :: "page_clock \<Rightarrow> bool" where
  "plain_clock k \<longleftrightarrow> (\<forall>t. plain_text (pc_time k t) \<and> plain_text (pc_date k t))"

lemma plain_chars [simp]: "plain_text []" "plain_text (c # cs) \<longleftrightarrow> c \<noteq> CHR ''<'' \<and> c \<noteq> CHR 0x22 \<and> plain_text cs"
  by (auto simp: plain_text_def DQ_def)

lemma plain_rounded [simp]: "plain_text (rounded d n)"
  by (simp add: rounded_def)

lemma plain_times [simp]: "plain_clock k \<Longrightarrow> plain_text (ago k t)" "plain_clock k \<Longrightarrow> plain_text (until k t)"
  by (simp_all add: ago_def until_def plain_clock_def Let_def)

lemma lex_literal: "lex_end st [] = st" "lex_end st (c # cs) = lex_end (lex_step st c) cs"
  by (simp_all add: lex_end_def)

lemma SQ_DQ: "(CHR 0x27 = DQ) = False" "(CHR 0x22 = DQ) = True"
  by (simp_all add: DQ_def)

lemmas lexing = elements_def tags_append lex_end_append kept_def lex_literal SQ_def DQ_def

lemma skip_esc' [simp]:
  "tags (In_Value (CHR 0x22)) (esc s) = []" "lex_end (In_Value (CHR 0x22)) (esc s) = In_Value (CHR 0x22)"
  "plain_text t \<Longrightarrow> tags (In_Value (CHR 0x22)) t = []" "plain_text t \<Longrightarrow> lex_end (In_Value (CHR 0x22)) t = In_Value (CHR 0x22)"
  using skip_esc skip_plain by (simp_all add: DQ_def)

lemma chip_tags: "tags In_Text (chip name) = tags In_Text (chip [])" "lex_end In_Text (chip name) = In_Text"
  by (simp_all add: chip_def lexing)

lemma event_elements:
  "plain_clock k \<Longrightarrow> elements (event_row k ev) = elements (event_row k ev') \<and> elements (event_row k ev) \<noteq> None"
  by (simp add: event_row_def lexing)

lemma schedule_elements:
  "plain_clock k \<Longrightarrow> elements (schedule_row k s) = elements (schedule_row k s') \<and> elements (schedule_row k s) \<noteq> None"
  by (simp add: schedule_row_def lexing)

lemma run_elements:
  "plain_clock k \<Longrightarrow> plain_text (pr_id r) \<Longrightarrow> plain_text (pr_id r') \<Longrightarrow>
   elements (run_row k r) = elements (run_row k r') \<and> elements (run_row k r) \<noteq> None"
  by (simp add: run_row_def lexing chip_tags [of "status_name s" for s] plain_last)

lemma queue_elements:
  "(pq_dead q > 0) = (pq_dead q' > 0) \<Longrightarrow> elements (queue_row q) = elements (queue_row q') \<and> elements (queue_row q) \<noteq> None"
  by (simp add: queue_row_def lexing)

text \<open>Rows with the same tags, whatever is in them, make tables with the same tags.\<close>

lemma concat_elements:
  "list_all2 (\<lambda>x y. elements (f x) = elements (f y) \<and> elements (f x) \<noteq> None) xs ys \<Longrightarrow>
   elements (concat (map f xs)) = elements (concat (map f ys)) \<and> elements (concat (map f xs)) \<noteq> None"
proof (induction rule: list_all2_induct)
  case (Cons x xs y ys)
  then obtain e e' where e: "elements (f x) = Some e" "elements (concat (map f xs)) = Some e'" by blast
  then have "elements (f y) = Some e" "elements (concat (map f ys)) = Some e'" using Cons by simp_all
  with e show ?case by (simp add: elements_append)
qed (simp add: lexing)

lemma table_elements:
  assumes "list_all2 (\<lambda>x y. elements (f x) = elements (f y) \<and> elements (f x) \<noteq> None) xs ys" and "\<And>x. f x \<noteq> []"
    and "elements none \<noteq> None"
  shows "elements (table_rows f none xs) = elements (table_rows f none ys) \<and> elements (table_rows f none xs) \<noteq> None"
proof -
  have "xs = [] \<longleftrightarrow> ys = []" using assms(1) by auto
  moreover have "concat (map f zs) = [] \<longleftrightarrow> zs = []" for zs using assms(2) by (cases zs) auto
  moreover obtain e where "elements (concat (map f xs)) = Some e" "elements (concat (map f ys)) = Some e"
    using concat_elements [OF assms(1)] by force
  ultimately show ?thesis using assms(3) by (simp add: table_rows_def Let_def)
qed

definition card_tags :: string where
  "card_tags = tags In_Text (card ([], []))"

lemma card_elements: "plain_text v \<Longrightarrow> plain_text l \<Longrightarrow> elements (card (l, v)) = Some card_tags"
  by (simp add: card_def card_tags_def lexing)

lemma plain_values [simp]: "plain_text (toFixed1 x)" "plain_text (total f data)" "plain_text (or_zero v)"
  by (simp_all add: toFixed1_def total_def or_zero_def Let_def)

lemma cards_elements: "elements (cards data) = elements (cards data') \<and> elements (cards data) \<noteq> None"
  unfolding cards_def by (rule concat_elements) (simp add: card_elements)

lemma metric_cards_elements: "elements (metric_cards m) = elements (metric_cards m') \<and> elements (metric_cards m) \<noteq> None"
  unfolding metric_cards_def by (rule concat_elements) (simp add: card_elements)

lemma no_rows:
  \<open>elements ''<tr><td colspan="4" class="muted">no runs yet</td></tr>'' \<noteq> None\<close>
  \<open>elements ''<tr><td colspan="3" class="muted">no events yet</td></tr>'' \<noteq> None\<close>
  \<open>elements ''<tr><td colspan="5" class="muted">no queues yet</td></tr>'' \<noteq> None\<close>
  \<open>elements ''<tr><td colspan="5" class="muted">no schedules</td></tr>'' \<noteq> None\<close>
  by (simp_all add: lexing)

text \<open>Two overviews with as many rows, and the same queues that have dead jobs.\<close>

definition alike :: "page_overview \<Rightarrow> page_overview \<Rightarrow> bool" where
  "alike data data' \<longleftrightarrow>
     length (po_runs data) = length (po_runs data') \<and> length (po_events data) = length (po_events data') \<and>
     length (po_schedules data) = length (po_schedules data') \<and>
     list_all2 (\<lambda>q q'. pq_dead q > 0 \<longleftrightarrow> pq_dead q' > 0) (po_queues data) (po_queues data')"

definition plain_ids :: "page_overview \<Rightarrow> bool" where
  "plain_ids data \<longleftrightarrow> (\<forall>r \<in> set (po_runs data). plain_text (pr_id r))"

lemma all_rows: "length xs = length ys \<Longrightarrow> (\<And>x y. x \<in> set xs \<Longrightarrow> y \<in> set ys \<Longrightarrow> P x y) \<Longrightarrow> list_all2 P xs ys"
  by (simp add: list_all2_conv_all_nth)

text \<open>Two steps, two runs that show the same parts: settled or not, with or without an error or an output.\<close>

definition given :: "string option \<Rightarrow> bool" where
  "given v \<longleftrightarrow> v \<noteq> None \<and> v \<noteq> Some []"

definition step_alike :: "page_step \<Rightarrow> page_step \<Rightarrow> bool" where
  "step_alike s s' \<longleftrightarrow> (pt_status s = 1 \<longleftrightarrow> pt_status s' = 1) \<and> (given (pt_error s) \<longleftrightarrow> given (pt_error s'))"

definition run_alike :: "page_run \<times> page_step list \<Rightarrow> page_run \<times> page_step list \<Rightarrow> bool" where
  "run_alike = (\<lambda>(r, steps) (r', steps'). (given (pr_error r) \<longleftrightarrow> given (pr_error r')) \<and> (given (pr_output r) \<longleftrightarrow> given (pr_output r')) \<and>
     list_all2 step_alike steps steps')"

lemma given_text_cases: "given_text v f = (if given v then f (the v) else [])"
  by (auto simp: given_text_def given_def split: option.split)

lemma plain_took [simp]: "plain_text (took n)"
  by (simp add: took_def)

lemma chip_named: "tags In_Text (chip ''completed'') = tags In_Text (chip [])" "tags In_Text (chip ''running'') = tags In_Text (chip [])"
  by (rule chip_tags)+

lemma step_elements:
  assumes "step_alike s s'"
  shows "elements (step_node p s) = elements (step_node p' s') \<and> elements (step_node p s) \<noteq> None"
  using assms by (cases "pt_status s = 1"; cases "given (pt_error s)")
    (simp_all add: step_alike_def step_node_def given_text_cases lexing chip_named chip_tags(2))

lemma steps_elements:
  "list_all2 step_alike ss ss' \<Longrightarrow> (\<exists>e. elements (step_nodes p ss) = Some e \<and> elements (step_nodes p' ss') = Some e) \<and>
   (step_nodes p ss = [] \<longleftrightarrow> step_nodes p' ss' = [])"
proof (induction arbitrary: p p' rule: list_all2_induct)
  case (Cons s ss s' ss')
  from step_elements [OF Cons.hyps(1), of p p'] obtain e where e: "elements (step_node p s) = Some e" "elements (step_node p' s') = Some e" by fastforce
  from Cons.IH [of "pt_updated s" "pt_updated s'"] obtain d where
    d: "elements (step_nodes (pt_updated s) ss) = Some d" "elements (step_nodes (pt_updated s') ss') = Some d" by blast
  have "step_node p s \<noteq> []" for p s by (simp add: step_node_def)
  then show ?case by (simp add: elements_append [OF e(1)] elements_append [OF e(2)] d)
qed (simp add: lexing)

lemma detail_elements:
  assumes "run_alike (r, steps) (r', steps')"
  shows "elements (run_detail r steps) = elements (run_detail r' steps') \<and> elements (run_detail r steps) \<noteq> None"
proof -
  define graph where "graph r steps = (let nodes = step_nodes (pr_created r) steps in
      if nodes = [] then ''<p class='muted'>no steps recorded yet</p>'' else nodes)" for r :: page_run and steps
  have none: "elements ''<p class='muted'>no steps recorded yet</p>'' \<noteq> None" by (simp add: lexing)
  obtain e where "elements (step_nodes (pr_created r) steps) = Some e" "elements (step_nodes (pr_created r') steps') = Some e"
    and nil: "step_nodes (pr_created r) steps = [] \<longleftrightarrow> step_nodes (pr_created r') steps' = []"
    using steps_elements [of steps steps' "pr_created r" "pr_created r'"] assms by (auto simp: run_alike_def)
  then obtain d where "elements (graph r steps) = Some d" "elements (graph r' steps') = Some d"
    using none by (cases "step_nodes (pr_created r) steps = []") (fastforce simp: graph_def)+
  then have g': "lex_end In_Text (graph r steps) = In_Text" "lex_end In_Text (graph r' steps') = In_Text"
    "tags In_Text (graph r steps) = tags In_Text (graph r' steps')"
    by (simp_all add: elements_def split: if_splits)
  note c = chip_tags(1) [of "status_name (pr_status r)"] chip_tags(1) [of "status_name (pr_status r')"] chip_tags(2)
  show ?thesis
    using assms unfolding run_alike_def run_detail_def given_text_cases graph_def [symmetric]
    by (cases "given (pr_error r)"; cases "given (pr_output r)") (simp_all add: lexing c g')
qed

text \<open>
  C17: data cannot add to the page. Whatever the names of workflows, queues, events, schedules and steps, the payloads, outputs, errors and cron specifications are, every element of the overview and the detail of a run is closed again and holds exactly the tags that any other data of the same shape would give: as many rows, the same queues with dead jobs, a run with as many steps, settled or not, with or without an error or output. So no value opens a tag or ends an attribute. Run ids in rows come from the engine, times from the clock.
\<close>

theorem page_inert:
  assumes "plain_clock k" and "plain_ids data" and "plain_ids data'" and "alike data data'" and "run_alike run run'"
  shows "list_all2 (\<lambda>(i, h) (i', h'). i = i' \<and> elements h = elements h' \<and> elements h \<noteq> None) (render k data) (render k data') \<and>
    elements (run_detail (fst run) (snd run)) = elements (run_detail (fst run') (snd run')) \<and> elements (run_detail (fst run) (snd run)) \<noteq> None"
proof -
  have runs: "list_all2 (\<lambda>r r'. elements (run_row k r) = elements (run_row k r') \<and> elements (run_row k r) \<noteq> None) (po_runs data) (po_runs data')"
    by (rule all_rows, use assms(4) in \<open>simp add: alike_def\<close>, rule run_elements)
      (use assms(1,2,3) in \<open>simp_all add: plain_ids_def\<close>)
  have events: "list_all2 (\<lambda>x y. elements (event_row k x) = elements (event_row k y) \<and> elements (event_row k x) \<noteq> None)
      (po_events data) (po_events data')"
    by (rule all_rows, use assms(4) in \<open>simp add: alike_def\<close>, rule event_elements) (rule assms(1))
  have schedules: "list_all2 (\<lambda>x y. elements (schedule_row k x) = elements (schedule_row k y) \<and> elements (schedule_row k x) \<noteq> None)
      (po_schedules data) (po_schedules data')"
    by (rule all_rows, use assms(4) in \<open>simp add: alike_def\<close>, rule schedule_elements) (rule assms(1))
  have queues: "list_all2 (\<lambda>x y. elements (queue_row x) = elements (queue_row y) \<and> elements (queue_row x) \<noteq> None)
      (po_queues data) (po_queues data')"
    using assms(4) unfolding alike_def by (elim conjE list.rel_mono_strong) (rule queue_elements)
  have rows: "run_row k r \<noteq> []" "event_row k ev \<noteq> []" "schedule_row k sc \<noteq> []" "queue_row q \<noteq> []" for r ev sc q
    by (simp_all add: run_row_def event_row_def schedule_row_def queue_row_def)
  note rendered = cards_elements [of data data'] metric_cards_elements [of "po_metrics data" "po_metrics data'"]
    table_elements [OF runs rows(1) no_rows(1)] table_elements [OF events rows(2) no_rows(2)]
    table_elements [OF queues rows(4) no_rows(3)] table_elements [OF schedules rows(3) no_rows(4)]
  have "list_all2 (\<lambda>(i, h) (i', h'). i = i' \<and> elements h = elements h' \<and> elements h \<noteq> None) (render k data) (render k data')"
    unfolding render_def list_all2_Cons list_all2_Nil prod.case using rendered by blast
  moreover have "run_alike (fst run, snd run) (fst run', snd run')" using assms(5) by simp
  ultimately show ?thesis using detail_elements by blast
qed

definition one_step :: "string \<Rightarrow> page_run \<times> page_step list" where
  "one_step name =
     (\<lparr>pr_id = ''r'', pr_workflow = name, pr_status = 5, pr_output = None, pr_error = Some name, pr_created = 0, pr_updated = 0\<rparr>,
      [\<lparr>pt_id = name, pt_kind = ''run'', pt_status = 0, pt_error = Some name, pt_attempts = 1, pt_updated = 0\<rparr>])"

definition plain_time :: page_clock where
  "plain_time = \<lparr>pc_now = 0, pc_time = (\<lambda>_. []), pc_date = (\<lambda>_. [])\<rparr>"

definition one_event :: "string \<Rightarrow> page_overview" where
  "one_event name =
     \<lparr>po_queues = [], po_schedules = [], po_runs = [], po_events = [\<lparr>pe_name = name, pe_payload = name, pe_emitted = 0\<rparr>],
      po_metrics = \<lparr>pm_jobsCompleted = None, pm_jobsRetried = None, pm_runsCompleted = None, pm_stepRetries = None,
        pm_stepsRecorded = None, pm_eventsEmitted = None, pm_scheduleFires = None, pm_handlerAvg = None\<rparr>\<rparr>"

theorem page_inert_witness:
  "elements (snd (render plain_time (one_event ''<script>alert(1)</script>'') ! 3)) = elements (snd (render plain_time (one_event ''paid'') ! 3)) \<and>
   elements (run_detail (fst (one_step ''<script>'')) (snd (one_step ''<script>''))) = elements (run_detail (fst (one_step ''paid'')) (snd (one_step ''paid'')))"
proof -
  have "plain_clock plain_time" "plain_ids (one_event n)" "alike (one_event n) (one_event n')" for n n'
    by (simp_all add: plain_clock_def plain_time_def plain_ids_def alike_def one_event_def)
  moreover have "run_alike (one_step ''<script>'') (one_step ''paid'')"
    by (simp add: run_alike_def one_step_def step_alike_def given_def)
  ultimately have inert: "list_all2 (\<lambda>(i, h) (i', h'). i = i' \<and> elements h = elements h' \<and> elements h \<noteq> None)
      (render plain_time (one_event ''<script>alert(1)</script>'')) (render plain_time (one_event ''paid''))"
    "elements (run_detail (fst (one_step ''<script>'')) (snd (one_step ''<script>''))) = elements (run_detail (fst (one_step ''paid'')) (snd (one_step ''paid'')))"
    using page_inert [of plain_time "one_event ''<script>alert(1)</script>''" "one_event ''paid''" "one_step ''<script>''" "one_step ''paid''"] by blast+
  have "3 < length (render plain_time data)" for data unfolding render_def by simp
  from list_all2_nthD [OF inert(1) this] inert(2) show ?thesis by (simp only: case_prod_beta)
qed

section \<open>Findings\<close>

text \<open>
  Quotes in a queue name end the script's string in the button: the name below makes the button requeue
  two queues with one click.
\<close>

lemma queue_name_ends_the_string:
  "str_includes (queue_row \<lparr>pq_queue = ''a'' @ [SQ] @ '');requeue('' @ [SQ] @ ''b'', pq_pending = 0, pq_running = 0, pq_dead = 1\<rparr>)
     (''onclick='' @ [DQ] @ ''requeue('' @ [SQ] @ ''a'' @ [SQ] @ '');requeue('' @ [SQ] @ ''b'' @ [SQ] @ '')'' @ [DQ])"
  by code_simp

text \<open>Once the stream has failed the page never goes back to it: it shows itself as polling ever after, or as it was.\<close>

lemma never_live_again:
  "\<not> pg_stream p \<Longrightarrow> \<not> pg_stream (page_does token ev p)"
  by (cases ev) (auto simp: startPolling_def poll_def fetch_from_def split: option.split prod.split)

end
