(* ===== verification/Crypto.thy ===== *)
theory Crypto
  imports Jobs
begin

text \<open>
  Encryption of payloads at rest (\<open>crypto.rs\<close>, and where \<open>sqlite.rs\<close> calls it around the job table): the
  cipher with its wire format, and the job table over encrypted payloads. AES-256-GCM, SHA-256, Base64 and
  the system's random source are libraries and arguments. A text is its bytes.
\<close>

section \<open>The cipher\<close>

record crypto_lib =
  cl_sha256 :: "string \<Rightarrow> string"
  cl_encrypt :: "string \<Rightarrow> string \<Rightarrow> string \<Rightarrow> string"
  cl_decrypt :: "string \<Rightarrow> string \<Rightarrow> string \<Rightarrow> string option"
  cl_b64 :: "string \<Rightarrow> string"
  cl_unb64 :: "string \<Rightarrow> string option"
  cl_utf8 :: "string \<Rightarrow> bool"

definition new_crypto :: "crypto_lib \<Rightarrow> string option \<Rightarrow> string option" where
  "new_crypto lib passphrase =
     (case passphrase of None \<Rightarrow> None | Some p \<Rightarrow> if p = [] then None else Some (cl_sha256 lib p))"

definition enc_prefix :: string where "enc_prefix = ''enc:1:''"

definition NONCE_LEN :: nat where "NONCE_LEN = 12"

definition enc :: "crypto_lib \<Rightarrow> string option \<Rightarrow> string \<Rightarrow> string \<Rightarrow> string" where
  "enc lib key nonce plaintext =
     (case key of
        None \<Rightarrow> plaintext
      | Some k \<Rightarrow> enc_prefix @ cl_b64 lib (nonce @ cl_encrypt lib k nonce plaintext))"

definition dec :: "crypto_lib \<Rightarrow> string option \<Rightarrow> string \<Rightarrow> string" where
  "dec lib key stored =
     (if \<not> startsWith stored enc_prefix then stored
      else case key of
        None \<Rightarrow> stored
      | Some k \<Rightarrow>
          (case cl_unb64 lib (drop (length enc_prefix) stored) of
             None \<Rightarrow> stored
           | Some blob \<Rightarrow>
               if length blob \<le> NONCE_LEN then stored
               else case cl_decrypt lib k (take NONCE_LEN blob) (drop NONCE_LEN blob) of
                 None \<Rightarrow> stored
               | Some pt \<Rightarrow> if cl_utf8 lib pt then pt else stored))"

text \<open>What the libraries promise: decrypting undoes encrypting, a ciphertext has a tag, decoding undoes encoding.\<close>

definition lib_works :: "crypto_lib \<Rightarrow> bool" where
  "lib_works lib \<longleftrightarrow>
     (\<forall>k n p. cl_decrypt lib k n (cl_encrypt lib k n p) = Some p \<and> cl_encrypt lib k n p \<noteq> []) \<and> (\<forall>b. cl_unb64 lib (cl_b64 lib b) = Some b)"

lemma dec_enc:
  "lib_works lib \<Longrightarrow> length nonce = NONCE_LEN \<Longrightarrow> cl_utf8 lib p \<Longrightarrow> dec lib key (enc lib key nonce p) = p"
  by (auto simp: dec_def enc_def lib_works_def enc_prefix_def split: option.split)

lemma dec_legacy: "\<not> startsWith s enc_prefix \<Longrightarrow> dec lib key s = s"
  by (simp add: dec_def)

text \<open>
  With another key, a value whose authentication fails under it comes back as it is stored: its reader gets
  the ciphertext for the payload.
\<close>

lemma wrong_key_gives_ciphertext:
  assumes "lib_works lib" and "length nonce = NONCE_LEN" and "\<And>n c. cl_decrypt lib k' n c \<noteq> None \<Longrightarrow> c \<noteq> cl_encrypt lib k nonce p"
  shows "dec lib (Some k') (enc lib (Some k) nonce p) = enc lib (Some k) nonce p"
  using assms by (auto simp: dec_def enc_def lib_works_def enc_prefix_def split: option.split)

section \<open>The table does not look at payloads\<close>

definition set_payload :: "(string \<Rightarrow> string) \<Rightarrow> job \<Rightarrow> job" where
  "set_payload f j = j\<lparr>j_payload := f (j_payload j)\<rparr>"

definition map_payload :: "(string \<Rightarrow> string) \<Rightarrow> jobs_db \<Rightarrow> jobs_db" where
  "map_payload f db = db\<lparr>jobs := map (set_payload f) (jobs db)\<rparr>"

definition claimed_payload :: "(string \<Rightarrow> string) \<Rightarrow> claimed_job \<Rightarrow> claimed_job" where
  "claimed_payload f c = c\<lparr>c_payload := f (c_payload c)\<rparr>"

lemma set_payload_simps [simp]:
  "j_id (set_payload f j) = j_id j" "j_queue (set_payload f j) = j_queue j" "j_status (set_payload f j) = j_status j"
  "j_priority (set_payload f j) = j_priority j" "j_attempt (set_payload f j) = j_attempt j" "j_max (set_payload f j) = j_max j"
  "j_available (set_payload f j) = j_available j" "j_lease (set_payload f j) = j_lease j" "j_fence (set_payload f j) = j_fence j"
  "j_key (set_payload f j) = j_key j" "j_debounce (set_payload f j) = j_debounce j" "j_error (set_payload f j) = j_error j"
  "j_payload (set_payload f j) = f (j_payload j)"
  by (simp_all add: set_payload_def)

lemma map_payload_simps [simp]:
  "jobs (map_payload f db) = map (set_payload f) (jobs db)" "next_id (map_payload f db) = next_id db"
  "cursors (map_payload f db) = cursors db"
  by (simp_all add: map_payload_def)

lemma update_where_payload:
  "(\<And>j. P (set_payload f j) = P j) \<Longrightarrow> (\<And>j. g (set_payload f j) = set_payload f (g j)) \<Longrightarrow>
   update_where P g (map_payload f db) = map_payload f (update_where P g db)"
  by (simp add: update_where_def map_payload_def)

lemma delete_where_payload:
  "(\<And>j. P (set_payload f j) = P j) \<Longrightarrow> delete_where P (map_payload f db) = map_payload f (delete_where P db)"
  by (simp add: delete_where_def map_payload_def filter_map o_def)

lemma count_where_payload: "(\<And>j. P (set_payload f j) = P j) \<Longrightarrow> count_where P (map_payload f db) = count_where P db"
  by (simp add: count_where_def filter_map o_def)

lemma sort_key_map: "sort_key k (map g xs) = map g (sort_key (\<lambda>x. k (g x)) xs)"
proof -
  have "insort_key k (g x) (map g xs) = map g (insort_key (\<lambda>x. k (g x)) x xs)" for x xs
    by (induction xs) simp_all
  then show ?thesis by (induction xs) (simp_all add: sort_key_def)
qed

lemma claim_order_payload: "claim_order (map (set_payload f) js) = map (set_payload f) (claim_order js)"
  by (simp add: claim_order_def sort_key_map)

lemma row_number_payload: "row_number (map (set_payload f) cl) (set_payload f j) = row_number cl j"
  by (simp add: row_number_def precedes_def filter_map o_def)

lemma within_cap_payload:
  "within_cap kl (map_payload f db) (map (set_payload f) cl) (set_payload f j) = within_cap kl db cl j"
  by (simp add: within_cap_def row_number_payload running_with_key_def count_where_payload split: option.split)

lemma claimable_payload: "claimable q now (set_payload f j) = claimable q now j"
  by (simp add: claimable_def)

lemma picked_payload: "picked q limit kl fair now (map_payload f db) = map (set_payload f) (picked q limit kl fair now db)"
  by (simp add: picked_def Let_def filter_map o_def claimable_payload within_cap_payload claim_order_payload sort_key_map
      row_number_payload take_map)

lemma claim_payload:
  "claim_jobs q limit lease kl fair now (map_payload f db) =
     (map (claimed_payload f) (fst (claim_jobs q limit lease kl fair now db)), map_payload f (snd (claim_jobs q limit lease kl fair now db)))"
proof -
  have "j_id ` set_payload f ` A = j_id ` A" for A by (simp add: image_image)
  moreover have "update_where (\<lambda>j. j_id j \<in> X) (take_lease u) (map_payload f db) = map_payload f (update_where (\<lambda>j. j_id j \<in> X) (take_lease u) db)" for X u
    by (rule update_where_payload) (simp_all add: take_lease_def set_payload_def)
  moreover have "claimed_of (take_lease u (set_payload f j)) = claimed_payload f (claimed_of (take_lease u j))" for u j
    by (simp add: claimed_of_def take_lease_def claimed_payload_def)
  ultimately show ?thesis by (simp add: claim_jobs_def Let_def picked_payload claim_order_payload)
qed

lemma insert_payload:
  "insert_job_row now (p\<lparr>pj_payload := f (pj_payload p)\<rparr>) (map_payload f db) =
     (fst (insert_job_row now p db), map_payload f (snd (insert_job_row now p db)))"
proof -
  have "delete_where (debounced (p\<lparr>pj_payload := x\<rparr>)) (map_payload f db) = map_payload f (delete_where (debounced p) db)" for x
  proof -
    have "debounced (p\<lparr>pj_payload := x\<rparr>) = debounced p" by (simp add: debounced_def fun_eq_iff)
    then show ?thesis by (simp add: delete_where_payload debounced_def)
  qed
  moreover have "throttle_start now (p\<lparr>pj_payload := x\<rparr>) (map_payload f d) = (fst (throttle_start now p d), map_payload f (snd (throttle_start now p d)))" for x d
    by (simp add: throttle_start_def map_payload_def Let_def split: option.split prod.split)
  ultimately show ?thesis by (simp add: insert_job_row_def Let_def case_prod_beta map_payload_def set_payload_def)
qed

section \<open>The store over a cipher\<close>

text \<open>
  The calls of the store on jobs: what each answers (the jobs handed out) and what it leaves. \<open>sealed_call\<close> is
  the store with a key, with the nonce drawn for a push; \<open>plain_call\<close> the table itself.
\<close>

datatype store_call =
    Push int push_job
  | Claim string nat int "nat option" bool int
  | Settle claimed_job "string option" int
  | Renew nat nat int
  | Sweep int
  | Requeue int "nat list"
  | Purge string
  | Dead string

definition job_view :: "job \<Rightarrow> claimed_job" where
  "job_view j = \<lparr>c_id = j_id j, c_payload = j_payload j, c_attempt = j_attempt j, c_max = j_max j, c_fence = j_fence j\<rparr>"

fun plain_call :: "store_call \<Rightarrow> jobs_db \<Rightarrow> claimed_job list \<times> jobs_db" where
  "plain_call (Push now p) db = ([], snd (insert_job_row now p db))"
| "plain_call (Claim q limit lease kl fair now) db = claim_jobs q limit lease kl fair now db"
| "plain_call (Settle c r at) db = ([], settle_job c r at db)"
| "plain_call (Renew i fence until) db = ([], renew_lease i fence until db)"
| "plain_call (Sweep now) db = ([], sweep_expired now db)"
| "plain_call (Requeue now is) db = ([], snd (requeue_dead now is db))"
| "plain_call (Purge q) db = ([], snd (purge_dead q db))"
| "plain_call (Dead q) db = (map job_view (filter (\<lambda>j. j_queue j = q \<and> j_status j = JDead) (jobs db)), db)"

fun sealed_call :: "crypto_lib \<Rightarrow> string option \<Rightarrow> string \<Rightarrow> store_call \<Rightarrow> jobs_db \<Rightarrow> claimed_job list \<times> jobs_db" where
  "sealed_call lib key nonce (Push now p) db = plain_call (Push now (p\<lparr>pj_payload := enc lib key nonce (pj_payload p)\<rparr>)) db"
| "sealed_call lib key nonce c db = (case plain_call c db of (js, db') \<Rightarrow> (map (claimed_payload (dec lib key)) js, db'))"

fun run_calls :: "(nat \<Rightarrow> 'c \<Rightarrow> 's \<Rightarrow> 'a \<times> 's) \<Rightarrow> nat \<Rightarrow> 'c list \<Rightarrow> 's \<Rightarrow> 'a list \<times> 's" where
  "run_calls f n [] s = ([], s)"
| "run_calls f n (c # cs) s =
     (case f n c s of (a, s1) \<Rightarrow> case run_calls f (Suc n) cs s1 of (as, s2) \<Rightarrow> (a # as, s2))"

fun utf8_call :: "crypto_lib \<Rightarrow> store_call \<Rightarrow> bool" where
  "utf8_call lib (Push now p) \<longleftrightarrow> cl_utf8 lib (pj_payload p)"
| "utf8_call lib c \<longleftrightarrow> True"

lemma plain_call_payload:
  "(case c of Push _ _ \<Rightarrow> False | _ \<Rightarrow> True) \<Longrightarrow>
   plain_call c (map_payload f db) = (map (claimed_payload f) (fst (plain_call c db)), map_payload f (snd (plain_call c db)))"
proof (cases c)
  case (Claim q limit lease kl fair now)
  then show ?thesis by (simp add: claim_payload)
next
  case (Settle cj r at)
  have "ack i fe (map_payload f db) = map_payload f (ack i fe db)" "fail_dead i e fe (map_payload f db) = map_payload f (fail_dead i e fe db)"
      "fail_retry i e t fe (map_payload f db) = map_payload f (fail_retry i e t fe db)" for i fe e t
    unfolding ack_def fail_dead_def fail_retry_def
    by (simp_all add: delete_where_payload update_where_payload held_def set_payload_def)
  then show ?thesis using Settle by (simp add: settle_job_def split: option.split)
next
  case (Sweep now)
  have "update_where (\<lambda>j. expired now j \<and> j_attempt j \<ge> j_max j) g (map_payload f d) =
      map_payload f (update_where (\<lambda>j. expired now j \<and> j_attempt j \<ge> j_max j) g d)"
    "update_where (expired now) g (map_payload f d) = map_payload f (update_where (expired now) g d)"
    if "\<And>j. g (set_payload f j) = set_payload f (g j)" for g d
    by (rule update_where_payload; simp add: expired_def that)+
  then show ?thesis using Sweep by (simp add: sweep_expired_def set_payload_def)
next
  case (Dead q)
  then show ?thesis by (simp add: filter_map o_def job_view_def claimed_payload_def)
qed (simp_all add: renew_lease_def requeue_dead_def purge_dead_def update_where_payload delete_where_payload held_def set_payload_def)

lemma sealed_call_refines:
  assumes "lib_works lib" and "length nonce = NONCE_LEN" and "utf8_call lib c"
  shows "plain_call c (map_payload (dec lib key) db) =
    (fst (sealed_call lib key nonce c db), map_payload (dec lib key) (snd (sealed_call lib key nonce c db)))"
proof (cases c)
  case (Push now p)
  then have "dec lib key (enc lib key nonce (pj_payload p)) = pj_payload p" using assms dec_enc by simp
  then show ?thesis
    using insert_payload [where now = now and p = "p\<lparr>pj_payload := enc lib key nonce (pj_payload p)\<rparr>" and f = "dec lib key" and db = db] Push by simp
qed (use plain_call_payload [of c "dec lib key" db] in \<open>simp_all add: case_prod_beta\<close>)

text \<open>
  Encryption at rest is transparent. Whatever calls the engine makes, the store with a key answers what a
  store without encryption would have answered, had it held the decrypted payloads from the start; rows
  written before encryption was enabled are among them.
\<close>

theorem encryption_transparent:
  assumes "lib_works lib" and "\<And>n. length (nonces n) = NONCE_LEN" and "list_all (utf8_call lib) cs"
  shows "run_calls (\<lambda>n. plain_call) m cs (map_payload (dec lib key) db) =
    (fst (run_calls (\<lambda>n. sealed_call lib key (nonces n)) m cs db),
     map_payload (dec lib key) (snd (run_calls (\<lambda>n. sealed_call lib key (nonces n)) m cs db)))"
  using assms(3)
proof (induction cs arbitrary: m db)
  case (Cons c cs)
  then show ?case
    using sealed_call_refines [OF assms(1) assms(2) [of m], of c key db] by (simp add: case_prod_beta)
qed simp

definition demo_lib :: crypto_lib where
  "demo_lib = \<lparr>cl_sha256 = id, cl_encrypt = (\<lambda>k n p. rev p @ ''#''), cl_decrypt = (\<lambda>k n c. Some (rev (butlast c))),
     cl_b64 = id, cl_unb64 = Some, cl_utf8 = (\<lambda>_. True)\<rparr>"

definition secret_job :: push_job where
  "secret_job = \<lparr>pj_queue = ''q'', pj_payload = ''{ssn}'', pj_priority = 0, pj_delay = 0, pj_max = 1, pj_key = None,
     pj_debounce = None, pj_throttle = None\<rparr>"

theorem encryption_transparent_witness:
  "map c_payload (concat (fst (run_calls (\<lambda>n. sealed_call demo_lib (Some ''k'') (replicate 12 (CHR ''n''))) 0
     [Push 0 secret_job, Claim ''q'' 1 100 None False 5] empty_db))) = [''{ssn}'']"
proof -
  have "lib_works demo_lib" "length (replicate 12 (CHR ''n'')) = NONCE_LEN"
      "list_all (utf8_call demo_lib) [Push 0 secret_job, Claim ''q'' 1 100 None False 5]"
    by (simp_all add: lib_works_def demo_lib_def NONCE_LEN_def)
  note same = encryption_transparent [OF this, of 0 "Some ''k''" empty_db]
  have "map c_payload (concat (fst (run_calls (\<lambda>n. plain_call) 0 [Push 0 secret_job, Claim ''q'' 1 100 None False 5]
      (map_payload (dec demo_lib (Some ''k'')) empty_db)))) = [''{ssn}'']"
    by code_simp
  then show ?thesis unfolding same by simp
qed

end
