(* ===== verification/Wakeups.thy ===== *)
theory Wakeups
  imports Engine
begin

text \<open>
  No run is forgotten. As long as every operation of the engine runs to its end, a run that could make
  progress (runnable, or sleeping) always has an execution job in its workflow's queue: through retries,
  sleeps, events, timeouts, child runs, lost leases and dead letters. The last section shows what the
  operations do when a crash cuts them between two of their transactions.
\<close>

section \<open>Execution jobs of a run\<close>

definition run_payload :: "string \<Rightarrow> string" where
  "run_payload i = pj_payload (workflow_execution_job [] i 0)"

definition for_run :: "wf_run \<Rightarrow> job \<Rightarrow> bool" where
  "for_run r j \<longleftrightarrow> j_queue j = workflow_queue_name (wr_workflow r) \<and> j_payload j = run_payload (wr_id r)"

text \<open>
  Every runnable run outside \<open>K\<close> has a job; the job of run \<open>i\<close> has an id of at least \<open>n\<close>, which makes it
  a job created since the table's next id was \<open>n\<close>.
\<close>

definition covered :: "string set \<Rightarrow> string \<Rightarrow> nat \<Rightarrow> wf_store \<Rightarrow> bool" where
  "covered K i n s \<longleftrightarrow> (\<forall>r \<in> set (ws_runs s). runnable r \<and> wr_id r \<notin> K \<longrightarrow>
     (\<exists>j \<in> set (jobs (ws_jobs s)). for_run r j \<and> (wr_id r = i \<longrightarrow> n \<le> j_id j)))"

definition no_lost :: "wf_store \<Rightarrow> bool" where
  "no_lost s \<longleftrightarrow> (\<forall>r \<in> set (ws_runs s). runnable r \<longrightarrow> (\<exists>j \<in> set (jobs (ws_jobs s)). for_run r j))"

definition ids_ok :: "wf_store \<Rightarrow> bool" where
  "ids_ok s \<longleftrightarrow> distinct (map wr_id (ws_runs s))"

definition jobs_ok :: "jobs_db \<Rightarrow> bool" where
  "jobs_ok db \<longleftrightarrow> distinct (map j_id (jobs db)) \<and> (\<forall>j \<in> set (jobs db). j_id j < next_id db)"

lemma covered_mono: "covered K i n s \<Longrightarrow> K \<subseteq> L \<Longrightarrow> covered L i n s"
  by (auto simp: covered_def)

lemma covered_no_lost: "covered {} i n s \<Longrightarrow> no_lost s"
  by (auto simp: covered_def no_lost_def)

lemma no_lost_covered: "no_lost s \<Longrightarrow> covered {i} i n s"
  by (auto simp: covered_def no_lost_def)

lemma covered_zero: "covered {} i 0 s \<longleftrightarrow> no_lost s"
  by (auto simp: covered_def no_lost_def)

section \<open>Pushing an execution job\<close>

lemma push_execution_simps [simp]:
  "ws_runs (push_execution w i d s) = ws_runs s" "ws_steps (push_execution w i d s) = ws_steps s"
  "ws_next (push_execution w i d s) = ws_next s" "ws_now (push_execution w i d s) = ws_now s"
  by (simp_all add: push_execution_def)

lemma push_execution_jobs:
  "\<exists>j. jobs (ws_jobs (push_execution w i d s)) = jobs (ws_jobs s) @ [j] \<and> j_id j = next_id (ws_jobs s) \<and>
     j_queue j = workflow_queue_name w \<and> j_payload j = run_payload i \<and> next_id (ws_jobs (push_execution w i d s)) = next_id (ws_jobs s) + 1"
  by (simp add: push_execution_def insert_job_row_def workflow_execution_job_def run_payload_def throttle_start_def delete_where_def
      debounced_def Let_def)

lemma covered_push:
  assumes "covered K i n s" and "\<And>r. r \<in> set (ws_runs s) \<Longrightarrow> wr_id r = k \<Longrightarrow> wr_workflow r = w" and "n \<le> next_id (ws_jobs s)"
  shows "covered (K - {k}) i n (push_execution w k d s)"
proof -
  obtain j where j: "jobs (ws_jobs (push_execution w k d s)) = jobs (ws_jobs s) @ [j]" "j_id j = next_id (ws_jobs s)"
    "j_queue j = workflow_queue_name w" "j_payload j = run_payload k"
    using push_execution_jobs [of w k d s] by blast
  show ?thesis
    unfolding covered_def push_execution_simps
  proof (intro ballI impI)
    fix r assume r: "r \<in> set (ws_runs s)" "runnable r \<and> wr_id r \<notin> K - {k}"
    show "\<exists>l \<in> set (jobs (ws_jobs (push_execution w k d s))). for_run r l \<and> (wr_id r = i \<longrightarrow> n \<le> j_id l)"
    proof (cases "wr_id r = k")
      case True
      then have "for_run r j" using assms(2) [OF r(1)] j by (simp add: for_run_def)
      then show ?thesis using j assms(3) by auto
    next
      case False
      with r assms(1) obtain l where "l \<in> set (jobs (ws_jobs s))" "for_run r l \<and> (wr_id r = i \<longrightarrow> n \<le> j_id l)"
        unfolding covered_def by blast
      then show ?thesis using j(1) by auto
    qed
  qed
qed

lemma jobs_ok_push: "jobs_ok (ws_jobs s) \<Longrightarrow> jobs_ok (ws_jobs (push_execution w i d s))"
  using push_execution_jobs [of w i d s] by (fastforce simp: jobs_ok_def less_Suc_eq)

section \<open>Changing the status of runs\<close>

text \<open>An update that keeps ids and workflows can only make the runs in \<open>L\<close> runnable.\<close>

lemma covered_update:
  assumes "covered K i n s" and "\<And>r. wr_id (g r) = wr_id r \<and> wr_workflow (g r) = wr_workflow r"
    and "\<And>r. r \<in> set (ws_runs s) \<Longrightarrow> Q r \<Longrightarrow> runnable (g r) \<Longrightarrow> wr_id r \<in> L" and "K \<subseteq> L"
  shows "covered L i n (update_runs Q g s)"
  unfolding covered_def update_runs_simps
proof (intro ballI impI)
  fix r' assume "r' \<in> set (map (\<lambda>r. if Q r then (g r)\<lparr>wr_updated := ws_now s\<rparr> else r) (ws_runs s))"
    and r': "runnable r' \<and> wr_id r' \<notin> L"
  then obtain r where r: "r \<in> set (ws_runs s)" "r' = (if Q r then (g r)\<lparr>wr_updated := ws_now s\<rparr> else r)" by auto
  have upd: "runnable ((g r)\<lparr>wr_updated := t\<rparr>) = runnable (g r)" for t by (simp add: runnable_def)
  have nQ: "\<not> Q r" using r r' assms(2,3) by (auto simp: upd split: if_splits)
  then have "\<exists>j \<in> set (jobs (ws_jobs s)). for_run r j \<and> (wr_id r = i \<longrightarrow> n \<le> j_id j)"
    using assms(1,4) r r' unfolding covered_def by auto
  then show "\<exists>j \<in> set (jobs (ws_jobs s)). for_run r' j \<and> (wr_id r' = i \<longrightarrow> n \<le> j_id j)" using r(2) nQ by simp
qed

lemma ids_ok_update: "(\<And>r. wr_id (g r) = wr_id r) \<Longrightarrow> ids_ok (update_runs Q g s) = ids_ok s"
proof -
  assume "\<And>r. wr_id (g r) = wr_id r"
  then have ids: "map wr_id (map (\<lambda>r. if Q r then (g r)\<lparr>wr_updated := t\<rparr> else r) rs) = map wr_id rs" for t rs
    by (induction rs) auto
  show ?thesis unfolding ids_ok_def update_runs_simps ids ..
qed

lemma covered_drop:
  assumes "covered K i n s" and "\<And>r. r \<in> set (ws_runs s) \<Longrightarrow> wr_id r = k \<Longrightarrow> \<not> runnable r"
  shows "covered (K - {k}) i n s"
  using assms unfolding covered_def by blast

lemma record_step_runs [simp]:
  "ws_runs (record_step i sid kind result s) = ws_runs s" "ws_jobs (record_step i sid kind result s) = ws_jobs s"
  "ws_next (record_step i sid kind result s) = ws_next s" "ws_now (record_step i sid kind result s) = ws_now s"
  by (simp_all add: record_step_def split: option.split)

lemma step_failed_runs [simp]:
  "ws_runs (snd (step_failed_attempt i sid err s)) = ws_runs s" "ws_jobs (snd (step_failed_attempt i sid err s)) = ws_jobs s"
  by (simp_all add: step_failed_attempt_def Let_def)

lemma covered_cong: "ws_runs t = ws_runs s \<Longrightarrow> ws_jobs t = ws_jobs s \<Longrightarrow> covered K i n t = covered K i n s"
  by (simp add: covered_def)

lemma get_run_in: "get_run i s = Some r \<Longrightarrow> r \<in> set (ws_runs s) \<and> wr_id r = i"
  unfolding get_run_def find_Some_iff by (metis nth_mem)

lemma get_run_found: "r \<in> set (ws_runs s) \<Longrightarrow> wr_id r = i \<Longrightarrow> \<exists>q. get_run i s = Some q"
  by (cases "get_run i s") (auto simp: get_run_def find_None_iff)

lemma keyed_run_in: "keyed_run w key s = Some r \<Longrightarrow> r \<in> set (ws_runs s)"
  unfolding keyed_run_def find_Some_iff by (metis nth_mem)

lemma get_run_workflow:
  assumes "ids_ok s" and "get_run i s = Some r" and "q \<in> set (ws_runs s)" and "wr_id q = i"
  shows "q = r"
proof -
  have "r \<in> set (ws_runs s)" "wr_id r = i" using get_run_in [OF assms(2)] by auto
  then show ?thesis using assms(1,3,4) unfolding ids_ok_def by (metis distinct_map inj_onD)
qed

section \<open>What an operation does to the job table\<close>

text \<open>The table grows: rows stay, new rows have new ids.\<close>

definition grows :: "wf_store \<Rightarrow> wf_store \<Rightarrow> bool" where
  "grows s t \<longleftrightarrow> (jobs_ok (ws_jobs s) \<longrightarrow> jobs_ok (ws_jobs t)) \<and> (\<exists>new. jobs (ws_jobs t) = jobs (ws_jobs s) @ new \<and>
     (\<forall>j \<in> set new. next_id (ws_jobs s) \<le> j_id j)) \<and> next_id (ws_jobs s) \<le> next_id (ws_jobs t)"

definition growing :: "(wf_store \<Rightarrow> wf_store) \<Rightarrow> bool" where
  "growing f \<longleftrightarrow> (\<forall>s. grows s (f s))"

lemma grows_trans: "grows s t \<Longrightarrow> grows t u \<Longrightarrow> grows s u"
  by (fastforce simp: grows_def)

lemma grows_same: "ws_jobs t = ws_jobs s \<Longrightarrow> grows s t"
  by (simp add: grows_def)

lemma create_run_jobs [simp]: "ws_jobs (snd (create_run uid n s)) = ws_jobs s"
  by (simp add: create_run_def Let_def split: option.split)

lemma growing_simps [simp]:
  "growing (\<lambda>s. s)" "growing (record_step i sid kind result)" "growing (\<lambda>s. snd (step_failed_attempt i sid err s))"
  "growing (\<lambda>s. snd (create_run uid n s))" "growing (run_completed i out)" "growing (run_failed i err)" "growing (run_sleeping i t)"
  "growing (run_waiting_event i ev sid tm m)" "growing (run_waiting_child i)" "growing (\<lambda>s. snd (wake_parent i s))"
  "growing (\<lambda>s. snd (sweep_event_timeouts now s))"
  by (simp_all add: growing_def grows_same run_completed_def run_failed_def run_sleeping_def run_waiting_event_def
      run_waiting_child_def wake_parent_def sweep_event_timeouts_def)

lemma growing_push [simp]: "growing (push_execution w i d)"
  unfolding growing_def grows_def
proof (intro allI conjI)
  fix s
  obtain j where "jobs (ws_jobs (push_execution w i d s)) = jobs (ws_jobs s) @ [j]" "j_id j = next_id (ws_jobs s)"
    "next_id (ws_jobs (push_execution w i d s)) = next_id (ws_jobs s) + 1"
    using push_execution_jobs [of w i d s] by blast
  then show "\<exists>new. jobs (ws_jobs (push_execution w i d s)) = jobs (ws_jobs s) @ new \<and> (\<forall>j \<in> set new. next_id (ws_jobs s) \<le> j_id j)"
    "next_id (ws_jobs s) \<le> next_id (ws_jobs (push_execution w i d s))" by simp_all
qed (rule impI, rule jobs_ok_push)

lemma all_growing [simp]:
  "all_tx growing (enqueue w i d)" "all_tx growing (settle_parent r res)" "all_tx growing (fail_run r err)"
  by (auto simp: enqueue_def settle_parent_def fail_run_def split: option.split intro!: all_tx_bind)

lemma all_growing_apply [simp]: "all_tx growing (apply_outcome e run outcome)"
  by (cases outcome)
    (auto simp: apply_invoke_def record_invoke_def Let_def split: option.split intro!: all_tx_bind)

lemma prog_run_grows: "all_tx growing p \<Longrightarrow> grows s (snd (prog_run p s))"
proof (induction p arbitrary: s)
  case (Tx f k)
  then have "grows s (f s)" "grows (f s) (snd (prog_run (k s) (f s)))" by (auto simp: growing_def)
  then show ?case by (auto intro: grows_trans)
qed (simp add: grows_same)

lemma prog_run_runs_ok:
  assumes "inj uid" and "all_tx (engine_tx uid) p" and "runs_ok uid s"
  shows "runs_ok uid (snd (prog_run p s))"
  using assms(2,3) by (induction p arbitrary: s) (auto intro: engine_tx_runs_ok [OF assms(1)])

lemma runs_ok_ids: "runs_ok uid s \<Longrightarrow> ids_ok s"
  by (simp add: runs_ok_def ids_ok_def)

section \<open>Applying an outcome\<close>

lemma enqueue_covered:
  assumes "ids_ok s" and "covered {k} i n s" and "get_run k s = Some r" and "n \<le> next_id (ws_jobs s)"
  shows "covered {} i n (push_execution (wr_workflow r) k d s)"
  using covered_push [OF assms(2), where k = k and w = "wr_workflow r"] get_run_workflow [OF assms(1,3)] assms(4) by fastforce

lemma get_run_update:
  "(\<And>r. wr_id (g r) = wr_id r \<and> wr_workflow (g r) = wr_workflow r) \<Longrightarrow> get_run i s = Some r \<Longrightarrow>
    \<exists>q. get_run i (update_runs Q g s) = Some q \<and> wr_workflow q = wr_workflow r"
proof -
  assume g: "\<And>r. wr_id (g r) = wr_id r \<and> wr_workflow (g r) = wr_workflow r" and r: "get_run i s = Some r"
  have "List.find (\<lambda>r. wr_id r = i) rs = Some r \<Longrightarrow>
      \<exists>q. List.find (\<lambda>r. wr_id r = i) (map (\<lambda>r. if Q r then (g r)\<lparr>wr_updated := t\<rparr> else r) rs) = Some q \<and> wr_workflow q = wr_workflow r" for rs t
    by (induction rs) (auto simp: g split: if_splits)
  from this [OF r [unfolded get_run_def]] show ?thesis unfolding get_run_def update_runs_simps by blast
qed

lemma wake_parent_get: "fst (wake_parent p s) \<Longrightarrow> \<exists>r. get_run p (snd (wake_parent p s)) = Some r"
proof -
  assume "fst (wake_parent p s)"
  then have "\<exists>r \<in> set (ws_runs s). wr_id r = p" by (auto simp: wake_parent_def list_ex_iff)
  then obtain r where "get_run p s = Some r" using get_run_found by metis
  then show ?thesis unfolding wake_parent_def snd_conv
    using get_run_update [of "wr_status_update (\<lambda>_. Running)" p s r "\<lambda>r. wr_id r = p \<and> wr_status r = WaitingChild"] by auto
qed

lemma wake_parent_covered:
  "covered {} i n s \<Longrightarrow> covered (if fst (wake_parent p s) then {p} else {}) i n (snd (wake_parent p s))"
  unfolding wake_parent_def snd_conv fst_conv
  by (rule covered_update) (auto simp: list_ex_iff)

lemma settle_covered:
  assumes "ids_ok s" and "covered {} i n s" and "n \<le> next_id (ws_jobs s)"
  shows "fst (prog_run (settle_parent run res) s) = Ok () \<and> covered {} i n (snd (prog_run (settle_parent run res) s))"
proof (cases "\<exists>p sid. wr_parent_run run = Some p \<and> wr_parent_step run = Some sid")
  case False
  then show ?thesis using assms(2) by (auto simp: settle_parent_def split: option.split)
next
  case True
  then obtain p sid where p: "wr_parent_run run = Some p" "wr_parent_step run = Some sid" by blast
  let ?s1 = "record_step p sid ''invoke'' (Some (case res of Inr output \<Rightarrow> output_result output | Inl err \<Rightarrow> error_result err)) s"
  let ?w = "wake_parent p ?s1"
  have c1: "covered {} i n ?s1" using assms(2) covered_cong [of ?s1 s] by simp
  note c2 = wake_parent_covered [OF c1, of p]
  have ids: "ids_ok (snd ?w)" using assms(1) by (simp add: wake_parent_def ids_ok_update) (simp add: ids_ok_def)
  have jn: "n \<le> next_id (ws_jobs (snd ?w))" using assms(3) by (simp add: wake_parent_def)
  show ?thesis
  proof (cases "fst ?w")
    case True
    obtain r where r: "get_run p (snd ?w) = Some r" using wake_parent_get [OF True] by blast
    have "covered {} i n (push_execution (wr_workflow r) p 0 (snd ?w))"
      by (rule enqueue_covered [OF ids _ r jn]) (use c2 True in simp)
    then show ?thesis using p True r by (simp add: settle_parent_def prog_run_bind)
  next
    case False
    then show ?thesis using p c2 by (simp add: settle_parent_def prog_run_bind)
  qed
qed

text \<open>A run put into a state that is not runnable needs no job.\<close>

lemma parked:
  assumes "covered (insert k K) i n s" and "\<And>r. wr_id (g r) = wr_id r \<and> wr_workflow (g r) = wr_workflow r" and "\<And>r. \<not> runnable (g r)"
  shows "covered (K - {k}) i n (update_runs (\<lambda>r. wr_id r = k) g s)"
proof -
  have upd: "\<not> runnable ((g r)\<lparr>wr_updated := t\<rparr>)" for r t using assms(3) [of r] by (simp add: runnable_def)
  have "covered (insert k K) i n (update_runs (\<lambda>r. wr_id r = k) g s)"
    by (rule covered_update [OF assms(1,2)]) (use assms(3) in auto)
  then have "covered (insert k K - {k}) i n (update_runs (\<lambda>r. wr_id r = k) g s)"
    by (rule covered_drop) (use upd assms(2) in \<open>auto split: if_splits\<close>)
  then show ?thesis by simp
qed

lemma parked_simps:
  assumes "covered (insert k K) i n s"
  shows "covered (K - {k}) i n (run_completed k out s)" "covered (K - {k}) i n (run_failed k err s)"
    "covered (K - {k}) i n (run_waiting_event k ev sid tm m s)" "covered (K - {k}) i n (run_waiting_child k s)"
  unfolding run_completed_def run_failed_def run_waiting_event_def run_waiting_child_def
  by (rule parked [OF assms]; simp add: runnable_def)+

lemma update_runs_ids [simp]:
  "ids_ok (run_completed k out s) = ids_ok s" "ids_ok (run_failed k err s) = ids_ok s" "ids_ok (run_sleeping k t s) = ids_ok s"
  "ids_ok (run_waiting_child k s) = ids_ok s"
  "ws_jobs (run_completed k out s) = ws_jobs s" "ws_jobs (run_failed k err s) = ws_jobs s" "ws_jobs (run_sleeping k t s) = ws_jobs s"
  "ws_jobs (run_waiting_child k s) = ws_jobs s"
  by (simp_all add: run_completed_def run_failed_def run_sleeping_def run_waiting_child_def ids_ok_update)

lemma ids_ok_cong: "ws_runs t = ws_runs s \<Longrightarrow> ids_ok t = ids_ok s"
  by (simp add: ids_ok_def)

lemma get_run_cong: "ws_runs t = ws_runs s \<Longrightarrow> get_run i t = get_run i s"
  by (simp add: get_run_def)

lemma fail_covered:
  assumes "ids_ok s" and "covered {wr_id run} i n s" and "n \<le> next_id (ws_jobs s)"
  shows "fst (prog_run (fail_run run err) s) = Ok () \<and> covered {} i n (snd (prog_run (fail_run run err) s))"
  using settle_covered [of "run_failed (wr_id run) err s" i n run "Throw err"] parked_simps(2) [of "wr_id run" "{}" i n s] assms
  by (simp add: fail_run_def prog_run_bind)

lemma sleep_covered:
  assumes "ids_ok s" and "covered {k} i n s" and "n \<le> next_id (ws_jobs s)" and "get_run k s = Some cur"
  shows "covered {} i n (push_execution (wr_workflow cur) k d (run_sleeping k t s))"
proof -
  have c: "covered {k} i n (run_sleeping k t s)"
    unfolding run_sleeping_def by (rule covered_update [OF assms(2)]) auto
  obtain q where q: "get_run k (run_sleeping k t s) = Some q" "wr_workflow q = wr_workflow cur"
    using get_run_update [OF _ assms(4), of "\<lambda>r. r\<lparr>wr_status := Sleeping, wr_wake_at := Some t\<rparr>" "\<lambda>r. wr_id r = k"]
    unfolding run_sleeping_def by auto
  show ?thesis
    using enqueue_covered [OF _ c q(1), of d] assms(1,3) q(2) by simp
qed

lemma created_child:
  assumes "runs_ok uid s" and "inj uid" and "create_run uid nr s = ((c, True), t)" and "covered {k} i n s" and "get_run k s = Some cur"
    and "n \<le> next_id (ws_jobs s)"
  shows "covered {} i n (push_execution (nr_workflow nr) c d (run_waiting_child k t))"
proof -
  have t: "c = uid (ws_next s)" "ws_runs t = ws_runs s @ [run_of c (ws_now s) nr]" "ws_jobs t = ws_jobs s"
    using assms(3) by (auto simp: create_run_def Let_def split: option.splits)
  have new: "wr_id r \<noteq> c" if "r \<in> set (ws_runs s)" for r
    using assms(1,2) that t(1) unfolding runs_ok_def by (metis injD less_irrefl)
  have k: "k \<noteq> c" using get_run_in [OF assms(5)] new by blast
  have "covered {k, c} i n t"
    using assms(4) t unfolding covered_def by (auto simp: run_of_def)
  then have w: "covered {c} i n (run_waiting_child k t)" using parked_simps(4) [of k "{c}" i n t] k by simp
  have "wr_workflow r = nr_workflow nr" if "r \<in> set (ws_runs (run_waiting_child k t))" "wr_id r = c" for r
    using that k new by (auto simp: run_waiting_child_def t run_of_def split: if_splits)
  then show ?thesis
    using covered_push [OF w, of c "nr_workflow nr" d] assms(6) t(3) by simp
qed

lemma existing_child:
  assumes "create_run uid nr s = ((c, False), t)"
  shows "t = s \<and> (\<exists>r. get_run c s = Some r)"
proof -
  let ?found = "case nr_idem nr of None \<Rightarrow> None | Some key \<Rightarrow> keyed_run (nr_workflow nr) key s"
  obtain r where r: "?found = Some r" "c = wr_id r" "t = s"
    using assms by (cases ?found) (simp_all add: create_run_def Let_def)
  then have "r \<in> set (ws_runs s)" by (cases "nr_idem nr") (simp_all add: keyed_run_in)
  from get_run_found [OF this refl] show ?thesis unfolding r(2,3) by simp
qed

lemma record_covered:
  assumes "ids_ok s" and "covered {wr_id run} i n s" and "get_run (wr_id run) s = Some cur" and "wr_workflow cur = wr_workflow run"
    and "n \<le> next_id (ws_jobs s)"
  shows "covered {} i n (push_execution (wr_workflow run) (wr_id run) d (record_step (wr_id run) sid kind result s))"
  using enqueue_covered [of "record_step (wr_id run) sid kind result s" "wr_id run" i n cur d] assms
    covered_cong [of "record_step (wr_id run) sid kind result s" s] ids_ok_cong [of "record_step (wr_id run) sid kind result s" s]
    get_run_cong [of "record_step (wr_id run) sid kind result s" s] by simp

lemma invoke_covered:
  assumes "inj (en_uid e)" and "runs_ok (en_uid e) s" and "get_run (wr_id run) s = Some cur" and "wr_workflow cur = wr_workflow run"
    and "covered {wr_id run} i n s" and "n \<le> next_id (ws_jobs s)"
  shows "fst (prog_run (apply_invoke e run sid w input) s) = Ok () \<and> covered {} i n (snd (prog_run (apply_invoke e run sid w input) s))"
proof (cases "config e w = None")
  case True
  then show ?thesis using fail_covered [OF runs_ok_ids [OF assms(2)] assms(5,6)] by (simp add: apply_invoke_def)
next
  case False
  let ?nr = "\<lparr>nr_workflow = w, nr_input = or_null_text input, nr_version = config_version e w, nr_idem = Some (invoke_key (wr_id run) sid),
      nr_parent_run = Some (wr_id run), nr_parent_step = Some sid, nr_subject = None\<rparr>"
  obtain c created t where cr: "create_run (en_uid e) ?nr s = ((c, created), t)" by (metis prod.exhaust)
  show ?thesis
  proof (cases created)
    case True
    then have "covered {} i n (push_execution w c 0 (run_waiting_child (wr_id run) t))"
      using created_child [OF assms(2,1) _ assms(5,3,6), of ?nr c t 0] cr by simp
    then show ?thesis using False cr True by (simp add: apply_invoke_def prog_run_bind del: not_None_eq)
  next
    case old: False
    from existing_child [of "en_uid e" ?nr s c t] cr old obtain r where t: "t = s" and r: "get_run c s = Some r" by auto
    have rec: "covered {} i n (push_execution (wr_workflow run) (wr_id run) 0 (record_step (wr_id run) sid kind result s))" for kind result
      by (rule record_covered [OF runs_ok_ids [OF assms(2)] assms(5,3,4,6)])
    show ?thesis
      using False cr old t r rec parked_simps(4) [of "wr_id run" "{}" i n s] assms(5)
      by (simp add: apply_invoke_def record_invoke_def prog_run_bind del: not_None_eq)
  qed
qed

lemma apply_covered:
  assumes "inj (en_uid e)" and "runs_ok (en_uid e) s" and "get_run (wr_id run) s = Some cur" and "wr_workflow cur = wr_workflow run"
    and "covered {wr_id run} i n s" and "n \<le> next_id (ws_jobs s)"
  shows "fst (prog_run (apply_outcome e run outcome) s) = Ok () \<and> covered {} i n (snd (prog_run (apply_outcome e run outcome) s))"
proof -
  note ids = runs_ok_ids [OF assms(2)]
  show ?thesis
  proof (cases outcome)
    case (OCompleted res)
    then show ?thesis
      using settle_covered [of "run_completed (wr_id run) res s" i n run "Ok (or_null_text res)"] parked_simps(1) [of "wr_id run" "{}" i n s] assms(5,6) ids
      by (simp add: prog_run_bind)
  next
    case (OSleep sid wake)
    let ?s = "record_step (wr_id run) sid ''sleep'' None s"
    have "covered {} i n (push_execution (wr_workflow cur) (wr_id run) d (run_sleeping (wr_id run) wake ?s))" for d
      by (rule sleep_covered)
        (use assms ids covered_cong [of ?s s] ids_ok_cong [of ?s s] get_run_cong [of ?s s] in simp_all)
    then show ?thesis using OSleep assms(4) by (simp add: prog_run_bind)
  next
    case (OEvent sid ev tm m)
    then show ?thesis using parked_simps(3) [of "wr_id run" "{}" i n s] assms(5) by (simp add: prog_run_bind)
  next
    case (OInvoke sid w input)
    then show ?thesis using invoke_covered [OF assms] by simp
  next
    case (OStepFailed sid err)
    let ?s = "snd (step_failed_attempt (wr_id run) sid err s)"
    have same: "covered {wr_id run} i n ?s" "ids_ok ?s" "get_run (wr_id run) ?s = Some cur" "n \<le> next_id (ws_jobs ?s)"
      using assms ids covered_cong [of ?s s] ids_ok_cong [of ?s s] get_run_cong [of ?s s] by simp_all
    have "covered {} i n (push_execution (wr_workflow run) (wr_id run) d ?s)" for d
      using enqueue_covered [OF same(2,1,3,4), of d] assms(4) by simp
    then show ?thesis
      using OStepFailed fail_covered [OF same(2,1,4)] by (simp add: Let_def prog_run_bind)
  next
    case (OFailed err)
    then show ?thesis using fail_covered [OF ids assms(5,6)] by simp
  qed
qed

section \<open>Executing a job\<close>

text \<open>The executor records steps of the run it executes, and nothing else in one go.\<close>

definition records_only :: "wf_engine \<Rightarrow> bool" where
  "records_only e \<longleftrightarrow> inj (en_uid e) \<and>
     (\<forall>req. all_tx (\<lambda>f. \<exists>sid kind result. f = record_step (req_runId req) sid kind result) (en_executor e req))"

lemma records_keep:
  assumes "all_tx (\<lambda>f. \<exists>sid kind result. f = record_step i sid kind result) p"
  shows "ws_runs (snd (prog_run p s)) = ws_runs s \<and> ws_jobs (snd (prog_run p s)) = ws_jobs s \<and> ws_next (snd (prog_run p s)) = ws_next s"
  using assms by (induction p arbitrary: s) fastforce+

lemma runs_ok_cong: "ws_runs t = ws_runs s \<Longrightarrow> ws_next t = ws_next s \<Longrightarrow> runs_ok uid t = runs_ok uid s"
  by (simp add: runs_ok_def run_keys_def)

text \<open>
  When \<open>execute\<close> is done with a job of run \<open>i\<close> and reports success, run \<open>i\<close> has a newer job or needs none;
  the other runs keep theirs. Jobs are only added.
\<close>

lemma execute_covered:
  assumes "records_only e" and "runs_ok (en_uid e) s" and "no_lost s" and "payload_run payload = Some i"
    and out_def: "out = prog_run (execute e workflow payload) s"
  shows "(fst out = Ok () \<longrightarrow> covered {} i (next_id (ws_jobs s)) (snd out)) \<and> no_lost (snd out)"
proof (cases "get_run i s")
  case None
  then have "\<forall>r \<in> set (ws_runs s). wr_id r \<noteq> i" by (simp add: get_run_def find_None_iff)
  then have "covered {} i (next_id (ws_jobs s)) s" using no_lost_covered [OF assms(3)] by (auto simp: covered_def)
  then show ?thesis using None assms(3,4) by (simp add: out_def execute_def prog_run_bind)
next
  case (Some run)
  have id: "wr_id run = i" using get_run_in [OF Some] by simp
  let ?req = "\<lparr>req_runId = i, req_workflow = workflow, req_input = wr_input run, req_version = wr_version run,
      req_journal = json_text (JArr (map entry_value (load_journal i s)))\<rparr>"
  obtain r t where ex: "prog_run (en_executor e ?req) s = (r, t)" by fastforce
  have rec: "all_tx (\<lambda>f. \<exists>sid kind result. f = record_step i sid kind result) (en_executor e ?req)"
    using assms(1) [unfolded records_only_def, THEN conjunct2, THEN spec, of ?req] by (simp only: exec_req.simps)
  have keep: "ws_runs t = ws_runs s" "ws_jobs t = ws_jobs s" "ws_next t = ws_next s"
    using records_keep [OF rec, of s] unfolding ex snd_conv by blast+
  have nl: "no_lost t" using assms(3) keep by (simp add: no_lost_def)
  show ?thesis
  proof (cases "runnable run")
    case False
    then have "\<forall>q \<in> set (ws_runs s). wr_id q = i \<longrightarrow> \<not> runnable q"
      using get_run_workflow [OF runs_ok_ids [OF assms(2)] Some] by blast
    then have "covered {} i (next_id (ws_jobs s)) s" using no_lost_covered [OF assms(3), of i] by (auto simp: covered_def)
    then show ?thesis using Some False assms(3,4) by (simp add: out_def execute_def prog_run_bind)
  next
    case True
    have cov: "covered {i} i (next_id (ws_jobs s)) t" using no_lost_covered [OF nl, of i "next_id (ws_jobs s)"] .
    have again: "get_run i t = Some run" using Some get_run_cong [OF keep(1)] by simp
    have ap: "fst (prog_run (apply_outcome e run outcome) t) = Ok () \<and>
        covered {} i (next_id (ws_jobs s)) (snd (prog_run (apply_outcome e run outcome) t))" for outcome
      by (rule apply_covered)
        (use assms(1,2) again cov id keep runs_ok_cong [OF keep(1,3)] in \<open>simp_all add: records_only_def\<close>)
    have wake: "covered {} i (next_id (ws_jobs s)) t" if "wr_status run = Cancelled"
      using that True by (simp add: runnable_def)
    show ?thesis
    proof (cases r)
      case (Inl err)
      then show ?thesis using Some True ex nl assms(4) by (simp add: out_def execute_def prog_run_bind)
    next
      case (Inr answer)
      show ?thesis
      proof (cases "decode_outcome answer")
        case None
        then show ?thesis using Some True ex nl Inr assms(4) by (simp add: out_def execute_def prog_run_bind)
      next
        case (Some outcome)
        have "out = prog_run (if wr_status run = Cancelled then Ret (Ok ()) else apply_outcome e run outcome) t"
          using \<open>get_run i s = Some run\<close> Some True ex Inr assms(4) again by (simp add: out_def execute_def prog_run_bind)
        then show ?thesis using ap [of outcome] wake covered_no_lost by (cases "wr_status run = Cancelled") auto
      qed
    qed
  qed
qed

section \<open>The other operations\<close>

lemma runs_ok_simps [simp]:
  "runs_ok uid (push_execution w i d s) = runs_ok uid s" "runs_ok uid (record_step i sid kind result s) = runs_ok uid s"
  by (rule runs_ok_cong; simp)+

lemma create_and_push:
  assumes "inj uid" and "runs_ok uid s" and "no_lost s" and "create_run uid nr s = ((c, created), t)"
  shows "no_lost (if created then push_execution (nr_workflow nr) c d t else t)"
proof (cases created)
  case True
  then have t: "c = uid (ws_next s)" "ws_runs t = ws_runs s @ [run_of c (ws_now s) nr]" "ws_jobs t = ws_jobs s"
    using assms(4) by (auto simp: create_run_def Let_def split: option.splits)
  have new: "wr_id r \<noteq> c" if "r \<in> set (ws_runs s)" for r
    using assms(1,2) that t(1) unfolding runs_ok_def by (metis injD less_irrefl)
  have c: "covered {c} c 0 t" using assms(3) t unfolding covered_def no_lost_def by (auto simp: run_of_def)
  have "wr_workflow r = nr_workflow nr" if "r \<in> set (ws_runs t)" "wr_id r = c" for r
    using that new by (auto simp: t run_of_def)
  from covered_push [where k = c and d = d, OF c this] True show ?thesis by (simp add: covered_zero)
next
  case False
  then show ?thesis using existing_child [of uid nr s c t] assms(3,4) by simp
qed

lemma wake_waiter_no_lost:
  assumes "ids_ok s" and "no_lost s" and "q \<in> set (ws_runs s)" and "wr_id q = wr_id r" and "wr_workflow q = wr_workflow r"
  shows "no_lost (wake_waiter payload r s)"
proof -
  let ?g = "\<lambda>q. q\<lparr>wr_status := Running, wr_wait_event := None, wr_wait_step := None, wr_wait_match := None, wr_wake_at := None\<rparr>"
  let ?u = "update_runs (\<lambda>q. wr_id q = wr_id r) ?g s"
  let ?t = "record_step (wr_id r) (case wr_wait_step r of Some sid \<Rightarrow> sid | None \<Rightarrow> []) ''waitForEvent'' (Some (event_step_result payload)) ?u"
  have "covered {wr_id r} (wr_id r) 0 ?u"
    by (rule covered_update [where K = "{}"]) (use assms(2) covered_zero in auto)
  then have c: "covered {wr_id r} (wr_id r) 0 ?t" using covered_cong [of ?t ?u] by simp
  have "get_run (wr_id r) s = Some q" using get_run_found [OF assms(3,4)] get_run_workflow [OF assms(1) _ assms(3,4)] by blast
  then obtain p where p: "get_run (wr_id r) ?u = Some p" "wr_workflow p = wr_workflow r"
    using get_run_update [of ?g "wr_id r" s q "\<lambda>q. wr_id q = wr_id r"] assms(5) by auto
  have ids: "ids_ok ?t" using assms(1) ids_ok_cong [of ?t ?u] by (simp add: ids_ok_update)
  have "get_run (wr_id r) ?t = Some p" using p(1) get_run_cong [of ?t ?u] by simp
  from enqueue_covered [OF ids c this, of 0] p(2) show ?thesis unfolding wake_waiter_def by (simp add: covered_zero)
qed

lemma wake_waiter_runs:
  "ids_ok (wake_waiter payload r s) = ids_ok s"
  "q \<in> set (ws_runs s) \<Longrightarrow> \<exists>p \<in> set (ws_runs (wake_waiter payload r s)). wr_id p = wr_id q \<and> wr_workflow p = wr_workflow q"
proof -
  let ?g = "\<lambda>q. q\<lparr>wr_status := Running, wr_wait_event := None, wr_wait_step := None, wr_wait_match := None, wr_wake_at := None\<rparr>"
  let ?u = "update_runs (\<lambda>q. wr_id q = wr_id r) ?g s"
  have runs: "ws_runs (wake_waiter payload r s) = ws_runs ?u" by (simp add: wake_waiter_def)
  show "ids_ok (wake_waiter payload r s) = ids_ok s" using ids_ok_cong [OF runs] by (simp add: ids_ok_update)
  assume "q \<in> set (ws_runs s)"
  then show "\<exists>p \<in> set (ws_runs (wake_waiter payload r s)). wr_id p = wr_id q \<and> wr_workflow p = wr_workflow q"
    unfolding runs update_runs_simps by (intro bexI [where x = "if wr_id q = wr_id r then (?g q)\<lparr>wr_updated := ws_now s\<rparr> else q"]) auto
qed

lemma wake_all_no_lost:
  assumes "ids_ok s" and "no_lost s" and "\<forall>r \<in> set rs. \<exists>q \<in> set (ws_runs s). wr_id q = wr_id r \<and> wr_workflow q = wr_workflow r"
  shows "no_lost (fold (wake_waiter payload) rs s)"
  using assms
proof (induction rs arbitrary: s)
  case (Cons r rs)
  from Cons.prems(3) obtain q where q: "q \<in> set (ws_runs s)" "wr_id q = wr_id r" "wr_workflow q = wr_workflow r" by auto
  have "\<forall>x \<in> set rs. \<exists>p \<in> set (ws_runs (wake_waiter payload r s)). wr_id p = wr_id x \<and> wr_workflow p = wr_workflow x"
  proof
    fix x assume "x \<in> set rs"
    with Cons.prems(3) obtain y where y: "y \<in> set (ws_runs s)" "wr_id y = wr_id x" "wr_workflow y = wr_workflow x" by auto
    from wake_waiter_runs(2) [OF y(1), of payload r] y(2,3)
    show "\<exists>p \<in> set (ws_runs (wake_waiter payload r s)). wr_id p = wr_id x \<and> wr_workflow p = wr_workflow x" by metis
  qed
  with Cons.IH [of "wake_waiter payload r s"] Cons.prems(1) wake_waiter_no_lost [OF Cons.prems(1,2) q] wake_waiter_runs(1)
  show ?case by simp
qed simp

lemma trigger_one_keeps:
  assumes "inj uid" and "runs_ok uid s" and "no_lost s"
  shows "no_lost (trigger_one uid input t s) \<and> runs_ok uid (trigger_one uid input t s)"
proof -
  let ?nr = "\<lparr>nr_workflow = tt_workflow t, nr_input = input, nr_version = tt_version t, nr_idem = None, nr_parent_run = None,
      nr_parent_step = None, nr_subject = None\<rparr>"
  obtain c created u where cr: "create_run uid ?nr s = ((c, created), u)" by (metis prod.exhaust)
  have "runs_ok uid u" using runs_ok_create [OF assms(1,2), of ?nr] cr by simp
  then show ?thesis using create_and_push [OF assms cr, of 0] cr by (cases created) (simp_all add: trigger_one_def)
qed

lemma trigger_all_no_lost:
  "inj uid \<Longrightarrow> runs_ok uid s \<Longrightarrow> no_lost s \<Longrightarrow> no_lost (fold (trigger_one uid input) ts s)"
  by (induction ts arbitrary: s) (auto simp: trigger_one_keeps)

lemma emit_no_lost:
  assumes "inj uid" and "runs_ok uid s" and "no_lost s"
  shows "no_lost (snd (emit_in_tx uid name payload targets s))"
proof -
  let ?s1 = "s\<lparr>ws_events := ws_events s @ [(name, payload, ws_now s)]\<rparr>"
  let ?ws = "event_waiters name payload ?s1"
  let ?s2 = "fold (wake_waiter payload) ?ws ?s1"
  have ok: "runs_ok uid ?s1" "no_lost ?s1" using assms(2,3) by (simp_all add: runs_ok_def run_keys_def no_lost_def)
  have sub: "\<forall>r \<in> set ?ws. \<exists>q \<in> set (ws_runs ?s1). wr_id q = wr_id r \<and> wr_workflow q = wr_workflow r"
    by (auto simp: event_waiters_def)
  have "no_lost ?s2" by (rule wake_all_no_lost [OF runs_ok_ids [OF ok(1)] ok(2) sub])
  moreover have "runs_ok uid ?s2"
  proof -
    have "runs_ok uid (fold (wake_waiter payload) rs u)" if "runs_ok uid u" for rs u
      using that
    proof (induction rs arbitrary: u)
      case (Cons r rs)
      have "runs_ok uid (wake_waiter payload r u)"
        using Cons.prems by (simp add: wake_waiter_def runs_ok_update)
      with Cons show ?case by simp
    qed simp
    then show ?thesis using ok(1) .
  qed
  ultimately show ?thesis using trigger_all_no_lost [OF assms(1)] by (simp add: emit_in_tx_def Let_def)
qed

lemma cancel_one_no_lost: "no_lost s \<Longrightarrow> no_lost (snd (cancel_one i s))"
proof -
  assume "no_lost s"
  then have "covered {} i 0 s" by (simp add: covered_zero)
  then have "covered {} i 0 (snd (cancel_one i s))"
    unfolding cancel_one_def snd_conv by (rule covered_update) (auto simp: runnable_def)
  then show ?thesis by (simp add: covered_zero)
qed

lemma cancel_tree_no_lost: "no_lost s \<Longrightarrow> no_lost (snd (cancel_tree frontier s))"
  by (induction frontier s rule: cancel_tree.induct) (auto simp: cancel_one_no_lost split: prod.split)

lemma sweep_each_covered:
  assumes "ids_ok s" and "covered (wr_id ` set rs) i 0 s"
    and "\<forall>r \<in> set rs. \<exists>q \<in> set (ws_runs s). wr_id q = wr_id r \<and> wr_workflow q = wr_workflow r"
  shows "covered {} i 0 (snd (prog_run (sweep_each rs) s))"
  using assms
proof (induction rs arbitrary: s)
  case (Cons r rs)
  let ?u = "record_step (wr_id r) (wait_step r) ''waitForEvent'' (Some timed_out_result) s"
  let ?t = "push_execution (wr_workflow r) (wr_id r) 0 ?u"
  from Cons.prems(3) obtain q where q: "q \<in> set (ws_runs s)" "wr_id q = wr_id r" "wr_workflow q = wr_workflow r" by auto
  have wf: "wr_workflow p = wr_workflow r" if "p \<in> set (ws_runs ?u)" "wr_id p = wr_id r" for p
  proof -
    have "p = q" using that q Cons.prems(1) unfolding ids_ok_def record_step_runs by (metis distinct_map inj_onD)
    then show ?thesis using q(3) by simp
  qed
  have "covered (wr_id ` set (r # rs) - {wr_id r}) i 0 ?t"
    by (rule covered_push) (use Cons.prems(2) wf covered_cong [of ?u s] in simp_all)
  then have c: "covered (wr_id ` set rs) i 0 ?t" by (rule covered_mono) auto
  have ids: "ids_ok ?t" using Cons.prems(1) ids_ok_cong [of ?t s] by simp
  show ?case using Cons.IH [OF ids c] Cons.prems(3) by (simp add: prog_run_bind)
qed simp

lemma sweep_no_lost:
  assumes "ids_ok s" and "no_lost s"
  shows "no_lost (snd (prog_run (sweep now) s))"
proof -
  let ?rs = "filter (timed_out now) (ws_runs s)"
  let ?g = "\<lambda>r. r\<lparr>wr_status := Running, wr_wait_event := None, wr_wait_match := None, wr_wake_at := None\<rparr>"
  let ?u = "update_runs (timed_out now) ?g s"
  have c: "covered (wr_id ` set ?rs) [] 0 ?u"
    by (rule covered_update [where K = "{}"]) (use assms(2) covered_zero in auto)
  have sub: "\<forall>r \<in> set ?rs. \<exists>q \<in> set (ws_runs ?u). wr_id q = wr_id r \<and> wr_workflow q = wr_workflow r"
  proof
    fix r assume "r \<in> set ?rs"
    then show "\<exists>q \<in> set (ws_runs ?u). wr_id q = wr_id r \<and> wr_workflow q = wr_workflow r"
      unfolding update_runs_simps by (intro bexI [where x = "(?g r)\<lparr>wr_updated := ws_now s\<rparr>"]) (auto simp: image_iff intro!: bexI [of _ r])
  qed
  have ids: "ids_ok ?u" using assms(1) by (simp add: ids_ok_update)
  from sweep_each_covered [OF ids c sub] show ?thesis
    by (simp add: sweep_def sweep_event_timeouts_def prog_run_bind covered_zero)
qed

section \<open>The engine at work\<close>

text \<open>
  Workers claim execution jobs, execute them and settle them; a worker may die with a claim, whose lease
  then runs out; clients trigger, emit and cancel; the sweeper releases timed-out waits; operators requeue
  dead jobs and purge those of the application's own queues (a queue handle has the name the application gave
  it, not that of a workflow); the retention sweep deletes settled runs, and a subject's runs are erased. An
  operation here runs all its transactions.
\<close>

type_synonym wf_state = "wf_store \<times> (string \<times> claimed_job) list"

definition with_jobs :: "(jobs_db \<Rightarrow> jobs_db) \<Rightarrow> wf_store \<Rightarrow> wf_store" where
  "with_jobs f s = s\<lparr>ws_jobs := f (ws_jobs s)\<rparr>"

definition handler_error :: "(string, unit) res \<Rightarrow> string option" where
  "handler_error res = (case res of Inr _ \<Rightarrow> None | Inl err \<Rightarrow> Some err)"

inductive wf_step :: "wf_engine \<Rightarrow> wf_state \<Rightarrow> wf_state \<Rightarrow> bool" for e where
  claim: "claim_jobs (workflow_queue_name w) limit lease None False (ws_now s) (ws_jobs s) = (new, db) \<Longrightarrow>
    wf_step e (s, cs) (s\<lparr>ws_jobs := db\<rparr>, cs @ map (Pair w) new)"
| work: "(w, c) \<in> set cs \<Longrightarrow> prog_run (execute e w (c_payload c)) s = (res, t) \<Longrightarrow>
    wf_step e (s, cs) (with_jobs (settle_job c (handler_error res) retry_at) t, remove1 (w, c) cs)"
| die: "wf_step e (s, cs) (s, remove1 x cs)"
| renew: "wf_step e (s, cs) (with_jobs (renew_lease i fence until) s, cs)"
| expire: "wf_step e (s, cs) (with_jobs (sweep_expired (ws_now s)) s, cs)"
| requeue: "wf_step e (s, cs) (with_jobs (\<lambda>db. snd (requeue_dead (ws_now s) is db)) s, cs)"
| trigger: "wf_step e (s, cs) (snd (prog_run (trigger_blocking e workflow input idem delay subject) s), cs)"
| emit: "wf_step e (s, cs) (snd (prog_run (emit_blocking e event payload) s), cs)"
| cancel: "wf_step e (s, cs) (snd (prog_run (cancel_blocking i) s), cs)"
| timeouts: "wf_step e (s, cs) (snd (prog_run (sweep (ws_now s)) s), cs)"
| purge: "\<forall>w. q \<noteq> workflow_queue_name w \<Longrightarrow> wf_step e (s, cs) (with_jobs (\<lambda>db. snd (purge_dead q db)) s, cs)"
| retain: "wf_step e (s, cs) (gc runs_before events_before s, cs)"
| erase: "wf_step e (s, cs) (snd (purge_subject subject s), cs)"
| tick: "d \<ge> 0 \<Longrightarrow> wf_step e (s, cs) (s\<lparr>ws_now := ws_now s + d\<rparr>, cs)"

inductive wf_reach :: "wf_engine \<Rightarrow> wf_state \<Rightarrow> bool" for e where
  init: "wf_reach e (empty_store, [])"
| step: "wf_reach e c \<Longrightarrow> wf_step e c c' \<Longrightarrow> wf_reach e c'"

text \<open>What identifies a row.\<close>

definition row_key :: "job \<Rightarrow> nat \<times> string \<times> string" where
  "row_key j = (j_id j, j_queue j, j_payload j)"

definition same_rows :: "jobs_db \<Rightarrow> jobs_db \<Rightarrow> bool" where
  "same_rows db db' \<longleftrightarrow> map row_key (jobs db') = map row_key (jobs db) \<and> next_id db' = next_id db"

lemma same_rows_update: "(\<And>j. row_key (f j) = row_key j) \<Longrightarrow> same_rows db (update_where P f db)"
  by (simp add: same_rows_def update_where_def)

lemma same_rows_trans: "same_rows a b \<Longrightarrow> same_rows b c \<Longrightarrow> same_rows a c"
  by (simp add: same_rows_def)

lemma same_rows_statements:
  "same_rows db (renew_lease i fence until db)" "same_rows db (sweep_expired now db)" "same_rows db (snd (requeue_dead now is db))"
  "same_rows db (fail_dead i err fence db)" "same_rows db (fail_retry i err t fence db)"
  "claim_jobs q limit lease kl fair now db = (new, db') \<Longrightarrow> same_rows db db'"
  by (auto simp: renew_lease_def sweep_expired_def requeue_dead_def fail_dead_def fail_retry_def claim_jobs_def Let_def row_key_def take_lease_def
      intro!: same_rows_update same_rows_trans [OF same_rows_update same_rows_update])

lemma same_rows_find: "same_rows db db' \<Longrightarrow> j \<in> set (jobs db) \<Longrightarrow> \<exists>k \<in> set (jobs db'). row_key k = row_key j"
  unfolding same_rows_def by (metis (no_types, lifting) image_iff image_set)

lemma same_rows_back: "same_rows db db' \<Longrightarrow> j \<in> set (jobs db') \<Longrightarrow> \<exists>k \<in> set (jobs db). row_key k = row_key j"
  unfolding same_rows_def by (metis (no_types, lifting) image_iff image_set)

lemma same_rows_ids: "same_rows db db' \<Longrightarrow> map j_id (jobs db') = map j_id (jobs db)"
proof -
  have "map j_id js = map fst (map row_key js)" for js by (simp add: row_key_def)
  then show "same_rows db db' \<Longrightarrow> map j_id (jobs db') = map j_id (jobs db)" by (metis same_rows_def)
qed

lemma same_rows_ok: "same_rows db db' \<Longrightarrow> jobs_ok db \<Longrightarrow> jobs_ok db'"
  using same_rows_ids [of db db'] same_rows_back [of db db'] unfolding jobs_ok_def
  by (metis (no_types, lifting) fst_conv row_key_def same_rows_def)

lemma same_rows_no_lost: "same_rows (ws_jobs s) (ws_jobs t) \<Longrightarrow> ws_runs t = ws_runs s \<Longrightarrow> no_lost s \<Longrightarrow> no_lost t"
proof -
  assume same: "same_rows (ws_jobs s) (ws_jobs t)" and runs: "ws_runs t = ws_runs s" and nl: "no_lost s"
  have "for_run r k" if "for_run r j" "row_key k = row_key j" for r j k
    using that by (simp add: for_run_def row_key_def)
  with nl show "no_lost t" unfolding no_lost_def runs by (meson same same_rows_find)
qed

text \<open>Claims agree with their rows, which have old ids.\<close>

definition claims_ok :: "jobs_db \<Rightarrow> (string \<times> claimed_job) list \<Rightarrow> bool" where
  "claims_ok db cs \<longleftrightarrow> (\<forall>(w, c) \<in> set cs. c_id c < next_id db \<and> (\<forall>j \<in> set (jobs db). j_id j = c_id c \<longrightarrow> j_payload j = c_payload c))"

lemma claims_ok_same: "same_rows db db' \<Longrightarrow> claims_ok db cs \<Longrightarrow> claims_ok db' cs"
proof -
  assume same: "same_rows db db'" and ok: "claims_ok db cs"
  have n: "next_id db' = next_id db" using same by (simp add: same_rows_def)
  have "j_payload j = c_payload c" if a: "(w, c) \<in> set cs" "j \<in> set (jobs db')" "j_id j = c_id c" for w c j
  proof -
    obtain k where k: "k \<in> set (jobs db)" "row_key k = row_key j" using same_rows_back [OF same a(2)] by blast
    then have "j_id k = c_id c" "j_payload k = j_payload j" using a(3) by (simp_all add: row_key_def)
    then show ?thesis using ok a(1) k(1) by (fastforce simp: claims_ok_def)
  qed
  with n ok show ?thesis by (fastforce simp: claims_ok_def)
qed

lemma claims_ok_grows:
  assumes "grows s t" and "claims_ok (ws_jobs s) cs"
  shows "claims_ok (ws_jobs t) cs"
proof -
  obtain new where "jobs (ws_jobs t) = jobs (ws_jobs s) @ new" "\<forall>j \<in> set new. next_id (ws_jobs s) \<le> j_id j"
    "next_id (ws_jobs s) \<le> next_id (ws_jobs t)"
    using assms(1) by (auto simp: grows_def)
  then show ?thesis using assms(2) by (fastforce simp: claims_ok_def)
qed

lemma growing_fold: "(\<And>x. growing (f x)) \<Longrightarrow> grows s (fold f xs s)"
proof (induction xs arbitrary: s)
  case (Cons x xs)
  then have "grows s (f x s)" "grows (f x s) (fold f xs (f x s))" by (simp_all add: growing_def)
  then show ?case using grows_trans by simp
qed (simp add: grows_same)

lemma growing_comp: "growing f \<Longrightarrow> growing g \<Longrightarrow> growing (\<lambda>s. g (f s))"
  unfolding growing_def using grows_trans by blast

lemma growing_update: "growing (update_runs P g)"
  by (simp add: growing_def grows_same)

lemma growing_wake: "growing (wake_waiter payload r)"
  unfolding wake_waiter_def [abs_def]
  by (intro growing_comp [OF growing_comp [OF growing_update]] growing_simps growing_push)

lemma growing_trigger: "growing (trigger_one uid input t)"
proof -
  have "grows s (trigger_one uid input t s)" for s
  proof -
    let ?nr = "\<lparr>nr_workflow = tt_workflow t, nr_input = input, nr_version = tt_version t, nr_idem = None, nr_parent_run = None,
        nr_parent_step = None, nr_subject = None\<rparr>"
    obtain c created u where cr: "create_run uid ?nr s = ((c, created), u)" by (metis prod.exhaust)
    have "grows s u" using create_run_jobs [of uid ?nr s] cr by (simp add: grows_same)
    moreover have "grows u (push_execution (tt_workflow t) c 0 u)" using growing_push unfolding growing_def by blast
    ultimately show ?thesis using cr grows_trans by (simp add: trigger_one_def)
  qed
  then show ?thesis by (simp add: growing_def)
qed

lemma growing_emit [simp]: "growing (\<lambda>s. snd (emit_in_tx uid name payload targets s))"
  unfolding growing_def emit_in_tx_def Let_def snd_conv
proof
  fix s :: wf_store
  let ?s1 = "s\<lparr>ws_events := ws_events s @ [(name, payload, ws_now s)]\<rparr>"
  have "grows s ?s1" by (simp add: grows_same)
  from grows_trans [OF grows_trans [OF this growing_fold [OF growing_wake]] growing_fold [OF growing_trigger]]
  show "grows s (fold (trigger_one uid (trigger_input (ws_now s) name payload)) targets
      (fold (wake_waiter payload) (event_waiters name payload ?s1) ?s1))" .
qed

lemma cancel_tree_jobs [simp]: "ws_jobs (snd (cancel_tree frontier s)) = ws_jobs s"
  by (induction frontier s rule: cancel_tree.induct) (auto simp: cancel_one_def split: prod.split)

lemma growing_cancel [simp]: "growing (\<lambda>s. snd (cancel_run_tree i s))"
  by (simp add: growing_def cancel_run_tree_def grows_same del: cancel_tree.simps)

lemma all_growing_calls:
  "all_tx growing (trigger_blocking e w input idem d subject)" "all_tx growing (emit_blocking e ev payload)"
  "all_tx growing (cancel_blocking i)" "all_tx growing (sweep now)"
proof -
  have "all_tx growing (sweep_each rs)" for rs by (induction rs) (auto intro!: all_tx_bind)
  then show "all_tx growing (trigger_blocking e w input idem d subject)" "all_tx growing (emit_blocking e ev payload)"
    "all_tx growing (cancel_blocking i)" "all_tx growing (sweep now)"
    by (auto simp: trigger_blocking_def emit_blocking_def cancel_blocking_def sweep_def intro!: all_tx_bind)
qed

lemma all_growing_execute:
  assumes "records_only e"
  shows "all_tx growing (execute e w payload)"
proof -
  have "all_tx growing (en_executor e req)" for req
    by (rule all_tx_mono [of "\<lambda>f. \<exists>sid kind result. f = record_step (req_runId req) sid kind result"])
      (use assms in \<open>auto simp: records_only_def\<close>)
  then show ?thesis
    by (auto simp: execute_def split: option.split sum.split intro!: all_tx_bind)
qed

lemma records_well_behaved: "records_only e \<Longrightarrow> well_behaved e"
  unfolding well_behaved_def
proof (intro conjI allI)
  assume "records_only e"
  then show "inj (en_uid e)" by (simp add: records_only_def)
  fix req
  show "all_tx (engine_tx (en_uid e)) (en_executor e req)"
    by (rule all_tx_mono [of "\<lambda>f. \<exists>sid kind result. f = record_step (req_runId req) sid kind result"])
      (use \<open>records_only e\<close> recording in \<open>auto simp: records_only_def\<close>)
qed

section \<open>The invariant\<close>

definition plain_ids :: "wf_engine \<Rightarrow> bool" where
  "plain_ids e \<longleftrightarrow> (\<forall>n. payload_run (run_payload (en_uid e n)) = Some (en_uid e n))"

definition wake_inv :: "wf_engine \<Rightarrow> wf_state \<Rightarrow> bool" where
  "wake_inv e c \<longleftrightarrow> runs_ok (en_uid e) (fst c) \<and> no_lost (fst c) \<and> jobs_ok (ws_jobs (fst c)) \<and> claims_ok (ws_jobs (fst c)) (snd c)"

lemma wake_inv_call:
  assumes "records_only e" and "wake_inv e (s, cs)" and "all_tx (engine_tx (en_uid e)) p" and "all_tx growing p" and "no_lost (snd (prog_run p s))"
  shows "wake_inv e (snd (prog_run p s), cs)"
proof -
  have g: "grows s (snd (prog_run p s))" by (rule prog_run_grows [OF assms(4)])
  have inj: "inj (en_uid e)" using assms(1) by (simp add: records_only_def)
  show ?thesis
    using assms(2,5) g claims_ok_grows [OF g] prog_run_runs_ok [OF inj assms(3)] by (auto simp: wake_inv_def grows_def)
qed

lemma wake_inv_rows:
  assumes "wake_inv e (s, cs)" and "same_rows (ws_jobs s) db"
  shows "wake_inv e (s\<lparr>ws_jobs := db\<rparr>, cs)"
proof -
  have "runs_ok (en_uid e) (s\<lparr>ws_jobs := db\<rparr>) = runs_ok (en_uid e) s" by (rule runs_ok_cong) simp_all
  moreover have "no_lost (s\<lparr>ws_jobs := db\<rparr>)"
    by (rule same_rows_no_lost [of s]) (use assms in \<open>simp_all add: wake_inv_def\<close>)
  ultimately show ?thesis
    using assms same_rows_ok claims_ok_same by (auto simp: wake_inv_def)
qed

lemma wake_inv_fewer: "wake_inv e (s, cs) \<Longrightarrow> wake_inv e (s, remove1 x cs)"
  by (auto simp: wake_inv_def claims_ok_def dest: notin_set_remove1)

lemma wake_inv_claim:
  assumes "wake_inv e (s, cs)" and "claim_jobs q limit lease kl fair now (ws_jobs s) = (new, db)"
  shows "wake_inv e (s\<lparr>ws_jobs := db\<rparr>, cs @ map (Pair w) new)"
proof -
  have same: "same_rows (ws_jobs s) db" using assms(2) by (rule same_rows_statements(6))
  have base: "wake_inv e (s\<lparr>ws_jobs := db\<rparr>, cs)" by (rule wake_inv_rows [OF assms(1) same])
  have ok: "jobs_ok (ws_jobs s)" using assms(1) by (simp add: wake_inv_def)
  have "claims_ok (ws_jobs s) (map (Pair w) new)"
    unfolding claims_ok_def
  proof clarify
    fix v c assume "(v, c) \<in> set (map (Pair w) new)"
    then obtain j where "j \<in> set (picked q limit kl fair now (ws_jobs s))" and jc: "c = claimed_of (take_lease (now + lease) j)"
      using assms(2) by (auto simp: claim_jobs_def Let_def)
    then have j: "j \<in> set (jobs (ws_jobs s))" "c = claimed_of (take_lease (now + lease) j)"
      using picked_sub [of q limit kl fair now "ws_jobs s"] by auto
    then have c: "c_id c = j_id j" "c_payload c = j_payload j" by (simp_all add: claimed_of_def take_lease_def)
    have "k = j" if "k \<in> set (jobs (ws_jobs s))" "j_id k = j_id j" for k
      using ok that j(1) unfolding jobs_ok_def by (metis distinct_map inj_onD)
    then show "c_id c < next_id (ws_jobs s) \<and> (\<forall>k \<in> set (jobs (ws_jobs s)). j_id k = c_id c \<longrightarrow> j_payload k = c_payload c)"
      using ok j(1) c unfolding jobs_ok_def by metis
  qed
  from claims_ok_same [OF same this] base show ?thesis by (auto simp: wake_inv_def claims_ok_def)
qed

text \<open>Acknowledging the job of an attempt that succeeded.\<close>

lemma ack_no_lost:
  assumes "covered {} i n s" and "no_lost s" and "payload_run payload = Some i" and "c_id c < n"
    and "\<forall>j \<in> set (jobs (ws_jobs s)). j_id j = c_id c \<longrightarrow> j_payload j = payload"
    and "\<And>r. r \<in> set (ws_runs s) \<Longrightarrow> payload_run (run_payload (wr_id r)) = Some (wr_id r)"
  shows "no_lost (with_jobs (ack (c_id c) (c_fence c)) s)"
  unfolding no_lost_def
proof (intro ballI impI)
  fix r assume r: "r \<in> set (ws_runs (with_jobs (ack (c_id c) (c_fence c)) s))" "runnable r"
  then have r': "r \<in> set (ws_runs s)" by (simp add: with_jobs_def)
  obtain j where j: "j \<in> set (jobs (ws_jobs s))" "for_run r j" "wr_id r = i \<longrightarrow> n \<le> j_id j"
    using assms(1) r' r(2) unfolding covered_def by blast
  have "j_id j \<noteq> c_id c"
  proof
    assume eq: "j_id j = c_id c"
    then have "payload_run (run_payload (wr_id r)) = Some i" using assms(3,5) j(1,2) by (auto simp: for_run_def)
    then have "wr_id r = i" using assms(6) [OF r'] by simp
    then show False using j(3) eq assms(4) by simp
  qed
  then show "\<exists>j \<in> set (jobs (ws_jobs (with_jobs (ack (c_id c) (c_fence c)) s))). for_run r j"
    using j by (auto simp: with_jobs_def ack_def delete_where_def held_def)
qed

lemma ack_rows_ok: "jobs_ok db \<Longrightarrow> jobs_ok (ack i fence db)"
  by (simp add: jobs_ok_def ack_def delete_where_def distinct_map inj_on_def)

lemma ack_claims_ok: "claims_ok db cs \<Longrightarrow> claims_ok (ack i fence db) cs"
  by (simp add: claims_ok_def ack_def delete_where_def) blast

lemma wake_inv_work:
  assumes rec: "records_only e" and plain: "plain_ids e" and inv: "wake_inv e (s, cs)" and c: "(w, c) \<in> set cs"
    and run: "prog_run (execute e w (c_payload c)) s = (res, t)"
  shows "wake_inv e (with_jobs (settle_job c (handler_error res) retry_at) t, remove1 (w, c) cs)"
proof -
  have p: "all_tx (engine_tx (en_uid e)) (execute e w (c_payload c))"
    using all_tx_execute records_well_behaved [OF rec] by (simp add: well_behaved_def)
  have nl: "no_lost t"
  proof (cases "payload_run (c_payload c)")
    case None
    then show ?thesis using run inv by (simp add: execute_def wake_inv_def)
  next
    case (Some i)
    then show ?thesis using execute_covered [OF rec _ _ Some refl, of s w] run inv by (simp add: wake_inv_def)
  qed
  have t: "wake_inv e (t, cs)"
    using wake_inv_call [OF rec inv p all_growing_execute [OF rec]] run nl by simp
  show ?thesis
  proof (cases res)
    case (Inl err)
    have "same_rows (ws_jobs t) (settle_job c (Some err) retry_at (ws_jobs t))"
      using same_rows_statements(4,5) by (simp add: settle_job_def)
    from wake_inv_rows [OF wake_inv_fewer [OF t] this] show ?thesis using Inl by (simp add: handler_error_def with_jobs_def)
  next
    case (Inr u)
    then have ok: "res = Ok ()" by simp
    obtain i where i: "payload_run (c_payload c) = Some i"
      using run ok by (cases "payload_run (c_payload c)") (simp_all add: execute_def)
    have cov: "covered {} i (next_id (ws_jobs s)) t"
      using execute_covered [OF rec _ _ i refl, of s w] run ok inv by (simp add: wake_inv_def)
    have cl: "c_id c < next_id (ws_jobs s)" using inv c by (auto simp: wake_inv_def claims_ok_def)
    have rows: "\<forall>j \<in> set (jobs (ws_jobs t)). j_id j = c_id c \<longrightarrow> j_payload j = c_payload c"
      using t c by (auto simp: wake_inv_def claims_ok_def)
    have ids: "payload_run (run_payload (wr_id r)) = Some (wr_id r)" if "r \<in> set (ws_runs t)" for r
      using t that plain by (auto simp: wake_inv_def runs_ok_def plain_ids_def)
    have nl': "no_lost (with_jobs (ack (c_id c) (c_fence c)) t)" by (rule ack_no_lost [OF cov nl i cl rows ids])
    have "jobs_ok (ws_jobs t)" "claims_ok (ws_jobs t) (remove1 (w, c) cs)"
      using wake_inv_fewer [OF t] by (simp_all add: wake_inv_def)
    then have "jobs_ok (ack (c_id c) (c_fence c) (ws_jobs t))" and "claims_ok (ack (c_id c) (c_fence c) (ws_jobs t)) (remove1 (w, c) cs)"
      using ack_rows_ok ack_claims_ok by blast+
    moreover have "runs_ok (en_uid e) (with_jobs (ack (c_id c) (c_fence c)) t) = runs_ok (en_uid e) t"
      by (rule runs_ok_cong) (simp_all add: with_jobs_def)
    ultimately show ?thesis
      using t nl' ok by (simp add: wake_inv_def handler_error_def settle_job_def with_jobs_def)
  qed
qed

lemma gc_jobs [simp]: "ws_jobs (gc a b s) = ws_jobs s" "set (ws_runs (gc a b s)) \<subseteq> set (ws_runs s)"
  by (auto simp: gc_def Let_def split: option.splits)

lemma no_lost_fewer: "ws_jobs t = ws_jobs s \<Longrightarrow> set (ws_runs t) \<subseteq> set (ws_runs s) \<Longrightarrow> no_lost s \<Longrightarrow> no_lost t"
  unfolding no_lost_def by auto

lemma purge_no_lost:
  assumes "\<forall>w. q \<noteq> workflow_queue_name w" and "no_lost s"
  shows "no_lost (with_jobs (\<lambda>db. snd (purge_dead q db)) s)"
  unfolding no_lost_def
proof (intro ballI impI)
  fix r assume "r \<in> set (ws_runs (with_jobs (\<lambda>db. snd (purge_dead q db)) s))" "runnable r"
  then obtain j where "j \<in> set (jobs (ws_jobs s))" "for_run r j" using assms(2) by (auto simp: no_lost_def with_jobs_def)
  moreover from this(2) have "j_queue j \<noteq> q" using assms(1) by (auto simp: for_run_def)
  ultimately show "\<exists>j \<in> set (jobs (ws_jobs (with_jobs (\<lambda>db. snd (purge_dead q db)) s))). for_run r j"
    by (auto simp: with_jobs_def purge_dead_def delete_where_def)
qed

text \<open>Purging the queue of a workflow instead would leave a run without the only job it has.\<close>

lemma purge_strands_run:
  "\<forall>j \<in> set (jobs db). for_run r j \<longrightarrow> j_status j = JDead \<Longrightarrow>
   \<not> (\<exists>j \<in> set (jobs (snd (purge_dead (workflow_queue_name (wr_workflow r)) db))). for_run r j)"
  by (auto simp: purge_dead_def delete_where_def for_run_def)

lemma wake_inv_purge:
  assumes "\<forall>w. q \<noteq> workflow_queue_name w" and "wake_inv e (s, cs)"
  shows "wake_inv e (with_jobs (\<lambda>db. snd (purge_dead q db)) s, cs)"
proof -
  have "no_lost (with_jobs (\<lambda>db. snd (purge_dead q db)) s)" by (rule purge_no_lost [OF assms(1)]) (use assms(2) in \<open>simp add: wake_inv_def\<close>)
  moreover have "runs_ok (en_uid e) (with_jobs (\<lambda>db. snd (purge_dead q db)) s) = runs_ok (en_uid e) s"
    by (rule runs_ok_cong) (simp_all add: with_jobs_def)
  moreover have "jobs_ok (snd (purge_dead q db))" if "jobs_ok db" for db
    using that by (simp add: jobs_ok_def purge_dead_def delete_where_def distinct_map inj_on_def)
  moreover have "claims_ok (snd (purge_dead q db)) cs" if "claims_ok db cs" for db
    using that by (simp add: claims_ok_def purge_dead_def delete_where_def) blast
  ultimately show ?thesis using assms(2) by (simp add: wake_inv_def with_jobs_def)
qed

lemma wake_inv_fewer_runs:
  assumes "inj (en_uid e)" and "wake_inv e (s, cs)" and "engine_tx (en_uid e) f" and "ws_jobs (f s) = ws_jobs s" and "set (ws_runs (f s)) \<subseteq> set (ws_runs s)"
  shows "wake_inv e (f s, cs)"
  using assms(2) engine_tx_runs_ok [OF assms(1,3), of s] no_lost_fewer [OF assms(4,5)] by (simp add: wake_inv_def assms(4))

lemma wake_inv_step:
  assumes rec: "records_only e" and plain: "plain_ids e" and "wf_step e c c'" and inv: "wake_inv e c"
  shows "wake_inv e c'"
proof -
  have inj: "inj (en_uid e)" using rec by (simp add: records_only_def)
  have ok: "runs_ok (en_uid e) s" "ids_ok s" "no_lost s" if "wake_inv e (s, cs)" for s cs
    using that runs_ok_ids by (auto simp: wake_inv_def)
  show ?thesis
    using assms(3) inv
  proof cases
    case (trigger s cs workflow input idem delay subject)
    let ?nr = "\<lparr>nr_workflow = workflow, nr_input = input, nr_version = config_version e workflow, nr_idem = idem, nr_parent_run = None,
        nr_parent_step = None, nr_subject = subject\<rparr>"
    obtain i created t where cr: "create_run (en_uid e) ?nr s = ((i, created), t)" by (metis prod.exhaust)
    have "no_lost (snd (prog_run (trigger_blocking e workflow input idem delay subject) s))"
      using create_and_push [OF inj _ _ cr, of delay] ok [of s cs] inv trigger(1) cr
      by (cases created) (simp_all add: trigger_blocking_def prog_run_bind)
    from wake_inv_call [OF rec _ _ all_growing_calls(1) this, of cs] trigger inv show ?thesis by simp
  next
    case (emit s cs event payload)
    have "no_lost (snd (prog_run (emit_blocking e event payload) s))"
      using emit_no_lost [OF inj] ok [of s cs] inv emit(1) by (simp add: emit_blocking_def prog_run_bind)
    from wake_inv_call [OF rec _ _ all_growing_calls(2) this, of cs] emit inv show ?thesis by simp
  next
    case (cancel s cs i)
    have "no_lost (snd (prog_run (cancel_blocking i) s))"
      using cancel_tree_no_lost [of s "[i]"] ok [of s cs] inv cancel(1)
      by (simp add: cancel_blocking_def prog_run_bind cancel_run_tree_def del: cancel_tree.simps)
    from wake_inv_call [OF rec _ _ all_growing_calls(3) this, of cs] cancel inv show ?thesis by simp
  next
    case (timeouts s cs)
    have "no_lost (snd (prog_run (sweep (ws_now s)) s))" using sweep_no_lost ok [of s cs] inv timeouts(1) by simp
    from wake_inv_call [OF rec _ _ all_growing_calls(4) this, of cs] timeouts inv show ?thesis by simp
  next
    case (work w c cs s res t retry_at)
    then show ?thesis using wake_inv_work [OF rec plain] inv by simp
  next
    case (purge q s cs)
    then show ?thesis using wake_inv_purge inv by simp
  next
    case (retain s cs a b)
    then show ?thesis using wake_inv_fewer_runs [OF inj _ engine_tx.collecting] inv by simp
  next
    case (erase s cs subject)
    have "ws_jobs (snd (purge_subject subject s)) = ws_jobs s" "set (ws_runs (snd (purge_subject subject s))) \<subseteq> set (ws_runs s)"
      by (auto simp: purge_subject_def)
    then show ?thesis using wake_inv_fewer_runs [OF inj _ engine_tx.erasing, of s cs subject] erase inv by simp
  next
    case (tick d s cs)
    then show ?thesis using inv by (simp add: wake_inv_def runs_ok_def run_keys_def no_lost_def)
  qed (use wake_inv_claim wake_inv_fewer wake_inv_rows same_rows_statements(1-3) in \<open>simp_all add: with_jobs_def\<close>)
qed

text \<open>
  C13: No run is forgotten. Let operations run to their end, one after another (deliveries, triggers, events, cancellations, timeouts, requeues, retention and erasure, purges of the application's own queues; workers may die with claims at any time), and let an executor only record steps of its run, as the one \<open>app.start\<close> registers does. In every state reached from an empty store, each run that is runnable or sleeping has an execution job in its workflow's queue, waiting, running or dead-lettered. (Run ids survive the job's JSON.)
\<close>

theorem no_run_forgotten:
  assumes "records_only e" and "plain_ids e" and "wf_reach e (s, cs)" and "r \<in> set (ws_runs s)" and "runnable r"
  shows "\<exists>j \<in> set (jobs (ws_jobs s)). j_queue j = workflow_queue_name (wr_workflow r) \<and> payload_run (j_payload j) = Some (wr_id r)"
proof -
  have "wake_inv e c" if "wf_reach e c" for c
    using that
  proof (induction rule: wf_reach.induct)
    case init
    show ?case
      by (simp add: wake_inv_def runs_ok_def run_keys_def no_lost_def jobs_ok_def claims_ok_def empty_store_def empty_db_def List.map_filter_simps)
  next
    case (step c c')
    then show ?case using wake_inv_step [OF assms(1,2)] by blast
  qed
  from this [OF assms(3)] have nl: "no_lost s" and ok: "runs_ok (en_uid e) s" by (simp_all add: wake_inv_def)
  obtain j where j: "j \<in> set (jobs (ws_jobs s))" "for_run r j" using nl assms(4,5) unfolding no_lost_def by blast
  obtain n where "wr_id r = en_uid e n" using ok assms(4) unfolding runs_ok_def by blast
  then have "payload_run (run_payload (wr_id r)) = Some (wr_id r)" using assms(2) by (simp add: plain_ids_def)
  then show ?thesis using j by (auto simp: for_run_def)
qed

lemma demo_plain: "plain_ids demo_engine"
proof -
  have r: "esc (CHR ''r'') = ''r''" by code_simp
  have key: "quote_str ''runId'' = DQ # ''runId'' @ [DQ]" by code_simp
  have "concat (map esc (replicate n (CHR ''r''))) = replicate n (CHR ''r'')" for n by (induction n) (simp_all add: r)
  then have "quote_str (demo_uid n) = DQ # demo_uid n @ [DQ]" for n by (simp add: quote_str_def demo_uid_def r)
  then have "run_payload (demo_uid n) = json_text (JObj [(''runId'', JStr (demo_uid n))])" for n
    by (simp add: run_payload_def workflow_execution_job_def key)
  then show ?thesis
    by (simp add: plain_ids_def demo_engine_def payload_run_def JSON_parse_text str_field_def del: json_text.simps)
qed

lemma demo_records_only: "records_only demo_engine"
  by (auto simp: records_only_def demo_engine_def demo_uid_inj)

lemma no_run_forgotten_witness:
  "let s = snd (prog_run (trigger_blocking demo_engine ''w'' ''{}'' (Some ''k'') 0 None) empty_store)
   in \<exists>j \<in> set (jobs (ws_jobs s)). j_queue j = ''zenzip.workflow.w'' \<and> payload_run (j_payload j) = Some ''r''"
proof -
  let ?s = "snd (prog_run (trigger_blocking demo_engine ''w'' ''{}'' (Some ''k'') 0 None) empty_store)"
  obtain r where r: "r \<in> set (ws_runs ?s)" "runnable r" "wr_workflow r = ''w''" "wr_id r = ''r''"
    by (simp add: trigger_blocking_def prog_run_bind create_run_def empty_store_def run_of_def keyed_run_def Let_def
        demo_engine_def demo_uid_def push_execution_def runnable_def)
  from no_run_forgotten [OF demo_records_only demo_plain wf_reach.step [OF wf_reach.init wf_step.trigger] r(1,2)] r(3,4)
  show ?thesis by (simp add: Let_def workflow_queue_name_def)
qed

end
