(* ===== verification/Interruptions.thy ===== *)
theory Interruptions
  imports Wakeups
begin

text \<open>
  Whole operations of the workflow engine against the states they leave when they are cut short. First what
  emitting an event and completing a child do when they run to the end; then what a crash between two of
  their transactions, or another operation between them, does to the promise that every run goes on.
\<close>

section \<open>Emitting an event\<close>

text \<open>The jobs a list of pushes appends.\<close>

definition job_key :: "job \<Rightarrow> string \<times> string" where
  "job_key j = (j_queue j, j_payload j)"

definition exec_key :: "string \<Rightarrow> string \<Rightarrow> string \<times> string" where
  "exec_key w i = (workflow_queue_name w, run_payload i)"

definition job_keys :: "wf_store \<Rightarrow> (string \<times> string) list" where
  "job_keys s = map job_key (jobs (ws_jobs s))"

lemma job_keys_push [simp]: "job_keys (push_execution w i d s) = job_keys s @ [exec_key w i]"
proof -
  obtain j where "jobs (ws_jobs (push_execution w i d s)) = jobs (ws_jobs s) @ [j]" "j_queue j = workflow_queue_name w"
    "j_payload j = run_payload i"
    using push_execution_jobs [of w i d s] by blast
  then show ?thesis by (simp add: job_keys_def job_key_def exec_key_def)
qed

lemma push_execution_events [simp]: "ws_events (push_execution w i d s) = ws_events s"
  by (simp add: push_execution_def)

lemma job_keys_cong: "ws_jobs t = ws_jobs s \<Longrightarrow> job_keys t = job_keys s"
  by (simp add: job_keys_def)

definition woken :: "int \<Rightarrow> wf_run \<Rightarrow> wf_run" where
  "woken now r = r\<lparr>wr_status := Running, wr_wait_event := None, wr_wait_step := None, wr_wait_match := None, wr_wake_at := None,
     wr_updated := now\<rparr>"

lemma wake_waiter_effect:
  "ws_runs (wake_waiter payload r s) = map (\<lambda>q. if wr_id q = wr_id r then woken (ws_now s) q else q) (ws_runs s)"
  "job_keys (wake_waiter payload r s) = job_keys s @ [exec_key (wr_workflow r) (wr_id r)]"
  "ws_now (wake_waiter payload r s) = ws_now s" "ws_next (wake_waiter payload r s) = ws_next s"
  "ws_events (wake_waiter payload r s) = ws_events s"
proof -
  have keys: "job_keys (record_step i sid kind result (update_runs P g s)) = job_keys s" for i sid kind result P g
    by (rule job_keys_cong) simp
  show "job_keys (wake_waiter payload r s) = job_keys s @ [exec_key (wr_workflow r) (wr_id r)]"
    by (simp add: wake_waiter_def keys)
qed (auto simp: wake_waiter_def woken_def record_step_def split: option.split)

lemma woken_simps [simp]: "wr_id (woken now q) = wr_id q" "woken now (woken now q) = woken now q"
  by (simp_all add: woken_def)

lemma wake_all_effect:
  "ws_runs (fold (wake_waiter payload) ws s) = map (\<lambda>q. if wr_id q \<in> wr_id ` set ws then woken (ws_now s) q else q) (ws_runs s)"
  "job_keys (fold (wake_waiter payload) ws s) = job_keys s @ map (\<lambda>r. exec_key (wr_workflow r) (wr_id r)) ws"
  "ws_now (fold (wake_waiter payload) ws s) = ws_now s" "ws_next (fold (wake_waiter payload) ws s) = ws_next s"
  "ws_events (fold (wake_waiter payload) ws s) = ws_events s"
  by (induction ws arbitrary: s) (auto simp: wake_waiter_effect)

lemma fold_wake_le: "journal_le s (fold (wake_waiter payload) ws s)"
proof (induction ws arbitrary: s)
  case (Cons r ws)
  have "journal_le s (wake_waiter payload r s)"
    unfolding wake_waiter_def
    by (rule journal_le_trans [OF journal_le_trans [OF journal_le_same record_step_le] journal_le_same]) simp_all
  from journal_le_trans [OF this Cons.IH] show ?case by simp
qed simp

definition answered :: "string option \<Rightarrow> step_row option \<Rightarrow> step_row option \<Rightarrow> bool" where
  "answered result before after \<longleftrightarrow> (\<exists>q. after = Some q \<and> sr_done q \<and>
     (sr_result q = result \<or> (\<exists>r. before = Some r \<and> sr_done r \<and> sr_result q = sr_result r)))"

lemma record_step_answered:
  "answered result (map_get (ws_steps s) (i, sid)) (map_get (ws_steps (record_step i sid kind result s)) (i, sid))"
  by (auto simp: answered_def record_step_def jsmap_simps split: option.split)

lemma answered_le:
  "answered result before (map_get (ws_steps s) key) \<Longrightarrow> journal_le s t \<Longrightarrow> answered result before (map_get (ws_steps t) key)"
  unfolding answered_def journal_le_def by metis

lemma wake_waiter_steps:
  "ws_steps (wake_waiter payload r s) = ws_steps (record_step (wr_id r) (wait_step r) ''waitForEvent'' (Some (event_step_result payload)) s)"
  by (simp add: wake_waiter_def record_step_def wait_step_def split: option.split)

lemma wake_all_answers:
  "r \<in> set ws \<Longrightarrow> distinct (map wr_id ws) \<Longrightarrow>
   answered (Some (event_step_result payload)) (map_get (ws_steps s) (wr_id r, wait_step r))
     (map_get (ws_steps (fold (wake_waiter payload) ws s)) (wr_id r, wait_step r))"
proof (induction ws arbitrary: s)
  case (Cons a ws)
  show ?case
  proof (cases "r = a")
    case True
    have "answered (Some (event_step_result payload)) (map_get (ws_steps s) (wr_id r, wait_step r))
        (map_get (ws_steps (wake_waiter payload a s)) (wr_id r, wait_step r))"
      unfolding wake_waiter_steps True by (rule record_step_answered)
    from answered_le [OF this fold_wake_le] show ?thesis by simp
  next
    case False
    then have "wr_id r \<noteq> wr_id a" using Cons.prems by (metis distinct.simps(2) image_eqI list.set_map list.simps(9) set_ConsD)
    then have "map_get (ws_steps (wake_waiter payload a s)) (wr_id r, wait_step r) = map_get (ws_steps s) (wr_id r, wait_step r)"
      unfolding wake_waiter_steps by (simp add: record_step_def jsmap_simps split: option.split)
    with Cons.IH [of "wake_waiter payload a s"] Cons.prems False show ?thesis by simp
  qed
qed simp

text \<open>The run a trigger target gets with the next id.\<close>

definition target_run :: "(nat \<Rightarrow> string) \<Rightarrow> int \<Rightarrow> string \<Rightarrow> nat \<times> trigger_target \<Rightarrow> wf_run" where
  "target_run uid now input = (\<lambda>(n, t). run_of (uid n) now
     \<lparr>nr_workflow = tt_workflow t, nr_input = input, nr_version = tt_version t, nr_idem = None, nr_parent_run = None, nr_parent_step = None,
      nr_subject = None\<rparr>)"

lemma trigger_one_effect:
  "ws_runs (trigger_one uid input t s) = ws_runs s @ [target_run uid (ws_now s) input (ws_next s, t)]"
  "job_keys (trigger_one uid input t s) = job_keys s @ [exec_key (tt_workflow t) (uid (ws_next s))]"
  "ws_now (trigger_one uid input t s) = ws_now s" "ws_next (trigger_one uid input t s) = ws_next s + 1"
  "ws_events (trigger_one uid input t s) = ws_events s" "ws_steps (trigger_one uid input t s) = ws_steps s"
  by (auto simp: trigger_one_def create_run_def target_run_def Let_def push_execution_def)
    (simp add: job_keys_def job_key_def exec_key_def run_payload_def insert_job_row_def workflow_execution_job_def throttle_start_def
      delete_where_def debounced_def Let_def)

lemma trigger_all_effect:
  "ws_runs (fold (trigger_one uid input) ts s) = ws_runs s @ map (target_run uid (ws_now s) input) (enumerate (ws_next s) ts)"
  "job_keys (fold (trigger_one uid input) ts s) = job_keys s @ map (\<lambda>(n, t). exec_key (tt_workflow t) (uid n)) (enumerate (ws_next s) ts)"
  "ws_events (fold (trigger_one uid input) ts s) = ws_events s" "ws_steps (fold (trigger_one uid input) ts s) = ws_steps s"
  by (induction ts arbitrary: s) (simp_all add: trigger_one_effect)

text \<open>
  C15: The event outbox. Emitting an event is one transaction that logs the event, puts exactly the waiting
  runs whose event and match agree back to running with their waits cleared and their wait step answered
  (by this event unless it was recorded before), creates one run per subscribed workflow, with the event as
  its input, and adds exactly one execution job for each of these runs, in this order; other runs stay as
  they are. It returns the two counts.
\<close>

theorem emit_outbox:
  assumes "ids_ok s" and "emit_in_tx uid name payload targets s = (counts, t)"
  shows "counts = (length (event_waiters name payload s), length targets) \<and>
    ws_events t = ws_events s @ [(name, payload, ws_now s)] \<and>
    ws_runs t = map (\<lambda>r. if r \<in> set (event_waiters name payload s) then woken (ws_now s) r else r) (ws_runs s) @
      map (target_run uid (ws_now s) (trigger_input (ws_now s) name payload)) (enumerate (ws_next s) targets) \<and>
    job_keys t = job_keys s @ map (\<lambda>r. exec_key (wr_workflow r) (wr_id r)) (event_waiters name payload s) @
      map (\<lambda>(n, t). exec_key (tt_workflow t) (uid n)) (enumerate (ws_next s) targets) \<and>
    (\<forall>r \<in> set (event_waiters name payload s).
      answered (Some (event_step_result payload)) (map_get (ws_steps s) (wr_id r, wait_step r)) (map_get (ws_steps t) (wr_id r, wait_step r)))"
proof -
  let ?s1 = "s\<lparr>ws_events := ws_events s @ [(name, payload, ws_now s)]\<rparr>"
  let ?ws = "event_waiters name payload s"
  have ws: "event_waiters name payload ?s1 = ?ws" by (simp add: event_waiters_def)
  have keys: "job_keys ?s1 = job_keys s" by (rule job_keys_cong) simp
  have t: "t = fold (trigger_one uid (trigger_input (ws_now s) name payload)) targets (fold (wake_waiter payload) ?ws ?s1)"
    and c: "counts = (length ?ws, length targets)"
    using assms(2) unfolding emit_in_tx_def Let_def ws by simp_all
  have sub: "set ?ws \<subseteq> set (ws_runs s)" by (auto simp: event_waiters_def)
  have d: "distinct (map wr_id ?ws)" using assms(1) unfolding ids_ok_def event_waiters_def by (simp add: distinct_map_filter)
  have ids: "wr_id r \<in> wr_id ` set ?ws \<longleftrightarrow> r \<in> set ?ws" if "r \<in> set (ws_runs s)" for r
  proof
    assume "wr_id r \<in> wr_id ` set ?ws"
    then obtain q where "q \<in> set ?ws" "wr_id r = wr_id q" by auto
    then show "r \<in> set ?ws" using that sub assms(1) unfolding ids_ok_def distinct_map inj_on_def by auto
  qed simp
  have 1: "ws_events t = ws_events s @ [(name, payload, ws_now s)]"
    unfolding t trigger_all_effect wake_all_effect by simp
  have 2: "ws_runs t = map (\<lambda>r. if r \<in> set ?ws then woken (ws_now s) r else r) (ws_runs s) @
      map (target_run uid (ws_now s) (trigger_input (ws_now s) name payload)) (enumerate (ws_next s) targets)"
    unfolding t trigger_all_effect wake_all_effect using ids by simp
  have 3: "job_keys t = job_keys s @ map (\<lambda>r. exec_key (wr_workflow r) (wr_id r)) ?ws @
      map (\<lambda>(n, t). exec_key (tt_workflow t) (uid n)) (enumerate (ws_next s) targets)"
    unfolding t trigger_all_effect wake_all_effect keys by simp
  have 4: "\<forall>r \<in> set ?ws. answered (Some (event_step_result payload)) (map_get (ws_steps s) (wr_id r, wait_step r))
      (map_get (ws_steps t) (wr_id r, wait_step r))"
    using wake_all_answers [OF _ d, of _ payload ?s1] unfolding t trigger_all_effect by simp
  show ?thesis using c 1 2 3 4 by (intro conjI)
qed

lemma emit_outbox_witness:
  "let r = (run_of ''r'' 0 \<lparr>nr_workflow = ''w'', nr_input = ''{}'', nr_version = None, nr_idem = None, nr_parent_run = None,
         nr_parent_step = None, nr_subject = None\<rparr>)\<lparr>wr_status := WaitingEvent, wr_wait_event := Some ''go'', wr_wait_step := Some ''s''\<rparr>;
       s = empty_store\<lparr>ws_runs := [r], ws_next := 1\<rparr>;
       (counts, t) = emit_in_tx demo_uid ''go'' ''{}'' [\<lparr>tt_workflow = ''v'', tt_version = None\<rparr>] s
   in counts = (1, 1) \<and> job_keys t = [exec_key ''w'' ''r'', exec_key ''v'' ''rr'']"
proof -
  let ?r = "(run_of ''r'' 0 \<lparr>nr_workflow = ''w'', nr_input = ''{}'', nr_version = None, nr_idem = None, nr_parent_run = None,
         nr_parent_step = None, nr_subject = None\<rparr>)\<lparr>wr_status := WaitingEvent, wr_wait_event := Some ''go'', wr_wait_step := Some ''s''\<rparr>"
  let ?s = "empty_store\<lparr>ws_runs := [?r], ws_next := 1\<rparr>"
  have ids: "ids_ok ?s" by (simp add: ids_ok_def)
  have ws: "event_waiters ''go'' ''{}'' ?s = [?r]" by (simp add: event_waiters_def run_of_def match_subset_def)
  obtain counts t where emit: "emit_in_tx demo_uid ''go'' ''{}'' [\<lparr>tt_workflow = ''v'', tt_version = None\<rparr>] ?s = (counts, t)" by fastforce
  from emit_outbox [OF ids emit] show ?thesis
    unfolding Let_def emit prod.case ws by (simp add: run_of_def empty_store_def job_keys_def empty_db_def demo_uid_def)
qed

section \<open>Completing a child run\<close>

lemma get_run_map:
  "(\<And>r. wr_id (g r) = wr_id r) \<Longrightarrow>
    get_run i (update_runs Q g s) = map_option (\<lambda>r. if Q r then (g r)\<lparr>wr_updated := ws_now s\<rparr> else r) (get_run i s)"
proof -
  assume g: "\<And>r. wr_id (g r) = wr_id r"
  have "List.find (\<lambda>r. wr_id r = i) (map (\<lambda>r. if Q r then (g r)\<lparr>wr_updated := t\<rparr> else r) rs) =
      map_option (\<lambda>r. if Q r then (g r)\<lparr>wr_updated := t\<rparr> else r) (List.find (\<lambda>r. wr_id r = i) rs)" for rs t
    by (induction rs) (auto simp: g)
  then show ?thesis by (simp add: get_run_def)
qed

lemma get_run_step [simp]: "get_run i (record_step j sid kind result s) = get_run i s"
  by (rule get_run_cong) simp

lemma get_run_push [simp]: "get_run i (push_execution w j d s) = get_run i s"
  by (rule get_run_cong) simp

lemma wake_parent_parked:
  assumes "get_run p s = Some r" and "wr_status r = WaitingChild"
  shows "fst (wake_parent p s)" and "get_run p (snd (wake_parent p s)) = Some (r\<lparr>wr_status := Running, wr_updated := ws_now s\<rparr>)"
proof -
  have r: "r \<in> set (ws_runs s)" "wr_id r = p" using get_run_in [OF assms(1)] by simp_all
  then show "fst (wake_parent p s)" using assms(2) by (auto simp: wake_parent_def list_ex_iff)
  show "get_run p (snd (wake_parent p s)) = Some (r\<lparr>wr_status := Running, wr_updated := ws_now s\<rparr>)"
    unfolding wake_parent_def snd_conv using assms r(2) by (simp add: get_run_map)
qed

text \<open>
  C14: A child's result reaches its parent. When a child run that a parent waits for completes, and the
  operation runs to its end, the child is completed, the parent is running again, the parent's invoke step
  is answered with the child's output (unless it was recorded before), and exactly one execution job is
  added, for the parent, in the parent's own workflow.
\<close>

theorem child_wakes_parent:
  assumes "get_run p s = Some parent" and "wr_status parent = WaitingChild"
    and "wr_parent_run child = Some p" and "wr_parent_step child = Some sid" and "get_run c s = Some child" and "c \<noteq> p"
    and "prog_run (apply_outcome e child (OCompleted output)) s = (res, t)"
  shows "res = Ok () \<and> map_option wr_status (get_run c t) = Some Completed \<and> map_option wr_status (get_run p t) = Some Running \<and>
    answered (Some (output_result (or_null_text output))) (map_get (ws_steps s) (p, sid)) (map_get (ws_steps t) (p, sid)) \<and>
    job_keys t = job_keys s @ [exec_key (wr_workflow parent) p]"
proof -
  have c: "wr_id child = c" and p: "wr_id parent = p" using get_run_in assms(1,5) by blast+
  define s1 where "s1 = run_completed c output s"
  define s2 where "s2 = record_step p sid ''invoke'' (Some (output_result (or_null_text output))) s1"
  define s3 where "s3 = snd (wake_parent p s2)"
  have g1: "get_run p s1 = Some parent" "map_option wr_status (get_run c s1) = Some Completed"
    using assms(1,5,6) by (simp_all add: s1_def run_completed_def get_run_map p c)
  have g2: "get_run p s2 = Some parent" "get_run c s2 = get_run c s1" by (simp_all add: s2_def g1(1))
  note w = wake_parent_parked [OF g2(1) assms(2)]
  have c3: "get_run c s3 = get_run c s1"
    using assms(6) get_run_in [of c s2] by (cases "get_run c s2") (auto simp: s3_def wake_parent_def get_run_map g2(2))
  have steps: "ws_steps s1 = ws_steps s" "ws_steps s3 = ws_steps s2" by (simp_all add: s1_def s3_def run_completed_def wake_parent_def)
  have keys: "job_keys s3 = job_keys s" by (rule job_keys_cong) (simp add: s1_def s2_def s3_def run_completed_def wake_parent_def)
  have "prog_run (apply_outcome e child (OCompleted output)) s = (Ok (), push_execution (wr_workflow parent) p 0 s3)"
    using w by (simp add: prog_run_bind settle_parent_def assms(3,4) c s1_def [symmetric] s2_def [symmetric] s3_def [symmetric])
  with assms(7) have "res = Ok ()" and t: "t = push_execution (wr_workflow parent) p 0 s3" by simp_all
  then show ?thesis
    using record_step_answered [of "Some (output_result (or_null_text output))" s1 p sid "''invoke''"] w(2) g1(2) c3 steps keys
    by (simp add: t s2_def [symmetric] s3_def [symmetric])
qed

lemma child_wakes_parent_witness:
  "let parent = (run_of ''p'' 0 \<lparr>nr_workflow = ''v'', nr_input = ''{}'', nr_version = None, nr_idem = None, nr_parent_run = None,
         nr_parent_step = None, nr_subject = None\<rparr>)\<lparr>wr_status := WaitingChild\<rparr>;
       child = run_of ''r'' 0 \<lparr>nr_workflow = ''w'', nr_input = ''{}'', nr_version = None, nr_idem = None, nr_parent_run = Some ''p'',
         nr_parent_step = Some ''s'', nr_subject = None\<rparr>;
       (res, t) = prog_run (apply_outcome demo_engine child (OCompleted (Some ''7''))) (empty_store\<lparr>ws_runs := [parent, child]\<rparr>)
   in map_option wr_status (get_run ''p'' t) = Some Running \<and> job_keys t = [exec_key ''v'' ''p'']"
proof -
  let ?parent = "(run_of ''p'' 0 \<lparr>nr_workflow = ''v'', nr_input = ''{}'', nr_version = None, nr_idem = None, nr_parent_run = None,
         nr_parent_step = None, nr_subject = None\<rparr>)\<lparr>wr_status := WaitingChild\<rparr>"
  let ?child = "run_of ''r'' 0 \<lparr>nr_workflow = ''w'', nr_input = ''{}'', nr_version = None, nr_idem = None, nr_parent_run = Some ''p'',
         nr_parent_step = Some ''s'', nr_subject = None\<rparr>"
  let ?s = "empty_store\<lparr>ws_runs := [?parent, ?child]\<rparr>"
  obtain res t where run: "prog_run (apply_outcome demo_engine ?child (OCompleted (Some ''7''))) ?s = (res, t)" by fastforce
  have g: "get_run ''p'' ?s = Some ?parent" "get_run ''r'' ?s = Some ?child" by (simp_all add: get_run_def run_of_def)
  from child_wakes_parent [OF g(1) _ _ _ g(2) _ run, where sid = "''s''"] show ?thesis
    unfolding Let_def run prod.case by (simp add: run_of_def job_keys_def empty_store_def empty_db_def)
qed

section \<open>Operations cut short\<close>

text \<open>A job of a run that is not runnable is acknowledged and does nothing.\<close>

lemma stale_execution:
  "payload_run payload = Some i \<Longrightarrow> get_run i s = Some r \<Longrightarrow> \<not> runnable r \<Longrightarrow> prog_run (execute e w payload) s = (Ok (), s)"
  by (simp add: execute_def prog_run_bind)

text \<open>
  A lost wakeup: when the process dies right after the child's run is completed, nothing wakes its parent.
  The child's job is delivered again and acknowledged without effect, since its run is no longer runnable;
  the parent waits for a child that is done, and has no job.
\<close>

lemma crash_loses_parent:
  assumes "get_run c s = Some child" and "wr_parent_run child = Some p" and "p \<noteq> c"
    and t: "t = prog_prefix 1 (apply_outcome e child (OCompleted output)) s"
  shows "get_run p t = get_run p s" and "ws_jobs t = ws_jobs s"
    and "payload_run payload = Some c \<Longrightarrow> prog_run (execute e w payload) t = (Ok (), t)"
proof -
  have c: "wr_id child = c" using get_run_in [OF assms(1)] by simp
  have t': "t = run_completed c output s" by (simp add: t stmt_def c)
  show "get_run p t = get_run p s"
    using assms(3) get_run_in [of p s] by (cases "get_run p s") (auto simp: t' run_completed_def get_run_map)
  show "ws_jobs t = ws_jobs s" by (simp add: t' run_completed_def)
  obtain r where "get_run c t = Some r" "wr_status r = Completed" using assms(1) c by (auto simp: t' run_completed_def get_run_map)
  then show "payload_run payload = Some c \<Longrightarrow> prog_run (execute e w payload) t = (Ok (), t)"
    using stale_execution [of payload c t r] by (simp add: runnable_def)
qed

text \<open>
  A trigger cut off between creating the run and its job leaves a run that is runnable without a job, and
  triggering again with the same idempotency key returns its id and changes nothing: the run never starts.
\<close>

lemma crash_orphans_run:
  assumes "keyed_run w key s = None" and t: "t = prog_prefix 1 (trigger_blocking e w input (Some key) d subject) s"
  obtains r where "keyed_run w key t = Some r" and "wr_status r = Running" and "ws_jobs t = ws_jobs s"
    and "prog_run (trigger_blocking e w input' (Some key) d' subject') t = (Ok (wr_id r), t)"
proof -
  let ?n = "\<lparr>nr_workflow = w, nr_input = input, nr_version = config_version e w, nr_idem = Some key, nr_parent_run = None,
        nr_parent_step = None, nr_subject = subject\<rparr>"
  let ?r = "run_of (en_uid e (ws_next s)) (ws_now s) ?n"
  have t': "t = s\<lparr>ws_runs := ws_runs s @ [?r], ws_next := ws_next s + 1\<rparr>"
    using assms(1) by (simp add: t trigger_blocking_def tx_def create_run_def Let_def)
  have "List.find P (xs @ [x]) = Some x" if "List.find P xs = None" "P x" for P xs and x :: wf_run
    using that by (induction xs) (auto split: if_splits)
  then have k: "keyed_run w key t = Some ?r" using assms(1) by (simp add: t' keyed_run_def run_of_def)
  then have "prog_run (trigger_blocking e w input' (Some key) d' subject') t = (Ok (wr_id ?r), t)"
    by (simp add: trigger_blocking_def prog_run_bind create_run_def)
  with k show ?thesis using that [of ?r] by (simp add: t' run_of_def)
qed

text \<open>
  A sweep cut off after its update: the timed-out run is running, has no job, and no later sweep sees it.
\<close>

lemma crash_loses_timeout:
  assumes "r \<in> set (ws_runs s)" and "timed_out now r" and t: "t = prog_prefix 1 (sweep now) s" and "ids_ok s"
  shows "map_option wr_status (get_run (wr_id r) t) = Some Running" and "ws_jobs t = ws_jobs s"
    and "wr_id r \<notin> wr_id ` set (fst (sweep_event_timeouts later t))"
proof -
  have t': "t = snd (sweep_event_timeouts now s)" by (simp add: t sweep_def tx_def)
  have r: "get_run (wr_id r) s = Some r"
  proof -
    obtain q where q: "get_run (wr_id r) s = Some q" using get_run_found assms(1) by metis
    then have "q = r" using get_run_in [OF q] assms(1,4) unfolding ids_ok_def distinct_map inj_on_def by blast
    with q show ?thesis by simp
  qed
  have g: "get_run (wr_id r) t = Some (r\<lparr>wr_status := Running, wr_wait_event := None, wr_wait_match := None, wr_wake_at := None, wr_updated := ws_now s\<rparr>)"
    using r assms(2) by (simp add: t' sweep_event_timeouts_def get_run_map)
  then show "map_option wr_status (get_run (wr_id r) t) = Some Running" by simp
  show "ws_jobs t = ws_jobs s" by (simp add: t' sweep_event_timeouts_def)
  have ids: "ids_ok t" using assms(4) by (simp add: t' sweep_event_timeouts_def ids_ok_update)
  show "wr_id r \<notin> wr_id ` set (fst (sweep_event_timeouts later t))"
  proof
    assume "wr_id r \<in> wr_id ` set (fst (sweep_event_timeouts later t))"
    then obtain q where q: "q \<in> set (ws_runs t)" "wr_id q = wr_id r" "timed_out later q" by (auto simp: sweep_event_timeouts_def)
    from get_run_workflow [OF ids g q(1,2)] q(3) show False by (simp add: timed_out_def)
  qed
qed

text \<open>
  An invoke step cut off after creating the child: the child has no job. The attempt is delivered again and
  finds the child under the step's key, neither done nor queued: the parent is parked, with success, on a
  child that never starts.
\<close>

lemma crash_orphans_child:
  assumes fresh: "keyed_run w (invoke_key (wr_id run) sid) s = None" and cfg: "config e w = Some k"
    and unused: "get_run (en_uid e (ws_next s)) s = None"
    and t: "t = prog_prefix 1 (apply_invoke e run sid w input) s"
  shows "ws_jobs t = ws_jobs s" and "prog_run (apply_invoke e run sid w input) t = (Ok (), run_waiting_child (wr_id run) t)"
proof -
  let ?n = "\<lparr>nr_workflow = w, nr_input = or_null_text input, nr_version = config_version e w, nr_idem = Some (invoke_key (wr_id run) sid),
     nr_parent_run = Some (wr_id run), nr_parent_step = Some sid, nr_subject = None\<rparr>"
  let ?i = "en_uid e (ws_next s)"
  let ?r = "run_of ?i (ws_now s) ?n"
  have t': "t = s\<lparr>ws_runs := ws_runs s @ [?r], ws_next := ws_next s + 1\<rparr>"
    using fresh cfg by (simp add: t apply_invoke_def tx_def create_run_def Let_def)
  then show "ws_jobs t = ws_jobs s" by simp
  have last: "List.find P (xs @ [x]) = Some x" if "List.find P xs = None" "P x" for P xs and x :: wf_run
    using that by (induction xs) (auto split: if_splits)
  have k: "keyed_run w (invoke_key (wr_id run) sid) t = Some ?r"
    using fresh unfolding t' keyed_run_def by (simp add: last run_of_def)
  have g: "get_run ?i t = Some ?r" using unused unfolding t' get_run_def by (simp add: last run_of_def)
  show "prog_run (apply_invoke e run sid w input) t = (Ok (), run_waiting_child (wr_id run) t)"
    using cfg k g by (simp add: apply_invoke_def prog_run_bind create_run_def) (simp add: run_of_def prog_run_bind)
qed

text \<open>
  The same wakeup is lost without a crash when the attempt is delivered twice: the second delivery reads the
  child while it runs; the child completes, records the step and finds the parent running, so it wakes
  nobody; then the parent is parked. It waits for a child that is done.
\<close>

lemma race_loses_parent:
  assumes child: "keyed_run w (invoke_key p sid) s = Some child" "get_run (wr_id child) s = Some child" "wr_status child = Running"
      "wr_parent_run child = Some p" "wr_parent_step child = Some sid" "wr_id child \<noteq> p"
    and parent: "get_run p s = Some run" "wr_status run = Running" and cfg: "config e w = Some k" and ids: "ids_ok s"
    and t: "t = snd (prog_run (apply_outcome e child (OCompleted output)) (prog_prefix 2 (apply_invoke e run sid w input) s))"
    and u: "u = snd (prog_run (prog_rest 2 (apply_invoke e run sid w input) s) t)"
  shows "map_option wr_status (get_run p u) = Some WaitingChild" and "map_option wr_status (get_run (wr_id child) u) = Some Completed"
    and "ws_jobs u = ws_jobs s"
proof -
  have p: "wr_id run = p" using get_run_in [OF parent(1)] by simp
  have pre: "prog_prefix 2 (apply_invoke e run sid w input) s = s" and rest: "prog_rest 2 (apply_invoke e run sid w input) s =
      prog_bind (stmt (run_waiting_child p)) (\<lambda>_. Ret (Ok ()))"
    using child(1-3) cfg by (simp_all add: apply_invoke_def tx_def create_run_def query_def numeral_2_eq_2 p)
  let ?s1 = "run_completed (wr_id child) output s"
  let ?s2 = "record_step p sid ''invoke'' (Some (output_result (or_null_text output))) ?s1"
  have g1: "get_run p ?s1 = Some run" using parent(1) child(6) by (simp add: run_completed_def get_run_map p)
  have "\<not> fst (wake_parent p ?s2)"
  proof
    assume "fst (wake_parent p ?s2)"
    then obtain q where "q \<in> set (ws_runs s)" "wr_id q = p" "wr_status q = WaitingChild"
      using child(6) by (auto simp: wake_parent_def list_ex_iff run_completed_def split: if_splits)
    with get_run_workflow [OF ids parent(1), of q] parent(2) show False by simp
  qed
  then have t': "t = snd (wake_parent p ?s2)"
    using child(4,5) by (simp add: t pre prog_run_bind settle_parent_def)
  have u': "u = run_waiting_child p t" by (simp add: u rest prog_run_bind)
  have gp: "get_run p t = Some run" using g1 parent(2) by (simp add: t' wake_parent_def get_run_map)
  have gc: "map_option wr_status (get_run (wr_id child) t) = Some Completed"
    using child(2,6) by (simp add: t' wake_parent_def get_run_map run_completed_def)
  show "map_option wr_status (get_run p u) = Some WaitingChild" using gp by (simp add: u' run_waiting_child_def get_run_map p)
  show "map_option wr_status (get_run (wr_id child) u) = Some Completed"
  proof -
    from gc obtain q where q: "get_run (wr_id child) t = Some q" "wr_status q = Completed" by auto
    moreover have "wr_id q \<noteq> p" using get_run_in [OF q(1)] child(6) by simp
    ultimately show ?thesis by (simp add: u' run_waiting_child_def get_run_map)
  qed
  show "ws_jobs u = ws_jobs s" by (simp add: u' t' run_waiting_child_def wake_parent_def run_completed_def)
qed

text \<open>
  A sleep cut off before its delayed job: the sleep step is already in the journal and the run is sleeping,
  which is runnable; the delivery that follows the lease replays past the sleep, whatever its wake time.
\<close>

lemma crash_cuts_sleep_short:
  assumes "get_run i s = Some run" and "map_get (ws_steps s) (i, sid) = None"
    and t: "t = prog_prefix 2 (apply_outcome e run (OSleep sid wake_at)) s"
  shows "map_option runnable (get_run i t) = Some True" and "ws_jobs t = ws_jobs s"
    and "(sid, \<lparr>je_kind = ''sleep'', je_result = None\<rparr>) \<in> set (load_journal i t)"
proof -
  have i: "wr_id run = i" using get_run_in [OF assms(1)] by simp
  have t': "t = run_sleeping i wake_at (record_step i sid ''sleep'' None s)" by (simp add: t stmt_def i numeral_2_eq_2)
  show "map_option runnable (get_run i t) = Some True" using assms(1) by (simp add: t' run_sleeping_def get_run_map i runnable_def)
  show "ws_jobs t = ws_jobs s" by (simp add: t' run_sleeping_def)
  have "ws_steps t = map_set (i, sid) \<lparr>sr_done = True, sr_kind = ''sleep'', sr_result = None, sr_error = None, sr_attempts = 0\<rparr> (ws_steps s)"
    using assms(2) by (simp add: t' run_sleeping_def record_step_def)
  then have "map_get (ws_steps t) (i, sid) = Some \<lparr>sr_done = True, sr_kind = ''sleep'', sr_result = None, sr_error = None, sr_attempts = 0\<rparr>"
    by (simp add: jsmap_simps)
  then have "((i, sid), \<lparr>sr_done = True, sr_kind = ''sleep'', sr_result = None, sr_error = None, sr_attempts = 0\<rparr>) \<in> set (ws_steps t)"
    by (rule map_of_SomeD)
  then show "(sid, \<lparr>je_kind = ''sleep'', je_result = None\<rparr>) \<in> set (load_journal i t)"
    by (force simp: load_journal_def)
qed

text \<open>
  The outcome of an attempt is applied without looking at the run again: a cancellation that commits after
  the check is overwritten.
\<close>

lemma late_cancel_overwritten:
  assumes "get_run i s = Some run" and "wr_parent_run run = None"
    and t: "t = snd (prog_run (apply_outcome e run (OCompleted output)) (snd (cancel_one i s)))"
  shows "map_option wr_status (get_run i t) = Some Completed"
  using assms(1,2) get_run_in [OF assms(1)]
  by (simp add: t prog_run_bind settle_parent_def run_completed_def get_run_map cancel_one_def)

text \<open>
  Cancelling a child run does not settle its parent: without children of its own, the child is cancelled,
  nothing else changes, and its job, if any, is acknowledged without effect.
\<close>

lemma cancelled_child_strands_parent:
  assumes "get_run c s = Some child" and "\<not> terminal (wr_status child)" and "children c s = []" and "c \<noteq> p"
    and t: "t = snd (prog_run (cancel_blocking c) s)"
  shows "get_run p t = get_run p s" and "ws_jobs t = ws_jobs s" and "map_option wr_status (get_run c t) = Some Cancelled"
    and "payload_run payload = Some c \<Longrightarrow> prog_run (execute e w payload) t = (Ok (), t)"
proof -
  have c: "child \<in> set (ws_runs s)" "wr_id child = c" using get_run_in [OF assms(1)] by simp_all
  then have one: "fst (cancel_one c s)" using assms(2) by (auto simp: cancel_one_def list_ex_iff)
  have kids: "children c (snd (cancel_one c s)) = []"
    using assms(3) by (auto simp: children_def cancel_one_def filter_empty_conv)
  have t': "t = snd (cancel_one c s)" by (simp add: t cancel_blocking_def prog_run_bind cancel_run_tree_def one kids)
  show "get_run p t = get_run p s"
    using assms(4) get_run_in [of p s] by (cases "get_run p s") (auto simp: t' cancel_one_def get_run_map)
  show "ws_jobs t = ws_jobs s" by (simp add: t' cancel_one_def)
  have g: "get_run c t = Some (child\<lparr>wr_status := Cancelled, wr_wait_event := None, wr_wait_step := None, wr_wake_at := None, wr_updated := ws_now s\<rparr>)"
    using assms(1,2) c by (simp add: t' cancel_one_def get_run_map)
  then show "map_option wr_status (get_run c t) = Some Cancelled" by simp
  show "payload_run payload = Some c \<Longrightarrow> prog_run (execute e w payload) t = (Ok (), t)"
    using stale_execution [OF _ g] by (simp add: runnable_def)
qed

end
