(* ===== verification/Scheduler.thy ===== *)
theory Scheduler
  imports Programs Json Jobs
begin

text \<open>
  The scheduler (\<open>crates/zenzip-core/src/scheduler.rs\<close>): schedules that survive restarts, their catch-up at
  boot, and the polling loop of every node. Two nodes that share a store compete for a tick with an atomic
  compare-and-swap on its \<open>next_run_at\<close>. A node is a program of store transactions.
\<close>

section \<open>Definitions\<close>

datatype overlap = OSkip | OAllow | OQueue

datatype catchup = CSkip | CRunOnce | CAll

definition overlap_parse :: "string \<Rightarrow> (string, overlap) res" where
  "overlap_parse t =
     (if t = ''skip'' then Ok OSkip else if t = ''allow'' then Ok OAllow else if t = ''queue'' then Ok OQueue
      else Throw (''invalid overlap policy: '' @ t))"

definition overlap_str :: "overlap \<Rightarrow> string" where
  "overlap_str p = (case p of OSkip \<Rightarrow> ''skip'' | OAllow \<Rightarrow> ''allow'' | OQueue \<Rightarrow> ''queue'')"

definition catchup_parse :: "string \<Rightarrow> (string, catchup) res" where
  "catchup_parse t =
     (if t = ''skip'' then Ok CSkip else if t = ''runOnce'' \<or> t = ''run-once'' then Ok CRunOnce else if t = ''all'' then Ok CAll
      else Throw (''invalid catchup policy: '' @ t))"

definition catchup_str :: "catchup \<Rightarrow> string" where
  "catchup_str p = (case p of CSkip \<Rightarrow> ''skip'' | CRunOnce \<Rightarrow> ''runOnce'' | CAll \<Rightarrow> ''all'')"

lemma policies_round_trip: "overlap_parse (overlap_str p) = Ok p" "catchup_parse (catchup_str q) = Ok q"
  by (cases p; cases q; simp add: overlap_parse_def overlap_str_def catchup_parse_def catchup_str_def)+

text \<open>
  A schedule is an interval, or a cron expression given as its occurrences: \<open>Cron next\<close> finds the next one
  after a time. The library that parses expressions and finds occurrences is not part of the program.
\<close>

datatype sched_kind = Every int | Cron "int \<Rightarrow> (string, int) res"

record sched_def =
  sd_name :: string
  sd_spec :: string
  sd_kind :: sched_kind
  sd_overlap :: overlap
  sd_catchup :: catchup
  sd_jitter :: int

definition sched_every :: "string \<Rightarrow> int \<Rightarrow> overlap \<Rightarrow> catchup \<Rightarrow> (string, sched_def) res" where
  "sched_every name ms ov ca =
     (if ms < 1 then Throw ''every interval must be >= 1ms''
      else Ok \<lparr>sd_name = name, sd_spec = ''every:'' @ int_str ms, sd_kind = Every ms, sd_overlap = ov, sd_catchup = ca, sd_jitter = 0\<rparr>)"

text \<open>\<open>parse_cron\<close> and \<open>parse_tz\<close> are the cron and time zone libraries; without a zone it is UTC.\<close>

definition sched_cron ::
  "(string \<Rightarrow> (string, 'z option \<Rightarrow> int \<Rightarrow> (string, int) res) res) \<Rightarrow> (string \<Rightarrow> 'z option) \<Rightarrow>
     string \<Rightarrow> string \<Rightarrow> string option \<Rightarrow> overlap \<Rightarrow> catchup \<Rightarrow> (string, sched_def) res" where
  "sched_cron parse_cron parse_tz name expr timezone ov ca =
     (case parse_cron expr of
        Inl e \<Rightarrow> Throw (''invalid cron expression '' @ SQ @ expr @ SQ @ '': '' @ e)
      | Inr next \<Rightarrow>
          (case (case timezone of None \<Rightarrow> Ok None
                 | Some t \<Rightarrow> (case parse_tz t of None \<Rightarrow> Throw (''invalid timezone: '' @ t) | Some z \<Rightarrow> Ok (Some z))) of
             Inl e \<Rightarrow> Throw e
           | Inr tz \<Rightarrow>
               Ok \<lparr>sd_name = name, sd_spec = ''cron:'' @ expr @ ''@'' @ (case timezone of None \<Rightarrow> ''UTC'' | Some t \<Rightarrow> t),
                   sd_kind = Cron (next tz), sd_overlap = ov, sd_catchup = ca, sd_jitter = 0\<rparr>))"

definition next_after :: "sched_def \<Rightarrow> int \<Rightarrow> (string, int) res" where
  "next_after d t = (case sd_kind d of Every ms \<Rightarrow> Ok (t + ms) | Cron next \<Rightarrow> next t)"

section \<open>The store\<close>

record sched_row =
  sc_name :: string
  sc_spec :: string
  sc_overlap :: string
  sc_catchup :: string
  sc_next :: int
  sc_last :: "int option"

text \<open>
  \<open>ss_claims\<close> is the history of the ticks claimed, \<open>ss_fires\<close> of the fires, \<open>ss_rewinds\<close> of the upserts that
  moved a schedule's next time back, with the time they wrote; the code keeps none of them.
\<close>

record sched_store =
  ss_rows :: "sched_row list"
  ss_jobs :: jobs_db
  ss_now :: int
  ss_claims :: "(string \<times> int) list"
  ss_fires :: "(string \<times> int) list"
  ss_rewinds :: "(string \<times> int) list"

definition row_of :: "string \<Rightarrow> sched_store \<Rightarrow> sched_row option" where
  "row_of n s = List.find (\<lambda>r. sc_name r = n) (ss_rows s)"

text \<open>The statement \<open>INSERT ... ON CONFLICT (name) DO UPDATE\<close> of an upsert.\<close>

definition put_schedule :: "sched_row \<Rightarrow> sched_store \<Rightarrow> sched_store" where
  "put_schedule row s =
     (case row_of (sc_name row) s of
        None \<Rightarrow> s\<lparr>ss_rows := ss_rows s @ [row]\<rparr>
      | Some old \<Rightarrow>
          s\<lparr>ss_rows := map (\<lambda>r. if sc_name r = sc_name row then row else r) (ss_rows s),
            ss_rewinds := ss_rewinds s @ (if sc_next row < sc_next old then [(sc_name row, sc_next row)] else [])\<rparr>)"

definition due_schedules :: "int \<Rightarrow> sched_store \<Rightarrow> sched_row list" where
  "due_schedules now s = filter (\<lambda>r. sc_next r \<le> now) (ss_rows s)"

definition claim_tick :: "string \<Rightarrow> int \<Rightarrow> int \<Rightarrow> int \<Rightarrow> sched_store \<Rightarrow> bool \<times> sched_store" where
  "claim_tick n observed new fired s =
     (if list_ex (\<lambda>r. sc_name r = n \<and> sc_next r = observed) (ss_rows s)
      then (True, s\<lparr>ss_rows := map (\<lambda>r. if sc_name r = n \<and> sc_next r = observed then r\<lparr>sc_next := new, sc_last := Some fired\<rparr> else r) (ss_rows s),
          ss_claims := ss_claims s @ [(n, observed)]\<rparr>)
      else (False, s))"

definition schedule_queue_name :: "string \<Rightarrow> string" where
  "schedule_queue_name n = ''zenzip.schedule.'' @ n"

definition active_count :: "string \<Rightarrow> sched_store \<Rightarrow> nat" where
  "active_count q s = length (filter (\<lambda>j. j_queue j = q \<and> (j_status j = JPending \<or> j_status j = JRunning)) (jobs (ss_jobs s)))"

definition tick_payload :: "string \<Rightarrow> int \<Rightarrow> string" where
  "tick_payload n fired_at =
     ''{'' @ [DQ] @ ''schedule'' @ [DQ] @ '':'' @ [DQ] @ n @ [DQ] @ '','' @ [DQ] @ ''firedAt'' @ [DQ] @ '':'' @ int_str fired_at @ ''}''"

definition fire_job :: "int \<Rightarrow> sched_def \<Rightarrow> int \<Rightarrow> push_job" where
  "fire_job jitter d fired_at =
     \<lparr>pj_queue = schedule_queue_name (sd_name d), pj_payload = tick_payload (sd_name d) fired_at, pj_priority = 0,
      pj_delay = (if sd_jitter d > 0 then jitter else 0), pj_max = 1, pj_key = None, pj_debounce = None, pj_throttle = None\<rparr>"

definition push_fire :: "int \<Rightarrow> sched_def \<Rightarrow> int \<Rightarrow> sched_store \<Rightarrow> sched_store" where
  "push_fire jitter d fired_at s =
     s\<lparr>ss_jobs := snd (insert_job_row (ss_now s) (fire_job jitter d fired_at) (ss_jobs s)), ss_fires := ss_fires s @ [(sd_name d, fired_at)]\<rparr>"

section \<open>A node\<close>

type_synonym 'a node = "(sched_store, 'a) prog"

text \<open>
  An unchanged spec keeps the stored times across restarts. The row is read by one statement and written by
  another, with no transaction around them: only this process's own connection is locked in between.
\<close>

definition upsert_schedule :: "sched_row \<Rightarrow> sched_row node" where
  "upsert_schedule row =
     prog_bind (query (row_of (sc_name row))) (\<lambda>existing.
       let new = (case existing of
                    Some old \<Rightarrow> if sc_spec old = sc_spec row then row\<lparr>sc_next := sc_next old, sc_last := sc_last old\<rparr> else row\<lparr>sc_last := None\<rparr>
                  | None \<Rightarrow> row\<lparr>sc_last := None\<rparr>)
       in prog_bind (stmt (put_schedule new)) (\<lambda>_. Ret new))"

text \<open>The cap on replayed ticks.\<close>

definition MAX_CATCHUP_FIRES :: nat where
  "MAX_CATCHUP_FIRES = 100"

definition fire :: "(int \<Rightarrow> int) \<Rightarrow> sched_def \<Rightarrow> int \<Rightarrow> unit node" where
  "fire jit d fired_at = stmt (push_fire (jit fired_at) d fired_at)"

text \<open>
  \<open>replay jit d now n t\<close>: fire the missed ticks from \<open>t\<close> on, each after claiming it, at most \<open>n\<close> of them; what
  is then still missed is dropped with one more claim. A lost claim means that another node replays the gap.
\<close>

primrec replay :: "(int \<Rightarrow> int) \<Rightarrow> sched_def \<Rightarrow> int \<Rightarrow> nat \<Rightarrow> int \<Rightarrow> (string, unit) res node" where
  "replay jit d now 0 t =
     (if t \<le> now
      then (case next_after d now of
              Inl e \<Rightarrow> Ret (Throw e)
            | Inr next \<Rightarrow> prog_bind (tx (claim_tick (sd_name d) t next now)) (\<lambda>_. Ret (Ok ())))
      else Ret (Ok ()))"
| "replay jit d now (Suc n) t =
     (if t \<le> now
      then (case next_after d t of
              Inl e \<Rightarrow> Ret (Throw e)
            | Inr next_t \<Rightarrow>
                prog_bind (tx (claim_tick (sd_name d) t next_t now)) (\<lambda>claimed.
                if claimed then prog_bind (fire jit d t) (\<lambda>_. replay jit d now n next_t) else Ret (Ok ())))
      else Ret (Ok ()))"

definition catch_up :: "(int \<Rightarrow> int) \<Rightarrow> sched_def \<Rightarrow> int \<Rightarrow> int \<Rightarrow> int \<Rightarrow> (string, unit) res node" where
  "catch_up jit d now next stored_next =
     (case sd_catchup d of
        CSkip \<Rightarrow> prog_bind (tx (claim_tick (sd_name d) stored_next next now)) (\<lambda>_. Ret (Ok ()))
      | CRunOnce \<Rightarrow> Ret (Ok ())
      | CAll \<Rightarrow> replay jit d now MAX_CATCHUP_FIRES stored_next)"

definition boot_row :: "sched_def \<Rightarrow> int \<Rightarrow> sched_row" where
  "boot_row d next =
     \<lparr>sc_name = sd_name d, sc_spec = sd_spec d, sc_overlap = overlap_str (sd_overlap d), sc_catchup = catchup_str (sd_catchup d),
      sc_next = next, sc_last = None\<rparr>"

primrec boot_each :: "(int \<Rightarrow> int) \<Rightarrow> int \<Rightarrow> sched_def list \<Rightarrow> (string, unit) res node" where
  "boot_each jit now [] = Ret (Ok ())"
| "boot_each jit now (d # ds) =
     (case next_after d now of
        Inl e \<Rightarrow> Ret (Throw e)
      | Inr next \<Rightarrow>
          prog_bind (upsert_schedule (boot_row d next)) (\<lambda>stored.
          prog_bind (if sc_next stored \<le> now then catch_up jit d now next (sc_next stored) else Ret (Ok ())) (\<lambda>r.
          case r of Inl e \<Rightarrow> Ret (Throw e) | Inr _ \<Rightarrow> boot_each jit now ds)))"

definition boot :: "(int \<Rightarrow> int) \<Rightarrow> sched_def list \<Rightarrow> (string, unit) res node" where
  "boot jit defs = prog_bind (query ss_now) (\<lambda>now. boot_each jit now defs)"

definition def_named :: "sched_def list \<Rightarrow> string \<Rightarrow> sched_def option" where
  "def_named defs n = List.find (\<lambda>d. sd_name d = n) defs"

definition next_or_minute :: "sched_def \<Rightarrow> int \<Rightarrow> int" where
  "next_or_minute d now = (case next_after d now of Inl _ \<Rightarrow> now + 60000 | Inr next \<Rightarrow> next)"

definition may_fire :: "sched_def \<Rightarrow> bool node" where
  "may_fire d =
     (case sd_overlap d of
        OSkip \<Rightarrow> query (\<lambda>s. active_count (schedule_queue_name (sd_name d)) s = 0)
      | _ \<Rightarrow> Ret True)"

primrec tick_each :: "(int \<Rightarrow> int) \<Rightarrow> int \<Rightarrow> sched_def list \<Rightarrow> sched_row list \<Rightarrow> unit node" where
  "tick_each jit now defs [] = Ret ()"
| "tick_each jit now defs (r # rs) =
     (case def_named defs (sc_name r) of
        None \<Rightarrow> tick_each jit now defs rs
      | Some d \<Rightarrow>
          prog_bind (tx (claim_tick (sd_name d) (sc_next r) (next_or_minute d now) now)) (\<lambda>claimed.
          if \<not> claimed then tick_each jit now defs rs
          else prog_bind (may_fire d) (\<lambda>ok.
               prog_bind (if ok then fire jit d now else Ret ()) (\<lambda>_. tick_each jit now defs rs))))"

definition sched_round :: "(int \<Rightarrow> int) \<Rightarrow> sched_def list \<Rightarrow> unit node" where
  "sched_round jit defs = prog_bind (query ss_now) (\<lambda>now. prog_bind (query (due_schedules now)) (tick_each jit now defs))"

text \<open>The loop, for a node that is cancelled after \<open>n\<close> rounds.\<close>

primrec sched_loop :: "(int \<Rightarrow> int) \<Rightarrow> sched_def list \<Rightarrow> nat \<Rightarrow> unit node" where
  "sched_loop jit defs 0 = Ret ()"
| "sched_loop jit defs (Suc n) = prog_bind (sched_round jit defs) (\<lambda>_. sched_loop jit defs n)"

definition sched_run :: "(int \<Rightarrow> int) \<Rightarrow> sched_def list \<Rightarrow> nat \<Rightarrow> unit node" where
  "sched_run jit defs n = prog_bind (boot jit defs) (\<lambda>r. case r of Inl _ \<Rightarrow> Ret () | Inr _ \<Rightarrow> sched_loop jit defs n)"

section \<open>One fire per tick\<close>

text \<open>The transactions of the nodes, and the moves of the rest.\<close>

inductive sched_tx :: "(sched_store \<Rightarrow> sched_store) \<Rightarrow> bool" where
  reading: "sched_tx (\<lambda>s. s)"
| claiming: "observed < new \<Longrightarrow> sched_tx (\<lambda>s. snd (claim_tick n observed new fired s))"
| putting: "sched_tx (put_schedule row)"
| firing: "sched_tx (push_fire j d t)"
| working: "sched_tx (\<lambda>s. s\<lparr>ss_jobs := g (ss_jobs s)\<rparr>)"
| ticking: "sched_tx (\<lambda>s. s\<lparr>ss_now := ss_now s + t\<rparr>)"

inductive sched_environ :: "(sched_store \<Rightarrow> sched_store) \<Rightarrow> bool" where
  job_work: "sched_environ (\<lambda>s. s\<lparr>ss_jobs := g (ss_jobs s)\<rparr>)"
| tick: "t \<ge> 0 \<Longrightarrow> sched_environ (\<lambda>s. s\<lparr>ss_now := ss_now s + t\<rparr>)"

inductive sched_started :: "(sched_def list \<Rightarrow> bool) \<Rightarrow> unit node \<Rightarrow> bool" for nodes where
  "nodes defs \<Longrightarrow> sched_started nodes (sched_run jit defs n)"

text \<open>The upserts that moved a schedule back to a tick or to a time before it.\<close>

definition rewound :: "string \<Rightarrow> int \<Rightarrow> sched_store \<Rightarrow> nat" where
  "rewound n u s = length (filter (\<lambda>(m, v). m = n \<and> v \<le> u) (ss_rewinds s))"

text \<open>A tick that lies before its schedule's next time is spent: it can only be claimed again after a rewind.\<close>

definition spent :: "string \<Rightarrow> int \<Rightarrow> sched_store \<Rightarrow> bool" where
  "spent n u s \<longleftrightarrow> (\<exists>r \<in> set (ss_rows s). sc_name r = n \<and> u < sc_next r)"

definition sched_ok :: "sched_store \<Rightarrow> bool" where
  "sched_ok s \<longleftrightarrow> distinct (map sc_name (ss_rows s)) \<and>
     (\<forall>n u. count_list (ss_claims s) (n, u) \<le> rewound n u s + (if spent n u s then 1 else 0))"

lemma row_of_In: "row_of n s = Some r \<Longrightarrow> r \<in> set (ss_rows s) \<and> sc_name r = n"
  unfolding row_of_def by (auto simp: find_Some_iff)

lemma row_of_None: "row_of n s = None \<longleftrightarrow> n \<notin> sc_name ` set (ss_rows s)"
  by (auto simp: row_of_def find_None_iff)

text \<open>With distinct names, a tick is spent when it lies before the next time of the one row of its schedule.\<close>

lemma sched_named: "distinct (map sc_name (ss_rows s)) \<Longrightarrow> r \<in> set (ss_rows s) \<Longrightarrow> q \<in> set (ss_rows s) \<Longrightarrow> sc_name r = sc_name q \<Longrightarrow> r = q"
  unfolding distinct_map inj_on_def by blast

lemma sched_ok_put:
  assumes ok: "sched_ok s"
  shows "sched_ok (put_schedule row s)"
proof (cases "row_of (sc_name row) s")
  case None
  then have rows: "put_schedule row s = s\<lparr>ss_rows := ss_rows s @ [row]\<rparr>" by (simp add: put_schedule_def)
  have new: "sc_name row \<notin> sc_name ` set (ss_rows s)" using None by (simp add: row_of_None)
  have "spent n u s \<Longrightarrow> spent n u (put_schedule row s)" "rewound n u (put_schedule row s) = rewound n u s" for n u
    by (auto simp: rows spent_def rewound_def)
  moreover have "count_list (ss_claims s) (n, u) \<le> rewound n u s + (if spent n u s then 1 else 0)" for n u
    using ok by (simp add: sched_ok_def)
  ultimately have "count_list (ss_claims s) (n, u) \<le> rewound n u (put_schedule row s) + (if spent n u (put_schedule row s) then 1 else 0)" for n u
    by (smt (verit) add.right_neutral le_add1 le_trans)
  with ok new show ?thesis by (auto simp: sched_ok_def rows)
next
  case (Some old)
  let ?g = "\<lambda>r. if sc_name r = sc_name row then row else r"
  let ?t = "put_schedule row s"
  have rows: "ss_rows ?t = map ?g (ss_rows s)" "ss_claims ?t = ss_claims s"
    and rew: "ss_rewinds ?t = ss_rewinds s @ (if sc_next row < sc_next old then [(sc_name row, sc_next row)] else [])"
    using Some by (simp_all add: put_schedule_def)
  from row_of_In [OF Some] have old: "old \<in> set (ss_rows s)" "sc_name old = sc_name row" by simp_all
  have names: "map sc_name (ss_rows ?t) = map sc_name (ss_rows s)" by (simp add: rows)
  have step: "rewound n u s + (if spent n u s then 1 else 0) \<le> rewound n u ?t + (if spent n u ?t then 1 else 0)" for n u
  proof (cases "spent n u s \<and> \<not> spent n u ?t")
    case True
    then obtain r where r: "r \<in> set (ss_rows s)" "sc_name r = n" "u < sc_next r" by (auto simp: spent_def)
    have image: "?g r \<in> set (ss_rows ?t)" "?g old \<in> set (ss_rows ?t)" using r(1) old(1) by (auto simp: rows(1))
    have same: "sc_name r = sc_name row"
    proof (rule ccontr)
      assume "sc_name r \<noteq> sc_name row"
      with image(1) r True show False by (auto simp: spent_def)
    qed
    have "distinct (map sc_name (ss_rows s))" using ok by (simp add: sched_ok_def)
    from sched_named [OF this r(1) old(1)] same old(2) have "r = old" by simp
    moreover have "\<not> u < sc_next row"
    proof
      assume later: "u < sc_next row"
      have "row \<in> set (ss_rows ?t)" using image(2) old(2) by simp
      then have "spent n u ?t" unfolding spent_def using later r(2) same by (intro bexI [of _ row]) simp_all
      with True show False by simp
    qed
    ultimately have "rewound n u ?t = rewound n u s + 1" using r(2,3) same by (simp add: rewound_def rew)
    with True show ?thesis by simp
  next
    case False
    moreover have "rewound n u s \<le> rewound n u ?t" by (simp add: rewound_def rew)
    ultimately show ?thesis by auto
  qed
  have "count_list (ss_claims ?t) (n, u) \<le> rewound n u ?t + (if spent n u ?t then 1 else 0)" for n u
    using ok step [of n u] unfolding sched_ok_def rows(2) by (meson le_trans)
  then show ?thesis using ok by (simp add: sched_ok_def names)
qed

lemma sched_ok_claim:
  assumes "observed < new" and ok: "sched_ok s"
  shows "sched_ok (snd (claim_tick n observed new fired s))"
proof (cases "list_ex (\<lambda>r. sc_name r = n \<and> sc_next r = observed) (ss_rows s)")
  case False
  with ok show ?thesis by (simp add: claim_tick_def)
next
  case True
  then obtain w where w: "w \<in> set (ss_rows s)" "sc_name w = n" "sc_next w = observed" by (auto simp: list_ex_iff)
  let ?g = "\<lambda>r. if sc_name r = n \<and> sc_next r = observed then r\<lparr>sc_next := new, sc_last := Some fired\<rparr> else r"
  let ?t = "snd (claim_tick n observed new fired s)"
  have t: "?t = s\<lparr>ss_rows := map ?g (ss_rows s), ss_claims := ss_claims s @ [(n, observed)]\<rparr>"
    using True by (simp add: claim_tick_def)
  have names: "map sc_name (ss_rows ?t) = map sc_name (ss_rows s)" by (simp add: t)
  have stays: "spent m u ?t" if "spent m u s" for m u
  proof -
    from that obtain r where "r \<in> set (ss_rows s)" "sc_name r = m" "u < sc_next r" by (auto simp: spent_def)
    then have "?g r \<in> set (ss_rows ?t)" "sc_name (?g r) = m" "u < sc_next (?g r)" using assms(1) by (auto simp: t)
    then show ?thesis unfolding spent_def by blast
  qed
  have free: "\<not> spent n observed s"
  proof
    assume "spent n observed s"
    then obtain r where "r \<in> set (ss_rows s)" "sc_name r = n" "observed < sc_next r" by (auto simp: spent_def)
    then show False using sched_named [of s r w] ok w by (simp add: sched_ok_def)
  qed
  have now: "spent n observed ?t"
  proof -
    have "?g w \<in> set (ss_rows ?t)" "sc_name (?g w) = n" "observed < sc_next (?g w)" using w assms(1) by (simp_all add: t)
    then show ?thesis unfolding spent_def by blast
  qed
  have count: "count_list (ss_claims ?t) (m, u) \<le> rewound m u ?t + (if spent m u ?t then 1 else 0)" for m u
  proof -
    have "count_list (ss_claims s) (m, u) \<le> rewound m u s + (if spent m u s then 1 else 0)" using ok by (simp add: sched_ok_def)
    moreover have "rewound m u ?t = rewound m u s" by (simp add: t rewound_def)
    moreover have "count_list (ss_claims ?t) (m, u) = count_list (ss_claims s) (m, u) + (if m = n \<and> u = observed then 1 else 0)" by (auto simp: t)
    ultimately show ?thesis using stays [of m u] free now by (auto split: if_splits)
  qed
  from ok have "distinct (map sc_name (ss_rows ?t))" unfolding names by (simp add: sched_ok_def)
  with count show ?thesis unfolding sched_ok_def by blast
qed

lemma sched_ok_same: "ss_rows t = ss_rows s \<Longrightarrow> ss_claims t = ss_claims s \<Longrightarrow> ss_rewinds t = ss_rewinds s \<Longrightarrow> sched_ok t = sched_ok s"
  by (simp add: sched_ok_def spent_def rewound_def)

lemma sched_tx_ok: "sched_tx f \<Longrightarrow> sched_ok s \<Longrightarrow> sched_ok (f s)"
proof (induction rule: sched_tx.cases)
  case (claiming observed new n fired)
  then show ?case using sched_ok_claim by simp
next
  case (putting row)
  then show ?case using sched_ok_put by simp
qed (simp_all add: push_fire_def sched_ok_same [of "s\<lparr>ss_now := n\<rparr>" s for n] sched_ok_same [of "s\<lparr>ss_jobs := n\<rparr>" s for n]
   sched_ok_same [of "s\<lparr>ss_jobs := n, ss_fires := fs\<rparr>" s for n fs])

text \<open>Definitions whose next time lies strictly after the time asked for.\<close>

definition defs_ok :: "sched_def list \<Rightarrow> bool" where
  "defs_ok defs \<longleftrightarrow> (\<forall>d \<in> set defs. \<forall>t u. next_after d t = Ok u \<longrightarrow> t < u)"

lemmas sched_tx_simps [simp] = sched_tx.intros(1,3-6)

lemma all_tx_upsert [simp]: "all_tx sched_tx (upsert_schedule row)"
  by (auto simp: upsert_schedule_def Let_def intro!: all_tx_bind)

lemma all_tx_replay:
  assumes "\<And>t u. next_after d t = Ok u \<Longrightarrow> t < u"
  shows "all_tx sched_tx (replay jit d now n t)"
proof (induction n arbitrary: t)
  case 0
  have "t < v" if "t \<le> now" "next_after d now = Ok v" for v using that assms by force
  then show ?case by (auto split: sum.split intro!: all_tx_bind sched_tx.claiming)
qed (auto simp: fire_def split: sum.split intro!: all_tx_bind sched_tx.claiming dest: assms)

lemma all_tx_boot_each:
  "defs_ok ds \<Longrightarrow> all_tx sched_tx (boot_each jit now ds)"
proof (induction ds)
  case (Cons d ds)
  then have ih: "all_tx sched_tx (boot_each jit now ds)" by (simp add: defs_ok_def)
  have up: "\<And>t u. next_after d t = Ok u \<Longrightarrow> t < u" using Cons.prems by (auto simp: defs_ok_def)
  have catch: "all_tx sched_tx (catch_up jit d now v u)" if "u \<le> now" "next_after d now = Ok v" for v u
  proof -
    have "u < v" using that up by force
    then show ?thesis using all_tx_replay [OF up] by (auto simp: catch_up_def split: catchup.split intro!: all_tx_bind sched_tx.claiming)
  qed
  show ?case
    using ih catch by (auto split: sum.split intro!: all_tx_bind)
qed simp

lemma next_or_minute_later: "(\<And>t u. next_after d t = Ok u \<Longrightarrow> t < u) \<Longrightarrow> now < next_or_minute d now"
  by (auto simp: next_or_minute_def split: sum.split)

lemma all_tx_tick_each:
  assumes "defs_ok defs" and "\<forall>r \<in> set rs. sc_next r \<le> now"
  shows "all_tx sched_tx (tick_each jit now defs rs)"
  using assms(2)
proof (induction rs)
  case (Cons r rs)
  then have ih: "all_tx sched_tx (tick_each jit now defs rs)" by simp
  have "sc_next r < next_or_minute d now" if "def_named defs (sc_name r) = Some d" for d
  proof -
    have "d \<in> set defs" using that by (auto simp: def_named_def find_Some_iff)
    then have "now < next_or_minute d now" using assms(1) next_or_minute_later unfolding defs_ok_def by metis
    with Cons.prems show ?thesis by simp
  qed
  with ih show ?case
    by (auto simp: fire_def may_fire_def split: option.split overlap.split intro!: all_tx_bind sched_tx.claiming)
qed simp

lemma all_tx_sched_run:
  assumes "defs_ok defs"
  shows "all_tx sched_tx (sched_run jit defs n)"
proof -
  have "all_tx sched_tx (sched_round jit defs)"
    by (auto simp: sched_round_def query_def due_schedules_def intro!: all_tx_bind all_tx_tick_each [OF assms])
  then have "all_tx sched_tx (sched_loop jit defs n)" by (induction n) auto
  then show ?thesis
    using all_tx_boot_each [OF assms] by (auto simp: sched_run_def boot_def split: sum.split intro!: all_tx_bind)
qed

text \<open>What a schedule may still fire: the ticks claimed for it that were not fired.\<close>

definition unfired :: "string \<Rightarrow> sched_store \<Rightarrow> int" where
  "unfired n s = int (length (filter (\<lambda>c. fst c = n) (ss_claims s))) - int (length (filter (\<lambda>c. fst c = n) (ss_fires s)))"

lemma unfired_simps [simp]:
  "unfired n (snd (claim_tick m observed new fired s)) = unfired n s + (if fst (claim_tick m observed new fired s) \<and> m = n then 1 else 0)"
  "unfired n (push_fire j d t s) = unfired n s - (if sd_name d = n then 1 else 0)"
  "unfired n (put_schedule row s) = unfired n s"
  by (auto simp: unfired_def claim_tick_def push_fire_def put_schedule_def split: option.split)

abbreviation pays :: "string \<Rightarrow> 'a node \<Rightarrow> int \<Rightarrow> bool" where
  "pays n \<equiv> spends (unfired n) (\<lambda>_ _. True)"

lemma pays_fire: "(if sd_name d = n then 1 else 0) \<le> k \<Longrightarrow> pays n (fire jit d t) k"
  by (auto simp: fire_def split: if_splits)

lemma pays_replay: "0 \<le> k \<Longrightarrow> pays n (replay jit d now m t) k"
proof (induction m arbitrary: t k)
  case 0
  then show ?case by (auto split: sum.split intro!: spends_bind)
next
  case (Suc m)
  then show ?case by (auto split: sum.split intro!: spends_bind [of _ _ _ "tx f" for f] spends_then pays_fire)
qed

lemma pays_boot_each: "0 \<le> k \<Longrightarrow> pays n (boot_each jit now ds) k"
proof (induction ds arbitrary: k)
  case (Cons d ds)
  have "pays n (catch_up jit d now v u) k" if "0 \<le> k" for v u k
    using that pays_replay by (auto simp: catch_up_def split: catchup.split intro!: spends_then)
  moreover have "pays n (upsert_schedule row) k" if "0 \<le> k" for row k
    using that by (auto simp: upsert_schedule_def Let_def intro!: spends_then)
  ultimately show ?case using Cons by (auto split: sum.split intro!: spends_then)
qed simp

lemma pays_tick_each: "0 \<le> k \<Longrightarrow> pays n (tick_each jit now defs rs) k"
proof (induction rs arbitrary: k)
  case (Cons r rs)
  have fire: "pays n (prog_bind (may_fire d) (\<lambda>ok. prog_bind (if ok then fire jit d now else Ret ()) (\<lambda>_. tick_each jit now defs rs))) k"
    if "(if sd_name d = n then 1 else 0) \<le> k" for d k
  proof -
    have "0 \<le> k" using that by (simp split: if_splits)
    with that Cons.IH show ?thesis
      by (auto simp: may_fire_def split: overlap.split intro!: spends_bind [of _ _ _ "query f" for f] spends_then pays_fire)
  qed
  show ?case
    using Cons fire by (auto split: option.split intro!: spends_bind [of _ _ _ "tx f" for f])
qed simp

lemma pays_sched_run: "pays n (sched_run jit defs m) 0"
proof -
  have "pays n (sched_round jit defs) k" if "0 \<le> k" for k
    using that by (auto simp: sched_round_def intro!: spends_then pays_tick_each)
  then have "pays n (sched_loop jit defs m) k" if "0 \<le> k" for k
    using that by (induction m arbitrary: k) (auto intro!: spends_then)
  then show ?thesis
    by (auto simp: sched_run_def boot_def split: sum.split intro!: spends_then pays_boot_each)
qed

text \<open>
  An upsert that no other transaction interrupts moves nothing back, unless the spec has changed.
\<close>

lemma upsert_alone:
  assumes "\<And>old. row_of (sc_name row) s = Some old \<Longrightarrow> sc_spec old = sc_spec row"
  shows "ss_rewinds (snd (prog_run (upsert_schedule row) s)) = ss_rewinds s"
  using assms by (cases "row_of (sc_name row) s") (simp_all add: upsert_schedule_def Let_def prog_run_bind put_schedule_def)

text \<open>
  C18: A tick fires at most once, unless an upsert takes it back. Nodes on one store whose schedules always have
  a later next time boot, replay and poll, any number of them, interleaved and crashing anywhere. A tick is
  claimed at most once, and once more for each upsert that wrote its schedule's next time back to it or before
  it; a tick claimed and not taken back lies before the schedule's next one; no schedule fires more often than
  it had ticks claimed. An upsert, two statements, takes nothing back if nothing comes in between and the spec
  is unchanged.
\<close>

theorem tick_fires_once:
  assumes "\<And>defs. nodes defs \<Longrightarrow> defs_ok defs" and "distinct (map sc_name (ss_rows s))"
    and "ss_claims s = []" and "ss_fires s = []" and "ss_rewinds s = []"
    and "prog_steps (sched_started nodes) sched_environ (s, []) (t, ps)"
  shows "(\<forall>n u. count_list (ss_claims t) (n, u) \<le> 1 + length (filter (\<lambda>(m, v). m = n \<and> v \<le> u) (ss_rewinds t))) \<and>
    (\<forall>(n, u) \<in> set (ss_claims t). (\<forall>(m, v) \<in> set (ss_rewinds t). m = n \<longrightarrow> u < v) \<longrightarrow>
       (\<exists>r \<in> set (ss_rows t). sc_name r = n \<and> u < sc_next r)) \<and>
    (\<forall>n. length (filter (\<lambda>c. fst c = n) (ss_fires t)) \<le> length (filter (\<lambda>c. fst c = n) (ss_claims t))) \<and>
    (\<forall>row u. (\<forall>old. row_of (sc_name row) u = Some old \<longrightarrow> sc_spec old = sc_spec row) \<longrightarrow>
       ss_rewinds (snd (prog_run (upsert_schedule row) u)) = ss_rewinds u)"
proof -
  have "sched_ok s" using assms(2,3) by (simp add: sched_ok_def)
  then have "sched_ok t \<and> (\<forall>p \<in> set ps. all_tx sched_tx p)"
  proof (intro prog_steps_from [where T = sched_tx and P = sched_ok and qs = "[]", OF _ _ assms(6)])
    show "all_tx sched_tx p" if "sched_started nodes p" for p
      using that assms(1) by cases (simp add: all_tx_sched_run)
    show "sched_tx g" if "sched_environ g" for g using that by cases (auto intro: sched_tx.intros)
  qed (simp_all add: sched_tx_ok)
  then have count: "count_list (ss_claims t) (n, u) \<le> rewound n u t + (if spent n u t then 1 else 0)" for n u
    by (simp add: sched_ok_def)
  have once: "count_list (ss_claims t) (n, u) \<le> 1 + length (filter (\<lambda>(m, v). m = n \<and> v \<le> u) (ss_rewinds t))" for n u
    using count [of n u] by (auto simp: rewound_def split: if_splits)
  have before: "\<exists>r \<in> set (ss_rows t). sc_name r = n \<and> u < sc_next r"
    if claimed: "(n, u) \<in> set (ss_claims t)" and kept: "\<forall>(m, v) \<in> set (ss_rewinds t). m = n \<longrightarrow> u < v" for n u
  proof -
    have "filter (\<lambda>(m, v). m = n \<and> v \<le> u) (ss_rewinds t) = []" using kept by (auto simp: filter_empty_conv)
    then have "rewound n u t = 0" by (simp add: rewound_def)
    moreover have "count_list (ss_claims t) (n, u) \<noteq> 0" using claimed by (simp add: count_list_0_iff)
    ultimately show ?thesis using count [of n u] by (auto simp: spent_def split: if_splits)
  qed
  have "unfired n s \<le> unfired n t" for n
  proof (rule prog_steps_credit [OF _ _ assms(6)])
    show "pays n p 0" if "sched_started nodes p" for p using that pays_sched_run by cases simp
    show "unfired n (g u) = unfired n u" if "sched_environ g" for g u using that by cases (simp_all add: unfired_def)
  qed
  then show ?thesis using once before upsert_alone assms(3,4) by (simp add: unfired_def) blast
qed

section \<open>Ticks missed while down\<close>

text \<open>What the store holds of one schedule, and what other schedules leave alone.\<close>

definition rows_of :: "string \<Rightarrow> sched_store \<Rightarrow> sched_row list" where
  "rows_of n s = filter (\<lambda>r. sc_name r = n) (ss_rows s)"

definition fires_of :: "string \<Rightarrow> sched_store \<Rightarrow> (string \<times> int) list" where
  "fires_of n s = filter (\<lambda>f. fst f = n) (ss_fires s)"

definition view :: "string \<Rightarrow> sched_store \<Rightarrow> sched_row list \<times> (string \<times> int) list \<times> nat \<times> int" where
  "view n s = (rows_of n s, fires_of n s, active_count (schedule_queue_name n) s, ss_now s)"

definition apart :: "string \<Rightarrow> (sched_store \<Rightarrow> sched_store) \<Rightarrow> bool" where
  "apart n f \<longleftrightarrow> (\<forall>s. view n (f s) = view n s)"

lemma prog_run_apart: "all_tx (apart n) p \<Longrightarrow> view n (snd (prog_run p s)) = view n s"
  by (induction p arbitrary: s) (simp_all add: apart_def)

lemma rows_of_row: "row_of n s = (case rows_of n s of [] \<Rightarrow> None | r # _ \<Rightarrow> Some r)"
proof -
  have "List.find (\<lambda>r. sc_name r = n) rs = (case filter (\<lambda>r. sc_name r = n) rs of [] \<Rightarrow> None | r # _ \<Rightarrow> Some r)" for rs
    by (induction rs) auto
  then show ?thesis by (simp add: row_of_def rows_of_def)
qed

lemma rows_of_one: "distinct (map sc_name (ss_rows s)) \<Longrightarrow> row_of n s = Some r \<Longrightarrow> rows_of n s = [r]"
proof -
  have "distinct (map sc_name rs) \<Longrightarrow> List.find (\<lambda>r. sc_name r = n) rs = Some r \<Longrightarrow> filter (\<lambda>r. sc_name r = n) rs = [r]" for rs
    by (induction rs) (auto simp: filter_empty_conv image_iff split: if_splits)
  then show "distinct (map sc_name (ss_rows s)) \<Longrightarrow> row_of n s = Some r \<Longrightarrow> rows_of n s = [r]" by (simp add: row_of_def rows_of_def)
qed

lemma rows_of_map: "(\<And>r. sc_name (g r) = sc_name r) \<Longrightarrow> rows_of n (s\<lparr>ss_rows := map g (ss_rows s)\<rparr>) = map g (rows_of n s)"
  by (simp add: rows_of_def filter_map comp_def)

lemma rows_of_name:
  assumes "rows_of n s = [r]"
  shows "sc_name r = n"
proof -
  have "r \<in> set (rows_of n s)" using assms by simp
  then show ?thesis by (simp add: rows_of_def)
qed

lemma active_count_push: "active_count q (push_fire j d t s) = active_count q s + (if q = schedule_queue_name (sd_name d) then 1 else 0)"
  by (simp add: active_count_def push_fire_def insert_job_row_def fire_job_def delete_where_def debounced_def throttle_start_def Let_def)

lemma apart_simps [simp]:
  "apart n (\<lambda>s. s)" "m \<noteq> n \<Longrightarrow> apart n (\<lambda>s. snd (claim_tick m observed new fired s))"
  "sc_name row \<noteq> n \<Longrightarrow> apart n (put_schedule row)" "sd_name d \<noteq> n \<Longrightarrow> apart n (push_fire j d t)"
proof -
  show "apart n (\<lambda>s. s)" by (simp add: apart_def)
  assume "m \<noteq> n"
  have "filter (\<lambda>r. sc_name r = n) (map (\<lambda>r. if sc_name r = m \<and> sc_next r = observed then r\<lparr>sc_next := new, sc_last := Some fired\<rparr> else r) rs) =
      filter (\<lambda>r. sc_name r = n) rs" for rs :: "sched_row list" using \<open>m \<noteq> n\<close> by (induction rs) auto
  then show "apart n (\<lambda>s. snd (claim_tick m observed new fired s))"
    by (simp add: apart_def view_def claim_tick_def rows_of_def fires_of_def active_count_def)
next
  assume "sc_name row \<noteq> n"
  then have "filter (\<lambda>r. sc_name r = n) (map (\<lambda>r. if sc_name r = sc_name row then row else r) rs) = filter (\<lambda>r. sc_name r = n) rs" for rs :: "sched_row list"
    by (induction rs) auto
  then show "apart n (put_schedule row)" using \<open>sc_name row \<noteq> n\<close>
    by (simp add: apart_def view_def put_schedule_def rows_of_def fires_of_def active_count_def split: option.split)
next
  assume "sd_name d \<noteq> n"
  then show "apart n (push_fire j d t)"
    by (simp add: apart_def view_def active_count_push schedule_queue_name_def) (simp add: push_fire_def rows_of_def fires_of_def)
qed

lemma replay_apart: "sd_name d \<noteq> n \<Longrightarrow> all_tx (apart n) (replay jit d now m t)"
  by (induction m arbitrary: t) (auto simp: fire_def split: sum.split intro!: all_tx_bind)

lemma upsert_apart: "sc_name row \<noteq> n \<Longrightarrow> all_tx (apart n) (upsert_schedule row)"
  by (auto simp: upsert_schedule_def Let_def split: option.split intro!: all_tx_bind)

lemma boot_apart: "n \<notin> sd_name ` set ds \<Longrightarrow> all_tx (apart n) (boot_each jit now ds)"
proof (induction ds)
  case (Cons d ds)
  then have d: "sd_name d \<noteq> n" and ih: "all_tx (apart n) (boot_each jit now ds)" by auto
  have "all_tx (apart n) (upsert_schedule (boot_row d u))" for u using d by (intro upsert_apart) (simp add: boot_row_def)
  moreover have "all_tx (apart n) (catch_up jit d now u v)" for u v
    using replay_apart [OF d] d by (auto simp: catch_up_def split: catchup.split intro!: all_tx_bind)
  ultimately show ?case using ih by (auto split: sum.split intro!: all_tx_bind)
qed simp

lemma tick_each_apart: "n \<notin> sc_name ` set rs \<Longrightarrow> all_tx (apart n) (tick_each jit now defs rs)"
proof (induction rs)
  case (Cons r rs)
  then have r: "sc_name r \<noteq> n" and ih: "all_tx (apart n) (tick_each jit now defs rs)" by auto
  show ?case
  proof (cases "def_named defs (sc_name r)")
    case (Some d)
    then have "sd_name d \<noteq> n" using r by (auto simp: def_named_def find_Some_iff)
    with Some ih show ?thesis
      by (auto simp: fire_def may_fire_def split: overlap.split intro!: all_tx_bind)
  qed (use ih in simp)
qed simp

lemma boot_each_append:
  "prog_run (boot_each jit now (as @ bs)) s =
     (case prog_run (boot_each jit now as) s of (Inl e, u) \<Rightarrow> (Inl e, u) | (Inr _, u) \<Rightarrow> prog_run (boot_each jit now bs) u)"
  by (induction as arbitrary: s) (auto simp: prog_run_bind split: sum.split prod.split)

lemma claim_wins:
  assumes "rows_of n s = [r]" and "sc_next r = u"
  obtains s' where "claim_tick n u new fired s = (True, s')" and "rows_of n s' = [r\<lparr>sc_next := new, sc_last := Some fired\<rparr>]"
    and "fires_of n s' = fires_of n s" and "ss_now s' = ss_now s" and "active_count q s' = active_count q s"
proof -
  let ?g = "\<lambda>r. if sc_name r = n \<and> sc_next r = u then r\<lparr>sc_next := new, sc_last := Some fired\<rparr> else r"
  have "r \<in> set (rows_of n s)" using assms(1) by simp
  then have r: "r \<in> set (ss_rows s)" "sc_name r = n" by (simp_all add: rows_of_def)
  then have "list_ex (\<lambda>r. sc_name r = n \<and> sc_next r = u) (ss_rows s)" using assms(2) by (auto simp: list_ex_iff)
  then have "claim_tick n u new fired s = (True, s\<lparr>ss_rows := map ?g (ss_rows s), ss_claims := ss_claims s @ [(n, u)]\<rparr>)"
    by (simp add: claim_tick_def)
  moreover have "rows_of n (s\<lparr>ss_rows := map ?g (ss_rows s)\<rparr>) = [r\<lparr>sc_next := new, sc_last := Some fired\<rparr>]"
    using assms r by (simp add: rows_of_map)
  ultimately show ?thesis using that by (simp add: rows_of_def fires_of_def active_count_def)
qed

lemma push_fire_simps [simp]:
  "fires_of n (push_fire j d t s) = fires_of n s @ (if sd_name d = n then [(n, t)] else [])"
  "rows_of n (push_fire j d t s) = rows_of n s" "ss_now (push_fire j d t s) = ss_now s"
  by (auto simp: push_fire_def rows_of_def fires_of_def)

definition missed :: "int \<Rightarrow> int \<Rightarrow> int \<Rightarrow> nat" where
  "missed ms t now = (if t \<le> now then nat ((now - t) div ms) + 1 else 0)"

lemma missed_step: "1 \<le> ms \<Longrightarrow> t \<le> now \<Longrightarrow> missed ms t now = Suc (missed ms (t + ms) now)"
proof -
  assume "1 \<le> ms" "t \<le> now"
  have "(now - t) div ms = (now - (t + ms)) div ms + 1"
    using \<open>1 \<le> ms\<close> div_add_self2 [of ms "now - (t + ms)"] by simp
  moreover have "0 \<le> (now - (t + ms)) div ms" if "t + ms \<le> now" using that \<open>1 \<le> ms\<close> by (simp add: pos_imp_zdiv_nonneg_iff)
  moreover have "(now - t) div ms = 0" if "now < t + ms" using that \<open>t \<le> now\<close> by (simp add: div_pos_pos_trivial)
  ultimately show ?thesis using \<open>t \<le> now\<close> by (auto simp: missed_def nat_add_distrib)
qed

lemma replay_every:
  assumes "sd_kind d = Every ms" and "1 \<le> ms" and "rows_of (sd_name d) s = [r]" and "sc_next r = t"
    and "prog_run (replay jit d now m t) s = (res, s')" and "t \<le> now + ms"
  shows "res = Ok () \<and> fires_of (sd_name d) s' = fires_of (sd_name d) s @ map (\<lambda>i. (sd_name d, t + int i * ms)) [0..<min m (missed ms t now)] \<and>
    (\<exists>q. rows_of (sd_name d) s' = [q] \<and> now < sc_next q \<and> sc_next q \<le> now + ms) \<and> ss_now s' = ss_now s"
  using assms(3-6)
proof (induction m arbitrary: t s r)
  case 0
  show ?case
  proof (cases "t \<le> now")
    case True
    obtain u where u: "claim_tick (sd_name d) t (now + ms) now s = (True, u)" "rows_of (sd_name d) u = [r\<lparr>sc_next := now + ms, sc_last := Some now\<rparr>]"
      "fires_of (sd_name d) u = fires_of (sd_name d) s" "ss_now u = ss_now s"
      using claim_wins [OF 0(1,2)] by blast
    with True 0 assms(1,2) show ?thesis by (auto simp: next_after_def prog_run_bind)
  next
    case False
    with 0 show ?thesis by auto
  qed
next
  case (Suc m)
  show ?case
  proof (cases "t \<le> now")
    case True
    obtain u where u: "claim_tick (sd_name d) t (t + ms) now s = (True, u)" "rows_of (sd_name d) u = [r\<lparr>sc_next := t + ms, sc_last := Some now\<rparr>]"
      "fires_of (sd_name d) u = fires_of (sd_name d) s" "ss_now u = ss_now s"
      using claim_wins [OF Suc.prems(1,2)] by blast
    let ?v = "push_fire (jit t) d t u"
    have run: "prog_run (replay jit d now m (t + ms)) ?v = (res, s')"
      using Suc.prems(3) True assms(1) u(1) by (simp add: next_after_def prog_run_bind fire_def)
    have row: "rows_of (sd_name d) ?v = [r\<lparr>sc_next := t + ms, sc_last := Some now\<rparr>]" using u(2) by simp
    from Suc.IH [OF row _ run] True
    have ih: "res = Ok ()" "fires_of (sd_name d) s' = fires_of (sd_name d) ?v @ map (\<lambda>i. (sd_name d, t + ms + int i * ms)) [0..<min m (missed ms (t + ms) now)]"
      "\<exists>q. rows_of (sd_name d) s' = [q] \<and> now < sc_next q \<and> sc_next q \<le> now + ms" "ss_now s' = ss_now ?v"
      by simp_all
    have list: "map (\<lambda>i. (sd_name d, t + int i * ms)) [0..<Suc k] = (sd_name d, t) # map (\<lambda>i. (sd_name d, t + ms + int i * ms)) [0..<k]" for k
      by (subst upt_conv_Cons) (simp_all add: map_Suc_upt [symmetric] algebra_simps del: upt_Suc map_Suc_upt)
    have "min (Suc m) (missed ms t now) = Suc (min m (missed ms (t + ms) now))" using missed_step [OF assms(2) True] by simp
    then show ?thesis using ih u list by (simp del: upt_Suc)
  next
    case False
    with Suc.prems show ?thesis by (auto simp: missed_def)
  qed
qed

lemma upsert_same:
  assumes "rows_of (sc_name row) s = [old]" and "sc_spec old = sc_spec row"
  obtains s' where "prog_run (upsert_schedule row) s = (row\<lparr>sc_next := sc_next old, sc_last := sc_last old\<rparr>, s')"
    and "rows_of (sc_name row) s' = [row\<lparr>sc_next := sc_next old, sc_last := sc_last old\<rparr>]"
    and "fires_of n s' = fires_of n s" and "ss_now s' = ss_now s"
proof -
  let ?new = "row\<lparr>sc_next := sc_next old, sc_last := sc_last old\<rparr>"
  have row: "row_of (sc_name row) s = Some old" "sc_name old = sc_name row" using assms(1) rows_of_name by (auto simp: rows_of_row)
  then have "prog_run (upsert_schedule row) s = (?new, s\<lparr>ss_rows := map (\<lambda>r. if sc_name r = sc_name row then ?new else r) (ss_rows s)\<rparr>)"
    using assms by (simp add: upsert_schedule_def Let_def prog_run_bind put_schedule_def)
  moreover have "rows_of (sc_name row) (s\<lparr>ss_rows := map (\<lambda>r. if sc_name r = sc_name row then ?new else r) (ss_rows s)\<rparr>) = [?new]"
    using assms(1) row by (simp add: rows_of_map)
  ultimately show ?thesis using that by (simp add: fires_of_def)
qed

text \<open>The boot of one schedule of an interval.\<close>

lemma boot_one:
  assumes "sd_kind d = Every ms" and "1 \<le> ms" and "rows_of (sd_name d) s = [r]" and "sc_spec r = sd_spec d"
    and "prog_run (boot_each jit now [d]) s = (res, t)"
  shows "res = Ok () \<and> ss_now t = ss_now s \<and>
    fires_of (sd_name d) t = fires_of (sd_name d) s @
      (if sd_catchup d = CAll then map (\<lambda>i. (sd_name d, sc_next r + int i * ms)) [0..<min 100 (missed ms (sc_next r) now)] else []) \<and>
    (\<exists>q. rows_of (sd_name d) t = [q] \<and>
       (if now < sc_next r \<or> sd_catchup d = CRunOnce then sc_next q = sc_next r else now < sc_next q \<and> sc_next q \<le> now + ms))"
proof -
  let ?row = "boot_row d (now + ms)"
  let ?new = "?row\<lparr>sc_next := sc_next r, sc_last := sc_last r\<rparr>"
  have row: "rows_of (sc_name ?row) s = [r]" "sc_spec r = sc_spec ?row" using assms(3,4) by (simp_all add: boot_row_def)
  obtain u where u: "prog_run (upsert_schedule ?row) s = (?new, u)" "rows_of (sd_name d) u = [?new]"
    "fires_of (sd_name d) u = fires_of (sd_name d) s" "ss_now u = ss_now s"
    by (rule upsert_same [OF row, of "sd_name d"]) (simp add: boot_row_def)
  have kept: "sc_next ?new = sc_next r" by simp
  show ?thesis
  proof (cases "now < sc_next r \<or> sd_catchup d = CRunOnce")
    case True
    then have "res = Ok ()" "t = u"
      using assms(1,5) u(1) by (auto simp: prog_run_bind next_after_def catch_up_def split: if_splits)
    with True u show ?thesis by (auto simp: missed_def)
  next
    case False
    then have run: "prog_run (prog_bind (catch_up jit d now (now + ms) (sc_next r)) (\<lambda>r. case r of Inl e \<Rightarrow> Ret (Throw e) | Inr _ \<Rightarrow> Ret (Ok ()))) u = (res, t)"
      using assms(1,5) u(1) by (simp add: prog_run_bind next_after_def)
    show ?thesis
    proof (cases "sd_catchup d")
      case CSkip
      obtain v where v: "claim_tick (sd_name d) (sc_next r) (now + ms) now u = (True, v)"
        "rows_of (sd_name d) v = [?new\<lparr>sc_next := now + ms, sc_last := Some now\<rparr>]"
        "fires_of (sd_name d) v = fires_of (sd_name d) u" "ss_now v = ss_now u"
        using claim_wins [OF u(2) kept] by blast
      have "res = Ok ()" "t = v" using run CSkip v(1) by (simp_all add: catch_up_def prog_run_bind)
      then show ?thesis using False CSkip v u assms(2) by simp
    next
      case CRunOnce
      with False show ?thesis by simp
    next
      case CAll
      obtain res' v where v: "prog_run (replay jit d now 100 (sc_next r)) u = (res', v)" by fastforce
      from replay_every [OF assms(1,2) u(2) kept this] False assms(2)
      have ra: "res' = Ok ()" "fires_of (sd_name d) v = fires_of (sd_name d) u @ map (\<lambda>i. (sd_name d, sc_next r + int i * ms)) [0..<min 100 (missed ms (sc_next r) now)]"
        "\<exists>q. rows_of (sd_name d) v = [q] \<and> now < sc_next q \<and> sc_next q \<le> now + ms" "ss_now v = ss_now u" by simp_all
      have "res = Ok ()" "t = v" using run CAll v ra(1) by (simp_all add: catch_up_def MAX_CATCHUP_FIRES_def prog_run_bind)
      then show ?thesis using False CAll ra u by simp
    qed
  qed
qed

text \<open>A round at any later time: what one schedule does in it, whatever other schedules there are.\<close>

lemma round_one:
  fixes jit
  assumes "def_named defs (sd_name d) = Some d" and "next_after d now = Ok u" and "rows_of (sd_name d) s = [q]"
    and "filter (\<lambda>r. sc_name r = sd_name d) rs = (if sc_next q \<le> now then [q] else [])"
  defines "t \<equiv> snd (prog_run (tick_each jit now defs rs) s)"
    and "quiet \<equiv> sd_overlap d = OSkip \<longrightarrow> active_count (schedule_queue_name (sd_name d)) s = 0"
  shows "fires_of (sd_name d) t = fires_of (sd_name d) s @ (if sc_next q \<le> now \<and> quiet then [(sd_name d, now)] else []) \<and>
    (\<exists>q'. rows_of (sd_name d) t = [q'] \<and> sc_next q' = (if sc_next q \<le> now then u else sc_next q))"
proof -
  let ?n = "sd_name d"
  have "fires_of ?n (snd (prog_run (tick_each jit now defs rs) s)) =
      fires_of ?n s @ (if sc_next q \<le> now \<and> (sd_overlap d = OSkip \<longrightarrow> active_count (schedule_queue_name ?n) s = 0) then [(?n, now)] else []) \<and>
    (\<exists>q'. rows_of ?n (snd (prog_run (tick_each jit now defs rs) s)) = [q'] \<and> sc_next q' = (if sc_next q \<le> now then u else sc_next q))"
    using assms(3,4)
  proof (induction rs arbitrary: s)
    case Nil
    then show ?case by (auto split: if_splits)
  next
    case (Cons a rs)
    show ?case
    proof (cases "sc_name a = ?n")
      case False
      have "all_tx (apart ?n) (tick_each jit now defs [a])" using False by (intro tick_each_apart) simp
      from prog_run_apart [OF this] have same: "view ?n (snd (prog_run (tick_each jit now defs [a]) s)) = view ?n s" .
      have "prog_run (tick_each jit now defs (a # rs)) s = prog_run (tick_each jit now defs rs) (snd (prog_run (tick_each jit now defs [a]) s))"
        by (auto simp: prog_run_bind split: option.split)
      with Cons.IH [of "snd (prog_run (tick_each jit now defs [a]) s)"] Cons.prems False same show ?thesis by (simp add: view_def)
    next
      case True
      with Cons.prems(2) have a: "a = q" "sc_next q \<le> now" and rest: "filter (\<lambda>r. sc_name r = ?n) rs = []" by (auto split: if_splits)
      obtain v where v: "claim_tick ?n (sc_next q) u now s = (True, v)" "rows_of ?n v = [q\<lparr>sc_next := u, sc_last := Some now\<rparr>]"
        "fires_of ?n v = fires_of ?n s" "active_count (schedule_queue_name ?n) v = active_count (schedule_queue_name ?n) s"
        using claim_wins [OF Cons.prems(1) refl] by blast
      have "?n \<notin> sc_name ` set rs" using rest by (auto simp: filter_empty_conv)
      from prog_run_apart [OF tick_each_apart [OF this]]
      have same: "view ?n (snd (prog_run (tick_each jit now defs rs) x)) = view ?n x" for x .
      have may: "prog_run (may_fire d) v = (sd_overlap d = OSkip \<longrightarrow> active_count (schedule_queue_name ?n) s = 0, v)"
        using v(4) by (cases "sd_overlap d") (simp_all add: may_fire_def)
      let ?x = "if sd_overlap d = OSkip \<longrightarrow> active_count (schedule_queue_name ?n) s = 0 then push_fire (jit now) d now v else v"
      have "prog_run (tick_each jit now defs (a # rs)) s = prog_run (tick_each jit now defs rs) ?x"
        using True a assms(1,2) v(1) may by (simp add: prog_run_bind next_or_minute_def fire_def)
      with same [of ?x] a v show ?thesis by (simp add: view_def)
    qed
  qed
  then show ?thesis unfolding t_def quiet_def .
qed

text \<open>
  C19: Catch-up. A schedule of an interval, its spec unchanged, among any others, on a node alone on its store
  whose boot succeeds. Boot fires nothing for it (\<open>skip\<close>, \<open>runOnce\<close>) or each missed
  tick in order, at most 100 and whatever the overlap policy (\<open>all\<close>). After \<open>skip\<close> or
  \<open>all\<close> over missed ticks its next time lies ahead of boot, by at most an interval; otherwise it is
  as it was. A round at any time fires the schedule once if its next time has come, unless overlap is
  \<open>skip\<close> and a job of it is active, and then moves it to one interval after the round; else it does
  neither.
\<close>

theorem missed_ticks:
  assumes "d \<in> set defs" and "distinct (map sd_name defs)" and "sd_kind d = Every ms" and "1 \<le> ms"
    and "distinct (map sc_name (ss_rows s))" and "row_of (sd_name d) s = Some r" and "sc_spec r = sd_spec d"
    and "prog_run (boot jit defs) s = (Ok (), t)"
  shows "fires_of (sd_name d) t = fires_of (sd_name d) s @
      (if sd_catchup d = CAll then map (\<lambda>i. (sd_name d, sc_next r + int i * ms)) [0..<min 100 (missed ms (sc_next r) (ss_now s))] else []) \<and>
    (\<exists>q. row_of (sd_name d) t = Some q \<and>
       (if ss_now s < sc_next r \<or> sd_catchup d = CRunOnce then sc_next q = sc_next r
        else ss_now s < sc_next q \<and> sc_next q \<le> ss_now s + ms) \<and>
       (\<forall>now t'. t' = snd (prog_run (sched_round jit defs) (t\<lparr>ss_now := now\<rparr>)) \<longrightarrow>
          fires_of (sd_name d) t' = fires_of (sd_name d) t @
            (if sc_next q \<le> now \<and> (sd_overlap d = OSkip \<longrightarrow> active_count (schedule_queue_name (sd_name d)) t = 0)
             then [(sd_name d, now)] else []) \<and>
          (\<exists>q'. row_of (sd_name d) t' = Some q' \<and> sc_next q' = (if sc_next q \<le> now then now + ms else sc_next q))))"
proof -
  let ?n = "sd_name d"
  obtain as bs where split: "defs = as @ d # bs" using assms(1) by (meson split_list)
  with assms(2) have out: "?n \<notin> sd_name ` set as" "?n \<notin> sd_name ` set bs" by auto
  define u where "u = snd (prog_run (boot_each jit (ss_now s) as) s)"
  define v where "v = snd (prog_run (boot_each jit (ss_now s) [d]) u)"
  have "prog_run (boot_each jit (ss_now s) (as @ [d] @ bs)) s = (Ok (), t)"
    using assms(8) split by (simp add: boot_def prog_run_bind)
  then have runs: "prog_run (boot_each jit (ss_now s) [d]) u = (Ok (), v)" "prog_run (boot_each jit (ss_now s) bs) v = (Ok (), t)"
    unfolding boot_each_append u_def v_def by (auto split: prod.splits sum.splits)
  have uv: "view ?n u = view ?n s" "view ?n t = view ?n v"
    using prog_run_apart [OF boot_apart [OF out(1)]] prog_run_apart [OF boot_apart [OF out(2)], of jit "ss_now s" v] runs(2) by (simp_all add: u_def)
  then have "rows_of ?n u = [r]" using rows_of_one [OF assms(5,6)] by (simp add: view_def)
  from boot_one [OF assms(3,4) this assms(7) runs(1)] uv
  obtain q where fires: "fires_of ?n t = fires_of ?n s @
      (if sd_catchup d = CAll then map (\<lambda>i. (?n, sc_next r + int i * ms)) [0..<min 100 (missed ms (sc_next r) (ss_now s))] else [])"
    and q: "rows_of ?n t = [q]" "if ss_now s < sc_next r \<or> sd_catchup d = CRunOnce then sc_next q = sc_next r else ss_now s < sc_next q \<and> sc_next q \<le> ss_now s + ms"
    by (auto simp: view_def)
  have named: "def_named defs ?n = Some d"
  proof -
    have "List.find (\<lambda>e. sd_name e = ?n) (as @ d # bs) = Some d" using out(1) by (induction as) auto
    then show ?thesis by (simp add: def_named_def split)
  qed
  have round: "fires_of ?n t' = fires_of ?n t @
        (if sc_next q \<le> now \<and> (sd_overlap d = OSkip \<longrightarrow> active_count (schedule_queue_name ?n) t = 0) then [(?n, now)] else []) \<and>
      (\<exists>q'. row_of ?n t' = Some q' \<and> sc_next q' = (if sc_next q \<le> now then now + ms else sc_next q))"
    if t': "t' = snd (prog_run (sched_round jit defs) (t\<lparr>ss_now := now\<rparr>))" for now t'
  proof -
    let ?t = "t\<lparr>ss_now := now\<rparr>"
    have same: "rows_of ?n ?t = [q]" "fires_of ?n ?t = fires_of ?n t" "active_count (schedule_queue_name ?n) ?t = active_count (schedule_queue_name ?n) t"
      using q(1) by (simp_all add: rows_of_def fires_of_def active_count_def)
    have "filter (\<lambda>r. sc_name r = ?n) (due_schedules now ?t) = filter (\<lambda>r. sc_next r \<le> now) (rows_of ?n ?t)"
      by (simp add: due_schedules_def rows_of_def conj_commute)
    then have due: "filter (\<lambda>r. sc_name r = ?n) (due_schedules now ?t) = (if sc_next q \<le> now then [q] else [])" by (simp add: same(1))
    have "next_after d now = Ok (now + ms)" using assms(3) by (simp add: next_after_def)
    from round_one [OF named this same(1) due, of jit] show ?thesis
      unfolding t' by (auto simp: sched_round_def prog_run_bind rows_of_row same)
  qed
  have "row_of ?n t = Some q" using q(1) by (simp add: rows_of_row)
  with fires q(2) round show ?thesis by blast
qed

definition demo_sched :: "catchup \<Rightarrow> sched_def" where
  "demo_sched ca = \<lparr>sd_name = ''tick'', sd_spec = ''every:1000'', sd_kind = Every 1000, sd_overlap = OAllow, sd_catchup = ca, sd_jitter = 0\<rparr>"

definition demo_rows :: sched_store where
  "demo_rows =
     \<lparr>ss_rows = [\<lparr>sc_name = ''tick'', sc_spec = ''every:1000'', sc_overlap = ''allow'', sc_catchup = ''all'', sc_next = 500, sc_last = None\<rparr>],
      ss_jobs = empty_db, ss_now = 2600, ss_claims = [], ss_fires = [], ss_rewinds = []\<rparr>"

lemma tick_fires_once_witness:
  "count_list (ss_claims (prog_prefix 8 (sched_run (\<lambda>_. 0) [demo_sched CAll] 1) demo_rows)) (''tick'', 500) \<le>
     1 + length (filter (\<lambda>(m, v). m = ''tick'' \<and> v \<le> 500) (ss_rewinds (prog_prefix 8 (sched_run (\<lambda>_. 0) [demo_sched CAll] 1) demo_rows)))"
proof -
  let ?nodes = "\<lambda>defs. defs = [demo_sched CAll]"
  have "defs_ok [demo_sched CAll]" by (simp add: defs_ok_def demo_sched_def next_after_def)
  moreover have "distinct (map sc_name (ss_rows demo_rows))" "ss_claims demo_rows = []" "ss_fires demo_rows = []" "ss_rewinds demo_rows = []"
    by (simp_all add: demo_rows_def)
  moreover have "prog_steps (sched_started ?nodes) sched_environ (demo_rows, [])
      (prog_prefix 8 (sched_run (\<lambda>_. 0) [demo_sched CAll] 1) demo_rows, [])"
    by (rule prog_steps_crashed, rule sched_started.intros, rule refl)
  ultimately show ?thesis using tick_fires_once [where nodes = ?nodes] by blast
qed

definition demo_other :: sched_def where
  "demo_other = \<lparr>sd_name = ''other'', sd_spec = ''every:50'', sd_kind = Every 50, sd_overlap = OSkip, sd_catchup = CSkip, sd_jitter = 0\<rparr>"

lemma missed_ticks_witness:
  "fires_of ''tick'' (snd (prog_run (boot (\<lambda>_. 0) [demo_other, demo_sched CAll]) demo_rows)) = [(''tick'', 500), (''tick'', 1500), (''tick'', 2500)]"
proof -
  let ?defs = "[demo_other, demo_sched CAll]"
  obtain t where run: "prog_run (boot (\<lambda>_. 0) ?defs) demo_rows = (Ok (), t)"
  proof -
    have "fst (prog_run (boot (\<lambda>_. 0) ?defs) demo_rows) = Ok ()" by code_simp
    then show thesis using that by (metis prod.collapse)
  qed
  let ?r = "\<lparr>sc_name = ''tick'', sc_spec = ''every:1000'', sc_overlap = ''allow'', sc_catchup = ''all'', sc_next = 500, sc_last = None\<rparr>"
  have "row_of (sd_name (demo_sched CAll)) demo_rows = Some ?r" by (simp add: row_of_def demo_rows_def demo_sched_def)
  from missed_ticks [OF _ _ _ _ _ this _ run, of 1000] show ?thesis
    unfolding run by (simp add: demo_sched_def demo_other_def demo_rows_def missed_def upt_rec fires_of_def)
qed

section \<open>What the scheduler does not promise\<close>

lemma boot_each_fails:
  "d \<in> set ds \<Longrightarrow> next_after d now = Throw e \<Longrightarrow> \<exists>e'. fst (prog_run (boot_each jit now ds) s) = Throw e'"
proof (induction ds arbitrary: s)
  case (Cons a ds)
  show ?case
  proof (cases "next_after a now")
    case (Inr v)
    with Cons.prems have "d \<in> set ds" by auto
    with Cons.IH [OF this Cons.prems(2)] Inr show ?thesis by (auto simp: prog_run_bind split: sum.split)
  qed simp
qed simp

text \<open>
  One schedule without a next occurrence stops the scheduler of its process: boot fails, and no round is
  run for any schedule, however long the node stays up.
\<close>

lemma one_bad_schedule_stops_all:
  assumes "d \<in> set defs" and "next_after d (ss_now s) = Throw e"
  shows "prog_run (sched_run jit defs n) s = prog_run (sched_run jit defs 0) s"
proof -
  obtain e' where "fst (prog_run (boot jit defs) s) = Throw e'"
    using boot_each_fails [OF assms, of jit s] by (auto simp: boot_def prog_run_bind)
  then show ?thesis by (simp add: sched_run_def prog_run_bind)
qed

text \<open>A node that dies between claiming a tick and firing it loses the tick: no node fires it later.\<close>

lemma crash_loses_tick:
  assumes "ss_rows s = [r]" and "sc_name r = sd_name d" and "sc_next r \<le> ss_now s" and "ss_now s < next_or_minute d (ss_now s)"
    and t: "t = prog_prefix 3 (sched_round jit [d]) s"
  shows "ss_fires t = ss_fires s" and "ss_jobs t = ss_jobs s" and "(sd_name d, sc_next r) \<in> set (ss_claims t)"
    and "due_schedules (ss_now s) t = []"
proof -
  let ?n = "next_or_minute d (ss_now s)"
  have "t = snd (claim_tick (sd_name d) (sc_next r) ?n (ss_now s) s)"
    using assms(1-3) by (simp add: t sched_round_def due_schedules_def def_named_def query_def tx_def numeral_3_eq_3)
  then have "t = s\<lparr>ss_rows := [r\<lparr>sc_next := ?n, sc_last := Some (ss_now s)\<rparr>], ss_claims := ss_claims s @ [(sd_name d, sc_next r)]\<rparr>"
    using assms(1,2) by (simp add: claim_tick_def)
  with assms(4) show "ss_fires t = ss_fires s" "ss_jobs t = ss_jobs s" "(sd_name d, sc_next r) \<in> set (ss_claims t)"
    "due_schedules (ss_now s) t = []" by (simp_all add: due_schedules_def)
qed

text \<open>
  An upsert is two statements without a transaction. A node that boots reads the schedule, another node replays
  the missed ticks, and the first then writes the time it read back and replays them once more.
\<close>

lemma stale_upsert_fires_twice:
  fixes node
  defines "node \<equiv> sched_run (\<lambda>_. 0) [demo_sched CAll] 0"
  defines "t \<equiv> snd (prog_run (prog_rest 2 node demo_rows) (snd (prog_run node (prog_prefix 2 node demo_rows))))"
  shows "ss_fires t = [(''tick'', 500), (''tick'', 1500), (''tick'', 2500), (''tick'', 500), (''tick'', 1500), (''tick'', 2500)]"
    and "ss_rewinds t = [(''tick'', 500)]" and "count_list (ss_claims t) (''tick'', 500) = 2"
  unfolding t_def node_def by (code_simp, code_simp, code_simp)

end
