(* ===== verification/Cli.thy ===== *)
theory Cli
  imports Attempt Paths
begin

text \<open>
  The command line (\<open>packages/zenzip/src/cli.ts\<close>): the choice of the command, and \<open>doctor\<close>, which inspects a
  store and prints a report. What the platform and the engine answer is given; a report is its lines.
\<close>

section \<open>The report\<close>

datatype report_line = LOk string | LWarn string | LBad string | LPlain string

record doc_queue =
  dq_queue :: string
  dq_pending :: int
  dq_running :: int
  dq_dead :: int

record doc_run =
  dr_status :: int
  dr_workflow :: string
  dr_version :: "string option"
  dr_updatedAt :: int

record doc_schedule =
  ds_name :: string
  ds_nextRunAt :: int

text \<open>
  What the doctor asks: the version of node, whether the binding loads and opens the store, the engine's
  rows, and the clock, which is read again for every run and schedule. Failures carry the message printed.
\<close>

record doctor_env =
  dc_node :: string
  dc_major :: int
  dc_native :: "(string, unit) res"
  dc_resolve :: "string \<Rightarrow> string"
  dc_exists :: "string \<Rightarrow> bool"
  dc_open :: "(string, unit) res"
  dc_queues :: "(string, doc_queue list) res"
  dc_runs :: "(string, doc_run list) res"
  dc_schedules :: "(string, doc_schedule list) res"
  dc_stop :: "(string, unit) res"
  dc_run_now :: "doc_run \<Rightarrow> int"
  dc_sched_now :: "doc_schedule \<Rightarrow> int"

definition node_lines :: "doctor_env \<Rightarrow> report_line list" where
  "node_lines e =
     (if dc_major e \<ge> 18 then [LOk (''node '' @ dc_node e)] else [LBad (''node '' @ dc_node e @ '' - zenzip needs >= 18'')])"

definition queue_lines :: "doc_queue list \<Rightarrow> report_line list" where
  "queue_lines queues =
     (let dead = sum_list (map dq_dead queues); pending = sum_list (map dq_pending queues) in
      LOk (int_str (int (length queues)) @ '' queue(s) - '' @ int_str pending @ '' pending'') #
      (if dead > 0
       then LWarn (int_str dead @ '' dead-lettered job(s):'') #
         map (\<lambda>q. LPlain (''      '' @ dq_queue q @ '': '' @ int_str (dq_dead q) @ '' (requeue via the dashboard or queue.requeueDead())''))
           (filter (\<lambda>q. dq_dead q > 0) queues)
       else [LOk ''dead-letter queues empty'']))"

text \<open>The counter array: a status outside it would only extend the array past what is read.\<close>

definition bump_status :: "doc_run \<Rightarrow> nat list \<Rightarrow> nat list" where
  "bump_status r xs =
     (if 0 \<le> dr_status r \<and> nat (dr_status r) < length xs then xs[nat (dr_status r) := xs ! nat (dr_status r) + 1] else xs)"

definition byStatus :: "doc_run list \<Rightarrow> nat list" where
  "byStatus runs = fold bump_status runs (replicate 7 0)"

definition status_names :: "string list" where
  "status_names = [''running'', ''sleeping'', ''waitingEvent'', ''waitingChild'', ''completed'', ''failed'', ''cancelled'']"

definition run_lines :: "doc_run list \<Rightarrow> report_line list" where
  "run_lines runs =
     (let by = byStatus runs in
      LOk (int_str (int (length runs)) @ '' recent run(s) - '' @
        join_with '', '' (List.map_filter (\<lambda>(n, c). if c \<noteq> 0 then Some (int_str (int c) @ '' '' @ n) else None) (zip status_names by))) #
      (if by ! 5 > 0 then [LWarn (int_str (int (by ! 5)) @ '' failed run(s) - inspect them in the dashboard'')] else []))"

definition inflight :: "doc_run list \<Rightarrow> doc_run list" where
  "inflight runs = filter (\<lambda>r. dr_status r < 4) runs"

definition version_text :: "doc_run \<Rightarrow> string" where
  "version_text r = (case dr_version r of None \<Rightarrow> ''unversioned'' | Some v \<Rightarrow> v)"

text \<open>A set keeps the order of its insertions.\<close>

definition set_add :: "'a \<Rightarrow> 'a list \<Rightarrow> 'a list" where
  "set_add x xs = (if x \<in> set xs then xs else xs @ [x])"

definition note_version :: "doc_run \<Rightarrow> (string, string list) jsmap \<Rightarrow> (string, string list) jsmap" where
  "note_version r m =
     map_set (dr_workflow r) (set_add (version_text r) (case map_get m (dr_workflow r) of Some vs \<Rightarrow> vs | None \<Rightarrow> [])) m"

definition versionsByWorkflow :: "doc_run list \<Rightarrow> (string, string list) jsmap" where
  "versionsByWorkflow runs = fold note_version runs []"

definition drifted :: "doc_run list \<Rightarrow> (string \<times> string list) list" where
  "drifted runs = filter (\<lambda>(_, vs). length vs > 1) (versionsByWorkflow (inflight runs))"

definition drift_lines :: "doc_run list \<Rightarrow> report_line list" where
  "drift_lines runs =
     (if drifted runs \<noteq> []
      then map (\<lambda>(w, vs). LWarn (''workflow '' @ [DQ] @ w @ [DQ] @ '' has in-flight runs across '' @ int_str (int (length vs)) @
             '' definition versions - keep step ids stable (see workflow versioning docs)'')) (drifted runs)
      else [LOk ''no workflow version drift among in-flight runs''])"

definition STUCK_MS :: int where
  "STUCK_MS = 5 * 60000"

definition stuck_runs :: "(doc_run \<Rightarrow> int) \<Rightarrow> doc_run list \<Rightarrow> doc_run list" where
  "stuck_runs clk runs = filter (\<lambda>r. dr_updatedAt r < clk r - STUCK_MS) (inflight runs)"

definition stuck_lines :: "(doc_run \<Rightarrow> int) \<Rightarrow> doc_run list \<Rightarrow> report_line list" where
  "stuck_lines clk runs =
     (if stuck_runs clk runs \<noteq> []
      then [LWarn (int_str (int (length (stuck_runs clk runs))) @
             '' run(s) idle >5m in a non-terminal state - orphaned (stuck or lost wakeups); inspect in the dashboard'')]
      else [LOk ''no orphaned runs''])"

definition overdue :: "(doc_schedule \<Rightarrow> int) \<Rightarrow> doc_schedule list \<Rightarrow> doc_schedule list" where
  "overdue clk ss = filter (\<lambda>s. ds_nextRunAt s < clk s - 60000) ss"

definition schedule_lines :: "(doc_schedule \<Rightarrow> int) \<Rightarrow> doc_schedule list \<Rightarrow> report_line list" where
  "schedule_lines clk ss =
     (if ss = [] then []
      else LOk (int_str (int (length ss)) @ '' schedule(s)'') #
        (if overdue clk ss \<noteq> []
         then [LWarn (int_str (int (length (overdue clk ss))) @ '' schedule(s) overdue by >1m ('' @ join_with '', '' (map ds_name (overdue clk ss)) @
                '') - is the app running?'')]
         else []))"

text \<open>The inspection of an open store: the lines printed before it ends or fails.\<close>

definition inspect :: "doctor_env \<Rightarrow> report_line list \<times> (string, unit) res" where
  "inspect e =
     (let l1 = [LOk ''store opens (schema is current)''] in
      case dc_queues e of Inl err \<Rightarrow> (l1, Throw err)
      | Inr queues \<Rightarrow>
          (let l2 = l1 @ queue_lines queues in
           case dc_runs e of Inl err \<Rightarrow> (l2, Throw err)
           | Inr runs \<Rightarrow>
               (let l3 = l2 @ run_lines runs @ drift_lines runs @ stuck_lines (dc_run_now e) runs in
                case dc_schedules e of Inl err \<Rightarrow> (l3, Throw err)
                | Inr ss \<Rightarrow> (l3 @ schedule_lines (dc_sched_now e) ss @ [LPlain []], Ok ()))))"

text \<open>\<open>Quit\<close> is \<open>process.exit\<close>; a failure of \<open>stop\<close> in the finally block replaces the one of the inspection.\<close>

datatype ending = Quit int | Finished | Failed_with string

definition doctor :: "doctor_env \<Rightarrow> string option \<Rightarrow> report_line list \<times> ending" where
  "doctor e dir =
     (let dataDir = dc_resolve e (case dir of Some d \<Rightarrow> d | None \<Rightarrow> ''.zenzip'');
          l0 = LPlain (''zenzip doctor - '' @ dataDir) # node_lines e in
      case dc_native e of
        Inl err \<Rightarrow> (l0 @ [LBad (''native binding failed to load: '' @ err)], Quit 1)
      | Inr _ \<Rightarrow>
          (let l1 = l0 @ [LOk ''native binding loads'']; db = path_join dataDir ''zenzip.db'' in
           if \<not> dc_exists e db then (l1 @ [LWarn (''no store at '' @ db @ '' - run your app once first'')], Quit 0)
           else
             (case dc_open e of
                Inl err \<Rightarrow> (l1, Failed_with err)
              | Inr _ \<Rightarrow>
                  (case inspect e of (ls, res) \<Rightarrow>
                     (l1 @ ls, (case dc_stop e of Inl err \<Rightarrow> Failed_with err
                                | Inr _ \<Rightarrow> (case res of Inl err \<Rightarrow> Failed_with err | Inr _ \<Rightarrow> Finished)))))))"

section \<open>Commands\<close>

datatype command =
    Help int
  | Dev string "string list"
  | DevUsage
  | Doctor "string option"
  | Unknown string

definition cli_command :: "string list \<Rightarrow> command" where
  "cli_command argv =
     (case argv of
        [] \<Rightarrow> Help 1
      | c # rest \<Rightarrow>
          if c = [] then Help 1
          else if c = ''--help'' \<or> c = ''-h'' then Help 0
          else if c = ''dev'' then (case rest of [] \<Rightarrow> DevUsage | f # args \<Rightarrow> if f = [] then DevUsage else Dev f args)
          else if c = ''doctor'' then Doctor (case rest of [] \<Rightarrow> None | d # _ \<Rightarrow> Some d)
          else Unknown c)"

definition dev_argv :: "string \<Rightarrow> string list \<Rightarrow> string list" where
  "dev_argv file args = ''--watch'' # file # args"

text \<open>The exit code; a command that quits nowhere leaves it at 0. \<open>child\<close> is how the watched process ended.\<close>

definition exit_code :: "doctor_env \<Rightarrow> int option \<Rightarrow> string list \<Rightarrow> int" where
  "exit_code e child argv =
     (case cli_command argv of
        Help n \<Rightarrow> n
      | DevUsage \<Rightarrow> 1
      | Dev _ _ \<Rightarrow> (case child of Some c \<Rightarrow> c | None \<Rightarrow> 0)
      | Doctor dir \<Rightarrow> (case snd (doctor e dir) of Quit n \<Rightarrow> n | Finished \<Rightarrow> 0 | Failed_with _ \<Rightarrow> 1)
      | Unknown _ \<Rightarrow> 1)"

section \<open>What the report says\<close>

definition alarming :: "report_line \<Rightarrow> bool" where
  "alarming l = (case l of LWarn _ \<Rightarrow> True | LBad _ \<Rightarrow> True | _ \<Rightarrow> False)"

lemma byStatus_count:
  "i < 7 \<Longrightarrow> byStatus runs ! i = length (filter (\<lambda>r. dr_status r = int i) runs)"
proof -
  assume i: "i < 7"
  have "length (fold bump_status runs xs) = length xs" for xs by (induction runs arbitrary: xs) (simp_all add: bump_status_def)
  have "fold bump_status runs xs ! i = xs ! i + length (filter (\<lambda>r. dr_status r = int i) runs)" if "i < length xs" for xs
    using that by (induction runs arbitrary: xs) (auto simp: bump_status_def nth_list_update)
  from this [of "replicate 7 0"] i show ?thesis by (simp add: byStatus_def)
qed

text \<open>Each workflow with the versions of its runs, each once.\<close>

lemma versions_get:
  "map_get (fold note_version runs m) w = (if \<exists>r \<in> set runs. dr_workflow r = w
     then Some (fold set_add (map version_text (filter (\<lambda>r. dr_workflow r = w) runs)) (case map_get m w of Some vs \<Rightarrow> vs | None \<Rightarrow> []))
     else map_get m w)"
  by (induction runs arbitrary: m) (auto simp: note_version_def jsmap_simps split: option.split)

lemma set_add_set: "distinct xs \<Longrightarrow> distinct (fold set_add ys xs) \<and> set (fold set_add ys xs) = set xs \<union> set ys"
  by (induction ys arbitrary: xs) (auto simp: set_add_def)

lemma versions_ok: "jsmap_ok m \<Longrightarrow> jsmap_ok (fold note_version runs m)"
  by (induction runs arbitrary: m) (auto simp: note_version_def)

text \<open>A workflow drifts exactly when two of its runs in flight carry different versions.\<close>

lemma drifted_iff:
  "(\<exists>vs. (w, vs) \<in> set (drifted runs)) \<longleftrightarrow>
     (\<exists>r \<in> set (inflight runs). \<exists>q \<in> set (inflight runs). dr_workflow r = w \<and> dr_workflow q = w \<and> version_text r \<noteq> version_text q)"
proof -
  let ?rs = "filter (\<lambda>r. dr_workflow r = w) (inflight runs)"
  let ?vs = "fold set_add (map version_text ?rs) []"
  have m: "(w, vs) \<in> set (versionsByWorkflow (inflight runs)) \<longleftrightarrow> ?rs \<noteq> [] \<and> vs = ?vs" for vs
  proof -
    have "(w, vs) \<in> set (versionsByWorkflow (inflight runs)) \<longleftrightarrow> map_get (versionsByWorkflow (inflight runs)) w = Some vs"
      using versions_ok [of "[]" "inflight runs"] unfolding versionsByWorkflow_def jsmap_ok_def by (simp add: map_of_eq_Some_iff)
    then show ?thesis by (auto simp: versionsByWorkflow_def versions_get filter_empty_conv)
  qed
  have vs: "distinct ?vs" "set ?vs = version_text ` set ?rs" using set_add_set [of "[]" "map version_text ?rs"] by auto
  have "1 < length ?vs \<longleftrightarrow> (\<exists>a \<in> set ?vs. \<exists>b \<in> set ?vs. a \<noteq> b)"
  proof -
    have "1 < length ?vs \<longleftrightarrow> 1 < card (set ?vs)" using vs(1) by (simp add: distinct_card)
    also have "\<dots> \<longleftrightarrow> (\<exists>a \<in> set ?vs. \<exists>b \<in> set ?vs. a \<noteq> b)" using card_le_Suc0_iff_eq [of "set ?vs"] by (simp add: not_le [symmetric])
    finally show ?thesis .
  qed
  then have "(\<exists>vs. (w, vs) \<in> set (drifted runs)) \<longleftrightarrow> ?rs \<noteq> [] \<and> (\<exists>a \<in> version_text ` set ?rs. \<exists>b \<in> version_text ` set ?rs. a \<noteq> b)"
    using m vs(2) by (auto simp: drifted_def)
  then show ?thesis by (auto simp: filter_empty_conv)
qed

lemma drifted_empty:
  "drifted runs = [] \<longleftrightarrow>
     (\<forall>r \<in> set (inflight runs). \<forall>q \<in> set (inflight runs). dr_workflow r = dr_workflow q \<longrightarrow> version_text r = version_text q)"
proof -
  have "drifted runs = [] \<longleftrightarrow> (\<forall>w. \<not> (\<exists>vs. (w, vs) \<in> set (drifted runs)))" by (cases "drifted runs") auto
  then show ?thesis unfolding drifted_iff by metis
qed

text \<open>What a healthy store looks like to the doctor.\<close>

definition healthy :: "doctor_env \<Rightarrow> doc_queue list \<Rightarrow> doc_run list \<Rightarrow> doc_schedule list \<Rightarrow> bool" where
  "healthy e queues runs ss \<longleftrightarrow>
     sum_list (map dq_dead queues) \<le> 0 \<and> (\<forall>r \<in> set runs. dr_status r \<noteq> 5) \<and>
     (\<forall>r \<in> set runs. \<forall>q \<in> set runs. dr_status r < 4 \<and> dr_status q < 4 \<and> dr_workflow r = dr_workflow q \<longrightarrow> version_text r = version_text q) \<and>
     (\<forall>r \<in> set runs. dr_status r < 4 \<longrightarrow> dc_run_now e r - 300000 \<le> dr_updatedAt r) \<and>
     (\<forall>s \<in> set ss. dc_sched_now e s - 60000 \<le> ds_nextRunAt s)"

lemma alarming_lines:
  "(\<exists>l \<in> set (node_lines e). alarming l) \<longleftrightarrow> dc_major e < 18"
  "(\<exists>l \<in> set (queue_lines queues). alarming l) \<longleftrightarrow> sum_list (map dq_dead queues) > 0"
  "(\<exists>l \<in> set (run_lines runs). alarming l) \<longleftrightarrow> (\<exists>r \<in> set runs. dr_status r = 5)"
  "(\<exists>l \<in> set (drift_lines runs). alarming l) \<longleftrightarrow> drifted runs \<noteq> []"
  "(\<exists>l \<in> set (stuck_lines clk runs). alarming l) \<longleftrightarrow> stuck_runs clk runs \<noteq> []"
  "(\<exists>l \<in> set (schedule_lines sclk ss). alarming l) \<longleftrightarrow> overdue sclk ss \<noteq> []"
proof -
  have "byStatus runs ! 5 > 0 \<longleftrightarrow> (\<exists>r \<in> set runs. dr_status r = 5)"
    by (subst byStatus_count) (auto simp: filter_empty_conv)
  then show "(\<exists>l \<in> set (run_lines runs). alarming l) \<longleftrightarrow> (\<exists>r \<in> set runs. dr_status r = 5)"
    by (simp add: run_lines_def alarming_def Let_def)
  show "(\<exists>l \<in> set (drift_lines runs). alarming l) \<longleftrightarrow> drifted runs \<noteq> []"
    by (cases "drifted runs") (auto simp: drift_lines_def alarming_def)
  show "(\<exists>l \<in> set (schedule_lines sclk ss). alarming l) \<longleftrightarrow> overdue sclk ss \<noteq> []"
    by (auto simp: schedule_lines_def alarming_def overdue_def)
qed (auto simp: node_lines_def queue_lines_def stuck_lines_def alarming_def Let_def)

text \<open>
  A clean report means a healthy store. The doctor ends normally without a warning exactly when node is
  recent enough, the binding loads, the store is there and opens, every query and the final stop succeed, and
  the rows show no dead job, no failed run, no workflow with runs in flight under two versions, no run in
  flight idle for more than five minutes and no schedule more than a minute late.
\<close>

theorem clean_report:
  "(snd (doctor e dir) = Finished \<and> (\<forall>l \<in> set (fst (doctor e dir)). \<not> alarming l)) =
   (18 \<le> dc_major e \<and> dc_native e = Ok () \<and>
    dc_exists e (path_join (dc_resolve e (case dir of Some d \<Rightarrow> d | None \<Rightarrow> ''.zenzip'')) ''zenzip.db'') \<and>
    dc_open e = Ok () \<and> dc_stop e = Ok () \<and>
    (\<exists>queues runs ss. dc_queues e = Ok queues \<and> dc_runs e = Ok runs \<and> dc_schedules e = Ok ss \<and> healthy e queues runs ss))"
proof -
  let ?db = "path_join (dc_resolve e (case dir of Some d \<Rightarrow> d | None \<Rightarrow> ''.zenzip'')) ''zenzip.db''"
  have calm: "(\<forall>l \<in> set ls. \<not> alarming l) = (\<not> (\<exists>l \<in> set ls. alarming l))" for ls by blast
  have plain: "alarming (LPlain t) = False" "alarming (LOk t) = False" for t by (simp_all add: alarming_def)
  have insp: "snd (inspect e) = Ok () \<and> \<not> (\<exists>l \<in> set (fst (inspect e)). alarming l) \<longleftrightarrow>
      (\<exists>queues runs ss. dc_queues e = Ok queues \<and> dc_runs e = Ok runs \<and> dc_schedules e = Ok ss \<and> healthy e queues runs ss)"
  proof (cases "\<exists>queues runs ss. dc_queues e = Ok queues \<and> dc_runs e = Ok runs \<and> dc_schedules e = Ok ss")
    case True
    then obtain queues runs ss where ok: "dc_queues e = Ok queues" "dc_runs e = Ok runs" "dc_schedules e = Ok ss" by blast
    have stuck: "stuck_runs (dc_run_now e) runs = [] \<longleftrightarrow> (\<forall>r \<in> set runs. dr_status r < 4 \<longrightarrow> dc_run_now e r - 300000 \<le> dr_updatedAt r)"
      by (auto simp: stuck_runs_def inflight_def filter_empty_conv STUCK_MS_def not_less)
    have late: "overdue (dc_sched_now e) ss = [] \<longleftrightarrow> (\<forall>s \<in> set ss. dc_sched_now e s - 60000 \<le> ds_nextRunAt s)"
      by (auto simp: overdue_def filter_empty_conv not_less)
    have drift: "drifted runs = [] \<longleftrightarrow> (\<forall>r \<in> set runs. \<forall>q \<in> set runs.
        dr_status r < 4 \<and> dr_status q < 4 \<and> dr_workflow r = dr_workflow q \<longrightarrow> version_text r = version_text q)"
      unfolding drifted_empty by (auto simp: inflight_def)
    have "(\<exists>l \<in> set (fst (inspect e)). alarming l) \<longleftrightarrow> \<not> healthy e queues runs ss"
      using alarming_lines(2) [of queues] alarming_lines(3-4) [of runs] alarming_lines(5) [of "dc_run_now e" runs]
        alarming_lines(6) [of "dc_sched_now e" ss]
      unfolding healthy_def stuck [symmetric] late [symmetric] drift [symmetric]
      by (simp add: inspect_def Let_def ok bex_Un plain) linarith
    then show ?thesis using ok by (simp add: inspect_def Let_def)
  next
    case False
    then show ?thesis by (auto simp: inspect_def Let_def split: sum.split)
  qed
  show ?thesis
  proof (cases "dc_native e = Ok () \<and> dc_exists e ?db \<and> dc_open e = Ok ()")
    case True
    then have d: "doctor e dir = (LPlain (''zenzip doctor - '' @ dc_resolve e (case dir of Some d \<Rightarrow> d | None \<Rightarrow> ''.zenzip'')) # node_lines e @
        [LOk ''native binding loads''] @ fst (inspect e),
        (case dc_stop e of Inl err \<Rightarrow> Failed_with err | Inr _ \<Rightarrow> (case snd (inspect e) of Inl err \<Rightarrow> Failed_with err | Inr _ \<Rightarrow> Finished)))"
      by (cases "inspect e") (simp add: doctor_def Let_def split: sum.split)
    have "(snd (doctor e dir) = Finished) = (dc_stop e = Ok () \<and> snd (inspect e) = Ok ())"
      unfolding d by (auto split: sum.split)
    moreover have "(\<forall>l \<in> set (fst (doctor e dir)). \<not> alarming l) = (18 \<le> dc_major e \<and> \<not> (\<exists>l \<in> set (fst (inspect e)). alarming l))"
      using alarming_lines(1) [of e] unfolding d calm by (auto simp: plain bex_Un)
    ultimately show ?thesis using True insp by blast
  next
    case False
    then have "snd (doctor e dir) \<noteq> Finished" by (auto simp: doctor_def Let_def split: sum.split prod.split)
    with False show ?thesis by blast
  qed
qed

lemma clean_report_witness:
  "let e = \<lparr>dc_node = ''20.0.0'', dc_major = 20, dc_native = Ok (), dc_resolve = (\<lambda>d. d), dc_exists = (\<lambda>_. True), dc_open = Ok (),
         dc_queues = Ok [\<lparr>dq_queue = ''mail'', dq_pending = 3, dq_running = 0, dq_dead = 0\<rparr>],
         dc_runs = Ok [\<lparr>dr_status = 1, dr_workflow = ''w'', dr_version = None, dr_updatedAt = 900000\<rparr>],
         dc_schedules = Ok [], dc_stop = Ok (), dc_run_now = (\<lambda>_. 1000000), dc_sched_now = (\<lambda>_. 1000000)\<rparr>
   in snd (doctor e None) = Finished \<and> \<not> alarming (last (fst (doctor e None)))"
proof -
  let ?e = "\<lparr>dc_node = ''20.0.0'', dc_major = 20, dc_native = Ok (), dc_resolve = (\<lambda>d. d), dc_exists = (\<lambda>_. True), dc_open = Ok (),
         dc_queues = Ok [\<lparr>dq_queue = ''mail'', dq_pending = 3, dq_running = 0, dq_dead = 0\<rparr>],
         dc_runs = Ok [\<lparr>dr_status = 1, dr_workflow = ''w'', dr_version = None, dr_updatedAt = 900000\<rparr>],
         dc_schedules = Ok [], dc_stop = Ok (), dc_run_now = (\<lambda>_. 1000000), dc_sched_now = (\<lambda>_. 1000000)\<rparr>"
  have "snd (doctor ?e None) = Finished \<and> (\<forall>l \<in> set (fst (doctor ?e None)). \<not> alarming l)"
    unfolding clean_report by (simp add: healthy_def)
  moreover have "fst (doctor ?e None) \<noteq> []" by (simp add: doctor_def Let_def split: prod.split)
  ultimately show ?thesis unfolding Let_def using last_in_set by blast
qed

text \<open>A run that sleeps or waits as it should, for more than five minutes, is reported as orphaned.\<close>

lemma sleeping_run_reported_stuck:
  "stuck_lines (\<lambda>_. 400000) [\<lparr>dr_status = 1, dr_workflow = ''w'', dr_version = None, dr_updatedAt = 0\<rparr>] =
     [LWarn (''1 run(s) idle >5m in a non-terminal state - orphaned (stuck or lost wakeups); inspect in the dashboard'')]"
  by (simp add: stuck_lines_def stuck_runs_def inflight_def STUCK_MS_def) code_simp

end
