(* ===== verification/Server.thy ===== *)
theory Server
  imports Http
begin

text \<open>
  Serving and draining (\<open>serveRouter\<close> and \<open>closeServer\<close> in \<open>packages/zenzip/src/http.ts\<close>): a server with its
  connections, and the promise of \<open>closeServer\<close> as a state machine over what may happen around it. Node's
  server is the one of the documentation: after \<open>close\<close> it accepts nothing, and calls back once its last
  connection has ended; a connection may end by itself at any time.
\<close>

section \<open>The server\<close>

text \<open>A connection is idle or serves a request; \<open>sv_sockets\<close> is what \<open>serveRouter\<close> tracks.\<close>

record server =
  sv_listening :: bool
  sv_conns :: "(nat, bool) jsmap"
  sv_sockets :: "nat list"
  sv_closing :: bool
  sv_called_back :: bool
  sv_timer :: bool
  sv_settled :: bool
  sv_resolved :: nat

definition serveRouter :: server where
  "serveRouter =
     \<lparr>sv_listening = True, sv_conns = [], sv_sockets = [], sv_closing = False, sv_called_back = False, sv_timer = False,
      sv_settled = False, sv_resolved = 0\<rparr>"

definition connected :: "server \<Rightarrow> nat \<Rightarrow> bool" where
  "connected s i \<longleftrightarrow> map_has (sv_conns s) i"

definition serving :: "server \<Rightarrow> nat \<Rightarrow> bool" where
  "serving s i \<longleftrightarrow> map_get (sv_conns s) i = Some True"

text \<open>Connections that end leave the tracked sockets by their close event.\<close>

definition keep_conns :: "(nat \<Rightarrow> bool \<Rightarrow> bool) \<Rightarrow> server \<Rightarrow> server" where
  "keep_conns P s =
     s\<lparr>sv_conns := filter (\<lambda>(i, a). P i a) (sv_conns s), sv_sockets := filter (\<lambda>i. case map_get (sv_conns s) i of Some a \<Rightarrow> P i a | None \<Rightarrow> True) (sv_sockets s)\<rparr>"

section \<open>Draining\<close>

definition settle_done :: "server \<Rightarrow> server" where
  "settle_done s =
     (if sv_settled s then s else s\<lparr>sv_settled := True, sv_timer := False, sv_resolved := sv_resolved s + 1\<rparr>)"

text \<open>\<open>closeServer\<close>: stop accepting, free the idle connections, arm the deadline.\<close>

definition closeServer :: "server \<Rightarrow> server" where
  "closeServer s = (keep_conns (\<lambda>_ active. active) (s\<lparr>sv_listening := False, sv_closing := True\<rparr>))\<lparr>sv_timer := True\<rparr>"

text \<open>At the deadline every connection is closed, by node or, on versions without that call, socket by socket.\<close>

definition force_close :: "bool \<Rightarrow> server \<Rightarrow> server" where
  "force_close has_closeAll s =
     (if has_closeAll then keep_conns (\<lambda>_ _. False) s
      else keep_conns (\<lambda>i _. i \<notin> set (sv_sockets s)) s)"

datatype server_event =
    Connect nat
  | Request nat
  | Response nat
  | Gone nat
  | Called_back
  | Deadline bool

fun server_step :: "server_event \<Rightarrow> server \<Rightarrow> server" where
  "server_step (Connect i) s =
     (if sv_listening s \<and> \<not> connected s i
      then s\<lparr>sv_conns := map_set i False (sv_conns s), sv_sockets := sv_sockets s @ [i]\<rparr> else s)"
| "server_step (Request i) s = (if connected s i then s\<lparr>sv_conns := map_set i True (sv_conns s)\<rparr> else s)"
| "server_step (Response i) s = (if connected s i then s\<lparr>sv_conns := map_set i False (sv_conns s)\<rparr> else s)"
| "server_step (Gone i) s = keep_conns (\<lambda>j _. j \<noteq> i) s"
| "server_step Called_back s =
     (if sv_closing s \<and> sv_conns s = [] \<and> \<not> sv_called_back s then settle_done (s\<lparr>sv_called_back := True\<rparr>) else s)"
| "server_step (Deadline has_closeAll) s = (if sv_timer s then settle_done (force_close has_closeAll s) else s)"

definition server_run :: "server_event list \<Rightarrow> server \<Rightarrow> server" where
  "server_run evs s = fold server_step evs s"

section \<open>What a drain guarantees\<close>

definition server_ok :: "server \<Rightarrow> bool" where
  "server_ok s \<longleftrightarrow> jsmap_ok (sv_conns s) \<and> distinct (sv_sockets s) \<and> set (sv_sockets s) = fst ` set (sv_conns s) \<and>
     (sv_closing s \<longrightarrow> \<not> sv_listening s) \<and> (sv_resolved s = (if sv_settled s then 1 else 0)) \<and>
     (sv_settled s \<longrightarrow> sv_closing s \<and> sv_conns s = []) \<and> (sv_timer s \<longrightarrow> sv_closing s) \<and>
     (sv_closing s \<longrightarrow> sv_timer s \<or> sv_settled s)"

lemma keep_conns_rows:
  assumes "jsmap_ok m" and "set ss = fst ` set m"
  shows "set (filter (\<lambda>i. case map_get m i of Some a \<Rightarrow> P i a | None \<Rightarrow> True) ss) = fst ` set (filter (\<lambda>(i, a). P i a) m)"
proof (rule set_eqI)
  fix i
  have m: "map_get m i = Some a \<longleftrightarrow> (i, a) \<in> set m" for a using assms(1) by (simp add: jsmap_ok_def map_of_eq_Some_iff)
  have ss: "i \<in> set ss \<longleftrightarrow> (\<exists>a. (i, a) \<in> set m)" unfolding assms(2) by force
  have fm: "i \<in> fst ` set (filter (\<lambda>(i, a). P i a) m) \<longleftrightarrow> (\<exists>a. (i, a) \<in> set m \<and> P i a)" by force
  show "i \<in> set (filter (\<lambda>i. case map_get m i of Some a \<Rightarrow> P i a | None \<Rightarrow> True) ss) \<longleftrightarrow> i \<in> fst ` set (filter (\<lambda>(i, a). P i a) m)"
  proof (cases "map_get m i")
    case None
    then have "\<not> (\<exists>a. (i, a) \<in> set m)" using m by simp
    then show ?thesis unfolding fm using ss by simp
  next
    case (Some b)
    then have "(i, a) \<in> set m \<longleftrightarrow> a = b" for a using m [of a] by auto
    then show ?thesis unfolding fm using ss Some by simp
  qed
qed

lemma jsmap_ok_filter: "jsmap_ok m \<Longrightarrow> jsmap_ok (filter P m)"
  by (simp add: jsmap_ok_def distinct_map_filter)

lemma server_ok_keep: "server_ok s \<Longrightarrow> server_ok (keep_conns P s)"
  using keep_conns_rows [of "sv_conns s" "sv_sockets s" P] by (auto simp: server_ok_def keep_conns_def jsmap_ok_filter)

lemma server_ok_done: "server_ok s \<Longrightarrow> sv_closing s \<Longrightarrow> sv_conns s = [] \<Longrightarrow> server_ok (settle_done s)"
  by (auto simp: server_ok_def settle_done_def)

lemma force_close_empty: "server_ok s \<Longrightarrow> sv_conns (force_close b s) = []"
proof -
  assume "server_ok s"
  then have "i \<in> set (sv_sockets s)" if "(i, a) \<in> set (sv_conns s)" for i a using that unfolding server_ok_def by force
  then show ?thesis by (auto simp: force_close_def keep_conns_def filter_empty_conv)
qed

lemma map_set_keys: "fst ` set (map_set k v m) = insert k (fst ` set m)"
  using update_keys by (metis dom_map_of_conv_image_fst dom_fun_upd map_get_set option.simps(3))

lemma server_ok_step: "server_ok s \<Longrightarrow> server_ok (server_step ev s)"
proof (cases ev)
  case (Connect i)
  assume "server_ok s"
  then show ?thesis
    using Connect by (auto simp: server_ok_def connected_def map_set_keys map_has_iff map_keys_def)
next
  case (Deadline b)
  assume ok: "server_ok s"
  have "server_ok (force_close b s)" using server_ok_keep [OF ok] by (simp add: force_close_def)
  moreover have "sv_closing (force_close b s) = sv_closing s" by (simp add: force_close_def keep_conns_def)
  ultimately show ?thesis
    using Deadline ok force_close_empty [OF ok] server_ok_done by (cases "sv_timer s") (auto simp: server_ok_def [of s])
next
  case Called_back
  assume ok: "server_ok s"
  have "server_ok (s\<lparr>sv_called_back := True\<rparr>)" using ok by (simp add: server_ok_def)
  with ok Called_back show ?thesis using server_ok_done by simp
next
  case (Request i)
  assume "server_ok s"
  then show ?thesis using Request by (auto simp: server_ok_def connected_def map_set_keys map_has_iff map_keys_def)
next
  case (Response i)
  assume "server_ok s"
  then show ?thesis using Response by (auto simp: server_ok_def connected_def map_set_keys map_has_iff map_keys_def)
qed (simp add: server_ok_keep)

lemma server_ok_run: "server_ok s \<Longrightarrow> server_ok (server_run evs s)"
  unfolding server_run_def by (induction evs arbitrary: s) (simp_all add: server_ok_step)

text \<open>A request in flight stays connected while neither its own end nor the deadline comes.\<close>

lemma in_flight_step:
  "connected s i \<Longrightarrow> ev \<noteq> Gone i \<Longrightarrow> (\<And>b. ev \<noteq> Deadline b) \<Longrightarrow> connected (server_step ev s) i"
proof (cases ev)
  case (Gone j)
  assume c: "connected s i" and "ev \<noteq> Gone i"
  then show ?thesis using Gone by (force simp: connected_def map_has_iff map_keys_def keep_conns_def)
qed (auto simp: connected_def map_has_iff map_keys_def map_set_keys settle_done_def)

lemma in_flight_run:
  "connected s i \<Longrightarrow> Gone i \<notin> set evs \<Longrightarrow> \<forall>b. Deadline b \<notin> set evs \<Longrightarrow> connected (server_run evs s) i"
proof (induction evs arbitrary: s)
  case (Cons ev evs)
  have "connected (server_step ev s) i"
    by (rule in_flight_step [OF Cons.prems(1)]) (use Cons.prems(2,3) in auto)
  from Cons.IH [OF this] Cons.prems(2,3) show ?case by (simp add: server_run_def)
qed (simp add: server_run_def)

lemma settled_step: "sv_settled s \<Longrightarrow> sv_settled (server_step ev s)"
  by (cases ev) (auto simp: keep_conns_def settle_done_def force_close_def)

lemma settled_run: "sv_settled s \<Longrightarrow> sv_settled (server_run evs s)"
  unfolding server_run_def by (induction evs arbitrary: s) (simp_all add: settled_step)

lemma closing_step: "sv_closing s \<Longrightarrow> sv_closing (server_step ev s)"
  by (cases ev) (auto simp: keep_conns_def settle_done_def force_close_def)

lemma closing_run: "sv_closing s \<Longrightarrow> sv_closing (server_run evs s)"
  unfolding server_run_def by (induction evs arbitrary: s) (simp_all add: closing_step)

lemma deadline_settles:
  assumes "server_ok s" and "sv_closing s" and "Deadline b \<in> set evs"
  shows "sv_settled (server_run evs s)"
proof -
  obtain xs ys where evs: "evs = xs @ Deadline b # ys" using assms(3) by (meson split_list)
  let ?t = "server_run xs s"
  have "server_ok ?t" "sv_closing ?t" using assms(1,2) server_ok_run closing_run by blast+
  then have "sv_settled (server_step (Deadline b) ?t)" by (auto simp: server_ok_def settle_done_def force_close_def keep_conns_def)
  from settled_run [OF this, of ys] show ?thesis by (simp add: evs server_run_def)
qed

text \<open>
  C37: Graceful drain. After \<open>closeServer\<close>, whatever arrives, answers, leaves or fires: the server accepts
  nothing new; its promise resolves at most once, and when it has, no connection is left; it has resolved
  once the deadline fired; and a connection that was serving a request is not cut before the deadline.
\<close>

theorem drain_graceful:
  assumes "server_ok s" and "sv_listening s" and "t = server_run evs (closeServer s)"
  shows "\<not> sv_listening t \<and> sv_resolved t \<le> 1 \<and> (sv_resolved t = 1 \<longrightarrow> sv_conns t = []) \<and>
    ((\<exists>b. Deadline b \<in> set evs) \<longrightarrow> sv_resolved t = 1) \<and>
    (\<forall>i. serving s i \<and> Gone i \<notin> set evs \<and> (\<forall>b. Deadline b \<notin> set evs) \<longrightarrow> connected t i)"
proof -
  have unsettled: "\<not> sv_settled s" using assms(1,2) by (auto simp: server_ok_def)
  have "server_ok (keep_conns (\<lambda>_ active. active) s)" by (rule server_ok_keep [OF assms(1)])
  then have start: "server_ok (closeServer s)" "sv_closing (closeServer s)"
    using unsettled by (simp_all add: closeServer_def server_ok_def keep_conns_def)
  have ok: "server_ok t" "sv_closing t" using start server_ok_run closing_run unfolding assms(3) by blast+
  have "connected t i" if i: "serving s i" "Gone i \<notin> set evs" "\<And>b. Deadline b \<notin> set evs" for i
  proof -
    have "(i, True) \<in> set (sv_conns s)" using i(1) unfolding serving_def by (rule map_of_SomeD)
    then have "i \<in> fst ` set (sv_conns (closeServer s))" by (force simp: closeServer_def keep_conns_def)
    then have "connected (closeServer s) i" by (simp add: connected_def map_has_iff map_keys_def)
    then show ?thesis using in_flight_run [of "closeServer s" i evs] i(2,3) assms(3) by blast
  qed
  moreover have "sv_settled t" if "Deadline b \<in> set evs" for b using deadline_settles [OF start that] assms(3) by simp
  ultimately show ?thesis using ok unfolding server_ok_def by auto
qed

lemma drain_graceful_witness:
  "let t = server_run [Connect 3, Deadline True] (closeServer (server_run [Connect 1, Connect 2, Request 1] serveRouter))
   in \<not> sv_listening t \<and> sv_resolved t = 1 \<and> sv_conns t = []"
proof -
  let ?evs = "[Connect 3, Deadline True]"
  let ?s = "server_run [Connect 1, Connect 2, Request 1] serveRouter"
  let ?t = "server_run ?evs (closeServer ?s)"
  have "server_ok serveRouter" by (simp add: server_ok_def serveRouter_def)
  then have "server_ok ?s" by (rule server_ok_run)
  moreover have "sv_listening ?s"
    by (simp add: server_run_def serveRouter_def connected_def map_has_def)
  ultimately have all: "\<not> sv_listening ?t \<and> sv_resolved ?t \<le> 1 \<and> (sv_resolved ?t = 1 \<longrightarrow> sv_conns ?t = []) \<and>
      ((\<exists>b. Deadline b \<in> set ?evs) \<longrightarrow> sv_resolved ?t = 1) \<and>
      (\<forall>i. serving ?s i \<and> Gone i \<notin> set ?evs \<and> (\<forall>b. Deadline b \<notin> set ?evs) \<longrightarrow> connected ?t i)"
    by (rule drain_graceful [OF _ _ refl])
  have "\<exists>b. Deadline b \<in> set ?evs" by auto
  with all show ?thesis unfolding Let_def by blast
qed

end
