(* ===== verification/Streaming.thy ===== *)
theory Streaming
  imports Providers
begin

text \<open>
  The streaming variant of the Anthropic provider against its plain one. The provider's documentation of the
  wire format is the specification here: the events of a message, their frames, and any way of cutting the
  frames' text into network reads. Shown: reading the stream gives the response the plain call would have
  given, and the tokens handed on are the pieces of its text in order.
\<close>

section \<open>Frames do not depend on the reads\<close>

lemma split_frames_not_Nil [simp]: "split_frames s \<noteq> []"
  by (induction s rule: split_frames.induct) (auto split: list.splits)

lemma split_frames_single: "split_frames s = [f] \<Longrightarrow> f = s"
proof (induction s arbitrary: f rule: split_frames.induct)
  case (3 c d s)
  then show ?case by (cases "split_frames (d # s)") (auto split: if_splits)
qed auto

lemma split_frames_append:
  "split_frames (a @ b) = butlast (split_frames a) @ split_frames (last (split_frames a) @ b)"
proof (induction a rule: split_frames.induct)
  case (3 c d s)
  show ?case
  proof (cases "c = CHR 0x0A \<and> d = CHR 0x0A")
    case True
    with 3(1) show ?thesis by simp
  next
    case False
    obtain f fs where f: "split_frames (d # s) = f # fs" by (cases "split_frames (d # s)") auto
    show ?thesis
    proof (cases fs)
      case Nil
      with f have "f = d # s" using split_frames_single by blast
      with False f Nil show ?thesis by auto
    next
      case (Cons g gs)
      with 3(2) [OF False] f False show ?thesis by auto
    qed
  qed
qed simp_all

lemma split_frames_last: "split_frames (last (split_frames s)) = [last (split_frames s)]"
proof (induction s rule: split_frames.induct)
  case (3 c d s)
  obtain f fs where f: "split_frames (d # s) = f # fs" by (cases "split_frames (d # s)") auto
  show ?case
  proof (cases fs)
    case Nil
    with f have "f = d # s" using split_frames_single by blast
    with 3 f Nil show ?thesis by (auto split: if_splits)
  qed (use 3 f in auto)
qed simp_all

lemma frame_events_append:
  "frame_events (xs @ ys) s =
     (case frame_events xs s of (Inl e, s') \<Rightarrow> (Throw e, s') | (Inr _, s') \<Rightarrow> frame_events ys s')"
  by (induction xs arbitrary: s) (auto split: prod.split sum.split)

lemma read_stream_frames:
  "split_frames buffer = [buffer] \<Longrightarrow> read_stream ts buffer s = frame_events (butlast (split_frames (buffer @ concat ts))) s"
proof (induction ts arbitrary: buffer s)
  case (Cons t ts)
  let ?fr = "split_frames (buffer @ t)"
  have "split_frames (buffer @ concat (t # ts)) = butlast ?fr @ split_frames (last ?fr @ concat ts)"
    using split_frames_append [of "buffer @ t" "concat ts"] by simp
  then have "butlast (split_frames (buffer @ concat (t # ts))) = butlast ?fr @ butlast (split_frames (last ?fr @ concat ts))"
    by (simp add: butlast_append)
  then show ?case
    using Cons.IH [OF split_frames_last] by (simp add: frame_events_append Let_def split: prod.split sum.split)
qed simp

section \<open>The text of an event\<close>

definition frame_of :: "jsval \<Rightarrow> string" where
  "frame_of ev = ''event: '' @ wire_str (read_prop ev ''type'') @ CHR 0x0A # ''data: '' @ json_text ev"

definition sse_text :: "jsval list \<Rightarrow> string" where
  "sse_text evs = concat (map (\<lambda>ev. frame_of ev @ [CHR 0x0A, CHR 0x0A]) evs)"

lemma split_frames_frame:
  "split_frames f = [f] \<Longrightarrow> f \<noteq> [] \<Longrightarrow> last f \<noteq> CHR 0x0A \<Longrightarrow> split_frames (f @ CHR 0x0A # CHR 0x0A # r) = f # split_frames r"
proof (induction f rule: split_frames.induct)
  case (3 c d s)
  obtain g gs where g: "split_frames (d # s) = g # gs" by (cases "split_frames (d # s)") auto
  with 3 show ?case by (auto split: if_splits)
qed auto

lemma split_frames_lines:
  "CHR 0x0A \<notin> set a \<Longrightarrow> CHR 0x0A \<notin> set b \<Longrightarrow> c \<noteq> CHR 0x0A \<Longrightarrow> split_frames (a @ CHR 0x0A # c # b) = [a @ CHR 0x0A # c # b]"
proof (induction a)
  case Nil
  have "CHR 0x0A \<notin> set x \<Longrightarrow> split_frames x = [x]" for x by (induction x rule: split_frames.induct) auto
  from this [of "c # b"] Nil show ?case by simp
next
  case (Cons x a)
  then show ?case by (cases a) auto
qed

lemma hexdigit_not_nl: "n < 16 \<Longrightarrow> hexdigit n \<noteq> CHR 0x0A"
proof
  assume n: "n < 16" and "hexdigit n = CHR 0x0A"
  then have "(of_char (hexdigit n) :: nat) = of_char CHR 0x0A" by simp
  with n show False by (auto simp: hexdigit_def split: if_splits)
qed

lemma esc_no_nl: "CHR 0x0A \<notin> set (esc c)"
proof (cases "c = CHR 0x0A")
  case True
  then show ?thesis by (simp add: esc_def DQ_def BSL_def code_def)
next
  case False
  have "CHR 0x0A \<noteq> hexdigit (code c div 16)" if "code c < 32"
    using hexdigit_not_nl [OF less_mult_imp_div_less, of "code c" 16] that by auto
  moreover have "CHR 0x0A \<noteq> hexdigit (code c mod 16)" using hexdigit_not_nl [of "code c mod 16"] by auto
  ultimately show ?thesis using False by (simp add: esc_def DQ_def BSL_def)
qed

lemma digits10_no_nl: "CHR 0x0A \<notin> set (digits10 n)"
  using digits10_digits [of "CHR 0x0A" n] by (auto simp: is_digit_def code_def)

lemma join_with_no: "x \<notin> set sep \<Longrightarrow> (\<And>y. y \<in> set xs \<Longrightarrow> x \<notin> set y) \<Longrightarrow> x \<notin> set (join_with sep xs)"
  by (induction sep xs rule: join_with.induct) auto

lemma quote_str_no_nl: "CHR 0x0A \<notin> set (quote_str s)"
  using esc_no_nl by (auto simp: quote_str_def DQ_def)

lemma json_text_no_nl: "CHR 0x0A \<notin> set (json_text v)"
proof (induction v rule: json_text.induct)
  case (6 vs)
  then show ?case using join_with_no [of "CHR 0x0A" "'',''" "map json_text vs"] by auto
next
  case (7 kvs)
  let ?f = "\<lambda>kv. quote_str (fst kv) @ '':'' @ json_text (snd kv)"
  have "CHR 0x0A \<notin> set y" if "y \<in> set (map ?f kvs)" for y
    using that 7 quote_str_no_nl by auto
  then show ?case using join_with_no [of "CHR 0x0A" "'',''" "map ?f kvs"] by auto
qed (auto simp: quote_str_no_nl digits10_no_nl int_str_def)

lemma JSON_parse_space: "json_ok v \<Longrightarrow> JSON_parse (CHR '' '' # json_text v) = Some v"
proof -
  assume "json_ok v"
  then have "parses v" by (rule json_ok_parses)
  then have "pval (Suc (Suc (length (json_text v)))) (json_text v @ []) = Some (v, [])"
    by (simp add: parses_def stops_def del: pval.simps)
  moreover have "pval (Suc n) (CHR '' '' # t) = pval (Suc n) t" for n t by (simp add: skip_ws_def json_ws_def code_def)
  ultimately show ?thesis by (simp add: JSON_parse_def skip_ws_def del: pval.simps)
qed

text \<open>A type name without a line break: what an event's own line needs.\<close>

definition event_ok :: "jsval \<Rightarrow> bool" where
  "event_ok ev \<longleftrightarrow> json_ok ev \<and> CHR 0x0A \<notin> set (wire_str (read_prop ev ''type''))"

lemma frame_of_single:
  assumes "event_ok ev"
  shows "split_frames (frame_of ev) = [frame_of ev]" "frame_of ev \<noteq> []" "last (frame_of ev) \<noteq> CHR 0x0A"
proof -
  obtain c cs where j: "json_text ev = c # cs" using json_text_hd [of ev] assms by (auto simp: event_ok_def)
  have n: "CHR 0x0A \<notin> set (''event: '' @ wire_str (read_prop ev ''type''))" "CHR 0x0A \<notin> set (''ata: '' @ json_text ev)"
    using assms json_text_no_nl [of ev] by (auto simp: event_ok_def)
  have "frame_of ev = (''event: '' @ wire_str (read_prop ev ''type'')) @ CHR 0x0A # CHR ''d'' # (''ata: '' @ json_text ev)"
    by (simp add: frame_of_def)
  moreover have "CHR ''d'' \<noteq> CHR 0x0A" by simp
  ultimately show "split_frames (frame_of ev) = [frame_of ev]" using split_frames_lines [OF n] by (simp only:)
  show "frame_of ev \<noteq> []" by (simp add: frame_of_def)
  have "last (frame_of ev) = last (json_text ev)" by (simp add: frame_of_def j)
  moreover have "last (json_text ev) \<in> set (json_text ev)" by (rule last_in_set) (simp add: j)
  moreover have "x \<noteq> CHR 0x0A" if "x \<in> set (json_text ev)" for x using that json_text_no_nl [of ev] by blast
  ultimately show "last (frame_of ev) \<noteq> CHR 0x0A" by (simp only: not_False_eq_True)
qed

lemma split_sse_text:
  assumes "\<forall>ev \<in> set evs. event_ok ev"
  shows "split_frames (sse_text evs) = map frame_of evs @ [[]]"
  using assms
proof (induction evs)
  case (Cons ev evs)
  then have "split_frames (frame_of ev @ CHR 0x0A # CHR 0x0A # sse_text evs) = frame_of ev # split_frames (sse_text evs)"
    by (intro split_frames_frame frame_of_single) auto
  with Cons show ?case by (simp add: sse_text_def)
qed (simp add: sse_text_def)

lemma frame_event_of:
  assumes "event_ok ev"
  shows "frame_event (frame_of ev) s = stream_event ev s"
proof -
  let ?a = "''event: '' @ wire_str (read_prop ev ''type'')" and ?b = "''data: '' @ json_text ev"
  have n: "CHR 0x0A \<notin> set ?a" "CHR 0x0A \<notin> set ?b" using assms json_text_no_nl [of ev] by (auto simp: event_ok_def)
  have "frame_of ev = ?a @ CHR 0x0A # ?b" by (simp add: frame_of_def)
  then have "split_on (CHR 0x0A) (frame_of ev) = [?a, ?b]"
    using split_on_append [OF n(1), of ?b] split_on_no_sep [OF n(2)] by (simp only:)
  then have "find (\<lambda>l. startsWith l ''data:'') (split_on (CHR 0x0A) (frame_of ev)) = Some ?b"
    by (simp add: startsWith_iff)
  moreover have "JSON_parse (drop 5 ?b) = Some ev" using JSON_parse_space assms by (simp add: event_ok_def)
  ultimately show ?thesis by (simp add: frame_event_def)
qed

fun stream_events :: "jsval list \<Rightarrow> stream_state \<Rightarrow> (exn, unit) res \<times> stream_state" where
  "stream_events [] s = (Ok (), s)"
| "stream_events (ev # evs) s =
     (case stream_event ev s of (Inl e, s') \<Rightarrow> (Throw e, s') | (Inr _, s') \<Rightarrow> stream_events evs s')"

lemma frame_events_of: "\<forall>ev \<in> set evs. event_ok ev \<Longrightarrow> frame_events (map frame_of evs) s = stream_events evs s"
  by (induction evs arbitrary: s) (auto simp: frame_event_of split: prod.split sum.split)

lemma read_stream_events:
  assumes "\<forall>ev \<in> set evs. event_ok ev" and "concat ts = sse_text evs"
  shows "read_stream ts [] s = stream_events evs s"
  using read_stream_frames [of "[]" ts s] assms by (simp add: split_sse_text frame_events_of)

section \<open>The events of a message\<close>

text \<open>
  A message as the provider cuts it: a text in pieces, or a tool use with the pieces of its input's JSON; no
  pieces stand for the empty input.
\<close>

datatype cut_block = CutText "string list" | CutTool string string jsval "string list"

fun cut_ok :: "cut_block \<Rightarrow> bool" where
  "cut_ok (CutText ps) = True"
| "cut_ok (CutTool i n v ps) = (json_ok v \<and> (if concat ps = [] then v = JObj [] else concat ps = json_text v))"

fun whole_block :: "cut_block \<Rightarrow> llm_content" where
  "whole_block (CutText ps) = TextPart (concat ps)"
| "whole_block (CutTool i n v ps) = ToolUse i n v"

fun first_block :: "cut_block \<Rightarrow> jsval" where
  "first_block (CutText ps) = anthropic_block (TextPart [])"
| "first_block (CutTool i n v ps) = anthropic_block (ToolUse i n (JObj []))"

fun cut_deltas :: "cut_block \<Rightarrow> jsval list" where
  "cut_deltas (CutText ps) = map (\<lambda>p. JObj [(''type'', JStr ''text_delta''), (''text'', JStr p)]) ps"
| "cut_deltas (CutTool i n v ps) = map (\<lambda>p. JObj [(''type'', JStr ''input_json_delta''), (''partial_json'', JStr p)]) ps"

fun cut_tokens :: "cut_block \<Rightarrow> string list" where
  "cut_tokens (CutText ps) = ps"
| "cut_tokens (CutTool i n v ps) = []"

definition indexed :: "string \<Rightarrow> nat \<Rightarrow> (string \<times> jsval) list \<Rightarrow> jsval" where
  "indexed ty i more_fields = JObj ([(''type'', JStr ty), (''index'', JNum (int i))] @ more_fields)"

definition block_events :: "nat \<Rightarrow> cut_block \<Rightarrow> jsval list" where
  "block_events i b =
     [indexed ''content_block_start'' i [(''content_block'', first_block b)]] @
     map (\<lambda>d. indexed ''content_block_delta'' i [(''delta'', d)]) (cut_deltas b) @
     [indexed ''content_block_stop'' i []]"

fun blocks_events :: "nat \<Rightarrow> cut_block list \<Rightarrow> jsval list" where
  "blocks_events i [] = []"
| "blocks_events i (b # bs) = block_events i b @ blocks_events (Suc i) bs"

definition start_event :: "int \<Rightarrow> jsval" where
  "start_event n = JObj [(''type'', JStr ''message_start''), (''message'', JObj [(''usage'', JObj [(''input_tokens'', JNum n)])])]"

definition delta_event :: "string \<Rightarrow> int \<Rightarrow> jsval" where
  "delta_event stop n = JObj [(''type'', JStr ''message_delta''), (''delta'', JObj [(''stop_reason'', JStr stop)]),
     (''usage'', JObj [(''output_tokens'', JNum n)])]"

definition stop_event :: jsval where
  "stop_event = JObj [(''type'', JStr ''message_stop'')]"

definition message_events :: "cut_block list \<Rightarrow> string \<Rightarrow> llm_usage \<Rightarrow> jsval list" where
  "message_events bs stop u = start_event (inputTokens u) # blocks_events 0 bs @ [delta_event stop (outputTokens u), stop_event]"

text \<open>The same message in one piece.\<close>

definition whole_message :: "cut_block list \<Rightarrow> string \<Rightarrow> llm_usage \<Rightarrow> jsval" where
  "whole_message bs stop u =
     JObj [(''content'', JArr (map (anthropic_block \<circ> whole_block) bs)), (''stop_reason'', JStr stop),
       (''usage'', JObj [(''input_tokens'', JNum (inputTokens u)), (''output_tokens'', JNum (outputTokens u))])]"

section \<open>Accumulation\<close>

lemma stream_events_append:
  "stream_events (xs @ ys) s =
     (case stream_events xs s of (Inl e, s') \<Rightarrow> (Throw e, s') | (Inr _, s') \<Rightarrow> stream_events ys s')"
  by (induction xs arbitrary: s) (auto split: prod.split sum.split)

lemma set_hole_snoc [simp]: "set_hole (length xs) v (xs @ [x]) = xs @ [Some v]" "set_hole (length xs) v xs = xs @ [Some v]"
  by (simp_all add: set_hole_def)

lemma get_hole_snoc [simp]: "get_hole (length xs) (xs @ [x]) = x"
  by (simp add: get_hole_def)

lemmas event_simps = indexed_def stream_event_def prop_exn_def get_prop_def read_prop_def event_index_def obj_fields_def

lemma text_deltas:
  "stream_events (map (\<lambda>d. indexed ''content_block_delta'' (length xs) [(''delta'', d)]) (cut_deltas (CutText ps)))
     (s\<lparr>ss_blocks := xs @ [Some ([(''type'', JStr ''text''), (''text'', JStr t)], pj)]\<rparr>) =
   (Ok (), s\<lparr>ss_blocks := xs @ [Some ([(''type'', JStr ''text''), (''text'', JStr (t @ concat ps))], pj)],
             ss_tokens := ss_tokens s @ map JStr ps\<rparr>)"
proof (induction ps arbitrary: s t)
  case (Cons p ps)
  from Cons [where s = "s\<lparr>ss_tokens := ss_tokens s @ [JStr p]\<rparr>" and t = "t @ p"] show ?case
    by (cases s) (simp add: event_simps block_delta_def or_default_def nullish_def Let_def)
qed simp

lemma tool_deltas:
  "stream_events (map (\<lambda>d. indexed ''content_block_delta'' (length xs) [(''delta'', d)]) (cut_deltas (CutTool i n v ps)))
     (s\<lparr>ss_blocks := xs @ [Some (b, pj)]\<rparr>) =
   (Ok (), s\<lparr>ss_blocks := xs @ [Some (b, pj @ concat ps)]\<rparr>)"
proof (induction ps arbitrary: pj)
  case (Cons p ps)
  from Cons [of "pj @ p"] show ?case by (simp add: event_simps block_delta_def Let_def)
qed simp

lemma block_done:
  assumes "cut_ok b"
  shows "\<exists>pj. stream_events (block_events (length (ss_blocks s)) b) s =
    (Ok (), s\<lparr>ss_blocks := ss_blocks s @ [Some (obj_fields (anthropic_block (whole_block b)), pj)],
              ss_tokens := ss_tokens s @ map JStr (cut_tokens b)\<rparr>)"
proof (cases b)
  case (CutText ps)
  then show ?thesis
    using text_deltas [where xs = "ss_blocks s" and ps = ps and s = s and t = "[]" and pj = "[]"]
    by (auto simp: block_events_def stream_events_append event_simps block_stop_def)
next
  case (CutTool i n v ps)
  have "JSON_parse (json_text v) = Some v" using assms CutTool by (intro JSON_parse_text) simp
  then show ?thesis
    using CutTool assms tool_deltas [where xs = "ss_blocks s" and i = i and n = n and v = v and ps = ps and s = s
        and b = "obj_fields (anthropic_block (ToolUse i n (JObj [])))" and pj = "[]"]
    by (auto simp: block_events_def stream_events_append event_simps block_stop_def split: if_splits)
qed

lemma blocks_done:
  assumes "list_all cut_ok bs"
  shows "\<exists>ys. stream_events (blocks_events (length (ss_blocks s)) bs) s =
      (Ok (), s\<lparr>ss_blocks := ss_blocks s @ map Some ys, ss_tokens := ss_tokens s @ map JStr (concat (map cut_tokens bs))\<rparr>) \<and>
    map (\<lambda>(b, pj). JObj b) ys = map (anthropic_block \<circ> whole_block) bs"
  using assms
proof (induction bs arbitrary: s)
  case (Cons b bs)
  then obtain pj where b: "stream_events (block_events (length (ss_blocks s)) b) s =
      (Ok (), s\<lparr>ss_blocks := ss_blocks s @ [Some (obj_fields (anthropic_block (whole_block b)), pj)],
                ss_tokens := ss_tokens s @ map JStr (cut_tokens b)\<rparr>)"
    using block_done [of b s] by auto
  let ?s = "s\<lparr>ss_blocks := ss_blocks s @ [Some (obj_fields (anthropic_block (whole_block b)), pj)],
              ss_tokens := ss_tokens s @ map JStr (cut_tokens b)\<rparr>"
  from Cons obtain ys where ys: "stream_events (blocks_events (length (ss_blocks ?s)) bs) ?s =
      (Ok (), ?s\<lparr>ss_blocks := ss_blocks ?s @ map Some ys, ss_tokens := ss_tokens ?s @ map JStr (concat (map cut_tokens bs))\<rparr>)"
    and m: "map (\<lambda>(b, pj). JObj b) ys = map (anthropic_block \<circ> whole_block) bs"
    by fastforce
  have "JObj (obj_fields (anthropic_block (whole_block b))) = anthropic_block (whole_block b)"
    by (cases b) (simp_all add: obj_fields_def)
  with b ys m show ?case
    by (intro exI [of _ "(obj_fields (anthropic_block (whole_block b)), pj) # ys"]) (simp add: stream_events_append)
qed (auto intro: exI [of _ "[]"])

section \<open>The two calls agree\<close>

lemma json_ok_anthropic_block: "json_ok (anthropic_block c) \<longleftrightarrow> (case c of ToolUse i n v \<Rightarrow> json_ok v | _ \<Rightarrow> True)"
  by (cases c) auto

lemma json_ok_whole: "cut_ok b \<Longrightarrow> json_ok (anthropic_block (whole_block b))"
  by (cases b) (simp_all add: json_ok_anthropic_block)

lemma json_ok_first: "json_ok (first_block b)"
  by (cases b) (simp_all add: json_ok_anthropic_block)

lemma json_ok_deltas: "d \<in> set (cut_deltas b) \<Longrightarrow> json_ok d"
  by (cases b) auto

lemma block_events_ok: "ev \<in> set (block_events i b) \<Longrightarrow> event_ok ev"
  using json_ok_deltas json_ok_first
  by (auto simp: block_events_def event_ok_def indexed_def read_prop_def get_prop_def wire_str_def)

lemma blocks_events_ok: "ev \<in> set (blocks_events i bs) \<Longrightarrow> event_ok ev"
  by (induction bs arbitrary: i) (auto dest: block_events_ok)

lemma message_events_ok: "\<forall>ev \<in> set (message_events bs stop u). event_ok ev"
proof -
  have "event_ok (start_event m)" "event_ok (delta_event stop m)" "event_ok stop_event" for m
    by (simp_all add: event_ok_def start_event_def delta_event_def stop_event_def read_prop_def get_prop_def wire_str_def)
  then show ?thesis using blocks_events_ok by (auto simp: message_events_def)
qed

lemma from_block: "fromAnthropicContent (map (anthropic_block \<circ> whole_block) bs) = Ok (map whole_block bs)"
proof (induction bs)
  case (Cons b bs)
  then show ?case
    by (cases b) (simp_all add: prop_exn_def get_prop_def read_prop_def block_content_def is_text_def wire_str_def)
qed simp

lemma whole_message_read:
  assumes "list_all cut_ok bs"
  shows "rbind (parse_exn (json_text (whole_message bs stop u))) anthropic_response =
    Ok \<lparr>r_content = map whole_block bs, r_stopReason = mapStopReason (JStr stop), r_usage = u\<rparr>"
proof -
  have "json_ok (whole_message bs stop u)"
    using assms json_ok_whole by (auto simp: whole_message_def list_all_iff)
  then have "parse_exn (json_text (whole_message bs stop u)) = Ok (whole_message bs stop u)"
    by (simp add: parse_exn_def JSON_parse_text)
  then show ?thesis
    by (simp add: whole_message_def anthropic_response_def prop_exn_def get_prop_def read_prop_def wire_list_def wire_int_def from_block)
qed

lemma message_streamed:
  assumes "list_all cut_ok bs"
  shows "\<exists>s. stream_events (message_events bs stop u) stream_start = (Ok (), s) \<and>
    stream_response s = Ok \<lparr>r_content = map whole_block bs, r_stopReason = mapStopReason (JStr stop), r_usage = u\<rparr> \<and>
    ss_tokens s = map JStr (concat (map cut_tokens bs))"
proof -
  let ?s = "stream_start\<lparr>ss_input := JNum (inputTokens u)\<rparr>"
  have start: "stream_event (start_event (inputTokens u)) stream_start = (Ok (), ?s)"
    by (simp add: event_simps start_event_def or_default_def nullish_def)
  obtain ys where ys: "stream_events (blocks_events 0 bs) ?s =
      (Ok (), ?s\<lparr>ss_blocks := map Some ys, ss_tokens := map JStr (concat (map cut_tokens bs))\<rparr>)"
    and m: "map (\<lambda>(b, pj). JObj b) ys = map (anthropic_block \<circ> whole_block) bs"
    using blocks_done [OF assms, of ?s] by (auto simp: stream_start_def)
  have "List.map_filter id (map Some ys) = ys" by (induction ys) (auto simp: List.map_filter_simps)
  with start ys m show ?thesis
    by (simp add: message_events_def stream_events_append event_simps delta_event_def stop_event_def or_default_def nullish_def
        stream_response_def from_block wire_int_def)
qed

text \<open>
  C39: streaming gives the same response. Whatever message the provider sends, however it cuts its texts and tool
  inputs into events and the network cuts the events into reads, the streaming call of the Anthropic adapter
  returns the response that the plain call returns for the whole message, and it hands on the pieces of its
  text, in order.
\<close>

theorem streaming_agrees:
  assumes "list_all cut_ok bs" and "concat reads = sse_text (message_events bs stop u)"
    and "some_text (an_apiKey o') = Some k"
    and "\<forall>p. fst (post p w) = Ok \<lparr>ha_ok = True, ha_status = 200, ha_text = t, ha_reads = Some reads\<rparr>"
    and "\<forall>p. fst (post' p w) = Ok \<lparr>ha_ok = True, ha_status = 200, ha_text = Ok (json_text (whole_message bs stop u)), ha_reads = r\<rparr>"
  shows "fst (anthropic_stream post o' q w) = (fst (anthropic_complete post' o' q w), map JStr (concat (map cut_tokens bs))) \<and>
    fst (anthropic_complete post' o' q w) =
      Ok \<lparr>r_content = map whole_block bs, r_stopReason = mapStopReason (JStr stop), r_usage = u\<rparr>"
proof -
  obtain s where s: "read_stream reads [] stream_start = (Ok (), s)"
    "stream_response s = Ok \<lparr>r_content = map whole_block bs, r_stopReason = mapStopReason (JStr stop), r_usage = u\<rparr>"
    "ss_tokens s = map JStr (concat (map cut_tokens bs))"
    using message_streamed [OF assms(1), of stop u] read_stream_events [OF message_events_ok assms(2)] by metis
  have p: "\<exists>hp. anthropic_post o' body = Ok hp" for body
    using assms(3) by (simp add: anthropic_post_def anthropic_headers_def)
  obtain hp where hp: "anthropic_post o' (buildBody q) = Ok hp" using p by blast
  obtain n w' where c: "post' hp w =
      (Ok \<lparr>ha_ok = True, ha_status = 200, ha_text = Ok (json_text (whole_message bs stop u)), ha_reads = r\<rparr>, n, w')"
    using assms(5) by (metis prod.collapse)
  obtain sp where sp: "anthropic_post o' (buildBody q @ [(''stream'', JBool True)]) = Ok sp" using p by blast
  obtain n2 w2 where d: "post sp w = (Ok \<lparr>ha_ok = True, ha_status = 200, ha_text = t, ha_reads = Some reads\<rparr>, n2, w2)"
    using assms(4) by (metis prod.collapse)
  show ?thesis
    using whole_message_read [OF assms(1), of stop u] s
    by (simp add: anthropic_complete_def anthropic_stream_def post_json_def hp c sp d)
qed

text \<open>A text in two pieces and a tool use, its frames cut in the middle.\<close>

definition cut_demo :: "cut_block list" where
  "cut_demo = [CutText [''Let me '', ''look.''], CutTool ''t1'' ''find'' (JObj [(''q'', JStr ''x'')]) [take 4 (json_text (JObj [(''q'', JStr ''x'')])), drop 4 (json_text (JObj [(''q'', JStr ''x'')]))]]"

definition demo_sse :: string where
  "demo_sse = sse_text (message_events cut_demo ''tool_use'' \<lparr>inputTokens = 12, outputTokens = 7\<rparr>)"

definition demo_answer :: "string list option \<Rightarrow> http_answer" where
  "demo_answer reads =
     \<lparr>ha_ok = True, ha_status = 200, ha_text = Ok (json_text (whole_message cut_demo ''tool_use'' \<lparr>inputTokens = 12, outputTokens = 7\<rparr>)),
      ha_reads = reads\<rparr>"

theorem streaming_agrees_witness:
  "fst (anthropic_stream (\<lambda>p w. (Ok (demo_answer (Some [take 101 demo_sse, drop 101 demo_sse])), 1, w + (1::int)))
      \<lparr>an_apiKey = Some ''k'', an_baseUrl = None, an_version = None\<rparr>
      \<lparr>lr_model = ''m'', lr_system = None, lr_messages = [], lr_tools = None, lr_maxTokens = None, lr_temperature = None\<rparr> 0) =
   (Ok \<lparr>r_content = [TextPart ''Let me look.'', ToolUse ''t1'' ''find'' (JObj [(''q'', JStr ''x'')])], r_stopReason = ''toolUse'',
        r_usage = \<lparr>inputTokens = 12, outputTokens = 7\<rparr>\<rparr>, [JStr ''Let me '', JStr ''look.''])"
proof -
  have ok: "list_all cut_ok cut_demo" by code_simp
  have reads: "concat [take 101 demo_sse, drop 101 demo_sse] = demo_sse" by simp
  have k: "some_text (an_apiKey \<lparr>an_apiKey = Some ''k'', an_baseUrl = None, an_version = None\<rparr>) = Some ''k''"
    by (simp add: some_text_def)
  show ?thesis
    using streaming_agrees [OF ok reads [unfolded demo_sse_def] k,
        where post = "\<lambda>p w. (Ok (demo_answer (Some [take 101 demo_sse, drop 101 demo_sse])), 1, w + (1::int))"
          and post' = "\<lambda>p w. (Ok (demo_answer None), 1, w + (1::int))" and w = 0]
    by (simp add: demo_answer_def demo_sse_def cut_demo_def mapStopReason_def)
qed

end
