(* ===== verification/Fetch.thy ===== *)
theory Fetch
  imports Http
begin

text \<open>
  The Web Fetch adapter (\<open>packages/zenzip/src/fetch.ts\<close>): a stand-in for the platform's server response that
  collects what a handler does to it and becomes a \<open>Response\<close> at the end. Shown: for a handler that does not
  change the status after the headers went out, the \<open>Response\<close> is what a node server would have put on the
  wire. Findings: a status set too late is honoured here and not there, several cookies become one header, a status
  node accepts and \<open>Response\<close> does not leaves the request without an answer, and HEAD is answered with a body.
  Names and values of headers are taken to be valid.
\<close>

section \<open>What a handler does to a response\<close>

text \<open>A header value is a text or a list of texts; \<open>writeHead\<close> takes texts.\<close>

datatype header_value = HOne string | HMany "string list"

datatype raw_op =
    RStatus int
  | RSetHeader string header_value
  | RRemoveHeader string
  | RWriteHead int "(string \<times> string) list"
  | RWrite string

section \<open>The stand-in\<close>

record shim =
  sh_status :: int
  sh_headersSent :: bool
  sh_headers :: "(string, string) jsmap"
  sh_chunks :: "string list"

definition new_shim :: shim where
  "new_shim = \<lparr>sh_status = 200, sh_headersSent = False, sh_headers = [], sh_chunks = []\<rparr>"

fun header_text :: "header_value \<Rightarrow> string" where
  "header_text (HOne v) = v"
| "header_text (HMany vs) = join_with '', '' vs"

fun shim_step :: "raw_op \<Rightarrow> shim \<Rightarrow> shim" where
  "shim_step (RStatus sc) s = s\<lparr>sh_status := sc\<rparr>"
| "shim_step (RSetHeader name v) s = s\<lparr>sh_headers := map_set (toLowerCase name) (header_text v) (sh_headers s)\<rparr>"
| "shim_step (RRemoveHeader name) s = s\<lparr>sh_headers := map_delete (toLowerCase name) (sh_headers s)\<rparr>"
| "shim_step (RWriteHead sc hs) s =
     s\<lparr>sh_status := sc, sh_headers := fold (\<lambda>(k, v). map_set (toLowerCase k) v) hs (sh_headers s), sh_headersSent := True\<rparr>"
| "shim_step (RWrite t) s = s\<lparr>sh_headersSent := True, sh_chunks := sh_chunks s @ [t]\<rparr>"

definition shim_getHeader :: "string \<Rightarrow> shim \<Rightarrow> string option" where
  "shim_getHeader name s = map_get (sh_headers s) (toLowerCase name)"

record fetch_response =
  fp_status :: int
  fp_headers :: "(string, string) jsmap"
  fp_body :: "string option"

definition null_status :: "int list" where
  "null_status = [204, 205, 304]"

text \<open>
  \<open>new Response\<close>: the status is read as an unsigned short and must be in \<open>200 .. 599\<close>. What it throws is thrown by
  the listener of \<open>finish\<close>, so the promise is then never settled.
\<close>

definition status_range_error :: thrown where
  "status_range_error = plain_error ''RangeError'' ''init[status] must be in the range of 200 to 599, inclusive.''"

definition new_Response :: "string option \<Rightarrow> int \<Rightarrow> (string, string) jsmap \<Rightarrow> (thrown, fetch_response) res" where
  "new_Response body status headers =
     (let sc = status mod 65536
      in if sc < 200 \<or> 599 < sc then Throw status_range_error else Ok \<lparr>fp_status = sc, fp_headers = headers, fp_body = body\<rparr>)"

definition finalize :: "shim \<Rightarrow> (thrown, fetch_response) res" where
  "finalize s =
     (let body = concat (sh_chunks s); nullBody = (body = [] \<or> sh_status s \<in> set null_status)
      in new_Response (if nullBody then None else Some body) (sh_status s) (sh_headers s))"

text \<open>A handler's operations and then \<open>end(data)\<close>.\<close>

definition shim_end :: "string \<Rightarrow> shim \<Rightarrow> shim" where
  "shim_end data s = (if data = [] then s\<lparr>sh_headersSent := True\<rparr> else shim_step (RWrite data) s)"

definition fetch_respond :: "raw_op list \<Rightarrow> string \<Rightarrow> (thrown, fetch_response) res" where
  "fetch_respond ops data = finalize (shim_end data (fold shim_step ops new_shim))"

section \<open>The adapter\<close>

record fetch_request =
  fr_method :: string
  fr_pathname :: string
  fr_search :: string
  fr_headers :: "(string, string) jsmap"
  fr_body :: "string option"

definition request_bytes :: "fetch_request \<Rightarrow> string" where
  "request_bytes r =
     (if fr_method r = ''GET'' \<or> fr_method r = ''HEAD'' then [] else case fr_body r of None \<Rightarrow> [] | Some b \<Rightarrow> b)"

text \<open>The request as the node handler sees it; \<open>search\<close> reads the query string.\<close>

definition incoming :: "(string \<Rightarrow> (string \<times> string) list) \<Rightarrow> fetch_request \<Rightarrow> request" where
  "incoming search r =
     \<lparr>rq_method = fr_method r, rq_path = fr_pathname r, rq_query = parseQuery (search (fr_search r)), rq_params = [],
      rq_body = JUndef, rq_headers = fr_headers r, rq_remote = None, rq_props = []\<rparr>"

definition fresh_exchange :: "int \<Rightarrow> request \<Rightarrow> exchange" where
  "fresh_exchange now req =
     \<lparr>ex_req = req, ex_res = \<lparr>rs_status = 200, rs_headers = [], rs_sent = False, rs_body = []\<rparr>, ex_now = now,
      ex_buckets = [], ex_log = [], ex_unhandled = False\<rparr>"

text \<open>The promise of a handler that never answers, or whose answer is no \<open>Response\<close>, is never settled.\<close>

definition response_of :: "response \<Rightarrow> fetch_response option" where
  "response_of r =
     (if rs_sent r
      then (case finalize \<lparr>sh_status = rs_status r, sh_headersSent = True, sh_headers = rs_headers r, sh_chunks = [rs_body r]\<rparr> of
              Inl e \<Rightarrow> None
            | Inr response \<Rightarrow> Some response)
      else None)"

definition makeFetchHandler ::
  "(string \<Rightarrow> (string \<times> string) list) \<Rightarrow> (string \<Rightarrow> string option) \<Rightarrow> route_handler http_router \<Rightarrow> (exchange, thrown) handler layer list
     \<Rightarrow> int \<Rightarrow> fetch_request \<Rightarrow> fetch_response option" where
  "makeFetchHandler search dec router layers now r =
     response_of (ex_res (nodeHandler dec router layers (request_bytes r) (fresh_exchange now (incoming search r))))"

section \<open>The platform's response\<close>

text \<open>
  What node puts on the wire: the status and headers at the moment the head goes out, by \<open>writeHead\<close>, the first
  \<open>write\<close> or \<open>end\<close>, if the status has three digits; touching headers after that throws. There is no body to a
  HEAD request, nor with a status that has none.
\<close>

record node_res =
  nr_status :: int
  nr_headers :: "(string, header_value) jsmap"
  nr_wire :: "(int \<times> (string, header_value) jsmap) option"
  nr_chunks :: "string list"

definition new_node :: node_res where
  "new_node = \<lparr>nr_status = 200, nr_headers = [], nr_wire = None, nr_chunks = []\<rparr>"

definition invalid_status :: "int \<Rightarrow> thrown" where
  "invalid_status sc =
     ErrorObj \<lparr>err_name = ''RangeError'', err_message = ''Invalid status code: '' @ int_str sc,
       err_status = None, err_statusCode = None, err_code = Some ''ERR_HTTP_INVALID_STATUS_CODE''\<rparr>"

definition send_head :: "node_res \<Rightarrow> (thrown, node_res) res" where
  "send_head n =
     (case nr_wire n of
        Some _ \<Rightarrow> Ok n
      | None \<Rightarrow> if nr_status n < 100 \<or> 999 < nr_status n then Throw (invalid_status (nr_status n))
                else Ok (n\<lparr>nr_wire := Some (nr_status n, nr_headers n)\<rparr>))"

definition before_head :: "node_res \<Rightarrow> (thrown, node_res) res \<Rightarrow> (thrown, node_res) res" where
  "before_head n r = (if nr_wire n \<noteq> None then Throw headers_sent_error else r)"

fun node_step :: "raw_op \<Rightarrow> node_res \<Rightarrow> (thrown, node_res) res" where
  "node_step (RStatus sc) n = Ok (n\<lparr>nr_status := sc\<rparr>)"
| "node_step (RSetHeader name v) n = before_head n (Ok (n\<lparr>nr_headers := map_set (toLowerCase name) v (nr_headers n)\<rparr>))"
| "node_step (RRemoveHeader name) n = before_head n (Ok (n\<lparr>nr_headers := map_delete (toLowerCase name) (nr_headers n)\<rparr>))"
| "node_step (RWriteHead sc hs) n =
     before_head n (send_head (n\<lparr>nr_status := sc, nr_headers := fold (\<lambda>(k, v). map_set (toLowerCase k) (HOne v)) hs (nr_headers n)\<rparr>))"
| "node_step (RWrite t) n = rbind (send_head n) (\<lambda>n'. Ok (n'\<lparr>nr_chunks := nr_chunks n @ [t]\<rparr>))"

fun node_run :: "raw_op list \<Rightarrow> node_res \<Rightarrow> (thrown, node_res) res" where
  "node_run [] n = Ok n"
| "node_run (x # xs) n = rbind (node_step x n) (node_run xs)"

definition no_body :: "string \<Rightarrow> int \<Rightarrow> bool" where
  "no_body meth sc \<longleftrightarrow> meth = ''HEAD'' \<or> sc = 204 \<or> sc = 304 \<or> sc < 200"

record wire =
  wi_status :: int
  wi_headers :: "(string, header_value) jsmap"
  wi_body :: string

definition node_respond :: "string \<Rightarrow> raw_op list \<Rightarrow> string \<Rightarrow> (thrown, wire) res" where
  "node_respond meth ops data =
     rbind (node_run ops new_node) (\<lambda>n.
     rbind (send_head n) (\<lambda>n'.
       case nr_wire n' of
         Some (sc, hs) \<Rightarrow> Ok \<lparr>wi_status = sc, wi_headers = hs, wi_body = (if no_body meth sc then [] else concat (nr_chunks n) @ data)\<rparr>
       | None \<Rightarrow> Throw headers_sent_error))"

section \<open>The same answer\<close>

text \<open>No status is assigned once the head is out.\<close>

fun status_in_time :: "bool \<Rightarrow> raw_op list \<Rightarrow> bool" where
  "status_in_time sent [] \<longleftrightarrow> True"
| "status_in_time sent (RStatus sc # xs) \<longleftrightarrow> \<not> sent \<and> status_in_time sent xs"
| "status_in_time sent (RWriteHead sc hs # xs) \<longleftrightarrow> status_in_time True xs"
| "status_in_time sent (RWrite t # xs) \<longleftrightarrow> status_in_time True xs"
| "status_in_time sent (_ # xs) \<longleftrightarrow> status_in_time sent xs"

definition joined :: "(string, header_value) jsmap \<Rightarrow> (string, string) jsmap" where
  "joined = map (\<lambda>(k, v). (k, header_text v))"

lemma joined_set: "joined (map_set k v m) = map_set k (header_text v) (joined m)"
  by (induction m) (auto simp: joined_def)

lemma joined_delete: "joined (map_delete k m) = map_delete k (joined m)"
  by (induction m) (auto simp: joined_def AList.delete_eq)

lemma joined_fold:
  "joined (fold (\<lambda>(k, v). map_set (toLowerCase k) (HOne v)) hs m) = fold (\<lambda>(k, v). map_set (toLowerCase k) v) hs (joined m)"
  by (induction hs arbitrary: m) (auto simp: joined_set)

definition alike :: "node_res \<Rightarrow> shim \<Rightarrow> bool" where
  "alike n s \<longleftrightarrow> sh_status s = nr_status n \<and> sh_headers s = joined (nr_headers n) \<and> sh_chunks s = nr_chunks n \<and>
     sh_headersSent s = (nr_wire n \<noteq> None) \<and>
     (\<forall>w. nr_wire n = Some w \<longrightarrow> w = (nr_status n, nr_headers n) \<and> 100 \<le> nr_status n \<and> nr_status n \<le> 999)"

lemma alike_step:
  assumes "alike n s" and "node_step x n = Ok n'" and "status_in_time (nr_wire n \<noteq> None) (x # xs)"
  shows "alike n' (shim_step x s) \<and> status_in_time (nr_wire n' \<noteq> None) xs"
  using assms
  by (cases x) (auto simp: alike_def before_head_def send_head_def joined_set joined_delete joined_fold split: if_splits option.splits)

lemma alike_run:
  "alike n s \<Longrightarrow> node_run ops n = Ok n' \<Longrightarrow> status_in_time (nr_wire n \<noteq> None) ops \<Longrightarrow> alike n' (fold shim_step ops s)"
proof (induction ops arbitrary: n s)
  case (Cons x xs)
  then obtain n1 where "node_step x n = Ok n1" "node_run xs n1 = Ok n'" by (cases "node_step x n") auto
  with Cons alike_step [of n s x n1 xs] show ?case by auto
qed simp

text \<open>
  C40: the Fetch adapter answers like a node server. A handler uses any of the five operations on a response (status,
  setting and removing headers, \<open>writeHead\<close>, \<open>write\<close>) and then ends it; node accepts that, and no status is
  assigned after the head went out. If the status node sends is in \<open>200 .. 599\<close>, the \<open>Response\<close> has it and the
  headers node sends (a list of values as one text), and for any method but HEAD the body node sends, or none if it is
  empty or the status is 205. Any other status is refused by \<open>Response\<close>.
\<close>

theorem fetch_like_node:
  assumes "node_respond meth ops data = Ok w" and "status_in_time False ops"
  shows "if 200 \<le> wi_status w \<and> wi_status w \<le> 599
    then \<exists>body. fetch_respond ops data = Ok \<lparr>fp_status = wi_status w, fp_headers = joined (wi_headers w), fp_body = body\<rparr> \<and>
           (meth \<noteq> ''HEAD'' \<longrightarrow> body = (if wi_body w = [] \<or> wi_status w = 205 then None else Some (wi_body w)))
    else fetch_respond ops data = Throw status_range_error"
proof -
  obtain n where n: "node_run ops new_node = Ok n" using assms(1) by (cases "node_run ops new_node") (auto simp: node_respond_def)
  have "alike new_node new_shim" by (simp add: alike_def new_node_def new_shim_def joined_def)
  from alike_run [OF this n] assms(2) have a: "alike n (fold shim_step ops new_shim)" by (simp add: new_node_def)
  have w: "w = \<lparr>wi_status = nr_status n, wi_headers = nr_headers n, wi_body = (if no_body meth (nr_status n) then [] else concat (nr_chunks n) @ data)\<rparr>"
    and sc: "100 \<le> nr_status n" "nr_status n \<le> 999"
    using assms(1) n a by (cases "nr_wire n"; auto simp: node_respond_def send_head_def alike_def split: if_splits)+
  have "fetch_respond ops data = new_Response (if concat (nr_chunks n) @ data = [] \<or> nr_status n \<in> set null_status then None else Some (concat (nr_chunks n) @ data))
      (nr_status n) (joined (nr_headers n))"
    using a by (cases "data = []") (simp_all add: fetch_respond_def finalize_def shim_end_def alike_def Let_def)
  moreover have "nr_status n mod 65536 = nr_status n" using sc by simp
  ultimately show ?thesis
    by (auto simp: w new_Response_def Let_def null_status_def no_body_def)
qed

theorem fetch_like_node_witness:
  "\<exists>body. fetch_respond [RStatus 201, RSetHeader ''X-A'' (HOne ''1''), RWrite ''o''] ''k'' =
     Ok \<lparr>fp_status = 201, fp_headers = [(''x-a'', ''1'')], fp_body = body\<rparr> \<and> body = Some ''ok''"
proof -
  have "node_respond ''GET'' [RStatus 201, RSetHeader ''X-A'' (HOne ''1''), RWrite ''o''] ''k'' =
      Ok \<lparr>wi_status = 201, wi_headers = [(''x-a'', HOne ''1'')], wi_body = ''ok''\<rparr>" by code_simp
  from fetch_like_node [OF this] show ?thesis by (simp add: joined_def)
qed

section \<open>Findings\<close>

text \<open>The status is read at the end: one assigned after the first write is sent here and is not by node.\<close>

lemma late_status_is_sent:
  "rbind (fetch_respond [RWrite ''partial'', RStatus 500] []) (\<lambda>p. Ok (fp_status p)) = (Ok 500 :: (thrown, int) res) \<and>
   rbind (node_respond ''GET'' [RWrite ''partial'', RStatus 500] []) (\<lambda>w. Ok (wi_status w)) = (Ok 200 :: (thrown, int) res)"
  by code_simp

text \<open>Headers after the head are an error of node and are accepted here.\<close>

lemma late_header_is_sent:
  "rbind (fetch_respond [RWrite ''x'', RSetHeader ''a'' (HOne ''1'')] []) (\<lambda>p. Ok (fp_headers p)) = (Ok [(''a'', ''1'')] :: (thrown, _) res) \<and>
   node_respond ''GET'' [RWrite ''x'', RSetHeader ''a'' (HOne ''1'')] [] = Throw headers_sent_error"
  by code_simp

text \<open>Two cookies are one header here: the second is read as an attribute of the first.\<close>

lemma cookies_are_joined:
  "rbind (fetch_respond [RSetHeader ''Set-Cookie'' (HMany [''a=1'', ''b=2''])] []) (\<lambda>p. Ok (fp_headers p)) =
     (Ok [(''set-cookie'', ''a=1, b=2'')] :: (thrown, _) res)"
  by code_simp

text \<open>A status of 600 is sent by node; here \<open>Response\<close> refuses it, and the promise of the answer is never settled.\<close>

lemma odd_status_never_answers:
  "rbind (node_respond ''GET'' [RStatus 600] []) (\<lambda>w. Ok (wi_status w)) = (Ok 600 :: (thrown, int) res) \<and>
   fetch_respond [RStatus 600] [] = Throw status_range_error \<and>
   response_of \<lparr>rs_status = 600, rs_headers = [], rs_sent = True, rs_body = []\<rparr> = None"
  by code_simp

text \<open>A HEAD request is answered with the body node leaves out.\<close>

lemma head_has_a_body:
  "rbind (fetch_respond [] ''ok'') (\<lambda>p. Ok (fp_body p)) = (Ok (Some ''ok'') :: (thrown, _) res) \<and>
   rbind (node_respond ''HEAD'' [] ''ok'') (\<lambda>w. Ok (wi_body w)) = (Ok [] :: (thrown, _) res)"
  by code_simp

end
