(* ===== verification/Integrations.thy ===== *)
theory Integrations
  imports Http Agent
begin

text \<open>
  The adapters for loggers and error trackers (\<open>packages/zenzip/src/integrations.ts\<close>) and the scripted model
  provider (\<open>llm/mock.ts\<close>). A logger or tracker of the user is what it is called with. Shown: the capturing
  middleware hands the error on as it was, and a scripted stream spells out the response it returns.
\<close>

section \<open>Loggers\<close>

record log_event =
  le_level :: string
  le_target :: string
  le_message :: string

datatype pino_method = PinoError | PinoWarn | PinoInfo | PinoDebug | PinoTrace

definition pinoLogger :: "log_event \<Rightarrow> pino_method \<times> jsval \<times> string" where
  "pinoLogger e =
     (let level = toLowerCase (le_level e) in
      (if level = ''error'' then PinoError
       else if level = ''warn'' then PinoWarn
       else if level = ''debug'' then PinoDebug
       else if level = ''trace'' then PinoTrace
       else PinoInfo,
       JObj [(''target'', JStr (le_target e))], le_message e))"

definition winstonLogger :: "log_event \<Rightarrow> string \<times> string \<times> jsval" where
  "winstonLogger e =
     (let level = toLowerCase (le_level e)
      in (if level = ''trace'' then ''debug'' else level, le_message e, JObj [(''target'', JStr (le_target e))]))"

section \<open>Error tracking\<close>

definition sentryReporter :: "'e \<Rightarrow> jsval option \<Rightarrow> 'e \<times> jsval option" where
  "sentryReporter err ctx = (err, map_option (\<lambda>c. JObj [(''extra'', c)]) ctx)"

definition as_error :: "thrown \<Rightarrow> thrown" where
  "as_error err = (case err of ErrorObj _ \<Rightarrow> err | ThrownValue v \<Rightarrow> plain_error ''Error'' (js_String v))"

definition http_context :: "request \<Rightarrow> jsval" where
  "http_context r = JObj [(''source'', JStr ''http''), (''method'', JStr (rq_method r)), (''path'', JStr (rq_path r))]"

text \<open>
  The reporter acts on the exchange's surroundings and may throw, which ends the handler before it calls
  \<open>next\<close>.
\<close>

type_synonym reporter = "thrown \<Rightarrow> jsval \<Rightarrow> exchange \<Rightarrow> thrown option \<times> exchange"

definition captureErrors :: "reporter \<Rightarrow> (exchange, thrown) handler" where
  "captureErrors reporter err x =
     (case err of
        None \<Rightarrow> ([], None)
      | Some e \<Rightarrow>
          (case reporter (as_error e) (http_context (ex_req x)) x of
             (Some t, x') \<Rightarrow> ([Eff (\<lambda>_. x')], Some t)
           | (None, x') \<Rightarrow> ([Eff (\<lambda>_. x'), NextErr e], None)))"

text \<open>Mounted last, it reports the error and the final writer still gets the one that was thrown.\<close>

lemma capture_then_final:
  assumes "find_layer env True (ch_ei s) = Some j" and "layer_handle (env_layers env ! j) = captureErrors reporter"
    and "find_layer env True (j + 1) = None" and "reporter (as_error e) (http_context (ex_req (ch_x s))) (ch_x s) = (None, x')"
  shows "ch_x (handle_error env (Suc (Suc f)) e s) = env_final env e x' \<and>
    ch_trace (handle_error env (Suc (Suc f)) e s) = ch_trace s @ [RanError j e, Final e]"
  using assms by (simp add: captureErrors_def Let_def)

section \<open>The scripted provider\<close>

datatype script_entry = Scripted llm_response | Computed "llm_request \<Rightarrow> llm_response"

fun entry_response :: "script_entry \<Rightarrow> llm_request \<Rightarrow> llm_response" where
  "entry_response (Scripted r) q = r"
| "entry_response (Computed f) q = f q"

text \<open>The provider's state: every request it was sent, and the tokens it streamed.\<close>

record mock_state =
  mk_calls :: "llm_request list"
  mk_tokens :: string

definition mockProvider :: "script_entry list \<Rightarrow> (exn, script_entry list \<times> mock_state) res" where
  "mockProvider script =
     (if script = [] then Throw (Error ''mockProvider needs at least one scripted response'')
      else Ok (script, \<lparr>mk_calls = [], mk_tokens = []\<rparr>))"

definition mock_next :: "script_entry list \<Rightarrow> llm_request \<Rightarrow> mock_state \<Rightarrow> llm_response" where
  "mock_next script q s = entry_response (script ! min (length (mk_calls s) - 1) (length script - 1)) q"

definition mock_complete :: "script_entry list \<Rightarrow> mock_state model_call" where
  "mock_complete script q s = (let s' = s\<lparr>mk_calls := mk_calls s @ [q]\<rparr> in (Ok (mock_next script q s'), 0, s'))"

fun block_tokens :: "llm_content \<Rightarrow> string" where
  "block_tokens (TextPart t) = t"
| "block_tokens _ = []"

definition mock_stream :: "script_entry list \<Rightarrow> mock_state model_call" where
  "mock_stream script q s =
     (let s' = s\<lparr>mk_calls := mk_calls s @ [q]\<rparr>; response = mock_next script q s'
      in (Ok response, 0, s'\<lparr>mk_tokens := mk_tokens s' @ concat (map block_tokens (r_content response))\<rparr>))"

definition mockText :: "string \<Rightarrow> llm_usage option \<Rightarrow> llm_response" where
  "mockText t usage =
     \<lparr>r_content = [TextPart t], r_stopReason = ''endTurn'',
      r_usage = (case usage of Some u \<Rightarrow> u | None \<Rightarrow> \<lparr>inputTokens = 10, outputTokens = 5\<rparr>)\<rparr>"

text \<open>\<open>rnd\<close> is the random suffix of an id that was not given.\<close>

definition mockToolUse :: "string \<Rightarrow> string \<Rightarrow> jsval \<Rightarrow> string option \<Rightarrow> string option \<Rightarrow> llm_response" where
  "mockToolUse rnd name input i t =
     \<lparr>r_content = (case t of Some u \<Rightarrow> if u = [] then [] else [TextPart u] | None \<Rightarrow> []) @
        [ToolUse (case i of Some u \<Rightarrow> u | None \<Rightarrow> ''tu_'' @ name @ ''_'' @ rnd) name input],
      r_stopReason = ''toolUse'', r_usage = \<lparr>inputTokens = 10, outputTokens = 5\<rparr>\<rparr>"

text \<open>What a stream spells out is the text of the response it returns.\<close>

lemma block_tokens_text: "block_tokens = Llm.text_of"
proof
  show "block_tokens c = Llm.text_of c" for c by (cases c) auto
qed

lemma mock_stream_spells:
  "mock_stream script q s = (Ok r, n, s') \<Longrightarrow> mk_tokens s' = mk_tokens s @ textContent r"
  by (auto simp: mock_stream_def textContent_def block_tokens_text Let_def)

text \<open>The entries are consumed in order and the last one repeats.\<close>

lemma mock_complete_nth:
  assumes "script \<noteq> []"
  shows "fst (mock_complete script q s) = Ok (entry_response (if length (mk_calls s) < length script then script ! length (mk_calls s) else last script) q)"
  using assms by (cases "length script") (auto simp: mock_complete_def mock_next_def min_def last_conv_nth Let_def)

end
