(* ===== verification/Config.thy ===== *)
theory Config
  imports Json Doubles
begin

text \<open>
  Configuration hardening (\<open>packages/zenzip/src/config.ts\<close>): resolving secrets, redacting what is logged,
  validating the options at start. Configuration values are trees here (an object reached twice or through
  a cycle, which the source cuts with a set of seen objects, does not occur). The environment, the files and
  the platform's \<open>URL\<close> are arguments.
\<close>

section \<open>Secrets\<close>

record sys_env =
  env_var :: "string \<Rightarrow> string option"
  read_file :: "string \<Rightarrow> string option"

definition non_empty :: "string option \<Rightarrow> string option" where
  "non_empty v = (case v of Some s \<Rightarrow> if s = [] then None else Some s | None \<Rightarrow> None)"

definition resolveSecret :: "sys_env \<Rightarrow> string option \<Rightarrow> string option" where
  "resolveSecret sys ref =
     (case non_empty ref of
        None \<Rightarrow> None
      | Some r \<Rightarrow>
          if startsWith r ''env:'' then non_empty (env_var sys (drop 4 r))
          else if startsWith r ''file:'' then non_empty (map_option trim (read_file sys (drop 5 r)))
          else Some r)"

section \<open>Redaction\<close>

text \<open>The alternatives of the pattern, matched anywhere in the name and without case.\<close>

definition secret_words :: "string list" where
  "secret_words = [''pass'', ''secret'', ''token'', ''apikey'', ''api_key'', ''api-key'', ''encryptionkey'',
     ''authorization'', ''credential'', ''bearer'']"

definition secret_key :: "string \<Rightarrow> bool" where
  "secret_key k \<longleftrightarrow> list_ex (\<lambda>w. str_includes (toLowerCase k) w) secret_words"

text \<open>What redaction asks of \<open>URL\<close>: parsing, the password, replacing it, and printing.\<close>

record 'u url_lib =
  new_URL :: "string \<Rightarrow> 'u option"
  url_password :: "'u \<Rightarrow> string"
  set_password :: "string \<Rightarrow> 'u \<Rightarrow> 'u"
  url_toString :: "'u \<Rightarrow> string"

text \<open>
  \<open>url.replace(/\/\/[^/@]*@/, "//***@")\<close>: the first place where two slashes are followed, with neither a slash
  nor an at-sign between, by an at-sign.
\<close>

definition user_char :: "char \<Rightarrow> bool" where
  "user_char c \<longleftrightarrow> c \<noteq> CHR ''/'' \<and> c \<noteq> CHR ''@''"

fun mask_userinfo :: "string \<Rightarrow> string" where
  "mask_userinfo (a # b # s) =
     (if a = CHR ''/'' \<and> b = CHR ''/'' \<and> (case dropWhile user_char s of c # _ \<Rightarrow> c = CHR ''@'' | [] \<Rightarrow> False)
      then ''//***'' @ dropWhile user_char s
      else a # mask_userinfo (b # s))"
| "mask_userinfo s = s"

definition redactUrl :: "'u url_lib \<Rightarrow> string \<Rightarrow> string" where
  "redactUrl lib url =
     (case new_URL lib url of
        Some u \<Rightarrow> url_toString lib (if url_password lib u \<noteq> [] then set_password lib ''***'' u else u)
      | None \<Rightarrow> mask_userinfo url)"

definition primitive_secret :: "jsval \<Rightarrow> bool" where
  "primitive_secret v = (case v of JStr _ \<Rightarrow> True | JNum _ \<Rightarrow> True | _ \<Rightarrow> False)"

fun redactSecrets :: "'u url_lib \<Rightarrow> jsval \<Rightarrow> jsval" where
  "redactSecrets lib (JStr s) = JStr (if str_includes s ''://'' then redactUrl lib s else s)"
| "redactSecrets lib (JArr vs) = JArr (map (redactSecrets lib) vs)"
| "redactSecrets lib (JObj kvs) =
     JObj (map (\<lambda>kv. (fst kv, if secret_key (fst kv) \<and> primitive_secret (snd kv) then JStr ''***''
                              else redactSecrets lib (snd kv))) kvs)"
| "redactSecrets lib v = v"

section \<open>Validation\<close>

datatype store_driver = Sqlite | Postgres "string option"

record zenzip_options =
  zo_store :: "store_driver option"
  zo_threshold :: "jsnum option"
  zo_workerThreads :: "jsnum option"
  zo_logLevel :: "string option"

definition log_levels :: "string list" where
  "log_levels = [''error'', ''warn'', ''info'', ''debug'', ''trace'', ''off'']"

definition config_error :: "string \<Rightarrow> (string, unit) res" where
  "config_error msg = Throw (''zenzip config: '' @ msg)"

definition check_store :: "'u url_lib \<Rightarrow> store_driver option \<Rightarrow> (string, unit) res" where
  "check_store lib store =
     (case store of
        Some (Postgres url) \<Rightarrow>
          (case url of
             None \<Rightarrow> config_error ''postgres store requires a non-empty `url`''
           | Some u \<Rightarrow>
               if trim u = [] then config_error ''postgres store requires a non-empty `url`''
               else if new_URL lib u = None then config_error (''invalid postgres url '' @ [DQ] @ redactUrl lib u @ [DQ])
               else Ok ())
      | _ \<Rightarrow> Ok ())"

definition check_threshold :: "jsnum option \<Rightarrow> (string, unit) res" where
  "check_threshold t =
     (case t of
        None \<Rightarrow> Ok ()
      | Some (Fin x) \<Rightarrow> if x < 0 then config_error ''payloads.threshold must be a non-negative number of bytes'' else Ok ()
      | Some _ \<Rightarrow> config_error ''payloads.threshold must be a non-negative number of bytes'')"

definition check_threads :: "jsnum option \<Rightarrow> (string, unit) res" where
  "check_threads t =
     (case t of
        None \<Rightarrow> Ok ()
      | Some (Fin x) \<Rightarrow> if x \<noteq> of_int \<lfloor>x\<rfloor> \<or> x < 1 then config_error ''workerThreads must be a positive integer'' else Ok ()
      | Some _ \<Rightarrow> config_error ''workerThreads must be a positive integer'')"

definition check_level :: "string option \<Rightarrow> (string, unit) res" where
  "check_level l =
     (case l of
        None \<Rightarrow> Ok ()
      | Some x \<Rightarrow> if x \<in> set log_levels then Ok () else config_error (''logLevel must be one of '' @ join_with '' | '' log_levels))"

definition validateConfig :: "'u url_lib \<Rightarrow> zenzip_options \<Rightarrow> (string, unit) res" where
  "validateConfig lib o' =
     rbind (check_store lib (zo_store o')) (\<lambda>_.
     rbind (check_threshold (zo_threshold o')) (\<lambda>_.
     rbind (check_threads (zo_workerThreads o')) (\<lambda>_. check_level (zo_logLevel o'))))"

section \<open>Lemmas\<close>

text \<open>No string or number is left under a secret name, at any depth.\<close>

fun hidden :: "jsval \<Rightarrow> bool" where
  "hidden (JArr vs) = (\<forall>v \<in> set vs. hidden v)"
| "hidden (JObj kvs) = (\<forall>kv \<in> set kvs. hidden (snd kv) \<and> (secret_key (fst kv) \<longrightarrow> primitive_secret (snd kv) \<longrightarrow> snd kv = JStr ''***''))"
| "hidden v = True"

fun same_shape :: "jsval \<Rightarrow> jsval \<Rightarrow> bool" where
  "same_shape (JArr vs) (JArr ws) = list_all2 same_shape vs ws"
| "same_shape (JObj kvs) (JObj lws) = list_all2 (\<lambda>kv lw. fst kv = fst lw \<and> (primitive_secret (snd kv) \<and> primitive_secret (snd lw) \<or> same_shape (snd kv) (snd lw))) kvs lws"
| "same_shape (JStr s) (JStr t) = True"
| "same_shape v w = (v = w)"

lemma primitive_redact: "primitive_secret (redactSecrets lib v) = primitive_secret v"
  by (cases v) (simp_all add: primitive_secret_def)

lemma redact_hidden: "hidden (redactSecrets lib v)"
proof (induction v rule: redactSecrets.induct)
  case (3 lib kvs)
  then show ?case by (auto simp: primitive_redact)
qed simp_all

lemma redact_shape: "same_shape v (redactSecrets lib v)"
proof (induction v rule: redactSecrets.induct)
  case (2 lib vs)
  then show ?case by (simp add: list.rel_map list.rel_refl_strong)
next
  case (3 lib kvs)
  then show ?case by (auto simp: list.rel_map primitive_secret_def intro!: list.rel_refl_strong)
qed simp_all

text \<open>
  redaction. In a redacted copy no string or number stands under a secret-looking name, at any depth,
  except the mask; and the copy has the shape of the original: the same keys and lengths, with every value
  that is neither a string nor masked unchanged.
\<close>

theorem redaction: "hidden (redactSecrets lib v) \<and> same_shape v (redactSecrets lib v)"
  by (simp add: redact_hidden redact_shape)

section \<open>Findings\<close>

text \<open>A list of secrets under a secret name is not masked: only strings and numbers are.\<close>

lemma secret_list_not_masked:
  "redactSecrets lib (JObj [(''tokens'', JArr [JStr ''s3cret''])]) = JObj [(''tokens'', JArr [JStr ''s3cret''])]"
  by (simp add: primitive_secret_def)

end
