(* ===== verification/Namespaces.thy ===== *)
theory Namespaces
  imports Events
begin

text \<open>
  Namespaces (\<open>packages/zenzip/src/namespace.ts\<close>): the scoped facade that prefixes every queue,
  workflow, schedule, agent, network and event name with \<open><name>:\<close>. Shown: keys of namespaces
  whose names hold no colon never collide, and no event pattern of one namespace matches an
  event of another. Two limits of the scheme are recorded: names with a colon do collide, and a
  wildcard in the first segment of a scoped pattern loses its meaning.
\<close>

record namespace =
  ns_name :: string

definition key :: "namespace \<Rightarrow> string \<Rightarrow> string" where
  "key ns name = ns_name ns @ '':'' @ name"

text \<open>The \<open>on:\<close> option of a workflow: absent, one pattern, or several.\<close>

datatype on_option = OnNone | OnOne string | OnMany "string list"

fun prefixOn :: "namespace \<Rightarrow> on_option \<Rightarrow> on_option" where
  "prefixOn ns OnNone = OnNone"
| "prefixOn ns (OnMany ps) = OnMany (map (key ns) ps)"
| "prefixOn ns (OnOne p) = OnOne (key ns p)"

fun on_patterns :: "on_option \<Rightarrow> string list" where
  "on_patterns OnNone = []"
| "on_patterns (OnOne p) = [p]"
| "on_patterns (OnMany ps) = ps"

definition plain_name :: "namespace \<Rightarrow> bool" where
  "plain_name ns \<longleftrightarrow> CHR '':'' \<notin> set (ns_name ns) \<and> CHR ''.'' \<notin> set (ns_name ns)"

lemma append_colon_inj:
  "CHR '':'' \<notin> set a \<Longrightarrow> CHR '':'' \<notin> set b \<Longrightarrow> a @ '':'' @ x = b @ '':'' @ y \<longleftrightarrow> a = b \<and> x = y"
proof (induction a arbitrary: b)
  case Nil
  then show ?case by (cases b) auto
next
  case (Cons c a)
  then show ?case by (cases b) auto
qed

lemma key_inject:
  "plain_name a \<Longrightarrow> plain_name b \<Longrightarrow> key a x = key b y \<longleftrightarrow> ns_name a = ns_name b \<and> x = y"
  using append_colon_inj [of "ns_name a" "ns_name b" x y] by (simp add: plain_name_def key_def)

lemma split_on_prefix:
  "c \<notin> set a \<Longrightarrow> \<exists>s ss. split_on c (a @ b) = (a @ s) # ss \<and> split_on c b = s # ss"
proof (induction a)
  case Nil
  then show ?case by (cases "split_on c b") auto
next
  case (Cons x a)
  then show ?case by auto
qed

lemma split_key:
  "plain_name ns \<Longrightarrow> \<exists>s ss. split_on CHR ''.'' (key ns n) = (ns_name ns @ '':'' @ s) # ss"
  using split_on_prefix [of "CHR ''.''" "ns_name ns @ '':''" n]
  by (auto simp: plain_name_def key_def)

lemma colon_not_wild: "a @ '':'' @ s \<noteq> ''*'' \<and> a @ '':'' @ s \<noteq> ''**''"
proof -
  have "CHR '':'' \<in> set (a @ '':'' @ s)" "CHR '':'' \<notin> set ''*''" "CHR '':'' \<notin> set ''**''" by simp_all
  then show ?thesis by metis
qed

lemma scoped_match_same_ns:
  assumes a: "plain_name a" and b: "plain_name b" and m: "eventMatches (key a p) (key b e)"
  shows "ns_name a = ns_name b"
proof -
  obtain s ss where s: "split_on CHR ''.'' (key a p) = (ns_name a @ '':'' @ s) # ss"
    using split_key [OF a] by blast
  obtain t ts where t: "split_on CHR ''.'' (key b e) = (ns_name b @ '':'' @ t) # ts"
    using split_key [OF b] by blast
  have "glob ((ns_name a @ '':'' @ s) # ss) ((ns_name b @ '':'' @ t) # ts)"
    using m s t by (simp only: eventMatches_glob)
  then have "ns_name a @ '':'' @ s = ns_name b @ '':'' @ t"
    using colon_not_wild [of "ns_name a" s] by (simp add: seg_match_def)
  then show ?thesis using append_colon_inj a b by (simp add: plain_name_def)
qed

text \<open>
  tenant isolation. For namespaces whose names hold no colon and no dot, no subscription or
  \<open>on:\<close> trigger of one namespace, wildcards included, reacts to an event emitted in another.
\<close>

theorem namespace_isolation:
  assumes "plain_name a" and "plain_name b" and "ns_name a \<noteq> ns_name b"
    and "q \<in> set (on_patterns (prefixOn a opt))"
  shows "\<not> eventMatches q (key b e)"
proof -
  obtain p where "q = key a p"
    using assms(4) by (cases opt) auto
  then show ?thesis using scoped_match_same_ns [OF assms(1,2)] assms(3) by blast
qed

theorem namespace_isolation_witness:
  "\<not> eventMatches ''acme:order.**'' (key \<lparr>ns_name = ''beta''\<rparr> ''order.paid'')"
  by (rule namespace_isolation [of "\<lparr>ns_name = ''acme''\<rparr>" _ _ "OnOne ''order.**''"])
    (simp_all add: plain_name_def key_def)

text \<open>
  A wildcard that opens a scoped pattern is glued to the prefix and is then an ordinary segment:
  \<open>ns.on("*")\<close> does not see the event \<open>ns.emit("created")\<close>, though \<open>app.on("*")\<close> would
  see \<open>app.emit("created")\<close>.
\<close>

lemma scoped_leading_wildcard_lost:
  "\<not> eventMatches (key \<lparr>ns_name = ''t''\<rparr> ''*'') (key \<lparr>ns_name = ''t''\<rparr> ''created'') \<and>
   \<not> eventMatches (key \<lparr>ns_name = ''t''\<rparr> ''**'') (key \<lparr>ns_name = ''t''\<rparr> ''created'') \<and>
   eventMatches ''*'' ''created'' \<and> eventMatches ''**'' ''created''"
  by code_simp

text \<open>Names with a colon are not isolated from each other.\<close>

lemma colon_names_collide:
  "key \<lparr>ns_name = ''a''\<rparr> ''b:jobs'' = key \<lparr>ns_name = ''a:b''\<rparr> ''jobs''"
  by (simp add: key_def)

end
