(* ===== verification/Resilience.thy ===== *)
theory Resilience
  imports Duration
begin

text \<open>
  The circuit breaker and bulkhead (\<open>packages/zenzip/src/resilience.ts\<close>). \<open>run\<close> awaits the wrapped
  call, so other calls start and settle in between: it is split at the \<open>await\<close> into \<open>run_start\<close>
  (everything before the call) and \<open>run_settle\<close> (everything after), and a step relation interleaves
  them over the list of calls in flight. Counts and times are integers; the observer
  \<open>onStateChange\<close> is a log of the transitions.
\<close>

section \<open>State and operations\<close>

datatype circuit_state = Closed | Open | HalfOpen

datatype circuit_error = CircuitOpenError | BulkheadFullError int

record cb_options =
  opt_failureThreshold :: "int option"
  opt_resetTimeout :: "duration option"
  opt_halfOpenMax :: "int option"
  opt_maxConcurrent :: "int option"

record cb_config =
  cb_threshold :: int
  cb_resetMs :: int
  cb_halfOpenMax :: int
  cb_maxConcurrent :: "int option"

record breaker =
  cb_state :: circuit_state
  cb_failures :: int
  cb_openedAt :: int
  cb_halfOpenInFlight :: int
  cb_inFlight :: int
  cb_log :: "circuit_state list"

definition truthy_duration :: "duration \<Rightarrow> bool" where
  "truthy_duration d =
     (case d of DNum (Fin q) \<Rightarrow> q \<noteq> 0 | DNum NaN \<Rightarrow> False | DNum _ \<Rightarrow> True | DStr s \<Rightarrow> s \<noteq> [])"

definition new_config :: "cb_options \<Rightarrow> (duration_error, cb_config) res" where
  "new_config opts =
     rbind (case opt_resetTimeout opts of
              None \<Rightarrow> Ok 30000
            | Some d \<Rightarrow> if truthy_duration d then ms d else Ok 30000) (\<lambda>resetMs.
       Ok \<lparr>cb_threshold = max 1 (case opt_failureThreshold opts of None \<Rightarrow> 5 | Some n \<Rightarrow> n),
          cb_resetMs = resetMs,
          cb_halfOpenMax = max 1 (case opt_halfOpenMax opts of None \<Rightarrow> 1 | Some n \<Rightarrow> n),
          cb_maxConcurrent = opt_maxConcurrent opts\<rparr>)"

definition new_breaker :: breaker where
  "new_breaker = \<lparr>cb_state = Closed, cb_failures = 0, cb_openedAt = 0, cb_halfOpenInFlight = 0,
     cb_inFlight = 0, cb_log = []\<rparr>"

definition transition :: "int \<Rightarrow> circuit_state \<Rightarrow> breaker \<Rightarrow> breaker" where
  "transition now to b =
     (if cb_state b = to then b
      else let b1 = b\<lparr>cb_state := to\<rparr>;
               b2 = (if to = Closed then b1\<lparr>cb_failures := 0\<rparr> else b1);
               b3 = (if to = HalfOpen then b2\<lparr>cb_halfOpenInFlight := 0\<rparr> else b2);
               b4 = (if to = Open then b3\<lparr>cb_openedAt := now\<rparr> else b3)
           in b4\<lparr>cb_log := cb_log b4 @ [to]\<rparr>)"

definition get_state :: "cb_config \<Rightarrow> int \<Rightarrow> breaker \<Rightarrow> circuit_state \<times> breaker" where
  "get_state cfg now b =
     (let b' = (if cb_state b = Open \<and> now - cb_openedAt b \<ge> cb_resetMs cfg
                then transition now HalfOpen b else b)
      in (cb_state b', b'))"

definition saturated :: "cb_config \<Rightarrow> breaker \<Rightarrow> bool" where
  "saturated cfg b = (case cb_maxConcurrent cfg of None \<Rightarrow> False | Some m \<Rightarrow> cb_inFlight b \<ge> m)"

definition run_start :: "cb_config \<Rightarrow> int \<Rightarrow> breaker \<Rightarrow> (circuit_error, circuit_state) res \<times> breaker" where
  "run_start cfg now b =
     (let (state, b1) = get_state cfg now b in
      if state = Open then (Throw CircuitOpenError, b1)
      else if state = HalfOpen \<and> cb_halfOpenInFlight b1 \<ge> cb_halfOpenMax cfg then (Throw CircuitOpenError, b1)
      else let b2 = (if state = HalfOpen then b1\<lparr>cb_halfOpenInFlight := cb_halfOpenInFlight b1 + 1\<rparr> else b1) in
        if saturated cfg b2
        then (Throw (BulkheadFullError (the (cb_maxConcurrent cfg))),
              if state = HalfOpen then b2\<lparr>cb_halfOpenInFlight := cb_halfOpenInFlight b2 - 1\<rparr> else b2)
        else (Ok state, b2\<lparr>cb_inFlight := cb_inFlight b2 + 1\<rparr>))"

definition onSuccess :: "int \<Rightarrow> breaker \<Rightarrow> breaker" where
  "onSuccess now b =
     (let b1 = (if cb_state b \<noteq> Closed then transition now Closed b else b) in b1\<lparr>cb_failures := 0\<rparr>)"

definition onFailure :: "cb_config \<Rightarrow> int \<Rightarrow> breaker \<Rightarrow> breaker" where
  "onFailure cfg now b =
     (if cb_state b = HalfOpen then transition now Open b
      else let b1 = b\<lparr>cb_failures := cb_failures b + 1\<rparr> in
        if cb_failures b1 \<ge> cb_threshold cfg then transition now Open b1 else b1)"

text \<open>How the wrapped call settled; \<open>CountedError\<close> is an error for which \<open>isFailure\<close> holds.\<close>

datatype call_result = Resolved | CountedError | OtherError

definition run_settle :: "cb_config \<Rightarrow> int \<Rightarrow> circuit_state \<Rightarrow> call_result \<Rightarrow> breaker \<Rightarrow> breaker" where
  "run_settle cfg now state r b =
     (let b1 = (case r of CountedError \<Rightarrow> onFailure cfg now b | _ \<Rightarrow> onSuccess now b);
          b2 = b1\<lparr>cb_inFlight := cb_inFlight b1 - 1\<rparr>
      in if state = HalfOpen then b2\<lparr>cb_halfOpenInFlight := cb_halfOpenInFlight b2 - 1\<rparr> else b2)"

section \<open>Interleaved calls\<close>

text \<open>
  The breaker with the calls in flight, each with the circuit state in which it was admitted and the
  half-open period it was admitted in, and with the results of the calls that settled, in order. Both are
  read off the breaker's log and the calls from outside: no operation of the breaker looks at them.
\<close>

definition period :: "breaker \<Rightarrow> nat" where
  "period b = length (filter (\<lambda>st. st = HalfOpen) (cb_log b))"

type_synonym in_flight = "circuit_state \<times> nat"
type_synonym cb_world = "breaker \<times> in_flight list \<times> call_result list"

inductive cb_step :: "cb_config \<Rightarrow> cb_world \<Rightarrow> cb_world \<Rightarrow> bool" for cfg :: cb_config where
  admit: "run_start cfg now b = (Ok st, b') \<Longrightarrow> cb_step cfg (b, ps, hs) (b', ps @ [(st, period b')], hs)"
| reject: "run_start cfg now b = (Throw e, b') \<Longrightarrow> cb_step cfg (b, ps, hs) (b', ps, hs)"
| settle: "(st, n) \<in> set ps \<Longrightarrow> cb_step cfg (b, ps, hs) (run_settle cfg now st r b, remove1 (st, n) ps, hs @ [r])"
| observe: "cb_step cfg (b, ps, hs) (snd (get_state cfg now b), ps, hs)"

inductive_cases cb_stepE: "cb_step cfg (b, ps, hs) s'"

inductive cb_reach :: "cb_config \<Rightarrow> cb_world \<Rightarrow> bool" for cfg where
  init: "cb_reach cfg (new_breaker, [], [])"
| step: "cb_reach cfg s \<Longrightarrow> cb_step cfg s s' \<Longrightarrow> cb_reach cfg s'"

text \<open>The failures that count since the last call that succeeded or failed otherwise; the probes in flight of this half-open period.\<close>

definition streak :: "call_result list \<Rightarrow> int" where
  "streak hs = int (length (takeWhile (\<lambda>r. r = CountedError) (rev hs)))"

definition probes :: "breaker \<Rightarrow> in_flight list \<Rightarrow> int" where
  "probes b ps = int (length (filter (\<lambda>c. c = (HalfOpen, period b)) ps))"

lemma streak_simps [simp]: "streak [] = 0" "streak (hs @ [r]) = (if r = CountedError then streak hs + 1 else 0)" "0 \<le> streak hs"
  by (simp_all add: streak_def)

definition config_ok :: "cb_config \<Rightarrow> bool" where
  "config_ok cfg \<longleftrightarrow> 1 \<le> cb_threshold cfg \<and> 1 \<le> cb_halfOpenMax cfg \<and>
     (case cb_maxConcurrent cfg of None \<Rightarrow> True | Some m \<Rightarrow> 0 \<le> m)"

definition cb_inv :: "cb_config \<Rightarrow> cb_world \<Rightarrow> bool" where
  "cb_inv cfg = (\<lambda>(b, ps, hs).
     cb_inFlight b = int (length ps) \<and>
     (case cb_maxConcurrent cfg of None \<Rightarrow> True | Some m \<Rightarrow> int (length ps) \<le> m) \<and>
     (cb_state b = Closed \<longleftrightarrow> streak hs < cb_threshold cfg) \<and> (cb_state b = Closed \<longrightarrow> cb_failures b = streak hs) \<and>
     (\<forall>(st, n) \<in> set ps. n \<le> period b) \<and>
     (cb_state b = HalfOpen \<longrightarrow> cb_halfOpenInFlight b = probes b ps \<and> probes b ps \<le> cb_halfOpenMax cfg))"

lemmas cb_defs = run_start_def run_settle_def onSuccess_def onFailure_def get_state_def transition_def
  saturated_def Let_def

lemma no_probes: "\<forall>(st, n) \<in> set ps. n \<le> period b \<Longrightarrow> filter (\<lambda>c. c = (HalfOpen, Suc (period b))) ps = []"
  by (auto simp: filter_empty_conv)

lemma cb_inv_observe: "cb_inv cfg (b, ps, hs) \<Longrightarrow> config_ok cfg \<Longrightarrow> cb_inv cfg (snd (get_state cfg now b), ps, hs)"
  using no_probes [of ps b]
  by (cases "cb_state b") (auto simp: cb_inv_def config_ok_def get_state_def transition_def Let_def probes_def period_def)

text \<open>A call is admitted or turned away in the state the observation leaves.\<close>

lemma run_start_observed:
  "run_start cfg now b =
     (let b1 = snd (get_state cfg now b) in
      if cb_state b1 = Open then (Throw CircuitOpenError, b1)
      else if cb_state b1 = HalfOpen \<and> cb_halfOpenInFlight b1 \<ge> cb_halfOpenMax cfg then (Throw CircuitOpenError, b1)
      else if saturated cfg b1 then (Throw (BulkheadFullError (the (cb_maxConcurrent cfg))), b1)
      else (Ok (cb_state b1), b1\<lparr>cb_halfOpenInFlight := cb_halfOpenInFlight b1 + (if cb_state b1 = HalfOpen then 1 else 0),
        cb_inFlight := cb_inFlight b1 + 1\<rparr>))"
  by (simp add: run_start_def get_state_def Let_def saturated_def split: option.split)

lemma cb_inv_start:
  assumes "cb_inv cfg (b, ps, hs)" and "run_start cfg now b = (res, b')" and "config_ok cfg"
  shows "cb_inv cfg (b', ps @ (case res of Inr st \<Rightarrow> [(st, period b')] | Inl _ \<Rightarrow> []), hs)"
proof -
  define b1 where "b1 = snd (get_state cfg now b)"
  have inv: "cb_inv cfg (b1, ps, hs)" unfolding b1_def by (rule cb_inv_observe [OF assms(1,3)])
  show ?thesis
  proof (cases res)
    case (Inl e)
    then have "b' = b1" using assms(2) unfolding run_start_observed b1_def [symmetric] Let_def by (auto split: if_splits)
    then show ?thesis using inv Inl by simp
  next
    case (Inr st)
    then have st: "st = cb_state b1" "cb_state b1 \<noteq> Open" "\<not> saturated cfg b1" "\<not> (cb_state b1 = HalfOpen \<and> cb_halfOpenInFlight b1 \<ge> cb_halfOpenMax cfg)"
      and b': "b' = b1\<lparr>cb_halfOpenInFlight := cb_halfOpenInFlight b1 + (if cb_state b1 = HalfOpen then 1 else 0), cb_inFlight := cb_inFlight b1 + 1\<rparr>"
      using assms(2) unfolding run_start_observed b1_def [symmetric] Let_def by (auto split: if_splits)
    have "period b' = period b1" by (simp add: b' period_def)
    then show ?thesis
      using inv st Inr by (auto simp: cb_inv_def b' probes_def saturated_def period_def split: option.splits)
  qed
qed

lemma cb_inv_settle:
  assumes "cb_inv cfg (b, ps, hs)" and "(st, n) \<in> set ps" and "config_ok cfg"
  shows "cb_inv cfg (run_settle cfg now st r b, remove1 (st, n) ps, hs @ [r])"
proof -
  have len: "int (length (remove1 (st, n) ps)) = int (length ps) - 1"
    using assms(2) by (induction ps) auto
  define b' where "b' = run_settle cfg now st r b"
  have period: "period b' = period b" and state: "cb_state b' \<noteq> HalfOpen" and flight: "cb_inFlight b' = cb_inFlight b - 1"
    by (cases "cb_state b"; cases r; cases st; simp add: b'_def cb_defs period_def)+
  have closed: "cb_state b' = Closed \<longleftrightarrow> streak (hs @ [r]) < cb_threshold cfg" "cb_state b' = Closed \<longrightarrow> cb_failures b' = streak (hs @ [r])"
    using assms(1,3) by (cases "cb_state b"; cases r; cases st; auto simp: b'_def cb_inv_def config_ok_def cb_defs)+
  show ?thesis
    using assms(1) period state flight closed unfolding cb_inv_def b'_def [symmetric] prod.case len
    by (auto simp: dest: notin_set_remove1 split: option.splits)
qed

lemma cb_inv_reach: "cb_reach cfg s \<Longrightarrow> config_ok cfg \<Longrightarrow> cb_inv cfg s"
proof (induction rule: cb_reach.induct)
  case init
  then show ?case by (auto simp: cb_inv_def new_breaker_def config_ok_def split: option.splits)
next
  case (step s s')
  obtain b ps hs where s: "s = (b, ps, hs)" by (metis prod.exhaust)
  with step have inv: "cb_inv cfg (b, ps, hs)" by simp
  from step.hyps(2) have "cb_step cfg (b, ps, hs) s'" by (simp add: s)
  then show ?case
  proof (cases rule: cb_step.cases)
    case (admit now st b')
    then show ?thesis using cb_inv_start [OF inv admit(2) step.prems] by simp
  next
    case (reject now e b')
    then show ?thesis using cb_inv_start [OF inv reject(2) step.prems] by simp
  qed (use cb_inv_settle [OF inv _ step.prems] cb_inv_observe [OF inv step.prems] in simp_all)
qed

section \<open>Properties\<close>

lemma config_ok_new:
  "new_config opts = Ok cfg \<Longrightarrow> (\<And>m. opt_maxConcurrent opts = Some m \<Longrightarrow> 0 \<le> m) \<Longrightarrow> config_ok cfg"
  by (auto simp: new_config_def config_ok_def res_simps split: option.splits)

text \<open>
  C25: the breaker keeps its promises under every interleaving of calls that start, are turned away and settle,
  with any results and clocks. The calls running never exceed the bulkhead limit (if one is set, not negative),
  and the in-flight counter is their number; the circuit is closed exactly while fewer calls than the threshold
  have failed in a row, in the order they settled (errors that do not count end the row like successes); and of
  the probes admitted since the circuit became half-open at most \<open>halfOpenMax\<close> are running while it
  is half-open.
\<close>

theorem breaker_invariant:
  assumes "new_config opts = Ok cfg" and "\<And>m. opt_maxConcurrent opts = Some m \<Longrightarrow> 0 \<le> m"
    and "cb_reach cfg (b, ps, hs)"
  shows "cb_inFlight b = int (length ps) \<and>
    (\<forall>m. opt_maxConcurrent opts = Some m \<longrightarrow> int (length ps) \<le> m) \<and>
    (cb_state b = Closed \<longleftrightarrow> streak hs < cb_threshold cfg) \<and>
    (cb_state b = HalfOpen \<longrightarrow> probes b ps \<le> cb_halfOpenMax cfg)"
proof -
  have "cb_inv cfg (b, ps, hs)" by (rule cb_inv_reach [OF assms(3) config_ok_new [OF assms(1,2)]])
  moreover have "cb_maxConcurrent cfg = opt_maxConcurrent opts" using assms(1) by (auto simp: new_config_def res_simps)
  ultimately show ?thesis by (auto simp: cb_inv_def)
qed

definition bulk_opts :: cb_options where
  "bulk_opts = \<lparr>opt_failureThreshold = Some 1, opt_resetTimeout = None, opt_halfOpenMax = None, opt_maxConcurrent = Some 2\<rparr>"

definition bulk_cfg :: cb_config where
  "bulk_cfg = \<lparr>cb_threshold = 1, cb_resetMs = 30000, cb_halfOpenMax = 1, cb_maxConcurrent = Some 2\<rparr>"

lemma reach_admit: "cb_reach cfg (b, ps, hs) \<Longrightarrow> run_start cfg now b = (Ok st, b') \<Longrightarrow> cb_reach cfg (b', ps @ [(st, period b')], hs)"
  by (rule cb_reach.step, assumption, rule cb_step.admit)

lemma reach_settle:
  "cb_reach cfg (b, ps, hs) \<Longrightarrow> (st, n) \<in> set ps \<Longrightarrow> cb_reach cfg (run_settle cfg now st r b, remove1 (st, n) ps, hs @ [r])"
  by (rule cb_reach.step, assumption, rule cb_step.settle)

text \<open>Two calls are admitted, one fails and trips the circuit; after the cooldown a probe is admitted.\<close>

definition stale_0 :: breaker where "stale_0 = new_breaker\<lparr>cb_inFlight := 2\<rparr>"
definition stale_1 :: breaker where "stale_1 = run_settle bulk_cfg 0 Closed CountedError stale_0"
definition stale_2 :: breaker where "stale_2 = snd (run_start bulk_cfg 30000 stale_1)"
definition stale_3 :: breaker where "stale_3 = run_settle bulk_cfg 30001 Closed CountedError stale_2"
definition stale_4 :: breaker where "stale_4 = snd (run_start bulk_cfg 60001 stale_3)"

lemma stale_periods: "period (new_breaker\<lparr>cb_inFlight := n\<rparr>) = 0" "period stale_2 = 1" "period stale_4 = 2"
  by (simp add: period_def new_breaker_def) code_simp+

lemma bulk_second: "cb_reach bulk_cfg (stale_0, [(Closed, 0), (Closed, 0)], [])"
proof -
  have one: "run_start bulk_cfg 0 new_breaker = (Ok Closed, new_breaker\<lparr>cb_inFlight := 1\<rparr>)"
    and two: "run_start bulk_cfg 0 (new_breaker\<lparr>cb_inFlight := 1\<rparr>) = (Ok Closed, stale_0)"
    by (simp_all add: cb_defs bulk_cfg_def new_breaker_def stale_0_def)
  from reach_admit [OF reach_admit [OF cb_reach.init one] two] show ?thesis
    using stale_periods(1) [of 1] stale_periods(1) [of 2] by (simp add: stale_0_def)
qed

lemma stale_probe: "cb_reach bulk_cfg (stale_2, [(Closed, 0), (HalfOpen, 1)], [CountedError])"
proof -
  have "cb_reach bulk_cfg (stale_1, [(Closed, 0)], [CountedError])"
    using reach_settle [OF bulk_second, of Closed 0 0 CountedError] by (simp add: stale_1_def)
  moreover have "run_start bulk_cfg 30000 stale_1 = (Ok HalfOpen, stale_2)" by code_simp
  ultimately show ?thesis using reach_admit stale_periods(2) by fastforce
qed

theorem breaker_invariant_witness:
  "cb_state stale_2 = HalfOpen \<and> probes stale_2 [(Closed, 0), (HalfOpen, 1)] = 1 \<and> probes stale_2 [(Closed, 0), (HalfOpen, 1)] \<le> 1 \<and>
   length [(Closed, 0), (HalfOpen, 1 :: nat)] \<le> 2"
proof -
  have cfg: "new_config bulk_opts = Ok bulk_cfg" by (simp add: new_config_def bulk_opts_def bulk_cfg_def)
  have m: "0 \<le> m" if "opt_maxConcurrent bulk_opts = Some m" for m using that by (simp add: bulk_opts_def)
  have st: "cb_state stale_2 = HalfOpen" by code_simp
  moreover have "probes stale_2 [(Closed, 0), (HalfOpen, 1)] = 1" by (simp add: probes_def stale_periods(2))
  ultimately show ?thesis using breaker_invariant [OF cfg m stale_probe] by (simp add: bulk_opts_def bulk_cfg_def)
qed

text \<open>
  An open circuit fails fast. Until the cooldown has elapsed every call is rejected with
  \<open>CircuitOpenError\<close> and the breaker does not change; once it has elapsed, with room in the
  bulkhead, the next call is admitted as a probe; a successful probe closes the circuit and clears
  the failures, a failing probe opens it again and restarts the cooldown.
\<close>

theorem open_circuit:
  assumes "cb_state b = Open" and "config_ok cfg"
  shows "(now - cb_openedAt b < cb_resetMs cfg \<longrightarrow> run_start cfg now b = (Throw CircuitOpenError, b)) \<and>
    (cb_resetMs cfg \<le> now - cb_openedAt b \<and> \<not> saturated cfg b \<longrightarrow>
       (\<exists>b'. run_start cfg now b = (Ok HalfOpen, b') \<and> cb_state b' = HalfOpen \<and>
          cb_state (run_settle cfg t HalfOpen Resolved b') = Closed \<and>
          cb_failures (run_settle cfg t HalfOpen Resolved b') = 0 \<and>
          cb_state (run_settle cfg t HalfOpen CountedError b') = Open \<and>
          cb_openedAt (run_settle cfg t HalfOpen CountedError b') = t))"
  using assms by (auto simp: cb_defs config_ok_def split: option.splits)

theorem open_circuit_witness:
  "run_start bulk_cfg 10 (new_breaker\<lparr>cb_state := Open\<rparr>) = (Throw CircuitOpenError, new_breaker\<lparr>cb_state := Open\<rparr>)"
  using open_circuit [of "new_breaker\<lparr>cb_state := Open\<rparr>" bulk_cfg 10]
  by (simp add: config_ok_def bulk_cfg_def new_breaker_def)

lemma onFailure_closed:
  "cb_state b = Closed \<Longrightarrow>
     cb_state (onFailure cfg t b) = (if cb_failures b + 1 < cb_threshold cfg then Closed else Open) \<and>
     cb_failures (onFailure cfg t b) = cb_failures b + 1"
  by (simp add: onFailure_def Let_def transition_def)

lemma onFailure_open: "cb_state b = Open \<Longrightarrow> cb_state (onFailure cfg t b) = Open"
  by (simp add: onFailure_def Let_def transition_def)

definition fail_at :: "cb_config \<Rightarrow> int list \<Rightarrow> breaker \<Rightarrow> breaker" where
  "fail_at cfg ts b = foldl (\<lambda>b t. onFailure cfg t b) b ts"

lemma fail_at_open: "cb_state b = Open \<Longrightarrow> cb_state (fail_at cfg ts b) = Open"
  by (induction ts arbitrary: b) (simp_all add: fail_at_def onFailure_open)

text \<open>
  The circuit trips exactly at the threshold: a closed circuit with \<open>f\<close> failures stays closed
  while further consecutive failures keep the tally below the threshold, and is open from the
  failure that reaches it on.
\<close>

theorem trips_at_threshold:
  assumes "cb_state b = Closed" and "cb_failures b < cb_threshold cfg"
  shows "cb_state (fail_at cfg ts b) =
    (if cb_failures b + int (length ts) < cb_threshold cfg then Closed else Open)"
  using assms
proof (induction ts arbitrary: b)
  case Nil
  then show ?case by (simp add: fail_at_def)
next
  case (Cons t ts)
  have unfold: "fail_at cfg (t # ts) b = fail_at cfg ts (onFailure cfg t b)" by (simp add: fail_at_def)
  note f = onFailure_closed [OF Cons.prems(1), of cfg t]
  show ?case
  proof (cases "cb_failures b + 1 < cb_threshold cfg")
    case True
    with f have "cb_state (onFailure cfg t b) = Closed" "cb_failures (onFailure cfg t b) < cb_threshold cfg" by simp_all
    from Cons.IH [OF this] f show ?thesis by (simp add: unfold algebra_simps)
  next
    case False
    with f have "cb_state (onFailure cfg t b) = Open" by simp
    then show ?thesis using False by (simp add: unfold fail_at_open)
  qed
qed

theorem trips_at_threshold_witness: "cb_state (fail_at bulk_cfg [7] new_breaker) = Open"
  using trips_at_threshold [of new_breaker bulk_cfg "[7]"] by (simp add: new_breaker_def bulk_cfg_def)

text \<open>
  Probes of an earlier half-open period are not counted in a later one: with \<open>halfOpenMax = 1\<close> two
  probes are in flight at once. A call admitted while the circuit was closed fails during the first
  probe, the circuit reopens, and after another cooldown a second probe is admitted.
\<close>

lemma two_probes_in_flight: "cb_halfOpenMax bulk_cfg = 1 \<and> cb_reach bulk_cfg (stale_4, [(HalfOpen, 1), (HalfOpen, 2)], [CountedError, CountedError])"
proof -
  have "cb_reach bulk_cfg (stale_3, [(HalfOpen, 1)], [CountedError, CountedError])"
    using reach_settle [OF stale_probe, of Closed 0 30001 CountedError] by (simp add: stale_3_def)
  moreover have "run_start bulk_cfg 60001 stale_3 = (Ok HalfOpen, stale_4)" by code_simp
  ultimately have "cb_reach bulk_cfg (stale_4, [(HalfOpen, 1)] @ [(HalfOpen, period stale_4)], [CountedError, CountedError])" by (rule reach_admit)
  then show ?thesis by (simp add: bulk_cfg_def stale_periods(3))
qed

text \<open>A call admitted before the circuit opened closes it when it succeeds, inside the cooldown.\<close>

lemma stale_success_closes_open_circuit:
  "cb_state b = Open \<Longrightarrow> cb_state (run_settle cfg now Closed Resolved b) = Closed"
  by (simp add: cb_defs)

text \<open>A reset timeout of zero is taken as absent.\<close>

lemma zero_reset_timeout_ignored:
  "new_config \<lparr>opt_failureThreshold = None, opt_resetTimeout = Some (DNum (Fin 0)), opt_halfOpenMax = None,
     opt_maxConcurrent = None\<rparr> = Ok \<lparr>cb_threshold = 5, cb_resetMs = 30000, cb_halfOpenMax = 1, cb_maxConcurrent = None\<rparr>"
  by (simp add: new_config_def truthy_duration_def)

end
