(* ===== verification/App.thy ===== *)
theory App
  imports Queue Agent Http Config Machine Payload Namespaces Resilience
begin

text \<open>
  The application object (\<open>packages/zenzip/src/app.ts\<close>): the registries of queues, workflows, agents,
  schedules and machines with their guards, routes and middleware, and the life cycle: \<open>start\<close> translates
  the registries into registrations with the native engine, \<open>stop\<close> takes them down. The native engine
  (\<open>ZenRuntime\<close>) and the platform are arguments: records of the calls the application makes, acting on a
  state \<open>'n\<close>; user code acts on the world \<open>'w\<close>.
\<close>

section \<open>Options\<close>

text \<open>A retention window is a duration or \<open>"off"\<close>.\<close>

datatype retention = Off | Keep duration

record alert_options =
  al_interval :: "duration option"
  al_dlqThreshold :: "nat option"
  al_idle :: "duration option"

text \<open>
  \<open>op_payloads\<close> is present when large payloads are offloaded, with the store the user supplies, if any;
  the validated options are those of \<open>Config\<close>.
\<close>

record app_options =
  op_core :: zenzip_options
  op_dataDir :: "string option"
  op_handleSignals :: "bool option"
  op_sweep :: "duration option"
  op_schedulerTick :: "duration option"
  op_retentionSweep :: "duration option"
  op_retentionRuns :: "retention option"
  op_retentionEvents :: "retention option"
  op_payloads :: "string option option"
  op_encryptionKey :: "string option"
  op_alerts :: "alert_options option"
  op_logger :: bool
  op_onError :: bool

definition retentionMs :: "retention option \<Rightarrow> (exn, int option) res" where
  "retentionMs v =
     (case v of None \<Rightarrow> Ok None | Some Off \<Rightarrow> Ok (Some 0) | Some (Keep d) \<Rightarrow> rbind (ms_exn d) (\<lambda>n. Ok (Some n)))"

definition toError :: "exn \<Rightarrow> exn" where
  "toError e = (case e of OtherThrow v \<Rightarrow> Error (js_String v) | _ \<Rightarrow> e)"

text \<open>The callback shape of the binding: a decoding error rejects, a handler that returns resolves true.\<close>

definition toTsfnHandler ::
  "('j list \<Rightarrow> 'w \<Rightarrow> (exn, unit) res \<times> 'w) \<Rightarrow> exn option \<Rightarrow> 'j list \<Rightarrow> 'w \<Rightarrow> (exn, bool) res \<times> 'w" where
  "toTsfnHandler run err js w =
     (case err of
        Some e \<Rightarrow> (Throw e, w)
      | None \<Rightarrow>
          (case run js w of
             (Inr _, w') \<Rightarrow> (Ok True, w')
           | (Inl e, w') \<Rightarrow> (Throw (toError e), w')))"

section \<open>What is registered\<close>

record wf_options =
  wo_concurrency :: "int option"
  wo_stepRetries :: "int option"
  wo_backoffDelay :: "duration option"
  wo_backoffMaxDelay :: "duration option"
  wo_lease :: "duration option"
  wo_on :: on_option
  wo_http :: "string option"

definition no_wf_options :: wf_options where
  "no_wf_options = \<lparr>wo_concurrency = None, wo_stepRetries = None, wo_backoffDelay = None, wo_backoffMaxDelay = None,
     wo_lease = None, wo_on = OnNone, wo_http = None\<rparr>"

record 'w app_workflow =
  aw_flow :: "'w workflow"
  aw_options :: wf_options

text \<open>The two call shapes of \<open>app.workflow\<close>: the function alone, or options and then the function.\<close>

datatype 'w wf_arg = FnArg "'w wf_fn" | OptsArg wf_options "'w wf_fn option"

record sched_options =
  sc_timezone :: "string option"
  sc_overlap :: "string option"
  sc_catchup :: "string option"
  sc_jitter :: "duration option"

datatype sched_spec = CronStr string | CronSpec string sched_options | EverySpec duration sched_options

type_synonym 'w sched_handler = "jsval \<Rightarrow> 'w \<Rightarrow> (exn, unit) res \<times> 'w"

record 'w schedule_reg =
  sr_name :: string
  sr_cron :: "string option"
  sr_everyMs :: "int option"
  sr_timezone :: "string option"
  sr_overlap :: "string option"
  sr_catchup :: "string option"
  sr_jitterMs :: "int option"
  sr_handler :: "'w sched_handler"

text \<open>
  The routes of the application: the user's, the webhooks of workflows, the two health probes. A codec is
  known by its store and its threshold.
\<close>

datatype 'h app_route = UserRoute 'h | Webhook string | Healthz | Readyz

datatype blob_choice = FsBlobs string | UserBlobs string

record codec_choice =
  cc_store :: blob_choice
  cc_threshold :: jsnum

type_synonym 'w job_queue = "(delivered, 'w) consumer queue"

record ('w, 'n, 'h, 'm) app =
  a_options :: app_options
  a_queues :: "(string, 'w job_queue) jsmap"
  a_schedules :: "(string, 'w schedule_reg) jsmap"
  a_workflows :: "(string, 'w app_workflow) jsmap"
  a_agents :: "(string, 'w agent_options) jsmap"
  a_machines :: "(string, machine_spec) jsmap"
  a_router :: "'h app_route http_router"
  a_middleware :: "'m layer list"
  a_servers :: "nat list"
  a_codec :: "codec_choice option"
  a_native :: "'n option"
  a_started :: bool
  a_signals :: bool
  a_alertTimer :: "int option"
  a_lastDlq :: "(string, nat) jsmap"

definition new_app :: "app_options \<Rightarrow> ('w, 'n, 'h, 'm) app" where
  "new_app o' =
     \<lparr>a_options = o', a_queues = [], a_schedules = [], a_workflows = [], a_agents = [], a_machines = [],
      a_router = new_router, a_middleware = [], a_servers = [], a_codec = None, a_native = None, a_started = False,
      a_signals = False, a_alertTimer = None, a_lastDlq = []\<rparr>"

section \<open>Registration\<close>

definition before_start :: "string \<Rightarrow> ('w, 'n, 'h, 'm) app \<Rightarrow> (exn, unit) res" where
  "before_start what a = guard_throw (a_started a) (Error (what @ '' before app.start()''))"

definition not_defined :: "string \<Rightarrow> string \<Rightarrow> ('k, 'v) jsmap \<Rightarrow> 'k \<Rightarrow> (exn, unit) res" where
  "not_defined kind name m k = guard_throw (map_has m k) (Error (kind @ '' '' @ quoted name @ '' already defined''))"

definition app_queue :: "string \<Rightarrow> queue_options \<Rightarrow> ('w, 'n, 'h, 'm) app \<Rightarrow> (exn, 'w job_queue \<times> ('w, 'n, 'h, 'm) app) res" where
  "app_queue name o' a =
     rbind (before_start ''define queues'' a) (\<lambda>_.
     rbind (not_defined ''queue'' name (a_queues a) name) (\<lambda>_.
       let q = new_queue name o' in Ok (q, a\<lparr>a_queues := map_set name q (a_queues a)\<rparr>)))"

fun wf_parts :: "'w wf_arg \<Rightarrow> wf_options \<times> 'w wf_fn option" where
  "wf_parts (FnArg f) = (no_wf_options, Some f)"
| "wf_parts (OptsArg o' f) = (o', f)"

definition app_workflow :: "string \<Rightarrow> 'w wf_arg \<Rightarrow> ('w, 'n, 'h, 'm) app \<Rightarrow> (exn, 'w app_workflow \<times> ('w, 'n, 'h, 'm) app) res" where
  "app_workflow name arg a =
     rbind (before_start ''define workflows'' a) (\<lambda>_.
     rbind (not_defined ''workflow'' name (a_workflows a) name) (\<lambda>_.
       case wf_parts arg of
         (o', None) \<Rightarrow> Throw (Error (''workflow '' @ quoted name @ '': missing the workflow function''))
       | (o', Some f) \<Rightarrow>
           let wf = \<lparr>aw_flow = new_workflow name f, aw_options = o'\<rparr>
           in Ok (wf, a\<lparr>a_workflows := map_set name wf (a_workflows a)\<rparr>)))"

text \<open>
  The agent's own options of the registration: concurrency, step retries, lease, circuit breaker. \<open>src\<close> is
  the text of the arrow function the constructor passes, the same for every agent.
\<close>

record agent_reg =
  ag_concurrency :: "int option"
  ag_stepRetries :: "int option"
  ag_lease :: "duration option"
  ag_circuitBreaker :: "cb_options option"

definition agent_wf_options :: "agent_reg \<Rightarrow> wf_options" where
  "agent_wf_options g = no_wf_options\<lparr>wo_concurrency := ag_concurrency g,
     wo_stepRetries := Some (case ag_stepRetries g of Some n \<Rightarrow> n | None \<Rightarrow> 2),
     wo_lease := Some (case ag_lease g of Some d \<Rightarrow> d | None \<Rightarrow> DStr ''5m'')\<rparr>"

definition app_agent ::
  "string \<Rightarrow> string \<Rightarrow> agent_reg \<Rightarrow> 'w agent_options \<Rightarrow> ('w, 'n, 'h, 'm) app \<Rightarrow> (exn, ('w, 'n, 'h, 'm) app) res" where
  "app_agent src name g o' a =
     rbind (before_start ''define agents'' a) (\<lambda>_.
     rbind (case ag_circuitBreaker g of
              None \<Rightarrow> Ok ()
            | Some cb \<Rightarrow> (case new_config cb of Inl e \<Rightarrow> Throw (Error (duration_message e)) | Inr _ \<Rightarrow> Ok ())) (\<lambda>_.
     rbind (app_workflow (agent_workflow name) (OptsArg (agent_wf_options g) (Some \<lparr>fn_source = src, fn_run = agent_fn name o'\<rparr>)) a) (\<lambda>(wf, a').
       Ok (a'\<lparr>a_agents := map_set name o' (a_agents a')\<rparr>))))"

definition app_machine :: "string \<Rightarrow> machine_spec \<Rightarrow> ('w, 'n, 'h, 'm) app \<Rightarrow> (exn, ('w, 'n, 'h, 'm) app) res" where
  "app_machine name d a =
     rbind (before_start ''define machines'' a) (\<lambda>_.
     rbind (not_defined ''machine'' name (a_machines a) name) (\<lambda>_.
       Ok (a\<lparr>a_machines := map_set name d (a_machines a)\<rparr>)))"

fun schedule_parts :: "sched_spec \<Rightarrow> (exn, string option \<times> int option \<times> sched_options option) res" where
  "schedule_parts (CronStr c) = Ok (Some c, None, None)"
| "schedule_parts (CronSpec c o') = Ok (Some c, None, Some o')"
| "schedule_parts (EverySpec d o') = rbind (ms_exn d) (\<lambda>n. Ok (None, Some n, Some o'))"

definition schedule_entry :: "string \<Rightarrow> sched_spec \<Rightarrow> 'w sched_handler \<Rightarrow> (exn, 'w schedule_reg) res" where
  "schedule_entry name spec h =
     rbind (schedule_parts spec) (\<lambda>(cron, every, o').
     rbind (opt_ms (case o' of Some p \<Rightarrow> sc_jitter p | None \<Rightarrow> None)) (\<lambda>jitter.
       Ok \<lparr>sr_name = name, sr_cron = cron, sr_everyMs = every,
          sr_timezone = (case o' of Some p \<Rightarrow> sc_timezone p | None \<Rightarrow> None),
          sr_overlap = (case o' of Some p \<Rightarrow> sc_overlap p | None \<Rightarrow> None),
          sr_catchup = (case o' of Some p \<Rightarrow> sc_catchup p | None \<Rightarrow> None), sr_jitterMs = jitter, sr_handler = h\<rparr>))"

definition app_schedule :: "string \<Rightarrow> sched_spec \<Rightarrow> 'w sched_handler \<Rightarrow> ('w, 'n, 'h, 'm) app \<Rightarrow> (exn, ('w, 'n, 'h, 'm) app) res" where
  "app_schedule name spec h a =
     rbind (before_start ''define schedules'' a) (\<lambda>_.
     rbind (not_defined ''schedule'' name (a_schedules a) name) (\<lambda>_.
     rbind (schedule_entry name spec h) (\<lambda>reg.
       Ok (a\<lparr>a_schedules := map_set name reg (a_schedules a)\<rparr>))))"

text \<open>
  The handles of the registries change in place: a queue takes its consumer, a workflow an older version
  of its function.
\<close>

definition on_queue :: "string \<Rightarrow> ('w job_queue \<Rightarrow> (exn, 'w job_queue) res) \<Rightarrow> ('w, 'n, 'h, 'm) app \<Rightarrow> (exn, ('w, 'n, 'h, 'm) app) res" where
  "on_queue name f a =
     (case map_get (a_queues a) name of
        None \<Rightarrow> Ok a
      | Some q \<Rightarrow> rbind (f q) (\<lambda>q'. Ok (a\<lparr>a_queues := map_set name q' (a_queues a)\<rparr>)))"

definition app_process :: "string \<Rightarrow> (delivered, 'w) consumer \<Rightarrow> ('w, 'n, 'h, 'm) app \<Rightarrow> (exn, ('w, 'n, 'h, 'm) app) res" where
  "app_process name h a = on_queue name (process (a_started a) h) a"

definition app_processBatch :: "string \<Rightarrow> (delivered, 'w) consumer \<Rightarrow> int \<Rightarrow> ('w, 'n, 'h, 'm) app \<Rightarrow> (exn, ('w, 'n, 'h, 'm) app) res" where
  "app_processBatch name h n a = on_queue name (processBatch (a_started a) h n) a"

definition app_version :: "string \<Rightarrow> 'w wf_fn \<Rightarrow> ('w, 'n, 'h, 'm) app \<Rightarrow> ('w, 'n, 'h, 'm) app" where
  "app_version name legacy a =
     (case map_get (a_workflows a) name of
        None \<Rightarrow> a
      | Some aw \<Rightarrow> a\<lparr>a_workflows := map_set name (aw\<lparr>aw_flow := version legacy (aw_flow aw)\<rparr>) (a_workflows a)\<rparr>)"

section \<open>Middleware and routes\<close>

text \<open>
  The call shapes of \<open>app.use\<close>. An argument that is not a function is \<open>None\<close>; the loop has pushed what
  came before it when it throws.
\<close>

datatype ('h, 'm) use_arg =
    UseRouter "('h, 'm) router"
  | UsePathRouter string "('h, 'm) router"
  | UseFns "string option" "'m mw_fn option list"

fun push_layers :: "string option \<Rightarrow> 'm mw_fn option list \<Rightarrow> 'm layer list \<Rightarrow> (exn, unit) res \<times> 'm layer list" where
  "push_layers path [] ls = (Ok (), ls)"
| "push_layers path (None # fs) ls = (Throw (Error ''app.use() expects middleware function(s)''), ls)"
| "push_layers path (Some f # fs) ls = push_layers path fs (ls @ [middlewareLayer f path])"

definition route_exn :: "route_error \<Rightarrow> exn" where
  "route_exn e = (case e of BadPath p \<Rightarrow> Error (''route path must start with '' @ [DQ] @ ''/'' @ [DQ] @ '': '' @ p) | URIError _ \<Rightarrow> Error ''URI malformed'')"

definition add_route :: "string \<Rightarrow> string \<Rightarrow> 'h app_route \<Rightarrow> 'h app_route http_router \<Rightarrow> (exn, 'h app_route http_router) res" where
  "add_route meth path h r = (case router_add meth path h r of Inl e \<Rightarrow> Throw (route_exn e) | Inr r' \<Rightarrow> Ok r')"

fun add_routes :: "(string \<times> string \<times> 'h app_route) list \<Rightarrow> 'h app_route http_router \<Rightarrow> (exn, unit) res \<times> 'h app_route http_router" where
  "add_routes [] r = (Ok (), r)"
| "add_routes ((meth, path, h) # rs) r =
     (case add_route meth path h r of Inl e \<Rightarrow> (Throw e, r) | Inr r' \<Rightarrow> add_routes rs r')"

definition mountRouter :: "string \<Rightarrow> ('h, 'm) router \<Rightarrow> ('w, 'n, 'h, 'm) app \<Rightarrow> (exn, unit) res \<times> ('w, 'n, 'h, 'm) app" where
  "mountRouter pre sub a =
     (case collect pre sub of
        (routes, layers) \<Rightarrow>
          (case add_routes (map (\<lambda>(m, p, h). (m, p, UserRoute h)) routes) (a_router a) of
             (out, r) \<Rightarrow> (out, a\<lparr>a_middleware := a_middleware a @ layers, a_router := r\<rparr>)))"

definition app_use :: "('h, 'm) use_arg \<Rightarrow> ('w, 'n, 'h, 'm) app \<Rightarrow> (exn, unit) res \<times> ('w, 'n, 'h, 'm) app" where
  "app_use arg a =
     (if a_started a then (Throw (Error ''register middleware before app.start()''), a)
      else case arg of
        UseRouter r \<Rightarrow> mountRouter ''/'' r a
      | UsePathRouter path r \<Rightarrow> mountRouter path r a
      | UseFns path fs \<Rightarrow>
          if fs = [] then (Throw (Error ''app.use() expects at least one middleware function''), a)
          else (case push_layers path fs (a_middleware a) of (out, ls) \<Rightarrow> (out, a\<lparr>a_middleware := ls\<rparr>)))"

text \<open>\<open>get\<close>, \<open>post\<close>, \<open>put\<close>, \<open>patch\<close>, \<open>delete\<close>: allowed at any time.\<close>

definition app_route :: "string \<Rightarrow> string \<Rightarrow> 'h \<Rightarrow> ('w, 'n, 'h, 'm) app \<Rightarrow> (exn, ('w, 'n, 'h, 'm) app) res" where
  "app_route meth path h a = rbind (add_route meth path (UserRoute h) (a_router a)) (\<lambda>r. Ok (a\<lparr>a_router := r\<rparr>))"

abbreviation app_get :: "string \<Rightarrow> 'h \<Rightarrow> ('w, 'n, 'h, 'm) app \<Rightarrow> (exn, ('w, 'n, 'h, 'm) app) res" where
  "app_get \<equiv> app_route ''GET''"

section \<open>What start registers with the engine\<close>

record runtime_config =
  rc_dataDir :: string
  rc_postgresUrl :: "string option"
  rc_sweepMs :: "int option"
  rc_schedulerTickMs :: "int option"
  rc_workerThreads :: "jsnum option"
  rc_logLevel :: "string option"
  rc_gcSweepMs :: "int option"
  rc_runRetentionMs :: "int option"
  rc_eventRetentionMs :: "int option"
  rc_encryptionKey :: "string option"
  rc_logCallback :: bool

record 'w queue_reg =
  qr_name :: string
  qr_concurrency :: "int option"
  qr_concurrencyKeyLimit :: "int option"
  qr_maxAttempts :: int
  qr_backoffDelayMs :: "int option"
  qr_backoffMaxDelayMs :: "int option"
  qr_leaseMs :: "int option"
  qr_pollMs :: "int option"
  qr_batch :: "int option"
  qr_handlerBatch :: int
  qr_rateLimitMax :: "int option"
  qr_rateLimitPerMs :: "int option"
  qr_fair :: "bool option"
  qr_callback :: "exn option \<Rightarrow> claimed_job list \<Rightarrow> 'w \<Rightarrow> (exn, bool) res \<times> 'w"

record workflow_reg =
  wr_name :: string
  wr_version :: string
  wr_concurrency :: "int option"
  wr_stepMaxAttempts :: int
  wr_stepBackoffDelayMs :: "int option"
  wr_stepBackoffMaxDelayMs :: "int option"
  wr_leaseMs :: "int option"
  wr_triggers :: "string list option"

record 'w native_schedule =
  ns_reg :: "'w schedule_reg"
  ns_callback :: "exn option \<Rightarrow> string list \<Rightarrow> 'w \<Rightarrow> (exn, bool) res \<times> 'w"

record native_machine =
  nm_name :: string
  nm_initial :: string
  nm_transitions :: "(string \<times> string \<times> string) list"

text \<open>The calls of \<open>start\<close> and \<open>stop\<close> on the engine; each may throw, \<open>stop\<close> says whether all drained.\<close>

record ('w, 'n) native_ops =
  new_runtime :: "runtime_config \<Rightarrow> (exn, 'n) res"
  registerQueue :: "'w queue_reg \<Rightarrow> 'n \<Rightarrow> (exn, 'n) res"
  registerWorkflow :: "workflow_reg \<Rightarrow> 'n \<Rightarrow> (exn, 'n) res"
  registerSchedule :: "'w native_schedule \<Rightarrow> 'n \<Rightarrow> (exn, 'n) res"
  registerMachine :: "native_machine \<Rightarrow> 'n \<Rightarrow> (exn, 'n) res"
  native_start :: "'n \<Rightarrow> (exn, 'n) res"
  native_stop :: "int \<Rightarrow> 'n \<Rightarrow> bool \<times> 'n"
  healthCheck :: "'n \<Rightarrow> bool"

record ('w, 'u) platform =
  pf_now :: "'w \<Rightarrow> int"
  pf_url :: "'u url_lib"
  pf_codec :: "codec_choice \<Rightarrow> 'w codec"

definition new_codec :: "app_options \<Rightarrow> codec_choice option" where
  "new_codec o' =
     (case op_payloads o' of
        None \<Rightarrow> None
      | Some store \<Rightarrow> Some
          \<lparr>cc_store = (case store of Some b \<Rightarrow> UserBlobs b
                      | None \<Rightarrow> FsBlobs (path_join (case op_dataDir o' of Some d \<Rightarrow> d | None \<Rightarrow> ''.zenzip'') ''blobs'')),
           cc_threshold = (case zo_threshold (op_core o') of Some t \<Rightarrow> t | None \<Rightarrow> Fin 65536)\<rparr>)"

definition runtime_options :: "app_options \<Rightarrow> (exn, runtime_config) res" where
  "runtime_options o' =
     rbind (opt_ms (op_sweep o')) (\<lambda>sweep.
     rbind (opt_ms (op_schedulerTick o')) (\<lambda>tick.
     rbind (opt_ms (op_retentionSweep o')) (\<lambda>gc.
     rbind (retentionMs (op_retentionRuns o')) (\<lambda>runs.
     rbind (retentionMs (op_retentionEvents o')) (\<lambda>events.
       Ok \<lparr>rc_dataDir = (case op_dataDir o' of Some d \<Rightarrow> d | None \<Rightarrow> ''.zenzip''),
          rc_postgresUrl = (case zo_store (op_core o') of Some (Postgres url) \<Rightarrow> url | _ \<Rightarrow> None),
          rc_sweepMs = sweep, rc_schedulerTickMs = tick, rc_workerThreads = zo_workerThreads (op_core o'),
          rc_logLevel = zo_logLevel (op_core o'), rc_gcSweepMs = gc, rc_runRetentionMs = runs, rc_eventRetentionMs = events,
          rc_encryptionKey = op_encryptionKey o', rc_logCallback = (op_logger o' \<or> op_onError o')\<rparr>)))))"

section \<open>Queues\<close>

definition has_consumer :: "'h queue \<Rightarrow> bool" where
  "has_consumer q \<longleftrightarrow> q_handler q \<noteq> None \<or> q_batchHandler q \<noteq> None"

text \<open>The callback of a queue: parse every job of the delivery, then dispatch.\<close>

definition queue_run :: "'w job_queue \<Rightarrow> claimed_job list \<Rightarrow> 'w \<Rightarrow> (exn, unit) res \<times> 'w" where
  "queue_run q cs w = (case rmap (parseJob (q_name q)) cs of Inl e \<Rightarrow> (Throw e, w) | Inr js \<Rightarrow> dispatch q js w)"

definition queue_entry :: "'w job_queue \<Rightarrow> (exn, 'w queue_reg) res" where
  "queue_entry q =
     (let o' = q_options q in
      rbind (opt_ms (qo_backoffDelay o')) (\<lambda>delay.
      rbind (opt_ms (qo_backoffMaxDelay o')) (\<lambda>maxDelay.
      rbind (opt_ms (qo_lease o')) (\<lambda>lease.
      rbind (opt_ms (qo_poll o')) (\<lambda>poll.
      rbind (opt_ms (map_option snd (qo_rateLimit o'))) (\<lambda>per.
        Ok \<lparr>qr_name = q_name q,
           qr_concurrency = (case qo_concurrency o' of Some (ConcLimit n) \<Rightarrow> Some n | _ \<Rightarrow> None),
           qr_concurrencyKeyLimit = (case qo_concurrency o' of Some (ConcKey n _) \<Rightarrow> Some n | _ \<Rightarrow> None),
           qr_maxAttempts = (case qo_retries o' of Some r \<Rightarrow> r | None \<Rightarrow> DEFAULT_RETRIES) + 1,
           qr_backoffDelayMs = delay, qr_backoffMaxDelayMs = maxDelay, qr_leaseMs = lease, qr_pollMs = poll,
           qr_batch = qo_batch o', qr_handlerBatch = q_batchSize q, qr_rateLimitMax = map_option fst (qo_rateLimit o'),
           qr_rateLimitPerMs = per, qr_fair = qo_fair o', qr_callback = toTsfnHandler (queue_run q)\<rparr>))))))"

text \<open>A registration loop: each entry is translated and handed to the engine, the first throw ends it.\<close>

fun register_each :: "('q \<Rightarrow> (exn, 'r) res) \<Rightarrow> ('r \<Rightarrow> 'n \<Rightarrow> (exn, 'n) res) \<Rightarrow> 'q list \<Rightarrow> 'n \<Rightarrow> (exn, 'n) res" where
  "register_each entry reg [] n = Ok n"
| "register_each entry reg (x # xs) n =
     rbind (entry x) (\<lambda>r. rbind (reg r n) (\<lambda>n'. register_each entry reg xs n'))"

section \<open>Workflows, schedules, machines\<close>

definition not_space :: "char \<Rightarrow> bool" where "not_space c \<longleftrightarrow> \<not> is_space c"

text \<open>\<open>const [method, path] = o.http.split(/\s+/)\<close>.\<close>

definition http_parts :: "string \<Rightarrow> string \<times> string option" where
  "http_parts s =
     (let rest = dropWhile not_space s
      in (takeWhile not_space s, if rest = [] then None else Some (takeWhile not_space (dropWhile is_space rest))))"

definition add_webhook ::
  "'w app_workflow \<Rightarrow> 'h app_route http_router \<Rightarrow> (exn, 'h app_route http_router) res" where
  "add_webhook aw r =
     (let name = wf_name (aw_flow aw) in
      case wo_http (aw_options aw) of
        None \<Rightarrow> Ok r
      | Some [] \<Rightarrow> Ok r
      | Some h \<Rightarrow>
          (case http_parts h of
             (meth, path) \<Rightarrow>
               if meth = [] \<or> \<not> (case path of Some p \<Rightarrow> startsWith p ''/'' | None \<Rightarrow> False)
               then Throw (Error (''workflow '' @ quoted name @ '': http option must look like '' @ quoted ''POST /hooks/x''))
               else add_route meth (the path) (Webhook name) r))"

definition trigger_patterns :: "on_option \<Rightarrow> string list option" where
  "trigger_patterns o' = (case o' of OnNone \<Rightarrow> None | OnOne p \<Rightarrow> Some [p] | OnMany ps \<Rightarrow> Some ps)"

definition workflow_entry :: "'w app_workflow \<Rightarrow> (exn, workflow_reg) res" where
  "workflow_entry aw =
     (let o' = aw_options aw in
      rbind (opt_ms (wo_backoffDelay o')) (\<lambda>delay.
      rbind (opt_ms (wo_backoffMaxDelay o')) (\<lambda>maxDelay.
      rbind (opt_ms (wo_lease o')) (\<lambda>lease.
        Ok \<lparr>wr_name = wf_name (aw_flow aw), wr_version = wf_version (aw_flow aw), wr_concurrency = wo_concurrency o',
           wr_stepMaxAttempts = (case wo_stepRetries o' of Some r \<Rightarrow> r | None \<Rightarrow> 2) + 1,
           wr_stepBackoffDelayMs = delay, wr_stepBackoffMaxDelayMs = maxDelay, wr_leaseMs = lease,
           wr_triggers = trigger_patterns (wo_on o')\<rparr>))))"

fun register_workflows ::
  "('w, 'n) native_ops \<Rightarrow> 'w app_workflow list \<Rightarrow> 'h app_route http_router \<Rightarrow> 'n
     \<Rightarrow> (exn, 'n) res \<times> 'h app_route http_router" where
  "register_workflows ops [] r n = (Ok n, r)"
| "register_workflows ops (aw # aws) r n =
     (case add_webhook aw r of
        Inl e \<Rightarrow> (Throw e, r)
      | Inr r1 \<Rightarrow>
          (case rbind (workflow_entry aw) (\<lambda>w. registerWorkflow ops w n) of
             Inl e \<Rightarrow> (Throw e, r1)
           | Inr n1 \<Rightarrow> register_workflows ops aws r1 n1))"

fun each_tick :: "'w sched_handler \<Rightarrow> string list \<Rightarrow> 'w \<Rightarrow> (exn, unit) res \<times> 'w" where
  "each_tick h [] w = (Ok (), w)"
| "each_tick h (t # ts) w =
     (case parse_exn t of
        Inl e \<Rightarrow> (Throw e, w)
      | Inr tick \<Rightarrow> (case h tick w of (Inl e, w') \<Rightarrow> (Throw e, w') | (Inr _, w') \<Rightarrow> each_tick h ts w'))"

definition native_schedule_of :: "'w schedule_reg \<Rightarrow> 'w native_schedule" where
  "native_schedule_of reg = \<lparr>ns_reg = reg, ns_callback = toTsfnHandler (each_tick (sr_handler reg))\<rparr>"

definition native_machine_of :: "string \<times> machine_spec \<Rightarrow> native_machine" where
  "native_machine_of nd = \<lparr>nm_name = fst nd, nm_initial = ms_initial (snd nd), nm_transitions = transition_list (snd nd)\<rparr>"

section \<open>Start and stop\<close>

text \<open>The engine of a start that fails half way is dropped: the application never keeps it.\<close>

definition register_all ::
  "('w, 'n) native_ops \<Rightarrow> ('w, 'n, 'h, 'm) app \<Rightarrow> (exn, 'n) res \<times> 'h app_route http_router" where
  "register_all ops a =
     (case rbind (runtime_options (a_options a)) (\<lambda>cfg.
           rbind (new_runtime ops cfg) (\<lambda>n.
             register_each queue_entry (registerQueue ops) (filter has_consumer (map snd (a_queues a))) n)) of
        Inl e \<Rightarrow> (Throw e, a_router a)
      | Inr n \<Rightarrow>
          (case register_workflows ops (map snd (a_workflows a)) (a_router a) n of
             (Inl e, r) \<Rightarrow> (Throw e, r)
           | (Inr n1, r) \<Rightarrow>
               (rbind (register_each (\<lambda>reg. Ok (native_schedule_of reg)) (registerSchedule ops) (map snd (a_schedules a)) n1) (\<lambda>n2.
                rbind (register_each (\<lambda>d. Ok (native_machine_of d)) (registerMachine ops) (a_machines a) n2) (\<lambda>n3.
                  native_start ops n3)), r)))"

definition startAlerts :: "('w, 'n, 'h, 'm) app \<Rightarrow> (exn, unit) res \<times> ('w, 'n, 'h, 'm) app" where
  "startAlerts a =
     (case op_alerts (a_options a) of
        None \<Rightarrow> (Ok (), a)
      | Some cfg \<Rightarrow>
          (case opt_ms (al_interval cfg) of
             Inl e \<Rightarrow> (Throw e, a)
           | Inr i \<Rightarrow> (Ok (), a\<lparr>a_alertTimer := Some (case i of Some n \<Rightarrow> n | None \<Rightarrow> 60000)\<rparr>)))"

definition health_routes :: "(string \<times> string \<times> 'h app_route) list" where
  "health_routes = [(''GET'', ''/healthz'', Healthz), (''GET'', ''/readyz'', Readyz)]"

definition app_start ::
  "('w, 'u) platform \<Rightarrow> ('w, 'n) native_ops \<Rightarrow> ('w, 'n, 'h, 'm) app \<Rightarrow> (exn, unit) res \<times> ('w, 'n, 'h, 'm) app" where
  "app_start pf ops a =
     (if a_started a then (Throw (Error ''app already started''), a)
      else case validateConfig (pf_url pf) (op_core (a_options a)) of
        Inl msg \<Rightarrow> (Throw (Error msg), a)
      | Inr _ \<Rightarrow>
          (let a1 = a\<lparr>a_codec := (case new_codec (a_options a) of Some c \<Rightarrow> Some c | None \<Rightarrow> a_codec a)\<rparr> in
           case register_all ops a1 of
             (Inl e, r) \<Rightarrow> (Throw e, a1\<lparr>a_router := r\<rparr>)
           | (Inr n, r) \<Rightarrow>
               startAlerts (a1\<lparr>a_native := Some n, a_started := True,
                 a_router := snd (add_routes health_routes r),
                 a_signals := (op_handleSignals (a_options a) \<noteq> Some False)\<rparr>)))"

text \<open>
  \<open>stop\<close>. The third result is the engine that is left behind: stopped, or, when the drain timeout is not a
  duration, still running though the application has let go of it.
\<close>

record stop_options =
  st_timeout :: "duration option"
  st_httpDrain :: "duration option"

definition app_stop ::
  "('w, 'n) native_ops \<Rightarrow> stop_options \<Rightarrow> ('w, 'n, 'h, 'm) app \<Rightarrow> (exn, bool) res \<times> ('w, 'n, 'h, 'm) app \<times> 'n option" where
  "app_stop ops o' a =
     (case opt_ms (st_httpDrain o') of
        Inl e \<Rightarrow> (Throw e, a, None)
      | Inr _ \<Rightarrow>
          (let a1 = a\<lparr>a_servers := []\<rparr> in
           case a_native a1 of
             None \<Rightarrow> (Ok True, a1, None)
           | Some n \<Rightarrow>
               (let a2 = a1\<lparr>a_alertTimer := None, a_native := None, a_started := False, a_signals := False\<rparr> in
                case opt_ms (st_timeout o') of
                  Inl e \<Rightarrow> (Throw e, a2, Some n)
                | Inr t \<Rightarrow> (case native_stop ops (case t of Some drain \<Rightarrow> drain | None \<Rightarrow> 30000) n of
                    (drained, n') \<Rightarrow> (Ok drained, a2, Some n')))))"

text \<open>
  The executor registered for a workflow looks at the workflow and the codec when it is called: a decoding
  error rejects, otherwise the attempt runs the function its pinned version names.
\<close>

definition codec_of :: "('w, 'u) platform \<Rightarrow> ('w, 'n, 'h, 'm) app \<Rightarrow> 'w codec option" where
  "codec_of pf a = map_option (pf_codec pf) (a_codec a)"

definition app_execute ::
  "('w, 'u) platform \<Rightarrow> ('w, 'n, 'h, 'm) app \<Rightarrow> 'w app_workflow \<Rightarrow> exn option \<Rightarrow> exec_req \<Rightarrow> 'w
     \<Rightarrow> string list \<times> (exn, string) res \<times> 'w attempt" where
  "app_execute pf a aw err req w =
     (case err of
        Some e \<Rightarrow> ([], Throw e, Workflow.start w)
      | None \<Rightarrow> execute_routed (pf_now pf) (aw_flow aw) req (codec_of pf a) w)"

section \<open>Health, servers, mountable handlers\<close>

record health_status =
  hl_alive :: bool
  hl_ready :: bool

definition app_health :: "('w, 'n) native_ops \<Rightarrow> ('w, 'n, 'h, 'm) app \<Rightarrow> health_status" where
  "app_health ops a =
     \<lparr>hl_alive = (a_native a \<noteq> None),
      hl_ready = (case a_native a of None \<Rightarrow> False | Some n \<Rightarrow> healthCheck ops n)\<rparr>"

definition native_of :: "('w, 'n, 'h, 'm) app \<Rightarrow> (exn, 'n) res" where
  "native_of a = (case a_native a of None \<Rightarrow> Throw not_started | Some n \<Rightarrow> Ok n)"

text \<open>The answers of the probe routes; the readiness probe of a stopped application throws.\<close>

definition probe_answer :: "('w, 'n) native_ops \<Rightarrow> ('w, 'n, 'h, 'm) app \<Rightarrow> 'h app_route \<Rightarrow> (exn, int \<times> jsval) res option" where
  "probe_answer ops a rt =
     (case rt of
        Healthz \<Rightarrow> Some (Ok (200, JObj [(''status'', JStr ''alive'')]))
      | Readyz \<Rightarrow> Some (rbind (native_of a) (\<lambda>n.
          if healthCheck ops n then Ok (200, JObj [(''status'', JStr ''ready'')])
          else Ok (503, JObj [(''status'', JStr ''unavailable'')])))
      | _ \<Rightarrow> None)"

text \<open>
  What needs a started application: \<open>listen\<close>, \<open>dashboard\<close> and \<open>mcpServer\<close> keep their server, which the
  platform opens or refuses; the three handlers are handed out.
\<close>

definition after_start :: "string \<Rightarrow> ('w, 'n, 'h, 'm) app \<Rightarrow> (exn, unit) res" where
  "after_start what a = guard_throw (\<not> a_started a) (Error (''call app.'' @ what @ ''() after app.start()''))"

definition open_server ::
  "string \<Rightarrow> (int \<Rightarrow> string \<Rightarrow> (exn, nat) res) \<Rightarrow> int option \<Rightarrow> int \<Rightarrow> string option \<Rightarrow> ('w, 'n, 'h, 'm) app
     \<Rightarrow> (exn, nat \<times> ('w, 'n, 'h, 'm) app) res" where
  "open_server what serve port fallback host a =
     rbind (after_start what a) (\<lambda>_.
     rbind (serve (case port of Some p \<Rightarrow> p | None \<Rightarrow> fallback) (case host of Some h \<Rightarrow> h | None \<Rightarrow> ''127.0.0.1'')) (\<lambda>server.
       Ok (server, a\<lparr>a_servers := a_servers a @ [server]\<rparr>)))"

definition app_listen :: "(int \<Rightarrow> string \<Rightarrow> (exn, nat) res) \<Rightarrow> int option \<Rightarrow> string option \<Rightarrow> ('w, 'n, 'h, 'm) app
    \<Rightarrow> (exn, nat \<times> ('w, 'n, 'h, 'm) app) res" where
  "app_listen serve port host a = open_server ''listen'' serve port 3000 host a"

definition app_dashboard :: "(int \<Rightarrow> string \<Rightarrow> (exn, nat) res) \<Rightarrow> int option \<Rightarrow> string option \<Rightarrow> ('w, 'n, 'h, 'm) app
    \<Rightarrow> (exn, nat \<times> ('w, 'n, 'h, 'm) app) res" where
  "app_dashboard serve port host a = open_server ''dashboard'' serve port 4100 host a"

definition app_mcpServer :: "(int \<Rightarrow> string \<Rightarrow> (exn, nat) res) \<Rightarrow> int option \<Rightarrow> string option \<Rightarrow> ('w, 'n, 'h, 'm) app
    \<Rightarrow> (exn, nat \<times> ('w, 'n, 'h, 'm) app) res" where
  "app_mcpServer serve port host a = open_server ''mcpServer'' serve port 4200 host a"

definition handler_of :: "string \<Rightarrow> ('w, 'n, 'h, 'm) app \<Rightarrow> (exn, 'h app_route http_router \<times> 'm layer list) res" where
  "handler_of what a = rbind (after_start what a) (\<lambda>_. Ok (a_router a, a_middleware a))"

end
