(* ===== verification/Network.thy ===== *)
theory Network
  imports App
begin

text \<open>
  Multi-agent networks (\<open>packages/zenzip/src/network.ts\<close>): a coordinator agent whose tools are durable
  handoffs to its members. The coordinator is an ordinary agent of \<open>Agent\<close>; shown are where a call of one
  of its tools goes and how many model calls it can make. Two findings: members whose names fold to the
  same tool name, and \<open>maxHandoffs\<close>, which bounds model turns and not handoffs.
\<close>

section \<open>Members and the coordinator\<close>

record net_agent =
  na_name :: string
  na_instructions :: "string option"

datatype member = Bare "net_agent" | Described "net_agent" string

fun memberAgent :: "member \<Rightarrow> net_agent" where
  "memberAgent (Bare a) = a"
| "memberAgent (Described a _) = a"

definition first_line :: "string \<Rightarrow> string" where
  "first_line s = hd (split_on (CHR 0x0A) s)"

fun member_line :: "member \<Rightarrow> string" where
  "member_line (Bare a) =
     ''- '' @ na_name a @ '': '' @
     (let l = first_line (case na_instructions a of Some i \<Rightarrow> i | None \<Rightarrow> []) in if l = [] then ''specialist agent'' else l)"
| "member_line (Described a d) = ''- '' @ na_name a @ '': '' @ d"

definition defaultInstructions :: "member list \<Rightarrow> string" where
  "defaultInstructions members =
     join_with NL
       ([''You are a coordinator routing each request to the most suitable specialist.'',
         ''Delegate by calling the matching tool; you may consult more than one in'',
         ''sequence. When you have enough information, write the final answer yourself.'',
         [], ''Specialists:''] @ map member_line members)"

definition member_tool_name :: "member \<Rightarrow> string" where
  "member_tool_name m = ''ask_'' @ map tool_word (na_name (memberAgent m))"

fun member_description :: "member \<Rightarrow> string option" where
  "member_description (Bare a) = None"
| "member_description (Described a d) = Some (''Delegate to '' @ [DQ] @ na_name a @ [DQ] @ '': '' @ d)"

definition member_tool :: "member \<Rightarrow> 'w agent_tool" where
  "member_tool m = handoffTool (na_name (memberAgent m)) (Some (member_tool_name m)) (member_description m)"

record network_options =
  nw_model :: string
  nw_agents :: "member list"
  nw_instructions :: "string option"
  nw_maxHandoffs :: "int option"
  nw_maxTokens :: "int option"
  nw_temperature :: "jsval option"
  nw_output :: "(jsval \<Rightarrow> string list + jsval) option"
  nw_reg :: agent_reg

definition maxHandoffs :: "network_options \<Rightarrow> int" where
  "maxHandoffs n = (case nw_maxHandoffs n of Some h \<Rightarrow> h | None \<Rightarrow> 4)"

text \<open>
  The options the constructor hands to \<open>app.agent\<close>; \<open>wiring\<close> has the provider's calls, the breaker, the
  session store and the prices.
\<close>

definition coordinator_options :: "'w agent_options \<Rightarrow> network_options \<Rightarrow> 'w agent_options" where
  "coordinator_options wiring n =
     wiring\<lparr>ao_model := nw_model n,
       ao_instructions := Some (case nw_instructions n of Some i \<Rightarrow> i | None \<Rightarrow> defaultInstructions (nw_agents n)),
       ao_tools := map member_tool (nw_agents n), ao_maxIterations := Some (maxHandoffs n + 1),
       ao_maxTokens := nw_maxTokens n, ao_temperature := nw_temperature n, ao_output := nw_output n,
       ao_maxTotalTokens := None, ao_historyWindow := None, ao_approvalTimeout := None, ao_memory := None\<rparr>"

definition coordinator_reg :: "network_options \<Rightarrow> agent_reg" where
  "coordinator_reg n = (nw_reg n)\<lparr>ag_stepRetries := None\<rparr>"

definition app_network ::
  "string \<Rightarrow> string \<Rightarrow> 'w agent_options \<Rightarrow> network_options \<Rightarrow> ('w, 'n, 'h, 'm) app \<Rightarrow> (exn, ('w, 'n, 'h, 'm) app) res" where
  "app_network src name wiring n a =
     rbind (before_start ''define networks'' a) (\<lambda>_. app_agent src name (coordinator_reg n) (coordinator_options wiring n) a)"

definition ns_network ::
  "namespace \<Rightarrow> string \<Rightarrow> string \<Rightarrow> 'w agent_options \<Rightarrow> network_options \<Rightarrow> ('w, 'n, 'h, 'm) app \<Rightarrow> (exn, ('w, 'n, 'h, 'm) app) res" where
  "ns_network ns src name wiring n a = app_network src (key ns name) wiring n a"

definition network_agents :: "network_options \<Rightarrow> net_agent list" where
  "network_agents n = map memberAgent (nw_agents n)"

text \<open>\<open>run\<close>, \<open>trigger\<close>, \<open>getRun\<close> and \<open>cancel\<close> are the coordinator's.\<close>

definition network_run ::
  "'n engine \<Rightarrow> string \<Rightarrow> string \<Rightarrow> string option \<Rightarrow> duration option \<Rightarrow> string option \<Rightarrow> 'n handle_state
     \<Rightarrow> (exn, jsval) res \<times> 'n handle_state" where
  "network_run eng name message sessionId timeout streamKey s = agent_run eng name message sessionId timeout streamKey s"

definition network_trigger ::
  "'n engine \<Rightarrow> string \<Rightarrow> string \<Rightarrow> string option \<Rightarrow> string option \<Rightarrow> 'n handle_state \<Rightarrow> (exn, string) res \<times> 'n handle_state" where
  "network_trigger eng name message sessionId k s = agent_trigger eng name message sessionId k s"

definition network_getRun :: "'n engine \<Rightarrow> string \<Rightarrow> 'n handle_state \<Rightarrow> (exn, run_info option) res" where
  "network_getRun eng runId s = getRun eng runId s"

definition network_cancel :: "'n engine \<Rightarrow> string \<Rightarrow> string \<Rightarrow> 'n handle_state \<Rightarrow> int \<times> 'n handle_state" where
  "network_cancel eng name runId s = cancel eng (agent_workflow name) runId s"

section \<open>Where a call goes\<close>

lemma tool_table:
  "map_get (fold (\<lambda>t. map_set (t_name t) t) ts m) k =
     (case find (\<lambda>t. t_name t = k) (rev ts) of Some t \<Rightarrow> Some t | None \<Rightarrow> map_get m k)"
proof (induction ts rule: rev_induct)
  case (snoc t ts)
  then show ?case by (auto simp: jsmap_simps)
qed simp

lemma find_unique: "distinct (map f xs) \<Longrightarrow> x \<in> set xs \<Longrightarrow> find (\<lambda>y. f y = f x) xs = Some x"
  by (induction xs) (auto simp: image_iff)

lemma member_tool_simps [simp]:
  "t_name (member_tool m) = member_tool_name m" "t_requiresApproval (member_tool m) = False"
  "t_handoff (member_tool m) = Some (agent_workflow (na_name (memberAgent m)))"
  by (simp_all add: member_tool_def handoffTool_def agent_workflow_def)

lemma coordinator_table:
  "map_get (toolByName (coordinator_options wiring n)) k = find (\<lambda>t. t_name t = k) (rev (map member_tool (nw_agents n)))"
  by (simp add: toolByName_def coordinator_options_def tool_table split: option.split)

lemma find_member:
  assumes "distinct (map member_tool_name ms')" and "m \<in> set ms'"
  shows "find (\<lambda>t. t_name t = member_tool_name m) (rev (map member_tool ms')) = Some (member_tool m)"
  using find_unique [of t_name "rev (map member_tool ms')" "member_tool m"] assms
  by (simp add: rev_map [symmetric] comp_def)

lemma member_call:
  assumes "distinct (map member_tool_name (nw_agents n))" and "m \<in> set (nw_agents n)" and "use_name call = member_tool_name m"
  shows "tool_call agent runId (coordinator_options wiring n) i call k =
      Call (Invoke (step_id ''handoff'' i call) (agent_workflow (na_name (memberAgent m))) (handoff_message call))
        (uncaught (typed child_text (\<lambda>t. k (ToolResult (use_id call) t False))))"
  using assms(3) by (simp add: tool_call_def perform_call_def coordinator_table find_member [OF assms(1,2)])

text \<open>
  the coordinator reaches every member. When the members' tool names are distinct, a call of a member's
  tool, at any turn, is a durable handoff to exactly that member's workflow with the model's message; and the
  coordinator makes at most \<open>maxHandoffs + 1\<close> model calls per attempt, and one corrective one, whatever the
  model answers.
\<close>

theorem network_routes:
  assumes "distinct (map member_tool_name (nw_agents n))" and "m \<in> set (nw_agents n)" and "use_name call = member_tool_name m"
  shows "tool_call agent runId (coordinator_options wiring n) i call k =
      Call (Invoke (step_id ''handoff'' i call) (agent_workflow (na_name (memberAgent m))) (handoff_message call))
        (uncaught (typed child_text (\<lambda>t. k (ToolResult (use_id call) t False)))) \<and>
    length (filter (\<lambda>sid. startsWith sid ''llm-'')
      (usedIds (snd (run_wf env (runAgentLoop agent (coordinator_options wiring n) input runId) (Workflow.start w))))) \<le> nat (maxHandoffs n + 1) + 1"
  using member_call [OF assms] model_calls_le [of env agent "coordinator_options wiring n" input runId w]
  by (simp add: maxIterations_def coordinator_options_def)

definition two_desks :: "network_options" where
  "two_desks = \<lparr>nw_model = ''m'', nw_agents = [Bare \<lparr>na_name = ''billing'', na_instructions = None\<rparr>, Described \<lparr>na_name = ''legal'', na_instructions = None\<rparr> ''contracts''],
     nw_instructions = None, nw_maxHandoffs = Some 1, nw_maxTokens = None, nw_temperature = None, nw_output = None,
     nw_reg = \<lparr>ag_concurrency = None, ag_stepRetries = None, ag_lease = None, ag_circuitBreaker = None\<rparr>\<rparr>"

theorem network_routes_witness:
  "tool_call ''desk'' ''r'' (coordinator_options (demo_options False) two_desks) 0 (ToolUse ''t1'' ''ask_legal'' JNull) (\<lambda>_. Return JNull) =
     Call (Invoke (step_id ''handoff'' 0 (ToolUse ''t1'' ''ask_legal'' JNull)) (agent_workflow ''legal'') (handoff_message (ToolUse ''t1'' ''ask_legal'' JNull)))
       (uncaught (typed child_text (\<lambda>t. (\<lambda>_. Return JNull) (ToolResult ''t1'' t False))))"
proof -
  let ?m = "Described \<lparr>na_name = ''legal'', na_instructions = None\<rparr> ''contracts'' :: member"
  have n: "member_tool_name ?m = ''ask_legal''" by code_simp
  have d: "distinct (map member_tool_name (nw_agents two_desks))" by code_simp
  have "?m \<in> set (nw_agents two_desks)" by (simp add: two_desks_def)
  from network_routes [OF d this, of "ToolUse ''t1'' ''ask_legal'' JNull" "''desk''" "''r''" "demo_options False" 0 "\<lambda>_. Return JNull"] n
  show ?thesis by simp
qed

section \<open>Findings\<close>

text \<open>
  Tool names keep only letters, digits and underscores: of two members whose names differ elsewhere the
  earlier one can never be reached, its tool calls go to the later one.
\<close>

lemma colliding_member_unreachable:
  "member_tool_name (Bare \<lparr>na_name = ''tax-eu'', na_instructions = None\<rparr>) = member_tool_name (Bare \<lparr>na_name = ''tax.eu'', na_instructions = None\<rparr>)"
  by code_simp

lemma later_member_wins:
  assumes "nw_agents n = [a, b]" and "member_tool_name a = member_tool_name b" and "use_name call = member_tool_name a"
  shows "tool_call agent runId (coordinator_options wiring n) i call k =
    Call (Invoke (step_id ''handoff'' i call) (agent_workflow (na_name (memberAgent b))) (handoff_message call))
      (uncaught (typed child_text (\<lambda>t. k (ToolResult (use_id call) t False))))"
  using assms by (simp add: tool_call_def perform_call_def coordinator_table)

text \<open>
  \<open>maxHandoffs\<close> is documented as the number of handoff tool calls; it bounds model turns. One reply may ask
  for any number of handoffs, and all of them are made.
\<close>

lemma one_turn_many_handoffs:
  assumes "distinct (map member_tool_name (nw_agents n))" and "m \<in> set (nw_agents n)"
    and "use_name c1 = member_tool_name m" and "use_name c2 = member_tool_name m"
  shows "tool_calls agent runId (coordinator_options wiring n) i [c1, c2] [] k =
    Call (Invoke (step_id ''handoff'' i c1) (agent_workflow (na_name (memberAgent m))) (handoff_message c1))
      (uncaught (typed child_text (\<lambda>t.
        Call (Invoke (step_id ''handoff'' i c2) (agent_workflow (na_name (memberAgent m))) (handoff_message c2))
          (uncaught (typed child_text (\<lambda>u. k [ToolResult (use_id c1) t False, ToolResult (use_id c2) u False]))))))"
  by (simp add: member_call [OF assms(1,2,3)] member_call [OF assms(1,2,4)])

end
