(* ===== verification/Ops.thy ===== *)
theory Ops
  imports App
begin

text \<open>
  Operating a running application (\<open>packages/zenzip/src/app.ts\<close>): emitting events, the audit and error
  sinks, erasing a subject, the run subscription stream, orphaned runs, bulk cancellation, the alert loop,
  and the namespace facade over the application. The engine's queries are arguments and answer with JSON
  texts; a property that should be a number and is not makes every comparison with it false, as in
  JavaScript (no text is converted to a number here).
\<close>

section \<open>The engine's calls and the state of an operator\<close>

record 'n ops_engine =
  emitEvent :: "string \<Rightarrow> string \<Rightarrow> 'n \<Rightarrow> (exn, string) res \<times> 'n"
  dashboardRuns :: "string option \<Rightarrow> int option \<Rightarrow> int \<Rightarrow> 'n \<Rightarrow> (exn, string) res"
  cancelRun :: "string \<Rightarrow> 'n \<Rightarrow> int \<times> 'n"
  native_purge :: "string \<Rightarrow> 'n \<Rightarrow> int \<times> 'n"
  metricsSnapshot :: "'n \<Rightarrow> string"
  runGc :: "'n \<Rightarrow> string \<times> 'n"

text \<open>
  \<open>os_sinks\<close>: whether an audit sink and an error sink are configured; what they were given. A sink that throws
  is ignored by its caller.
\<close>

record audit_entry =
  ae_action :: string
  ae_target :: "string option"
  ae_at :: int
  ae_detail :: jsval

record ('n, 'h) ops_state =
  os_native :: "'n option"
  os_auditSink :: bool
  os_errorSink :: bool
  os_audited :: "audit_entry list"
  os_reported :: "(exn \<times> string) list"
  os_subs :: "'h subscribers"
  os_delivered :: "('h \<times> string \<times> jsval) list"

definition os_audit :: "int \<Rightarrow> string \<Rightarrow> string option \<Rightarrow> jsval \<Rightarrow> ('n, 'h) ops_state \<Rightarrow> ('n, 'h) ops_state" where
  "os_audit now action target detail s =
     (if os_auditSink s
      then s\<lparr>os_audited := os_audited s @ [\<lparr>ae_action = action, ae_target = target, ae_at = now, ae_detail = detail\<rparr>]\<rparr>
      else s)"

definition reportError :: "exn \<Rightarrow> string \<Rightarrow> ('n, 'h) ops_state \<Rightarrow> ('n, 'h) ops_state" where
  "reportError err source s =
     (if os_errorSink s then s\<lparr>os_reported := os_reported s @ [(toError err, source)]\<rparr> else s)"

definition with_native :: "('n \<Rightarrow> (exn, 'a) res \<times> 'n) \<Rightarrow> ('n, 'h) ops_state \<Rightarrow> (exn, 'a) res \<times> ('n, 'h) ops_state" where
  "with_native f s =
     (case os_native s of
        None \<Rightarrow> (Throw not_started, s)
      | Some n \<Rightarrow> (case f n of (r, n') \<Rightarrow> (r, s\<lparr>os_native := Some n'\<rparr>)))"

section \<open>Events, erasure, metrics\<close>

text \<open>The engine gets the payload as JSON, the local subscribers get the value itself.\<close>

definition emit :: "'n ops_engine \<Rightarrow> string \<Rightarrow> jsval \<Rightarrow> ('n, 'h) ops_state \<Rightarrow> (exn, jsval) res \<times> ('n, 'h) ops_state" where
  "emit eng event payload s =
     (case with_native (\<lambda>n. case emitEvent eng event (stringify_or_null payload) n of
                               (r, n') \<Rightarrow> (rbind r parse_exn, n')) s of
        (Inl e, s') \<Rightarrow> (Throw e, s')
      | (Inr result, s') \<Rightarrow>
          (Ok result, s'\<lparr>os_delivered := os_delivered s' @ dispatchLocal event payload (os_subs s')\<rparr>))"

definition purgeSubject :: "'n ops_engine \<Rightarrow> int \<Rightarrow> string \<Rightarrow> ('n, 'h) ops_state \<Rightarrow> (exn, int) res \<times> ('n, 'h) ops_state" where
  "purgeSubject eng now subject s =
     (case with_native (\<lambda>n. case native_purge eng subject n of (k, n') \<Rightarrow> (Ok k, n')) s of
        (Inl e, s') \<Rightarrow> (Throw e, s')
      | (Inr k, s') \<Rightarrow> (Ok k, os_audit now ''subject.purge'' (Some subject) (JObj [(''runs'', JNum k)]) s'))"

definition app_metrics :: "'n ops_engine \<Rightarrow> ('n, 'h) ops_state \<Rightarrow> (exn, jsval) res" where
  "app_metrics eng s = (case os_native s of None \<Rightarrow> Throw not_started | Some n \<Rightarrow> parse_exn (metricsSnapshot eng n))"

definition app_gc :: "'n ops_engine \<Rightarrow> ('n, 'h) ops_state \<Rightarrow> (exn, jsval) res \<times> ('n, 'h) ops_state" where
  "app_gc eng s = with_native (\<lambda>n. case runGc eng n of (t, n') \<Rightarrow> (parse_exn t, n')) s"

section \<open>Rows of the run table\<close>

record run_row =
  rr_id :: jsval
  rr_workflow :: jsval
  rr_status :: jsval
  rr_updatedAt :: jsval

definition row_of :: "jsval \<Rightarrow> (exn, run_row) res" where
  "row_of v =
     rbind (prop_exn v ''id'') (\<lambda>i.
     rbind (prop_exn v ''workflow'') (\<lambda>w.
     rbind (prop_exn v ''status'') (\<lambda>st.
     rbind (prop_exn v ''updatedAt'') (\<lambda>u.
       Ok \<lparr>rr_id = i, rr_workflow = w, rr_status = st, rr_updatedAt = u\<rparr>))))"

definition rows_of_text :: "string \<Rightarrow> (exn, run_row list) res" where
  "rows_of_text t =
     rbind (parse_exn t) (\<lambda>v. case v of JArr vs \<Rightarrow> rmap row_of vs | _ \<Rightarrow> Throw (Error ''TypeError''))"

fun js_gt :: "jsval \<Rightarrow> int \<Rightarrow> bool" where
  "js_gt (JNum i) n = (i > n)"
| "js_gt _ n = False"

fun js_ge :: "jsval \<Rightarrow> int \<Rightarrow> bool" where
  "js_ge (JNum i) n = (i \<ge> n)"
| "js_ge _ n = False"

section \<open>Orphaned runs\<close>

definition orphan_names :: "string list" where
  "orphan_names = [''running'', ''sleeping'', ''waitingEvent'', ''waitingChild'']"

definition orphan_status :: "jsval \<Rightarrow> string option" where
  "orphan_status v = (case v of JNum i \<Rightarrow> if 0 \<le> i \<and> i < 4 then Some (orphan_names ! nat i) else None | _ \<Rightarrow> None)"

record orphan =
  or_runId :: jsval
  or_workflow :: jsval
  or_status :: "string option"
  or_idleMs :: "int option"
  or_reason :: string

definition orphan_reason :: "string option \<Rightarrow> string" where
  "orphan_reason st =
     (if st = Some ''sleeping'' then ''sleeping past its wake - the wake job may have been lost''
      else if st = Some ''waitingEvent'' then ''waiting on an event past its timeout - the sweep may have stalled''
      else ''no progress - execution may be stuck or its wakeup lost'')"

text \<open>The loop reads the clock again for each row it reports; \<open>clk\<close> is that reading for a row.\<close>

fun orphan_loop :: "(run_row \<Rightarrow> int) \<Rightarrow> int \<Rightarrow> run_row list \<Rightarrow> orphan list" where
  "orphan_loop clk cutoff [] = []"
| "orphan_loop clk cutoff (r # rs) =
     (if js_gt (rr_status r) 3 \<or> js_ge (rr_updatedAt r) cutoff then orphan_loop clk cutoff rs
      else (let st = orphan_status (rr_status r) in
        \<lparr>or_runId = rr_id r, or_workflow = rr_workflow r, or_status = st,
         or_idleMs = (case rr_updatedAt r of JNum u \<Rightarrow> Some (clk r - u) | _ \<Rightarrow> None), or_reason = orphan_reason st\<rparr>)
        # orphan_loop clk cutoff rs)"

definition orphanedRuns ::
  "'n ops_engine \<Rightarrow> int \<Rightarrow> (run_row \<Rightarrow> int) \<Rightarrow> duration option \<Rightarrow> int option \<Rightarrow> ('n, 'h) ops_state \<Rightarrow> (exn, orphan list) res" where
  "orphanedRuns eng now clk idle limit s =
     rbind (opt_ms idle) (\<lambda>i.
     let cutoff = now - (case i of Some n \<Rightarrow> n | None \<Rightarrow> 300000) in
     rbind (case os_native s of None \<Rightarrow> Throw not_started
            | Some n \<Rightarrow> dashboardRuns eng None None (case limit of Some l \<Rightarrow> l | None \<Rightarrow> 1000) n) (\<lambda>raw.
     rbind (rows_of_text raw) (\<lambda>rows. Ok (orphan_loop clk cutoff rows))))"

section \<open>Bulk cancellation\<close>

record cancel_filter =
  cf_workflow :: "string option"
  cf_status :: "run_status option"
  cf_olderThan :: "duration option"
  cf_limit :: "int option"

text \<open>
  The filter as the audit detail shows it. Numbers of \<open>Json\<close> are integers: a fractional age is shown
  without its fraction.
\<close>

definition duration_value :: "duration \<Rightarrow> jsval" where
  "duration_value d = (case d of DStr t \<Rightarrow> JStr t | DNum (Fin x) \<Rightarrow> JNum \<lfloor>x\<rfloor> | DNum _ \<Rightarrow> JNull)"

definition filter_value :: "cancel_filter \<Rightarrow> jsval" where
  "filter_value f =
     JObj ((case cf_workflow f of Some w \<Rightarrow> [(''workflow'', JStr w)] | None \<Rightarrow> []) @
           (case cf_status f of Some st \<Rightarrow> [(''status'', JStr (status_name st))] | None \<Rightarrow> []) @
           (case cf_olderThan f of Some d \<Rightarrow> [(''olderThan'', duration_value d)] | None \<Rightarrow> []) @
           (case cf_limit f of Some l \<Rightarrow> [(''limit'', JNum l)] | None \<Rightarrow> []))"

fun cancel_loop :: "(string \<Rightarrow> 'n \<Rightarrow> int \<times> 'n) \<Rightarrow> int option \<Rightarrow> run_row list \<Rightarrow> int \<Rightarrow> string list \<Rightarrow> 'n \<Rightarrow> int \<times> string list \<times> 'n" where
  "cancel_loop cr cutoff [] k runs n = (k, runs, n)"
| "cancel_loop cr cutoff (r # rs) k runs n =
     (if js_gt (rr_status r) 3 then cancel_loop cr cutoff rs k runs n
      else if (case cutoff of Some c \<Rightarrow> js_ge (rr_updatedAt r) c | None \<Rightarrow> False) then cancel_loop cr cutoff rs k runs n
      else (case cr (js_String (rr_id r)) n of
              (c, n') \<Rightarrow> cancel_loop cr cutoff rs (k + c) (runs @ [js_String (rr_id r)]) n'))"

definition cancelRuns ::
  "'n ops_engine \<Rightarrow> int \<Rightarrow> cancel_filter \<Rightarrow> ('n, 'h) ops_state \<Rightarrow> (exn, int \<times> string list) res \<times> ('n, 'h) ops_state" where
  "cancelRuns eng now f s =
     (case with_native (\<lambda>n.
         case rbind (dashboardRuns eng (cf_workflow f) (map_option (\<lambda>st. int (status_code st)) (cf_status f))
                       (case cf_limit f of Some l \<Rightarrow> l | None \<Rightarrow> 1000) n) (\<lambda>raw.
              rbind (rows_of_text raw) (\<lambda>rows.
              rbind (opt_ms (cf_olderThan f)) (\<lambda>age. Ok (rows, map_option (\<lambda>m. now - m) age)))) of
           Inl e \<Rightarrow> (Throw e, n)
         | Inr (rows, cutoff) \<Rightarrow>
             (case cancel_loop (cancelRun eng) cutoff rows 0 [] n of (k, runs, n') \<Rightarrow> (Ok (k, runs), n'))) s of
        (Inl e, s') \<Rightarrow> (Throw e, s')
      | (Inr (k, runs), s') \<Rightarrow>
          (Ok (k, runs),
           os_audit now ''runs.cancel'' (Some (case cf_workflow f of Some w \<Rightarrow> w | None \<Rightarrow> ''*''))
             (JObj [(''count'', JNum (int (length runs))), (''filter'', filter_value f)]) s'))"

section \<open>The run subscription\<close>

record run_update =
  ru_runId :: jsval
  ru_workflow :: jsval
  ru_status :: run_status
  ru_terminal :: bool
  ru_output :: jsval
  ru_error :: jsval
  ru_steps :: "jsval list"

text \<open>
  What one turn of the polling loop sees: the run's row, if there still is one, the text of its steps, and
  the clock at the deadline check.
\<close>

record poll =
  pl_run :: "string option"
  pl_steps :: "(exn, string) res"
  pl_now :: int

definition step_update :: "jsval \<Rightarrow> (exn, jsval) res" where
  "step_update v =
     rbind (prop_exn v ''stepId'') (\<lambda>i.
     rbind (prop_exn v ''kind'') (\<lambda>k.
     rbind (prop_exn v ''status'') (\<lambda>st.
     rbind (prop_exn v ''attempts'') (\<lambda>n.
     rbind (prop_exn v ''error'') (\<lambda>e.
       Ok (JObj [(''stepId'', i), (''kind'', k), (''status'', st), (''attempts'', n), (''error'', if nullish e then JUndef else e)]))))))"

definition poll_update :: "string \<Rightarrow> (exn, string) res \<Rightarrow> (exn, run_update) res" where
  "poll_update raw stepsRaw =
     rbind (parse_exn raw) (\<lambda>row.
     rbind stepsRaw (\<lambda>t.
     rbind (parse_exn t) (\<lambda>sv.
     rbind (case sv of JArr vs \<Rightarrow> rmap step_update vs | _ \<Rightarrow> Throw (Error ''TypeError'')) (\<lambda>steps.
     rbind (prop_exn row ''status'') (\<lambda>st.
     rbind (prop_exn row ''id'') (\<lambda>i.
     rbind (prop_exn row ''workflow'') (\<lambda>w.
     rbind (prop_exn row ''output'') (\<lambda>out.
     rbind (if out \<noteq> JNull then parse_exn (js_String out) else Ok JUndef) (\<lambda>output.
     rbind (prop_exn row ''error'') (\<lambda>err.
       Ok \<lparr>ru_runId = i, ru_workflow = w, ru_status = (case st of JNum n \<Rightarrow> status_of n | _ \<Rightarrow> Running),
          ru_terminal = js_ge st 4, ru_output = output, ru_error = (if nullish err then JUndef else err), ru_steps = steps\<rparr>))))))))))"

definition update_sig :: "run_update \<Rightarrow> string" where
  "update_sig u = the (stringify (JObj [(''s'', JStr (status_name (ru_status u))), (''steps'', JArr (ru_steps u))]))"

datatype stream_end = Finished | Collected | Failing exn | Waiting

text \<open>
  The generator over a finite number of turns: what it yields and how it ends. \<open>Collected\<close> is the return
  when the run has been removed; \<open>Waiting\<close> means it would poll again.
\<close>

fun subscribe_loop ::
  "string \<Rightarrow> int option \<Rightarrow> string \<Rightarrow> bool \<Rightarrow> poll list \<Rightarrow> run_update list \<times> stream_end" where
  "subscribe_loop runId deadline prev first [] = ([], Waiting)"
| "subscribe_loop runId deadline prev first (p # ps) =
     (case pl_run p of
        None \<Rightarrow> ([], if first then Failing (Error (''run '' @ runId @ '' not found'')) else Collected)
      | Some raw \<Rightarrow>
          if raw = [] then ([], if first then Failing (Error (''run '' @ runId @ '' not found'')) else Collected)
          else case poll_update raw (pl_steps p) of
            Inl e \<Rightarrow> ([], Failing e)
          | Inr u \<Rightarrow>
              (let sig = update_sig u;
                   out = (if sig \<noteq> prev then [u] else [])
               in if ru_terminal u then (out, Finished)
                  else if (case deadline of Some d \<Rightarrow> pl_now p \<ge> d | None \<Rightarrow> False)
                    then (out, Failing (Error (''subscribe('' @ runId @ '') timed out (status '' @ status_name (ru_status u) @ '')'')))
                  else (case subscribe_loop runId deadline sig False ps of (us, en) \<Rightarrow> (out @ us, en))))"

definition subscribe :: "int \<Rightarrow> string \<Rightarrow> int option \<Rightarrow> poll list \<Rightarrow> run_update list \<times> stream_end" where
  "subscribe now runId timeout ps = subscribe_loop runId (map_option (\<lambda>t. now + t) timeout) [] True ps"

section \<open>The alert loop\<close>

datatype alert =
    DlqAlert string nat string
  | OrphanAlert nat string "jsval list"

definition dlq_message :: "string \<Rightarrow> nat \<Rightarrow> string" where
  "dlq_message name dead = ''dead-letter queue '' @ quoted name @ '' grew to '' @ int_str (int dead) @ '' job(s)''"

definition orphan_message :: "nat \<Rightarrow> string" where
  "orphan_message n = int_str (int n) @ '' run(s) stuck without progress''"

text \<open>
  The state of the loop: the last dead-letter count of each queue and the alerts raised so far. The user's
  \<open>onAlert\<close> may throw.
\<close>

record alert_state =
  al_last :: "(string, nat) jsmap"
  al_fired :: "alert list"

definition fire :: "(alert \<Rightarrow> (exn, unit) res) \<Rightarrow> alert \<Rightarrow> alert_state \<Rightarrow> (exn, unit) res \<times> alert_state" where
  "fire onAlert x s = (onAlert x, s\<lparr>al_fired := al_fired s @ [x]\<rparr>)"

fun dlq_loop ::
  "(alert \<Rightarrow> (exn, unit) res) \<Rightarrow> nat \<Rightarrow> (string \<times> (exn, nat) res) list \<Rightarrow> alert_state \<Rightarrow> (exn, unit) res \<times> alert_state" where
  "dlq_loop onAlert threshold [] s = (Ok (), s)"
| "dlq_loop onAlert threshold ((name, counted) # qs) s =
     (case counted of
        Inl e \<Rightarrow> (Throw e, s)
      | Inr dead \<Rightarrow>
          (let old = (case map_get (al_last s) name of Some n \<Rightarrow> n | None \<Rightarrow> 0);
               s1 = s\<lparr>al_last := map_set name dead (al_last s)\<rparr>
           in if threshold \<le> dead \<and> old < dead
              then (case fire onAlert (DlqAlert name dead (dlq_message name dead)) s1 of
                      (Inl e, s2) \<Rightarrow> (Throw e, s2)
                    | (Inr _, s2) \<Rightarrow> dlq_loop onAlert threshold qs s2)
              else dlq_loop onAlert threshold qs s1))"

definition dead_count :: "(job list \<Rightarrow> job list) \<Rightarrow> 'h queue \<Rightarrow> jobs_db \<Rightarrow> (exn, nat) res" where
  "dead_count order q db = rbind (deadJobs order q 1000 db) (\<lambda>ds. Ok (length ds))"

definition alert_body ::
  "(alert \<Rightarrow> (exn, unit) res) \<Rightarrow> alert_options \<Rightarrow> (string \<times> (exn, nat) res) list \<Rightarrow> (exn, orphan list) res \<Rightarrow> alert_state
     \<Rightarrow> (exn, unit) res \<times> alert_state" where
  "alert_body onAlert cfg counts orphans s =
     (case dlq_loop onAlert (case al_dlqThreshold cfg of Some t \<Rightarrow> t | None \<Rightarrow> 1) counts s of
        (Inl e, s1) \<Rightarrow> (Throw e, s1)
      | (Inr _, s1) \<Rightarrow>
          (case orphans of
             Inl e \<Rightarrow> (Throw e, s1)
           | Inr os \<Rightarrow>
               if os = [] then (Ok (), s1)
               else fire onAlert (OrphanAlert (length os) (orphan_message (length os)) (map or_runId os)) s1))"

text \<open>One tick: nothing without an engine; an error anywhere ends the tick and is reported.\<close>

definition alert_tick ::
  "(alert \<Rightarrow> (exn, unit) res) \<Rightarrow> alert_options \<Rightarrow> (string \<times> (exn, nat) res) list \<Rightarrow> (exn, orphan list) res
     \<Rightarrow> alert_state \<times> ('n, 'h) ops_state \<Rightarrow> alert_state \<times> ('n, 'h) ops_state" where
  "alert_tick onAlert cfg counts orphans s =
     (case os_native (snd s) of
        None \<Rightarrow> s
      | Some _ \<Rightarrow>
          (case alert_body onAlert cfg counts orphans (fst s) of
             (Inr _, s1) \<Rightarrow> (s1, snd s)
           | (Inl e, s1) \<Rightarrow> (s1, reportError e ''alert'' (snd s))))"

section \<open>Webhooks and namespaces\<close>

definition no_trigger_options :: trigger_options where
  "no_trigger_options = \<lparr>to_idempotencyKey = None, to_delay = None, to_subject = None\<rparr>"

text \<open>The handler of a webhook route triggers its workflow with the request body.\<close>

definition webhook_answer :: "'n engine \<Rightarrow> string \<Rightarrow> request \<Rightarrow> 'n handle_state \<Rightarrow> (exn, jsval) res \<times> 'n handle_state" where
  "webhook_answer eng name req s =
     (case trigger eng name (rq_body req) no_trigger_options s of
        (Inl e, s') \<Rightarrow> (Throw e, s')
      | (Inr runId, s') \<Rightarrow> (Ok (JObj [(''runId'', JStr runId)]), s'))"

definition ns_queue :: "namespace \<Rightarrow> string \<Rightarrow> queue_options \<Rightarrow> ('w, 'n, 'h, 'm) app \<Rightarrow> (exn, 'w job_queue \<times> ('w, 'n, 'h, 'm) app) res" where
  "ns_queue ns name o' a = app_queue (key ns name) o' a"

fun ns_workflow :: "namespace \<Rightarrow> string \<Rightarrow> 'w wf_arg \<Rightarrow> ('w, 'n, 'h, 'm) app \<Rightarrow> (exn, 'w app_workflow \<times> ('w, 'n, 'h, 'm) app) res" where
  "ns_workflow ns name (FnArg f) a = app_workflow (key ns name) (FnArg f) a"
| "ns_workflow ns name (OptsArg o' f) a = app_workflow (key ns name) (OptsArg (o'\<lparr>wo_on := prefixOn ns (wo_on o')\<rparr>) f) a"

definition ns_schedule :: "namespace \<Rightarrow> string \<Rightarrow> sched_spec \<Rightarrow> 'w sched_handler \<Rightarrow> ('w, 'n, 'h, 'm) app \<Rightarrow> (exn, ('w, 'n, 'h, 'm) app) res" where
  "ns_schedule ns name spec h a = app_schedule (key ns name) spec h a"

definition ns_agent :: "namespace \<Rightarrow> string \<Rightarrow> string \<Rightarrow> agent_reg \<Rightarrow> 'w agent_options \<Rightarrow> ('w, 'n, 'h, 'm) app \<Rightarrow> (exn, ('w, 'n, 'h, 'm) app) res" where
  "ns_agent ns src name g o' a = app_agent src (key ns name) g o' a"

definition ns_emit :: "namespace \<Rightarrow> 'n ops_engine \<Rightarrow> string \<Rightarrow> jsval \<Rightarrow> ('n, 'h) ops_state \<Rightarrow> (exn, jsval) res \<times> ('n, 'h) ops_state" where
  "ns_emit ns eng event payload s = emit eng (key ns event) payload s"

definition ns_on :: "namespace \<Rightarrow> string \<Rightarrow> 'h \<Rightarrow> ('n, 'h) ops_state \<Rightarrow> nat \<times> ('n, 'h) ops_state" where
  "ns_on ns pattern handler s = (case on (key ns pattern) handler (os_subs s) of (i, subs') \<Rightarrow> (i, s\<lparr>os_subs := subs'\<rparr>))"

section \<open>The stream of updates\<close>

definition sees :: "poll \<Rightarrow> run_update \<Rightarrow> bool" where
  "sees p u \<longleftrightarrow> (\<exists>raw. pl_run p = Some raw \<and> raw \<noteq> [] \<and> poll_update raw (pl_steps p) = Ok u)"

fun upto_terminal :: "run_update list \<Rightarrow> run_update list" where
  "upto_terminal [] = []"
| "upto_terminal (u # us) = u # (if ru_terminal u then [] else upto_terminal us)"

text \<open>Dropping what repeats its predecessor, where the first one is compared with \<open>x\<close>.\<close>

fun changes :: "'a \<Rightarrow> 'a list \<Rightarrow> 'a list" where
  "changes x [] = []"
| "changes x (y # ys) = (if y = x then changes y ys else y # changes y ys)"

lemma remdups_adj_changes: "remdups_adj (x # ys) = x # changes x ys"
  by (induction ys arbitrary: x) auto

lemma changes_fresh: "x \<notin> set ys \<Longrightarrow> changes x ys = remdups_adj ys"
  by (cases ys) (auto simp: remdups_adj_changes)

lemma subscribe_loop_sees:
  assumes "list_all2 sees ps us"
  shows "map update_sig (fst (subscribe_loop runId None prev first ps)) = changes prev (map update_sig (upto_terminal us)) \<and>
    set (fst (subscribe_loop runId None prev first ps)) \<subseteq> set (upto_terminal us) \<and>
    snd (subscribe_loop runId None prev first ps) = (if list_ex ru_terminal us then Finished else Waiting)"
  using assms
proof (induction ps us arbitrary: prev first rule: list_all2_induct)
  case (Cons p ps u us)
  from Cons.hyps obtain raw where p: "pl_run p = Some raw" "raw \<noteq> []" "poll_update raw (pl_steps p) = Ok u"
    by (auto simp: sees_def)
  show ?case
  proof (cases "ru_terminal u")
    case True
    then show ?thesis using p by (simp add: Let_def)
  next
    case False
    then show ?thesis using p Cons.IH [of "update_sig u" False] by (auto simp: Let_def split: prod.split)
  qed
qed simp

lemma update_sig_not_Nil: "update_sig u \<noteq> []"
  by (simp add: update_sig_def)

text \<open>Two updates with the same signature have the same status.\<close>

lemma status_name_inj: "status_name a = status_name b \<Longrightarrow> a = b"
  by (cases a; cases b) simp_all

lemma status_plain: "concat (map esc (status_name st)) = status_name st \<and> DQ \<notin> set (status_name st)"
proof -
  have "list_all (\<lambda>st. concat (map esc (status_name st)) = status_name st \<and> DQ \<notin> set (status_name st)) STATUS_NAMES"
    by code_simp
  then show ?thesis by (cases st) (simp_all add: STATUS_NAMES_def)
qed

lemma append_DQ_inj: "DQ \<notin> set a \<Longrightarrow> DQ \<notin> set b \<Longrightarrow> a @ DQ # x = b @ DQ # y \<Longrightarrow> a = b"
proof (induction a arbitrary: b)
  case Nil
  then show ?case by (cases b) auto
next
  case (Cons c a)
  then show ?case by (cases b) auto
qed

lemma update_sig_eq: "\<exists>rest. update_sig u = ''{'' @ quote_str ''s'' @ '':'' @ DQ # status_name (ru_status u) @ DQ # rest"
  using status_plain [of "ru_status u"]
  by (simp add: update_sig_def quote_str_def List.map_filter_simps)

lemma update_sig_status:
  assumes "update_sig u = update_sig v"
  shows "ru_status u = ru_status v"
proof -
  obtain x y where "update_sig u = ''{'' @ quote_str ''s'' @ '':'' @ DQ # status_name (ru_status u) @ DQ # x"
    "update_sig v = ''{'' @ quote_str ''s'' @ '':'' @ DQ # status_name (ru_status v) @ DQ # y"
    using update_sig_eq [of u] update_sig_eq [of v] by blast
  with assms have "status_name (ru_status u) @ DQ # x = status_name (ru_status v) @ DQ # y" by simp
  then show ?thesis using append_DQ_inj status_plain status_name_inj by blast
qed

definition regular :: "run_update \<Rightarrow> bool" where
  "regular u \<longleftrightarrow> ru_terminal u = (ru_status u \<in> {Completed, Failed, Cancelled})"

lemma upto_terminal_last: "list_ex ru_terminal us \<Longrightarrow> upto_terminal us \<noteq> [] \<and> ru_terminal (last (upto_terminal us)) \<and> last (upto_terminal us) \<in> set us"
  by (induction us) (auto simp: neq_Nil_conv)

lemma upto_terminal_subset: "set (upto_terminal us) \<subseteq> set us"
  by (induction us) auto

text \<open>
  C34: the run subscription. While the run is there and its rows decode, a subscription without a timeout
  yields exactly the distinct consecutive states of the run up to its end (by status and steps), never the
  same one twice in a row; it ends by itself if and only if the run was seen in a terminal status, and then
  the last update it yielded is terminal.
\<close>

theorem subscribe_stream:
  assumes "list_all2 sees ps us" and "list_all regular us" and "subscribe now runId None ps = (yields, en)"
  shows "map update_sig yields = remdups_adj (map update_sig (upto_terminal us)) \<and> set yields \<subseteq> set us \<and>
    en = (if list_ex ru_terminal us then Finished else Waiting) \<and>
    (list_ex ru_terminal us \<longrightarrow> yields \<noteq> [] \<and> ru_terminal (last yields))"
proof -
  note loop = subscribe_loop_sees [OF assms(1), of runId "[]" True]
  have y: "subscribe_loop runId None [] True ps = (yields, en)" using assms(3) by (simp add: subscribe_def)
  have sigs: "map update_sig yields = remdups_adj (map update_sig (upto_terminal us))"
    using loop update_sig_not_Nil by (subst (asm) changes_fresh) (auto simp: y dest: sym)
  moreover have sub: "set yields \<subseteq> set us" using loop upto_terminal_subset [of us] by (auto simp: y)
  moreover have "yields \<noteq> [] \<and> ru_terminal (last yields)" if t: "list_ex ru_terminal us"
  proof -
    note l = upto_terminal_last [OF t]
    have ne: "yields \<noteq> []" using sigs l by (metis map_is_Nil_conv remdups_adj_Nil_iff)
    then have "update_sig (last yields) = last (remdups_adj (map update_sig (upto_terminal us)))"
      by (metis sigs last_map)
    also have "\<dots> = update_sig (last (upto_terminal us))" using l by (simp add: last_map)
    finally have "ru_status (last yields) = ru_status (last (upto_terminal us))" by (rule update_sig_status)
    moreover have "regular (last yields)" "regular (last (upto_terminal us))"
      using assms(2) sub last_in_set [OF ne] l by (auto simp: list_all_iff)
    ultimately show ?thesis using ne l by (simp add: regular_def)
  qed
  ultimately show ?thesis using loop by (simp add: y)
qed

definition run_text :: "int \<Rightarrow> string" where
  "run_text st = json_text (JObj [(''id'', JStr ''r1''), (''workflow'', JStr ''w''), (''status'', JNum st), (''output'', JNull), (''error'', JNull)])"

definition poll_at :: "int \<Rightarrow> poll" where
  "poll_at st = \<lparr>pl_run = Some (run_text st), pl_steps = Ok ''[]'', pl_now = 0\<rparr>"

definition seen_at :: "run_status \<Rightarrow> bool \<Rightarrow> run_update" where
  "seen_at st t = \<lparr>ru_runId = JStr ''r1'', ru_workflow = JStr ''w'', ru_status = st, ru_terminal = t, ru_output = JUndef, ru_error = JUndef, ru_steps = []\<rparr>"

lemma poll_at_sees: "sees (poll_at 0) (seen_at Running False)" "sees (poll_at 4) (seen_at Completed True)"
proof -
  have "run_text 0 \<noteq> [] \<and> poll_update (run_text 0) (Ok ''[]'') = Ok (seen_at Running False)" by code_simp
  then show "sees (poll_at 0) (seen_at Running False)" by (auto simp: sees_def poll_at_def)
  have "run_text 4 \<noteq> [] \<and> poll_update (run_text 4) (Ok ''[]'') = Ok (seen_at Completed True)" by code_simp
  then show "sees (poll_at 4) (seen_at Completed True)" by (auto simp: sees_def poll_at_def)
qed

theorem subscribe_stream_witness:
  "length (fst (subscribe 0 ''r1'' None [poll_at 0, poll_at 0, poll_at 4])) = 2 \<and>
   snd (subscribe 0 ''r1'' None [poll_at 0, poll_at 0, poll_at 4]) = Finished"
proof -
  let ?us = "[seen_at Running False, seen_at Running False, seen_at Completed True]"
  let ?s = "subscribe 0 ''r1'' None [poll_at 0, poll_at 0, poll_at 4]"
  have a: "list_all2 sees [poll_at 0, poll_at 0, poll_at 4] ?us" using poll_at_sees by simp
  have b: "list_all regular ?us" by (simp add: regular_def seen_at_def)
  have d: "update_sig (seen_at Running False) \<noteq> update_sig (seen_at Completed True)"
    using update_sig_status [of "seen_at Running False" "seen_at Completed True"] by (auto simp: seen_at_def)
  have t: "\<not> ru_terminal (seen_at Running False)" "ru_terminal (seen_at Completed True)" by (simp_all add: seen_at_def)
  have "map update_sig (fst ?s) = remdups_adj (map update_sig (upto_terminal ?us)) \<and> snd ?s = Finished"
    using subscribe_stream [OF a b, of 0 "''r1''" "fst ?s" "snd ?s"] t by simp
  moreover have "length (remdups_adj (map update_sig (upto_terminal ?us))) = 2" using d t by simp
  ultimately show ?thesis by (metis length_map)
qed

section \<open>Cancellation and alerts\<close>

definition cancellable :: "int option \<Rightarrow> run_row \<Rightarrow> bool" where
  "cancellable cutoff r \<longleftrightarrow> \<not> js_gt (rr_status r) 3 \<and> (case cutoff of Some c \<Rightarrow> \<not> js_ge (rr_updatedAt r) c | None \<Rightarrow> True)"

primrec cancel_ids :: "(string \<Rightarrow> 'n \<Rightarrow> int \<times> 'n) \<Rightarrow> string list \<Rightarrow> 'n \<Rightarrow> int \<times> 'n" where
  "cancel_ids cr [] n = (0, n)"
| "cancel_ids cr (i # is) n = (case cr i n of (c, n1) \<Rightarrow> (case cancel_ids cr is n1 of (k, n2) \<Rightarrow> (c + k, n2)))"

lemma cancel_loop_spec:
  "cancel_loop cr cutoff rows k runs n =
     (let ids = map (js_String \<circ> rr_id) (filter (cancellable cutoff) rows)
      in case cancel_ids cr ids n of (c, n') \<Rightarrow> (k + c, runs @ ids, n'))"
  by (induction rows arbitrary: k runs n) (auto simp: cancellable_def Let_def split: prod.split option.split)

text \<open>
  Bulk cancellation is exact. Of the rows the engine lists for the filter, \<open>cancelRuns\<close> cancels precisely
  those that are not terminal and, with an age limit, were last updated before the cutoff, each once and in
  order; it answers with their ids and the engine's total, and records one audit entry with their number.
\<close>

theorem cancelRuns_exact:
  assumes "os_native s = Some n"
    and "dashboardRuns eng (cf_workflow f) (map_option (\<lambda>st. int (status_code st)) (cf_status f)) (case cf_limit f of Some l \<Rightarrow> l | None \<Rightarrow> 1000) n = Ok raw"
    and "rows_of_text raw = Ok rows" and "opt_ms (cf_olderThan f) = Ok age"
    and "ids = map (js_String \<circ> rr_id) (filter (cancellable (map_option (\<lambda>m. now - m) age)) rows)"
    and "cancel_ids (cancelRun eng) ids n = (k, n')"
  shows "cancelRuns eng now f s =
    (Ok (k, ids),
     os_audit now ''runs.cancel'' (Some (case cf_workflow f of Some w \<Rightarrow> w | None \<Rightarrow> ''*''))
       (JObj [(''count'', JNum (int (length ids))), (''filter'', filter_value f)]) (s\<lparr>os_native := Some n'\<rparr>))"
  using assms by (simp add: cancelRuns_def with_native_def cancel_loop_spec Let_def)

definition three_rows :: string where
  "three_rows = json_text (JArr (map (\<lambda>(i, st, u). JObj [(''id'', JStr i), (''workflow'', JStr ''w''), (''status'', JNum st), (''updatedAt'', JNum u)])
     [(''a'', 0, 10), (''b'', 4, 10), (''c'', 1, 99)]))"

definition list_engine :: "string list ops_engine" where
  "list_engine = \<lparr>emitEvent = (\<lambda>_ _ n. (Ok ''null'', n)), dashboardRuns = (\<lambda>_ _ _ n. Ok three_rows), cancelRun = (\<lambda>i n. (1, n @ [i])),
     native_purge = (\<lambda>_ n. (0, n)), metricsSnapshot = (\<lambda>_. ''{}''), runGc = (\<lambda>n. (''{}'', n))\<rparr>"

definition operator :: "(string list, nat) ops_state" where
  "operator = \<lparr>os_native = Some [], os_auditSink = True, os_errorSink = True, os_audited = [], os_reported = [],
     os_subs = \<lparr>subs = [], next_sub = 0\<rparr>, os_delivered = []\<rparr>"

definition older :: cancel_filter where
  "older = \<lparr>cf_workflow = None, cf_status = None, cf_olderThan = Some (DNum (Fin 50)), cf_limit = None\<rparr>"

theorem cancelRuns_exact_witness:
  "fst (cancelRuns list_engine 100 older operator) = Ok (1, [''a'']) \<and>
   os_native (snd (cancelRuns list_engine 100 older operator)) = Some [''a'']"
proof -
  define rows where "rows = map (\<lambda>(i, st, u). \<lparr>rr_id = JStr i, rr_workflow = JStr ''w'', rr_status = JNum st, rr_updatedAt = JNum u\<rparr>)
     [(''a'', 0, 10), (''b'', 4, 10), (''c'', 1, 99)]"
  have r: "rows_of_text three_rows = Ok rows" unfolding rows_def by code_simp
  have m: "opt_ms (cf_olderThan older) = Ok (Some 50)" by (simp add: older_def opt_ms_def ms_exn_def)
  have ids: "[''a''] = map (js_String \<circ> rr_id) (filter (cancellable (map_option (\<lambda>m. 100 - m) (Some 50))) rows)"
    by (simp add: rows_def cancellable_def)
  have n: "os_native operator = Some []" by (simp add: operator_def)
  have d: "dashboardRuns list_engine (cf_workflow older) (map_option (\<lambda>st. int (status_code st)) (cf_status older))
      (case cf_limit older of Some l \<Rightarrow> l | None \<Rightarrow> 1000) [] = Ok three_rows" by (simp add: list_engine_def)
  have c: "cancel_ids (cancelRun list_engine) [''a''] [] = (1, [''a''])" by (simp add: list_engine_def)
  from cancelRuns_exact [OF n d r m ids c] show ?thesis by (simp add: os_audit_def operator_def)
qed

definition grown :: "nat \<Rightarrow> (string, nat) jsmap \<Rightarrow> string \<times> nat \<Rightarrow> bool" where
  "grown threshold old c \<longleftrightarrow> threshold \<le> snd c \<and> (case map_get old (fst c) of Some n \<Rightarrow> n | None \<Rightarrow> 0) < snd c"

text \<open>
  A tick over queues with distinct names raises one alert per queue whose dead-letter count has grown to
  the threshold or beyond since the last tick, and remembers every count.
\<close>

lemma dlq_loop_alerts:
  assumes "\<And>x. onAlert x = Ok ()" and "distinct (map fst counts)"
  shows "dlq_loop onAlert threshold (map (\<lambda>(q, n). (q, Ok n)) counts) s =
    (Ok (), \<lparr>al_last = fold (\<lambda>(q, n). map_set q n) counts (al_last s),
            al_fired = al_fired s @ map (\<lambda>(q, n). DlqAlert q n (dlq_message q n)) (filter (grown threshold (al_last s)) counts)\<rparr>)"
  using assms(2)
proof (induction counts arbitrary: s)
  case (Cons c counts)
  obtain q n where c: "c = (q, n)" by (cases c)
  have "map_get (map_set q n (al_last s)) (fst d) = map_get (al_last s) (fst d)" if "d \<in> set counts" for d
    using that Cons.prems c by (auto simp: jsmap_simps image_iff)
  then have same: "filter (grown threshold (map_set q n (al_last s))) counts = filter (grown threshold (al_last s)) counts"
    by (intro filter_cong) (simp_all add: grown_def)
  show ?case using Cons.IH Cons.prems by (simp add: c assms(1) fire_def Let_def same) (simp add: grown_def)
qed simp

lemma dead_count_bound: "dead_count order q db = Ok n \<Longrightarrow> n \<le> 1000"
  by (auto simp: dead_count_def deadJobs_def dead_rows_def res_simps dest!: rmap_length)

section \<open>Findings\<close>

text \<open>
  The count of dead jobs is the length of a list cut at 1000: a queue that has reached 1000 dead jobs never
  raises an alert again, however many more die.
\<close>

lemma alerts_saturate:
  assumes "map_get (al_last s) q = Some 1000" and "dead_count order qu db = Ok n" and "dead_count order qu db = c"
  shows "dlq_loop onAlert threshold [(q, c)] s = (Ok (), s\<lparr>al_last := map_set q n (al_last s)\<rparr>)"
  using assms dead_count_bound [OF assms(2)] by (auto simp: Let_def)

text \<open>
  An alert handler that throws ends the tick: the alert of the next queue is not raised, and the count it
  was due for is remembered, so the first queue's alert is not repeated either.
\<close>

lemma throwing_handler_loses_alerts:
  "(case dlq_loop (\<lambda>_. Throw (Error ''pager down'')) 1 [(''a'', Ok 3), (''b'', Ok 5)] \<lparr>al_last = [], al_fired = []\<rparr> of
      (Inl _, s) \<Rightarrow> al_fired s = [DlqAlert ''a'' 3 (dlq_message ''a'' 3)] \<and> al_last s = [(''a'', 3)] \<and>
         al_fired (snd (dlq_loop (\<lambda>_. Ok ()) 1 [(''a'', Ok 3)] s)) = al_fired s
    | _ \<Rightarrow> False)"
  by (simp add: fire_def Let_def)

text \<open>
  A run that sleeps as it should, for longer than the idle window, is reported as orphaned with its wake job
  presumed lost: the row carries no wake time and none is consulted.
\<close>

lemma sleeping_run_called_orphaned:
  "updated < cutoff \<Longrightarrow>
   orphan_loop clk cutoff [\<lparr>rr_id = i, rr_workflow = w, rr_status = JNum 1, rr_updatedAt = JNum updated\<rparr>] =
     [\<lparr>or_runId = i, or_workflow = w, or_status = Some ''sleeping'',
       or_idleMs = Some (clk \<lparr>rr_id = i, rr_workflow = w, rr_status = JNum 1, rr_updatedAt = JNum updated\<rparr> - updated),
       or_reason = ''sleeping past its wake - the wake job may have been lost''\<rparr>]"
  by (simp add: orphan_status_def orphan_names_def orphan_reason_def Let_def)

end
