(* ===== verification/Lifecycle.thy ===== *)
theory Lifecycle
  imports App
begin

text \<open>
  The life cycle of the application: the operations of \<open>App\<close> as steps, the invariant of the registries,
  what the engine has been told while the application runs, and restarting. Two findings: a start that
  rejects with the engine running, and a stop that rejects and leaves it running.
\<close>

section \<open>Routes are added once\<close>

definition has_route :: "string \<Rightarrow> string \<Rightarrow> 'h http_router \<Rightarrow> bool" where
  "has_route meth path r \<longleftrightarrow> startsWith path ''/'' \<and>
     (case map_get (trees r) (toUpperCase meth) of None \<Rightarrow> False | Some n \<Rightarrow> \<not> free_at (path_segs path) n)"

lemma map_set_same: "map_get m k = Some v \<Longrightarrow> map_set k v m = m"
  by (induction m) auto

lemma add_segs_same: "\<not> free_at segs node \<Longrightarrow> add_segs h segs node = node"
  by (induction segs node rule: free_at.induct) (auto simp: map_set_same split: if_splits option.splits)

lemma add_segs_occupies: "\<not> free_at segs (add_segs h segs node)"
  by (induction h segs node rule: add_segs.induct) (auto simp: jsmap_simps split: option.splits)

lemma free_at_empty [simp]: "free_at segs empty_node"
  by (cases segs) (simp_all add: empty_node_def)

lemma add_segs_keeps: "\<not> free_at s node \<Longrightarrow> \<not> free_at s (add_segs h segs node)"
proof (induction h segs node arbitrary: s rule: add_segs.induct)
  case (1 h cs p hnd)
  then show ?case by (cases s) (auto split: option.splits if_splits)
next
  case (2 h seg segs cs p hnd)
  then show ?case by (cases s) (auto simp: jsmap_simps split: option.splits if_splits)
qed

lemma router_add_same: "has_route meth path r \<Longrightarrow> router_add meth path h r = Ok r"
  by (auto simp: has_route_def router_add_def Let_def add_segs_same map_set_same split: option.splits)

lemma router_add_has: "router_add meth path h r = Ok r' \<Longrightarrow> has_route meth path r'"
  by (auto simp: has_route_def router_add_def Let_def add_segs_occupies jsmap_simps split: if_splits)

lemma router_add_keeps: "router_add meth path h r = Ok r' \<Longrightarrow> has_route m p r \<Longrightarrow> has_route m p r'"
  by (auto simp: has_route_def router_add_def Let_def jsmap_simps dest: add_segs_keeps split: if_splits option.splits)

lemma add_route_Ok: "add_route m p h r = Ok r' \<longleftrightarrow> router_add m p h r = Ok r'"
  by (simp add: add_route_def split: sum.split)

definition webhook_there :: "'w app_workflow \<Rightarrow> 'h app_route http_router \<Rightarrow> bool" where
  "webhook_there aw r \<longleftrightarrow> add_webhook aw r = Ok r"

lemma add_webhook_cases:
  "add_webhook aw r = Ok r' \<Longrightarrow>
     (r' = r \<and> (\<forall>q :: 'h app_route http_router. add_webhook aw q = Ok q)) \<or>
     (\<exists>m p. router_add m p (Webhook (wf_name (aw_flow aw))) r = Ok r' \<and>
        (\<forall>q :: 'h app_route http_router. add_webhook aw q = add_route m p (Webhook (wf_name (aw_flow aw))) q))"
  for r r' :: "'h app_route http_router"
  by (auto simp: add_webhook_def Let_def add_route_Ok split: option.splits list.splits prod.splits if_splits)

lemma add_webhook_there: "add_webhook aw r = Ok r' \<Longrightarrow> webhook_there aw r'"
  unfolding webhook_there_def by (metis add_webhook_cases add_route_Ok router_add_has router_add_same)

lemma webhook_there_keeps:
  assumes there: "webhook_there aw r" and add: "router_add m p h r = Ok r'"
  shows "webhook_there aw r'"
proof -
  have "add_webhook aw r = Ok r" using there by (simp add: webhook_there_def)
  from add_webhook_cases [OF this] show ?thesis
    unfolding webhook_there_def by (metis add add_route_Ok router_add_has router_add_keeps router_add_same)
qed

lemma webhook_there_webhook:
  assumes "webhook_there aw r" and "add_webhook aw' r = Ok r'"
  shows "webhook_there aw r'"
  using add_webhook_cases [OF assms(2)] webhook_there_keeps [OF assms(1)] assms(1) by blast

lemma has_route_webhook: "add_webhook aw r = Ok r' \<Longrightarrow> has_route m p r \<Longrightarrow> has_route m p r'"
  by (metis add_webhook_cases router_add_keeps)

lemma register_workflows_keeps:
  "register_workflows ops aws r n = (Ok n', r') \<Longrightarrow> (webhook_there aw r \<longrightarrow> webhook_there aw r') \<and> (has_route m p r \<longrightarrow> has_route m p r')"
  by (induction aws arbitrary: r n)
    (auto split: sum.splits dest: webhook_there_webhook has_route_webhook)

lemma register_workflows_there:
  "register_workflows ops aws r n = (Ok n', r') \<Longrightarrow> \<forall>aw \<in> set aws. webhook_there aw r'"
proof (induction aws arbitrary: r n)
  case (Cons aw aws)
  from Cons.prems obtain r1 n1 where a: "add_webhook aw r = Ok r1" and rest: "register_workflows ops aws r1 n1 = (Ok n', r')"
    by (auto split: sum.splits)
  have "webhook_there aw r'"
    using register_workflows_keeps [OF rest, of aw] add_webhook_there [OF a] by simp
  with Cons.IH [OF rest] show ?case by simp
qed simp

lemma register_workflows_again:
  "\<forall>aw \<in> set aws. webhook_there aw r \<Longrightarrow> snd (register_workflows ops aws r n) = r"
  by (induction aws arbitrary: n) (auto simp: webhook_there_def split: sum.splits)

lemma add_health_routes:
  "has_route ''GET'' ''/healthz'' (snd (add_routes health_routes r)) \<and> has_route ''GET'' ''/readyz'' (snd (add_routes health_routes r)) \<and>
   (webhook_there aw r \<longrightarrow> webhook_there aw (snd (add_routes health_routes r)))"
proof -
  obtain r1 where 1: "router_add ''GET'' ''/healthz'' Healthz r = Ok r1" by (simp add: router_add_def Let_def)
  obtain r2 where 2: "router_add ''GET'' ''/readyz'' Readyz r1 = Ok r2" by (simp add: router_add_def Let_def)
  have "snd (add_routes health_routes r) = r2"
    using 1 2 by (simp add: health_routes_def add_route_def)
  then show ?thesis
    using router_add_has [OF 1] router_add_has [OF 2] router_add_keeps [OF 2] webhook_there_keeps [OF _ 1] webhook_there_keeps [OF _ 2] by blast
qed

lemma health_routes_again:
  "has_route ''GET'' ''/healthz'' r \<Longrightarrow> has_route ''GET'' ''/readyz'' r \<Longrightarrow> snd (add_routes health_routes r) = r"
  by (simp add: health_routes_def add_route_def router_add_same)

lemma app_start_Ok:
  assumes "app_start pf ops a = (Ok (), a')"
  obtains n r c t where "register_all ops (a\<lparr>a_codec := c\<rparr>) = (Ok n, r)" and "\<not> a_started a"
    and "a' = a\<lparr>a_codec := c, a_native := Some n, a_started := True, a_router := snd (add_routes health_routes r),
           a_signals := (op_handleSignals (a_options a) \<noteq> Some False), a_alertTimer := t\<rparr>"
proof -
  define c where "c = (case new_codec (a_options a) of Some c \<Rightarrow> Some c | None \<Rightarrow> a_codec a)"
  from assms obtain n r where "register_all ops (a\<lparr>a_codec := c\<rparr>) = (Ok n, r)" and "\<not> a_started a"
    and al: "startAlerts (a\<lparr>a_codec := c, a_native := Some n, a_started := True,
             a_router := snd (add_routes health_routes r), a_signals := (op_handleSignals (a_options a) \<noteq> Some False)\<rparr>) = (Ok (), a')"
    by (auto simp: app_start_def Let_def c_def [symmetric] split: if_splits sum.splits prod.splits)
  moreover obtain t where "a' = a\<lparr>a_codec := c, a_native := Some n, a_started := True, a_router := snd (add_routes health_routes r),
           a_signals := (op_handleSignals (a_options a) \<noteq> Some False), a_alertTimer := t\<rparr>"
    using al by (cases a) (auto simp: startAlerts_def split: option.splits sum.splits)
  ultimately show thesis using that by blast
qed

lemma register_all_Ok:
  assumes "register_all ops a = (Ok n, r)"
  obtains n0 n1 where "register_workflows ops (map snd (a_workflows a)) (a_router a) n0 = (Ok n1, r)"
  using assms by (auto simp: register_all_def split: sum.splits prod.splits)

lemma register_all_router:
  assumes "register_all ops a = (out, r)" and "\<forall>aw \<in> set (map snd (a_workflows a)). webhook_there aw (a_router a)"
  shows "r = a_router a"
proof -
  have "snd (register_workflows ops (map snd (a_workflows a)) (a_router a) n) = a_router a" for n
    by (rule register_workflows_again [OF assms(2)])
  then show ?thesis using assms(1) by (auto simp: register_all_def split: sum.splits prod.splits) (metis snd_conv)+
qed

lemma app_start_routes:
  assumes "app_start pf ops a = (Ok (), a')"
  shows "has_route ''GET'' ''/healthz'' (a_router a')" and "has_route ''GET'' ''/readyz'' (a_router a')"
    and "\<forall>aw \<in> set (map snd (a_workflows a)). webhook_there aw (a_router a')"
proof -
  from assms obtain n r c where reg: "register_all ops (a\<lparr>a_codec := c\<rparr>) = (Ok n, r)"
    and a': "a_router a' = snd (add_routes health_routes r)"
    by (rule app_start_Ok) simp
  show "has_route ''GET'' ''/healthz'' (a_router a')" "has_route ''GET'' ''/readyz'' (a_router a')"
    by (simp_all add: a' add_health_routes)
  from reg obtain n0 n1 where "register_workflows ops (map snd (a_workflows a)) (a_router a) n0 = (Ok n1, r)"
    by (rule register_all_Ok) simp
  from register_workflows_there [OF this] show "\<forall>aw \<in> set (map snd (a_workflows a)). webhook_there aw (a_router a')"
    by (simp add: a' add_health_routes)
qed

lemma app_stop_keeps:
  "app_stop ops so a = (out, a', left) \<Longrightarrow> a_router a' = a_router a \<and> a_workflows a' = a_workflows a \<and> a_queues a' = a_queues a \<and>
     a_options a' = a_options a \<and> a_middleware a' = a_middleware a"
  by (auto simp: app_stop_def Let_def split: sum.splits option.splits prod.splits)

text \<open>
  A restart serves the same routes. Stopping a started application and starting it again, with
  whatever engine and platform, leaves the route table and the middleware exactly as the first start left
  them: the webhook and health routes are added again but change nothing.
\<close>

theorem restart_keeps_routes:
  assumes "app_start pf ops a = (Ok (), a1)" and "app_stop ops so a1 = (out, a2, left)"
    and "app_start pf' ops' a2 = (Ok (), a3)"
  shows "a_router a3 = a_router a1 \<and> a_middleware a3 = a_middleware a1"
proof -
  have keep: "a_router a2 = a_router a1" "a_workflows a2 = a_workflows a1" "a_middleware a2 = a_middleware a1"
    using app_stop_keeps [OF assms(2)] by simp_all
  have a1: "a_workflows a1 = a_workflows a"
    using assms(1) by (rule app_start_Ok) simp
  from assms(3) obtain n r c where reg: "register_all ops' (a2\<lparr>a_codec := c\<rparr>) = (Ok n, r)"
    and a3: "a_router a3 = snd (add_routes health_routes r)" and mw: "a_middleware a3 = a_middleware a2"
    by (rule app_start_Ok) simp
  note there = app_start_routes [OF assms(1)]
  have "r = a_router a1" using register_all_router [OF reg] there(3) keep a1 by simp
  then show ?thesis using health_routes_again [OF there(1,2)] a3 mw keep by simp
qed

section \<open>The operations as steps\<close>

inductive app_step :: "('w, 'u) platform \<Rightarrow> ('w, 'n) native_ops \<Rightarrow> ('w, 'n, 'h, 'm) app \<Rightarrow> ('w, 'n, 'h, 'm) app \<Rightarrow> bool"
  for pf ops where
  queue: "app_queue name qo a = Ok (q, a') \<Longrightarrow> app_step pf ops a a'"
| workflow: "app_workflow name arg a = Ok (aw, a') \<Longrightarrow> app_step pf ops a a'"
| agent: "app_agent src name g ao a = Ok a' \<Longrightarrow> app_step pf ops a a'"
| machine: "app_machine name d a = Ok a' \<Longrightarrow> app_step pf ops a a'"
| schedule: "app_schedule name spec sh a = Ok a' \<Longrightarrow> app_step pf ops a a'"
| process: "app_process name h a = Ok a' \<Longrightarrow> app_step pf ops a a'"
| processBatch: "app_processBatch name h n a = Ok a' \<Longrightarrow> app_step pf ops a a'"
| version: "app_step pf ops a (app_version name legacy a)"
| mount: "app_step pf ops a (snd (app_use arg a))"
| route: "app_route meth p rh a = Ok a' \<Longrightarrow> app_step pf ops a a'"
| start: "app_step pf ops a (snd (app_start pf ops a))"
| stop: "app_step pf ops a (fst (snd (app_stop ops so a)))"
| serve: "open_server what sv port fallback host a = Ok (server, a') \<Longrightarrow> app_step pf ops a a'"

abbreviation app_steps :: "('w, 'u) platform \<Rightarrow> ('w, 'n) native_ops \<Rightarrow> ('w, 'n, 'h, 'm) app \<Rightarrow> ('w, 'n, 'h, 'm) app \<Rightarrow> bool" where
  "app_steps pf ops \<equiv> (app_step pf ops)\<^sup>*\<^sup>*"

section \<open>The invariant\<close>

text \<open>A registry has distinct keys, and each entry is kept under its own name.\<close>

definition named :: "('v \<Rightarrow> string) \<Rightarrow> (string, 'v) jsmap \<Rightarrow> bool" where
  "named f m \<longleftrightarrow> jsmap_ok m \<and> (\<forall>kv \<in> set m. f (snd kv) = fst kv)"

lemma named_set: "named f m \<Longrightarrow> f v = k \<Longrightarrow> named f (map_set k v m)"
  using set_map_set [of k v m] by (auto simp: named_def jsmap_ok_set)

lemma named_get: "named f m \<Longrightarrow> map_get m k = Some v \<Longrightarrow> f v = k"
  by (force simp: named_def dest: map_of_SomeD)

lemma named_Nil [simp]: "named f []"
  by (simp add: named_def)

definition app_ok :: "('w, 'n, 'h, 'm) app \<Rightarrow> bool" where
  "app_ok a \<longleftrightarrow>
     (a_started a \<longleftrightarrow> a_native a \<noteq> None) \<and> (a_signals a \<or> a_alertTimer a \<noteq> None \<longrightarrow> a_started a) \<and>
     named q_name (a_queues a) \<and> named (wf_name \<circ> aw_flow) (a_workflows a) \<and> named sr_name (a_schedules a) \<and>
     jsmap_ok (a_agents a) \<and> jsmap_ok (a_machines a) \<and>
     (\<forall>k. map_has (a_agents a) k \<longrightarrow> map_has (a_workflows a) (agent_workflow k))"

lemmas registration_defs = app_queue_def app_workflow_def app_machine_def app_schedule_def before_start_def not_defined_def
  res_simps Let_def

lemma app_ok_new: "app_ok (new_app o')"
  by (simp add: app_ok_def new_app_def map_has_def)

lemma app_ok_queue: "app_queue name qo a = Ok (q, a') \<Longrightarrow> app_ok a \<Longrightarrow> app_ok a'"
  by (auto simp: registration_defs app_ok_def new_queue_def intro!: named_set)

lemma app_ok_workflow: "app_workflow name arg a = Ok (aw, a') \<Longrightarrow> app_ok a \<Longrightarrow> app_ok a'"
  by (auto simp: registration_defs app_ok_def new_workflow_def jsmap_simps intro!: named_set split: prod.splits option.splits)

lemma app_workflow_adds: "app_workflow name arg a = Ok (aw, a') \<Longrightarrow> map_has (a_workflows a') name"
  by (auto simp: registration_defs jsmap_simps split: prod.splits option.splits)

lemma app_ok_agent: "app_agent src name g ao a = Ok a' \<Longrightarrow> app_ok a \<Longrightarrow> app_ok a'"
proof -
  assume agent: "app_agent src name g ao a = Ok a'" and ok: "app_ok a"
  from agent obtain aw a1 where w: "app_workflow (agent_workflow name) (OptsArg (agent_wf_options g) (Some \<lparr>fn_source = src, fn_run = agent_fn name ao\<rparr>)) a = Ok (aw, a1)"
    and a': "a' = a1\<lparr>a_agents := map_set name ao (a_agents a1)\<rparr>"
    by (auto simp: app_agent_def res_simps)
  from app_ok_workflow [OF w ok] app_workflow_adds [OF w] a' show "app_ok a'"
    by (auto simp: app_ok_def jsmap_simps)
qed

lemma app_ok_machine: "app_machine name d a = Ok a' \<Longrightarrow> app_ok a \<Longrightarrow> app_ok a'"
  by (auto simp: registration_defs app_ok_def jsmap_simps)

lemma app_ok_schedule: "app_schedule name spec sh a = Ok a' \<Longrightarrow> app_ok a \<Longrightarrow> app_ok a'"
  by (auto simp: registration_defs app_ok_def schedule_entry_def intro!: named_set)

lemma process_name: "process st h q = Ok q' \<Longrightarrow> q_name q' = q_name q" "processBatch st h n q = Ok q' \<Longrightarrow> q_name q' = q_name q"
  by (auto simp: process_def processBatch_def res_simps split: if_splits)

lemma on_queue_cases:
  assumes "on_queue name f a = Ok a'"
  obtains "a' = a" | q q' where "map_get (a_queues a) name = Some q" and "f q = Ok q'" and "a' = a\<lparr>a_queues := map_set name q' (a_queues a)\<rparr>"
  using assms by (cases "map_get (a_queues a) name") (auto simp: on_queue_def res_simps)

lemma app_ok_on_queue:
  assumes "on_queue name f a = Ok a'" and "\<And>q q'. f q = Ok q' \<Longrightarrow> q_name q' = q_name q" and "app_ok a"
  shows "app_ok a'"
  using assms(1)
proof (cases rule: on_queue_cases)
  case 1
  then show ?thesis using assms(3) by simp
next
  case (2 q q')
  have n: "named q_name (a_queues a)" using assms(3) by (simp add: app_ok_def)
  then have "named q_name (map_set name q' (a_queues a))"
    using named_get [OF n 2(1)] assms(2) [OF 2(2)] by (intro named_set) simp_all
  then show ?thesis using assms(3) 2(3) by (auto simp: app_ok_def)
qed

lemma app_ok_version: "app_ok a \<Longrightarrow> app_ok (app_version name legacy a)"
proof (cases "map_get (a_workflows a) name")
  case (Some aw)
  assume ok: "app_ok a"
  then have "wf_name (aw_flow aw) = name" using named_get [OF _ Some, of "wf_name \<circ> aw_flow"] by (auto simp: app_ok_def)
  with ok Some show ?thesis
    by (auto simp: app_version_def app_ok_def version_def jsmap_simps intro!: named_set)
qed (simp add: app_version_def)

lemma app_ok_frame:
  "app_ok a \<Longrightarrow> app_ok (a\<lparr>a_router := r\<rparr>)" "app_ok a \<Longrightarrow> app_ok (a\<lparr>a_middleware := ls\<rparr>)" "app_ok a \<Longrightarrow> app_ok (a\<lparr>a_servers := ss\<rparr>)"
  "app_ok a \<Longrightarrow> app_ok (a\<lparr>a_codec := c\<rparr>)"
  by (auto simp: app_ok_def)

lemma app_use_frame: obtains ls r where "snd (app_use arg a) = a\<lparr>a_middleware := ls, a_router := r\<rparr>"
proof -
  have none: "a = a\<lparr>a_middleware := a_middleware a, a_router := a_router a\<rparr>" by simp
  have mount: "\<exists>ls r. snd (mountRouter p sub a) = a\<lparr>a_middleware := ls, a_router := r\<rparr>" for p sub
    by (auto simp: mountRouter_def split: prod.split)
  have fns: "a\<lparr>a_middleware := ls\<rparr> = a\<lparr>a_middleware := ls, a_router := a_router a\<rparr>" for ls by simp
  show thesis
  proof (cases "a_started a")
    case True
    then have "snd (app_use arg a) = a" by (simp add: app_use_def)
    with that none show thesis by metis
  next
    case False
    then show thesis
    proof (cases arg)
      case (UseFns path fs)
      obtain out ls where "push_layers path fs (a_middleware a) = (out, ls)" by fastforce
      with UseFns False have "snd (app_use arg a) = (if fs = [] then a else a\<lparr>a_middleware := ls\<rparr>)" by (simp add: app_use_def)
      with that none fns show thesis by metis
    qed (use mount that in \<open>simp_all add: app_use_def, blast+\<close>)
  qed
qed

lemma startAlerts_frame: "\<exists>t. snd (startAlerts a) = a\<lparr>a_alertTimer := t\<rparr>"
proof (cases "op_alerts (a_options a)")
  case None
  then have "snd (startAlerts a) = a\<lparr>a_alertTimer := a_alertTimer a\<rparr>" by (simp add: startAlerts_def)
  then show ?thesis by blast
next
  case (Some cfg)
  then have "snd (startAlerts a) = a\<lparr>a_alertTimer :=
      (case opt_ms (al_interval cfg) of Inl _ \<Rightarrow> a_alertTimer a | Inr i \<Rightarrow> Some (case i of Some n \<Rightarrow> n | None \<Rightarrow> 60000))\<rparr>"
    by (simp add: startAlerts_def split: sum.split)
  then show ?thesis by blast
qed

text \<open>Every start either leaves the engine alone or ends in a running application.\<close>

lemma app_start_cases:
  obtains (failed) c r where "snd (app_start pf ops a) = a\<lparr>a_codec := c, a_router := r\<rparr>"
  | (running) c r n t where "register_all ops (a\<lparr>a_codec := c\<rparr>) = (Ok n, r)" and "\<not> a_started a"
      and "snd (app_start pf ops a) = a\<lparr>a_codec := c, a_native := Some n, a_started := True,
             a_router := snd (add_routes health_routes r), a_signals := (op_handleSignals (a_options a) \<noteq> Some False), a_alertTimer := t\<rparr>"
proof -
  define c where "c = (case new_codec (a_options a) of Some c \<Rightarrow> Some c | None \<Rightarrow> a_codec a)"
  obtain out r where reg: "register_all ops (a\<lparr>a_codec := c\<rparr>) = (out, r)" by fastforce
  let ?run = "\<lambda>n. a\<lparr>a_codec := c, a_native := Some n, a_started := True,
       a_router := snd (add_routes health_routes r), a_signals := (op_handleSignals (a_options a) \<noteq> Some False)\<rparr>"
  have unfold: "app_start pf ops a =
     (if a_started a then (Throw (Error ''app already started''), a)
      else case validateConfig (pf_url pf) (op_core (a_options a)) of
        Inl msg \<Rightarrow> (Throw (Error msg), a)
      | Inr _ \<Rightarrow> (case out of Inl e \<Rightarrow> (Throw e, a\<lparr>a_codec := c, a_router := r\<rparr>) | Inr n \<Rightarrow> startAlerts (?run n)))"
    unfolding app_start_def Let_def c_def [symmetric] reg by (simp split: sum.split)
  show thesis
  proof (cases "a_started a \<or> (\<exists>msg. validateConfig (pf_url pf) (op_core (a_options a)) = Inl msg)")
    case True
    then have "snd (app_start pf ops a) = a" by (auto simp: unfold)
    then show thesis by (intro failed [where c = "a_codec a" and r = "a_router a"]) simp
  next
    case False
    then obtain u where v: "validateConfig (pf_url pf) (op_core (a_options a)) = Inr u"
      by (cases "validateConfig (pf_url pf) (op_core (a_options a))") auto
    show thesis
    proof (cases out)
      case (Inl e)
      then show thesis using False v by (intro failed [where c = c and r = r]) (simp add: unfold)
    next
      case (Inr n)
      obtain t where "snd (startAlerts (?run n)) = (?run n)\<lparr>a_alertTimer := t\<rparr>" using startAlerts_frame by blast
      with False v Inr reg show thesis by (intro running [where c = c and n = n and r = r and t = t]) (simp_all add: unfold)
    qed
  qed
qed

lemma app_ok_start: "app_ok a \<Longrightarrow> app_ok (snd (app_start pf ops a))"
  by (cases rule: app_start_cases [of pf ops a]) (auto simp: app_ok_def)

lemma app_stop_cases:
  obtains "fst (snd (app_stop ops so a)) = a"
  | "a_native a = None" and "fst (snd (app_stop ops so a)) = a\<lparr>a_servers := []\<rparr>"
  | "fst (snd (app_stop ops so a)) = a\<lparr>a_servers := [], a_alertTimer := None, a_native := None, a_started := False, a_signals := False\<rparr>"
proof (cases "opt_ms (st_httpDrain so)")
  case (Inl e)
  then show thesis using that(1) by (simp add: app_stop_def)
next
  case (Inr d)
  show thesis
  proof (cases "a_native a")
    case None
    then show thesis using that(2) Inr by (simp add: app_stop_def Let_def)
  next
    case (Some n)
    then have "fst (snd (app_stop ops so a)) = a\<lparr>a_servers := [], a_alertTimer := None, a_native := None, a_started := False, a_signals := False\<rparr>"
      using Inr by (cases "opt_ms (st_timeout so)") (simp_all add: app_stop_def Let_def split: prod.split)
    then show thesis by (rule that(3))
  qed
qed

lemma app_ok_stop: "app_ok a \<Longrightarrow> app_ok (fst (snd (app_stop ops so a)))"
  by (cases rule: app_stop_cases [of ops so a]) (simp_all add: app_ok_frame, simp add: app_ok_def)

lemma app_ok_step: "app_step pf ops a a' \<Longrightarrow> app_ok a \<Longrightarrow> app_ok a'"
proof (induction rule: app_step.induct)
  case (mount a arg)
  obtain ls r where "snd (app_use arg a) = a\<lparr>a_middleware := ls, a_router := r\<rparr>" by (rule app_use_frame)
  with mount show ?case by (simp add: app_ok_frame)
next
  case (process name h a a')
  from process(1) [unfolded app_process_def] process_name(1) process(2) show ?case by (rule app_ok_on_queue)
next
  case (processBatch name h n a a')
  from processBatch(1) [unfolded app_processBatch_def] process_name(2) processBatch(2) show ?case by (rule app_ok_on_queue)
next
  case (route meth p rh a a')
  then show ?case by (auto simp: app_route_def res_simps app_ok_frame)
next
  case (serve what sv port fallback host a server a')
  then show ?case by (auto simp: open_server_def res_simps app_ok_frame)
next
  case (queue name qo a q a')
  then show ?case by (rule app_ok_queue)
next
  case (workflow name arg a aw a')
  then show ?case by (rule app_ok_workflow)
next
  case (agent src name g ao a a')
  then show ?case by (rule app_ok_agent)
next
  case (machine name d a a')
  then show ?case by (rule app_ok_machine)
next
  case (schedule name spec sh a a')
  then show ?case by (rule app_ok_schedule)
next
  case (version a name legacy)
  then show ?case by (rule app_ok_version)
next
  case (start a)
  then show ?case by (rule app_ok_start)
next
  case (stop a so)
  then show ?case by (rule app_ok_stop)
qed

lemma app_ok_steps: "app_steps pf ops (new_app o') a \<Longrightarrow> app_ok a"
  by (induction rule: rtranclp_induct) (auto intro: app_ok_new app_ok_step)

text \<open>
  What a later state owes to an earlier one: nothing registered is replaced or lost. A queue may still take its
  consumer, once; a workflow may still take older versions of its function.
\<close>

definition kept_queue :: "'h queue \<Rightarrow> 'h queue \<Rightarrow> bool" where
  "kept_queue q q' \<longleftrightarrow> q_name q' = q_name q \<and> q_options q' = q_options q \<and> (has_consumer q \<longrightarrow> q' = q)"

definition kept_workflow :: "'w app_workflow \<Rightarrow> 'w app_workflow \<Rightarrow> bool" where
  "kept_workflow w w' \<longleftrightarrow> aw_options w' = aw_options w \<and> wf_name (aw_flow w') = wf_name (aw_flow w) \<and>
     wf_fn (aw_flow w') = wf_fn (aw_flow w) \<and> wf_version (aw_flow w') = wf_version (aw_flow w) \<and>
     set (map_keys (wf_versions (aw_flow w))) \<subseteq> set (map_keys (wf_versions (aw_flow w')))"

definition under_same_name :: "('v \<Rightarrow> 'v \<Rightarrow> bool) \<Rightarrow> (string, 'v) jsmap \<Rightarrow> (string, 'v) jsmap \<Rightarrow> bool" where
  "under_same_name kept m m' \<longleftrightarrow> (\<forall>k v. map_get m k = Some v \<longrightarrow> (\<exists>v'. map_get m' k = Some v' \<and> kept v v'))"

definition keeps_registries :: "('w, 'n, 'h, 'm) app \<Rightarrow> ('w, 'n, 'h, 'm) app \<Rightarrow> bool" where
  "keeps_registries a b \<longleftrightarrow>
     under_same_name kept_queue (a_queues a) (a_queues b) \<and> under_same_name kept_workflow (a_workflows a) (a_workflows b) \<and>
     under_same_name (=) (a_agents a) (a_agents b) \<and> under_same_name (=) (a_machines a) (a_machines b) \<and>
     under_same_name (=) (a_schedules a) (a_schedules b)"

lemma kept_refl [simp]: "kept_queue q q" "kept_workflow w w"
  by (simp_all add: kept_queue_def kept_workflow_def)

lemma kept_trans: "kept_queue q q' \<Longrightarrow> kept_queue q' q'' \<Longrightarrow> kept_queue q q''"
    "kept_workflow w w' \<Longrightarrow> kept_workflow w' w'' \<Longrightarrow> kept_workflow w w''"
  by (auto simp: kept_queue_def kept_workflow_def)

lemma under_same_refl: "(\<And>v. kept v v) \<Longrightarrow> under_same_name kept m m"
  by (simp add: under_same_name_def)

lemma under_same_trans:
  assumes "under_same_name kept m m'" and "under_same_name kept m' m''" and "\<And>v v' v''. kept v v' \<Longrightarrow> kept v' v'' \<Longrightarrow> kept v v''"
  shows "under_same_name kept m m''"
  using assms unfolding under_same_name_def by metis

lemma under_same_new: "\<not> map_has m k \<Longrightarrow> (\<And>v. kept v v) \<Longrightarrow> under_same_name kept m (map_set k v m)"
  by (auto simp: under_same_name_def jsmap_simps map_has_def)

lemma under_same_update: "map_get m k = Some v \<Longrightarrow> kept v v' \<Longrightarrow> (\<And>v. kept v v) \<Longrightarrow> under_same_name kept m (map_set k v' m)"
  by (auto simp: under_same_name_def jsmap_simps)

lemmas keeps_intros = under_same_refl under_same_new

lemma keeps_same:
  "a_queues b = a_queues a \<Longrightarrow> a_workflows b = a_workflows a \<Longrightarrow> a_agents b = a_agents a \<Longrightarrow> a_machines b = a_machines a \<Longrightarrow>
     a_schedules b = a_schedules a \<Longrightarrow> keeps_registries a b"
  by (simp add: keeps_registries_def under_same_refl)

lemma keeps_trans: "keeps_registries a b \<Longrightarrow> keeps_registries b c \<Longrightarrow> keeps_registries a c"
  unfolding keeps_registries_def
  by (elim conjE, intro conjI; erule (1) under_same_trans; blast intro: kept_trans)

text \<open>The guards: a second registration under a name that is taken is refused.\<close>

lemma taken_refused:
  "map_has (a_queues a) k \<Longrightarrow> \<exists>e. app_queue k qo a = Throw e"
  "map_has (a_workflows a) k \<Longrightarrow> \<exists>e. app_workflow k arg a = Throw e"
  "map_has (a_machines a) k \<Longrightarrow> \<exists>e. app_machine k d a = Throw e"
  "map_has (a_schedules a) k \<Longrightarrow> \<exists>e. app_schedule k spec sh a = Throw e"
  by (auto simp: registration_defs guard_throw_def)

lemma agent_registers:
  assumes "app_agent src name g ao a = Ok a'"
  obtains aw a1 where "app_workflow (agent_workflow name) (OptsArg (agent_wf_options g) (Some \<lparr>fn_source = src, fn_run = agent_fn name ao\<rparr>)) a = Ok (aw, a1)"
    and "a' = a1\<lparr>a_agents := map_set name ao (a_agents a1)\<rparr>"
  using assms by (auto simp: app_agent_def res_simps)

lemma taken_agent_refused:
  assumes "app_ok a" and "map_has (a_agents a) k"
  shows "\<exists>e. app_agent src k g ao a = Throw e"
proof (cases "app_agent src k g ao a")
  case (Inr a')
  then obtain aw a1 where "app_workflow (agent_workflow k) (OptsArg (agent_wf_options g) (Some \<lparr>fn_source = src, fn_run = agent_fn k ao\<rparr>)) a = Ok (aw, a1)"
    by (rule agent_registers)
  moreover have "map_has (a_workflows a) (agent_workflow k)" using assms by (simp add: app_ok_def)
  ultimately show ?thesis using taken_refused(2) by (metis Inl_Inr_False)
qed simp

lemma keeps_workflow: "app_workflow name arg a = Ok (aw, a') \<Longrightarrow> keeps_registries a a'"
  by (auto simp: registration_defs guard_throw_def keeps_registries_def intro!: keeps_intros split: prod.splits option.splits if_splits)

lemma keeps_agent:
  assumes "app_agent src name g ao a = Ok a'" and "app_ok a"
  shows "keeps_registries a a'"
proof -
  from assms(1) obtain aw a1 where w: "app_workflow (agent_workflow name) (OptsArg (agent_wf_options g) (Some \<lparr>fn_source = src, fn_run = agent_fn name ao\<rparr>)) a = Ok (aw, a1)"
    and a': "a' = a1\<lparr>a_agents := map_set name ao (a_agents a1)\<rparr>"
    by (rule agent_registers)
  have "\<not> map_has (a_agents a) name" using taken_agent_refused [OF assms(2)] assms(1) by (metis Inl_Inr_False)
  moreover have "a_agents a1 = a_agents a" using w by (auto simp: registration_defs split: prod.splits option.splits)
  ultimately have "keeps_registries a1 a'" by (simp add: a' keeps_registries_def keeps_intros)
  with keeps_workflow [OF w] show ?thesis by (rule keeps_trans)
qed

lemma process_keeps:
  "process st h q = Ok q' \<Longrightarrow> kept_queue q q'" "processBatch st h n q = Ok q' \<Longrightarrow> kept_queue q q'"
  by (auto simp: process_def processBatch_def assertNoProcessor_def kept_queue_def has_consumer_def res_simps split: if_splits)

lemma keeps_on_queue:
  assumes "on_queue name f a = Ok a'" and "\<And>q q'. f q = Ok q' \<Longrightarrow> kept_queue q q'"
  shows "keeps_registries a a'"
  using assms(1)
proof (cases rule: on_queue_cases)
  case (2 q q')
  then have "under_same_name kept_queue (a_queues a) (map_set name q' (a_queues a))"
    using assms(2) by (intro under_same_update) simp_all
  then show ?thesis by (simp add: 2(3) keeps_registries_def under_same_refl)
qed (simp add: keeps_same)

lemma keeps_version: "keeps_registries a (app_version name legacy a)"
proof (cases "map_get (a_workflows a) name")
  case (Some aw)
  have "set (map_keys m) \<subseteq> set (map_keys (map_set k v m))" for k :: string and v :: "'a wf_fn" and m
    by (auto simp: map_has_iff [symmetric] jsmap_simps)
  then have "kept_workflow aw (aw\<lparr>aw_flow := version legacy (aw_flow aw)\<rparr>)"
    by (simp add: kept_workflow_def version_def)
  with Some show ?thesis by (simp add: app_version_def keeps_registries_def keeps_intros under_same_update)
qed (simp add: app_version_def keeps_same)

lemma keeps_step: "app_step pf ops a a' \<Longrightarrow> app_ok a \<Longrightarrow> keeps_registries a a'"
proof (induction rule: app_step.induct)
  case (mount a arg)
  obtain ls r where "snd (app_use arg a) = a\<lparr>a_middleware := ls, a_router := r\<rparr>" by (rule app_use_frame)
  then show ?case by (simp add: keeps_same)
next
  case (process name h a a')
  from process(1) [unfolded app_process_def] process_keeps(1) show ?case by (rule keeps_on_queue)
next
  case (processBatch name h n a a')
  from processBatch(1) [unfolded app_processBatch_def] process_keeps(2) show ?case by (rule keeps_on_queue)
next
  case (agent src name g ao a a')
  then show ?case by (rule keeps_agent)
next
  case (start a)
  show ?case by (cases rule: app_start_cases [of pf ops a]) (simp_all add: keeps_same)
next
  case (stop a so)
  show ?case by (cases rule: app_stop_cases [of ops so a]) (simp_all add: keeps_same)
next
  case (workflow name arg a aw a')
  then show ?case by (intro keeps_workflow)
next
  case (version a name legacy)
  show ?case by (rule keeps_version)
qed (auto simp: registration_defs guard_throw_def keeps_registries_def app_route_def open_server_def
    intro!: keeps_intros split: if_splits)

lemma keeps_steps: "app_steps pf ops a b \<Longrightarrow> app_ok a \<Longrightarrow> app_ok b \<and> keeps_registries a b"
proof (induction rule: rtranclp_induct)
  case (step b c)
  then show ?case using app_ok_step keeps_step keeps_trans by metis
qed (simp add: keeps_same)

text \<open>
  C29: the life cycle invariant. After any operations (failed starts, stops and server openings included) the
  application counts as started exactly when it holds an engine; signal handlers and the alert timer exist only
  then; the five registries have distinct names, queues, workflows and schedules their own; each agent has its
  workflow; a taken name is refused. Whatever operations follow, no entry is lost or replaced: agents, machines and
  schedules stay as they are, a queue keeps its options and, once it has one, its consumer, a workflow its function,
  version and options.
\<close>

theorem lifecycle_invariant:
  assumes "app_steps pf ops (new_app o') a"
  shows "(a_started a \<longleftrightarrow> a_native a \<noteq> None) \<and> (a_signals a \<or> a_alertTimer a \<noteq> None \<longrightarrow> a_started a) \<and>
     named q_name (a_queues a) \<and> named (wf_name \<circ> aw_flow) (a_workflows a) \<and> named sr_name (a_schedules a) \<and>
     jsmap_ok (a_agents a) \<and> jsmap_ok (a_machines a) \<and>
     (\<forall>k. map_has (a_agents a) k \<longrightarrow> map_has (a_workflows a) (agent_workflow k)) \<and>
     (\<forall>k. map_has (a_queues a) k \<longrightarrow> (\<forall>qo. \<exists>e. app_queue k qo a = Throw e)) \<and>
     (\<forall>k. map_has (a_workflows a) k \<longrightarrow> (\<forall>arg. \<exists>e. app_workflow k arg a = Throw e)) \<and>
     (\<forall>k. map_has (a_agents a) k \<longrightarrow> (\<forall>src g ao. \<exists>e. app_agent src k g ao a = Throw e)) \<and>
     (\<forall>k. map_has (a_machines a) k \<longrightarrow> (\<forall>d. \<exists>e. app_machine k d a = Throw e)) \<and>
     (\<forall>k. map_has (a_schedules a) k \<longrightarrow> (\<forall>spec sh. \<exists>e. app_schedule k spec sh a = Throw e)) \<and>
     (\<forall>b. app_steps pf ops a b \<longrightarrow> keeps_registries a b)"
proof -
  note ok = app_ok_steps [OF assms]
  show ?thesis using ok [unfolded app_ok_def] taken_refused [where a = a] taken_agent_refused [OF ok] keeps_steps [OF _ ok] by blast
qed

section \<open>What the engine has been told\<close>

text \<open>An engine that only writes down what it is told.\<close>

record 'w reg_log =
  lg_config :: runtime_config
  lg_queues :: "'w queue_reg list"
  lg_workflows :: "workflow_reg list"
  lg_schedules :: "'w native_schedule list"
  lg_machines :: "native_machine list"
  lg_running :: bool

definition recorder :: "('w, 'w reg_log) native_ops" where
  "recorder =
     \<lparr>new_runtime = (\<lambda>cfg. Ok \<lparr>lg_config = cfg, lg_queues = [], lg_workflows = [], lg_schedules = [], lg_machines = [], lg_running = False\<rparr>),
      registerQueue = (\<lambda>q n. Ok (n\<lparr>lg_queues := lg_queues n @ [q]\<rparr>)),
      registerWorkflow = (\<lambda>w n. Ok (n\<lparr>lg_workflows := lg_workflows n @ [w]\<rparr>)),
      registerSchedule = (\<lambda>r n. Ok (n\<lparr>lg_schedules := lg_schedules n @ [r]\<rparr>)),
      registerMachine = (\<lambda>m n. Ok (n\<lparr>lg_machines := lg_machines n @ [m]\<rparr>)),
      native_start = (\<lambda>n. Ok (n\<lparr>lg_running := True\<rparr>)),
      native_stop = (\<lambda>_ n. (True, n\<lparr>lg_running := False\<rparr>)), healthCheck = (\<lambda>n. lg_running n)\<rparr>"

definition told :: "('w, 'w reg_log, 'h, 'm) app \<Rightarrow> 'w reg_log \<Rightarrow> bool" where
  "told a lg \<longleftrightarrow>
     runtime_options (a_options a) = Ok (lg_config lg) \<and>
     rmap queue_entry (filter has_consumer (map snd (a_queues a))) = Ok (lg_queues lg) \<and>
     rmap workflow_entry (map snd (a_workflows a)) = Ok (lg_workflows lg) \<and>
     lg_schedules lg = map (native_schedule_of \<circ> snd) (a_schedules a) \<and>
     lg_machines lg = map native_machine_of (a_machines a) \<and> lg_running lg"

lemma register_each_log:
  assumes "register_each entry (\<lambda>r n. Ok (add r n)) xs n = Ok n'"
  obtains rs where "rmap entry xs = Ok rs" and "n' = fold add rs n"
  using assms
proof (induction xs arbitrary: n thesis)
  case (Cons x xs)
  from Cons.prems(2) obtain r where r: "entry x = Ok r" and rest: "register_each entry (\<lambda>r n. Ok (add r n)) xs (add r n) = Ok n'"
    by (auto simp: res_simps)
  show ?case
  proof (rule Cons.IH [OF _ rest])
    fix rs assume "rmap entry xs = Ok rs" and "n' = fold add rs (add r n)"
    then show thesis using r by (intro Cons.prems(1) [of "r # rs"]) simp_all
  qed
qed simp

lemma register_workflows_log:
  assumes "register_workflows recorder aws r n = (Ok n', r')"
  obtains ws where "rmap workflow_entry aws = Ok ws" and "n' = fold (\<lambda>w n. n\<lparr>lg_workflows := lg_workflows n @ [w]\<rparr>) ws n"
  using assms
proof (induction aws arbitrary: r n thesis)
  case (Cons aw aws)
  from Cons.prems(2) obtain r1 w where w: "workflow_entry aw = Ok w"
    and rest: "register_workflows recorder aws r1 (n\<lparr>lg_workflows := lg_workflows n @ [w]\<rparr>) = (Ok n', r')"
    by (auto simp: recorder_def res_simps split: sum.splits)
  show ?case
  proof (rule Cons.IH [OF _ rest])
    fix ws assume "rmap workflow_entry aws = Ok ws"
      and "n' = fold (\<lambda>w n. n\<lparr>lg_workflows := lg_workflows n @ [w]\<rparr>) ws (n\<lparr>lg_workflows := lg_workflows n @ [w]\<rparr>)"
    then show thesis using w by (intro Cons.prems(1) [of "w # ws"]) simp_all
  qed
qed simp

lemma fold_log:
  "fold (\<lambda>x n. n\<lparr>lg_queues := lg_queues n @ [x]\<rparr>) qs n = n\<lparr>lg_queues := lg_queues n @ qs\<rparr>"
  "fold (\<lambda>x n. n\<lparr>lg_workflows := lg_workflows n @ [x]\<rparr>) ws n = n\<lparr>lg_workflows := lg_workflows n @ ws\<rparr>"
  "fold (\<lambda>x n. n\<lparr>lg_schedules := lg_schedules n @ [x]\<rparr>) ss n = n\<lparr>lg_schedules := lg_schedules n @ ss\<rparr>"
  "fold (\<lambda>x n. n\<lparr>lg_machines := lg_machines n @ [x]\<rparr>) ms' n = n\<lparr>lg_machines := lg_machines n @ ms'\<rparr>"
  by (induction qs arbitrary: n, simp_all, induction ws arbitrary: n, simp_all, induction ss arbitrary: n, simp_all,
      induction ms' arbitrary: n, simp_all)

lemma rmap_pure: "rmap (\<lambda>x. Ok (f x)) xs = Ok (map f xs)"
  by (rule rmap_Ok_all) simp

lemma register_all_told:
  assumes "register_all recorder a = (Ok n, r)"
  shows "told a n"
proof -
  let ?rq = "\<lambda>q n. n\<lparr>lg_queues := lg_queues n @ [q]\<rparr>"
  let ?rs = "\<lambda>q n. n\<lparr>lg_schedules := lg_schedules n @ [q]\<rparr>"
  let ?rm = "\<lambda>q n. n\<lparr>lg_machines := lg_machines n @ [q]\<rparr>"
  from assms obtain cfg n0 n1 n2 n3 where cfg: "runtime_options (a_options a) = Ok cfg"
    and q: "register_each queue_entry (\<lambda>q n. Ok (?rq q n)) (filter has_consumer (map snd (a_queues a)))
          \<lparr>lg_config = cfg, lg_queues = [], lg_workflows = [], lg_schedules = [], lg_machines = [], lg_running = False\<rparr> = Ok n0"
    and w: "register_workflows recorder (map snd (a_workflows a)) (a_router a) n0 = (Ok n1, r)"
    and sc: "register_each (\<lambda>reg. Ok (native_schedule_of reg)) (\<lambda>q n. Ok (?rs q n)) (map snd (a_schedules a)) n1 = Ok n2"
    and m: "register_each (\<lambda>d. Ok (native_machine_of d)) (\<lambda>q n. Ok (?rm q n)) (a_machines a) n2 = Ok n3"
    and n: "n = n3\<lparr>lg_running := True\<rparr>"
    unfolding register_all_def
    by (auto simp: res_simps recorder_def [THEN arg_cong [where f = new_runtime]] recorder_def [THEN arg_cong [where f = registerQueue]]
        recorder_def [THEN arg_cong [where f = registerSchedule]] recorder_def [THEN arg_cong [where f = registerMachine]]
        recorder_def [THEN arg_cong [where f = native_start]] split: sum.splits prod.splits)
  from q obtain qs where qs: "rmap queue_entry (filter has_consumer (map snd (a_queues a))) = Ok qs"
      "n0 = \<lparr>lg_config = cfg, lg_queues = qs, lg_workflows = [], lg_schedules = [], lg_machines = [], lg_running = False\<rparr>"
    by (rule register_each_log) (simp add: fold_log)
  from w obtain ws where ws: "rmap workflow_entry (map snd (a_workflows a)) = Ok ws" "n1 = n0\<lparr>lg_workflows := ws\<rparr>"
    by (rule register_workflows_log) (simp add: fold_log qs(2))
  from sc obtain ss where ss: "rmap (\<lambda>reg. Ok (native_schedule_of reg) :: (exn, _) res) (map snd (a_schedules a)) = Ok ss" "n2 = n1\<lparr>lg_schedules := ss\<rparr>"
    by (rule register_each_log) (simp add: fold_log qs(2) ws(2))
  from m obtain mm where mm: "rmap (\<lambda>d. Ok (native_machine_of d) :: (exn, _) res) (a_machines a) = Ok mm" "n3 = n2\<lparr>lg_machines := mm\<rparr>"
    by (rule register_each_log) (simp add: fold_log qs(2) ws(2) ss(2))
  show ?thesis using cfg qs ws ss mm n by (simp add: told_def rmap_pure comp_def)
qed

lemma rmap_map_cong: "map f xs = map f ys \<Longrightarrow> rmap f xs = rmap f ys"
proof (induction xs arbitrary: ys)
  case (Cons x xs)
  then obtain y ys' where "ys = y # ys'" "f y = f x" "map f xs = map f ys'" by (auto simp: Cons_eq_map_conv)
  with Cons.IH [of ys'] show ?case by simp
qed simp

lemma map_snd_set: "map_get m k = Some x \<Longrightarrow> f v = f x \<Longrightarrow> map f (map snd (map_set k v m)) = map f (map snd m)"
  by (induction m) auto

lemma told_version: "told a n \<Longrightarrow> told (app_version name legacy a) n"
proof (cases "map_get (a_workflows a) name")
  case (Some aw)
  let ?aw = "aw\<lparr>aw_flow := version legacy (aw_flow aw)\<rparr>"
  have "workflow_entry ?aw = workflow_entry aw" by (simp add: workflow_entry_def version_def)
  from map_snd_set [OF Some, where f = workflow_entry, OF this]
  have "rmap workflow_entry (map snd (map_set name ?aw (a_workflows a))) = rmap workflow_entry (map snd (a_workflows a))"
    by (rule rmap_map_cong)
  moreover assume "told a n"
  ultimately show ?thesis using Some by (simp add: told_def app_version_def)
qed (simp add: app_version_def)

text \<open>Registration is refused while the engine runs.\<close>

lemma registration_stopped:
  "app_queue name qo a = Ok (q, a') \<Longrightarrow> \<not> a_started a \<and> a_native a' = a_native a"
  "app_workflow name arg a = Ok (aw, a') \<Longrightarrow> \<not> a_started a \<and> a_native a' = a_native a"
  "app_machine name d a = Ok a' \<Longrightarrow> \<not> a_started a \<and> a_native a' = a_native a"
  "app_schedule name spec sh a = Ok a' \<Longrightarrow> \<not> a_started a \<and> a_native a' = a_native a"
  by (auto simp: registration_defs split: prod.splits option.splits)

lemma agent_stopped: "app_agent src name g ao a = Ok a' \<Longrightarrow> \<not> a_started a \<and> a_native a' = a_native a"
  by (auto simp: app_agent_def res_simps dest: registration_stopped(2))

lemma process_stopped: "process st h q = Ok q' \<Longrightarrow> \<not> st" "processBatch st h n q = Ok q' \<Longrightarrow> \<not> st"
  by (auto simp: process_def processBatch_def assertNoProcessor_def res_simps split: if_splits)

definition in_sync :: "('w, 'w reg_log, 'h, 'm) app \<Rightarrow> bool" where
  "in_sync a \<longleftrightarrow> (\<forall>n. a_native a = Some n \<longrightarrow> told a n)"

lemma in_sync_stopped: "app_ok a \<Longrightarrow> \<not> a_started a \<Longrightarrow> a_native a' = a_native a \<Longrightarrow> in_sync a'"
  by (simp add: in_sync_def app_ok_def)

lemma in_sync_frame:
  "in_sync a \<Longrightarrow> in_sync (a\<lparr>a_router := r\<rparr>)" "in_sync a \<Longrightarrow> in_sync (a\<lparr>a_servers := ss\<rparr>)" "in_sync a \<Longrightarrow> in_sync (a\<lparr>a_middleware := ls\<rparr>)"
  "in_sync a \<Longrightarrow> in_sync (a\<lparr>a_codec := c\<rparr>)"
  by (simp_all add: in_sync_def told_def)

lemma in_sync_on_queue:
  assumes "on_queue name f a = Ok a'" and "\<And>q q'. f q = Ok q' \<Longrightarrow> \<not> a_started a" and "app_ok a" and "in_sync a"
  shows "in_sync a'"
  using assms(1)
proof (cases rule: on_queue_cases)
  case (2 q q')
  show ?thesis by (rule in_sync_stopped [OF assms(3) assms(2) [OF 2(2)]]) (simp add: 2(3))
qed (use assms in simp)

lemma in_sync_start:
  assumes "in_sync a" shows "in_sync (snd (app_start pf recorder a))"
proof (cases rule: app_start_cases [of pf recorder a])
  case (failed c r)
  then show ?thesis using assms by (simp add: in_sync_frame)
next
  case (running c r n t)
  from register_all_told [OF running(1)] running(3) show ?thesis by (simp add: in_sync_def told_def)
qed

lemma in_sync_stop: "in_sync a \<Longrightarrow> in_sync (fst (snd (app_stop ops so a)))"
  by (cases rule: app_stop_cases [of ops so a]) (simp_all add: in_sync_frame, simp add: in_sync_def)

lemma in_sync_step: "app_step pf recorder a a' \<Longrightarrow> app_ok a \<Longrightarrow> in_sync a \<Longrightarrow> in_sync a'"
proof (induction rule: app_step.induct)
  case (mount a arg)
  obtain ls r where "snd (app_use arg a) = a\<lparr>a_middleware := ls, a_router := r\<rparr>" by (rule app_use_frame)
  with mount show ?case by (simp add: in_sync_frame)
next
  case (process name h a a')
  then show ?case using in_sync_on_queue [OF process(1) [unfolded app_process_def]] process_stopped(1) by metis
next
  case (processBatch name h n a a')
  then show ?case using in_sync_on_queue [OF processBatch(1) [unfolded app_processBatch_def]] process_stopped(2) by metis
next
  case (route meth p rh a a')
  then show ?case by (auto simp: app_route_def res_simps in_sync_frame)
next
  case (serve what sv port fallback host a server a')
  then show ?case by (auto simp: open_server_def res_simps in_sync_frame)
next
  case (queue name qo a q a')
  then show ?case using registration_stopped(1) in_sync_stopped by metis
next
  case (workflow name arg a aw a')
  then show ?case using registration_stopped(2) in_sync_stopped by metis
next
  case (agent src name g ao a a')
  then show ?case using agent_stopped in_sync_stopped by metis
next
  case (machine name d a a')
  then show ?case using registration_stopped(3) in_sync_stopped by metis
next
  case (schedule name spec sh a a')
  then show ?case using registration_stopped(4) in_sync_stopped by metis
next
  case (version a name legacy)
  have "a_native (app_version name legacy a) = a_native a" by (simp add: app_version_def split: option.split)
  with version show ?case by (simp add: in_sync_def told_version)
next
  case (start a)
  then show ?case by (intro in_sync_start)
next
  case (stop a so)
  then show ?case by (intro in_sync_stop)
qed

lemma in_sync_steps: "app_steps pf recorder (new_app o') a \<Longrightarrow> in_sync a"
proof (induction rule: rtranclp_induct)
  case base
  then show ?case by (simp add: in_sync_def new_app_def)
next
  case (step a a')
  then show ?case using in_sync_step app_ok_steps by metis
qed

text \<open>
  C30: while the application runs, the engine knows exactly what is registered. After any sequence of
  operations on an application over a recording engine, an engine it holds is running and was told, in order
  and once each: the translated options, the queues that have a consumer (with \<open>retries + 1\<close> attempts), all
  workflows, all schedules, and all machines with their transitions; nothing registered since has escaped it.
\<close>

theorem engine_in_sync:
  assumes "app_steps pf recorder (new_app o') a" and "a_native a = Some lg"
  shows "runtime_options (a_options a) = Ok (lg_config lg) \<and>
     rmap queue_entry (filter has_consumer (map snd (a_queues a))) = Ok (lg_queues lg) \<and>
     rmap workflow_entry (map snd (a_workflows a)) = Ok (lg_workflows lg) \<and>
     lg_schedules lg = map (native_schedule_of \<circ> snd) (a_schedules a) \<and>
     lg_machines lg = map native_machine_of (a_machines a) \<and> lg_running lg"
  using in_sync_steps [OF assms(1)] assms(2) unfolding in_sync_def told_def by blast

section \<open>A small application\<close>

definition bare_options :: app_options where
  "bare_options =
     \<lparr>op_core = \<lparr>zo_store = None, zo_threshold = None, zo_workerThreads = None, zo_logLevel = None\<rparr>, op_dataDir = None,
      op_handleSignals = None, op_sweep = None, op_schedulerTick = None, op_retentionSweep = None, op_retentionRuns = Some Off,
      op_retentionEvents = None, op_payloads = None, op_encryptionKey = None, op_alerts = None, op_logger = False, op_onError = False\<rparr>"

definition bare_platform :: "(int, unit) platform" where
  "bare_platform =
     \<lparr>pf_now = id, pf_url = \<lparr>new_URL = (\<lambda>_. Some ()), url_password = (\<lambda>_. []), set_password = (\<lambda>_ u. u), url_toString = (\<lambda>_. [])\<rparr>,
      pf_codec = (\<lambda>_. \<lparr>cod_offload = (\<lambda>_ _ t w. (t, w)), cod_rehydrate = (\<lambda>t _. t)\<rparr>)\<rparr>"

type_synonym small_app = "(int, int reg_log, nat, nat) app"

definition count_jobs :: "(delivered, int) consumer" where
  "count_jobs js w = (Ok (), w + int (length js))"

definition hook_fn :: "int wf_fn" where
  "hook_fn = \<lparr>fn_source = ''ctx => 1'', fn_run = (\<lambda>_. Return (JNum 1))\<rparr>"

definition small0 :: small_app where
  "small0 = new_app bare_options"

definition small1 :: small_app where
  "small1 = (case app_queue ''mail'' plain_options small0 of Inr (_, a) \<Rightarrow> a | Inl _ \<Rightarrow> small0)"

definition small2 :: small_app where
  "small2 = (case app_process ''mail'' count_jobs small1 of Inr a \<Rightarrow> a | Inl _ \<Rightarrow> small1)"

definition small3 :: small_app where
  "small3 = (case app_workflow ''hook'' (OptsArg (no_wf_options\<lparr>wo_http := Some ''POST /hooks/x''\<rparr>) (Some hook_fn)) small2 of
     Inr (_, a) \<Rightarrow> a | Inl _ \<Rightarrow> small2)"

definition small4 :: small_app where
  "small4 = snd (app_start bare_platform recorder small3)"

text \<open>The same with the version left open, so that evaluating the start does not hash the source.\<close>

definition small3_of :: "string \<Rightarrow> small_app" where
  "small3_of v = small2\<lparr>a_workflows := [(''hook'',
     \<lparr>aw_flow = \<lparr>wf_name = ''hook'', wf_fn = hook_fn, wf_version = v, wf_versions = []\<rparr>,
      aw_options = no_wf_options\<lparr>wo_http := Some ''POST /hooks/x''\<rparr>\<rparr>)]\<rparr>"

definition small4_of :: "string \<Rightarrow> small_app" where
  "small4_of v = snd (app_start bare_platform recorder (small3_of v))"

abbreviation hook_version :: string where
  "hook_version \<equiv> hashDefinition (fn_source hook_fn)"

lemma small2_facts: "\<not> a_started small2" "a_workflows small2 = []"
  by (simp_all add: small2_def small1_def small0_def app_queue_def app_process_def on_queue_def before_start_def not_defined_def
      new_app_def map_has_def Let_def process_def assertNoProcessor_def new_queue_def)

lemma small3_eq: "small3 = small3_of hook_version"
  by (simp add: small3_def small3_of_def app_workflow_def before_start_def not_defined_def small2_facts map_has_def new_workflow_def Let_def)

lemma small4_eq: "small4 = small4_of hook_version"
  by (simp add: small4_def small4_of_def small3_eq)

lemma small_steps: "app_steps bare_platform recorder small0 small4"
proof -
  have "app_steps bare_platform recorder small0 small1"
    by (auto simp: small1_def split: sum.split intro: r_into_rtranclp app_step.queue)
  also have "app_steps bare_platform recorder small1 small2"
    by (auto simp: small2_def split: sum.split intro: r_into_rtranclp app_step.process)
  also have "app_steps bare_platform recorder small2 small3"
    by (auto simp: small3_def split: sum.split intro: r_into_rtranclp app_step.workflow)
  also have "app_steps bare_platform recorder small3 small4"
    unfolding small4_def by (intro r_into_rtranclp app_step.start)
  finally show ?thesis .
qed

abbreviation plain_stop :: stop_options where
  "plain_stop \<equiv> \<lparr>st_timeout = None, st_httpDrain = None\<rparr>"

lemma small_started: "fst (app_start bare_platform recorder (small3_of v)) = Ok ()"
    "fst (app_start bare_platform recorder (fst (snd (app_stop recorder plain_stop (small4_of v))))) = Ok ()"
  by (code_simp, code_simp)

lemma small4_facts:
  "a_started (small4_of v)" "map_keys (a_queues (small4_of v)) = [''mail'']" "a_native (small4_of v) \<noteq> None"
  "rbind (rmap queue_entry (filter has_consumer (map snd (a_queues (small4_of v))))) (\<lambda>rs. Ok (map qr_name rs, map qr_maxAttempts rs) :: (exn, _) res) = Ok ([''mail''], [3])"
  "rbind (rmap workflow_entry (map snd (a_workflows (small4_of v)))) (\<lambda>rs. Ok (map wr_name rs) :: (exn, _) res) = Ok [''hook'']"
  by (code_simp, code_simp, code_simp, code_simp, code_simp)

theorem lifecycle_invariant_witness:
  "a_started small4 \<and> map_keys (a_queues small4) = [''mail''] \<and> a_native small4 \<noteq> None \<and>
   (\<exists>e. app_queue ''mail'' plain_options small4 = Throw e) \<and>
   keeps_registries small4 (fst (snd (app_stop recorder plain_stop small4)))"
proof -
  note inv = lifecycle_invariant [OF small_steps [unfolded small0_def]]
  note facts = small4_facts(1,2) [of hook_version, folded small4_eq]
  have mail: "map_has (a_queues small4) ''mail''"
    using facts(2) by (simp add: map_has_iff)
  have "app_steps bare_platform recorder small4 (fst (snd (app_stop recorder plain_stop small4)))"
    by (intro r_into_rtranclp app_step.stop)
  with inv facts mail show ?thesis by blast
qed

theorem engine_in_sync_witness:
  "\<exists>lg. a_native small4 = Some lg \<and> map qr_name (lg_queues lg) = [''mail''] \<and> map qr_maxAttempts (lg_queues lg) = [3] \<and>
     map wr_name (lg_workflows lg) = [''hook''] \<and> lg_running lg"
proof -
  obtain lg where lg: "a_native small4 = Some lg" using small4_facts(3) [of hook_version] by (auto simp: small4_eq)
  with engine_in_sync [OF small_steps [unfolded small0_def] lg] small4_facts(4,5) [of hook_version] show ?thesis by (simp add: small4_eq)
qed

theorem restart_keeps_routes_witness:
  "a_router (snd (app_start bare_platform recorder (fst (snd (app_stop recorder plain_stop small4))))) = a_router small4"
proof -
  have a: "app_start bare_platform recorder small3 = (Ok (), small4)"
    using small_started(1) [of hook_version] unfolding small4_eq small4_of_def small3_eq by (metis prod.collapse)
  let ?st = "app_stop recorder plain_stop small4"
  have b: "?st = (fst ?st, fst (snd ?st), snd (snd ?st))" by simp
  have c: "app_start bare_platform recorder (fst (snd ?st)) = (Ok (), snd (app_start bare_platform recorder (fst (snd ?st))))"
    using small_started(2) [of hook_version] unfolding small4_eq by (metis prod.collapse)
  from restart_keeps_routes [OF a b c] show ?thesis by simp
qed

section \<open>Findings\<close>

text \<open>
  The alert interval is parsed last, after the engine was started: with a malformed interval \<open>start\<close> rejects
  while the application is started, and calling \<open>start\<close> again is refused.
\<close>

definition bad_alerts :: small_app where
  "bad_alerts = new_app (bare_options\<lparr>op_alerts := Some \<lparr>al_interval = Some (DStr ''often''), al_dlqThreshold = None, al_idle = None\<rparr>\<rparr>)"

lemma start_rejects_while_running:
  "(case app_start bare_platform recorder bad_alerts of
      (Inl _, a) \<Rightarrow> a_started a \<and> a_native a \<noteq> None \<and> fst (app_start bare_platform recorder a) = Throw (Error ''app already started'')
    | _ \<Rightarrow> False)"
  by code_simp

text \<open>
  \<open>stop\<close> lets go of the engine before it parses its own timeout: with a malformed timeout it rejects, the engine
  is still running, and nothing can stop it any more.
\<close>

lemma stop_rejects_and_leaves_engine_running:
  "(case app_stop recorder \<lparr>st_timeout = Some (DStr ''soon''), st_httpDrain = None\<rparr> (small4_of v) of
      (Inl _, a, Some n) \<Rightarrow> lg_running n \<and> a_native a = None \<and> \<not> a_started a
    | _ \<Rightarrow> False)"
  by code_simp

text \<open>
  The liveness route answers even when the application has been stopped (an embedded handler outlives it),
  and the readiness route then throws instead of answering 503.
\<close>

lemma readiness_throws_after_stop:
  "probe_answer recorder small0 (Readyz :: nat app_route) = Some (Throw not_started) \<and>
   probe_answer recorder small0 (Healthz :: nat app_route) = Some (Ok (200, JObj [(''status'', JStr ''alive'')]))"
  by (simp add: probe_answer_def native_of_def small0_def new_app_def)

end
