(* ===== verification/Ssrf.thy ===== *)
theory Ssrf
  imports Prelude
begin

text \<open>
  The SSRF guard (\<open>packages/zenzip/src/ssrf.ts\<close>): the address classifier and \<open>assertPublicUrl\<close>.
  \<open>isIP\<close> of \<open>node:net\<close> is modelled for both address families; the URL parser and the resolver are
  arguments (\<open>None\<close> is the exception each may throw).
\<close>

section \<open>Address literals\<close>

definition octet :: "string \<Rightarrow> bool" where
  "octet s \<longleftrightarrow> s \<noteq> [] \<and> length s \<le> 3 \<and> list_all is_digit s \<and> (hd s \<noteq> CHR ''0'' \<or> length s = 1) \<and> dec_value s < 256"

definition is_ip4 :: "string \<Rightarrow> bool" where
  "is_ip4 s \<longleftrightarrow> (let ps = split_on (CHR ''.'') s in length ps = 4 \<and> list_all octet ps)"

definition is_hex :: "char \<Rightarrow> bool" where
  "is_hex c \<longleftrightarrow> is_digit c \<or> (97 \<le> code c \<and> code c \<le> 102) \<or> (65 \<le> code c \<and> code c \<le> 70)"

definition hextet :: "string \<Rightarrow> bool" where
  "hextet s \<longleftrightarrow> s \<noteq> [] \<and> length s \<le> 4 \<and> list_all is_hex s"

text \<open>The number of 16-bit units of a colon-separated list; the last may be a dotted address.\<close>

fun units :: "bool \<Rightarrow> string list \<Rightarrow> nat option" where
  "units lastGroup [] = Some 0"
| "units lastGroup [s] = (if hextet s then Some 1 else if lastGroup \<and> is_ip4 s then Some 2 else None)"
| "units lastGroup (s # t # ss) = (if hextet s then map_option Suc (units lastGroup (t # ss)) else None)"

fun break_at :: "string \<Rightarrow> string \<Rightarrow> (string \<times> string) option" where
  "break_at sub [] = (if sub = [] then Some ([], []) else None)"
| "break_at sub (c # cs) =
     (if startsWith (c # cs) sub then Some ([], drop (length sub) (c # cs))
      else map_option (\<lambda>(a, b). (c # a, b)) (break_at sub cs))"

definition colon_groups :: "string \<Rightarrow> string list" where
  "colon_groups s = (if s = [] then [] else split_on (CHR '':'') s)"

definition zone_char :: "char \<Rightarrow> bool" where
  "zone_char c \<longleftrightarrow> is_digit c \<or> (97 \<le> code c \<and> code c \<le> 122) \<or> (65 \<le> code c \<and> code c \<le> 90) \<or> c \<in> {CHR ''-'', CHR ''.'', CHR '':''}"

definition is_ip6 :: "string \<Rightarrow> bool" where
  "is_ip6 full \<longleftrightarrow>
     (case break_at ''%'' full of
        Some (s, zone) \<Rightarrow> zone \<noteq> [] \<and> list_all zone_char zone
      | None \<Rightarrow> True) \<and>
     (let s = (case break_at ''%'' full of Some (a, _) \<Rightarrow> a | None \<Rightarrow> full) in
      case break_at ''::'' s of
        None \<Rightarrow> units True (colon_groups s) = Some 8
      | Some (l, r) \<Rightarrow>
          (case (units False (colon_groups l), units True (colon_groups r)) of
             (Some m, Some n) \<Rightarrow> m + n \<le> 7
           | _ \<Rightarrow> False))"

definition isIP :: "string \<Rightarrow> nat" where
  "isIP s = (if is_ip4 s then 4 else if is_ip6 s then 6 else 0)"

section \<open>The classifier\<close>

definition private4 :: "string \<Rightarrow> bool" where
  "private4 ip =
     (let p = map dec_value (split_on (CHR ''.'') ip); a = p ! 0; b = p ! 1 in
      a = 10 \<or> a = 127 \<or> a = 0 \<or> (a = 169 \<and> b = 254) \<or> (a = 172 \<and> b \<ge> 16 \<and> b \<le> 31) \<or>
      (a = 192 \<and> b = 168) \<or> (a = 100 \<and> b \<ge> 64 \<and> b \<le> 127) \<or> a \<ge> 224)"

definition mapped4 :: "string \<Rightarrow> string option" where
  "mapped4 v =
     (case break_at ''::ffff:'' v of
        None \<Rightarrow> None
      | Some (_, rest) \<Rightarrow>
          (let ps = split_on (CHR ''.'') rest in
           if length ps = 4 \<and> list_all (\<lambda>q. q \<noteq> [] \<and> list_all is_digit q) ps then Some rest else None))"

definition isPrivateIp :: "string \<Rightarrow> bool" where
  "isPrivateIp ip =
     (if isIP ip = 4 then private4 ip
      else if isIP ip = 6 then
        (let v = toLowerCase ip in
         if v = ''::1'' \<or> v = ''::'' then True
         else if startsWith v ''fe80'' then True
         else if startsWith v ''fc'' \<or> startsWith v ''fd'' then True
         else case mapped4 v of
                Some q \<Rightarrow> if isIP q = 4 then private4 q else True
              | None \<Rightarrow> False)
      else True)"

section \<open>The guard\<close>

record ssrf_options =
  ss_allowHosts :: "string list option"
  ss_allowPrivate :: bool
  ss_allowSchemes :: "string list option"

record parsed_url =
  pu_protocol :: string
  pu_hostname :: string

datatype ssrf_error = InvalidUrl string | SchemeNotAllowed string | HostNotAllowed string | LookupFailed string
  | NotResolved string | PrivateAddress string string

definition strip_brackets :: "string \<Rightarrow> string" where
  "strip_brackets h =
     (let a = (if startsWith h ''['' then drop 1 h else h) in if endsWith a '']'' then butlast a else a)"

fun check_addresses :: "string \<Rightarrow> string list \<Rightarrow> (ssrf_error, unit) res" where
  "check_addresses host [] = Ok ()"
| "check_addresses host (a # as) = (if isPrivateIp a then Throw (PrivateAddress host a) else check_addresses host as)"

definition host_addresses :: "(string \<Rightarrow> string list option) \<Rightarrow> string \<Rightarrow> (ssrf_error, string list) res" where
  "host_addresses lookup host =
     (if isIP host \<noteq> 0 then Ok [host]
      else case lookup host of None \<Rightarrow> Throw (LookupFailed host) | Some as \<Rightarrow> Ok as)"

definition assertPublicUrl ::
  "(string \<Rightarrow> parsed_url option) \<Rightarrow> (string \<Rightarrow> string list option) \<Rightarrow> string \<Rightarrow> ssrf_options \<Rightarrow> (ssrf_error, unit) res" where
  "assertPublicUrl parse lookup url opts =
     (case parse url of
        None \<Rightarrow> Throw (InvalidUrl url)
      | Some u \<Rightarrow>
          rbind (guard_throw (pu_protocol u \<notin> set (case ss_allowSchemes opts of Some s \<Rightarrow> s | None \<Rightarrow> [''http:'', ''https:'']))
                   (SchemeNotAllowed (pu_protocol u))) (\<lambda>_.
          let host = strip_brackets (pu_hostname u) in
          rbind (case ss_allowHosts opts of
                   None \<Rightarrow> Ok ()
                 | Some hs \<Rightarrow> guard_throw (\<not> list_ex (\<lambda>h. toLowerCase h = toLowerCase host) hs) (HostNotAllowed host)) (\<lambda>_.
          if ss_allowPrivate opts then Ok ()
          else rbind (host_addresses lookup host) (\<lambda>as.
            if as = [] then Throw (NotResolved host) else check_addresses host as))))"

section \<open>Lemmas\<close>

lemma check_addresses_Ok: "check_addresses host as = Ok u \<longleftrightarrow> list_all (\<lambda>a. \<not> isPrivateIp a) as"
  by (induction as) auto

lemma digits10_octet: "n < 256 \<Longrightarrow> octet (digits10 n)"
proof -
  assume n: "n < 256"
  have "length (digits10 n) \<le> 3"
    using n by (subst digits10.simps, subst digits10.simps, subst digits10.simps) auto
  moreover have "hd (digits10 n) \<noteq> CHR ''0'' \<or> length (digits10 n) = 1"
    using digits10_hd_zero [of n] by (cases "n = 0") (simp_all add: digits10.simps)
  ultimately show ?thesis using n digits10_digits by (auto simp: octet_def list_all_iff)
qed

definition dotted :: "nat \<Rightarrow> nat \<Rightarrow> nat \<Rightarrow> nat \<Rightarrow> string" where
  "dotted a b c d = join_with ''.'' [digits10 a, digits10 b, digits10 c, digits10 d]"

lemma split_dotted: "split_on (CHR ''.'') (dotted a b c d) = [digits10 a, digits10 b, digits10 c, digits10 d]"
  unfolding dotted_def
  by (rule split_join) (auto dest: digits10_digits simp: is_digit_def code_def)

lemma is_ip4_dotted: "a < 256 \<Longrightarrow> b < 256 \<Longrightarrow> c < 256 \<Longrightarrow> d < 256 \<Longrightarrow> is_ip4 (dotted a b c d)"
  by (simp add: is_ip4_def split_dotted digits10_octet)

text \<open>The blocked ranges as CIDR blocks of 32-bit addresses.\<close>

definition addr :: "nat \<Rightarrow> nat \<Rightarrow> nat \<Rightarrow> nat \<Rightarrow> nat" where
  "addr a b c d = a * 2 ^ 24 + b * 2 ^ 16 + c * 2 ^ 8 + d"

definition in_cidr :: "nat \<Rightarrow> nat \<times> nat \<Rightarrow> bool" where
  "in_cidr ip block = (ip div 2 ^ (32 - snd block) = fst block div 2 ^ (32 - snd block))"

definition blocked :: "(nat \<times> nat) list" where
  "blocked = [(addr 10 0 0 0, 8), (addr 127 0 0 0, 8), (addr 0 0 0 0, 8), (addr 169 254 0 0, 16), (addr 172 16 0 0, 12),
     (addr 192 168 0 0, 16), (addr 100 64 0 0, 10), (addr 224 0 0 0, 3)]"

lemma addr_div:
  assumes "b < 256" "c < 256" "d < 256"
  shows "addr a b c d div 2 ^ 24 = a" "addr a b c d div 2 ^ 16 = a * 256 + b"
    "addr a b c d div 2 ^ 20 = a * 16 + b div 16" "addr a b c d div 2 ^ 22 = a * 4 + b div 64"
    "addr a b c d div 2 ^ 29 = a div 32"
  using assms by (simp_all add: addr_def)

lemma div_one_iff: "0 < m \<Longrightarrow> b div m = 1 \<longleftrightarrow> m \<le> b \<and> b < 2 * (m :: nat)"
proof
  assume d: "b div m = 1" "0 < m"
  have "b mod m < m" by (rule mod_less_divisor [OF d(2)])
  moreover have "b = m + b mod m" using div_mult_mod_eq [of b m] d(1) by simp
  ultimately show "m \<le> b \<and> b < 2 * m" by linarith
next
  assume "m \<le> b \<and> b < 2 * m"
  then show "b div m = 1" by (intro div_nat_eqI) auto
qed

lemma cidr_blocks:
  assumes "a < 256" "b < 256" "c < 256" "d < 256"
  shows "in_cidr (addr a b c d) (addr 10 0 0 0, 8) \<longleftrightarrow> a = 10"
    "in_cidr (addr a b c d) (addr 127 0 0 0, 8) \<longleftrightarrow> a = 127"
    "in_cidr (addr a b c d) (addr 0 0 0 0, 8) \<longleftrightarrow> a = 0"
    "in_cidr (addr a b c d) (addr 169 254 0 0, 16) \<longleftrightarrow> a = 169 \<and> b = 254"
    "in_cidr (addr a b c d) (addr 172 16 0 0, 12) \<longleftrightarrow> a = 172 \<and> b \<ge> 16 \<and> b \<le> 31"
    "in_cidr (addr a b c d) (addr 192 168 0 0, 16) \<longleftrightarrow> a = 192 \<and> b = 168"
    "in_cidr (addr a b c d) (addr 100 64 0 0, 10) \<longleftrightarrow> a = 100 \<and> b \<ge> 64 \<and> b \<le> 127"
    "in_cidr (addr a b c d) (addr 224 0 0 0, 3) \<longleftrightarrow> a \<ge> 224"
proof -
  note div = addr_div [OF assms(2-4), of a]
  have e: "(32 - 8 :: nat) = 24" "(32 - 16 :: nat) = 16" "(32 - 12 :: nat) = 20" "(32 - 10 :: nat) = 22" "(32 - 3 :: nat) = 29"
    by simp_all
  have n: "addr 10 0 0 0 div 2 ^ 24 = 10" "addr 127 0 0 0 div 2 ^ 24 = 127" "addr 0 0 0 0 div 2 ^ 24 = 0"
    "addr 169 254 0 0 div 2 ^ 16 = 169 * 256 + 254" "addr 172 16 0 0 div 2 ^ 20 = 172 * 16 + 1"
    "addr 192 168 0 0 div 2 ^ 16 = 192 * 256 + 168" "addr 100 64 0 0 div 2 ^ 22 = 100 * 4 + 1" "addr 224 0 0 0 div 2 ^ 29 = 7"
    by (simp_all add: addr_def)
  note s = in_cidr_def fst_conv snd_conv e n div
  show "in_cidr (addr a b c d) (addr 10 0 0 0, 8) \<longleftrightarrow> a = 10" "in_cidr (addr a b c d) (addr 127 0 0 0, 8) \<longleftrightarrow> a = 127"
    "in_cidr (addr a b c d) (addr 0 0 0 0, 8) \<longleftrightarrow> a = 0"
    by (simp_all only: s)
  show "in_cidr (addr a b c d) (addr 169 254 0 0, 16) \<longleftrightarrow> a = 169 \<and> b = 254"
    using assms(2) unfolding s by presburger
  show "in_cidr (addr a b c d) (addr 192 168 0 0, 16) \<longleftrightarrow> a = 192 \<and> b = 168"
    using assms(2) unfolding s by presburger
  have q: "b div 16 < 16" "b div 64 < 4" using assms(2) by simp_all
  show "in_cidr (addr a b c d) (addr 172 16 0 0, 12) \<longleftrightarrow> a = 172 \<and> b \<ge> 16 \<and> b \<le> 31"
  proof -
    have "x < 16 \<Longrightarrow> a * 16 + x = 172 * 16 + 1 \<longleftrightarrow> a = 172 \<and> x = 1" for x by presburger
    from this [OF q(1)] have "a * 16 + b div 16 = 172 * 16 + 1 \<longleftrightarrow> a = 172 \<and> b div 16 = 1" .
    moreover have "b div 16 = 1 \<longleftrightarrow> b \<ge> 16 \<and> b \<le> 31" using div_one_iff [of 16 b] by auto
    ultimately show ?thesis unfolding s by blast
  qed
  show "in_cidr (addr a b c d) (addr 100 64 0 0, 10) \<longleftrightarrow> a = 100 \<and> b \<ge> 64 \<and> b \<le> 127"
  proof -
    have "x < 4 \<Longrightarrow> a * 4 + x = 100 * 4 + 1 \<longleftrightarrow> a = 100 \<and> x = 1" for x by presburger
    from this [OF q(2)] have "a * 4 + b div 64 = 100 * 4 + 1 \<longleftrightarrow> a = 100 \<and> b div 64 = 1" .
    moreover have "b div 64 = 1 \<longleftrightarrow> b \<ge> 64 \<and> b \<le> 127" using div_one_iff [of 64 b] by auto
    ultimately show ?thesis unfolding s by blast
  qed
  have "a div 32 = 7 \<longleftrightarrow> a \<ge> 224"
  proof
    assume "a \<ge> 224"
    then have "224 div 32 \<le> a div 32" by (rule div_le_mono)
    moreover have "a div 32 < 8" using assms(1) by simp
    ultimately show "a div 32 = 7" by simp
  next
    assume "a div 32 = 7"
    then show "a \<ge> 224" using div_mult_mod_eq [of a 32] by linarith
  qed
  then show "in_cidr (addr a b c d) (addr 224 0 0 0, 3) \<longleftrightarrow> a \<ge> 224" unfolding s .
qed

section \<open>Properties\<close>

text \<open>
  the IPv4 classifier is exact. A dotted address is refused exactly when the 32-bit address lies in
  one of the blocked CIDR blocks: 10/8, 127/8, 0/8, 169.254/16, 172.16/12, 192.168/16, 100.64/10 and
  224/3.
\<close>

theorem private4_exact:
  assumes "a < 256" "b < 256" "c < 256" "d < 256"
  shows "isPrivateIp (dotted a b c d) \<longleftrightarrow> list_ex (in_cidr (addr a b c d)) blocked"
proof -
  have "isPrivateIp (dotted a b c d) = private4 (dotted a b c d)"
    using is_ip4_dotted [OF assms] by (simp add: isPrivateIp_def isIP_def)
  also have "\<dots> = (a = 10 \<or> a = 127 \<or> a = 0 \<or> (a = 169 \<and> b = 254) \<or> (a = 172 \<and> b \<ge> 16 \<and> b \<le> 31) \<or>
      (a = 192 \<and> b = 168) \<or> (a = 100 \<and> b \<ge> 64 \<and> b \<le> 127) \<or> a \<ge> 224)"
    by (simp add: private4_def split_dotted)
  also have "\<dots> = list_ex (in_cidr (addr a b c d)) blocked"
    unfolding blocked_def by (simp only: list_ex_Cons_iff list_ex_Nil_iff cidr_blocks [OF assms] simp_thms)
  finally show ?thesis .
qed

theorem private4_exact_witness: "isPrivateIp (dotted 169 254 169 254) \<and> \<not> isPrivateIp (dotted 8 8 8 8)"
  using private4_exact [of 169 254 169 254] private4_exact [of 8 8 8 8]
  by (simp add: blocked_def in_cidr_def addr_def)

text \<open>
  What the guard guarantees. When \<open>assertPublicUrl\<close> returns, the scheme and the host are allowed,
  and, unless private targets are permitted, the host resolved to at least one address and none of the
  addresses it resolved to is private by the classifier.
\<close>

theorem guard_guarantees:
  assumes "assertPublicUrl parse lookup url opts = Ok ()" and "ss_allowPrivate opts = False"
  shows "\<exists>u as. parse url = Some u \<and>
    pu_protocol u \<in> set (case ss_allowSchemes opts of Some s \<Rightarrow> s | None \<Rightarrow> [''http:'', ''https:'']) \<and>
    (\<forall>hs. ss_allowHosts opts = Some hs \<longrightarrow> list_ex (\<lambda>h. toLowerCase h = toLowerCase (strip_brackets (pu_hostname u))) hs) \<and>
    host_addresses lookup (strip_brackets (pu_hostname u)) = Ok as \<and> as \<noteq> [] \<and> list_all (\<lambda>a. \<not> isPrivateIp a) as"
  using assms
  by (auto simp: assertPublicUrl_def Let_def res_simps check_addresses_Ok split: option.splits if_splits)

definition demo_parse :: "string \<Rightarrow> parsed_url option" where
  "demo_parse url = Some \<lparr>pu_protocol = ''https:'', pu_hostname = url\<rparr>"

theorem guard_guarantees_witness:
  "\<exists>as. host_addresses (\<lambda>h. Some [''93.184.216.34'']) ''example.com'' = Ok as \<and> list_all (\<lambda>a. \<not> isPrivateIp a) as"
proof -
  let ?opts = "\<lparr>ss_allowHosts = None, ss_allowPrivate = False, ss_allowSchemes = None\<rparr>"
  have "assertPublicUrl demo_parse (\<lambda>h. Some [''93.184.216.34'']) ''example.com'' ?opts = Ok ()" by code_simp
  moreover have "strip_brackets ''example.com'' = ''example.com''" by code_simp
  ultimately show ?thesis
    using guard_guarantees [of demo_parse "\<lambda>h. Some [''93.184.216.34'']" "''example.com''" ?opts]
    by (auto simp: demo_parse_def)
qed

text \<open>
  The URL parser writes an IPv4-mapped address in hexadecimal (\<open>::ffff:7f00:1\<close> for \<open>127.0.0.1\<close>), which
  the dotted test does not see; and \<open>fe90::1\<close> is link-local (fe80::/10) but not blocked.
\<close>

lemma mapped_loopback_passes:
  "isIP ''::ffff:7f00:1'' = 6 \<and> \<not> isPrivateIp ''::ffff:7f00:1'' \<and> isPrivateIp ''::ffff:127.0.0.1''"
  by code_simp

lemma link_local_passes: "isIP ''fe90::1'' = 6 \<and> \<not> isPrivateIp ''fe90::1''"
  by code_simp

end
