(* ===== verification/Mcp.thy ===== *)
theory Mcp
  imports Lifecycle Ssrf
begin

text \<open>
  The Model Context Protocol, both sides: the server that exposes workflows and agents as tools
  (\<open>packages/zenzip/src/mcp-server.ts\<close>) and the client that turns a server's tools into agent tools
  (\<open>mcp.ts\<close>). The native engine is the one of the workflow handle; the network is an argument of the
  client. Shown: a request changes nothing unless it is authorised and names an exposed tool, and a client
  connected to a server gets back what the tool answered.
\<close>

section \<open>Server: options and tools\<close>

datatype expose = ExposeAll bool | ExposeOnly "string list"

datatype mcp_wait = WaitDefault | WaitNot | WaitFor duration

record mcp_server_options =
  mo_workflows :: "expose option"
  mo_agents :: "expose option"
  mo_wait :: mcp_wait
  mo_token :: "string option"
  mo_name :: "string option"

definition selected :: "expose option \<Rightarrow> string \<Rightarrow> bool" where
  "selected mode name = (case mode of None \<Rightarrow> True | Some (ExposeAll b) \<Rightarrow> b | Some (ExposeOnly names) \<Rightarrow> name \<in> set names)"

definition listWorkflows :: "('w, 'n, 'h, 'm) app \<Rightarrow> 'w app_workflow list" where
  "listWorkflows a = filter (\<lambda>aw. \<not> startsWith (wf_name (aw_flow aw)) ''agent:'') (map snd (a_workflows a))"

definition listAgents :: "('w, 'n, 'h, 'm) app \<Rightarrow> (string \<times> 'w agent_options) list" where
  "listAgents a = a_agents a"

datatype mcp_target = RunWorkflow string | RunAgent string

record mcp_tool =
  mt_name :: string
  mt_description :: string
  mt_inputSchema :: jsval
  mt_target :: mcp_target

definition workflow_tool :: "string \<Rightarrow> mcp_tool" where
  "workflow_tool name =
     \<lparr>mt_name = name, mt_description = ''Run the '' @ quoted name @ '' workflow durably. Arguments are the workflow input.'',
      mt_inputSchema = JObj [(''type'', JStr ''object'')], mt_target = RunWorkflow name\<rparr>"

definition agent_mcp_tool :: "string \<Rightarrow> string option \<Rightarrow> mcp_tool" where
  "agent_mcp_tool name instructions =
     \<lparr>mt_name = name,
      mt_description = (case instructions of Some i \<Rightarrow> take 200 i | None \<Rightarrow> ''Run the '' @ quoted name @ '' agent.''),
      mt_inputSchema = JObj [(''type'', JStr ''object''),
        (''properties'', JObj [(''message'', JObj [(''type'', JStr ''string''), (''description'', JStr ''The task or question.'')])]),
        (''required'', JArr [JStr ''message''])],
      mt_target = RunAgent name\<rparr>"

fun add_workflow_tools :: "expose option \<Rightarrow> 'w app_workflow list \<Rightarrow> (string, mcp_tool) jsmap \<Rightarrow> (string, mcp_tool) jsmap" where
  "add_workflow_tools mode [] tools = tools"
| "add_workflow_tools mode (aw # aws) tools =
     (let name = wf_name (aw_flow aw) in
      add_workflow_tools mode aws (if selected mode name then map_set name (workflow_tool name) tools else tools))"

fun add_agent_tools :: "expose option \<Rightarrow> (string \<times> 'w agent_options) list \<Rightarrow> (string, mcp_tool) jsmap \<Rightarrow> (string, mcp_tool) jsmap" where
  "add_agent_tools mode [] tools = tools"
| "add_agent_tools mode ((name, o') # as) tools =
     add_agent_tools mode as
       (if \<not> selected mode name then tools
        else if map_has tools name then tools
        else map_set name (agent_mcp_tool name (ao_instructions o')) tools)"

definition buildTools :: "('w, 'n, 'h, 'm) app \<Rightarrow> mcp_server_options \<Rightarrow> (string, mcp_tool) jsmap" where
  "buildTools a o' = add_agent_tools (mo_agents o') (listAgents a) (add_workflow_tools (mo_workflows o') (listWorkflows a) [])"

definition wf_trigger_none :: trigger_options where
  "wf_trigger_none = \<lparr>to_idempotencyKey = None, to_delay = None, to_subject = None\<rparr>"

text \<open>\<open>result.output ?? result.text\<close> of an agent's answer.\<close>

definition agent_answer :: "jsval \<Rightarrow> jsval" where
  "agent_answer v = (if nullish (read_prop v ''output'') then read_prop v ''text'' else read_prop v ''output'')"

definition mcp_invoke :: "'n engine \<Rightarrow> mcp_wait \<Rightarrow> mcp_tool \<Rightarrow> jsval \<Rightarrow> 'n handle_state \<Rightarrow> (exn, jsval) res \<times> 'n handle_state" where
  "mcp_invoke eng wait t args s =
     (case mt_target t of
        RunWorkflow name \<Rightarrow>
          (case wait of
             WaitNot \<Rightarrow> (case trigger eng name args wf_trigger_none s of
                 (r, s') \<Rightarrow> (rbind r (\<lambda>runId. Ok (JObj [(''runId'', JStr runId)])), s'))
           | WaitDefault \<Rightarrow> triggerAndWait eng name args wf_trigger_none (Some (DStr ''60s'')) s
           | WaitFor d \<Rightarrow> triggerAndWait eng name args wf_trigger_none (Some d) s)
      | RunAgent name \<Rightarrow>
          (case agent_run eng name (let m = read_prop args ''message'' in if nullish m then [] else js_String m) None None None s of
             (r, s') \<Rightarrow> (rbind r (\<lambda>v. Ok (agent_answer v)), s')))"

section \<open>Server: the handler\<close>

definition authorized :: "string option \<Rightarrow> string option \<Rightarrow> bool" where
  "authorized token header =
     (case token of
        None \<Rightarrow> True
      | Some t \<Rightarrow>
          t = [] \<or>
          (case header of
             None \<Rightarrow> False
           | Some h \<Rightarrow> startsWith h ''Bearer '' \<and> drop 7 h \<noteq> [] \<and> drop 7 h = t))"

record mcp_reply =
  mr_status :: int
  mr_body :: "jsval option"

definition rpc :: "jsval \<Rightarrow> jsval \<Rightarrow> mcp_reply" where
  "rpc i result = \<lparr>mr_status = 200, mr_body = Some (JObj [(''jsonrpc'', JStr ''2.0''), (''id'', i), (''result'', result)])\<rparr>"

definition rpcError :: "jsval \<Rightarrow> int \<Rightarrow> string \<Rightarrow> mcp_reply" where
  "rpcError i ec message =
     \<lparr>mr_status = 200, mr_body = Some (JObj [(''jsonrpc'', JStr ''2.0''), (''id'', i),
        (''error'', JObj [(''code'', JNum ec), (''message'', JStr message)])])\<rparr>"

definition plain_reply :: "int \<Rightarrow> string \<Rightarrow> mcp_reply" where
  "plain_reply st msg = \<lparr>mr_status = st, mr_body = Some (JObj [(''error'', JStr msg)])\<rparr>"

definition tool_listing :: "mcp_tool \<Rightarrow> jsval" where
  "tool_listing t = JObj [(''name'', JStr (mt_name t)), (''description'', JStr (mt_description t)), (''inputSchema'', mt_inputSchema t)]"

definition text_content :: "string \<Rightarrow> jsval" where
  "text_content t = JArr [JObj [(''type'', JStr ''text''), (''text'', JStr t)]]"

text \<open>\<open>typeof out === "string" ? out : JSON.stringify(out ?? null)\<close>.\<close>

definition answer_text :: "jsval \<Rightarrow> string" where
  "answer_text v = (case v of JStr t \<Rightarrow> t | _ \<Rightarrow> stringify_or_null v)"

fun exn_message :: "exn \<Rightarrow> string" where
  "exn_message (Error m) = m"
| "exn_message (OtherThrow v) = js_String v"
| "exn_message (StepFailure sid e) = exn_message e"
| "exn_message (SuspendSignal _) = ''[object Object]''"

text \<open>\<open>msg.params?.name\<close> and \<open>msg.params?.arguments ?? {}\<close>.\<close>

definition call_name :: "jsval \<Rightarrow> jsval" where
  "call_name msg = read_prop (read_prop msg ''params'') ''name''"

definition call_args :: "jsval \<Rightarrow> jsval" where
  "call_args msg = (let v = read_prop (read_prop msg ''params'') ''arguments'' in if nullish v then JObj [] else v)"

definition call_tool_of :: "(string, mcp_tool) jsmap \<Rightarrow> jsval \<Rightarrow> mcp_tool option" where
  "call_tool_of tools msg = (case call_name msg of JStr n \<Rightarrow> if n = [] then None else map_get tools n | _ \<Rightarrow> None)"

definition tools_call ::
  "'n engine \<Rightarrow> mcp_wait \<Rightarrow> (string, mcp_tool) jsmap \<Rightarrow> jsval \<Rightarrow> 'n handle_state \<Rightarrow> mcp_reply \<times> 'n handle_state" where
  "tools_call eng wait tools msg s =
     (let i = read_prop msg ''id'' in
      case call_tool_of tools msg of
        None \<Rightarrow> (rpcError i (- 32602) (''unknown tool: '' @ js_String (call_name msg)), s)
      | Some t \<Rightarrow>
          (case mcp_invoke eng wait t (call_args msg) s of
             (Inr out, s') \<Rightarrow> (rpc i (JObj [(''content'', text_content (answer_text out))]), s')
           | (Inl e, s') \<Rightarrow> (rpc i (JObj [(''content'', text_content (exn_message e)), (''isError'', JBool True)]), s')))"

definition mcp_handler ::
  "'n engine \<Rightarrow> ('w, 'n, 'h, 'm) app \<Rightarrow> mcp_server_options \<Rightarrow> string \<Rightarrow> string option \<Rightarrow> string \<Rightarrow> 'n handle_state
     \<Rightarrow> mcp_reply \<times> 'n handle_state" where
  "mcp_handler eng a o' meth header raw s =
     (let tools = buildTools a o' in
      if meth \<noteq> ''POST'' then (plain_reply 405 ''method not allowed'', s)
      else if \<not> authorized (mo_token o') header then (plain_reply 401 ''unauthorized'', s)
      else
        (let msg = readJsonBody raw; i = read_prop msg ''id'' in
         case (if truthy msg then read_prop msg ''method'' else JUndef) of
           JStr m \<Rightarrow>
             if m = ''initialize'' then
               (rpc i (JObj [(''protocolVersion'', JStr ''2025-06-18''), (''capabilities'', JObj [(''tools'', JObj [])]),
                  (''serverInfo'', JObj [(''name'', JStr (case mo_name o' of Some n \<Rightarrow> n | None \<Rightarrow> ''zenzip'')), (''version'', JStr ''1'')])]), s)
             else if m = ''notifications/initialized'' then (\<lparr>mr_status = 202, mr_body = None\<rparr>, s)
             else if m = ''tools/list'' then (rpc i (JObj [(''tools'', JArr (map (tool_listing \<circ> snd) tools))]), s)
             else if m = ''tools/call'' then tools_call eng (mo_wait o') tools msg s
             else (rpcError i (- 32601) (''method not found: '' @ m), s)
         | _ \<Rightarrow> (plain_reply 400 ''invalid JSON-RPC request'', s)))"

section \<open>Client\<close>

record mcp_request =
  mq_headers :: "(string, string) jsmap"
  mq_body :: string

record mcp_response =
  mp_ok :: bool
  mp_status :: int
  mp_session :: "string option"
  mp_ctype :: "string option"
  mp_text :: string

text \<open>The client's own state and the network it talks over.\<close>

record 's mcp_client =
  mc_headers :: "(string \<times> string) list"
  mc_id :: int
  mc_session :: "string option"
  mc_net :: 's

type_synonym 's fetch_fn = "mcp_request \<Rightarrow> 's \<Rightarrow> (exn, mcp_response) res \<times> 's"

text \<open>\<open>body.split(/\r?\n/)\<close>.\<close>

definition strip_cr :: "string \<Rightarrow> string" where
  "strip_cr l = (if l \<noteq> [] \<and> last l = CHR 0x0D then butlast l else l)"

definition split_lines :: "string \<Rightarrow> string list" where
  "split_lines s = (let ls = split_on (CHR 0x0A) s in map strip_cr (butlast ls) @ [last ls])"

definition firstSseMessage :: "string \<Rightarrow> (exn, jsval) res" where
  "firstSseMessage body =
     parse_exn (concat (map (\<lambda>l. trim (drop 5 l)) (filter (\<lambda>l. startsWith l ''data:'') (split_lines body))))"

definition content_item :: "jsval \<Rightarrow> string" where
  "content_item c =
     (case c of JObj kvs \<Rightarrow> if map_has kvs ''text'' then js_String (read_prop c ''text'') else (case stringify c of Some t \<Rightarrow> t | None \<Rightarrow> [])
      | _ \<Rightarrow> (case stringify c of Some t \<Rightarrow> t | None \<Rightarrow> []))"

definition contentToString :: "jsval \<Rightarrow> string" where
  "contentToString c =
     (case c of
        JArr cs \<Rightarrow> join_with NL (map content_item cs)
      | JStr t \<Rightarrow> t
      | _ \<Rightarrow> stringify_or_null c)"

definition request_headers :: "bool \<Rightarrow> 's mcp_client \<Rightarrow> (string, string) jsmap" where
  "request_headers accepts c =
     fold (\<lambda>(k, v). map_set k v) (mc_headers c)
       ([(''content-type'', ''application/json'')] @
        (if accepts then [(''accept'', ''application/json, text/event-stream'')] else []) @
        (case mc_session c of Some sid \<Rightarrow> if sid = [] then [] else [(''mcp-session-id'', sid)] | None \<Rightarrow> []))"

definition client_send ::
  "'s fetch_fn \<Rightarrow> string \<Rightarrow> jsval \<Rightarrow> bool \<Rightarrow> 's mcp_client \<Rightarrow> (exn, jsval) res \<times> 's mcp_client" where
  "client_send fetch meth params expectReply c =
     (let i = mc_id c + 1;
          req = \<lparr>mq_headers = request_headers True c,
                 mq_body = the (stringify (JObj [(''jsonrpc'', JStr ''2.0''), (''id'', JNum i), (''method'', JStr meth), (''params'', params)]))\<rparr>
      in case fetch req (mc_net c) of
           (Inl e, net) \<Rightarrow> (Throw e, c\<lparr>mc_id := i, mc_net := net\<rparr>)
         | (Inr res, net) \<Rightarrow>
             (let c' = c\<lparr>mc_id := i, mc_net := net,
                          mc_session := (case mp_session res of Some sid \<Rightarrow> if sid = [] then mc_session c else Some sid | None \<Rightarrow> mc_session c)\<rparr>
              in if \<not> mp_ok res then (Throw (Error (''MCP '' @ meth @ '': HTTP '' @ int_str (mp_status res))), c')
                 else if \<not> expectReply then (Ok JNull, c')
                 else (rbind (if str_includes (case mp_ctype res of Some t \<Rightarrow> t | None \<Rightarrow> []) ''text/event-stream''
                              then firstSseMessage (mp_text res) else parse_exn (mp_text res)) (\<lambda>msg.
                       rbind (prop_exn msg ''error'') (\<lambda>e.
                         if truthy e then Throw (Error (''MCP '' @ meth @ '': '' @ js_String (read_prop e ''message''))) else Ok msg)), c')))"

definition client_initialize :: "'s fetch_fn \<Rightarrow> 's mcp_client \<Rightarrow> (exn, unit) res \<times> 's mcp_client" where
  "client_initialize fetch c =
     (case client_send fetch ''initialize'' (JObj [(''protocolVersion'', JStr ''2025-06-18''), (''capabilities'', JObj []),
             (''clientInfo'', JObj [(''name'', JStr ''zenzip''), (''version'', JStr ''0'')])]) True c of
        (Inl e, c1) \<Rightarrow> (Throw e, c1)
      | (Inr _, c1) \<Rightarrow>
          (case fetch \<lparr>mq_headers = request_headers False c1,
                       mq_body = the (stringify (JObj [(''jsonrpc'', JStr ''2.0''), (''method'', JStr ''notifications/initialized'')]))\<rparr> (mc_net c1) of
             (_, net) \<Rightarrow> (Ok (), c1\<lparr>mc_net := net\<rparr>)))"

definition listTools :: "'s fetch_fn \<Rightarrow> 's mcp_client \<Rightarrow> (exn, jsval) res \<times> 's mcp_client" where
  "listTools fetch c =
     (case client_send fetch ''tools/list'' (JObj []) True c of
        (Inl e, c1) \<Rightarrow> (Throw e, c1)
      | (Inr msg, c1) \<Rightarrow> (let v = read_prop (read_prop msg ''result'') ''tools'' in (Ok (if nullish v then JArr [] else v), c1)))"

definition callTool :: "'s fetch_fn \<Rightarrow> string \<Rightarrow> jsval \<Rightarrow> 's mcp_client \<Rightarrow> (exn, string) res \<times> 's mcp_client" where
  "callTool fetch name args c =
     (case client_send fetch ''tools/call'' (JObj [(''name'', JStr name), (''arguments'', args)]) True c of
        (Inl e, c1) \<Rightarrow> (Throw e, c1)
      | (Inr msg, c1) \<Rightarrow> (Ok (contentToString (read_prop (read_prop msg ''result'') ''content'')), c1))"

record mcp_options =
  mx_url :: string
  mx_headers :: "(string \<times> string) list"
  mx_prefix :: "string option"
  mx_ssrf :: "ssrf_options option"

text \<open>A tool definition of the server as an agent tool; its call takes no time of the model's clock.\<close>

definition remote_tool :: "'s fetch_fn \<Rightarrow> string option \<Rightarrow> jsval \<Rightarrow> 's mcp_client agent_tool" where
  "remote_tool fetch pre d =
     (let name = js_String (read_prop d ''name'') in
      \<lparr>t_name = (case pre of Some p \<Rightarrow> p @ name | None \<Rightarrow> name),
       t_description = (let v = read_prop d ''description'' in if nullish v then ''MCP tool '' @ name else js_String v),
       t_parameters = (let v = read_prop d ''inputSchema'' in if nullish v then JObj [(''type'', JStr ''object'')] else v),
       t_schema = None, t_requiresApproval = False,
       t_execute = (\<lambda>input _ _ c. case callTool fetch name input c of (r, c') \<Rightarrow> (rbind r (\<lambda>t. Ok (JStr t)), 0, c')),
       t_handoff = None\<rparr>)"

text \<open>The guard's messages; a failed lookup throws the platform's error.\<close>

definition ssrf_exn :: "ssrf_error \<Rightarrow> exn" where
  "ssrf_exn e =
     (case e of
        InvalidUrl u \<Rightarrow> Error (''SSRF guard: invalid URL '' @ quoted u)
      | SchemeNotAllowed sch \<Rightarrow> Error (''SSRF guard: scheme '' @ quoted sch @ '' not allowed'')
      | HostNotAllowed h \<Rightarrow> Error (''SSRF guard: host '' @ quoted h @ '' not in allowHosts'')
      | LookupFailed h \<Rightarrow> Error (''getaddrinfo ENOTFOUND '' @ h)
      | NotResolved h \<Rightarrow> Error (''SSRF guard: '' @ quoted h @ '' did not resolve'')
      | PrivateAddress h ad \<Rightarrow> Error (''SSRF guard: '' @ quoted h @ '' resolves to a private/blocked address ('' @ ad @ '')''))"

definition mcp_connect ::
  "(string \<Rightarrow> parsed_url option) \<Rightarrow> (string \<Rightarrow> string list option) \<Rightarrow> 's fetch_fn \<Rightarrow> mcp_options \<Rightarrow> 's
     \<Rightarrow> (exn, 's mcp_client agent_tool list) res \<times> 's mcp_client" where
  "mcp_connect parse lookup fetch o' net =
     (let c = \<lparr>mc_headers = mx_headers o', mc_id = 0, mc_session = None, mc_net = net\<rparr> in
      case (case mx_ssrf o' of None \<Rightarrow> Ok () | Some g \<Rightarrow> assertPublicUrl parse lookup (mx_url o') g) of
        Inl e \<Rightarrow> (Throw (ssrf_exn e), c)
      | Inr _ \<Rightarrow>
          (case client_initialize fetch c of
             (Inl e, c1) \<Rightarrow> (Throw e, c1)
           | (Inr _, c1) \<Rightarrow>
               (case listTools fetch c1 of
                  (Inl e, c2) \<Rightarrow> (Throw e, c2)
                | (Inr defs, c2) \<Rightarrow>
                    (case defs of
                       JArr ds \<Rightarrow> (Ok (map (remote_tool fetch (mx_prefix o')) ds), c2)
                     | _ \<Rightarrow> (Throw (Error ''TypeError''), c2)))))"

section \<open>Only what is exposed\<close>

definition exposed :: "('w, 'n, 'h, 'm) app \<Rightarrow> mcp_server_options \<Rightarrow> mcp_tool \<Rightarrow> bool" where
  "exposed a o' t =
     (case mt_target t of
        RunWorkflow n \<Rightarrow> n \<in> wf_name ` aw_flow ` snd ` set (a_workflows a) \<and> \<not> startsWith n ''agent:'' \<and> selected (mo_workflows o') n
      | RunAgent n \<Rightarrow> n \<in> fst ` set (a_agents a) \<and> selected (mo_agents o') n)"

lemma add_workflow_tools_set:
  "t \<in> snd ` set (add_workflow_tools mode aws tools) \<Longrightarrow>
     t \<in> snd ` set tools \<or> (\<exists>aw \<in> set aws. t = workflow_tool (wf_name (aw_flow aw)) \<and> selected mode (wf_name (aw_flow aw)))"
proof (induction aws arbitrary: tools)
  case (Cons aw aws)
  let ?n = "wf_name (aw_flow aw)"
  from Cons.IH Cons.prems show ?case
    using set_map_set [of ?n "workflow_tool ?n" tools] by (fastforce simp: Let_def split: if_splits)
qed simp

lemma add_agent_tools_set:
  "t \<in> snd ` set (add_agent_tools mode as tools) \<Longrightarrow>
     t \<in> snd ` set tools \<or> (\<exists>n o'. (n, o') \<in> set as \<and> t = agent_mcp_tool n (ao_instructions o') \<and> selected mode n)"
proof (induction mode as tools rule: add_agent_tools.induct)
  case (2 mode name o' as tools)
  let ?m = "if \<not> selected mode name then tools else if map_has tools name then tools
            else map_set name (agent_mcp_tool name (ao_instructions o')) tools"
  have "t \<in> snd ` set ?m \<Longrightarrow> t \<in> snd ` set tools \<or> (t = agent_mcp_tool name (ao_instructions o') \<and> selected mode name)"
    using set_map_set [of name "agent_mcp_tool name (ao_instructions o')" tools] by (auto split: if_splits)
  with 2 show ?case by (auto simp del: if_split)
qed simp

lemma buildTools_exposed:
  assumes "map_get (buildTools a o') k = Some t"
  shows "exposed a o' t"
proof -
  have "t \<in> snd ` set (buildTools a o')" using map_of_SomeD [OF assms] by force
  then consider "t \<in> snd ` set (add_workflow_tools (mo_workflows o') (listWorkflows a) [])"
    | n ao where "(n, ao) \<in> set (listAgents a)" "t = agent_mcp_tool n (ao_instructions ao)" "selected (mo_agents o') n"
    unfolding buildTools_def using add_agent_tools_set by blast
  then show ?thesis
  proof cases
    case 1
    then obtain aw where "aw \<in> set (listWorkflows a)" "t = workflow_tool (wf_name (aw_flow aw))" "selected (mo_workflows o') (wf_name (aw_flow aw))"
      using add_workflow_tools_set by fastforce
    then show ?thesis by (auto simp: exposed_def workflow_tool_def listWorkflows_def)
  next
    case 2
    then show ?thesis by (force simp: exposed_def agent_mcp_tool_def listAgents_def)
  qed
qed

lemma call_tool_of_get: "call_tool_of tools msg = Some t \<Longrightarrow> \<exists>n. map_get tools n = Some t"
  by (auto simp: call_tool_of_def split: jsval.splits if_splits)

lemma authorized_token: "authorized (Some t) header \<Longrightarrow> t \<noteq> [] \<Longrightarrow> header = Some (''Bearer '' @ t)"
  by (auto simp: authorized_def startsWith_iff split: option.splits)

text \<open>
  C31: nothing runs unasked. When a request to the MCP endpoint changed anything (triggered a run, asked the
  engine, wrote an audit entry), it was a POST, it carried the configured bearer token, and it named a tool
  that stands for a registered workflow which is not an agent's own, or for a registered agent, that the
  server's options select.
\<close>

theorem mcp_guarded:
  assumes "mcp_handler eng a o' meth header raw s = (reply, s')" and "s' \<noteq> s"
  shows "meth = ''POST'' \<and> (\<forall>t. mo_token o' = Some t \<and> t \<noteq> [] \<longrightarrow> header = Some (''Bearer '' @ t)) \<and>
    (\<exists>t. call_tool_of (buildTools a o') (readJsonBody raw) = Some t \<and> exposed a o' t)"
proof -
  have post: "meth = ''POST''" and auth: "authorized (mo_token o') header"
    using assms by (auto simp: mcp_handler_def Let_def split: if_splits)
  have "\<exists>t. call_tool_of (buildTools a o') (readJsonBody raw) = Some t"
  proof (rule ccontr)
    assume "\<not> ?thesis"
    then have "call_tool_of (buildTools a o') (readJsonBody raw) = None" by (cases "call_tool_of (buildTools a o') (readJsonBody raw)") auto
    then have "snd (mcp_handler eng a o' meth header raw s) = s"
      by (auto simp: mcp_handler_def tools_call_def Let_def split: jsval.split)
    with assms show False by simp
  qed
  with post auth show ?thesis
    using authorized_token call_tool_of_get buildTools_exposed by (metis (no_types, lifting))
qed

text \<open>An application with one agent, exposed behind a token.\<close>

definition bot_app :: "(int, int, nat, nat) app" where
  "bot_app = (new_app bare_options)\<lparr>a_agents := [(''bot'', demo_options False)]\<rparr>"

definition bot_engine :: "int engine" where
  "bot_engine =
     done_engine\<lparr>waitForRun := (\<lambda>rid t n. (Some (json_text (JObj [(''id'', JStr rid), (''workflow'', JStr ''agent:bot''), (''status'', JNum 4),
         (''output'', JStr (json_text (JObj [(''text'', JStr ''hello'')]))), (''error'', JNull)])), n))\<rparr>"

definition bot_server :: mcp_server_options where
  "bot_server = \<lparr>mo_workflows = None, mo_agents = None, mo_wait = WaitDefault, mo_token = Some ''s3cret'', mo_name = None\<rparr>"

definition bot_call :: jsval where
  "bot_call = JObj [(''jsonrpc'', JStr ''2.0''), (''id'', JNum 1), (''method'', JStr ''tools/call''),
     (''params'', JObj [(''name'', JStr ''bot''), (''arguments'', JObj [(''message'', JStr ''hi'')])])]"

lemma bot_tools: "buildTools bot_app bot_server = [(''bot'', agent_mcp_tool ''bot'' None)]"
  by (simp add: buildTools_def listWorkflows_def listAgents_def bot_app_def new_app_def bot_server_def demo_options_def
      selected_def map_has_def)

lemma bot_body: "readJsonBody (json_text bot_call) = bot_call"
proof -
  have "json_text bot_call \<noteq> []" by (simp add: bot_call_def)
  moreover have "JSON_parse (json_text bot_call) = Some bot_call" by (rule JSON_parse_text) (simp add: bot_call_def)
  ultimately show ?thesis by (simp add: readJsonBody_def)
qed

lemma bot_answers:
  "mcp_handler bot_engine bot_app bot_server ''POST'' (Some ''Bearer s3cret'') (json_text bot_call) \<lparr>hs_native = 0, hs_audit = []\<rparr> =
     tools_call bot_engine WaitDefault (buildTools bot_app bot_server) bot_call \<lparr>hs_native = 0, hs_audit = []\<rparr>"
  unfolding mcp_handler_def bot_body by (simp add: bot_server_def authorized_def bot_call_def read_prop_def get_prop_def truthy_def startsWith_iff)

lemma bot_runs: "hs_native (snd (tools_call bot_engine WaitDefault (buildTools bot_app bot_server) bot_call \<lparr>hs_native = 0, hs_audit = []\<rparr>)) = 1"
  unfolding bot_tools by code_simp

theorem mcp_guarded_witness:
  "\<exists>t. call_tool_of (buildTools bot_app bot_server) bot_call = Some t \<and> exposed bot_app bot_server t"
proof -
  let ?s = "\<lparr>hs_native = 0, hs_audit = []\<rparr> :: int handle_state"
  let ?r = "mcp_handler bot_engine bot_app bot_server ''POST'' (Some ''Bearer s3cret'') (json_text bot_call) ?s"
  have "snd ?r \<noteq> ?s" using bot_runs unfolding bot_answers by auto
  from mcp_guarded [of bot_engine bot_app bot_server "''POST''" "Some ''Bearer s3cret''" "json_text bot_call" ?s "fst ?r" "snd ?r", OF _ this] show ?thesis
    unfolding bot_body by simp
qed

section \<open>A client connected to a server\<close>

text \<open>The network between them: the request's headers under lower-case names, the reply's body as text.\<close>

definition header_get :: "(string, string) jsmap \<Rightarrow> string \<Rightarrow> string option" where
  "header_get hs name = map_get (map (\<lambda>(k, v). (toLowerCase k, v)) hs) name"

definition server_fetch :: "'n engine \<Rightarrow> ('w, 'n, 'h, 'm) app \<Rightarrow> mcp_server_options \<Rightarrow> 'n handle_state fetch_fn" where
  "server_fetch eng a o' req s =
     (case mcp_handler eng a o' ''POST'' (header_get (mq_headers req) ''authorization'') (mq_body req) s of
        (reply, s') \<Rightarrow>
          (Ok (case mr_body reply of
             None \<Rightarrow> \<lparr>mp_ok = True, mp_status = mr_status reply, mp_session = None, mp_ctype = None, mp_text = []\<rparr>
           | Some v \<Rightarrow> \<lparr>mp_ok = mr_status reply = 200, mp_status = mr_status reply, mp_session = Some ''zenzip'',
                       mp_ctype = Some ''application/json'', mp_text = the (stringify v)\<rparr>), s'))"

lemma readJsonBody_text: "json_ok v \<Longrightarrow> json_text v \<noteq> [] \<Longrightarrow> readJsonBody (json_text v) = v"
  by (simp add: readJsonBody_def JSON_parse_text)

definition call_message :: "int \<Rightarrow> string \<Rightarrow> jsval \<Rightarrow> jsval" where
  "call_message i name args = JObj [(''jsonrpc'', JStr ''2.0''), (''id'', JNum i), (''method'', JStr ''tools/call''),
     (''params'', JObj [(''name'', JStr name), (''arguments'', args)])]"

lemma handled_call:
  assumes "authorized (mo_token o') header" and "json_ok args" and "\<not> nullish args" and "name \<noteq> []"
    and "map_get (buildTools a o') name = Some t" and "mcp_invoke eng (mo_wait o') t args s = (r, s')"
  shows "mcp_handler eng a o' ''POST'' header (json_text (call_message i name args)) s =
    (rpc (JNum i) (JObj (case r of Inr out \<Rightarrow> [(''content'', text_content (answer_text out))]
        | Inl e \<Rightarrow> [(''content'', text_content (exn_message e)), (''isError'', JBool True)])), s')"
proof -
  have "readJsonBody (json_text (call_message i name args)) = call_message i name args"
    by (rule readJsonBody_text) (use assms(2) in \<open>simp_all add: call_message_def\<close>)
  then show ?thesis
    unfolding mcp_handler_def using assms
    by (simp add: call_message_def read_prop_def get_prop_def truthy_def tools_call_def call_tool_of_def call_name_def call_args_def
        split: sum.split)
qed

text \<open>What the client makes of a reply: the text of its one content item.\<close>

lemma reply_text:
  assumes "reply = JObj [(''jsonrpc'', JStr ''2.0''), (''id'', JNum i), (''result'', JObj ((''content'', text_content t) # rest))]"
    and "rest = [] \<or> rest = [(''isError'', JBool True)]"
  shows "parse_exn (the (stringify reply)) = Ok reply" "prop_exn reply ''error'' = Ok JUndef"
    "contentToString (read_prop (read_prop reply ''result'') ''content'') = t"
proof -
  have "json_ok reply" using assms by (auto simp: text_content_def)
  then show "parse_exn (the (stringify reply)) = Ok reply" by (simp add: stringify_json_text parse_exn_def JSON_parse_text)
  show "prop_exn reply ''error'' = Ok JUndef" using assms by (simp add: prop_exn_def get_prop_def)
  show "contentToString (read_prop (read_prop reply ''result'') ''content'') = t"
    using assms by (simp add: read_prop_def get_prop_def text_content_def contentToString_def content_item_def map_has_def)
qed

lemma sent_call:
  assumes "mcp_handler eng a o' ''POST'' (header_get (request_headers True c) ''authorization'')
      (the (stringify (call_message (mc_id c + 1) name args))) (mc_net c) = (\<lparr>mr_status = 200, mr_body = Some reply\<rparr>, s')"
    and "parse_exn (the (stringify reply)) = Ok reply" and "prop_exn reply ''error'' = Ok JUndef"
  shows "callTool (server_fetch eng a o') name args c =
    (Ok (contentToString (read_prop (read_prop reply ''result'') ''content'')),
     c\<lparr>mc_id := mc_id c + 1, mc_session := Some ''zenzip'', mc_net := s'\<rparr>)"
proof -
  have "\<not> str_includes ''application/json'' ''text/event-stream''" by code_simp
  with assms show ?thesis
    by (simp add: callTool_def client_send_def server_fetch_def call_message_def truthy_def Let_def
        del: stringify.simps str_includes.simps)
qed

text \<open>
  C33: a tool call comes back. An agent whose tools are those of an MCP server of the same program gets, from a
  call with the server's token of a tool the server exposes, the text of what the tool answered, or the message
  of what it threw; and the server has been left exactly as that one invocation leaves it.
\<close>

theorem mcp_round_trip:
  assumes "authorized (mo_token o') (header_get (request_headers True c) ''authorization'')"
    and "json_ok args" and "\<not> nullish args" and "name \<noteq> []" and "map_get (buildTools a o') name = Some t"
    and "mcp_invoke eng (mo_wait o') t args (mc_net c) = (r, s')"
  shows "callTool (server_fetch eng a o') name args c =
    (Ok (case r of Inr out \<Rightarrow> answer_text out | Inl e \<Rightarrow> exn_message e),
     c\<lparr>mc_id := mc_id c + 1, mc_session := Some ''zenzip'', mc_net := s'\<rparr>)"
proof -
  let ?i = "mc_id c + 1"
  have "json_ok (call_message ?i name args)" using assms(2) by (simp add: call_message_def)
  then have h: "mcp_handler eng a o' ''POST'' (header_get (request_headers True c) ''authorization'')
      (the (stringify (call_message ?i name args))) (mc_net c) =
    (rpc (JNum ?i) (JObj (case r of Inr out \<Rightarrow> [(''content'', text_content (answer_text out))]
        | Inl e \<Rightarrow> [(''content'', text_content (exn_message e)), (''isError'', JBool True)])), s')"
    using handled_call [OF assms] by (simp add: stringify_json_text)
  show ?thesis
  proof (cases r)
    case (Inl e)
    have m: "[(''isError'', JBool True)] = [] \<or> [(''isError'', JBool True)] = [(''isError'', JBool True)]" by simp
    show ?thesis
      using sent_call [OF h [unfolded rpc_def Inl sum.case] reply_text(1,2) [OF refl m]] reply_text(3) [OF refl m] by (simp add: Inl)
  next
    case (Inr out)
    have m: "[] = [] \<or> [] = [(''isError'', JBool True)]" by simp
    show ?thesis
      using sent_call [OF h [unfolded rpc_def Inr sum.case] reply_text(1,2) [OF refl m]] reply_text(3) [OF refl m] by (simp add: Inr)
  qed
qed

definition bot_client :: "int handle_state mcp_client" where
  "bot_client = \<lparr>mc_headers = [(''Authorization'', ''Bearer s3cret'')], mc_id = 0, mc_session = None,
     mc_net = \<lparr>hs_native = 0, hs_audit = []\<rparr>\<rparr>"

lemma bot_invoked:
  "\<exists>s'. mcp_invoke bot_engine (mo_wait bot_server) (agent_mcp_tool ''bot'' None) (JObj [(''message'', JStr ''hi'')]) (mc_net bot_client) =
     (Ok (JStr ''hello''), s')"
proof -
  have "fst (mcp_invoke bot_engine (mo_wait bot_server) (agent_mcp_tool ''bot'' None) (JObj [(''message'', JStr ''hi'')]) (mc_net bot_client)) = Ok (JStr ''hello'')"
    by code_simp
  then show ?thesis by (metis prod.collapse)
qed

theorem mcp_round_trip_witness:
  "fst (callTool (server_fetch bot_engine bot_app bot_server) ''bot'' (JObj [(''message'', JStr ''hi'')]) bot_client) = Ok ''hello''"
proof -
  obtain s' where i: "mcp_invoke bot_engine (mo_wait bot_server) (agent_mcp_tool ''bot'' None) (JObj [(''message'', JStr ''hi'')]) (mc_net bot_client) =
     (Ok (JStr ''hello''), s')"
    using bot_invoked by blast
  have "authorized (mo_token bot_server) (header_get (request_headers True bot_client) ''authorization'')" by code_simp
  from mcp_round_trip [OF this _ _ _ _ i, of "''bot''" bot_app] show ?thesis
    by (simp add: bot_tools nullish_def answer_text_def)
qed

section \<open>Findings\<close>

text \<open>
  A tool that failed on the server is not an error to the client, which never looks at \<open>isError\<close>: the tool step
  of the agent succeeds with the message as its result, and is journaled rather than retried.
\<close>

lemma remote_failure_is_a_result:
  assumes "prop_exn msg ''error'' = Ok JUndef" and "read_prop (read_prop msg ''result'') ''content'' = text_content t"
    and "read_prop (read_prop msg ''result'') ''isError'' = JBool True"
    and "fetch = (\<lambda>req net. (Ok \<lparr>mp_ok = True, mp_status = 200, mp_session = None, mp_ctype = None, mp_text = reply\<rparr>, net))"
    and "JSON_parse reply = Some msg"
  shows "fst (t_execute (remote_tool fetch None (JObj [(''name'', JStr name)])) input i r c) = Ok (JStr t)"
proof -
  have "contentToString (text_content t) = t"
    by (simp add: text_content_def contentToString_def content_item_def map_has_def read_prop_def get_prop_def)
  moreover have "read_prop (JObj [(''name'', JStr name)]) ''name'' = JStr name" by (simp add: read_prop_def get_prop_def)
  ultimately show ?thesis
    using assms by (simp add: remote_tool_def callTool_def client_send_def parse_exn_def truthy_def Let_def)
qed

text \<open>An empty token, such as one read from an unset variable, switches the check off.\<close>

lemma empty_token_is_no_token: "authorized (Some []) header"
  by (simp add: authorized_def)

end
