(* ===== verification/Testing.thy ===== *)
theory Testing
  imports App
begin

text \<open>
  The helpers for test suites (\<open>packages/zenzip/src/testing.ts\<close>): a throwaway application, waiting for a
  condition, waiting for a run's status. The clock, timers and the temporary directory are arguments. The
  polling loop is a partial function; shown is that it returns whenever time passes, and with what.
\<close>

section \<open>The throwaway application\<close>

text \<open>The caller's options over the defaults; the data directory is the caller's or a fresh one.\<close>

definition or_else :: "'a option \<Rightarrow> 'a \<Rightarrow> 'a option" where
  "or_else v d = (case v of Some x \<Rightarrow> Some x | None \<Rightarrow> Some d)"

definition test_options :: "string \<Rightarrow> app_options \<Rightarrow> app_options" where
  "test_options tmp o' =
     o'\<lparr>op_handleSignals := or_else (op_handleSignals o') False, op_sweep := or_else (op_sweep o') (DStr ''200ms''),
       op_schedulerTick := or_else (op_schedulerTick o') (DStr ''50ms''), op_dataDir := or_else (op_dataDir o') tmp\<rparr>"

definition createTestApp :: "string \<Rightarrow> app_options \<Rightarrow> ('w, 'n, 'h, 'm) app \<times> string" where
  "createTestApp tmp o' =
     (new_app (test_options tmp o'), case op_dataDir o' of Some d \<Rightarrow> d | None \<Rightarrow> tmp)"

text \<open>\<open>cleanup\<close>: stop, then remove the directory; a failing removal is ignored, a failing stop is not.\<close>

definition test_cleanup ::
  "('w, 'n) native_ops \<Rightarrow> (string \<Rightarrow> 'f \<Rightarrow> 'f option) \<Rightarrow> string \<Rightarrow> ('w, 'n, 'h, 'm) app \<Rightarrow> 'f
     \<Rightarrow> (exn, unit) res \<times> ('w, 'n, 'h, 'm) app \<times> 'f" where
  "test_cleanup ops rm dataDir a fs =
     (case app_stop ops \<lparr>st_timeout = Some (DStr ''5s''), st_httpDrain = None\<rparr> a of
        (Inl e, a', _) \<Rightarrow> (Throw e, a', fs)
      | (Inr _, a', _) \<Rightarrow> (Ok (), a', case rm dataDir fs of Some fs' \<Rightarrow> fs' | None \<Rightarrow> fs))"

section \<open>Waiting\<close>

record wait_options =
  wt_timeoutMs :: "int option"
  wt_intervalMs :: "int option"
  wt_label :: "string option"

record 'w timers =
  tm_now :: "'w \<Rightarrow> int"
  tm_sleep :: "int \<Rightarrow> 'w \<Rightarrow> 'w"

type_synonym 'w condition = "'w \<Rightarrow> (exn, bool) res \<times> 'w"

definition timeoutMs :: "wait_options \<Rightarrow> int" where
  "timeoutMs o' = (case wt_timeoutMs o' of Some t \<Rightarrow> t | None \<Rightarrow> 5000)"

definition intervalMs :: "wait_options \<Rightarrow> int" where
  "intervalMs o' = (case wt_intervalMs o' of Some t \<Rightarrow> t | None \<Rightarrow> 25)"

definition timed_out :: "wait_options \<Rightarrow> exn" where
  "timed_out o' =
     Error (''waitFor timed out after '' @ int_str (timeoutMs o') @ ''ms'' @
       (case wt_label o' of Some l \<Rightarrow> if l = [] then [] else '': '' @ l | None \<Rightarrow> []))"

partial_function (option) wait_loop ::
  "'w timers \<Rightarrow> 'w condition \<Rightarrow> int \<Rightarrow> int \<Rightarrow> exn \<Rightarrow> 'w \<Rightarrow> ((exn, unit) res \<times> 'w) option" where
  "wait_loop tm cond interval deadline err w =
     (case cond w of
        (r, w1) \<Rightarrow>
          (case r of
             Inl e \<Rightarrow> Some (Throw e, w1)
           | Inr b \<Rightarrow>
               if b then Some (Ok (), w1)
               else if tm_now tm w1 > deadline then Some (Throw err, w1)
               else wait_loop tm cond interval deadline err (tm_sleep tm interval w1)))"

definition waitFor :: "'w timers \<Rightarrow> 'w condition \<Rightarrow> wait_options \<Rightarrow> 'w \<Rightarrow> ((exn, unit) res \<times> 'w) option" where
  "waitFor tm cond o' w = wait_loop tm cond (intervalMs o') (tm_now tm w + timeoutMs o') (timed_out o') w"

section \<open>Waiting for a run\<close>

definition terminal :: "run_status list" where
  "terminal = [Completed, Failed, Cancelled]"

definition reached_message :: "string \<Rightarrow> run_status \<Rightarrow> run_info \<Rightarrow> string" where
  "reached_message runId status run =
     ''run '' @ runId @ '' reached terminal status '' @ quoted (status_name (ri_status run)) @ '' while waiting for '' @
     quoted (status_name status) @ (if truthy (ri_error run) then '' ('' @ js_String (ri_error run) @ '')'' else [])"

text \<open>The state the condition closes over: the world and the last snapshot seen.\<close>

definition run_condition ::
  "(string \<Rightarrow> 'w \<Rightarrow> (exn, run_info option) res \<times> 'w) \<Rightarrow> string \<Rightarrow> run_status \<Rightarrow> ('w \<times> run_info option) condition" where
  "run_condition get runId status wl =
     (case get runId (fst wl) of
        (Inl e, w') \<Rightarrow> (Throw e, (w', snd wl))
      | (Inr None, w') \<Rightarrow> (Ok False, (w', None))
      | (Inr (Some run), w') \<Rightarrow>
          if ri_status run = status then (Ok True, (w', Some run))
          else if ri_status run \<in> set terminal \<and> status \<notin> set terminal
            then (Throw (Error (reached_message runId status run)), (w', Some run))
          else (Ok False, (w', Some run)))"

text \<open>The label of the source has an arrow between the run and the status.\<close>

definition run_wait_options :: "string \<Rightarrow> run_status \<Rightarrow> wait_options \<Rightarrow> wait_options" where
  "run_wait_options runId status o' =
     o'\<lparr>wt_label := or_else (wt_label o') (''run '' @ runId @ '' -> '' @ status_name status)\<rparr>"

definition pair_timers :: "'w timers \<Rightarrow> ('w \<times> 'l) timers" where
  "pair_timers tm = \<lparr>tm_now = tm_now tm \<circ> fst, tm_sleep = (\<lambda>i (w, l). (tm_sleep tm i w, l))\<rparr>"

definition waitForRunStatus ::
  "'w timers \<Rightarrow> (string \<Rightarrow> 'w \<Rightarrow> (exn, run_info option) res \<times> 'w) \<Rightarrow> string \<Rightarrow> run_status \<Rightarrow> wait_options \<Rightarrow> 'w
     \<Rightarrow> ((exn, run_info) res \<times> 'w) option" where
  "waitForRunStatus tm get runId status o' w =
     (case waitFor (pair_timers tm) (run_condition get runId status) (run_wait_options runId status o') (w, None) of
        None \<Rightarrow> None
      | Some (Inl e, (w', l)) \<Rightarrow> Some (Throw e, w')
      | Some (Inr _, (w', l)) \<Rightarrow> Some (Ok (the l), w'))"

section \<open>It returns\<close>

text \<open>
  What is asked of the platform: reading the condition does not turn the clock back, and a timer takes time
  (a delay below one millisecond counts as one).
\<close>

definition time_passes :: "'w timers \<Rightarrow> 'w condition \<Rightarrow> int \<Rightarrow> bool" where
  "time_passes tm cond interval \<longleftrightarrow>
     (\<forall>w. tm_now tm w \<le> tm_now tm (snd (cond w)) \<and> tm_now tm w < tm_now tm (tm_sleep tm interval w))"

definition answered :: "'w condition \<Rightarrow> (exn, bool) res \<Rightarrow> 'w \<Rightarrow> bool" where
  "answered cond r w' \<longleftrightarrow> (\<exists>v. cond v = (r, w'))"

lemma wait_loop_returns:
  assumes "time_passes tm cond interval"
  shows "\<exists>r w'. wait_loop tm cond interval deadline err w = Some (r, w') \<and>
    (case r of
       Inr _ \<Rightarrow> answered cond (Ok True) w'
     | Inl e \<Rightarrow> answered cond (Throw e) w' \<or> e = err \<and> answered cond (Ok False) w' \<and> deadline < tm_now tm w')"
proof (induction "nat (deadline + 1 - tm_now tm w)" arbitrary: w rule: less_induct)
  case less
  obtain r w1 where c: "cond w = (r, w1)" by (cases "cond w")
  consider (threw) e where "r = Inl e" | (yes) "r = Inr True" | (late) "r = Inr False" "deadline < tm_now tm w1"
    | (again) "r = Inr False" "tm_now tm w1 \<le> deadline"
    by (cases r) (auto, metis (full_types) linorder_not_le)
  then show ?case
  proof cases
    case again
    have "tm_now tm w \<le> tm_now tm w1" "tm_now tm w1 < tm_now tm (tm_sleep tm interval w1)"
      using assms c unfolding time_passes_def by (metis snd_conv)+
    with again have "nat (deadline + 1 - tm_now tm (tm_sleep tm interval w1)) < nat (deadline + 1 - tm_now tm w)" by simp
    from less [OF this] show ?thesis using again c by (simp add: wait_loop.simps [of tm cond interval deadline err w])
  qed (use c in \<open>auto simp: wait_loop.simps [of tm cond interval deadline err w] answered_def\<close>)
qed

text \<open>
  C36: waiting ends. As long as time passes, \<open>waitForRunStatus\<close> returns: with a snapshot that has the awaited
  status, or with an error, that of the source, that of a run that ended otherwise, or, once the timeout has
  passed, the timeout's.
\<close>

theorem waitForRunStatus_returns:
  fixes tm :: "'w timers"
  assumes "time_passes (pair_timers tm) (run_condition get runId status) (intervalMs o')"
  shows "\<exists>r w'. waitForRunStatus tm get runId status o' w = Some (r, w') \<and>
    (case r of
       Inr run \<Rightarrow> ri_status run = status \<and> (\<exists>v. get runId v = (Ok (Some run), w'))
     | Inl e \<Rightarrow> (\<exists>v. get runId v = (Throw e, w')) \<or>
         (\<exists>v run. get runId v = (Ok (Some run), w') \<and> ri_status run \<in> set terminal \<and> e = Error (reached_message runId status run)) \<or>
         e = timed_out (run_wait_options runId status o') \<and> tm_now tm w + timeoutMs o' < tm_now tm w')"
proof -
  let ?cond = "run_condition get runId status" and ?o = "run_wait_options runId status o'" and ?tm = "pair_timers tm :: ('w \<times> run_info option) timers"
  have "intervalMs ?o = intervalMs o'" and t: "timeoutMs ?o = timeoutMs o'"
    by (simp_all add: run_wait_options_def intervalMs_def timeoutMs_def)
  with assms have "time_passes ?tm ?cond (intervalMs ?o)" by simp
  from wait_loop_returns [OF this, of "tm_now ?tm (w, None) + timeoutMs ?o" "timed_out ?o" "(w, None)"]
  obtain r wl where r: "waitFor ?tm ?cond ?o (w, None) = Some (r, wl)"
    and c: "case r of Inr _ \<Rightarrow> answered ?cond (Ok True) wl
      | Inl e \<Rightarrow> answered ?cond (Throw e) wl \<or> e = timed_out ?o \<and> answered ?cond (Ok False) wl \<and> tm_now ?tm (w, None) + timeoutMs ?o < tm_now ?tm wl"
    unfolding waitFor_def by blast
  obtain w' l where wl: "wl = (w', l)" by (cases wl)
  show ?thesis
  proof (cases r)
    case (Inr u)
    with c obtain v where "?cond v = (Ok True, wl)" by (auto simp: answered_def)
    then obtain run where "get runId (fst v) = (Ok (Some run), w')" "ri_status run = status" "l = Some run"
      by (auto simp: run_condition_def wl split: prod.splits sum.splits option.splits if_splits)
    then show ?thesis using r Inr wl by (auto simp: waitForRunStatus_def)
  next
    case (Inl e)
    have "(\<exists>v. get runId v = (Throw e, w')) \<or>
         (\<exists>v run. get runId v = (Ok (Some run), w') \<and> ri_status run \<in> set terminal \<and> e = Error (reached_message runId status run)) \<or>
         e = timed_out ?o \<and> tm_now tm w + timeoutMs o' < tm_now tm w'"
      using c unfolding Inl
    proof (simp add: answered_def t wl pair_timers_def, elim disjE exE)
      fix a b
      assume "?cond (a, b) = (Throw e, w', l)"
      then show ?thesis
        by (auto simp: run_condition_def split: prod.splits sum.splits option.splits if_splits)
    qed simp
    then show ?thesis using r Inl wl by (auto simp: waitForRunStatus_def)
  qed
qed

text \<open>A clock of milliseconds and a run that completes at 30.\<close>

definition ms_timers :: "int timers" where
  "ms_timers = \<lparr>tm_now = id, tm_sleep = (\<lambda>i w. w + max 1 i)\<rparr>"

definition done_at_30 :: "string \<Rightarrow> int \<Rightarrow> (exn, run_info option) res \<times> int" where
  "done_at_30 runId w =
     (Ok (Some \<lparr>ri_runId = JStr runId, ri_workflow = JStr ''w'', ri_status = (if w < 30 then Running else Completed),
        ri_output = JUndef, ri_error = JUndef\<rparr>), w)"

abbreviation no_wait_options :: wait_options where
  "no_wait_options \<equiv> \<lparr>wt_timeoutMs = None, wt_intervalMs = None, wt_label = None\<rparr>"

theorem waitForRunStatus_returns_witness:
  "\<exists>run. waitForRunStatus ms_timers done_at_30 ''r'' Completed no_wait_options 0 = Some (Ok run, 50) \<and> ri_status run = Completed"
proof -
  have p: "time_passes (pair_timers ms_timers) (run_condition done_at_30 ''r'' Completed) (intervalMs no_wait_options)"
    by (auto simp: time_passes_def pair_timers_def ms_timers_def run_condition_def done_at_30_def intervalMs_def split: prod.splits if_splits)
  have "waitForRunStatus ms_timers done_at_30 ''r'' Completed no_wait_options 0 =
    Some (Ok \<lparr>ri_runId = JStr ''r'', ri_workflow = JStr ''w'', ri_status = Completed, ri_output = JUndef, ri_error = JUndef\<rparr>, 50)"
    by (simp add: waitForRunStatus_def waitFor_def wait_loop.simps run_condition_def done_at_30_def pair_timers_def ms_timers_def
        intervalMs_def timeoutMs_def run_wait_options_def terminal_def)
  with waitForRunStatus_returns [OF p, of 0] show ?thesis by auto
qed

section \<open>Finding\<close>

text \<open>
  The documentation says the wait fails fast when the run ends in a different state. It does so only for an
  awaited status that is not terminal itself: waiting for completion, a run that has failed for good is
  polled until the timeout.
\<close>

lemma failed_run_is_polled_on:
  assumes "get runId w = (Ok (Some run), w')" and "ri_status run = Failed"
  shows "run_condition get runId Completed (w, l) = (Ok False, (w', Some run))"
  using assms by (simp add: run_condition_def terminal_def)

end
