(* ===== verification/Middleware.thy ===== *)
theory Middleware
  imports Http Duration
begin

text \<open>
  The built-in middleware (\<open>packages/zenzip/src/middleware.ts\<close>): body parsers, CORS, static files,
  security headers, rate limiting, authentication, CSRF protection and validation, each a function on
  the exchange that says whether it calls \<open>next()\<close>, answers, or throws. The checks are shown to meet
  one interface, and the interface is shown to protect the route behind it. \<open>URL\<close>,
  \<open>URLSearchParams\<close>, the file system, user callbacks and schemas are arguments.
\<close>

type_synonym builtin = "exchange \<Rightarrow> (thrown, bool) res \<times> exchange"

text \<open>A built-in as a handler of the chain: \<open>Ok True\<close> is the call of \<open>next()\<close>.\<close>

definition as_handler :: "builtin \<Rightarrow> (exchange, thrown) handler" where
  "as_handler f err x =
     (case f x of
        (Inl e, y) \<Rightarrow> ([Eff (\<lambda>_. y)], Some e)
      | (Inr go, y) \<Rightarrow> (Eff (\<lambda>_. y) # (if go then [Next] else []), None))"

fun set_headers :: "(string \<times> string) list \<Rightarrow> exchange \<Rightarrow> (thrown, exchange) res" where
  "set_headers [] x = Ok x"
| "set_headers ((k, v) # hs) x = rbind (setHeader k v (ex_res x)) (\<lambda>s. set_headers hs (x\<lparr>ex_res := s\<rparr>))"

definition answer :: "int \<Rightarrow> jsval \<Rightarrow> exchange \<Rightarrow> exchange" where
  "answer status body x = on_res (\<lambda>r. res_json body (res_status status r)) x"

definition deny_with :: "int \<Rightarrow> string \<Rightarrow> exchange \<Rightarrow> (thrown, bool) res \<times> exchange" where
  "deny_with status msg x = (Ok False, answer status (JObj [(''error'', JStr msg)]) x)"

section \<open>Body parsers\<close>

definition contentType :: "request \<Rightarrow> string" where
  "contentType r = (case map_get (rq_headers r) ''content-type'' of Some t \<Rightarrow> t | None \<Rightarrow> [])"

definition set_body :: "jsval \<Rightarrow> exchange \<Rightarrow> exchange" where
  "set_body v x = x\<lparr>ex_req := (ex_req x)\<lparr>rq_body := v\<rparr>\<rparr>"

definition json :: builtin where
  "json x =
     (Ok True,
      case rq_body (ex_req x) of
        JStr t \<Rightarrow> if str_includes (contentType (ex_req x)) ''application/json'' then
                     (case JSON_parse t of Some v \<Rightarrow> set_body v x | None \<Rightarrow> x)
                   else x
      | _ \<Rightarrow> x)"

definition urlencoded :: "(string \<Rightarrow> (string \<times> string) list) \<Rightarrow> builtin" where
  "urlencoded searchParams x =
     (Ok True,
      case rq_body (ex_req x) of
        JStr t \<Rightarrow> if str_includes (contentType (ex_req x)) ''application/x-www-form-urlencoded''
                  then set_body (parseQuery (searchParams t)) x else x
      | _ \<Rightarrow> x)"

section \<open>CORS\<close>

datatype cors_origin = OriginOne string | OriginMany "string list" | OriginReflect bool

record cors_options =
  co_origin :: "cors_origin option"
  co_methods :: "string option"
  co_allowedHeaders :: "string option"
  co_credentials :: bool
  co_maxAge :: "int option"

definition cors_allow :: "cors_options \<Rightarrow> string option \<Rightarrow> string option" where
  "cors_allow opts reqOrigin =
     (case (case co_origin opts of None \<Rightarrow> OriginOne ''*'' | Some s \<Rightarrow> s) of
        OriginReflect True \<Rightarrow> Some (case reqOrigin of Some s \<Rightarrow> s | None \<Rightarrow> ''*'')
      | OriginReflect False \<Rightarrow> None
      | OriginMany os \<Rightarrow>
          (case reqOrigin of
             Some s \<Rightarrow> if s \<noteq> [] \<and> s \<in> set os then Some s else (case os of [] \<Rightarrow> None | f # _ \<Rightarrow> Some f)
           | None \<Rightarrow> (case os of [] \<Rightarrow> None | f # _ \<Rightarrow> Some f))
      | OriginOne s \<Rightarrow> Some s)"

definition cors_headers :: "cors_options \<Rightarrow> request \<Rightarrow> (string \<times> string) list" where
  "cors_headers opts r =
     (case cors_allow opts (req_get r ''origin'') of
        Some a \<Rightarrow> (if a \<noteq> [] then [(''access-control-allow-origin'', a)] else []) @
                  (if a \<noteq> [] \<and> a \<noteq> ''*'' then [(''vary'', ''Origin'')] else [])
      | None \<Rightarrow> []) @
     (if co_credentials opts then [(''access-control-allow-credentials'', ''true'')] else []) @
     [(''access-control-allow-methods'',
        case co_methods opts of Some m \<Rightarrow> m | None \<Rightarrow> ''GET,HEAD,PUT,PATCH,POST,DELETE,OPTIONS''),
      (''access-control-allow-headers'',
        case co_allowedHeaders opts of Some h \<Rightarrow> h
        | None \<Rightarrow> (case req_get r ''access-control-request-headers'' of Some h \<Rightarrow> h | None \<Rightarrow> ''content-type''))] @
     (case co_maxAge opts of Some n \<Rightarrow> [(''access-control-max-age'', int_str n)] | None \<Rightarrow> [])"

definition cors :: "cors_options \<Rightarrow> builtin" where
  "cors opts x =
     (case set_headers (cors_headers opts (ex_req x)) x of
        Inl e \<Rightarrow> (Throw e, x)
      | Inr y \<Rightarrow>
          if rq_method (ex_req x) = ''OPTIONS'' then (Ok False, on_res (\<lambda>r. res_end [] (r\<lparr>rs_status := 204\<rparr>)) y)
          else (Ok True, y))"

section \<open>Static files\<close>

definition MIME :: "(string, string) jsmap" where
  "MIME =
     [(''.html'', ''text/html; charset=utf-8''), (''.js'', ''text/javascript; charset=utf-8''),
      (''.mjs'', ''text/javascript; charset=utf-8''), (''.css'', ''text/css; charset=utf-8''),
      (''.json'', ''application/json; charset=utf-8''), (''.map'', ''application/json; charset=utf-8''),
      (''.txt'', ''text/plain; charset=utf-8''), (''.svg'', ''image/svg+xml''), (''.png'', ''image/png''),
      (''.jpg'', ''image/jpeg''), (''.jpeg'', ''image/jpeg''), (''.gif'', ''image/gif''), (''.webp'', ''image/webp''),
      (''.ico'', ''image/x-icon''), (''.woff'', ''font/woff''), (''.woff2'', ''font/woff2''), (''.wasm'', ''application/wasm'')]"

text \<open>\<open>path.extname\<close>: from the last dot of the last segment, unless it starts the name.\<close>

definition extname :: "string \<Rightarrow> string" where
  "extname p =
     (let b = (case filter (\<lambda>s. s \<noteq> []) (split_on SLASH p) of [] \<Rightarrow> [] | segs \<Rightarrow> last segs);
          parts = split_on (CHR ''.'') b
      in if length parts < 2 \<or> butlast parts = [[]] \<or> b = ''..'' then [] else CHR ''.'' # last parts)"

datatype file_kind = FFile | FDir | FOther

record static_fs =
  fs_stat :: "string \<Rightarrow> file_kind option"
  fs_read :: "string \<Rightarrow> string"

record static_options =
  so_index :: "string option"
  so_prefix :: "string option"

text \<open>The request path below the prefix; \<open>None\<close> where the middleware steps aside.\<close>

definition static_rel :: "string option \<Rightarrow> string \<Rightarrow> string option" where
  "static_rel pre path =
     (case pre of
        None \<Rightarrow> Some path
      | Some q \<Rightarrow>
          if q = [] then Some path
          else let p = (if endsWith q ''/'' then butlast q else q) in
            if path \<noteq> p \<and> \<not> startsWith path (p @ ''/'') then None
            else Some (let rest = drop (length p) path in if rest = [] then ''/'' else rest))"

definition static_target :: "string \<Rightarrow> string \<Rightarrow> string option" where
  "static_target rootDir decoded =
     (let safeRel = dropWhile (\<lambda>c. c = SLASH \<or> c = BSL) (normalize decoded);
          target = path_join rootDir safeRel
      in if target \<noteq> rootDir \<and> \<not> startsWith target (rootDir @ ''/'') then None else Some target)"

definition static_file :: "static_fs \<Rightarrow> string option \<Rightarrow> string \<Rightarrow> string option" where
  "static_file fs index target =
     (case fs_stat fs target of
        None \<Rightarrow> None
      | Some FDir \<Rightarrow>
          (case index of
             None \<Rightarrow> None
           | Some i \<Rightarrow> if i = [] then None
                        else let f = path_join target i in if fs_stat fs f = Some FFile then Some f else None)
      | Some FFile \<Rightarrow> Some target
      | Some FOther \<Rightarrow> None)"

definition static_pick ::
  "(string \<Rightarrow> string option) \<Rightarrow> static_fs \<Rightarrow> string \<Rightarrow> static_options \<Rightarrow> string \<Rightarrow> string option" where
  "static_pick dec fs rootDir opts path =
     Option.bind (static_rel (so_prefix opts) path) (\<lambda>rel.
     Option.bind (dec rel) (\<lambda>decoded.
     Option.bind (static_target rootDir decoded) (static_file fs (so_index opts))))"

definition serveStatic ::
  "(string \<Rightarrow> string option) \<Rightarrow> static_fs \<Rightarrow> string \<Rightarrow> static_options \<Rightarrow> builtin" where
  "serveStatic dec fs rootDir opts x =
     (if rq_method (ex_req x) \<noteq> ''GET'' \<and> rq_method (ex_req x) \<noteq> ''HEAD'' then (Ok True, x)
      else case static_pick dec fs rootDir opts (rq_path (ex_req x)) of
        None \<Rightarrow> (Ok True, x)
      | Some file \<Rightarrow>
          (case set_headers [(''content-type'',
               case map_get MIME (toLowerCase (extname file)) of Some t \<Rightarrow> t | None \<Rightarrow> ''application/octet-stream'')] x of
             Inl e \<Rightarrow> (Throw e, x)
           | Inr y \<Rightarrow> (Ok False, on_res (res_end (if rq_method (ex_req x) = ''HEAD'' then [] else fs_read fs file)) y)))"

section \<open>Security headers and the request log\<close>

record secure_options =
  se_hsts :: "bool option"
  se_hstsMaxAge :: "int option"
  se_csp :: "string option"
  se_frame :: "string option option"
  se_referrer :: "string option option"

text \<open>
  \<open>se_hsts = Some False\<close> is \<open>hsts: false\<close>; an object form is \<open>Some True\<close> with its maximum age. For
  frame and referrer \<open>None\<close> is absent, \<open>Some None\<close> is \<open>false\<close>.
\<close>

definition or_default :: "string option option \<Rightarrow> string \<Rightarrow> string option" where
  "or_default v d = (case v of None \<Rightarrow> Some d | Some w \<Rightarrow> w)"

definition header_if :: "string \<Rightarrow> string option \<Rightarrow> (string \<times> string) list" where
  "header_if k v = (case v of Some t \<Rightarrow> if t \<noteq> [] then [(k, t)] else [] | None \<Rightarrow> [])"

definition secure_list :: "secure_options \<Rightarrow> (string \<times> string) list" where
  "secure_list opts =
     [(''x-content-type-options'', ''nosniff''), (''x-dns-prefetch-control'', ''off'')] @
     header_if ''x-frame-options'' (or_default (se_frame opts) ''DENY'') @
     header_if ''referrer-policy'' (or_default (se_referrer opts) ''no-referrer'') @
     (if se_hsts opts \<noteq> Some False then
        [(''strict-transport-security'', ''max-age='' @
          int_str (case se_hstsMaxAge opts of Some n \<Rightarrow> n | None \<Rightarrow> 15552000) @ ''; includeSubDomains'')] else []) @
     header_if ''content-security-policy'' (se_csp opts)"

definition secureHeaders :: "secure_options \<Rightarrow> builtin" where
  "secureHeaders opts x =
     (case set_headers (secure_list opts) x of Inl e \<Rightarrow> (Throw e, x) | Inr y \<Rightarrow> (Ok True, y))"

text \<open>The line \<open>logger\<close> emits when the response finishes.\<close>

definition log_line :: "exchange \<Rightarrow> int \<Rightarrow> int \<Rightarrow> string" where
  "log_line x started finished =
     rq_method (ex_req x) @ '' '' @ rq_path (ex_req x) @ '' '' @ int_str (rs_status (ex_res x)) @ '' '' @
     int_str (finished - started) @ ''ms''"

text \<open>
  The logger calls \<open>next\<close> at once; its listener prints the line when the response is finished, with the
  request as it is then and the status that was sent.
\<close>

definition logger :: builtin where
  "logger x = (Ok True, x)"

definition logger_finish :: "int \<Rightarrow> int \<Rightarrow> exchange \<Rightarrow> exchange" where
  "logger_finish started finished x =
     (if rs_sent (ex_res x) then x\<lparr>ex_log := ex_log x @ [log_line x started finished]\<rparr> else x)"

lemma logger_prints_once:
  "rs_sent (ex_res x) \<Longrightarrow> ex_log (logger_finish t0 t1 x) = ex_log x @ [log_line x t0 t1] \<and> ex_res (logger_finish t0 t1 x) = ex_res x"
  by (simp add: logger_finish_def)

section \<open>Rate limiting\<close>

record rate_options =
  rl_max :: int
  rl_windowMs :: int
  rl_message :: "string option"

definition clientIp :: "request \<Rightarrow> string" where
  "clientIp r =
     (case req_get r ''x-forwarded-for'' of
        Some fwd \<Rightarrow> if fwd \<noteq> [] then trim (hd (split_on (CHR '','') fwd))
                    else (case rq_remote r of Some a \<Rightarrow> a | None \<Rightarrow> ''unknown'')
      | None \<Rightarrow> (case rq_remote r of Some a \<Rightarrow> a | None \<Rightarrow> ''unknown''))"

definition rate_window :: "duration option \<Rightarrow> (duration_error, int) res" where
  "rate_window d = (case d of None \<Rightarrow> Ok 60000 | Some v \<Rightarrow> ms v)"

text \<open>The bucket after counting a request of key \<open>k\<close> at time \<open>now\<close>.\<close>

definition bump :: "rate_options \<Rightarrow> int \<Rightarrow> string \<Rightarrow> (string, bucket) jsmap \<Rightarrow> bucket" where
  "bump opts now k bs =
     (case map_get bs k of
        Some b \<Rightarrow> if now \<ge> bk_resetAt b then \<lparr>bk_count = 1, bk_resetAt = now + rl_windowMs opts\<rparr>
                  else b\<lparr>bk_count := bk_count b + 1\<rparr>
      | None \<Rightarrow> \<lparr>bk_count = 1, bk_resetAt = now + rl_windowMs opts\<rparr>)"

definition ceil_div :: "int \<Rightarrow> int \<Rightarrow> int" where
  "ceil_div a b = - ((- a) div b)"

definition rateLimit :: "rate_options \<Rightarrow> (request \<Rightarrow> string) \<Rightarrow> builtin" where
  "rateLimit opts keyOf x =
     (let now = ex_now x;
          k = keyOf (ex_req x);
          b = bump opts now k (ex_buckets x);
          x1 = x\<lparr>ex_buckets := map_set k b (ex_buckets x)\<rparr>;
          remaining = max 0 (rl_max opts - bk_count b);
          hs = [(''x-ratelimit-limit'', int_str (rl_max opts)), (''x-ratelimit-remaining'', int_str remaining),
                (''x-ratelimit-reset'', int_str (ceil_div (bk_resetAt b) 1000))]
      in case set_headers hs x1 of
           Inl e \<Rightarrow> (Throw e, x1)
         | Inr x2 \<Rightarrow>
             if bk_count b > rl_max opts then
               (case set_headers [(''retry-after'', int_str (ceil_div (bk_resetAt b - now) 1000))] x2 of
                  Inl e \<Rightarrow> (Throw e, x2)
                | Inr x3 \<Rightarrow> deny_with 429 (case rl_message opts of Some m \<Rightarrow> m | None \<Rightarrow> ''too many requests'') x3)
             else (Ok True, x2))"

section \<open>Authentication\<close>

record auth_options =
  ao_tokens :: "string list option"
  ao_verify :: "(string \<Rightarrow> request \<Rightarrow> (thrown, jsval) res) option"
  ao_attach :: "string option"

definition bearerToken :: "request \<Rightarrow> string option" where
  "bearerToken r =
     (case req_get r ''authorization'' of
        Some a \<Rightarrow> if startsWith a ''Bearer '' then Some (drop 7 a) else req_get r ''x-api-key''
      | None \<Rightarrow> req_get r ''x-api-key'')"

definition timingSafeMatch :: "string \<Rightarrow> string list \<Rightarrow> bool" where
  "timingSafeMatch token candidates =
     foldl (\<lambda>ok c. if length c = length token \<and> c = token then True else ok) False candidates"

definition principal_of :: "auth_options \<Rightarrow> string \<Rightarrow> request \<Rightarrow> (thrown, jsval) res" where
  "principal_of opts token r =
     (if (case ao_tokens opts of Some ts \<Rightarrow> timingSafeMatch token ts | None \<Rightarrow> False) then Ok (JObj [(''token'', JStr token)])
      else case ao_verify opts of Some f \<Rightarrow> f token r | None \<Rightarrow> Ok JUndef)"

definition auth :: "auth_options \<Rightarrow> builtin" where
  "auth opts x =
     (case bearerToken (ex_req x) of
        None \<Rightarrow> deny_with 401 ''unauthorized'' x
      | Some token \<Rightarrow>
          if token = [] then deny_with 401 ''unauthorized'' x
          else (case principal_of opts token (ex_req x) of
                  Inl e \<Rightarrow> (Throw e, x)
                | Inr who \<Rightarrow>
                    if \<not> truthy who then deny_with 401 ''unauthorized'' x
                    else (Ok True, x\<lparr>ex_req := (ex_req x)\<lparr>rq_props :=
                      map_set (case ao_attach opts of Some a \<Rightarrow> a | None \<Rightarrow> ''user'') who (rq_props (ex_req x))\<rparr>\<rparr>)))"

section \<open>CSRF\<close>

record csrf_options =
  cf_allowedOrigins :: "string list option"
  cf_safeMethods :: "string list option"

text \<open>What the middleware asks of \<open>URL\<close>: the origin and the host of an absolute URL.\<close>

record url_api =
  url_origin :: "string \<Rightarrow> string option"
  url_host :: "string \<Rightarrow> string option"

definition originFromReferer :: "url_api \<Rightarrow> string option \<Rightarrow> string option" where
  "originFromReferer url referer = (case referer of None \<Rightarrow> None | Some r \<Rightarrow> if r = [] then None else url_origin url r)"

definition request_origin :: "url_api \<Rightarrow> request \<Rightarrow> string option" where
  "request_origin url r =
     (case req_get r ''origin'' of Some s \<Rightarrow> Some s | None \<Rightarrow> originFromReferer url (req_get r ''referer''))"

definition csrf_safe :: "csrf_options \<Rightarrow> string \<Rightarrow> bool" where
  "csrf_safe opts method \<longleftrightarrow>
     toUpperCase method \<in> toUpperCase ` set (case cf_safeMethods opts of Some safe \<Rightarrow> safe | None \<Rightarrow> [''GET'', ''HEAD'', ''OPTIONS''])"

definition csrf :: "url_api \<Rightarrow> csrf_options \<Rightarrow> builtin" where
  "csrf url opts x =
     (let r = ex_req x in
      if csrf_safe opts (rq_method r) then (Ok True, x)
      else case request_origin url r of
        None \<Rightarrow> deny_with 403 ''CSRF: missing Origin/Referer on a state-changing request'' x
      | Some origin \<Rightarrow>
          if origin = [] then deny_with 403 ''CSRF: missing Origin/Referer on a state-changing request'' x
          else (case cf_allowedOrigins opts of
                  Some allowed \<Rightarrow>
                    if origin \<notin> set allowed then deny_with 403 ''CSRF: origin not allowed'' x else (Ok True, x)
                | None \<Rightarrow>
                    (case req_get r ''host'' of
                       None \<Rightarrow> deny_with 403 ''CSRF: cross-origin request rejected'' x
                     | Some host \<Rightarrow>
                         if host = [] \<or> url_host url origin \<noteq> Some host
                         then deny_with 403 ''CSRF: cross-origin request rejected'' x else (Ok True, x))))"

section \<open>Validation\<close>

type_synonym schema = "jsval \<Rightarrow> string list + jsval"

definition validation_failed :: "string \<Rightarrow> string list \<Rightarrow> exchange \<Rightarrow> (thrown, bool) res \<times> exchange" where
  "validation_failed part issues x =
     (Ok False, answer 400 (JObj [(''error'', JStr ''validation failed''), (''part'', JStr part),
        (''issues'', JArr (map (\<lambda>m. JObj [(''message'', JStr m)]) issues))]) x)"

definition validate :: "schema option \<Rightarrow> schema option \<Rightarrow> builtin" where
  "validate query body x =
     (case (case query of None \<Rightarrow> Inr x
            | Some f \<Rightarrow> (case f (rq_query (ex_req x)) of
                 Inl issues \<Rightarrow> Inl issues
               | Inr v \<Rightarrow> Inr (x\<lparr>ex_req := (ex_req x)\<lparr>rq_query := v\<rparr>\<rparr>))) of
        Inl issues \<Rightarrow> validation_failed ''query'' issues x
      | Inr x1 \<Rightarrow>
          (case body of None \<Rightarrow> (Ok True, x1)
           | Some g \<Rightarrow> (case g (rq_body (ex_req x1)) of
                Inl issues \<Rightarrow> validation_failed ''body'' issues x1
              | Inr v \<Rightarrow> (Ok True, set_body v x1))))"

section \<open>The interface of a check\<close>

text \<open>
  A check has a condition on the exchange: where it fails the check never calls \<open>next()\<close>; it answers
  with its status if nothing was sent; and where it holds on an unanswered request it calls \<open>next()\<close>.
\<close>

locale http_check =
  fixes check :: builtin and granted :: "exchange \<Rightarrow> bool" and refusal :: int
  assumes blocks: "\<not> granted x \<Longrightarrow> fst (check x) \<noteq> Ok True"
    and refuses: "\<not> granted x \<Longrightarrow> \<not> rs_sent (ex_res x) \<Longrightarrow> fst (check x) = Ok False \<Longrightarrow>
      rs_sent (ex_res (snd (check x))) \<and> rs_status (ex_res (snd (check x))) = refusal"
    and passes: "granted x \<Longrightarrow> \<not> rs_sent (ex_res x) \<Longrightarrow> fst (check x) = Ok True"
begin

lemma no_next: "\<not> granted x \<Longrightarrow> next_count (fst (as_handler check err x)) = 0"
  using blocks [of x] by (auto simp: as_handler_def next_count_def split: prod.splits sum.splits if_splits)

text \<open>Mounted first and covering the request, the check keeps the route out of reach.\<close>

lemma protects:
  assumes "\<not> granted x" and "layer_path l = None \<or> (\<exists>p. layer_path l = Some p \<and> pathMatches p path)"
    and "layer_handle l = as_handler check" and "\<not> layer_isError l"
  shows "\<not> ch_dispatched (runMiddleware (chain_of dec router (l # ls) path) x)"
proof (rule guard_protects_route [where g = 0 and Q = "\<lambda>y. \<not> granted y"])
  show "guarded (chain_of dec router (l # ls) path) 0 (\<lambda>y. \<not> granted y)"
    using assms(2-4) no_next by (auto simp: guarded_def chain_of_def applies_def)
qed (rule assms(1))

text \<open>When it refuses, its answer is the response.\<close>

lemma refusal_stands:
  assumes "fst (check x) = Ok False" and "layer_path l = None \<or> (\<exists>p. layer_path l = Some p \<and> pathMatches p path)"
    and "layer_handle l = as_handler check" and "\<not> layer_isError l"
  shows "ch_x (runMiddleware (chain_of dec router (l # ls) path) x) = snd (check x)"
proof -
  have "find_layer (chain_of dec router (l # ls) path) False 0 = Some 0"
    using assms(2,4) by (subst find_layer.simps) (auto simp: chain_of_def applies_def)
  moreover have "layer_handle (env_layers (chain_of dec router (l # ls) path) ! 0) None x = ([Eff (\<lambda>_. snd (check x))], None)"
    using assms(1,3) by (cases "check x") (simp add: chain_of_def as_handler_def)
  ultimately show ?thesis by (simp add: runMiddleware_def chain_fuel_def chain_start_def numeral_3_eq_3)
qed

text \<open>When it throws, the error goes to the error handlers; without one, to the final answer.\<close>

lemma failure_stands:
  assumes "fst (check x) = Throw e" and "layer_path l = None \<or> (\<exists>p. layer_path l = Some p \<and> pathMatches p path)"
    and "layer_handle l = as_handler check" and "\<not> layer_isError l" and "\<forall>l \<in> set ls. \<not> layer_isError l"
  shows "ch_x (runMiddleware (chain_of dec router (l # ls) path) x) = on_res (finalError e) (snd (check x))"
proof -
  let ?env = "chain_of dec router (l # ls) path"
  have "find_layer ?env False 0 = Some 0"
    using assms(2,4) by (subst find_layer.simps) (auto simp: chain_of_def applies_def)
  moreover have "find_layer ?env True 0 = None"
  proof (cases "find_layer ?env True 0")
    case (Some j)
    then have "j < length (l # ls)" "layer_isError ((l # ls) ! j)" using find_layer_Some [OF Some] by (auto simp: chain_of_def)
    then have "\<exists>m \<in> set (l # ls). layer_isError m" using nth_mem by blast
    then show ?thesis using assms(4,5) by auto
  qed
  moreover have "layer_handle (env_layers ?env ! 0) None x = ([Eff (\<lambda>_. snd (check x))], Some e)"
    using assms(1,3) by (cases "check x") (simp add: chain_of_def as_handler_def)
  moreover have "env_final ?env e = on_res (finalError e)" by (simp add: chain_of_def)
  ultimately show ?thesis by (simp add: runMiddleware_def chain_fuel_def chain_start_def numeral_3_eq_3 Let_def)
qed

end

lemma answer_unsent: "\<not> rs_sent (ex_res x) \<Longrightarrow> rs_sent (ex_res (answer st b x)) \<and> rs_status (ex_res (answer st b x)) = st"
  by (simp add: answer_def on_res_def res_json_def res_end_def default_type_def res_status_def)

lemma deny_simps [simp]: "fst (deny_with st m x) = Ok False" "snd (deny_with st m x) = answer st (JObj [(''error'', JStr m)]) x"
  by (simp_all add: deny_with_def)

definition authenticated :: "auth_options \<Rightarrow> exchange \<Rightarrow> bool" where
  "authenticated opts x \<longleftrightarrow>
     (\<exists>t \<in> set_option (bearerToken (ex_req x)). t \<noteq> [] \<and> (case principal_of opts t (ex_req x) of Inr p \<Rightarrow> truthy p | Inl _ \<Rightarrow> False))"

interpretation auth_check: http_check "auth opts" "authenticated opts" 401
  by unfold_locales
    (auto simp: auth_def authenticated_def answer_unsent split: option.splits sum.splits if_splits)

definition same_site :: "url_api \<Rightarrow> csrf_options \<Rightarrow> exchange \<Rightarrow> bool" where
  "same_site url opts x \<longleftrightarrow> csrf_safe opts (rq_method (ex_req x)) \<or>
     (\<exists>s \<in> set_option (request_origin url (ex_req x)). s \<noteq> [] \<and>
        (case cf_allowedOrigins opts of Some os \<Rightarrow> s \<in> set os
         | None \<Rightarrow> (\<exists>h \<in> set_option (req_get (ex_req x) ''host''). h \<noteq> [] \<and> url_host url s = Some h)))"

interpretation csrf_check: http_check "csrf url opts" "same_site url opts" 403
  by unfold_locales
    (auto simp: csrf_def same_site_def answer_unsent Let_def split: option.splits if_splits)

definition accepted :: "schema option \<Rightarrow> jsval \<Rightarrow> bool" where
  "accepted sch v = (case sch of None \<Rightarrow> True | Some f \<Rightarrow> (case f v of Inr _ \<Rightarrow> True | Inl _ \<Rightarrow> False))"

definition valid_request :: "schema option \<Rightarrow> schema option \<Rightarrow> exchange \<Rightarrow> bool" where
  "valid_request query body x \<longleftrightarrow> accepted query (rq_query (ex_req x)) \<and> accepted body (rq_body (ex_req x))"

interpretation validate_check: http_check "validate query body" "valid_request query body" 400
  by unfold_locales
    (auto simp: validate_def valid_request_def accepted_def validation_failed_def answer_unsent set_body_def
      split: option.splits sum.splits if_splits)

lemma set_headers_unsent:
  "\<not> rs_sent (ex_res x) \<Longrightarrow>
     \<exists>y. set_headers hs x = Ok y \<and> \<not> rs_sent (ex_res y) \<and> ex_buckets y = ex_buckets x \<and> ex_req y = ex_req x"
proof (induction hs arbitrary: x)
  case (Cons kv hs)
  obtain k v where kv: "kv = (k, v)" by fastforce
  let ?y = "x\<lparr>ex_res := (ex_res x)\<lparr>rs_headers := map_set (toLowerCase k) v (rs_headers (ex_res x))\<rparr>\<rparr>"
  have "set_headers (kv # hs) x = set_headers hs ?y"
    using Cons.prems kv by (simp add: setHeader_def)
  with Cons.IH [of ?y] Cons.prems show ?case by simp
qed simp

definition within_rate :: "rate_options \<Rightarrow> (request \<Rightarrow> string) \<Rightarrow> exchange \<Rightarrow> bool" where
  "within_rate opts keyOf x \<longleftrightarrow> bk_count (bump opts (ex_now x) (keyOf (ex_req x)) (ex_buckets x)) \<le> rl_max opts"

lemma rateLimit_cases:
  "\<not> rs_sent (ex_res x) \<Longrightarrow> \<exists>y. \<not> rs_sent (ex_res y) \<and>
     ex_buckets y = map_set (keyOf (ex_req x)) (bump opts (ex_now x) (keyOf (ex_req x)) (ex_buckets x)) (ex_buckets x) \<and>
     (if within_rate opts keyOf x then rateLimit opts keyOf x = (Ok True, y)
      else \<exists>m. rateLimit opts keyOf x = deny_with 429 m y)"
proof -
  assume s: "\<not> rs_sent (ex_res x)"
  let ?b = "bump opts (ex_now x) (keyOf (ex_req x)) (ex_buckets x)"
  let ?x1 = "x\<lparr>ex_buckets := map_set (keyOf (ex_req x)) ?b (ex_buckets x)\<rparr>"
  let ?hs = "[(''x-ratelimit-limit'', int_str (rl_max opts)), (''x-ratelimit-remaining'', int_str (max 0 (rl_max opts - bk_count ?b))),
                (''x-ratelimit-reset'', int_str (ceil_div (bk_resetAt ?b) 1000))]"
  obtain x2 where x2: "set_headers ?hs ?x1 = Ok x2" "\<not> rs_sent (ex_res x2)" "ex_buckets x2 = ex_buckets ?x1"
    using set_headers_unsent [of ?x1 ?hs] s by auto
  obtain x3 where x3: "set_headers [(''retry-after'', int_str (ceil_div (bk_resetAt ?b - ex_now x) 1000))] x2 = Ok x3"
      "\<not> rs_sent (ex_res x3)" "ex_buckets x3 = ex_buckets x2"
    using set_headers_unsent [OF x2(2)] by blast
  show ?thesis
  proof (cases "within_rate opts keyOf x")
    case True
    then have "rateLimit opts keyOf x = (Ok True, x2)" using x2(1) by (simp add: rateLimit_def Let_def within_rate_def)
    then show ?thesis using True x2 by auto
  next
    case False
    then have "\<exists>m. rateLimit opts keyOf x = deny_with 429 m x3"
      using x2(1) x3(1) by (auto simp: rateLimit_def Let_def within_rate_def)
    then show ?thesis using False x2 x3 by auto
  qed
qed

interpretation rate_check: http_check "rateLimit opts keyOf" "within_rate opts keyOf" 429
proof unfold_locales
  fix x
  show "\<not> within_rate opts keyOf x \<Longrightarrow> fst (rateLimit opts keyOf x) \<noteq> Ok True"
  proof (cases "rs_sent (ex_res x)")
    case True
    then show ?thesis by (simp add: rateLimit_def Let_def setHeader_def)
  next
    case False
    moreover assume "\<not> within_rate opts keyOf x"
    ultimately show ?thesis using rateLimit_cases [OF False, of keyOf opts] by auto
  qed
  show "\<not> within_rate opts keyOf x \<Longrightarrow> \<not> rs_sent (ex_res x) \<Longrightarrow> fst (rateLimit opts keyOf x) = Ok False \<Longrightarrow>
      rs_sent (ex_res (snd (rateLimit opts keyOf x))) \<and> rs_status (ex_res (snd (rateLimit opts keyOf x))) = 429"
    using rateLimit_cases [of x keyOf opts] answer_unsent by auto
  show "within_rate opts keyOf x \<Longrightarrow> \<not> rs_sent (ex_res x) \<Longrightarrow> fst (rateLimit opts keyOf x) = Ok True"
    using rateLimit_cases [of x keyOf opts] by auto
qed

section \<open>Requests in a window\<close>

definition fresh_exchange :: "int \<Rightarrow> request \<Rightarrow> (string, bucket) jsmap \<Rightarrow> exchange" where
  "fresh_exchange now r bs =
     \<lparr>ex_req = r, ex_res = \<lparr>rs_status = 200, rs_headers = [], rs_sent = False, rs_body = []\<rparr>, ex_now = now,
      ex_buckets = bs, ex_log = [], ex_unhandled = False\<rparr>"

text \<open>A sequence of requests through one limiter, and which of them it lets pass.\<close>

fun serve_all ::
  "rate_options \<Rightarrow> (request \<Rightarrow> string) \<Rightarrow> (int \<times> request) list \<Rightarrow> (string, bucket) jsmap \<Rightarrow> (request \<times> bool) list" where
  "serve_all opts keyOf [] bs = []"
| "serve_all opts keyOf ((now, r) # rs) bs =
     (case rateLimit opts keyOf (fresh_exchange now r bs) of
        (res, y) \<Rightarrow> (r, res = Ok True) # serve_all opts keyOf rs (ex_buckets y))"

definition passed :: "(request \<Rightarrow> string) \<Rightarrow> string \<Rightarrow> (request \<times> bool) list \<Rightarrow> nat" where
  "passed keyOf k out = length (filter (\<lambda>(r, ok). keyOf r = k \<and> ok) out)"

definition asked :: "(request \<Rightarrow> string) \<Rightarrow> string \<Rightarrow> (int \<times> request) list \<Rightarrow> nat" where
  "asked keyOf k rs = length (filter (\<lambda>(t, r). keyOf r = k) rs)"

lemma serve_all_Cons:
  "serve_all opts keyOf ((now, r) # rs) bs =
     (r, bk_count (bump opts now (keyOf r) bs) \<le> rl_max opts) #
     serve_all opts keyOf rs (map_set (keyOf r) (bump opts now (keyOf r) bs) bs)"
proof -
  let ?x = "fresh_exchange now r bs"
  have s: "\<not> rs_sent (ex_res ?x)" by (simp add: fresh_exchange_def)
  have e: "ex_now ?x = now" "ex_req ?x = r" "ex_buckets ?x = bs" by (simp_all add: fresh_exchange_def)
  obtain y where y: "\<not> rs_sent (ex_res y)" "ex_buckets y = map_set (keyOf r) (bump opts now (keyOf r) bs) bs"
    "if within_rate opts keyOf ?x then rateLimit opts keyOf ?x = (Ok True, y) else \<exists>m. rateLimit opts keyOf ?x = deny_with 429 m y"
    using rateLimit_cases [OF s, of keyOf opts] e by auto
  have w: "within_rate opts keyOf ?x \<longleftrightarrow> bk_count (bump opts now (keyOf r) bs) \<le> rl_max opts"
    by (simp add: within_rate_def e)
  have a: "ex_buckets (answer st b z) = ex_buckets z" for st b z by (simp add: answer_def on_res_def)
  show ?thesis
  proof (cases "within_rate opts keyOf ?x")
    case True
    then show ?thesis using y w by simp
  next
    case False
    then obtain m where "rateLimit opts keyOf ?x = deny_with 429 m y" using y by auto
    then show ?thesis using False y w a by (simp add: deny_with_def)
  qed
qed

lemma live_bucket_passes:
  "map_get bs k = Some b \<Longrightarrow> list_all (\<lambda>(t, r). t < bk_resetAt b) rs \<Longrightarrow>
     passed keyOf k (serve_all opts keyOf rs bs) = min (asked keyOf k rs) (nat (rl_max opts - bk_count b))"
proof (induction rs arbitrary: bs b)
  case Nil
  then show ?case by (simp add: passed_def asked_def)
next
  case (Cons q rs)
  obtain now r where q: "q = (now, r)" by fastforce
  show ?case
  proof (cases "keyOf r = k")
    case True
    let ?b = "b\<lparr>bk_count := bk_count b + 1\<rparr>"
    have bump: "bump opts now k bs = ?b" using Cons.prems q by (simp add: bump_def)
    have "passed keyOf k (serve_all opts keyOf rs (map_set k ?b bs)) = min (asked keyOf k rs) (nat (rl_max opts - bk_count ?b))"
      by (rule Cons.IH) (use Cons.prems in \<open>auto simp: jsmap_simps\<close>)
    then show ?thesis
      using True by (auto simp: q serve_all_Cons bump passed_def asked_def simp del: serve_all.simps)
  next
    case False
    have "passed keyOf k (serve_all opts keyOf rs (map_set (keyOf r) (bump opts now (keyOf r) bs) bs)) =
        min (asked keyOf k rs) (nat (rl_max opts - bk_count b))"
      by (rule Cons.IH) (use Cons.prems False in \<open>auto simp: jsmap_simps\<close>)
    then show ?thesis using False by (simp add: q serve_all_Cons passed_def asked_def del: serve_all.simps)
  qed
qed

section \<open>Static files stay below their root\<close>

lemma normalize_abs_no_dots:
  assumes "p \<noteq> []" "hd p = SLASH" "s \<in> set (split_on SLASH (normalize p))"
  shows "s \<noteq> ''.'' \<and> s \<noteq> ''..''"
proof -
  let ?segs = "norm_segs False (split_on SLASH p)"
  have cl: "clean x" if "x \<in> set ?segs" for x using that by (rule norm_segs_abs)
  show ?thesis
  proof (cases "join_with [SLASH] ?segs = []")
    case True
    with assms have "s = []" by (simp add: Paths.normalize_def split: if_splits)
    then show ?thesis by simp
  next
    case False
    then have ne: "?segs \<noteq> []" by auto
    have "split_on SLASH (join_with [SLASH] ?segs) = ?segs"
      by (rule split_join [OF ne]) (use cl in \<open>auto simp: clean_def\<close>)
    with False assms have "s = [] \<or> s \<in> set ?segs"
      by (auto simp: Paths.normalize_def Let_def split_on_append_sep split: if_splits)
    then show ?thesis using cl by (auto simp: clean_def)
  qed
qed

lemma path_join_abs: "a \<noteq> [] \<Longrightarrow> hd a = SLASH \<Longrightarrow> \<exists>q. q \<noteq> [] \<and> hd q = SLASH \<and> path_join a b = normalize q"
proof (cases "b = []")
  case False
  assume "a \<noteq> []" "hd a = SLASH"
  then have "hd (a @ SLASH # b) = SLASH" "path_join a b = normalize (a @ SLASH # b)" using False by (simp_all add: path_join_def)
  then show ?thesis by (metis Nil_is_append_conv list.distinct(1))
qed (auto simp: path_join_def)

lemma index_below:
  assumes ds: "ds \<noteq> []" "\<forall>s \<in> set ds. clean s" and idx: "clean idx"
    and below: "is_below (path_of True ds) target" and dots: "\<And>s. s \<in> set (split_on SLASH target) \<Longrightarrow> s \<noteq> ''.'' \<and> s \<noteq> ''..''"
  shows "is_below (path_of True ds) (path_join target idx)"
proof -
  have idx': "idx \<noteq> []" "last idx \<noteq> SLASH" "split_on SLASH idx = [idx]" "idx \<noteq> ''.''" "idx \<noteq> ''..''"
    using idx by (auto simp: clean_def split_on_no_sep) (metis last_in_set)
  obtain r where r: "path_join target idx = path_join (path_of True ds) r" "r \<noteq> []" "last r \<noteq> SLASH"
    "\<And>s. s \<in> set (split_on SLASH r) \<Longrightarrow> s \<noteq> ''.'' \<and> s \<noteq> ''..''"
  proof (cases "target = path_of True ds")
    case True
    then show thesis using that [of idx] idx' by auto
  next
    case False
    with below obtain t where t: "target = path_of True ds @ SLASH # t"
      by (auto simp: is_below_def startsWith_iff)
    have "path_join target idx = path_join (path_of True ds) (t @ SLASH # idx)"
      using t idx' by (simp add: path_join_def path_of_def)
    then show thesis
      by (rule that) (use idx' dots t in \<open>auto simp: split_on_append_sep\<close>)
  qed
  have "path_join (path_of True ds) r = path_of True (ds @ filter (\<lambda>s. s \<noteq> []) (split_on SLASH r))"
    by (rule path_join_below) (use ds r in auto)
  then show ?thesis using r(1) is_below_path_of [OF ds(1)] by simp
qed

lemma static_pick_below:
  assumes ds: "ds \<noteq> []" "\<forall>s \<in> set ds. clean s" and idx: "\<And>i. so_index opts = Some i \<Longrightarrow> i \<noteq> [] \<Longrightarrow> clean i"
    and pick: "static_pick dec fs (path_of True ds) opts path = Some file"
  shows "is_below (path_of True ds) file \<and> (\<forall>s \<in> set (split_on SLASH file). s \<noteq> ''.'' \<and> s \<noteq> ''..'')"
proof -
  let ?root = "path_of True ds"
  have root: "?root \<noteq> []" "hd ?root = SLASH" by (simp_all add: path_of_def)
  obtain decoded target where t: "static_target ?root decoded = Some target" "static_file fs (so_index opts) target = Some file"
    using pick by (auto simp: static_pick_def bind_eq_Some_conv)
  have below: "is_below ?root target" using t(1) by (auto simp: static_target_def is_below_def Let_def split: if_splits)
  have "\<exists>b. target = path_join ?root b" using t(1) by (auto simp: static_target_def Let_def split: if_splits)
  then have dots: "s \<noteq> ''.'' \<and> s \<noteq> ''..''" if "s \<in> set (split_on SLASH target)" for s
    using that path_join_abs [OF root] normalize_abs_no_dots by metis
  have tg: "target \<noteq> []" "hd target = SLASH"
    using below root by (auto simp: is_below_def startsWith_iff hd_append)
  consider "file = target" | i where "so_index opts = Some i" "i \<noteq> []" "file = path_join target i"
    using t(2) by (auto simp: static_file_def Let_def split: option.splits file_kind.splits if_splits)
  then show ?thesis
  proof cases
    case 1
    then show ?thesis using below dots by blast
  next
    case (2 i)
    have "s \<noteq> ''.'' \<and> s \<noteq> ''..''" if "s \<in> set (split_on SLASH file)" for s
      using that 2(3) path_join_abs [OF tg] normalize_abs_no_dots by metis
    moreover have "is_below ?root file" unfolding 2(3)
      by (rule index_below [OF ds idx [OF 2(1,2)] below dots])
    ultimately show ?thesis by blast
  qed
qed

section \<open>Properties\<close>

lemma timingSafeMatch_iff: "timingSafeMatch token cs \<longleftrightarrow> token \<in> set cs"
proof -
  have "foldl (\<lambda>ok c. if length c = length token \<and> c = token then True else ok) b cs \<longleftrightarrow> b \<or> token \<in> set cs" for b
    by (induction cs arbitrary: b) auto
  then show ?thesis by (simp add: timingSafeMatch_def)
qed

text \<open>A token is accepted when it is a configured one or \<open>verify\<close> returns something truthy for it; \<open>verify\<close> may also throw.\<close>

definition accepted_token :: "auth_options \<Rightarrow> request \<Rightarrow> string \<Rightarrow> bool" where
  "accepted_token opts r t \<longleftrightarrow> t \<noteq> [] \<and>
     ((\<exists>ts. ao_tokens opts = Some ts \<and> t \<in> set ts) \<or> (\<exists>f p. ao_verify opts = Some f \<and> f t r = Ok p \<and> truthy p))"

definition verify_failure :: "auth_options \<Rightarrow> request \<Rightarrow> thrown option" where
  "verify_failure opts r =
     (case bearerToken r of
        None \<Rightarrow> None
      | Some t \<Rightarrow>
          if t = [] then None
          else (case ao_verify opts of None \<Rightarrow> None | Some f \<Rightarrow> (case f t r of Inl e \<Rightarrow> Some e | Inr _ \<Rightarrow> None)))"

text \<open>
  C21: authentication. With \<open>auth\<close> mounted over a path, a request whose bearer token or API key is not accepted, or that has none, never reaches the route, whatever middleware follows. If nothing was sent before: it gets a 401 when it has no token, or \<open>verify\<close> returns a falsy value or is not configured; when \<open>verify\<close> throws, the error goes to the error handlers, and without one the answer has the status of the error (500 unless its fields or its name give one).
\<close>

theorem auth_protects:
  assumes "\<And>t. bearerToken (ex_req x) = Some t \<Longrightarrow> \<not> accepted_token opts (ex_req x) t"
    and "pathMatches mount (rq_path (ex_req x))"
    and out: "out = runMiddleware (chain_of dec router (\<lparr>layer_path = Some mount, layer_handle = as_handler (auth opts),
           layer_isError = False\<rparr> # ls) (rq_path (ex_req x))) x"
  shows "\<not> ch_dispatched out \<and>
    (\<not> rs_sent (ex_res x) \<longrightarrow>
       (case verify_failure opts (ex_req x) of
          None \<Rightarrow> rs_status (ex_res (ch_x out)) = 401
        | Some e \<Rightarrow> (\<forall>l \<in> set ls. \<not> layer_isError l) \<longrightarrow> rs_status (ex_res (ch_x out)) = error_status e))"
proof -
  let ?l = "\<lparr>layer_path = Some mount, layer_handle = as_handler (auth opts), layer_isError = False\<rparr>"
  have pr: "case verify_failure opts (ex_req x) of
      None \<Rightarrow> \<exists>p. principal_of opts t (ex_req x) = Ok p \<and> \<not> truthy p | Some e \<Rightarrow> principal_of opts t (ex_req x) = Throw e"
    if "bearerToken (ex_req x) = Some t" "t \<noteq> []" for t
    using assms(1) [OF that(1)] that
    by (auto simp: accepted_token_def verify_failure_def principal_of_def timingSafeMatch_iff truthy_def split: option.splits sum.splits)
  then have no: "\<not> authenticated opts x" by (force simp: authenticated_def split: option.splits)
  have blocked: "\<not> ch_dispatched out"
    unfolding out using auth_check.protects [OF no, of ?l] assms(2) by simp
  show ?thesis
  proof (cases "verify_failure opts (ex_req x)")
    case None
    then have "fst (auth opts x) = Ok False"
      using pr by (auto simp: auth_def split: option.splits sum.splits)
    then show ?thesis
      using blocked None auth_check.refusal_stands [of opts x ?l] auth_check.refuses [OF no] assms(2) by (simp add: out)
  next
    case (Some e)
    then obtain t where t: "bearerToken (ex_req x) = Some t" "t \<noteq> []" by (auto simp: verify_failure_def split: option.splits if_splits)
    then have "auth opts x = (Throw e, x)" using pr [OF t] Some by (simp add: auth_def)
    then show ?thesis
      using blocked Some auth_check.failure_stands [of opts x e ?l] assms(2)
      by (simp add: out on_res_def finalError_def res_end_def)
  qed
qed

definition demo_get :: "(string \<times> string) list \<Rightarrow> string \<Rightarrow> exchange" where
  "demo_get hs path = (demo_request ''GET'' path)\<lparr>ex_req := (ex_req (demo_request ''GET'' path))\<lparr>rq_headers := hs\<rparr>\<rparr>"

definition expired_token :: thrown where
  "expired_token = plain_error ''Error'' ''jwt expired''"

theorem auth_protects_witness:
  "(let out = runMiddleware (chain_of Some demo_router [\<lparr>layer_path = Some ''/u'', layer_handle = as_handler
       (auth \<lparr>ao_tokens = Some [''s3cret''], ao_verify = Some (\<lambda>t _. if t = ''old'' then Throw expired_token else Ok JNull), ao_attach = None\<rparr>),
       layer_isError = False\<rparr>] ''/u/7'')
     (demo_get [(''authorization'', ''Bearer old'')] ''/u/7'')
    in \<not> ch_dispatched out \<and> rs_status (ex_res (ch_x out)) = 500)"
proof -
  let ?x = "demo_get [(''authorization'', ''Bearer old'')] ''/u/7''"
  let ?o = "\<lparr>ao_tokens = Some [''s3cret''], ao_verify = Some (\<lambda>t _. if t = ''old'' then Throw expired_token else Ok JNull), ao_attach = None\<rparr>"
  have b: "bearerToken (ex_req ?x) = Some ''old''" by code_simp
  have c: "\<not> accepted_token ?o (ex_req ?x) t" if "bearerToken (ex_req ?x) = Some t" for t
    using that b by (auto simp: accepted_token_def)
  have m: "pathMatches ''/u'' (rq_path (ex_req ?x))" by code_simp
  have n: "\<not> rs_sent (ex_res ?x)" by code_simp
  have v: "verify_failure ?o (ex_req ?x) = Some expired_token" by (simp add: verify_failure_def b)
  have "error_status expired_token = 500" by code_simp
  moreover have "rq_path (ex_req ?x) = ''/u/7''" by (simp add: demo_get_def demo_request_def)
  ultimately show ?thesis using auth_protects [OF c m refl, of Some demo_router "[]"] n v by (simp add: Let_def)
qed

text \<open>
  CSRF protection. A state-changing request whose origin (or, without an Origin header, the origin
  of its referer) is not allowed, or, without an allow list, whose host differs from the Host header,
  gets a 403 and does not reach the route; the others pass the check.
\<close>

theorem csrf_protects:
  assumes "\<not> rs_sent (ex_res x)" and "pathMatches mount (rq_path (ex_req x))"
  shows "(same_site url opts x \<longrightarrow> fst (csrf url opts x) = Ok True) \<and>
    (\<not> same_site url opts x \<longrightarrow>
      \<not> ch_dispatched (runMiddleware (chain_of dec router (\<lparr>layer_path = Some mount, layer_handle = as_handler (csrf url opts),
           layer_isError = False\<rparr> # ls) (rq_path (ex_req x))) x) \<and> rs_status (ex_res (snd (csrf url opts x))) = 403)"
proof -
  have out: "\<not> same_site url opts x \<Longrightarrow> fst (csrf url opts x) = Ok False"
    using csrf_check.blocks [of url opts x] by (auto simp: csrf_def Let_def split: option.splits if_splits)
  show ?thesis
    using csrf_check.passes [of url opts x] csrf_check.refuses [of url opts x] out assms
      csrf_check.protects [of url opts x "\<lparr>layer_path = Some mount, layer_handle = as_handler (csrf url opts), layer_isError = False\<rparr>"]
    by auto
qed

definition demo_url :: url_api where
  "demo_url = \<lparr>url_origin = (\<lambda>s. Some s), url_host = (\<lambda>s. if startsWith s ''https://'' then Some (drop 8 s) else None)\<rparr>"

definition demo_post :: "exchange" where
  "demo_post = (demo_request ''POST'' ''/u'')\<lparr>ex_req := (ex_req (demo_request ''POST'' ''/u''))\<lparr>rq_headers :=
     [(''origin'', ''https://evil''), (''host'', ''good'')]\<rparr>\<rparr>"

theorem csrf_protects_witness:
  "rs_status (ex_res (snd (csrf demo_url \<lparr>cf_allowedOrigins = None, cf_safeMethods = None\<rparr> demo_post))) = 403"
proof -
  have n: "\<not> rs_sent (ex_res demo_post)" by code_simp
  have m: "pathMatches ''/u'' (rq_path (ex_req demo_post))" by code_simp
  have "\<not> same_site demo_url \<lparr>cf_allowedOrigins = None, cf_safeMethods = None\<rparr> demo_post" by code_simp
  then show ?thesis
    using csrf_protects [OF n m, of demo_url "\<lparr>cf_allowedOrigins = None, cf_safeMethods = None\<rparr>" Some demo_router "[]"] by blast
qed

text \<open>
  The rate limit is exact within a window. From the request that opens a key's window until the
  window ends, the limiter lets exactly the first \<open>max\<close> requests of that key pass, whatever requests of
  other keys come in between.
\<close>

theorem rate_limit_exact:
  assumes "map_get bs (keyOf r0) = None" and "1 \<le> rl_max opts"
    and "list_all (\<lambda>(t, r). t < t0 + rl_windowMs opts) rs"
  shows "passed keyOf (keyOf r0) (serve_all opts keyOf ((t0, r0) # rs) bs) =
    min (asked keyOf (keyOf r0) ((t0, r0) # rs)) (nat (rl_max opts))"
proof -
  let ?k = "keyOf r0" and ?b = "\<lparr>bk_count = 1, bk_resetAt = t0 + rl_windowMs opts\<rparr>"
  have bump: "bump opts t0 ?k bs = ?b" using assms(1) by (simp add: bump_def)
  have "passed keyOf ?k (serve_all opts keyOf rs (map_set ?k ?b bs)) = min (asked keyOf ?k rs) (nat (rl_max opts - bk_count ?b))"
    by (rule live_bucket_passes) (use assms(3) in \<open>auto simp: jsmap_simps\<close>)
  then show ?thesis
    using assms(2) by (auto simp: serve_all_Cons bump passed_def asked_def simp del: serve_all.simps)
qed

definition two_per_second :: rate_options where
  "two_per_second = \<lparr>rl_max = 2, rl_windowMs = 1000, rl_message = None\<rparr>"

definition anon :: request where
  "anon = ex_req (demo_request ''GET'' ''/'')"

theorem rate_limit_exact_witness:
  "passed clientIp (clientIp anon) (serve_all two_per_second clientIp ((0, anon) # [(10, anon), (999, anon)]) []) = 2"
proof -
  have "passed clientIp (clientIp anon) (serve_all two_per_second clientIp ((0, anon) # [(10, anon), (999, anon)]) []) =
    min (asked clientIp (clientIp anon) ((0, anon) # [(10, anon), (999, anon)])) (nat (rl_max two_per_second))"
    by (rule rate_limit_exact) (simp_all add: two_per_second_def)
  then show ?thesis by (simp add: asked_def two_per_second_def)
qed

text \<open>The window is fixed: four requests pass within two milliseconds under a limit of two per second.\<close>

lemma window_is_not_sliding:
  "map snd (serve_all two_per_second clientIp [(0, anon), (999, anon), (1000, anon), (1001, anon)] []) = [True, True, True, True]"
  by code_simp

text \<open>The default key trusts a header of the client: a new value for every request is never limited.\<close>

lemma forwarded_header_evades_limit:
  "map snd (serve_all \<lparr>rl_max = 1, rl_windowMs = 1000, rl_message = None\<rparr> clientIp
     (map (\<lambda>ip. (0, anon\<lparr>rq_headers := [(''x-forwarded-for'', ip)], rq_remote := Some ''10.0.0.9''\<rparr>)) [''1'', ''2'', ''3'']) []) =
   [True, True, True]"
  by code_simp

text \<open>A JSON body that is a string is parsed twice when the \<open>json\<close> middleware is installed.\<close>

lemma json_body_parsed_twice:
  "readJsonBody (json_text (JStr ''123'')) = JStr ''123'' \<and>
   rq_body (ex_req (snd (json ((demo_get [(''content-type'', ''application/json'')] ''/'')
     \<lparr>ex_req := (ex_req (demo_get [(''content-type'', ''application/json'')] ''/''))\<lparr>rq_body := JStr ''123''\<rparr>\<rparr>)))) = JNum 123"
  by code_simp

text \<open>
  C38: static files stay below their root. Whatever the request path decodes to, a file that
  \<open>serveStatic\<close> serves lies below the configured root directory and its path has no dot segment left;
  a request that would escape falls through to \<open>next()\<close> with the exchange unchanged.
\<close>

theorem static_contained:
  assumes "ds \<noteq> []" and "\<forall>s \<in> set ds. clean s" and "\<And>i. so_index opts = Some i \<Longrightarrow> i \<noteq> [] \<Longrightarrow> clean i"
    and "fst (serveStatic dec fs (path_of True ds) opts x) \<noteq> Ok True \<or> snd (serveStatic dec fs (path_of True ds) opts x) \<noteq> x"
  shows "\<exists>file. static_pick dec fs (path_of True ds) opts (rq_path (ex_req x)) = Some file \<and>
    is_below (path_of True ds) file \<and> (\<forall>s \<in> set (split_on SLASH file). s \<noteq> ''.'' \<and> s \<noteq> ''..'')"
proof -
  obtain f where "static_pick dec fs (path_of True ds) opts (rq_path (ex_req x)) = Some f"
    using assms(4) by (auto simp: serveStatic_def split: if_splits option.splits)
  then show ?thesis using static_pick_below [OF assms(1,2,3)] by blast
qed

definition demo_fs :: static_fs where
  "demo_fs = \<lparr>fs_stat = (\<lambda>p. if p = ''/srv/www/a.css'' then Some FFile else None), fs_read = (\<lambda>p. p)\<rparr>"

theorem static_contained_witness:
  "\<exists>file. static_pick Some demo_fs (path_of True [''srv'', ''www'']) \<lparr>so_index = None, so_prefix = None\<rparr> ''/x/../a.css'' = Some file \<and>
     is_below (path_of True [''srv'', ''www'']) file"
proof -
  have "fst (serveStatic Some demo_fs (path_of True [''srv'', ''www'']) \<lparr>so_index = None, so_prefix = None\<rparr> (demo_get [] ''/x/../a.css'')) = Ok False"
    by code_simp
  then show ?thesis
    using static_contained [of "[''srv'', ''www'']" "\<lparr>so_index = None, so_prefix = None\<rparr>" Some demo_fs "demo_get [] ''/x/../a.css''"]
    by (simp add: clean_def demo_get_def demo_request_def) blast
qed

end
