(* ===== verification/Eval.thy ===== *)
theory Eval
  imports Agent
begin

text \<open>
  The evaluators (\<open>packages/zenzip/src/eval.ts\<close>): the rule-based and the edit-distance scores of an
  output, and the runners that aggregate them. Scores are IEEE doubles in the range 0 to 1, rationals
  rounded by \<open>fl\<close>. A schema and a regular expression are their tests, and an evaluator that throws
  rejects the whole evaluation. A grader's answer may hold a fraction, which is outside the JSON of this
  development: reading its object is an argument of the model-graded evaluator, with \<open>integer_grade\<close> for
  the answers the prompt asks for.
\<close>

section \<open>Samples, results\<close>

record eval_sample =
  es_output :: string
  es_input :: "string option"
  es_expected :: "string option"

record eval_result =
  er_evaluator :: string
  er_score :: rat
  er_passed :: bool
  er_detail :: "string option"

type_synonym evaluator = "eval_sample \<Rightarrow> (exn, eval_result) res"

definition clamp01 :: "rat \<Rightarrow> rat" where
  "clamp01 n = (if n < 0 then 0 else if n > 1 then 1 else n)"

definition verdict :: "string \<Rightarrow> bool \<Rightarrow> string option \<Rightarrow> eval_result" where
  "verdict name passed detail =
     \<lparr>er_evaluator = name, er_score = (if passed then 1 else 0), er_passed = passed, er_detail = detail\<rparr>"

section \<open>Rules\<close>

definition contains :: "string \<Rightarrow> bool \<Rightarrow> evaluator" where
  "contains text ignoreCase s =
     (let hay = (if ignoreCase then toLowerCase (es_output s) else es_output s);
          needle = (if ignoreCase then toLowerCase text else text)
      in Ok (verdict (''contains('' @ quote_str text @ '')'') (str_includes hay needle) None))"

definition matches :: "string \<Rightarrow> (string \<Rightarrow> bool) \<Rightarrow> evaluator" where
  "matches shown re s = Ok (verdict (''matches('' @ shown @ '')'') (re (es_output s)) None)"

definition equals :: "string option \<Rightarrow> evaluator" where
  "equals expected s =
     (let want = (case expected of Some e \<Rightarrow> Some e | None \<Rightarrow> es_expected s)
      in Ok (verdict ''equals'' (case want of None \<Rightarrow> False | Some w \<Rightarrow> trim (es_output s) = trim w) None))"

definition jsonValid :: "(jsval \<Rightarrow> (exn, bool) res) option \<Rightarrow> evaluator" where
  "jsonValid schema s =
     (case JSON_parse (es_output s) of
        None \<Rightarrow> Ok (verdict ''jsonValid'' False (Some ''not valid JSON''))
      | Some v \<Rightarrow>
          (case schema of
             None \<Rightarrow> Ok (verdict ''jsonValid'' True None)
           | Some validate \<Rightarrow>
               rbind (validate v) (\<lambda>passed. Ok (verdict ''jsonValid'' passed (if passed then None else Some ''JSON failed schema'')))))"

section \<open>Edit distance\<close>

text \<open>One row of the table: the new row from its first entry \<open>left\<close>, the character \<open>c\<close> and the row above.\<close>

fun lev_row :: "char \<Rightarrow> nat \<Rightarrow> nat list \<Rightarrow> string \<Rightarrow> nat list" where
  "lev_row c left (diag # up # prev) (b # bs) =
     (let v = min (min (up + 1) (left + 1)) (diag + (if c = b then 0 else 1))
      in left # lev_row c v (up # prev) bs)"
| "lev_row c left prev bs = [left]"

text \<open>The loop over the first string, with the row index \<open>i\<close>.\<close>

fun lev_rows :: "nat \<Rightarrow> string \<Rightarrow> nat list \<Rightarrow> string \<Rightarrow> nat list" where
  "lev_rows i [] prev b = prev"
| "lev_rows i (c # a) prev b = lev_rows (i + 1) a (lev_row c i prev b) b"

definition levenshtein :: "string \<Rightarrow> string \<Rightarrow> nat" where
  "levenshtein a b =
     (if a = [] then length b else if b = [] then length a
      else last (lev_rows 1 a [0..<length b + 1] b))"

definition similarity :: "string option \<Rightarrow> rat \<Rightarrow> string \<Rightarrow> evaluator" where
  "similarity reference threshold shown s =
     (let ref = (case reference of Some r \<Rightarrow> r | None \<Rightarrow> (case es_expected s of Some e \<Rightarrow> e | None \<Rightarrow> []));
          mx = max (length (es_output s)) (length ref);
          score = (if mx = 0 then 1 else clamp01 (fl (1 - fl (of_nat (levenshtein (es_output s) ref) / of_nat mx))))
      in Ok \<lparr>er_evaluator = ''similarity(>='' @ shown @ '')'', er_score = score, er_passed = score \<ge> threshold, er_detail = None\<rparr>)"

section \<open>The model-graded evaluator\<close>

text \<open>
  A grader answers a request, or fails. \<open>jo_read\<close> stands for \<open>JSON.parse\<close> on the object in its answer, with
  the number its score is (\<open>None\<close> for one that is none) and its reason; \<open>None\<close> when it throws.
\<close>

type_synonym grade = "rat option \<times> string option"

record judge_options =
  jo_complete :: "llm_request \<Rightarrow> (exn, llm_response) res"
  jo_model :: string
  jo_rubric :: string
  jo_threshold :: "rat option"
  jo_read :: "string \<Rightarrow> grade option"

definition given :: "string \<Rightarrow> string option \<Rightarrow> string" where
  "given label v = (case v of None \<Rightarrow> [] | Some t \<Rightarrow> if t = [] then [] else label @ t @ NL @ NL)"

definition judge_prompt :: "string \<Rightarrow> eval_sample \<Rightarrow> string" where
  "judge_prompt rubric s =
     ''You are grading an AI output against a rubric.'' @ NL @ NL @ ''Rubric: '' @ rubric @ NL @ NL @
     given ''Input: '' (es_input s) @ given ''Reference answer: '' (es_expected s) @
     ''Output to grade:'' @ NL @ es_output s @ NL @ NL @
     ''Respond with ONLY JSON: {'' @ quote_str ''score'' @ '': <integer 0-10>, '' @ quote_str ''reason'' @ '': '' @ quote_str ''<short>'' @ ''}.''"

text \<open>\<open>/\{[\s\S]*\}/\<close>: from the first opening brace to the last closing one after it.\<close>

definition braced :: "string \<Rightarrow> string option" where
  "braced t =
     (let u = dropWhile (\<lambda>c. c \<noteq> CHR ''{'') t; v = dropWhile (\<lambda>c. c \<noteq> CHR ''}'') (rev u)
      in if v = [] then None else Some (rev v))"

definition judge_score :: "rat option \<Rightarrow> rat" where
  "judge_score n = clamp01 (fl ((case n of Some x \<Rightarrow> x | None \<Rightarrow> 0) / 10))"

definition judged :: "judge_options \<Rightarrow> string \<Rightarrow> rat \<times> string" where
  "judged opts text =
     (let unread = ''unparseable grader response''
      in case Option.bind (braced text) (jo_read opts) of
           None \<Rightarrow> (0, unread)
         | Some grade \<Rightarrow> (judge_score (fst grade), case snd grade of Some r \<Rightarrow> r | None \<Rightarrow> unread))"

definition llmJudge :: "judge_options \<Rightarrow> evaluator" where
  "llmJudge opts s =
     rbind (jo_complete opts
        \<lparr>lr_model = jo_model opts, lr_system = None, lr_messages = [user_text (judge_prompt (jo_rubric opts) s)],
         lr_tools = None, lr_maxTokens = Some 200, lr_temperature = None\<rparr>) (\<lambda>res.
       let threshold = (case jo_threshold opts of Some t \<Rightarrow> t | None \<Rightarrow> 1 / 2);
           score = fst (judged opts (textContent res))
       in Ok \<lparr>er_evaluator = ''llmJudge'', er_score = score, er_passed = score \<ge> threshold,
              er_detail = Some (snd (judged opts (textContent res)))\<rparr>)"

text \<open>The answers the prompt asks for: an object with an integer and a text.\<close>

definition integer_grade :: "string \<Rightarrow> grade option" where
  "integer_grade t =
     (case JSON_parse t of
        None \<Rightarrow> None
      | Some v \<Rightarrow> Some (case get_prop v ''score'' of Some (JNum i) \<Rightarrow> Some (of_int i) | _ \<Rightarrow> None,
                       case get_prop v ''reason'' of Some (JStr r) \<Rightarrow> Some r | _ \<Rightarrow> None))"

section \<open>Runners\<close>

record evaluation_report =
  rep_results :: "eval_result list"
  rep_score :: rat
  rep_passed :: bool

text \<open>\<open>Promise.all\<close>: the results in order, or the error of one that throws (here the first).\<close>

definition evaluate :: "eval_sample \<Rightarrow> evaluator list \<Rightarrow> (exn, evaluation_report) res" where
  "evaluate sample evaluators =
     rbind (rmap (\<lambda>e. e sample) evaluators) (\<lambda>results.
         Ok \<lparr>rep_results = results,
          rep_score = (if results = [] then 1
             else fl (foldl (\<lambda>a r. fl (a + er_score r)) 0 results / of_nat (length results))),
          rep_passed = list_all er_passed results\<rparr>)"

record suite_report =
  su_cases :: "evaluation_report list"
  su_passRate :: rat
  su_passed :: bool

definition runEvals :: "eval_sample list \<Rightarrow> evaluator list \<Rightarrow> (exn, suite_report) res" where
  "runEvals samples evaluators =
     rbind (rmap (\<lambda>s. evaluate s evaluators) samples) (\<lambda>cases.
       let passing = length (filter rep_passed cases)
       in Ok \<lparr>su_cases = cases, su_passRate = (if cases = [] then 1 else fl (of_nat passing / of_nat (length cases))),
          su_passed = list_all rep_passed cases\<rparr>)"

section \<open>The edit distance is the least number of edits\<close>

text \<open>
  The specification: an alignment that turns one list into another by inserting, deleting and replacing
  elements, with its number of edits.
\<close>

inductive edits :: "'a list \<Rightarrow> 'a list \<Rightarrow> nat \<Rightarrow> bool" where
  nil: "edits [] [] 0"
| ins: "edits as bs n \<Longrightarrow> edits as (b # bs) (Suc n)"
| del: "edits as bs n \<Longrightarrow> edits (a # as) bs (Suc n)"
| sub: "edits as bs n \<Longrightarrow> edits (a # as) (b # bs) (n + (if a = b then 0 else 1))"

fun lev :: "'a list \<Rightarrow> 'a list \<Rightarrow> nat" where
  "lev [] bs = length bs"
| "lev as [] = length as"
| "lev (a # as) (b # bs) =
     min (min (lev as (b # bs) + 1) (lev (a # as) bs + 1)) (lev as bs + (if a = b then 0 else 1))"

lemma lev_Nil [simp]: "lev as [] = length as"
  by (cases as) simp_all

lemma lev_ins: "lev as (b # bs) \<le> lev as bs + 1"
  by (cases as) simp_all

lemma lev_del: "lev (a # as) bs \<le> lev as bs + 1"
  by (cases bs) simp_all

lemma edits_lower: "edits as bs n \<Longrightarrow> lev as bs \<le> n"
proof (induction rule: edits.induct)
  case (ins as bs n b)
  then show ?case using lev_ins [of as b bs] by linarith
next
  case (del as bs n a)
  then show ?case using lev_del [of a as bs] by linarith
qed auto

lemma edits_append: "edits as bs m \<Longrightarrow> edits cs ds n \<Longrightarrow> edits (as @ cs) (bs @ ds) (m + n)"
proof (induction rule: edits.induct)
  case (sub as bs m a b)
  then show ?case using edits.sub [of "as @ cs" "bs @ ds" "m + n" a b] by (simp add: ac_simps)
qed (auto intro: edits.ins edits.del)

lemma edits_rev: "edits as bs n \<Longrightarrow> edits (rev as) (rev bs) n"
proof (induction rule: edits.induct)
  case (ins as bs n b)
  then show ?case using edits_append [OF ins.IH edits.ins [OF edits.nil, of b]] by simp
next
  case (del as bs n a)
  then show ?case using edits_append [OF del.IH edits.del [OF edits.nil, of a]] by simp
next
  case (sub as bs n a b)
  then show ?case using edits_append [OF sub.IH edits.sub [OF edits.nil, of a b]] by simp
qed (simp add: edits.nil)

lemma edits_lev: "edits as bs (lev as bs)"
proof (induction as bs rule: lev.induct)
  case (1 bs)
  show ?case by (induction bs) (auto intro: edits.intros)
next
  case (2 a as)
  have "edits xs [] (length xs)" for xs :: "'a list" by (induction xs) (auto intro: edits.intros)
  from this [of "a # as"] show ?case by simp
next
  case (3 a as b bs)
  then show ?case using edits.del [OF 3(1), of a] edits.ins [OF 3(2), of b] edits.sub [OF 3(3), of a b]
    by (simp add: min_def)
qed

text \<open>Row \<open>i\<close> of the table holds the distances of the first \<open>i\<close> characters to every prefix of \<open>b\<close>.\<close>

definition lev_prefixes :: "string \<Rightarrow> string \<Rightarrow> nat \<Rightarrow> nat list" where
  "lev_prefixes a b k = map (\<lambda>j. lev (rev a) (rev (take j b))) [k..<length b + 1]"

lemma lev_prefixes_step:
  "k < length b \<Longrightarrow> lev_prefixes a b k = lev (rev a) (rev (take k b)) # lev_prefixes a b (Suc k)"
  by (simp add: lev_prefixes_def upt_conv_Cons)

lemma lev_prefixes_last: "lev_prefixes a b (length b) = [lev (rev a) (rev b)]"
  by (simp add: lev_prefixes_def)

lemma lev_row_prefixes:
  "k \<le> length b \<Longrightarrow>
   lev_row c (lev (rev (a @ [c])) (rev (take k b))) (lev_prefixes a b k) (drop k b) = lev_prefixes (a @ [c]) b k"
proof (induction "length b - k" arbitrary: k)
  case 0
  then have "k = length b" by simp
  then show ?case by (simp add: lev_prefixes_last)
next
  case (Suc n)
  then have k: "k < length b" by simp
  have drop: "drop k b = b ! k # drop (Suc k) b" and take: "take (Suc k) b = take k b @ [b ! k]"
    using k by (simp_all add: Cons_nth_drop_Suc take_Suc_conv_app_nth)
  obtain up rest where up: "lev_prefixes a b (Suc k) = up # rest" "up = lev (rev a) (rev (take (Suc k) b))"
    using k by (cases "Suc k < length b") (auto simp: lev_prefixes_def upt_conv_Cons)
  have "min (min (up + 1) (lev (rev (a @ [c])) (rev (take k b)) + 1)) (lev (rev a) (rev (take k b)) + (if c = b ! k then 0 else 1)) =
      lev (rev (a @ [c])) (rev (take (Suc k) b))"
    by (simp add: up(2) take)
  then show ?case
    using Suc.hyps(1) [of "Suc k"] Suc.hyps(2) k by (simp add: lev_prefixes_step [OF k] drop up Let_def)
qed

lemma lev_rows_prefixes: "lev_rows (length p + 1) a (lev_prefixes p b 0) b = lev_prefixes (p @ a) b 0"
proof (induction a arbitrary: p)
  case (Cons c a)
  have "lev_row c (length p + 1) (lev_prefixes p b 0) b = lev_prefixes (p @ [c]) b 0"
    using lev_row_prefixes [of 0 b c p] by simp
  then show ?case using Cons [of "p @ [c]"] by simp
qed simp

lemma levenshtein_lev: "levenshtein a b = lev (rev a) (rev b)"
proof -
  have "lev_prefixes [] b 0 = [0..<length b + 1]"
    by (auto simp: lev_prefixes_def min_def intro!: nth_equalityI)
  moreover have "last (lev_prefixes x b 0) = lev (rev x) (rev b)" for x
    by (simp add: lev_prefixes_def last_map)
  ultimately show ?thesis using lev_rows_prefixes [of "[]" a b] by (simp add: levenshtein_def)
qed

text \<open>
  the two-row edit distance is exact. The loop's result is the least number of single-character
  insertions, deletions and replacements that turn one string into the other: some sequence of edits has
  that length and none is shorter.
\<close>

theorem levenshtein_least:
  "edits a b (levenshtein a b) \<and> (\<forall>n. edits a b n \<longrightarrow> levenshtein a b \<le> n)"
  using edits_rev [OF edits_lev [of "rev a" "rev b"]] edits_lower [OF edits_rev]
  by (auto simp: levenshtein_lev)

theorem levenshtein_least_witness:
  "edits ''kitten'' ''sitting'' 3 \<and> \<not> edits ''kitten'' ''sitting'' 2"
proof -
  have "levenshtein ''kitten'' ''sitting'' = 3" by code_simp
  then show ?thesis using levenshtein_least [of "''kitten''" "''sitting''"] by fastforce
qed

section \<open>Scores stay between 0 and 1\<close>

lemma clamp01_range: "0 \<le> clamp01 x \<and> clamp01 x \<le> 1"
  by (simp add: clamp01_def)

lemma judged_range: "0 \<le> fst (judged opts t) \<and> fst (judged opts t) \<le> 1"
  using clamp01_range by (simp add: judged_def judge_score_def Let_def split: option.split)

definition fair_score :: "eval_result \<Rightarrow> bool" where
  "fair_score r \<longleftrightarrow> 0 \<le> er_score r \<and> er_score r \<le> 1"

lemma fair_scores:
  "contains text ic s = Ok r \<Longrightarrow> fair_score r"
  "matches shown re s = Ok r \<Longrightarrow> fair_score r"
  "equals expected s = Ok r \<Longrightarrow> fair_score r"
  "jsonValid schema s = Ok r \<Longrightarrow> fair_score r"
  "similarity reference threshold shown s = Ok r \<Longrightarrow> fair_score r"
  "llmJudge opts s = Ok r \<Longrightarrow> fair_score r"
  using clamp01_range judged_range
  by (auto simp: fair_score_def contains_def matches_def equals_def jsonValid_def verdict_def similarity_def llmJudge_def
      Let_def res_simps split: option.splits if_splits prod.splits)

lemma rmap_all2: "rmap f xs = Ok ys \<longleftrightarrow> list_all2 (\<lambda>x y. f x = Ok y) xs ys"
proof (induction xs arbitrary: ys)
  case (Cons x xs)
  then show ?case by (cases ys) (auto simp: res_simps split: sum.splits)
qed auto

text \<open>A suite that ends has run every evaluator on every sample, and passes exactly when all of them passed.\<close>

lemma evaluate_passed_iff:
  assumes "evaluate s evaluators = Ok rep"
  shows "rep_passed rep \<longleftrightarrow> (\<forall>e \<in> set evaluators. \<exists>r. e s = Ok r \<and> er_passed r)"
proof -
  obtain rs where rs: "list_all2 (\<lambda>e r. e s = Ok r) evaluators rs" "rep_passed rep = list_all er_passed rs"
    using assms by (auto simp: evaluate_def rmap_all2 [symmetric] res_simps split: sum.splits)
  from rs(1) have "list_all er_passed rs = (\<forall>e \<in> set evaluators. \<exists>r. e s = Ok r \<and> er_passed r)"
    by (induction rule: list_all2_induct) auto
  with rs(2) show ?thesis by simp
qed

lemma runEvals_passed_iff:
  assumes "runEvals samples evaluators = Ok suite"
  shows "su_passed suite \<longleftrightarrow> (\<forall>s \<in> set samples. \<forall>e \<in> set evaluators. \<exists>r. e s = Ok r \<and> er_passed r)"
proof -
  obtain cs where cs: "list_all2 (\<lambda>s c. evaluate s evaluators = Ok c) samples cs" "su_passed suite = list_all rep_passed cs"
    using assms by (auto simp: runEvals_def rmap_all2 [symmetric] Let_def res_simps split: sum.splits)
  from cs(1) have "list_all rep_passed cs = (\<forall>s \<in> set samples. \<forall>e \<in> set evaluators. \<exists>r. e s = Ok r \<and> er_passed r)"
    by (induction rule: list_all2_induct) (auto simp: evaluate_passed_iff)
  with cs(2) show ?thesis by simp
qed

text \<open>A grader whose answer holds no readable object gives the lowest score, whatever the output is.\<close>

lemma unreadable_grade:
  assumes "jo_complete opts
      \<lparr>lr_model = jo_model opts, lr_system = None, lr_messages = [user_text (judge_prompt (jo_rubric opts) s)],
       lr_tools = None, lr_maxTokens = Some 200, lr_temperature = None\<rparr> = Ok res"
    and "Option.bind (braced (textContent res)) (jo_read opts) = None"
  shows "llmJudge opts s =
    Ok \<lparr>er_evaluator = ''llmJudge'', er_score = 0, er_passed = 0 \<ge> (case jo_threshold opts of Some t \<Rightarrow> t | None \<Rightarrow> 1 / 2),
        er_detail = Some ''unparseable grader response''\<rparr>"
  using assms by (simp add: llmJudge_def judged_def Let_def)

text \<open>A well-formed grade among other text, and two objects, of which the pattern takes all from the first to the last brace.\<close>

lemma graded:
  "Option.bind (braced (''Sure: {'' @ quote_str ''score'' @ '': 8, '' @ quote_str ''reason'' @ '': '' @ quote_str ''good'' @ ''}.'')) integer_grade =
     Some (Some 8, Some ''good'')"
  by code_simp

lemma two_objects_unreadable:
  "Option.bind (braced (''{'' @ quote_str ''score'' @ '': 8} {}'')) integer_grade = None"
  by code_simp

end
