(* ===== verification/Spec2Isabelle.thy ===== *)
theory Spec2Isabelle
  imports Worker Redelivery Parallel Scaffold Embeddings Page Crypto Dashboard Interruptions Scheduler Cli Server Streaming Chat_Providers Fetch Integrations Network Ops Mcp Testing Lifecycle Machine Duration Json Namespaces Payload Attempt Resilience Routing Http Middleware Ssrf Queue Agent Memory Eval Config
begin

text \<open>
  ZenZip, a verification development.

  \<^bold>\<open>The program.\<close> ZenZip is a framework for durable background work: queues, workflows whose steps survive a
  crash, agents, schedules, state machines and an HTTP layer. The TypeScript package
  (\<open>packages/zenzip/src\<close>) is the program a user calls; a Rust engine (\<open>crates/zenzip-core\<close>) stores jobs, runs,
  journals and events, and calls the package back to execute jobs and attempts. Everything that crosses the
  border is a JSON text. The application object (\<open>app.ts\<close>) owns the registries; \<open>start\<close> translates them into
  registrations with the engine; while it runs, handles (queue, workflow, agent, machine) call the engine, the
  engine calls the executors, and the HTTP layer triggers workflows.

  \<^bold>\<open>What models what.\<close>
  \<^item> \<open>Prelude\<close>: results of calls that may throw, JavaScript maps and strings. \<open>Doubles\<close>: IEEE doubles as rounded
    rationals. \<open>Paths\<close>: \<open>node:path\<close>. \<open>Json\<close>: values, \<open>JSON.stringify\<close>, \<open>JSON.parse\<close>.
  \<^item> \<open>Duration\<close> (\<open>duration.ts\<close>), \<open>Events\<close> (\<open>events.ts\<close>, the subscribers of \<open>app.ts\<close>, \<open>event_matches\<close> of
    \<open>workflow.rs\<close>), \<open>Namespaces\<close> (\<open>namespace.ts\<close>), \<open>Config\<close> (\<open>config.ts\<close>), \<open>Ssrf\<close> (\<open>ssrf.ts\<close>), \<open>Resilience\<close>
    (\<open>resilience.ts\<close>), \<open>Eval\<close> (\<open>eval.ts\<close>), \<open>Testing\<close> (\<open>testing.ts\<close>).
  \<^item> \<open>Workflow\<close> and \<open>Attempt\<close> (\<open>workflow.ts\<close>, \<open>ExecOutcome\<close> of \<open>workflow.rs\<close>): the five step calls over the state
    of an attempt (ids used, world, steps recorded), user code as the tree of its step calls, one execution
    attempt, version routing, the workflow handle. \<open>Parallel\<close>: \<open>step.all\<close> as threads that are resumed in any
    order. \<open>Redelivery\<close> (\<open>app.ts\<close>, \<open>workflow.ts\<close>, \<open>workflow.rs\<close>): the executor registered for a workflow, its
    bodies acting on a world, under the engine's \<open>execute\<close>, dying and delivered again. \<open>Payload\<close> (\<open>payload.ts\<close>): offloading of large results.
  \<^item> \<open>Jobs\<close> (\<open>sqlite.rs\<close>, \<open>store.rs\<close>, \<open>queue.rs\<close>): the job table, one function per SQL statement (the plain, the
    keyed and the fair claim), workers and sweeper as a step relation. \<open>Claims\<close>: the limit per key and fairness
    over it. \<open>Worker\<close> (\<open>queue.rs\<close>, \<open>metrics.rs\<close>): one worker among others, with its permits, its token bucket,
    its groups, their leases and their settlement, member by member or all at once. \<open>Crypto\<close> (\<open>crypto.rs\<close>): payloads encrypted at rest. \<open>Queue\<close> (\<open>queue.ts\<close>): the handle over that table.
  \<^item> \<open>Programs\<close>: operations that call the store several times, as programs of transactions that run to the
    end, crash between two of them, or interleave. \<open>Run_Store\<close> (\<open>sqlite.rs\<close>, \<open>store.rs\<close>): runs, step journals,
    events, one function per statement or transaction. \<open>Engine\<close> (\<open>workflow.rs\<close>): trigger, emit, cancel, the
    timeout sweep, executing an attempt, applying its outcome, child runs, retention and erasure.
    \<open>Wakeups\<close>: which runs have a job, over workers, clients, sweeps, operators, retention and erasure. \<open>Interruptions\<close>: whole operations against interrupted ones.
    \<open>Scheduler\<close> (\<open>scheduler.rs\<close>, \<open>sqlite.rs\<close>): catch-up at boot and the polling loop of several nodes, an upsert as
    its two statements; the claims, fires and times written back are kept as a history for the theorems.
  \<^item> \<open>Llm\<close> (\<open>llm/types.ts\<close>, \<open>llm/pricing.ts\<close>), \<open>Memory\<close> and \<open>Embeddings\<close> (\<open>memory.ts\<close>), \<open>Agent\<close> (\<open>agent.ts\<close>): the agent loop is a
    workflow function of \<open>Workflow\<close>. \<open>Network\<close> (\<open>network.ts\<close>): coordinators. \<open>Mcp\<close> (\<open>mcp-server.ts\<close>, \<open>mcp.ts\<close>).
    \<open>Providers\<close>, \<open>Streaming\<close> (\<open>llm/anthropic.ts\<close>), \<open>Chat_Providers\<close> (\<open>llm/openai.ts\<close>, \<open>google.ts\<close>,
    \<open>bedrock.ts\<close>): the provider adapters; \<open>Integrations\<close> (\<open>integrations.ts\<close>, \<open>llm/mock.ts\<close>).
  \<^item> \<open>Routing\<close> (\<open>http.ts\<close>, \<open>router.ts\<close>), \<open>Middleware_Chain\<close> and \<open>Http\<close> (\<open>express.ts\<close>, \<open>http.ts\<close>), \<open>Middleware\<close>
    (\<open>middleware.ts\<close>), \<open>Fetch\<close> (\<open>fetch.ts\<close>), \<open>Server\<close> (\<open>http.ts\<close>: serving and draining), \<open>Dashboard\<close>
    (\<open>dashboard.ts\<close>: roles, routes, the live stream), \<open>Page\<close> (the script of its page). \<open>Cli\<close> (\<open>cli.ts\<close>): commands and the doctor's report.
    \<open>Scaffold\<close> (\<open>create-zenzip-app/bin/index.mjs\<close>): the project generator.
  \<^item> \<open>Machine\<close> (\<open>machine.ts\<close>, \<open>runtime.rs\<close>, \<open>sqlite.rs\<close>): the handle, the engine's optimistic transition, committed
    with its event in one transaction on the tables of \<open>Run_Store\<close>; other clients act between its read and its write.
  \<^item> \<open>App\<close>, \<open>Lifecycle\<close>, \<open>Ops\<close> (\<open>app.ts\<close>): registries and guards, start and stop, what the engine has been told,
    operating a running application.

  A class with mutable fields is a record, its methods functions that return it updated; a call that may throw
  returns \<open>Throw\<close> or \<open>Ok\<close> (a sum); an \<open>await\<close> at which others may run splits an operation in two or makes it a
  step of a relation. User code, the engine where it is not modelled, the file system, DNS, \<open>URL\<close>, timers and
  clocks are arguments; where a theorem needs something of them, it is a hypothesis that a witness discharges.

  \<^bold>\<open>What is shown.\<close>
  \<^item> Durability: an attempt that dies after any number of step calls and is retried with the journal does
    exactly what one uninterrupted attempt does, for workflows and for agents, with or without offloading; no
    step is recorded twice; the outcome text decodes to what the function did. With the engine on the other
    side: deliveries that die after any of their transactions leave the store and the world, once one ends, as a
    single delivery does, if the bodies cut short may be repeated. A block of parallel steps, under any schedule and
    after any crash, runs only the steps not yet recorded and gives the values in their order.
  \<^item> The engine: whatever interleaves and crashes, a recorded step keeps its result until retention or erasure takes
    its run, and an idempotency key has one run; with operations that run to their end no run that can go on is
    without a job; an event is one transaction that wakes and starts exactly what it should; a child's result reaches
    its parent. A tick of a schedule is claimed once on any number of nodes, and once more for each upsert that wrote
    an older time back, which a boot beside a running node can do (a finding); missed ticks are caught up as the
    policy says.
  \<^item> Queues: no job is tried more often than its budget; a worker that lost its lease changes nothing; an
    expired job is recovered or buried; the pending bound holds; what is pushed is what is delivered. The limit
    per concurrency key holds in every reachable table, a fair claim spreads over the keys, and a worker keeps
    to its permits, group sizes and tokens while all it does are steps of the job table. A table of encrypted
    payloads answers as the plain one does.
  \<^item> HTTP: the trie implements an association of patterns and handlers; the chain runs in order and ends; a
    guard that does not call \<open>next\<close> keeps the route behind it from running, and the built-in checks are such
    guards; static files stay below their root; the rate limit is exact within a window; the dashboard lets
    viewers only read, and no data it shows adds markup to its page; a drain cuts no request before its deadline and resolves once. A clean report of the
    doctor means a healthy store.
  \<^item> Agents: tools that need approval run only after it; model calls and tokens are bounded; a coordinator
    reaches exactly the member it names; the MCP endpoint runs only what it exposes to those with the token,
    and a connected client gets the tool's answer back; streaming returns the response of the plain call.
  \<^item> Application: the invariant of the registries over every life cycle, the engine knows exactly what is
    registered while the application runs, nothing registered is replaced, restarting changes no route; the update stream, bulk
    cancellation; the history of a state machine is a path of its definition.
  \<^item> Findings are lemmas at the end of the theories: concrete runs in which the code does not do what its
    documentation says, or what it evidently means to do.

  \<^bold>\<open>Interfaces.\<close> Locales state what one part relies on: \<open>registry\<close> (maps), \<open>json_codec\<close>, \<open>blob_store\<close>,
  \<open>job_store\<close>, \<open>route_table\<close>, \<open>http_check\<close>, \<open>chain_invariant\<close>. Each is interpreted on the model's own
  definitions in the theory that provides them.

  \<^bold>\<open>Fuel and bounds.\<close> The JSON parser takes the length of the text plus one, enough for any value it can hold.
  The middleware chain takes twice the number of layers plus three, since every call of \<open>next\<close> or of the error
  pass moves past a layer; it is proved never to run out. A transition of a state machine is tried three times,
  as in the engine. The polling wait is a partial function, proved to return when time passes. Strings have the
  code units 0 to 255; JSON numbers are integers; dashes and arrows in messages are written in ASCII.

  \<^bold>\<open>Granularity.\<close> A transaction of the store, or a statement outside one, is one step. Coarser than that: the two
  statements of the sweep of expired jobs are one step, and an operation of the queue handle or of \<open>Wakeups\<close> runs to
  its end. A handler of the HTTP chain runs to its end within \<open>next\<close>; a promise that rejects later is a throw.

  \<^bold>\<open>Not modelled.\<close> The styles and the static markup of the dashboard's page; failures of the store other than a claim or
  a settlement that the worker sees fail; the start and shutdown of the engine's tasks and
  its Postgres statements; numbers with a fraction inside JSON, whose reading is an argument where the source does
  it (embeddings, grades); the generated loader of the native binding; the documentation site, benchmarks and
  examples.
\<close>

end
